(* ===== verification/Prelude.thy ===== *)
theory Prelude
  imports Main "HOL-Library.Char_ord" "HOL-Library.List_Lexorder" "HOL-Library.AList"
    "HOL-Library.Code_Target_Numeral"
begin

text \<open>
  Shared vocabulary of the development: Go byte strings and the functions of Go's
  \<open>bytes\<close>, \<open>strings\<close> and \<open>strconv\<close> packages the sources call, with the generic
  lemmas about them that the component theories use.

  A Go \<open>string\<close> or \<open>[]byte\<close> is the list of its bytes: an Isabelle \<open>char\<close> is one
  byte, so \<open>length\<close> is Go's \<open>len\<close>. A nil byte slice and an empty one are both \<open>[]\<close>;
  no definition of the model distinguishes them where the code does.
\<close>

named_theorems go_defs \<open>definitions of the Go library functions, for evaluation\<close>

type_synonym bytes = "char list"

abbreviation byte :: "char \<Rightarrow> nat" where
  "byte \<equiv> of_char"

text \<open>The ASCII characters that cannot be written inside a string literal comfortably.\<close>

abbreviation quote_char :: char where "quote_char \<equiv> CHR 0x22"
abbreviation backslash :: char where "backslash \<equiv> CHR 0x5C"

subsection \<open>Prefixes, suffixes and substring search\<close>

definition has_prefix :: "bytes \<Rightarrow> bytes \<Rightarrow> bool" where
  "has_prefix s p = (take (length p) s = p)"

definition has_suffix :: "bytes \<Rightarrow> bytes \<Rightarrow> bool" where
  "has_suffix s p = (length p \<le> length s \<and> drop (length s - length p) s = p)"

text \<open>\<open>strings.Index\<close>: the offset of the first occurrence, \<open>None\<close> for Go's -1.\<close>

fun index_of :: "bytes \<Rightarrow> bytes \<Rightarrow> nat option" where
  "index_of [] p = (if p = [] then Some 0 else None)"
| "index_of (c # s) p =
     (if has_prefix (c # s) p then Some 0 else map_option Suc (index_of s p))"

text \<open>\<open>strings.LastIndex\<close>: the offset of the last occurrence.\<close>

fun last_index_of :: "bytes \<Rightarrow> bytes \<Rightarrow> nat option" where
  "last_index_of [] p = (if p = [] then Some 0 else None)"
| "last_index_of (c # s) p =
     (case last_index_of s p of
        Some i \<Rightarrow> Some (Suc i)
      | None \<Rightarrow> if has_prefix (c # s) p then Some 0 else None)"

definition contains :: "bytes \<Rightarrow> bytes \<Rightarrow> bool" where
  "contains s p = (index_of s p \<noteq> None)"

lemmas [go_defs] = has_prefix_def has_suffix_def contains_def

lemma has_prefix_append [simp]: "has_prefix (p @ s) p"
  by (simp add: has_prefix_def)

lemma has_prefix_iff: "has_prefix s p \<longleftrightarrow> (\<exists>r. s = p @ r)"
  by (metis append_eq_conv_conj append_take_drop_id has_prefix_def)

lemma has_prefix_Cons [simp]: "has_prefix (c # s) (d # p) \<longleftrightarrow> c = d \<and> has_prefix s p"
  by (auto simp: has_prefix_def)

lemma has_prefix_Nil [simp]: "has_prefix s []" "has_prefix [] (d # p) = False"
  by (auto simp: has_prefix_def)

lemma has_suffix_iff: "has_suffix s p \<longleftrightarrow> (\<exists>r. s = r @ p)"
proof
  assume "has_suffix s p"
  then have "s = take (length s - length p) s @ p"
    by (metis append_take_drop_id has_suffix_def)
  then show "\<exists>r. s = r @ p" ..
qed (auto simp: has_suffix_def)

lemma index_of_split:
  "index_of s p = Some i \<Longrightarrow> \<exists>r. s = take i s @ p @ r \<and> i + length p \<le> length s"
proof (induction s arbitrary: i)
  case Nil
  then show ?case by (auto split: if_splits)
next
  case (Cons c s)
  show ?case
  proof (cases "has_prefix (c # s) p")
    case True
    with Cons.prems have "i = 0" by simp
    with True show ?thesis by (metis append_Nil has_prefix_iff length_append
          le_add1 plus_nat.add_0 take0)
  next
    case False
    with Cons.prems obtain j where "index_of s p = Some j" "i = Suc j" by auto
    with Cons.IH show ?thesis by fastforce
  qed
qed

lemma index_of_append_exists: "\<exists>i. index_of (v @ p @ r) p = Some i \<and> i \<le> length v"
proof (induction v)
  case Nil
  have "has_prefix (p @ r) p" by simp
  then show ?case by (cases "p @ r") auto
next
  case (Cons c v)
  then obtain i where "index_of (v @ p @ r) p = Some i" "i \<le> length v" by blast
  then show ?case by auto
qed

lemma index_of_None_has_prefix: "index_of s p = None \<Longrightarrow> \<not> has_prefix s p"
  by (cases s) (auto split: if_splits simp: has_prefix_def)

lemma last_index_of_split:
  "last_index_of s p = Some i \<Longrightarrow> \<exists>r. s = take i s @ p @ r \<and> i + length p \<le> length s"
proof (induction s arbitrary: i)
  case Nil
  then show ?case by (auto split: if_splits)
next
  case (Cons c s)
  show ?case
  proof (cases "last_index_of s p")
    case (Some j)
    with Cons show ?thesis by fastforce
  next
    case None
    with Cons.prems have "has_prefix (c # s) p" "i = 0" by (auto split: if_splits)
    then show ?thesis by (metis append_Nil has_prefix_iff length_append
          le_add1 plus_nat.add_0 take0)
  qed
qed

lemma last_index_of_ge:
  "s = u @ p @ r \<Longrightarrow> \<exists>i. last_index_of s p = Some i \<and> length u \<le> i"
proof (induction s arbitrary: u)
  case Nil
  then show ?case by simp
next
  case (Cons c s)
  show ?case
  proof (cases u)
    case Nil
    with Cons.prems have "has_prefix (c # s) p" by (simp add: has_prefix_iff)
    with Nil show ?thesis by (auto split: option.splits)
  next
    case (Cons d u')
    with Cons.prems have "s = u' @ p @ r" by simp
    from Cons.IH [OF this] obtain i where "last_index_of s p = Some i" "length u' \<le> i" by blast
    with Cons show ?thesis by simp
  qed
qed

text \<open>The last occurrence of a separator that the tail does not contain is the separator itself.\<close>

lemma last_index_of_single:
  assumes "c \<notin> set t"
  shows "last_index_of (u @ [c] @ t) [c] = Some (length u)"
proof -
  have none: "last_index_of t [c] = None"
    using assms by (induction t) auto
  show ?thesis by (induction u) (auto simp: none)
qed

subsection \<open>White space\<close>

text \<open>
  \<open>bytes.TrimSpace\<close> and \<open>strings.TrimSpace\<close> remove Unicode white space at both ends. The
  ASCII part is tab, line feed, vertical tab, form feed, carriage return and space; the
  rest are the UTF-8 encodings of U+0085, U+00A0, U+1680, U+2000 to U+200A, U+2028, U+2029,
  U+202F, U+205F and U+3000.
\<close>

definition ascii_space :: "char \<Rightarrow> bool" where
  "ascii_space c = (byte c \<in> {9, 10, 11, 12, 13, 32})"

definition unicode_spaces :: "nat list list" where
  "unicode_spaces =
     [[0xC2, 0x85], [0xC2, 0xA0], [0xE1, 0x9A, 0x80], [0xE2, 0x80, 0xA8], [0xE2, 0x80, 0xA9],
      [0xE2, 0x80, 0xAF], [0xE2, 0x81, 0x9F], [0xE3, 0x80, 0x80]]
     @ map (\<lambda>b. [0xE2, 0x80, b]) [0x80 ..< 0x8B]"

text \<open>The number of bytes of the white space rune a string starts with, 0 when it starts with none.\<close>

definition space_width :: "nat list list \<Rightarrow> bytes \<Rightarrow> nat" where
  "space_width sps s =
     (case s of [] \<Rightarrow> 0
      | c # _ \<Rightarrow> if ascii_space c then 1
                else (case find (\<lambda>w. map byte (take (length w) s) = w) sps of
                        Some w \<Rightarrow> length w | None \<Rightarrow> 0))"

fun trim_spaces :: "nat list list \<Rightarrow> nat \<Rightarrow> bytes \<Rightarrow> bytes" where
  "trim_spaces sps 0 s = s"
| "trim_spaces sps (Suc n) s =
     (let w = space_width sps s in if w = 0 then s else trim_spaces sps n (drop w s))"

definition trim_left :: "bytes \<Rightarrow> bytes" where
  "trim_left s = trim_spaces unicode_spaces (length s) s"

definition trim_right :: "bytes \<Rightarrow> bytes" where
  "trim_right s = rev (trim_spaces (map rev unicode_spaces) (length s) (rev s))"

definition trim_space :: "bytes \<Rightarrow> bytes" where
  "trim_space s = trim_right (trim_left s)"

lemmas [go_defs] =
  ascii_space_def space_width_def trim_left_def trim_right_def trim_space_def

text \<open>
  A string whose first and last bytes are ASCII and no white space is left as it is. Every
  JSON value is such a string, so trimming a decoded raw member changes nothing.
\<close>

definition tight :: "bytes \<Rightarrow> bool" where
  "tight s = (s \<noteq> [] \<and> byte (hd s) < 128 \<and> \<not> ascii_space (hd s)
                \<and> byte (last s) < 128 \<and> \<not> ascii_space (last s))"

lemma space_width_tight:
  assumes "s \<noteq> []" "byte (hd s) < 128" "\<not> ascii_space (hd s)"
    and "\<forall>w \<in> set sps. w \<noteq> [] \<and> 128 \<le> hd w"
  shows "space_width sps s = 0"
proof -
  obtain c r where s: "s = c # r" using assms(1) by (cases s) auto
  have "find (\<lambda>w. map byte (take (length w) s) = w) sps = None"
    unfolding find_None_iff
  proof
    assume "\<exists>w. w \<in> set sps \<and> map byte (take (length w) s) = w"
    then obtain w where w: "w \<in> set sps" "map byte (take (length w) s) = w" by blast
    with assms(4) obtain b v where "w = b # v" "128 \<le> b" by (cases w) auto
    with w(2) s assms(2) show False by simp
  qed
  with s assms(3) show ?thesis by (simp add: space_width_def)
qed

lemma unicode_spaces_high:
  "\<forall>w \<in> set unicode_spaces. w \<noteq> [] \<and> 128 \<le> hd w"
  "\<forall>w \<in> set (map rev unicode_spaces). w \<noteq> [] \<and> 128 \<le> hd w"
  by (auto simp: unicode_spaces_def)

lemma trim_spaces_0: "space_width sps s = 0 \<Longrightarrow> trim_spaces sps n s = s"
  by (cases n) auto

lemma trim_space_tight [simp]:
  assumes "tight s"
  shows "trim_space s = s"
proof -
  have "trim_left s = s"
    using assms unfolding trim_left_def tight_def
    by (intro trim_spaces_0 space_width_tight) (auto simp: unicode_spaces_high(1))
  moreover have "trim_right s = s"
  proof -
    have "space_width (map rev unicode_spaces) (rev s) = 0"
      using assms unicode_spaces_high(2) unfolding tight_def
      by (intro space_width_tight) (auto simp: hd_rev)
    then show ?thesis by (simp add: trim_right_def trim_spaces_0)
  qed
  ultimately show ?thesis by (simp add: trim_space_def)
qed

lemma trim_space_Nil [simp]: "trim_space [] = []"
  by (simp add: trim_space_def trim_left_def trim_right_def)

subsection \<open>Decimal numbers\<close>

definition is_digit :: "char \<Rightarrow> bool" where
  "is_digit c = (48 \<le> byte c \<and> byte c \<le> 57)"

lemmas [go_defs] = is_digit_def

definition digit_char :: "nat \<Rightarrow> char" where
  "digit_char n = char_of (48 + n)"

text \<open>\<open>strconv.FormatInt\<close> in base 10.\<close>

fun nat_to_dec :: "nat \<Rightarrow> bytes" where
  "nat_to_dec n = (if n < 10 then [digit_char n] else nat_to_dec (n div 10) @ [digit_char (n mod 10)])"

declare nat_to_dec.simps [simp del]

definition int_to_dec :: "int \<Rightarrow> bytes" where
  "int_to_dec i = (if i < 0 then CHR ''-'' # nat_to_dec (nat (- i)) else nat_to_dec (nat i))"

definition dec_to_nat :: "bytes \<Rightarrow> nat" where
  "dec_to_nat s = foldl (\<lambda>n c. 10 * n + (byte c - 48)) 0 s"

lemma byte_digit_char [simp]: "n < 10 \<Longrightarrow> byte (digit_char n) = 48 + n"
  by (simp add: digit_char_def)

lemma is_digit_digit_char [simp]: "n < 10 \<Longrightarrow> is_digit (digit_char n)"
  by (simp add: is_digit_def)

lemma nat_to_dec_digits: "\<forall>c \<in> set (nat_to_dec n). is_digit c"
  by (induction n rule: nat_to_dec.induct) (subst nat_to_dec.simps, auto)

lemma nat_to_dec_nonempty [simp]: "nat_to_dec n \<noteq> []"
  by (subst nat_to_dec.simps) simp

lemma dec_to_nat_to_dec [simp]: "dec_to_nat (nat_to_dec n) = n"
proof (induction n rule: nat_to_dec.induct)
  case (1 n)
  show ?case
  proof (cases "n < 10")
    case True
    then show ?thesis by (subst nat_to_dec.simps) (simp add: dec_to_nat_def)
  next
    case False
    then show ?thesis
      using 1 by (subst nat_to_dec.simps) (simp add: dec_to_nat_def)
  qed
qed

lemma hd_nat_to_dec: "hd (nat_to_dec n) = CHR ''0'' \<longleftrightarrow> n = 0"
proof (induction n rule: nat_to_dec.induct)
  case (1 n)
  show ?case
  proof (cases "n < 10")
    case True
    have "char_of (48 + n) = CHR ''0'' \<longleftrightarrow> n = 0" if "n < 10"
    proof
      assume "char_of (48 + n) = CHR ''0''"
      then have "of_char (char_of (48 + n) :: char) = (48 :: nat)" by simp
      with that show "n = 0" by simp
    next
      assume "n = 0"
      have "char_of (48 :: nat) = CHR ''0''" by code_simp
      with \<open>n = 0\<close> show "char_of (48 + n) = CHR ''0''" by simp
    qed
    with True show ?thesis by (subst nat_to_dec.simps) (simp add: digit_char_def)
  next
    case False
    with 1 show ?thesis by (subst nat_to_dec.simps) auto
  qed
qed

text \<open>Go's \<open>int\<close> and \<open>int64\<close>: arithmetic wraps at 64 bits.\<close>

definition wrap64 :: "int \<Rightarrow> int" where
  "wrap64 i = (i + 2 ^ 63) mod 2 ^ 64 - 2 ^ 63"

definition fits64 :: "int \<Rightarrow> bool" where
  "fits64 i = (- (2 ^ 63) \<le> i \<and> i < 2 ^ 63)"

lemma wrap64_fits [simp]: "fits64 i \<Longrightarrow> wrap64 i = i"
  by (simp add: wrap64_def fits64_def)

subsection \<open>Association lists as Go maps\<close>

text \<open>
  A Go map that is only read is \<open>map_of\<close> of an association list; assigning a key replaces
  the earlier value. \<open>dedup\<close> is the map a decoder builds by assigning members in order, so
  the last of two members with the same name wins.
\<close>

definition dedup :: "('k \<times> 'v) list \<Rightarrow> ('k \<times> 'v) list" where
  "dedup ms = fold (\<lambda>(k, v) m. AList.update k v m) ms []"

lemma map_of_fold_update:
  "map_of (fold (\<lambda>(k, v) m. AList.update k v m) ms m0) = map_of m0 ++ map_of (rev ms)"
  by (induction ms arbitrary: m0) (auto simp: update_conv fun_eq_iff map_add_def split: option.splits)

lemma map_of_dedup: "map_of (dedup ms) = map_of (rev ms)"
  by (simp add: dedup_def map_of_fold_update)

lemma distinct_fold_update:
  "distinct (map fst m0) \<Longrightarrow> distinct (map fst (fold (\<lambda>(k, v) m. AList.update k v m) ms m0))"
  by (induction ms arbitrary: m0) (auto simp: distinct_update)

lemma distinct_dedup [simp]: "distinct (map fst (dedup ms))"
  by (simp add: dedup_def distinct_fold_update)

end
