(* ===== verification/Base64.thy ===== *)
theory Base64
  imports Prelude
begin

text \<open>
  Go's \<open>encoding/base64\<close>, the standard alphabet with padding (\<open>base64.StdEncoding\<close>), with the
  \<open>Strict\<close> variant. The decoder ignores carriage returns and line feeds; the strict one also
  refuses non-zero bits left over in the last character. Decoding undoes encoding, and the strict
  decoder accepts nothing but what the encoder writes.
\<close>

definition b64_char :: "nat \<Rightarrow> char" where
  "b64_char n =
     (if n < 26 then char_of (65 + n) else if n < 52 then char_of (71 + n)
      else if n < 62 then char_of (n - 4) else if n = 62 then CHR ''+'' else CHR ''/'')"

definition b64_val :: "char \<Rightarrow> nat option" where
  "b64_val c =
     (let b = byte c
      in if 65 \<le> b \<and> b \<le> 90 then Some (b - 65) else if 97 \<le> b \<and> b \<le> 122 then Some (b - 71)
         else if 48 \<le> b \<and> b \<le> 57 then Some (b + 4) else if c = CHR ''+'' then Some 62
         else if c = CHR ''/'' then Some 63 else None)"

definition b64_pad :: char where "b64_pad = CHR ''=''"

fun b64_encode :: "bytes \<Rightarrow> bytes" where
  "b64_encode [] = []"
| "b64_encode [a] = [b64_char (byte a div 4), b64_char (byte a mod 4 * 16), b64_pad, b64_pad]"
| "b64_encode [a, b] =
     [b64_char (byte a div 4), b64_char (byte a mod 4 * 16 + byte b div 16),
      b64_char (byte b mod 16 * 4), b64_pad]"
| "b64_encode (a # b # c # s) =
     b64_char (byte a div 4) # b64_char (byte a mod 4 * 16 + byte b div 16)
     # b64_char (byte b mod 16 * 4 + byte c div 64) # b64_char (byte c mod 64) # b64_encode s"

fun b64_groups :: "bool \<Rightarrow> bytes \<Rightarrow> bytes option" where
  "b64_groups strict [] = Some []"
| "b64_groups strict (a # b # c # d # s) =
     (case (b64_val a, b64_val b) of
        (Some x, Some y) \<Rightarrow>
          if d = b64_pad then
            if s \<noteq> [] then None
            else if c = b64_pad then
              (if strict \<and> y mod 16 \<noteq> 0 then None else Some [char_of (x * 4 + y div 16)])
            else (case b64_val c of
                None \<Rightarrow> None
              | Some z \<Rightarrow> if strict \<and> z mod 4 \<noteq> 0 then None
                  else Some [char_of (x * 4 + y div 16), char_of (y mod 16 * 16 + z div 4)])
          else (case (b64_val c, b64_val d) of
              (Some z, Some w) \<Rightarrow>
                map_option (\<lambda>t. char_of (x * 4 + y div 16) # char_of (y mod 16 * 16 + z div 4)
                  # char_of (z mod 4 * 64 + w) # t) (b64_groups strict s)
            | _ \<Rightarrow> None)
      | _ \<Rightarrow> None)"
| "b64_groups strict _ = None"

text \<open>\<open>DecodeString\<close>; \<open>None\<close> is its error.\<close>

definition b64_decode :: "bool \<Rightarrow> bytes \<Rightarrow> bytes option" where
  "b64_decode strict s = b64_groups strict (filter (\<lambda>c. byte c \<noteq> 10 \<and> byte c \<noteq> 13) s)"

section \<open>The alphabet\<close>

lemma b64_val_char: "n < 64 \<Longrightarrow> b64_val (b64_char n) = Some n"
proof -
  assume "n < 64"
  then consider "n < 26" | "26 \<le> n" "n < 52" | "52 \<le> n" "n < 62" | "n = 62" | "n = 63" by linarith
  then show ?thesis by cases (auto simp: b64_val_def b64_char_def Let_def)
qed

lemma b64_char_val:
  assumes "b64_val c = Some n"
  shows "n < 64 \<and> b64_char n = c"
proof -
  have r: "char_of (byte c) = c" by simp
  from assms consider "65 \<le> byte c" "byte c \<le> 90" "n = byte c - 65"
    | "97 \<le> byte c" "byte c \<le> 122" "n = byte c - 71"
    | "48 \<le> byte c" "byte c \<le> 57" "n = byte c + 4" | "c = CHR ''+''" "n = 62" | "c = CHR ''/''" "n = 63"
    by (auto simp: b64_val_def Let_def split: if_splits)
  then show ?thesis
    by cases (auto simp: b64_char_def)
qed

lemma b64_val_pad [simp]: "b64_val b64_pad = None"
  by (simp add: b64_val_def b64_pad_def Let_def)

lemma b64_char_not_pad: "n < 64 \<Longrightarrow> b64_char n \<noteq> b64_pad"
  using b64_val_char by fastforce

lemma b64_char_visible: "n < 64 \<Longrightarrow> 0x21 \<le> byte (b64_char n) \<and> byte (b64_char n) \<le> 0x7E"
  by (auto simp: b64_char_def)

lemma byte_less: "byte c < 256"
  using of_char_of [where ?'a = nat] by (metis nat_of_char_less_256)

section \<open>Decoding undoes encoding\<close>

lemma nat_parts:
  fixes a b c :: nat
  assumes "a < 256" "b < 256" "c < 256"
  shows "a div 4 < 64" "a mod 4 * 16 < 64" "a mod 4 * 16 + b div 16 < 64"
    "b mod 16 * 4 < 64" "b mod 16 * 4 + c div 64 < 64" "c mod 64 < 64"
    "(a mod 4 * 16 + b div 16) div 16 = a mod 4" "(a mod 4 * 16 + b div 16) mod 16 = b div 16"
    "(b mod 16 * 4 + c div 64) div 4 = b mod 16" "(b mod 16 * 4 + c div 64) mod 4 = c div 64"
  using assms by auto

lemmas byte_parts = nat_parts [OF byte_less byte_less byte_less]

lemma byte_joins:
  "char_of (byte a div 4 * 4 + byte a mod 4) = a"
  "char_of (byte b div 16 * 16 + byte b mod 16) = b"
  "char_of (byte c div 64 * 64 + byte c mod 64) = c"
  by simp_all

theorem b64_groups_encode: "b64_groups strict (b64_encode s) = Some s"
proof (induction s rule: b64_encode.induct)
  case (2 a)
  then show ?case using byte_joins(1) [of a]
    by (simp add: b64_val_char byte_parts del: mod_mult_self1_is_0)
next
  case (3 a b)
  then show ?case using byte_joins(1) [of a] byte_joins(2) [of b]
    by (simp only: b64_encode.simps b64_groups.simps b64_val_char b64_char_not_pad byte_parts
        option.case prod.case if_True if_False refl simp_thms) simp
next
  case (4 a b c s)
  then show ?case using byte_joins(1) [of a] byte_joins(2) [of b] byte_joins(3) [of c]
    by (simp only: b64_encode.simps b64_groups.simps b64_val_char b64_char_not_pad byte_parts
        option.case prod.case if_True if_False refl simp_thms option.map)
qed simp

lemma b64_encode_visible:
  "c \<in> set (b64_encode s) \<Longrightarrow> 0x21 \<le> byte c \<and> byte c \<le> 0x7E"
proof (induction s rule: b64_encode.induct)
  case (2 a)
  then show ?case using b64_char_visible [OF byte_parts(1)] b64_char_visible [OF byte_parts(2)]
    by (auto simp: b64_pad_def)
next
  case (3 a b)
  then show ?case using b64_char_visible [OF byte_parts(1)] b64_char_visible [OF byte_parts(3)]
    b64_char_visible [OF byte_parts(4)] by (auto simp: b64_pad_def)
next
  case (4 a b d s)
  then show ?case using b64_char_visible [OF byte_parts(1)] b64_char_visible [OF byte_parts(3)]
    b64_char_visible [OF byte_parts(5)] b64_char_visible [OF byte_parts(6)] by auto
qed simp

theorem b64_decode_encode: "b64_decode strict (b64_encode s) = Some s"
proof -
  have "filter (\<lambda>c. byte c \<noteq> 10 \<and> byte c \<noteq> 13) (b64_encode s) = b64_encode s"
    by (rule filter_True) (use b64_encode_visible in fastforce)
  then show ?thesis by (simp add: b64_decode_def b64_groups_encode)
qed

text \<open>The strict decoder accepts only what the encoder writes.\<close>

lemma b64_join:
  assumes "x < 64" "y < 64"
  shows "byte (char_of (x * 4 + y div 16) :: char) = x * 4 + y div 16"
    "byte (char_of (y mod 16 * 16 + x div 4) :: char) = y mod 16 * 16 + x div 4"
    "byte (char_of (x mod 4 * 64 + y) :: char) = x mod 4 * 64 + y"
  using assms by auto

theorem b64_groups_canonical: "b64_groups True t = Some s \<Longrightarrow> t = b64_encode s"
proof (induction "True" t arbitrary: s rule: b64_groups.induct)
  case (2 a b c d t)
  then obtain x y where xy: "b64_val a = Some x" "b64_val b = Some y" by (auto split: option.splits)
  note xy' = b64_char_val [OF xy(1)] b64_char_val [OF xy(2)]
  show ?case
  proof (cases "d = b64_pad")
    case True
    show ?thesis
    proof (cases "c = b64_pad")
      case c: True
      with 2(2) True xy have "t = []" "y mod 16 = 0" "s = [char_of (x * 4 + y div 16)]"
        by (auto split: if_splits)
      with xy' True c show ?thesis by (auto simp: b64_join)
    next
      case False
      with 2(2) True xy obtain z where z: "b64_val c = Some z" "t = []" "z mod 4 = 0"
        "s = [char_of (x * 4 + y div 16), char_of (y mod 16 * 16 + z div 4)]"
        by (auto split: if_splits option.splits)
      then have "y mod 16 * 16 + z div 4 = y mod 16 * 16 + z div 4" "z div 4 < 16"
        using b64_char_val [OF z(1)] by auto
      with xy' True z b64_char_val [OF z(1)] show ?thesis by (auto simp: b64_join)
    qed
  next
    case False
    with 2(2) xy obtain z w t' where zw: "b64_val c = Some z" "b64_val d = Some w"
      "b64_groups True t = Some t'"
      "s = char_of (x * 4 + y div 16) # char_of (y mod 16 * 16 + z div 4) # char_of (z mod 4 * 64 + w) # t'"
      by (auto split: if_splits option.splits)
    have "t = b64_encode t'" using 2(1) [OF _ xy False _ zw(1,2,3)] by simp
    moreover note zw' = b64_char_val [OF zw(1)] b64_char_val [OF zw(2)]
    have "z div 4 < 16" using zw' by auto
    ultimately show ?thesis using xy' zw zw' by (auto simp: b64_join)
  qed
qed auto

end
