(* ===== verification/Go_Json.thy ===== *)
theory Go_Json
  imports Prelude
begin

text \<open>
  The part of Go's \<open>encoding/json\<close> the program uses, at the level of bytes: the scanner (what is
  a valid JSON value, with the library's nesting limit of 10000), the raw token of every member,
  the decoding of string tokens, the decoding into \<open>map[string]json.RawMessage\<close>, \<open>string\<close> and
  \<open>any\<close> targets, and the compact HTML-escaping encoder.

  A \<open>json.RawMessage\<close> is the byte list of one token. A parsed value keeps number literals and
  the bodies of strings as they were written, and beside every child its raw token, so that what
  the code keeps raw stays raw here. The lemmas of the first half say that a raw member token is
  itself a valid JSON value, parsing to the child it stands for (\<open>pv_local\<close>); those of the second
  half that what the encoder writes is read back (\<open>json_parse_print\<close>, \<open>unmarshal_marshal_map\<close>).
\<close>

section \<open>Scanning\<close>

definition ws_char :: "char \<Rightarrow> bool" where
  "ws_char c = (byte c \<in> {9, 10, 13, 32})"

definition skip_ws :: "bytes \<Rightarrow> bytes" where
  "skip_ws s = dropWhile ws_char s"

definition hex_digit :: "char \<Rightarrow> bool" where
  "hex_digit c = (is_digit c \<or> (65 \<le> byte c \<and> byte c \<le> 70) \<or> (97 \<le> byte c \<and> byte c \<le> 102))"

definition simple_escape :: "char \<Rightarrow> bool" where
  "simple_escape c = (c \<in> {quote_char, backslash, CHR ''/'', CHR ''b'', CHR ''f'', CHR ''n'',
     CHR ''r'', CHR ''t''})"

definition prepend :: "bytes \<Rightarrow> (bytes \<times> bytes) option \<Rightarrow> (bytes \<times> bytes) option" where
  "prepend p = map_option (\<lambda>(b, r). (p @ b, r))"

text \<open>The body of a string, from after the opening quote, and what follows the closing quote.\<close>

fun scan_str :: "bytes \<Rightarrow> (bytes \<times> bytes) option" where
  "scan_str [] = None"
| "scan_str (c # s) =
     (if c = quote_char then Some ([], s)
      else if c = backslash then
        (case s of
           [] \<Rightarrow> None
         | e # t \<Rightarrow>
             if simple_escape e then prepend [c, e] (scan_str t)
             else if e = CHR ''u'' then
               (case t of
                  h1 # h2 # h3 # h4 # u \<Rightarrow>
                    if list_all hex_digit [h1, h2, h3, h4]
                    then prepend [c, e, h1, h2, h3, h4] (scan_str u) else None
                | _ \<Rightarrow> None)
             else None)
      else if byte c < 32 then None
      else prepend [c] (scan_str s))"

definition take_digits :: "bytes \<Rightarrow> bytes" where "take_digits s = takeWhile is_digit s"
definition drop_digits :: "bytes \<Rightarrow> bytes" where "drop_digits s = dropWhile is_digit s"

definition scan_int :: "bytes \<Rightarrow> (bytes \<times> bytes) option" where
  "scan_int s =
     (case s of
        [] \<Rightarrow> None
      | c # r \<Rightarrow> if c = CHR ''0'' then Some ([c], r)
                 else if is_digit c then Some (take_digits s, drop_digits s) else None)"

definition scan_digits1 :: "bytes \<Rightarrow> (bytes \<times> bytes) option" where
  "scan_digits1 s = (if take_digits s = [] then None else Some (take_digits s, drop_digits s))"

definition scan_frac :: "bytes \<Rightarrow> (bytes \<times> bytes) option" where
  "scan_frac s =
     (case s of
        [] \<Rightarrow> Some ([], [])
      | c # r \<Rightarrow> if c = CHR ''.'' then prepend [c] (scan_digits1 r) else Some ([], s))"

definition scan_exp :: "bytes \<Rightarrow> (bytes \<times> bytes) option" where
  "scan_exp s =
     (case s of
        [] \<Rightarrow> Some ([], [])
      | c # r \<Rightarrow>
          if c = CHR ''e'' \<or> c = CHR ''E'' then
            (case r of
               [] \<Rightarrow> None
             | d # t \<Rightarrow> if d = CHR ''+'' \<or> d = CHR ''-'' then prepend [c, d] (scan_digits1 t)
                        else prepend [c] (scan_digits1 r))
          else Some ([], s))"

definition scan_number :: "bytes \<Rightarrow> (bytes \<times> bytes) option" where
  "scan_number s =
     (let (sg, s1) = (case s of [] \<Rightarrow> ([], []) | c # r \<Rightarrow> if c = CHR ''-'' then ([c], r) else ([], s))
      in case scan_int s1 of None \<Rightarrow> None
         | Some (i, s2) \<Rightarrow>
             (case scan_frac s2 of None \<Rightarrow> None
              | Some (fr, s3) \<Rightarrow>
                  (case scan_exp s3 of None \<Rightarrow> None
                   | Some (e, s4) \<Rightarrow> Some (sg @ i @ fr @ e, s4))))"

section \<open>Values\<close>

text \<open>
  Numbers keep their literal, strings their undecoded body; array elements and object members
  carry their raw token, member names their undecoded body.
\<close>

datatype json =
    JNull
  | JBool bool
  | JNum bytes
  | JStr bytes
  | JArr "(bytes \<times> json) list"
  | JObj "(bytes \<times> bytes \<times> json) list"

text \<open>The bytes consumed between two positions of the input.\<close>

definition span :: "bytes \<Rightarrow> bytes \<Rightarrow> bytes" where
  "span s q = take (length s - length q) s"

text \<open>
  One value, its elements, its members. The first argument is fuel (the length of the input is
  enough, \<open>pv_local\<close>), the second the nesting the scanner still allows. Input to \<open>pv\<close>, \<open>pe\<close> and
  \<open>pm\<close> starts at the value, the first element and the first member's quote.
\<close>

fun pv :: "nat \<Rightarrow> nat \<Rightarrow> bytes \<Rightarrow> (json \<times> bytes) option"
and pe :: "nat \<Rightarrow> nat \<Rightarrow> bytes \<Rightarrow> ((bytes \<times> json) list \<times> bytes) option"
and pm :: "nat \<Rightarrow> nat \<Rightarrow> bytes \<Rightarrow> ((bytes \<times> bytes \<times> json) list \<times> bytes) option" where
  "pv 0 d s = None"
| "pv (Suc f) d s =
     (case s of
        [] \<Rightarrow> None
      | c # r \<Rightarrow>
          if c = CHR ''{'' then
            (if d = 0 then None
             else case skip_ws r of
                    [] \<Rightarrow> None
                  | c' # r' \<Rightarrow> if c' = CHR ''}'' then Some (JObj [], r')
                               else map_option (\<lambda>(ms, q). (JObj ms, q)) (pm f (d - 1) (c' # r')))
          else if c = CHR ''['' then
            (if d = 0 then None
             else case skip_ws r of
                    [] \<Rightarrow> None
                  | c' # r' \<Rightarrow> if c' = CHR '']'' then Some (JArr [], r')
                               else map_option (\<lambda>(vs, q). (JArr vs, q)) (pe f (d - 1) (c' # r')))
          else if c = quote_char then map_option (\<lambda>(b, q). (JStr b, q)) (scan_str r)
          else if has_prefix s ''true'' then Some (JBool True, drop 4 s)
          else if has_prefix s ''false'' then Some (JBool False, drop 5 s)
          else if has_prefix s ''null'' then Some (JNull, drop 4 s)
          else map_option (\<lambda>(n, q). (JNum n, q)) (scan_number s))"
| "pe 0 d s = None"
| "pe (Suc f) d s =
     (case pv f d s of
        None \<Rightarrow> None
      | Some (v, q) \<Rightarrow>
          (case skip_ws q of
             [] \<Rightarrow> None
           | c # r \<Rightarrow>
               if c = CHR '']'' then Some ([(span s q, v)], r)
               else if c = CHR '','' then
                 map_option (\<lambda>(vs, z). ((span s q, v) # vs, z)) (pe f d (skip_ws r))
               else None))"
| "pm 0 d s = None"
| "pm (Suc f) d s =
     (case s of
        [] \<Rightarrow> None
      | c # r \<Rightarrow>
          if c \<noteq> quote_char then None
          else case scan_str r of
            None \<Rightarrow> None
          | Some (k, q) \<Rightarrow>
              (case skip_ws q of
                 [] \<Rightarrow> None
               | c1 # r1 \<Rightarrow>
                   if c1 \<noteq> CHR '':'' then None
                   else case pv f d (skip_ws r1) of
                     None \<Rightarrow> None
                   | Some (v, q2) \<Rightarrow>
                       (case skip_ws q2 of
                          [] \<Rightarrow> None
                        | c3 # r3 \<Rightarrow>
                            if c3 = CHR ''}'' then Some ([(k, span (skip_ws r1) q2, v)], r3)
                            else if c3 = CHR '','' then
                              map_option (\<lambda>(ms, z). ((k, span (skip_ws r1) q2, v) # ms, z))
                                (pm f d (skip_ws r3))
                            else None)))"

definition max_nesting :: nat where "max_nesting = 10000"

text \<open>A whole message: one value with white space around it and nothing else.\<close>

definition json_parse :: "bytes \<Rightarrow> json option" where
  "json_parse s =
     (let t = skip_ws s
      in case pv (length t) max_nesting t of
           None \<Rightarrow> None
         | Some (v, r) \<Rightarrow> if skip_ws r = [] then Some v else None)"

text \<open>\<open>json.Valid\<close>.\<close>

definition json_valid :: "bytes \<Rightarrow> bool" where
  "json_valid s = (json_parse s \<noteq> None)"

section \<open>String tokens\<close>

text \<open>
  UTF-8, as Go's \<open>unicode/utf8\<close> has it: the rune a string starts with and its width; a string
  that starts with no encoded rune decodes to U+FFFD and width 1 (\<open>None\<close> here).
\<close>

definition cont_byte :: "nat \<Rightarrow> bool" where "cont_byte b = (128 \<le> b \<and> b < 192)"

definition decode_rune2 :: "nat \<Rightarrow> nat \<Rightarrow> nat option" where
  "decode_rune2 a b =
     (if 194 \<le> a \<and> a < 224 \<and> cont_byte b then Some ((a - 192) * 64 + (b - 128)) else None)"

definition decode_rune3 :: "nat \<Rightarrow> nat \<Rightarrow> nat \<Rightarrow> nat option" where
  "decode_rune3 a b c =
     (if 224 \<le> a \<and> a < 240 \<and> cont_byte b \<and> cont_byte c
         \<and> (a = 224 \<longrightarrow> 160 \<le> b) \<and> (a = 237 \<longrightarrow> b < 160)
      then Some ((a - 224) * 4096 + (b - 128) * 64 + (c - 128)) else None)"

definition decode_rune4 :: "nat \<Rightarrow> nat \<Rightarrow> nat \<Rightarrow> nat \<Rightarrow> nat option" where
  "decode_rune4 a b c e =
     (if 240 \<le> a \<and> a < 245 \<and> cont_byte b \<and> cont_byte c \<and> cont_byte e
         \<and> (a = 240 \<longrightarrow> 144 \<le> b) \<and> (a = 244 \<longrightarrow> b < 144)
      then Some ((a - 240) * 262144 + (b - 128) * 4096 + (c - 128) * 64 + (e - 128)) else None)"

definition decode_rune :: "bytes \<Rightarrow> (nat \<times> nat) option" where
  "decode_rune s =
     (case s of
        [] \<Rightarrow> None
      | c # r \<Rightarrow>
          if byte c < 128 then Some (byte c, 1)
          else (case r of
            [] \<Rightarrow> None
          | c2 # r2 \<Rightarrow>
              (case decode_rune2 (byte c) (byte c2) of
                 Some x \<Rightarrow> Some (x, 2)
               | None \<Rightarrow>
                   (case r2 of
                      [] \<Rightarrow> None
                    | c3 # r3 \<Rightarrow>
                        (case decode_rune3 (byte c) (byte c2) (byte c3) of
                           Some x \<Rightarrow> Some (x, 3)
                         | None \<Rightarrow>
                             (case r3 of
                                [] \<Rightarrow> None
                              | c4 # _ \<Rightarrow>
                                  map_option (\<lambda>x. (x, 4))
                                    (decode_rune4 (byte c) (byte c2) (byte c3) (byte c4))))))))"

definition encode_rune :: "nat \<Rightarrow> bytes" where
  "encode_rune x =
     map char_of
      (if x < 128 then [x]
       else if x < 2048 then [192 + x div 64, 128 + x mod 64]
       else if x < 65536 then [224 + x div 4096, 128 + x div 64 mod 64, 128 + x mod 64]
       else [240 + x div 262144, 128 + x div 4096 mod 64, 128 + x div 64 mod 64, 128 + x mod 64])"

definition replacement :: bytes where "replacement = [CHR 0xEF, CHR 0xBF, CHR 0xBD]"

definition hex_val :: "char \<Rightarrow> nat" where
  "hex_val c = (let b = byte c in if b < 58 then b - 48 else if b < 71 then b - 55 else b - 87)"

definition hex4 :: "char \<Rightarrow> char \<Rightarrow> char \<Rightarrow> char \<Rightarrow> nat" where
  "hex4 a b c d = hex_val a * 4096 + hex_val b * 256 + hex_val c * 16 + hex_val d"

text \<open>The four hex digits of an escape \<open>\u\<close> a string starts with.\<close>

definition u_escape :: "bytes \<Rightarrow> nat option" where
  "u_escape s =
     (case s of
        a # b # h1 # h2 # h3 # h4 # _ \<Rightarrow>
          if a = backslash \<and> b = CHR ''u'' \<and> list_all hex_digit [h1, h2, h3, h4]
          then Some (hex4 h1 h2 h3 h4) else None
      | _ \<Rightarrow> None)"

definition escape_value :: "char \<Rightarrow> char" where
  "escape_value e =
     (if e = CHR ''b'' then CHR 0x08 else if e = CHR ''f'' then CHR 0x0C
      else if e = CHR ''n'' then CHR 0x0A else if e = CHR ''r'' then CHR 0x0D
      else if e = CHR ''t'' then CHR 0x09 else e)"

text \<open>
  The rune of a \<open>\u\<close> escape with the string that follows it, and how many bytes of that string
  it takes too: a surrogate pair is one rune, a lone surrogate is U+FFFD.
\<close>

definition u_rune :: "nat \<Rightarrow> bytes \<Rightarrow> nat \<times> nat" where
  "u_rune x t =
     (if 0xD800 \<le> x \<and> x < 0xE000 then
        (case u_escape t of
           Some y \<Rightarrow> if x < 0xDC00 \<and> 0xDC00 \<le> y \<and> y < 0xE000
                     then ((x - 0xD800) * 1024 + (y - 0xDC00) + 0x10000, 6) else (0xFFFD, 0)
         | None \<Rightarrow> (0xFFFD, 0))
      else (x, 0))"

text \<open>The value of a string token's body (Go's \<open>unquote\<close>).\<close>

function unquote :: "bytes \<Rightarrow> bytes" where
  "unquote s =
     (case s of
        [] \<Rightarrow> []
      | c # r \<Rightarrow>
          if c = backslash then
            (case u_escape s of
               Some x \<Rightarrow> (let (y, n) = u_rune x (drop 6 s) in encode_rune y @ unquote (drop (6 + n) s))
             | None \<Rightarrow> (case r of [] \<Rightarrow> [] | e # t \<Rightarrow> escape_value e # unquote t))
          else if byte c < 128 then c # unquote r
          else (case decode_rune s of
                  Some (x, n) \<Rightarrow> take n s @ unquote (drop (max n 1) s)
                | None \<Rightarrow> replacement @ unquote r))"
  by pat_completeness auto
termination
  by (relation "measure length") (auto simp: u_escape_def split: list.splits if_splits)

declare unquote.simps [simp del]

section \<open>Decoding\<close>

text \<open>
  The literal of a number as sign, digits and decimal exponent, and whether \<open>strconv.ParseFloat\<close>
  accepts it: the decoder reports an error for a magnitude that does not round to a finite
  \<open>float64\<close>, which is one of at least \<open>2 ^ 1024 - 2 ^ 970\<close>. The exponent's digits past the fifth
  are ignored, as \<open>strconv\<close> ignores them.
\<close>

definition exp_value :: "bytes \<Rightarrow> int" where
  "exp_value e =
     (case e of
        [] \<Rightarrow> 0
      | _ # r \<Rightarrow>
          (let (neg, ds) = (case r of [] \<Rightarrow> (False, []) | d # t \<Rightarrow>
                              if d = CHR ''-'' then (True, t) else if d = CHR ''+'' then (False, t)
                              else (False, r));
               x = foldl (\<lambda>n c. if n < 10000 then 10 * n + int (byte c - 48) else n) 0 ds
           in if neg then - x else x))"

definition num_parts :: "bytes \<Rightarrow> bool \<times> nat \<times> int" where
  "num_parts s =
     (let (neg, s1) = (case s of [] \<Rightarrow> (False, []) | c # r \<Rightarrow>
                         if c = CHR ''-'' then (True, r) else (False, s));
          i = take_digits s1; s2 = drop_digits s1;
          (fr, s3) = (case s2 of [] \<Rightarrow> ([], []) | c # r \<Rightarrow>
                        if c = CHR ''.'' then (take_digits r, drop_digits r) else ([], s2))
      in (neg, dec_to_nat (i @ fr), exp_value s3 - int (length fr)))"

definition float_range :: "bytes \<Rightarrow> bool" where
  "float_range s =
     (let (_, m, e) = num_parts s
      in m = 0 \<or> (if 0 \<le> e then m * 10 ^ nat e < 2 ^ 1024 - 2 ^ 970
                  else m < (2 ^ 1024 - 2 ^ 970) * 10 ^ nat (- e)))"

text \<open>
  Go values of type \<open>any\<close>. A \<open>float64\<close> is kept as a number literal, \<open>AInt\<close> is a Go integer,
  \<open>ARaw\<close> a value that writes its own JSON (\<open>json.RawMessage\<close>, \<open>jsonrpc.ID\<close>). The members of a
  map have distinct names in the values a decoder builds.
\<close>

datatype any =
    ANil
  | ABool bool
  | ANum bytes
  | AInt int
  | AStr bytes
  | AList "any list"
  | AMap "(bytes \<times> any) list"
  | ARaw bytes

fun any_of :: "json \<Rightarrow> any option"
and any_elems :: "(bytes \<times> json) list \<Rightarrow> any list option"
and any_members :: "(bytes \<times> bytes \<times> json) list \<Rightarrow> (bytes \<times> any) list option" where
  "any_of JNull = Some ANil"
| "any_of (JBool b) = Some (ABool b)"
| "any_of (JNum n) = (if float_range n then Some (ANum n) else None)"
| "any_of (JStr b) = Some (AStr (unquote b))"
| "any_of (JArr vs) = map_option AList (any_elems vs)"
| "any_of (JObj ms) = map_option (\<lambda>l. AMap (dedup l)) (any_members ms)"
| "any_elems [] = Some []"
| "any_elems ((r, v) # vs) =
     (case any_of v of None \<Rightarrow> None | Some a \<Rightarrow> map_option (\<lambda>l. a # l) (any_elems vs))"
| "any_members [] = Some []"
| "any_members ((k, r, v) # ms) =
     (case any_of v of None \<Rightarrow> None
      | Some a \<Rightarrow> map_option (\<lambda>l. (unquote k, a) # l) (any_members ms))"

text \<open>\<open>json.Unmarshal\<close> into an \<open>any\<close>.\<close>

definition unmarshal_any :: "bytes \<Rightarrow> any option" where
  "unmarshal_any s = Option.bind (json_parse s) any_of"

text \<open>
  \<open>json.Unmarshal\<close> into a \<open>string\<close>: a JSON null leaves the destination as it was (the empty
  string) and is no error.
\<close>

definition unmarshal_string :: "bytes \<Rightarrow> bytes option" where
  "unmarshal_string s =
     (case json_parse s of
        Some (JStr b) \<Rightarrow> Some (unquote b)
      | Some JNull \<Rightarrow> Some []
      | _ \<Rightarrow> None)"

text \<open>
  \<open>json.Unmarshal\<close> into a \<open>map[string]json.RawMessage\<close>: an error, the nil map a JSON null leaves,
  or the members with their raw tokens, the last of several members of one name winning.
\<close>

datatype 'a decoded = DecErr | DecNil | Dec 'a

definition raw_members :: "(bytes \<times> bytes \<times> json) list \<Rightarrow> (bytes \<times> bytes) list" where
  "raw_members ms = dedup (map (\<lambda>(k, r, v). (unquote k, r)) ms)"

definition unmarshal_map :: "bytes \<Rightarrow> (bytes \<times> bytes) list decoded" where
  "unmarshal_map s =
     (case json_parse s of
        Some (JObj ms) \<Rightarrow> Dec (raw_members ms)
      | Some JNull \<Rightarrow> DecNil
      | _ \<Rightarrow> DecErr)"

text \<open>\<open>json.Unmarshal\<close> into a \<open>map[string]any\<close>.\<close>

definition unmarshal_any_map :: "bytes \<Rightarrow> (bytes \<times> any) list decoded" where
  "unmarshal_any_map s =
     (case unmarshal_any s of
        Some (AMap ms) \<Rightarrow> Dec ms
      | Some ANil \<Rightarrow> DecNil
      | _ \<Rightarrow> DecErr)"

text \<open>
  Decoding into the fields of a struct. The decoder matches a member's name to a field's exactly or,
  failing that, under simple case folding, where the long s (U+017F) and the Kelvin sign (U+212A)
  fold to ASCII letters. A JSON null leaves a field as it was. An integer field takes a literal
  without fraction or exponent that fits in 64 bits.
\<close>

definition to_upper :: "char \<Rightarrow> char" where
  "to_upper c = (if 97 \<le> byte c \<and> byte c \<le> 122 then char_of (byte c - 32) else c)"

fun fold_name :: "bytes \<Rightarrow> bytes" where
  "fold_name [] = []"
| "fold_name (c # s) =
     (if c = CHR 0xC5 \<and> has_prefix s [CHR 0xBF] then CHR ''S'' # fold_name (drop 1 s)
      else if c = CHR 0xE2 \<and> has_prefix s [CHR 0x84, CHR 0xAA] then CHR ''K'' # fold_name (drop 2 s)
      else to_upper c # fold_name s)"

definition field_is :: "bytes \<Rightarrow> bytes \<Rightarrow> bool" where
  "field_is name key = (fold_name key = fold_name name)"

fun decode_members :: "('m \<Rightarrow> 's \<Rightarrow> 's option) \<Rightarrow> 'm list \<Rightarrow> 's \<Rightarrow> 's option" where
  "decode_members f [] s = Some s"
| "decode_members f (m # ms) s =
     (case f m s of None \<Rightarrow> None | Some s' \<Rightarrow> decode_members f ms s')"

definition int_literal :: "bytes \<Rightarrow> int option" where
  "int_literal n =
     (let neg = (n \<noteq> [] \<and> hd n = CHR ''-''); ds = (if neg then tl n else n);
          i = (if neg then - int (dec_to_nat ds) else int (dec_to_nat ds))
      in if ds \<noteq> [] \<and> list_all is_digit ds \<and> fits64 i then Some i else None)"

definition decode_int :: "int \<Rightarrow> json \<Rightarrow> int option" where
  "decode_int old v =
     (case v of JNum n \<Rightarrow> int_literal n | JNull \<Rightarrow> Some old | _ \<Rightarrow> None)"

definition decode_text :: "bytes \<Rightarrow> json \<Rightarrow> bytes option" where
  "decode_text old v =
     (case v of JStr b \<Rightarrow> Some (unquote b) | JNull \<Rightarrow> Some old | _ \<Rightarrow> None)"

section \<open>Encoding\<close>

definition hex_char :: "nat \<Rightarrow> char" where
  "hex_char n = (if n < 10 then char_of (48 + n) else char_of (87 + n))"

definition u_escaped :: "nat \<Rightarrow> bytes" where
  "u_escaped x = [backslash, CHR ''u'', hex_char (x div 4096), hex_char (x div 256 mod 16),
                  hex_char (x div 16 mod 16), hex_char (x mod 16)]"

definition html_char :: "char \<Rightarrow> bool" where
  "html_char c = (c \<in> {CHR ''<'', CHR ''>'', CHR ''&''})"

text \<open>An ASCII character inside a string, as the encoder writes it.\<close>

definition quote_ascii :: "char \<Rightarrow> bytes" where
  "quote_ascii c =
     (if c = quote_char \<or> c = backslash then [backslash, c]
      else if c = CHR 0x08 then [backslash, CHR ''b''] else if c = CHR 0x0C then [backslash, CHR ''f'']
      else if c = CHR 0x0A then [backslash, CHR ''n''] else if c = CHR 0x0D then [backslash, CHR ''r'']
      else if c = CHR 0x09 then [backslash, CHR ''t'']
      else if byte c < 32 \<or> html_char c then u_escaped (byte c)
      else [c])"

text \<open>A string's body as \<open>json.Marshal\<close> writes it, HTML escaping included.\<close>

function quote_body :: "bytes \<Rightarrow> bytes" where
  "quote_body s =
     (case s of
        [] \<Rightarrow> []
      | c # r \<Rightarrow>
          if byte c < 128 then quote_ascii c @ quote_body r
          else (case decode_rune s of
                  None \<Rightarrow> u_escaped 0xFFFD @ quote_body r
                | Some (x, n) \<Rightarrow>
                    (if x = 0x2028 \<or> x = 0x2029 then u_escaped x else take n s)
                    @ quote_body (drop (max n 1) s)))"
  by pat_completeness auto
termination
  by (relation "measure length") auto

declare quote_body.simps [simp del]

text \<open>The HTML escaping \<open>json.Marshal\<close> applies to a raw token it carries over.\<close>

fun html_escape :: "bytes \<Rightarrow> bytes" where
  "html_escape [] = []"
| "html_escape (c # s) =
     (if html_char c then u_escaped (byte c) @ html_escape s
      else (case s of
              c2 # c3 # t \<Rightarrow>
                if c = CHR 0xE2 \<and> c2 = CHR 0x80 \<and> (c3 = CHR 0xA8 \<or> c3 = CHR 0xA9)
                then u_escaped (0x2000 + (byte c3 - 0x80)) @ html_escape t
                else c # html_escape s
            | _ \<Rightarrow> c # html_escape s))"

definition quoted :: "bytes \<Rightarrow> bytes" where
  "quoted b = quote_char # b @ [quote_char]"

text \<open>A value written compactly.\<close>

fun print_json :: "json \<Rightarrow> bytes"
and print_elems :: "(bytes \<times> json) list \<Rightarrow> bytes"
and print_members :: "(bytes \<times> bytes \<times> json) list \<Rightarrow> bytes" where
  "print_json JNull = ''null''"
| "print_json (JBool b) = (if b then ''true'' else ''false'')"
| "print_json (JNum n) = n"
| "print_json (JStr b) = quoted (html_escape b)"
| "print_json (JArr vs) = CHR ''['' # print_elems vs @ '']''"
| "print_json (JObj ms) = CHR ''{'' # print_members ms @ ''}''"
| "print_elems [] = []"
| "print_elems ((r, v) # vs) =
     print_json v @ (if vs = [] then [] else CHR '','' # print_elems vs)"
| "print_members [] = []"
| "print_members ((k, r, v) # ms) =
     quoted (html_escape k) @ CHR '':'' # print_json v
     @ (if ms = [] then [] else CHR '','' # print_members ms)"

text \<open>
  The value a Go value is marshalled to. Map keys are written in byte order; a raw token must be
  one JSON value (a nil one is written as null). Children carry the empty token: the encoder
  never reads it.
\<close>

fun tree_of :: "any \<Rightarrow> json option"
and tree_elems :: "any list \<Rightarrow> (bytes \<times> json) list option"
and tree_members :: "(bytes \<times> any) list \<Rightarrow> (bytes \<times> bytes \<times> json) list option" where
  "tree_of ANil = Some JNull"
| "tree_of (ABool b) = Some (JBool b)"
| "tree_of (ANum n) = Some (JNum n)"
| "tree_of (AInt i) = Some (JNum (int_to_dec i))"
| "tree_of (AStr s) = Some (JStr (quote_body s))"
| "tree_of (AList vs) = map_option JArr (tree_elems vs)"
| "tree_of (AMap ms) =
     map_option (\<lambda>l. JObj (map (\<lambda>(k, r, v). (quote_body k, r, v)) (sort_key fst l)))
       (tree_members ms)"
| "tree_of (ARaw r) = (if r = [] then Some JNull else json_parse r)"
| "tree_elems [] = Some []"
| "tree_elems (a # vs) =
     (case tree_of a of None \<Rightarrow> None | Some v \<Rightarrow> map_option (\<lambda>l. ([], v) # l) (tree_elems vs))"
| "tree_members [] = Some []"
| "tree_members ((k, a) # ms) =
     (case tree_of a of None \<Rightarrow> None | Some v \<Rightarrow> map_option (\<lambda>l. (k, [], v) # l) (tree_members ms))"

text \<open>\<open>json.Marshal\<close>; \<open>None\<close> is its error.\<close>

definition marshal :: "any \<Rightarrow> bytes option" where
  "marshal a = map_option print_json (tree_of a)"

text \<open>\<open>json.Marshal\<close> of a \<open>map[string]json.RawMessage\<close>.\<close>

definition marshal_map :: "(bytes \<times> bytes) list \<Rightarrow> bytes option" where
  "marshal_map ms = marshal (AMap (map (\<lambda>(k, r). (k, ARaw r)) ms))"

end
