(* ===== verification/Json_Laws.thy ===== *)
theory Json_Laws
  imports Go_Json
begin

text \<open>
  Laws of the JSON model: the scanner consumes a prefix and depends on nothing behind it, a raw
  member token parses to the member's value, the encoder's output is read back, and the decoding
  of a string undoes the encoder's quoting and escaping.
\<close>

section \<open>The scanner is local\<close>

lemma skip_ws_split: "\<exists>w. s = w @ skip_ws s \<and> (\<forall>c \<in> set w. ws_char c)"
  unfolding skip_ws_def
  by (metis set_takeWhileD takeWhile_dropWhile_id)

lemma skip_ws_append_ws: "\<forall>c \<in> set w. ws_char c \<Longrightarrow> skip_ws (w @ s) = skip_ws s"
  by (simp add: skip_ws_def)

lemma skip_ws_Cons [simp]: "\<not> ws_char c \<Longrightarrow> skip_ws (c # s) = c # s"
  by (simp add: skip_ws_def)

lemma skip_ws_Nil [simp]: "skip_ws [] = []"
  by (simp add: skip_ws_def)

lemma skip_ws_hd: "skip_ws s = c # r \<Longrightarrow> \<not> ws_char c"
  unfolding skip_ws_def by (metis hd_dropWhile list.discI list.sel(1))

lemma ws_char_simps [simp]:
  "\<not> ws_char quote_char" "\<not> ws_char (CHR ''{'')" "\<not> ws_char (CHR ''}'')" "\<not> ws_char (CHR ''['')"
  "\<not> ws_char (CHR '']'')" "\<not> ws_char (CHR '','')" "\<not> ws_char (CHR '':'')" "\<not> ws_char (CHR ''t'')"
  "\<not> ws_char (CHR ''f'')" "\<not> ws_char (CHR ''n'')" "\<not> ws_char (CHR ''-'')"
  by (simp_all add: ws_char_def)

lemma digit_not_ws: "is_digit c \<Longrightarrow> \<not> ws_char c"
  by (auto simp: is_digit_def ws_char_def)

lemma span_append [simp]: "span (p @ q) q = p"
  by (simp add: span_def)

lemma prepend_Some:
  "prepend p x = Some (b, r) \<longleftrightarrow> (\<exists>b'. x = Some (b', r) \<and> b = p @ b')"
  by (auto simp: prepend_def)

text \<open>A string body reads the same whatever follows its closing quote.\<close>

lemma scan_str_local:
  "scan_str s = Some (b, q) \<Longrightarrow>
     s = b @ quote_char # q \<and> (\<forall>q'. scan_str (b @ quote_char # q') = Some (b, q'))"
proof (induction s arbitrary: b q rule: scan_str.induct)
  case 1
  then show ?case by simp
next
  case (2 c s)
  show ?case
  proof (cases "c = quote_char \<or> c = backslash")
    case False
    with "2.prems" obtain b' where b': "scan_str s = Some (b', q)" "b = c # b'" "\<not> byte c < 32"
      by (auto simp: prepend_Some split: if_splits)
    with False "2.IH"(3) [of b' q] show ?thesis by (auto simp: prepend_def)
  next
    case True
    show ?thesis
    proof (cases "c = quote_char")
      case True
      with "2.prems" show ?thesis by simp
    next
      case False
      with True have c: "c = backslash" by simp
      with "2.prems" obtain e t where s: "s = e # t" by (auto split: list.splits)
      show ?thesis
      proof (cases "simple_escape e")
        case True
        with "2.prems" c s obtain b' where "scan_str t = Some (b', q)" "b = [c, e] @ b'"
          by (auto simp: prepend_Some)
        with True c s "2.IH"(1) [of e t b' q] show ?thesis by (auto simp: prepend_def)
      next
        case False
        with "2.prems" c s obtain h1 h2 h3 h4 u b' where
          t: "t = h1 # h2 # h3 # h4 # u" "e = CHR ''u''" "list_all hex_digit [h1, h2, h3, h4]"
          and b': "scan_str u = Some (b', q)" "b = [c, e, h1, h2, h3, h4] @ b'"
          by (auto simp: prepend_Some split: list.splits if_splits)
        with False c s "2.IH"(2) [of e t h1 _ h2 _ h3 _ h4 u b' q]
        show ?thesis by (auto simp: prepend_def)
      qed
    qed
  qed
qed

text \<open>What may follow a number: nothing that would extend its literal.\<close>

definition num_end :: "bytes \<Rightarrow> bool" where
  "num_end q = (case q of [] \<Rightarrow> True
                | c # _ \<Rightarrow> \<not> is_digit c \<and> c \<notin> {CHR ''.'', CHR ''e'', CHR ''E''})"

lemma num_end_simps [simp]:
  "num_end []" "num_end (CHR '','' # s)" "num_end (CHR ''}'' # s)" "num_end (CHR '']'' # s)"
  by (simp_all add: num_end_def is_digit_def)

lemma num_end_ws: "ws_char c \<Longrightarrow> num_end (c # s)"
  by (auto simp: num_end_def ws_char_def is_digit_def)

definition nondigit :: "bytes \<Rightarrow> bool" where
  "nondigit q = (case q of [] \<Rightarrow> True | c # _ \<Rightarrow> \<not> is_digit c)"

lemma nondigit_Nil [simp]: "nondigit []"
  and nondigit_Cons [simp]: "nondigit (c # q) \<longleftrightarrow> \<not> is_digit c"
  by (simp_all add: nondigit_def)

lemma num_end_nondigit: "num_end q \<Longrightarrow> nondigit q"
  by (auto simp: num_end_def nondigit_def split: list.splits)

lemma digits_split: "s = take_digits s @ drop_digits s"
  by (simp add: take_digits_def drop_digits_def)

lemma digits_local:
  assumes "nondigit q'"
  shows "take_digits (take_digits s @ q') = take_digits s"
    and "drop_digits (take_digits s @ q') = q'"
proof -
  have all: "\<forall>c \<in> set (take_digits s). is_digit c"
    by (auto simp: take_digits_def dest: set_takeWhileD)
  have "takeWhile is_digit q' = [] \<and> dropWhile is_digit q' = q'"
    using assms by (cases q') auto
  with all show "take_digits (take_digits s @ q') = take_digits s"
    "drop_digits (take_digits s @ q') = q'"
    by (simp_all add: take_digits_def drop_digits_def)
qed

lemma scan_digits1_local:
  assumes "scan_digits1 s = Some (b, q)"
  shows "s = b @ q" and "b \<noteq> []" and "\<And>q'. nondigit q' \<Longrightarrow> scan_digits1 (b @ q') = Some (b, q')"
  using assms digits_split [of s] digits_local [of _ s]
  by (auto simp: scan_digits1_def split: if_splits)

lemma scan_int_local:
  assumes "scan_int s = Some (b, q)"
  shows "s = b @ q" and "b \<noteq> []" and "is_digit (hd b)"
    and "\<And>q'. nondigit q' \<Longrightarrow> scan_int (b @ q') = Some (b, q')"
proof -
  obtain c r where s: "s = c # r" using assms by (cases s) (auto simp: scan_int_def)
  have "s = b @ q \<and> b \<noteq> [] \<and> is_digit (hd b)
        \<and> (\<forall>q'. nondigit q' \<longrightarrow> scan_int (b @ q') = Some (b, q'))"
  proof (cases "c = CHR ''0''")
    case True
    with assms s show ?thesis by (auto simp: scan_int_def is_digit_def)
  next
    case False
    with assms s have d: "is_digit c" "b = take_digits s" "q = drop_digits s"
      by (auto simp: scan_int_def split: if_splits)
    have b: "b = c # take_digits r" using d s by (simp add: take_digits_def)
    show ?thesis
      using digits_split [of s] digits_local [of _ s] d False
      by (auto simp: scan_int_def b simp flip: d(2))
  qed
  then show "s = b @ q" "b \<noteq> []" "is_digit (hd b)"
    "\<And>q'. nondigit q' \<Longrightarrow> scan_int (b @ q') = Some (b, q')" by auto
qed

lemma scan_frac_local:
  assumes "scan_frac s = Some (b, q)"
  shows "s = b @ q" and "b = [] \<or> hd b = CHR ''.''"
    and "\<And>q'. nondigit q' \<Longrightarrow> \<not> has_prefix q' ''.'' \<Longrightarrow> scan_frac (b @ q') = Some (b, q')"
proof -
  have "s = b @ q \<and> (b = [] \<or> hd b = CHR ''.'')
        \<and> (\<forall>q'. nondigit q' \<longrightarrow> \<not> has_prefix q' ''.'' \<longrightarrow> scan_frac (b @ q') = Some (b, q'))"
    using assms
    by (auto simp: scan_frac_def prepend_Some scan_digits1_local split: list.splits if_splits)
  then show "s = b @ q" "b = [] \<or> hd b = CHR ''.''"
    "\<And>q'. nondigit q' \<Longrightarrow> \<not> has_prefix q' ''.'' \<Longrightarrow> scan_frac (b @ q') = Some (b, q')" by auto
qed

lemma scan_exp_none: "num_end q \<Longrightarrow> scan_exp q = Some ([], q)"
  by (cases q) (auto simp: scan_exp_def num_end_def)

lemma scan_exp_local:
  assumes "scan_exp s = Some (b, q)"
  shows "s = b @ q" and "b = [] \<or> hd b = CHR ''e'' \<or> hd b = CHR ''E''"
    and "\<And>q'. num_end q' \<Longrightarrow> scan_exp (b @ q') = Some (b, q')"
proof -
  have *: "s = b @ q \<and> (b = [] \<or> hd b = CHR ''e'' \<or> hd b = CHR ''E'')
        \<and> (num_end q' \<longrightarrow> scan_exp (b @ q') = Some (b, q'))" for q'
  proof (cases "\<exists>c r. s = c # r \<and> (c = CHR ''e'' \<or> c = CHR ''E'')")
    case False
    with assms have "b = []" "q = s"
      by (auto simp: scan_exp_def split: list.splits if_splits)
    then show ?thesis by (simp add: scan_exp_none)
  next
    case True
    then obtain c r where s: "s = c # r" and c: "c = CHR ''e'' \<or> c = CHR ''E''" by blast
    with assms obtain d t where r: "r = d # t"
      by (auto simp: scan_exp_def split: list.splits)
    show ?thesis
    proof (cases "d = CHR ''+'' \<or> d = CHR ''-''")
      case True
      with assms s c r obtain ds where "scan_digits1 t = Some (ds, q)" "b = c # d # ds"
        by (auto simp: scan_exp_def prepend_Some)
      with True s c r show ?thesis
        by (auto simp: scan_exp_def prepend_def scan_digits1_local num_end_nondigit)
    next
      case False
      with assms s c r obtain ds where ds: "scan_digits1 r = Some (ds, q)" "b = c # ds"
        by (auto simp: scan_exp_def prepend_Some)
      from scan_digits1_local(1,2) [OF ds(1)] r obtain ds' where "ds = d # ds'"
        by (cases ds) auto
      with False s c r ds scan_digits1_local [OF ds(1)] show ?thesis
        by (auto simp: scan_exp_def prepend_def num_end_nondigit)
    qed
  qed
  from * show "s = b @ q" "b = [] \<or> hd b = CHR ''e'' \<or> hd b = CHR ''E''"
    "\<And>q'. num_end q' \<Longrightarrow> scan_exp (b @ q') = Some (b, q')" by auto
qed

lemma scan_number_parts:
  "scan_number s = Some (n, q) \<longleftrightarrow>
     (\<exists>sg s1 i s2 fr s3 e.
        (if has_prefix s ''-'' then sg = ''-'' \<and> s = sg @ s1 else sg = [] \<and> s1 = s)
        \<and> scan_int s1 = Some (i, s2) \<and> scan_frac s2 = Some (fr, s3) \<and> scan_exp s3 = Some (e, q)
        \<and> n = sg @ i @ fr @ e)"
  unfolding scan_number_def
  by (cases s) (auto split: option.splits if_splits prod.splits simp: Let_def)

lemma is_digit_simps [simp]:
  "\<not> is_digit (CHR ''-'')" "\<not> is_digit (CHR ''.'')" "\<not> is_digit (CHR ''e'')" "\<not> is_digit (CHR ''E'')"
  by (simp_all add: is_digit_def)

lemma scan_number_sign:
  "sg = [] \<or> sg = ''-'' \<Longrightarrow> \<not> has_prefix t ''-'' \<Longrightarrow>
     scan_number (sg @ t) =
       (case scan_int t of None \<Rightarrow> None
        | Some (i, s2) \<Rightarrow>
            (case scan_frac s2 of None \<Rightarrow> None
             | Some (fr, s3) \<Rightarrow>
                 (case scan_exp s3 of None \<Rightarrow> None
                  | Some (e, s4) \<Rightarrow> Some (sg @ i @ fr @ e, s4))))"
  by (cases t) (auto simp: scan_number_def)

lemma scan_number_local:
  assumes "scan_number s = Some (n, q)"
  shows "s = n @ q" and "n \<noteq> []" and "hd n = CHR ''-'' \<or> is_digit (hd n)"
    and "\<And>q'. num_end q' \<Longrightarrow> scan_number (n @ q') = Some (n, q')"
proof -
  obtain sg s1 i s2 fr s3 e where
    sg: "if has_prefix s ''-'' then sg = ''-'' \<and> s = sg @ s1 else sg = [] \<and> s1 = s"
    and i: "scan_int s1 = Some (i, s2)" and fr: "scan_frac s2 = Some (fr, s3)"
    and e: "scan_exp s3 = Some (e, q)" and n: "n = sg @ i @ fr @ e"
    using assms unfolding scan_number_parts by blast
  note i' = scan_int_local [OF i] and fr' = scan_frac_local [OF fr] and e' = scan_exp_local [OF e]
  from sg have sg': "s = sg @ s1" "sg = [] \<or> sg = ''-''" by (auto split: if_splits)
  show "s = n @ q" using sg' n i'(1) fr'(1) e'(1) by simp
  show "n \<noteq> []" using n i'(2) by simp
  show "hd n = CHR ''-'' \<or> is_digit (hd n)" using n sg'(2) i'(2,3) by auto
  fix q' :: bytes assume q': "num_end q'"
  have x: "nondigit (e @ q') \<and> \<not> has_prefix (e @ q') ''.''"
    using e'(2) q' by (cases e; cases q') (auto simp: num_end_def)
  have y: "nondigit (fr @ e @ q')"
    using fr'(2) x by (cases fr) auto
  have "\<not> has_prefix (i @ fr @ e @ q') ''-''"
    using i'(2,3) by (cases i) auto
  then show "scan_number (n @ q') = Some (n, q')"
    using scan_number_sign [OF sg'(2), of "i @ fr @ e @ q'"]
      i'(4) [OF y] fr'(3) [of "e @ q'"] x e'(3) [OF q'] by (simp add: n)
qed

section \<open>A value's token parses on its own\<close>

definition is_num :: "json \<Rightarrow> bool" where
  "is_num v = (case v of JNum _ \<Rightarrow> True | _ \<Rightarrow> False)"

text \<open>
  \<open>reads d p v\<close>: the bytes \<open>p\<close> are one value \<open>v\<close>, whatever follows them (a number must be followed
  by something that ends it), for every fuel of at least their length and every nesting allowance
  of at least \<open>d\<close>. The same for the elements and the members of a container.
\<close>

definition reads :: "nat \<Rightarrow> bytes \<Rightarrow> json \<Rightarrow> bool" where
  "reads d p v = (p \<noteq> [] \<and> \<not> ws_char (hd p) \<and>
     (\<forall>f d' q. length p \<le> f \<longrightarrow> d \<le> d' \<longrightarrow> (is_num v \<longrightarrow> num_end q) \<longrightarrow>
        pv f d' (p @ q) = Some (v, q)))"

definition reads_elems :: "nat \<Rightarrow> bytes \<Rightarrow> (bytes \<times> json) list \<Rightarrow> bool" where
  "reads_elems d p vs = (p \<noteq> [] \<and>
     (\<forall>f d' q. length p \<le> f \<longrightarrow> d \<le> d' \<longrightarrow> pe f d' (p @ q) = Some (vs, q)))"

definition reads_members :: "nat \<Rightarrow> bytes \<Rightarrow> (bytes \<times> bytes \<times> json) list \<Rightarrow> bool" where
  "reads_members d p ms = (p \<noteq> [] \<and>
     (\<forall>f d' q. length p \<le> f \<longrightarrow> d \<le> d' \<longrightarrow> pm f d' (p @ q) = Some (ms, q)))"

lemma readsD:
  "reads d p v \<Longrightarrow> length p \<le> f \<Longrightarrow> d \<le> d' \<Longrightarrow> (is_num v \<Longrightarrow> num_end q) \<Longrightarrow>
     pv f d' (p @ q) = Some (v, q)"
  by (auto simp: reads_def)

lemma reads_elemsD:
  "reads_elems d p vs \<Longrightarrow> length p \<le> f \<Longrightarrow> d \<le> d' \<Longrightarrow> pe f d' (p @ q) = Some (vs, q)"
  by (auto simp: reads_elems_def)

lemma reads_membersD:
  "reads_members d p ms \<Longrightarrow> length p \<le> f \<Longrightarrow> d \<le> d' \<Longrightarrow> pm f d' (p @ q) = Some (ms, q)"
  by (auto simp: reads_members_def)

text \<open>How each syntactic form is read; \<open>w\<close>, \<open>w'\<close> are white space between tokens.\<close>

definition spaces :: "bytes \<Rightarrow> bool" where
  "spaces w = (\<forall>c \<in> set w. ws_char c)"

lemma skip_spaces [simp]: "spaces w \<Longrightarrow> skip_ws (w @ s) = skip_ws s"
  by (simp add: spaces_def skip_ws_append_ws)

lemma skip_ws_spaces: "\<exists>w. spaces w \<and> s = w @ skip_ws s"
  using skip_ws_split [of s] by (auto simp: spaces_def)

lemma num_end_spaces: "spaces w \<Longrightarrow> num_end s \<Longrightarrow> num_end (w @ s)"
  by (cases w) (auto simp: spaces_def num_end_ws)

lemma reads_string:
  assumes "scan_str (b @ [quote_char]) = Some (b, [])"
  shows "reads d (quoted b) (JStr b)"
proof -
  have "scan_str (b @ quote_char # q) = Some (b, q)" for q
    using scan_str_local [OF assms] by simp
  then have "pv f d' (quoted b @ q) = Some (JStr b, q)" if "0 < f" for f d' q
    using that by (cases f) (simp_all add: quoted_def)
  then show ?thesis by (auto simp: reads_def quoted_def)
qed

lemma reads_number:
  assumes "scan_number n = Some (n, [])"
  shows "reads d n (JNum n)"
proof -
  note loc = scan_number_local [OF assms]
  obtain c r where n: "n = c # r" using loc(2) by (cases n) auto
  have c: "c = CHR ''-'' \<or> is_digit c" using loc(3) n by simp
  then have "c \<noteq> CHR ''{''" "c \<noteq> CHR ''[''" "c \<noteq> quote_char" "c \<noteq> CHR ''t''" "c \<noteq> CHR ''f''"
    "c \<noteq> CHR ''n''" "\<not> ws_char c"
    by (auto simp: is_digit_def ws_char_def)
  then show ?thesis
    using loc(4) n by (auto simp: reads_def is_num_def dest!: Suc_le_D)
qed

lemma reads_const:
  "reads d ''true'' (JBool True)" "reads d ''false'' (JBool False)" "reads d ''null'' JNull"
  by (auto simp: reads_def dest!: Suc_le_D)

lemma reads_empty:
  "spaces w \<Longrightarrow> reads (Suc d) (CHR ''{'' # w @ ''}'') (JObj [])"
  "spaces w \<Longrightarrow> reads (Suc d) (CHR ''['' # w @ '']'') (JArr [])"
  by (auto simp: reads_def dest!: Suc_le_D)

lemma reads_array:
  assumes "spaces w" "reads_elems d p vs" "\<not> ws_char (hd p)" "hd p \<noteq> CHR '']''"
  shows "reads (Suc d) (CHR ''['' # w @ p) (JArr vs)"
proof -
  obtain c r where p: "p = c # r" using assms(2) by (cases p) (auto simp: reads_elems_def)
  have "pv f d' ((CHR ''['' # w @ p) @ q) = Some (JArr vs, q)"
    if "length (CHR ''['' # w @ p) \<le> f" "Suc d \<le> d'" for f d' q
  proof -
    obtain f' where f: "f = Suc f'" "length p \<le> f'" using \<open>length _ \<le> f\<close> by (cases f) auto
    have "pe f' (d' - 1) (p @ q) = Some (vs, q)"
      using assms(2) f(2) that(2) by (intro reads_elemsD) auto
    then show ?thesis using f(1) that(2) assms(1,3,4) p by simp
  qed
  then show ?thesis by (auto simp: reads_def)
qed

lemma reads_object:
  assumes "spaces w" "reads_members d p ms" "hd p = quote_char"
  shows "reads (Suc d) (CHR ''{'' # w @ p) (JObj ms)"
proof -
  obtain r where p: "p = quote_char # r"
    using assms(2,3) by (cases p) (auto simp: reads_members_def)
  have "pv f d' ((CHR ''{'' # w @ p) @ q) = Some (JObj ms, q)"
    if "length (CHR ''{'' # w @ p) \<le> f" "Suc d \<le> d'" for f d' q
  proof -
    obtain f' where f: "f = Suc f'" "length p \<le> f'" using \<open>length _ \<le> f\<close> by (cases f) auto
    have "pm f' (d' - 1) (p @ q) = Some (ms, q)"
      using assms(2) f(2) that(2) by (intro reads_membersD) auto
    then show ?thesis using f(1) that(2) assms(1) p by simp
  qed
  then show ?thesis by (auto simp: reads_def)
qed

lemma reads_elems_last:
  assumes "reads d p v" "spaces w"
  shows "reads_elems d (p @ w @ '']'') [(p, v)]"
proof -
  have "pe f d' ((p @ w @ '']'') @ q) = Some ([(p, v)], q)"
    if len: "length (p @ w @ '']'') \<le> f" "d \<le> d'" for f d' q
  proof -
    obtain f' where f: "f = Suc f'" "length p \<le> f'" using len by (cases f) auto
    have "pv f' d' (p @ w @ CHR '']'' # q) = Some (v, w @ CHR '']'' # q)"
      using assms f(2) len(2) by (intro readsD) (auto simp: num_end_spaces)
    with f(1) assms(2) show ?thesis by simp
  qed
  with assms(1) show ?thesis by (auto simp: reads_elems_def reads_def)
qed

lemma reads_elems_more:
  assumes "reads d p v" "spaces w" "spaces w'" "reads_elems d p' vs" "\<not> ws_char (hd p')"
  shows "reads_elems d (p @ w @ CHR '','' # w' @ p') ((p, v) # vs)"
proof -
  obtain c r where p': "p' = c # r" using assms(4) by (cases p') (auto simp: reads_elems_def)
  have "pe f d' ((p @ w @ CHR '','' # w' @ p') @ q) = Some ((p, v) # vs, q)"
    if len: "length (p @ w @ CHR '','' # w' @ p') \<le> f" "d \<le> d'" for f d' q
  proof -
    obtain f' where f: "f = Suc f'" "length p \<le> f'" "length p' \<le> f'" using len by (cases f) auto
    have "pv f' d' (p @ w @ CHR '','' # w' @ p' @ q) = Some (v, w @ CHR '','' # w' @ p' @ q)"
      using assms(1,2) f(2) len(2) by (intro readsD) (auto simp: num_end_spaces)
    moreover have "pe f' d' (p' @ q) = Some (vs, q)"
      using assms(4) f(3) len(2) by (rule reads_elemsD)
    ultimately show ?thesis using f(1) assms(2,3,5) p' by simp
  qed
  with assms(1) show ?thesis by (auto simp: reads_elems_def reads_def)
qed

text \<open>One member up to its value: name, colon, value.\<close>

lemma reads_members_step:
  assumes k: "scan_str (k @ [quote_char]) = Some (k, [])" and ws: "spaces w1" "spaces w2"
    and v: "reads d p v"
    and len: "length p \<le> f" "d \<le> d'"
    and q: "is_num v \<Longrightarrow> num_end (c # q)" and c: "\<not> ws_char c" and w3: "spaces w3"
  shows "pm (Suc f) d' (quoted k @ w1 @ CHR '':'' # w2 @ p @ w3 @ c # q) =
     (if c = CHR ''}'' then Some ([(k, p, v)], q)
      else if c = CHR '','' then map_option (\<lambda>(ms, z). ((k, p, v) # ms, z)) (pm f d' (skip_ws q))
      else None)"
proof -
  obtain c' r where p: "p = c' # r" "\<not> ws_char c'" using v by (cases p) (auto simp: reads_def)
  have "scan_str (k @ quote_char # z) = Some (k, z)" for z
    using scan_str_local [OF k] by simp
  moreover have "pv f d' (p @ w3 @ c # q) = Some (v, w3 @ c # q)"
    using v len q w3 by (intro readsD) (auto simp: num_end_spaces)
  ultimately show ?thesis
    using ws c w3 p by (simp add: quoted_def span_def)
qed

lemma reads_members_last:
  assumes "scan_str (k @ [quote_char]) = Some (k, [])" "spaces w1" "spaces w2" "reads d p v"
    "spaces w3"
  shows "reads_members d (quoted k @ w1 @ CHR '':'' # w2 @ p @ w3 @ ''}'') [(k, p, v)]"
proof -
  have "pm f d' ((quoted k @ w1 @ CHR '':'' # w2 @ p @ w3 @ ''}'') @ q) = Some ([(k, p, v)], q)"
    if len: "length (quoted k @ w1 @ CHR '':'' # w2 @ p @ w3 @ ''}'') \<le> f" "d \<le> d'" for f d' q
  proof -
    obtain f' where f: "f = Suc f'" "length p \<le> f'"
      using len by (cases f) auto
    show ?thesis
      using reads_members_step [OF assms(1-4) f(2) len(2), of "CHR ''}''" q w3] assms(5) f(1)
      by simp
  qed
  then show ?thesis by (auto simp: reads_members_def quoted_def)
qed

lemma reads_members_more:
  assumes "scan_str (k @ [quote_char]) = Some (k, [])" "spaces w1" "spaces w2" "reads d p v"
    "spaces w3" "spaces w4" "reads_members d p' ms" "hd p' = quote_char"
  shows "reads_members d (quoted k @ w1 @ CHR '':'' # w2 @ p @ w3 @ CHR '','' # w4 @ p')
           ((k, p, v) # ms)"
proof -
  obtain r where p': "p' = quote_char # r"
    using assms(7,8) by (cases p') (auto simp: reads_members_def)
  have "pm f d' ((quoted k @ w1 @ CHR '':'' # w2 @ p @ w3 @ CHR '','' # w4 @ p') @ q)
          = Some ((k, p, v) # ms, q)"
    if len: "length (quoted k @ w1 @ CHR '':'' # w2 @ p @ w3 @ CHR '','' # w4 @ p') \<le> f" "d \<le> d'"
    for f d' q
  proof -
    obtain f' where f: "f = Suc f'" "length p \<le> f'"
      "length p' \<le> f'"
      using len by (cases f) auto
    have "pm f' d' (p' @ q) = Some (ms, q)"
      using assms(7) f(3) len(2) by (rule reads_membersD)
    then show ?thesis
      using reads_members_step [OF assms(1-4) f(2) len(2), of "CHR '',''" "w4 @ p' @ q" w3]
        assms(5,6) f(1) p' by simp
  qed
  then show ?thesis by (auto simp: reads_members_def quoted_def)
qed

lemma scan_str_body:
  "scan_str s = Some (b, q) \<Longrightarrow> scan_str (b @ [quote_char]) = Some (b, [])"
  using scan_str_local by blast

lemma scan_number_token:
  "scan_number s = Some (n, q) \<Longrightarrow> scan_number n = Some (n, [])"
  using scan_number_local(4) [of s n q "[]"] by simp

text \<open>What a successful scan consumed is a token of the value, and the rest is untouched.\<close>

lemma pv_local:
  "pv f d s = Some (v, q) \<Longrightarrow> \<exists>p. s = p @ q \<and> reads d p v"
  "pe f d s = Some (vs, q) \<Longrightarrow> \<exists>p. s = p @ q \<and> reads_elems d p vs \<and> p \<noteq> [] \<and> hd p = hd s"
  "pm f d s = Some (ms, q) \<Longrightarrow> \<exists>p. s = p @ q \<and> reads_members d p ms \<and> hd p = quote_char"
proof (induction f d s and f d s and f d s arbitrary: v q and vs q and ms q rule: pv_pe_pm.induct)
  case (1 d s)
  then show ?case by simp
next
  case (2 f d s)
  then obtain c r where s: "s = c # r" by (cases s) auto
  obtain w where w: "spaces w" "r = w @ skip_ws r" using skip_ws_spaces by blast
  consider "c = CHR ''{''" | "c = CHR ''[''" | "c = quote_char"
    | "c \<notin> {CHR ''{'', CHR ''['', quote_char}" by blast
  then show ?case
  proof cases
    case 1
    with "2.prems" s obtain c' r' where r: "skip_ws r = c' # r'" and d: "0 < d"
      by (auto split: list.splits if_splits)
    show ?thesis
    proof (cases "c' = CHR ''}''")
      case True
      with "2.prems" 1 s r d have "v = JObj []" "q = r'" by auto
      with reads_empty(1) [OF w(1), of "d - 1"] d 1 s w r True show ?thesis
        by (intro exI [of _ "CHR ''{'' # w @ ''}''"]) (simp add: Suc_diff_1)
    next
      case False
      with "2.prems" 1 s r d obtain ms where ms: "v = JObj ms" "pm f (d - 1) (c' # r') = Some (ms, q)"
        by auto
      from "2.IH"(1) [OF s 1 _ r False ms(2)] d obtain p where
        p: "c' # r' = p @ q" "reads_members (d - 1) p ms" "hd p = quote_char" by auto
      with reads_object [OF w(1) p(2,3)] d ms(1) 1 s w r show ?thesis
        by (intro exI [of _ "CHR ''{'' # w @ p"]) simp
    qed
  next
    case 2
    with "2.prems" s obtain c' r' where r: "skip_ws r = c' # r'" and d: "0 < d"
      by (auto split: list.splits if_splits)
    show ?thesis
    proof (cases "c' = CHR '']''")
      case True
      with "2.prems" 2 s r d have "v = JArr []" "q = r'" by auto
      with reads_empty(2) [OF w(1), of "d - 1"] d 2 s w r True show ?thesis
        by (intro exI [of _ "CHR ''['' # w @ '']''"]) (simp add: Suc_diff_1)
    next
      case False
      have ne: "c \<noteq> CHR ''{''" using 2 by simp
      from False "2.prems" 2 s r d obtain vs where
        vs: "v = JArr vs" "pe f (d - 1) (c' # r') = Some (vs, q)" by auto
      from "2.IH"(2) [OF s ne 2 _ r False vs(2)] d obtain p where
        p: "c' # r' = p @ q" "reads_elems (d - 1) p vs" "p \<noteq> []" "hd p = c'" by auto
      with reads_array [OF w(1) p(2)] d vs(1) 2 s w r False skip_ws_hd [OF r] show ?thesis
        by (intro exI [of _ "CHR ''['' # w @ p"]) simp
    qed
  next
    case 3
    with "2.prems" s obtain b where b: "v = JStr b" "scan_str r = Some (b, q)" by auto
    with reads_string [OF scan_str_body [OF b(2)]] scan_str_local [OF b(2)] 3 s show ?thesis
      by (intro exI [of _ "quoted b"]) (simp add: quoted_def)
  next
    case 4
    consider "has_prefix s ''true''" | "has_prefix s ''false''" | "has_prefix s ''null''"
      | "\<not> has_prefix s ''true''" "\<not> has_prefix s ''false''" "\<not> has_prefix s ''null''" by blast
    then show ?thesis
    proof cases
      case 1
      then obtain t where "s = ''true'' @ t" by (auto simp: has_prefix_iff)
      with "2.prems" reads_const(1) show ?thesis by auto
    next
      case 2
      then obtain t where "s = ''false'' @ t" by (auto simp: has_prefix_iff)
      with "2.prems" reads_const(2) show ?thesis by auto
    next
      case 3
      then obtain t where "s = ''null'' @ t" by (auto simp: has_prefix_iff)
      with "2.prems" reads_const(3) show ?thesis by auto
    next
      case n: 4
      with "2.prems" 4 s obtain n where n: "v = JNum n" "scan_number s = Some (n, q)" by auto
      with reads_number [OF scan_number_token [OF n(2)]] scan_number_local(1) [OF n(2)]
      show ?thesis by auto
    qed
  qed
next
  case (3 d s)
  then show ?case by simp
next
  case (4 f d s)
  then obtain v q1 c r where v: "pv f d s = Some (v, q1)" and r: "skip_ws q1 = c # r"
    by (auto split: option.splits list.splits)
  obtain w where w: "spaces w" "q1 = w @ c # r" using skip_ws_spaces [of q1] r by auto
  from "4.IH"(1) [OF v] obtain p where p: "s = p @ q1" "reads d p v" by blast
  have ne: "p \<noteq> []" using p(2) by (auto simp: reads_def)
  show ?case
  proof (cases "c = CHR '']''")
    case True
    with "4.prems" v r p(1) have "vs = [(p, v)]" "q = r" by auto
    with reads_elems_last [OF p(2) w(1)] p(1) w True ne show ?thesis
      by (intro exI [of _ "p @ w @ '']''"]) simp
  next
    case False
    with "4.prems" v r p(1) obtain vs' where c: "c = CHR '',''"
      and vs: "vs = (p, v) # vs'" "pe f d (skip_ws r) = Some (vs', q)"
      by (auto split: if_splits)
    from "4.IH"(2) [OF v _ r False c vs(2)] obtain p' where
      p': "skip_ws r = p' @ q" "reads_elems d p' vs'" "p' \<noteq> []" "hd p' = hd (skip_ws r)" by auto
    obtain w' where w': "spaces w'" "r = w' @ skip_ws r" using skip_ws_spaces by blast
    have "\<not> ws_char (hd p')"
      using p'(1,3) skip_ws_hd [of r] by (cases p') auto
    moreover have "r = w' @ p' @ q" using w'(2) p'(1) by metis
    ultimately show ?thesis
      using reads_elems_more [OF p(2) w(1) w'(1) p'(2)] p(1) w(2) vs(1) c ne
      by (intro exI [of _ "p @ w @ CHR '','' # w' @ p'"]) simp
  qed
next
  case (5 d s)
  then show ?case by simp
next
  case (6 f d s)
  then obtain c r where s: "s = c # r" by (cases s) auto
  with "6.prems" have c: "c = quote_char" by (auto split: if_splits)
  from "6.prems" s c obtain k q1 where k: "scan_str r = Some (k, q1)"
    by (auto split: option.splits)
  from "6.prems" s c k obtain c1 r1 where r1: "skip_ws q1 = c1 # r1" by (auto split: list.splits)
  with "6.prems" s c k have c1: "c1 = CHR '':''" by (auto split: if_splits)
  from "6.prems" s c k r1 c1 obtain v q2 where v: "pv f d (skip_ws r1) = Some (v, q2)"
    by (auto split: option.splits)
  from "6.prems" s c k r1 c1 v obtain c3 r3 where r3: "skip_ws q2 = c3 # r3"
    by (auto split: list.splits)
  obtain w1 where w1: "spaces w1" "q1 = w1 @ c1 # r1" using skip_ws_spaces [of q1] r1 by auto
  obtain w2 where w2: "spaces w2" "r1 = w2 @ skip_ws r1" using skip_ws_spaces by blast
  obtain w3 where w3: "spaces w3" "q2 = w3 @ c3 # r3" using skip_ws_spaces [of q2] r3 by auto
  have nc: "\<not> c \<noteq> quote_char" "\<not> c1 \<noteq> CHR '':''" using c c1 by auto
  from "6.IH"(1) [OF s nc(1) k _ r1 nc(2) v] obtain p where
    p: "skip_ws r1 = p @ q2" "reads d p v" by blast
  note kb = scan_str_body [OF k]
  have s': "s = quoted k @ w1 @ CHR '':'' # w2 @ p @ w3 @ c3 # r3"
    using s c scan_str_local [OF k] w1(2) c1 w2(2) p(1) w3(2) by (simp add: quoted_def)
  show ?case
  proof (cases "c3 = CHR ''}''")
    case True
    with "6.prems" s c k r1 c1 v r3 p(1) have "ms = [(k, p, v)]" "q = r3" by auto
    with reads_members_last [OF kb w1(1) w2(1) p(2) w3(1)] s' True show ?thesis
      by (intro exI [of _ "quoted k @ w1 @ CHR '':'' # w2 @ p @ w3 @ ''}''"])
        (simp add: quoted_def)
  next
    case False
    with "6.prems" s c k r1 c1 v r3 p(1) obtain ms' where c3: "c3 = CHR '',''"
      and ms: "ms = (k, p, v) # ms'" "pm f d (skip_ws r3) = Some (ms', q)"
      by (auto split: if_splits)
    from "6.IH"(2) [OF s nc(1) k _ r1 nc(2) v _ r3 False c3 ms(2)] obtain p' where
      p': "skip_ws r3 = p' @ q" "reads_members d p' ms'" "hd p' = quote_char" by blast
    obtain w4 where w4: "spaces w4" "r3 = w4 @ skip_ws r3" using skip_ws_spaces by blast
    have "r3 = w4 @ p' @ q" using w4(2) p'(1) by metis
    with reads_members_more [OF kb w1(1) w2(1) p(2) w3(1) w4(1) p'(2,3)] s' c3 ms(1) show ?thesis
      by (intro exI [of _ "quoted k @ w1 @ CHR '':'' # w2 @ p @ w3 @ CHR '','' # w4 @ p'"])
        (simp add: quoted_def)
  qed
qed

end
