(* ===== verification/Json_Roundtrip.thy ===== *)
theory Json_Roundtrip
  imports Json_Laws
begin

text \<open>
  String tokens: the bodies a string token can have (\<open>str_body\<close>), the runes the decoder reads, and
  that escaping a body the way the encoder escapes a raw token changes neither its being a body
  nor the string it decodes to (\<open>unquote_html_escape\<close>).
\<close>

section \<open>String bodies\<close>

definition str_body :: "bytes \<Rightarrow> bool" where
  "str_body b = (scan_str (b @ [quote_char]) = Some (b, []))"

lemma str_body_Nil [simp]: "str_body []"
  by (simp add: str_body_def)

lemma str_body_plain [simp]:
  "c \<noteq> quote_char \<Longrightarrow> c \<noteq> backslash \<Longrightarrow> \<not> byte c < 32 \<Longrightarrow> str_body (c # b) = str_body b"
  by (auto simp: str_body_def prepend_Some)

lemma str_body_control: "byte c < 32 \<Longrightarrow> \<not> str_body (c # b)"
  by (auto simp: str_body_def)

lemma str_body_quote: "\<not> str_body (quote_char # b)"
  by (auto simp: str_body_def)

lemma str_body_simple [simp]:
  "simple_escape e \<Longrightarrow> str_body (backslash # e # b) = str_body b"
  by (auto simp: str_body_def prepend_Some)

lemma not_simple_u [simp]: "\<not> simple_escape (CHR ''u'')"
  by (simp add: simple_escape_def)

lemma str_body_u [simp]:
  "list_all hex_digit [h1, h2, h3, h4] \<Longrightarrow>
     str_body (backslash # CHR ''u'' # h1 # h2 # h3 # h4 # b) = str_body b"
  by (auto simp: str_body_def prepend_Some)

lemma hex_digit_quote [simp]: "\<not> hex_digit quote_char"
  by (simp add: hex_digit_def is_digit_def)

text \<open>A body starts in one of four ways.\<close>

lemma str_body_cases [consumes 1, case_names Nil Plain Simple U]:
  assumes "str_body b"
  obtains "b = []"
  | c t where "b = c # t" "c \<noteq> quote_char" "c \<noteq> backslash" "\<not> byte c < 32" "str_body t"
  | e t where "b = backslash # e # t" "simple_escape e" "str_body t"
  | h1 h2 h3 h4 t where "b = backslash # CHR ''u'' # h1 # h2 # h3 # h4 # t"
      "list_all hex_digit [h1, h2, h3, h4]" "str_body t"
proof (cases b)
  case Nil
  then show ?thesis using that(1) by blast
next
  case (Cons c t)
  consider "c = quote_char" | "byte c < 32" | "c = backslash"
    | "c \<noteq> quote_char" "c \<noteq> backslash" "\<not> byte c < 32" by blast
  then show ?thesis
  proof cases
    case 1
    with assms Cons show ?thesis by (simp add: str_body_quote)
  next
    case 2
    with assms Cons show ?thesis by (simp add: str_body_control)
  next
    case 3
    show ?thesis
    proof (cases t)
      case Nil
      with assms Cons 3 show ?thesis by (auto simp: str_body_def simple_escape_def prepend_def)
    next
      case t: (Cons e u)
      show ?thesis
      proof (cases "simple_escape e")
        case True
        with assms Cons 3 t that(3) [of e u] show ?thesis by simp
      next
        case False
        with assms Cons 3 t obtain h1 h2 h3 h4 v where
          v: "u @ [quote_char] = h1 # h2 # h3 # h4 # v" "e = CHR ''u''"
            "list_all hex_digit [h1, h2, h3, h4]"
          by (auto simp: str_body_def split: list.splits if_splits)
        then obtain w where "u = h1 # h2 # h3 # h4 # w"
          by (cases u rule: rev_cases) (auto simp: append_eq_Cons_conv Cons_eq_append_conv)
        with assms Cons 3 t v that(4) show ?thesis by (metis str_body_u)
      qed
    qed
  next
    case 4
    with assms Cons that(2) [of c t] show ?thesis by simp
  qed
qed

lemma str_body_induct [consumes 1, case_names Nil Plain Simple U]:
  assumes "str_body b"
    and "P []"
    and "\<And>c t. c \<noteq> quote_char \<Longrightarrow> c \<noteq> backslash \<Longrightarrow> \<not> byte c < 32 \<Longrightarrow> str_body t \<Longrightarrow>
           (\<And>u v. t = u @ v \<Longrightarrow> str_body v \<Longrightarrow> P v) \<Longrightarrow> P (c # t)"
    and "\<And>e t. simple_escape e \<Longrightarrow> str_body t \<Longrightarrow> P t \<Longrightarrow> P (backslash # e # t)"
    and "\<And>h1 h2 h3 h4 t. list_all hex_digit [h1, h2, h3, h4] \<Longrightarrow> str_body t \<Longrightarrow>
           (\<And>u v. t = u @ v \<Longrightarrow> str_body v \<Longrightarrow> P v) \<Longrightarrow> P (backslash # CHR ''u'' # h1 # h2 # h3 # h4 # t)"
  shows "P b"
  using assms(1)
proof (induction b rule: length_induct)
  case (1 b)
  from 1(2) show ?case
  proof (cases b rule: str_body_cases)
    case Nil
    then show ?thesis using assms(2) by simp
  next
    case (Plain c t)
    then show ?thesis using 1(1) assms(3) [of c t] by auto
  next
    case (Simple e t)
    then show ?thesis using 1(1) assms(4) [of e t] by auto
  next
    case (U h1 h2 h3 h4 t)
    then show ?thesis using 1(1) assms(5) [of h1 h2 h3 h4 t] by auto
  qed
qed

section \<open>HTML escaping\<close>

definition ls_ps :: "bytes \<Rightarrow> bool" where
  "ls_ps s = (has_prefix s [CHR 0xE2, CHR 0x80, CHR 0xA8] \<or> has_prefix s [CHR 0xE2, CHR 0x80, CHR 0xA9])"

lemma html_escape_html [simp]: "html_char c \<Longrightarrow> html_escape (c # s) = u_escaped (byte c) @ html_escape s"
  by simp

lemma not_html_E2 [simp]: "\<not> html_char (CHR 0xE2)"
  by (simp add: html_char_def)

lemma html_escape_ls_ps:
  "c = CHR 0xA8 \<or> c = CHR 0xA9 \<Longrightarrow>
     html_escape (CHR 0xE2 # CHR 0x80 # c # t)
       = u_escaped (0x2000 + (byte c - 0x80)) @ html_escape t"
  by simp

lemma html_escape_plain:
  "\<not> html_char c \<Longrightarrow> \<not> ls_ps (c # s) \<Longrightarrow> html_escape (c # s) = c # html_escape s"
  by (subst html_escape.simps(2))
    (auto simp: ls_ps_def simp del: html_escape.simps split: list.splits)

declare html_escape.simps(2) [simp del]

lemma ls_ps_cases:
  assumes "ls_ps s"
  obtains c t where "s = CHR 0xE2 # CHR 0x80 # c # t" "c = CHR 0xA8 \<or> c = CHR 0xA9"
  using assms unfolding ls_ps_def has_prefix_iff by auto

lemma not_ls_ps [simp]: "c \<noteq> CHR 0xE2 \<Longrightarrow> \<not> ls_ps (c # s)"
  by (auto simp: ls_ps_def)

lemma hex_char_hex: "n < 16 \<Longrightarrow> hex_digit (hex_char n)"
  by (auto simp: hex_char_def hex_digit_def is_digit_def)

lemma hex_val_hex_char: "n < 16 \<Longrightarrow> hex_val (hex_char n) = n"
  by (auto simp: hex_char_def hex_val_def Let_def)

lemma u_escaped_form:
  "u_escaped x = [backslash, CHR ''u'', hex_char (x div 4096), hex_char (x div 256 mod 16),
     hex_char (x div 16 mod 16), hex_char (x mod 16)]"
  by (simp add: u_escaped_def)

lemma str_body_u_escaped [simp]:
  assumes "x < 65536"
  shows "str_body (u_escaped x @ b) = str_body b"
proof -
  have "x div 4096 < 16" using assms by simp
  then show ?thesis by (simp add: u_escaped_form hex_char_hex)
qed

lemma hex4_u_escaped:
  assumes "x < 65536"
  shows "hex4 (hex_char (x div 4096)) (hex_char (x div 256 mod 16)) (hex_char (x div 16 mod 16))
           (hex_char (x mod 16)) = x"
proof -
  have "x div 4096 < 16" using assms by simp
  then have "hex4 (hex_char (x div 4096)) (hex_char (x div 256 mod 16)) (hex_char (x div 16 mod 16))
      (hex_char (x mod 16)) = x div 4096 * 4096 + x div 256 mod 16 * 256 + x div 16 mod 16 * 16 + x mod 16"
    by (simp add: hex4_def hex_val_hex_char)
  also have "\<dots> = x"
  proof -
    have "x div 16 div 16 = x div 256" "x div 256 div 16 = x div 4096"
      by (simp_all flip: div_mult2_eq)
    then show ?thesis
      using div_mult_mod_eq [of x 16] div_mult_mod_eq [of "x div 16" 16]
        div_mult_mod_eq [of "x div 256" 16] by linarith
  qed
  finally show ?thesis .
qed

lemma u_escape_u_escaped [simp]:
  assumes "x < 65536"
  shows "u_escape (u_escaped x @ s) = Some x"
proof -
  have "x div 4096 < 16" using assms by simp
  then show ?thesis
    using hex4_u_escaped [OF assms] by (simp add: u_escape_def u_escaped_form hex_char_hex)
qed

lemma hex_digit_not_html: "hex_digit c \<Longrightarrow> \<not> html_char c \<and> c \<noteq> CHR 0xE2"
  by (auto simp: hex_digit_def html_char_def is_digit_def)

lemma simple_escape_not_html: "simple_escape c \<Longrightarrow> \<not> html_char c \<and> c \<noteq> CHR 0xE2"
  by (auto simp: simple_escape_def html_char_def)

lemma not_html_simps [simp]:
  "\<not> html_char backslash" "\<not> html_char (CHR ''u'')" "\<not> html_char quote_char"
  by (simp_all add: html_char_def)

lemma html_escape_simple [simp]:
  "simple_escape e \<Longrightarrow> html_escape (backslash # e # t) = backslash # e # html_escape t"
  using simple_escape_not_html [of e] by (simp add: html_escape_plain)

lemma html_escape_u [simp]:
  "list_all hex_digit [h1, h2, h3, h4] \<Longrightarrow>
     html_escape (backslash # CHR ''u'' # h1 # h2 # h3 # h4 # t)
       = backslash # CHR ''u'' # h1 # h2 # h3 # h4 # html_escape t"
  using hex_digit_not_html by (simp add: html_escape_plain)

lemma html_char_byte: "html_char c \<Longrightarrow> byte c < 65536 \<and> byte c < 128 \<and> byte c < 0xD800"
  by (auto simp: html_char_def)

lemma str_body_html_escape: "str_body b \<Longrightarrow> str_body (html_escape b)"
proof (induction b rule: str_body_induct)
  case (Plain c t)
  consider "html_char c" | "ls_ps (c # t)" | "\<not> html_char c" "\<not> ls_ps (c # t)" by blast
  then show ?case
  proof cases
    case 1
    then show ?thesis using Plain.IH [of "[]" t] Plain.hyps html_char_byte by simp
  next
    case 2
    then obtain x u where x: "c # t = CHR 0xE2 # CHR 0x80 # x # u" "x = CHR 0xA8 \<or> x = CHR 0xA9"
      by (rule ls_ps_cases)
    then have "str_body u" using Plain.hyps by auto
    then have "str_body (html_escape u)" using x Plain.IH [of "[CHR 0x80, x]" u] by simp
    then show ?thesis using x by (auto simp: html_escape_ls_ps)
  next
    case 3
    then show ?thesis using Plain.IH [of "[]" t] Plain.hyps by (simp add: html_escape_plain)
  qed
qed auto

section \<open>Runes\<close>

text \<open>Decoding looks at the first byte and the continuation bytes after it only.\<close>

definition conts :: "bytes \<Rightarrow> bytes" where
  "conts s = takeWhile (\<lambda>c. cont_byte (byte c)) s"

lemma decode_rune_width:
  assumes "decode_rune s = Some (x, n)"
  shows "1 \<le> n" "n \<le> length s" "n \<le> 4" "\<forall>c \<in> set (take (n - 1) (tl s)). cont_byte (byte c)"
    "n = 1 \<longleftrightarrow> byte (hd s) < 128"
  using assms
  by (auto simp: decode_rune_def decode_rune2_def decode_rune3_def decode_rune4_def
      split: list.splits if_splits option.splits)

lemma decode_rune_ext:
  assumes "decode_rune s = Some (x, n)" "take n s' = take n s"
  shows "decode_rune s' = Some (x, n)"
proof -
  have w: "n \<le> length s" "1 \<le> n" "n \<le> 4" using decode_rune_width [OF assms(1)] by auto
  have s': "s' = take n s @ drop n s'" by (metis append_take_drop_id assms(2))
  have "decode_rune (take n s @ t) = Some (x, n)" for t
  proof (cases s)
    case Nil
    with assms(1) show ?thesis by (simp add: decode_rune_def)
  next
    case s: (Cons a u)
    consider "n = 1" | "n = 2" | "n = 3" | "n = 4" using w by linarith
    then show ?thesis
    proof cases
      case 1
      with s assms(1) show ?thesis
        by (auto simp: decode_rune_def split: list.splits if_splits option.splits)
    next
      case 2
      with s w obtain b v where u: "u = b # v" by (cases u) auto
      from 2 s u assms(1) show ?thesis
        by (auto simp: decode_rune_def numeral_2_eq_2 split: list.splits if_splits option.splits)
    next
      case 3
      with s w obtain b c v where u: "u = b # c # v" by (cases u; cases "tl u") auto
      from 3 s u assms(1) show ?thesis
        by (auto simp: decode_rune_def numeral_3_eq_3 split: list.splits if_splits option.splits)
    next
      case 4
      with s w obtain b c e v where u: "u = b # c # e # v"
        by (cases u; cases "tl u"; cases "tl (tl u)") auto
      from 4 s u assms(1) show ?thesis
        by (auto simp: decode_rune_def eval_nat_numeral split: list.splits if_splits option.splits)
    qed
  qed
  from this [of "drop n s'"] s' show ?thesis by simp
qed

lemma cont_not_html:
  "cont_byte (byte c) \<Longrightarrow> \<not> html_char c \<and> c \<noteq> CHR 0xE2 \<and> c \<noteq> backslash"
  by (auto simp: cont_byte_def html_char_def)

lemma html_escape_conts: "\<forall>c \<in> set u. cont_byte (byte c) \<Longrightarrow> html_escape (u @ t) = u @ html_escape t"
proof (induction u)
  case (Cons c u)
  then have "\<not> html_char c" "\<not> ls_ps (c # u @ t)" using cont_not_html [of c] by auto
  then have "html_escape (c # u @ t) = c # html_escape (u @ t)" by (rule html_escape_plain)
  with Cons show ?case by simp
qed simp

lemma conts_u_escaped [simp]: "conts (u_escaped x @ s) = []"
  by (simp add: conts_def u_escaped_form cont_byte_def)

lemma ls_ps_code:
  "y = CHR 0xA8 \<or> y = CHR 0xA9 \<Longrightarrow> 0x2000 + (byte y - 0x80) < (0xD800 :: nat)"
  by auto

lemma html_escape_noncont:
  assumes "\<not> cont_byte (byte c)"
  shows "conts (html_escape (c # t)) = []"
proof -
  consider "html_char c" | "ls_ps (c # t)" | "\<not> html_char c" "\<not> ls_ps (c # t)" by blast
  then show ?thesis
  proof cases
    case 1
    then show ?thesis by simp
  next
    case 2
    then obtain x u where x: "c # t = CHR 0xE2 # CHR 0x80 # x # u" "x = CHR 0xA8 \<or> x = CHR 0xA9"
      by (rule ls_ps_cases)
    then show ?thesis by (simp only: html_escape_ls_ps conts_u_escaped)
  next
    case 3
    with assms show ?thesis by (simp add: html_escape_plain conts_def)
  qed
qed

lemma conts_html_escape: "conts (html_escape t) = conts t"
proof (induction t)
  case (Cons c t)
  show ?case
  proof (cases "cont_byte (byte c)")
    case True
    with Cons cont_not_html [OF True] show ?thesis by (simp add: html_escape_plain conts_def)
  next
    case False
    with html_escape_noncont [OF False] show ?thesis by (simp add: conts_def)
  qed
qed (simp add: conts_def)

lemma take_conts:
  "n \<le> length t \<Longrightarrow> \<forall>c \<in> set (take n t). cont_byte (byte c) \<Longrightarrow> take n t = take n (conts t) \<and> n \<le> length (conts t)"
proof (induction t arbitrary: n)
  case (Cons c t)
  then show ?case by (cases n) (auto simp: conts_def)
qed (simp add: conts_def)

lemma conts_take: "n \<le> length (conts t) \<Longrightarrow> take n (conts t) = take n t"
proof (induction t arbitrary: n)
  case (Cons c t)
  then show ?case by (cases n) (auto simp: conts_def split: if_splits)
qed (simp add: conts_def)

lemma decode_rune_conts:
  assumes "conts t = conts t'"
  shows "decode_rune (c # t) = decode_rune (c # t')"
proof -
  have one: "decode_rune (c # t) = Some (x, n) \<Longrightarrow> conts t = conts t' \<Longrightarrow>
      decode_rune (c # t') = Some (x, n)" for x n t t'
  proof -
    assume d: "decode_rune (c # t) = Some (x, n)" and eq: "conts t = conts t'"
    have w: "1 \<le> n" "n - 1 \<le> length t" "\<forall>c \<in> set (take (n - 1) t). cont_byte (byte c)"
      using decode_rune_width [OF d] by auto
    from take_conts [OF w(2,3)] eq have "take (n - 1) t = take (n - 1) t'"
      using conts_take [of "n - 1" t'] by auto
    with w(1) have "take n (c # t') = take n (c # t)" by (cases n) auto
    with d show "decode_rune (c # t') = Some (x, n)" by (rule decode_rune_ext)
  qed
  show ?thesis
  proof (cases "decode_rune (c # t)")
    case None
    then show ?thesis using one [of t' _ _ t] assms by (cases "decode_rune (c # t')") auto
  next
    case (Some y)
    then show ?thesis using one [of t _ _ t'] assms by (cases y) auto
  qed
qed

lemma decode_rune_html_escape: "decode_rune (c # html_escape t) = decode_rune (c # t)"
  by (intro decode_rune_conts conts_html_escape)

section \<open>Decoding undoes escaping\<close>

lemma unquote_Nil [simp]: "unquote [] = []"
  by (subst unquote.simps) simp

lemma unquote_ascii [simp]:
  "c \<noteq> backslash \<Longrightarrow> byte c < 128 \<Longrightarrow> unquote (c # t) = c # unquote t"
  by (subst unquote.simps) simp

lemma unquote_simple [simp]:
  "simple_escape e \<Longrightarrow> unquote (backslash # e # t) = escape_value e # unquote t"
  by (subst unquote.simps)
    (auto simp: u_escape_def simple_escape_def simp del: unquote.simps split: list.splits)

lemma u_escape_hex [simp]:
  "list_all hex_digit [h1, h2, h3, h4] \<Longrightarrow>
     u_escape (backslash # CHR ''u'' # h1 # h2 # h3 # h4 # t) = Some (hex4 h1 h2 h3 h4)"
  by (simp add: u_escape_def)

lemma unquote_u:
  "list_all hex_digit [h1, h2, h3, h4] \<Longrightarrow>
     unquote (backslash # CHR ''u'' # h1 # h2 # h3 # h4 # t) =
       (let (y, n) = u_rune (hex4 h1 h2 h3 h4) t in encode_rune y @ unquote (drop n t))"
  by (subst unquote.simps) (auto simp: Let_def eval_nat_numeral split: prod.splits)

lemma unquote_u_escaped:
  assumes "x < 0xD800"
  shows "unquote (u_escaped x @ t) = encode_rune x @ unquote t"
proof -
  have x: "x < 65536" "x div 4096 < 16" using assms by simp_all
  then have "list_all hex_digit [hex_char (x div 4096), hex_char (x div 256 mod 16),
      hex_char (x div 16 mod 16), hex_char (x mod 16)]" by (simp add: hex_char_hex)
  from unquote_u [OF this, of t] show ?thesis
    using hex4_u_escaped [OF x(1)] assms by (simp add: u_escaped_form u_rune_def)
qed

lemma unquote_high:
  "\<not> byte c < 128 \<Longrightarrow>
     unquote (c # t) =
       (case decode_rune (c # t) of
          Some (x, n) \<Rightarrow> take n (c # t) @ unquote (drop (max n 1) (c # t))
        | None \<Rightarrow> replacement @ unquote t)"
proof -
  assume c: "\<not> byte c < 128"
  then have "c \<noteq> backslash" by auto
  with c show ?thesis by (subst unquote.simps) simp
qed

lemma encode_rune_ascii: "byte c < 128 \<Longrightarrow> encode_rune (byte c) = [c]"
  by (simp add: encode_rune_def)

lemma encode_ls_ps:
  "x = CHR 0xA8 \<or> x = CHR 0xA9 \<Longrightarrow>
     encode_rune (0x2000 + (byte x - 0x80)) = [CHR 0xE2, CHR 0x80, x]"
  by (elim disjE; hypsubst; code_simp)

lemma u_escape_Nil [simp]: "u_escape [] = None"
  by (simp add: u_escape_def)

lemma u_escape_not [simp]:
  "c \<noteq> backslash \<Longrightarrow> u_escape (c # t) = None"
  "e \<noteq> CHR ''u'' \<Longrightarrow> u_escape (c # e # t) = None"
  by (auto simp: u_escape_def split: list.splits)

lemma u_rune_html_escape:
  assumes "str_body t"
  shows "u_rune x (html_escape t) = u_rune x t \<and> (snd (u_rune x t) = 6 \<longrightarrow>
           drop 6 (html_escape t) = html_escape (drop 6 t) \<and> str_body (drop 6 t))"
  using assms
proof (cases t rule: str_body_cases)
  case Nil
  then show ?thesis by (simp add: u_rune_def)
next
  case (Plain c r)
  then have none: "u_escape t = None" by simp
  consider "html_char c" | "ls_ps (c # r)" | "\<not> html_char c" "\<not> ls_ps (c # r)" by blast
  then show ?thesis
  proof cases
    case 1
    with Plain have "u_escape (html_escape t) = Some (byte c)"
      using html_char_byte [OF 1] by simp
    with html_char_byte [OF 1] none show ?thesis by (simp add: u_rune_def)
  next
    case 2
    then obtain y u where y: "c # r = CHR 0xE2 # CHR 0x80 # y # u" "y = CHR 0xA8 \<or> y = CHR 0xA9"
      by (rule ls_ps_cases)
    have "html_escape t = u_escaped (0x2000 + (byte y - 0x80)) @ html_escape u"
      using Plain(1) y by (simp only: html_escape_ls_ps)
    then have "u_escape (html_escape t) = Some (0x2000 + (byte y - 0x80))"
      using ls_ps_code [OF y(2)] by simp
    with none ls_ps_code [OF y(2)] show ?thesis by (simp add: u_rune_def)
  next
    case 3
    then have "html_escape t = c # html_escape r" using Plain(1) html_escape_plain by simp
    with none Plain show ?thesis by (simp add: u_rune_def)
  qed
next
  case (Simple e r)
  then have "e \<noteq> CHR ''u''" by auto
  with Simple have "u_escape t = None" "u_escape (html_escape t) = None" by simp_all
  then show ?thesis by (simp add: u_rune_def)
next
  case (U h1 h2 h3 h4 r)
  then have "u_escape (html_escape t) = u_escape t" by simp
  moreover have "drop 6 (html_escape t) = html_escape r" "drop 6 t = r"
    using U(1,2) by (simp_all add: eval_nat_numeral)
  ultimately show ?thesis using U(3) by (simp add: u_rune_def)
qed

lemma u_rune_width: "snd (u_rune x t) = 0 \<or> snd (u_rune x t) = 6"
  by (auto simp: u_rune_def split: option.splits)

text \<open>A rune of a body spans whole bytes that stand for themselves.\<close>

lemma str_body_drop_conts:
  assumes "str_body t" "n \<le> length t" "\<forall>c \<in> set (take n t). cont_byte (byte c)"
  shows "str_body (drop n t)"
  using assms
proof (induction n arbitrary: t)
  case (Suc n)
  then obtain c r where t: "t = c # r" by (cases t) auto
  with Suc.prems(3) have "cont_byte (byte c)" by simp
  then have "c \<noteq> quote_char" "c \<noteq> backslash" "\<not> byte c < 32" by (auto simp: cont_byte_def)
  with t Suc show ?case by simp
qed simp

lemma decode_ls_ps:
  "y = CHR 0xA8 \<or> y = CHR 0xA9 \<Longrightarrow>
     decode_rune (CHR 0xE2 # CHR 0x80 # y # u) = Some (0x2000 + (byte y - 0x80), 3)"
  by (elim disjE; hypsubst)
    (simp_all add: decode_rune_def decode_rune2_def decode_rune3_def cont_byte_def)

lemma unquote_html_ls_ps:
  assumes "y = CHR 0xA8 \<or> y = CHR 0xA9" and "unquote (html_escape u) = unquote u"
  shows "unquote (html_escape (CHR 0xE2 # CHR 0x80 # y # u)) = unquote (CHR 0xE2 # CHR 0x80 # y # u)"
proof -
  have "unquote (html_escape (CHR 0xE2 # CHR 0x80 # y # u))
      = unquote (u_escaped (0x2000 + (byte y - 0x80)) @ html_escape u)"
    using html_escape_ls_ps [OF assms(1)] by simp
  also have "\<dots> = [CHR 0xE2, CHR 0x80, y] @ unquote u"
    using unquote_u_escaped [OF ls_ps_code [OF assms(1)]] encode_ls_ps [OF assms(1)] assms(2)
    by simp
  also have "\<dots> = unquote (CHR 0xE2 # CHR 0x80 # y # u)"
    by (simp add: unquote_high decode_ls_ps [OF assms(1)] eval_nat_numeral)
  finally show ?thesis .
qed

theorem unquote_html_escape: "str_body b \<Longrightarrow> unquote (html_escape b) = unquote b"
proof (induction b rule: str_body_induct)
  case (Plain c t)
  have IHt: "unquote (html_escape t) = unquote t" using Plain.IH [of "[]" t] Plain.hyps by simp
  consider "html_char c" | "ls_ps (c # t)" | "\<not> html_char c" "\<not> ls_ps (c # t)" by blast
  then show ?case
  proof cases
    case 1
    then show ?thesis
      using html_char_byte [OF 1] IHt Plain.hyps by (simp add: unquote_u_escaped encode_rune_ascii)
  next
    case 2
    then obtain y u where y: "c # t = CHR 0xE2 # CHR 0x80 # y # u" "y = CHR 0xA8 \<or> y = CHR 0xA9"
      by (rule ls_ps_cases)
    have "str_body u" using Plain.hyps y by auto
    then have "unquote (html_escape u) = unquote u" using y Plain.IH [of "[CHR 0x80, y]" u] by simp
    from unquote_html_ls_ps [OF y(2) this] y(1) show ?thesis by simp
  next
    case 3
    have esc: "html_escape (c # t) = c # html_escape t" using 3 by (rule html_escape_plain)
    show ?thesis
    proof (cases "byte c < 128")
      case True
      with esc IHt Plain.hyps show ?thesis by simp
    next
      case False
      show ?thesis
      proof (cases "decode_rune (c # t)")
        case None
        with False esc IHt show ?thesis by (simp add: unquote_high decode_rune_html_escape)
      next
        case (Some xn)
        then obtain x n where d: "decode_rune (c # t) = Some (x, n)" by (cases xn) auto
        note w = decode_rune_width [OF d]
        then obtain m where n: "n = Suc m" by (cases n) auto
        have u: "\<forall>c \<in> set (take m t). cont_byte (byte c)" "m \<le> length t" using w n by auto
        have t: "html_escape t = take m t @ html_escape (drop m t)"
          using html_escape_conts [OF u(1), of "drop m t"] by simp
        have "str_body (drop m t)" using Plain.hyps u by (intro str_body_drop_conts) auto
        then have "unquote (html_escape (drop m t)) = unquote (drop m t)"
          using Plain.IH [of "take m t" "drop m t"] by simp
        then have "unquote (c # html_escape t) = take (Suc m) (c # html_escape t)
            @ unquote (drop (Suc m) (c # html_escape t))"
          using False d n by (simp add: unquote_high decode_rune_html_escape)
        also have "\<dots> = c # take m t @ unquote (drop m t)"
          using u(2) \<open>unquote (html_escape (drop m t)) = unquote (drop m t)\<close>
          by (subst (1 2) t) simp
        also have "\<dots> = unquote (c # t)"
          using False d n by (simp add: unquote_high)
        finally show ?thesis using esc by simp
      qed
    qed
  qed
next
  case (U h1 h2 h3 h4 t)
  note ur = u_rune_html_escape [OF U.hyps(2), of "hex4 h1 h2 h3 h4"]
  obtain y n where y: "u_rune (hex4 h1 h2 h3 h4) t = (y, n)" by fastforce
  have "unquote (drop n (html_escape t)) = unquote (drop n t)"
  proof (cases "n = 0")
    case True
    then show ?thesis using U.IH [of "[]" t] U.hyps by simp
  next
    case False
    then have n: "n = 6" using u_rune_width [of "hex4 h1 h2 h3 h4" t] y by simp
    then show ?thesis using ur y U.IH [of "take 6 t" "drop 6 t"] by simp
  qed
  with U.hyps ur y show ?case by (simp add: unquote_u Let_def)
qed auto

section \<open>Quoting\<close>

text \<open>UTF-8 strings: the strings the decoder produces.\<close>

function utf8 :: "bytes \<Rightarrow> bool" where
  "utf8 s =
     (if s = [] then True
      else case decode_rune s of None \<Rightarrow> False | Some (_, n) \<Rightarrow> utf8 (drop (max n 1) s))"
  by pat_completeness auto
termination
  by (relation "measure length") auto

declare utf8.simps [simp del]

lemma utf8_Nil [simp]: "utf8 []"
  by (subst utf8.simps) simp

lemma utf8_ascii [simp]: "byte c < 128 \<Longrightarrow> utf8 (c # s) = utf8 s"
  by (subst utf8.simps) (simp add: decode_rune_def)

lemma utf8_rune:
  "decode_rune s = Some (x, n) \<Longrightarrow> utf8 s = utf8 (drop n s)"
  using decode_rune_width(1) [of s x n]
  by (subst utf8.simps) (auto simp: max_def decode_rune_def split: if_splits)

lemma utf8_induct [consumes 1, case_names Nil Ascii Rune]:
  assumes "utf8 s" "P []"
    and "\<And>c s. byte c < 128 \<Longrightarrow> utf8 s \<Longrightarrow> P s \<Longrightarrow> P (c # s)"
    and "\<And>c s x n. \<not> byte c < 128 \<Longrightarrow> decode_rune (c # s) = Some (x, Suc n) \<Longrightarrow>
           utf8 (drop n s) \<Longrightarrow> P (drop n s) \<Longrightarrow> P (c # s)"
  shows "P s"
  using assms(1)
proof (induction s rule: length_induct)
  case (1 s)
  show ?case
  proof (cases s)
    case Nil
    then show ?thesis using assms(2) by simp
  next
    case (Cons c r)
    show ?thesis
    proof (cases "byte c < 128")
      case True
      then show ?thesis using 1 Cons assms(3) [of c r] by simp
    next
      case False
      from 1(2) Cons obtain x n where d: "decode_rune (c # r) = Some (x, n)"
        by (subst (asm) utf8.simps) (auto split: option.splits)
      then obtain m where n: "n = Suc m" using decode_rune_width(1) [OF d] by (cases n) auto
      have u: "utf8 (drop m r)" using utf8_rune [OF d] 1(2) Cons n by simp
      with 1(1) Cons have "P (drop m r)" by simp
      then show ?thesis using Cons assms(4) [OF False _ u] d n by simp
    qed
  qed
qed

lemma quote_body_Nil [simp]: "quote_body [] = []"
  by (subst quote_body.simps) simp

lemma quote_body_ascii [simp]: "byte c < 128 \<Longrightarrow> quote_body (c # s) = quote_ascii c @ quote_body s"
  by (subst quote_body.simps) simp

lemma quote_body_high:
  "\<not> byte c < 128 \<Longrightarrow>
     quote_body (c # s) =
       (case decode_rune (c # s) of
          None \<Rightarrow> u_escaped 0xFFFD @ quote_body s
        | Some (x, n) \<Rightarrow> (if x = 0x2028 \<or> x = 0x2029 then u_escaped x else take n (c # s))
                         @ quote_body (drop (max n 1) (c # s)))"
  by (subst quote_body.simps) simp

end
