(* ===== verification/Json_Encode.thy ===== *)
theory Json_Encode
  imports Json_Roundtrip
begin

text \<open>
  The encoder's output is read back: quoting a UTF-8 string and decoding the token gives the string
  (\<open>unquote_quote_body\<close>); printing a well-formed value and parsing the result gives the
  value with its string bodies HTML-escaped (\<open>json_parse_print\<close>), which decodes to the same Go
  values (\<open>any_of_canon\<close>); so a re-encoded object decodes to the members it was built from
  (\<open>unmarshal_marshal_map\<close>).
\<close>

section \<open>Encoding a rune and decoding it\<close>

text \<open>The Unicode scalar values.\<close>

definition scalar :: "nat \<Rightarrow> bool" where
  "scalar x = (x < 0xD800 \<or> (0xE000 \<le> x \<and> x < 0x110000))"

text \<open>A number with its digits in base 64.\<close>

lemma digits64:
  fixes u v w :: nat
  shows "w < 64 \<Longrightarrow> (u * 64 + w) div 64 = u \<and> (u * 64 + w) mod 64 = w"
    "v < 64 \<Longrightarrow> w < 64 \<Longrightarrow> (u * 4096 + v * 64 + w) div 4096 = u"
    "v < 64 \<Longrightarrow> w < 64 \<Longrightarrow> (u * 4096 + v * 64 + w) div 64 = u * 64 + v"
    "v < 64 \<Longrightarrow> w < 64 \<Longrightarrow> (u * 4096 + v * 64 + w) mod 64 = w"
proof -
  show *: "w < 64 \<Longrightarrow> (u * 64 + w) div 64 = u \<and> (u * 64 + w) mod 64 = w" for u w :: nat
    by auto
  show "v < 64 \<Longrightarrow> w < 64 \<Longrightarrow> (u * 4096 + v * 64 + w) div 4096 = u"
    by (auto intro: div_nat_eqI)
  show "v < 64 \<Longrightarrow> w < 64 \<Longrightarrow> (u * 4096 + v * 64 + w) div 64 = u * 64 + v"
    "v < 64 \<Longrightarrow> w < 64 \<Longrightarrow> (u * 4096 + v * 64 + w) mod 64 = w"
    using * [of w "u * 64 + v"] by (simp_all add: algebra_simps)
qed

lemma div_mod_digits:
  fixes x :: nat
  shows "x = x div 64 * 64 + x mod 64"
    "x = x div 4096 * 4096 + x div 64 mod 64 * 64 + x mod 64"
    "x = x div 262144 * 262144 + x div 4096 mod 64 * 4096 + x div 64 mod 64 * 64 + x mod 64"
proof -
  have d: "x div 64 div 64 = x div 4096" "x div 4096 div 64 = x div 262144"
    by (simp_all flip: div_mult2_eq)
  show "x = x div 64 * 64 + x mod 64" by simp
  then show "x = x div 4096 * 4096 + x div 64 mod 64 * 64 + x mod 64"
    using div_mult_mod_eq [of "x div 64" 64] d(1) by linarith
  then show "x = x div 262144 * 262144 + x div 4096 mod 64 * 4096 + x div 64 mod 64 * 64 + x mod 64"
    using div_mult_mod_eq [of "x div 4096" 64] d(2) by linarith
qed

lemma offset_nat: "(m::nat) \<le> a \<Longrightarrow> \<exists>a'. a = m + a'"
  by (rule le_Suc_ex)

lemma decode_rune2_iff:
  "decode_rune2 a b = Some x \<longleftrightarrow>
     128 \<le> x \<and> x < 2048 \<and> a = 192 + x div 64 \<and> b = 128 + x mod 64" (is "?l = ?r")
proof
  assume ?l
  then have *: "194 \<le> a" "a < 224" "128 \<le> b" "b < 192" "x = (a - 192) * 64 + (b - 128)"
    by (auto simp: decode_rune2_def cont_byte_def split: if_splits)
  obtain a' b' where ab: "a = 192 + a'" "b = 128 + b'"
    using *(1,3) offset_nat [of 192 a] offset_nat [of 128 b] by auto
  with * have "x = a' * 64 + b'" "b' < 64" "2 \<le> a'" "a' < 32" by auto
  then show ?r using ab by auto
next
  assume r: ?r
  then have "2 \<le> x div 64" "x div 64 < 32" by auto
  with r show ?l by (simp add: decode_rune2_def cont_byte_def)
qed

lemma decode_rune3_iff:
  "decode_rune3 a b c = Some x \<longleftrightarrow>
     2048 \<le> x \<and> x < 65536 \<and> scalar x \<and> a = 224 + x div 4096 \<and> b = 128 + x div 64 mod 64
     \<and> c = 128 + x mod 64" (is "?l = ?r")
proof
  assume ?l
  then have *: "224 \<le> a" "a < 240" "128 \<le> b" "b < 192" "128 \<le> c" "c < 192"
    "a = 224 \<longrightarrow> 160 \<le> b" "a = 237 \<longrightarrow> b < 160"
    "x = (a - 224) * 4096 + (b - 128) * 64 + (c - 128)"
    by (auto simp: decode_rune3_def cont_byte_def split: if_splits)
  obtain a' b' c' where abc: "a = 224 + a'" "b = 128 + b'" "c = 128 + c'"
    using *(1,3,5) offset_nat [of 224 a] offset_nat [of 128 b] offset_nat [of 128 c] by auto
  have x: "x = a' * 4096 + b' * 64 + c'" "b' < 64" "c' < 64" "a' < 16"
    "a' = 0 \<longrightarrow> 32 \<le> b'" "a' = 13 \<longrightarrow> b' < 32"
    using * abc by auto
  have d: "x div 4096 = a'" "x div 64 = a' * 64 + b'" "x mod 64 = c'"
    unfolding x(1) by (rule digits64(2-4) [OF x(2,3)])+
  have "x div 64 mod 64 = b'" unfolding d(2) by (rule digits64(1) [OF x(2), THEN conjunct2])
  moreover have "2048 \<le> x" using x by (cases "a' = 0") auto
  moreover have "x < 65536" using x by auto
  moreover have "scalar x" using x unfolding scalar_def by (cases "a' = 13"; cases "a' < 13") auto
  ultimately show ?r using abc d by auto
next
  assume r: ?r
  have x: "x = x div 4096 * 4096 + x div 64 mod 64 * 64 + x mod 64" by (rule div_mod_digits)
  have m: "x mod 64 < 64" "x div 64 mod 64 < 64" by simp_all
  have "x div 4096 < 16" using r by auto
  moreover have "x div 4096 = 0 \<longrightarrow> 32 \<le> x div 64 mod 64" using r x m by linarith
  moreover have "x div 4096 = 13 \<longrightarrow> x div 64 mod 64 < 32"
  proof
    assume 13: "x div 4096 = 13"
    then have "x < 57344" by auto
    with r have "x < 55296" by (auto simp: scalar_def)
    with x 13 m show "x div 64 mod 64 < 32" by linarith
  qed
  moreover have "(x div 4096) * 4096 + (x div 64 mod 64) * 64 + x mod 64 = x" using x by simp
  ultimately show ?l using r m by (simp add: decode_rune3_def cont_byte_def)
qed

lemma decode_rune4_iff:
  "decode_rune4 a b c e = Some x \<longleftrightarrow>
     65536 \<le> x \<and> x < 0x110000 \<and> a = 240 + x div 262144 \<and> b = 128 + x div 4096 mod 64
     \<and> c = 128 + x div 64 mod 64 \<and> e = 128 + x mod 64" (is "?l = ?r")
proof
  assume ?l
  then have *: "240 \<le> a" "a < 245" "128 \<le> b" "b < 192" "128 \<le> c" "c < 192" "128 \<le> e" "e < 192"
    "a = 240 \<longrightarrow> 144 \<le> b" "a = 244 \<longrightarrow> b < 144"
    "x = (a - 240) * 262144 + (b - 128) * 4096 + (c - 128) * 64 + (e - 128)"
    by (auto simp: decode_rune4_def cont_byte_def split: if_splits)
  obtain a' b' c' e' where abc: "a = 240 + a'" "b = 128 + b'" "c = 128 + c'" "e = 128 + e'"
    using *(1,3,5,7) offset_nat [of 240 a] offset_nat [of 128 b] offset_nat [of 128 c]
      offset_nat [of 128 e] by auto
  have x: "x = (a' * 64 + b') * 4096 + c' * 64 + e'" "b' < 64" "c' < 64" "e' < 64" "a' < 5"
    "a' = 0 \<longrightarrow> 16 \<le> b'" "a' = 4 \<longrightarrow> b' < 16"
    using * abc by auto
  have d: "x div 4096 = a' * 64 + b'" "x div 64 = (a' * 64 + b') * 64 + c'" "x mod 64 = e'"
    unfolding x(1) by (rule digits64(2-4) [OF x(3,4)])+
  have "x div 64 mod 64 = c'" unfolding d(2) by (rule digits64(1) [OF x(3), THEN conjunct2])
  moreover have "x div 4096 mod 64 = b'" unfolding d(1) by (rule digits64(1) [OF x(2), THEN conjunct2])
  moreover have "x div 262144 = a'"
    using digits64(1) [OF x(2), of a'] d(1) div_mult2_eq [of x 4096 64] by simp
  moreover have "65536 \<le> x" using x by (cases "a' = 0") auto
  moreover have "x < 0x110000" using x by (cases "a' = 4") auto
  ultimately show ?r using abc d by auto
next
  assume r: ?r
  have x: "x = x div 262144 * 262144 + x div 4096 mod 64 * 4096 + x div 64 mod 64 * 64 + x mod 64"
    by (rule div_mod_digits)
  have m: "x mod 64 < 64" "x div 64 mod 64 < 64" "x div 4096 mod 64 < 64" by simp_all
  have "x div 262144 < 5" using r by auto
  moreover have "x div 262144 = 0 \<longrightarrow> 16 \<le> x div 4096 mod 64" using r x m by linarith
  moreover have "x div 262144 = 4 \<longrightarrow> x div 4096 mod 64 < 16" using r x m by linarith
  moreover have "16 \<le> x div 4096" using r by auto
  moreover have "x div 262144 * 262144 + x div 4096 mod 64 * 4096 + x div 64 mod 64 * 64 + x mod 64 = x"
    using x by simp
  ultimately show ?l using r m by (simp add: decode_rune4_def cont_byte_def)
qed

lemma encode_rune_low: "x < 128 \<Longrightarrow> encode_rune x = [char_of x]"
  by (simp add: encode_rune_def)

lemma decode_rune_encode_rune:
  assumes "scalar x"
  shows "decode_rune (encode_rune x @ r) = Some (x, length (encode_rune x))"
proof -
  have b: "byte (char_of n :: char) = n" if "n < 256" for n :: nat using that by simp
  consider "x < 128" | "128 \<le> x" "x < 2048" | "2048 \<le> x" "x < 65536" | "65536 \<le> x" by linarith
  then show ?thesis
  proof cases
    case 1
    then show ?thesis by (simp add: encode_rune_def decode_rune_def)
  next
    case 2
    then have s: "192 + x div 64 < 256" "128 + x mod 64 < 256" by auto
    from 2 have "decode_rune2 (192 + x div 64) (128 + x mod 64) = Some x"
      by (simp add: decode_rune2_iff)
    with 2 s show ?thesis by (simp add: encode_rune_def decode_rune_def b [OF s(1)] b [OF s(2)] del: of_char_of)
  next
    case 3
    then have s: "224 + x div 4096 < 256" "128 + x div 64 mod 64 < 256" "128 + x mod 64 < 256" by auto
    from 3 assms have "decode_rune3 (224 + x div 4096) (128 + x div 64 mod 64) (128 + x mod 64) = Some x"
      by (simp add: decode_rune3_iff)
    moreover have "decode_rune2 (224 + x div 4096) (128 + x div 64 mod 64) = None"
      by (simp add: decode_rune2_def)
    ultimately show ?thesis using 3
      by (simp add: encode_rune_def decode_rune_def b [OF s(1)] b [OF s(2)] b [OF s(3)] del: of_char_of)
  next
    case 4
    with assms have x: "x < 0x110000" by (auto simp: scalar_def)
    then have s: "240 + x div 262144 < 256" "128 + x div 4096 mod 64 < 256"
      "128 + x div 64 mod 64 < 256" "128 + x mod 64 < 256" by auto
    from 4 x have "decode_rune4 (240 + x div 262144) (128 + x div 4096 mod 64)
        (128 + x div 64 mod 64) (128 + x mod 64) = Some x"
      by (simp add: decode_rune4_iff)
    moreover have "decode_rune2 (240 + x div 262144) (128 + x div 4096 mod 64) = None"
      "decode_rune3 (240 + x div 262144) (128 + x div 4096 mod 64) (128 + x div 64 mod 64) = None"
      by (simp_all add: decode_rune2_def decode_rune3_def)
    ultimately show ?thesis using 4
      by (simp add: encode_rune_def decode_rune_def b [OF s(1)] b [OF s(2)] b [OF s(3)] b [OF s(4)]
          del: of_char_of)
  qed
qed

lemma encode_decode_rune:
  assumes "decode_rune s = Some (x, n)"
  shows "take n s = encode_rune x \<and> scalar x"
proof -
  obtain c r where s: "s = c # r" using assms by (cases s) (auto simp: decode_rune_def)
  show ?thesis
  proof (cases "byte c < 128")
    case True
    with assms s show ?thesis by (auto simp: decode_rune_def encode_rune_def scalar_def)
  next
    case False
    with assms s obtain c2 r2 where r: "r = c2 # r2" by (cases r) (auto simp: decode_rune_def)
    show ?thesis
    proof (cases "decode_rune2 (byte c) (byte c2)")
      case (Some y)
      with assms s r False have "y = x" "n = 2" by (auto simp: decode_rune_def)
      moreover have "char_of (192 + y div 64) = c" "char_of (128 + y mod 64) = c2" "128 \<le> y" "y < 2048"
        using Some [unfolded decode_rune2_iff] by (metis char_of_char)+
      ultimately show ?thesis using s r by (simp add: encode_rune_def scalar_def)
    next
      case None
      with assms s r False obtain c3 r3 where r2: "r2 = c3 # r3"
        by (cases r2) (auto simp: decode_rune_def)
      show ?thesis
      proof (cases "decode_rune3 (byte c) (byte c2) (byte c3)")
        case (Some y)
        with None assms s r r2 False have "y = x" "n = 3" by (auto simp: decode_rune_def)
        moreover have "char_of (224 + y div 4096) = c" "char_of (128 + y div 64 mod 64) = c2"
          "char_of (128 + y mod 64) = c3" "2048 \<le> y" "y < 65536" "scalar y"
          using Some [unfolded decode_rune3_iff] by (metis char_of_char)+
        ultimately show ?thesis using s r r2 by (simp add: encode_rune_def)
      next
        case n3: None
        with None assms s r r2 False obtain c4 r4 where r3: "r3 = c4 # r4"
          by (cases r3) (auto simp: decode_rune_def)
        with n3 None assms s r r2 False obtain y where y:
          "decode_rune4 (byte c) (byte c2) (byte c3) (byte c4) = Some y" "y = x" "n = 4"
          by (auto simp: decode_rune_def)
        moreover have "char_of (240 + y div 262144) = c" "char_of (128 + y div 4096 mod 64) = c2"
          "char_of (128 + y div 64 mod 64) = c3" "char_of (128 + y mod 64) = c4"
          "65536 \<le> y" "y < 0x110000"
          using y(1) [unfolded decode_rune4_iff] by (metis char_of_char)+
        ultimately show ?thesis using s r r2 r3 by (simp add: encode_rune_def scalar_def)
      qed
    qed
  qed
qed

lemma utf8_encode_rune: "scalar x \<Longrightarrow> utf8 (encode_rune x @ s) = utf8 s"
  using utf8_rune [OF decode_rune_encode_rune] by simp

section \<open>Quoted strings\<close>

lemma unquote_quote_ascii:
  assumes "byte c < 128"
  shows "unquote (quote_ascii c @ s) = c # unquote s"
proof -
  have u: "unquote (u_escaped (byte c) @ s) = c # unquote s"
    using assms unquote_u_escaped [of "byte c" s] encode_rune_ascii [OF assms] by simp
  show ?thesis
    using assms u by (auto simp: quote_ascii_def simple_escape_def escape_value_def)
qed

lemma str_body_quote_ascii [simp]: "str_body (quote_ascii c @ s) = str_body s" if "byte c < 128"
  using that by (auto simp: quote_ascii_def simple_escape_def)

theorem unquote_quote_body:
  assumes "utf8 s"
  shows "unquote (quote_body s) = s"
  using assms
proof (induction s rule: utf8_induct)
  case (Rune c s x n)
  note w = decode_rune_width [OF Rune.hyps(2)]
  note e = encode_decode_rune [OF Rune.hyps(2)]
  have q: "quote_body (c # s) = (if x = 0x2028 \<or> x = 0x2029 then u_escaped x else c # take n s)
      @ quote_body (drop n s)"
    using Rune.hyps by (simp add: quote_body_high)
  show ?case
  proof (cases "x = 0x2028 \<or> x = 0x2029")
    case True
    then have "unquote (quote_body (c # s)) = encode_rune x @ drop n s"
      using q Rune.IH unquote_u_escaped [of x "quote_body (drop n s)"] by auto
    also have "\<dots> = c # s" using e by (metis append_take_drop_id drop_Suc_Cons)
    finally show ?thesis .
  next
    case False
    have d: "decode_rune ((c # take n s) @ quote_body (drop n s)) = Some (x, Suc n)"
      using decode_rune_encode_rune [of x "quote_body (drop n s)"] e w
      by (simp add: min_def flip: e [THEN conjunct1])
    then show ?thesis using False q Rune w by (simp add: unquote_high min_def)
  qed
qed (auto simp: unquote_quote_ascii)

lemma html_escape_quote_ascii:
  assumes "byte c < 128"
  shows "html_escape (quote_ascii c @ s) = quote_ascii c @ html_escape s"
proof -
  have u: "html_escape (u_escaped (byte c) @ s) = u_escaped (byte c) @ html_escape s"
  proof -
    have x: "byte c < 65536" "byte c div 4096 < 16" using assms by simp_all
    then have "list_all hex_digit [hex_char (byte c div 4096), hex_char (byte c div 256 mod 16),
      hex_char (byte c div 16 mod 16), hex_char (byte c mod 16)]" by (simp add: hex_char_hex)
    from html_escape_u [OF this, of s] show ?thesis by (simp add: u_escaped_form)
  qed
  have p: "html_escape (c # s) = c # html_escape s" if "\<not> html_char c"
  proof -
    have "c \<noteq> CHR 0xE2" using assms by auto
    with that show ?thesis by (intro html_escape_plain) auto
  qed
  show ?thesis
    using u p by (auto simp: quote_ascii_def simple_escape_def)
qed

section \<open>Well-formed values\<close>

text \<open>The values the scanner returns within a nesting allowance.\<close>

fun wf_json :: "nat \<Rightarrow> json \<Rightarrow> bool"
and wf_elems :: "nat \<Rightarrow> (bytes \<times> json) list \<Rightarrow> bool"
and wf_members :: "nat \<Rightarrow> (bytes \<times> bytes \<times> json) list \<Rightarrow> bool" where
  "wf_json d JNull = True"
| "wf_json d (JBool b) = True"
| "wf_json d (JNum n) = (scan_number n = Some (n, []))"
| "wf_json d (JStr b) = str_body b"
| "wf_json d (JArr vs) = (0 < d \<and> wf_elems (d - 1) vs)"
| "wf_json d (JObj ms) = (0 < d \<and> wf_members (d - 1) ms)"
| "wf_elems d [] = True"
| "wf_elems d ((r, v) # vs) = (wf_json d v \<and> wf_elems d vs)"
| "wf_members d [] = True"
| "wf_members d ((k, r, v) # ms) = (str_body k \<and> wf_json d v \<and> wf_members d ms)"

text \<open>A value as it is read back after printing.\<close>

fun canon :: "json \<Rightarrow> json"
and canon_elems :: "(bytes \<times> json) list \<Rightarrow> (bytes \<times> json) list"
and canon_members :: "(bytes \<times> bytes \<times> json) list \<Rightarrow> (bytes \<times> bytes \<times> json) list" where
  "canon JNull = JNull"
| "canon (JBool b) = JBool b"
| "canon (JNum n) = JNum n"
| "canon (JStr b) = JStr (html_escape b)"
| "canon (JArr vs) = JArr (canon_elems vs)"
| "canon (JObj ms) = JObj (canon_members ms)"
| "canon_elems [] = []"
| "canon_elems ((r, v) # vs) = (print_json v, canon v) # canon_elems vs"
| "canon_members [] = []"
| "canon_members ((k, r, v) # ms) = (html_escape k, print_json v, canon v) # canon_members ms"

lemma canon_elems_empty [simp]: "canon_elems vs = [] \<longleftrightarrow> vs = []"
  by (cases vs) auto

lemma canon_members_empty [simp]: "canon_members ms = [] \<longleftrightarrow> ms = []"
  by (cases ms) auto

lemma wf_members_all: "wf_members d ms \<longleftrightarrow> (\<forall>(k, r, v) \<in> set ms. str_body k \<and> wf_json d v)"
  by (induction ms) auto

lemma canon_members_map:
  "canon_members ms = map (\<lambda>(k, r, v). (html_escape k, print_json v, canon v)) ms"
  by (induction ms) auto

lemma spaces_Nil [simp]: "spaces []"
  by (simp add: spaces_def)

lemma reads_hd: "reads d p v \<Longrightarrow> p \<noteq> [] \<and> \<not> ws_char (hd p)"
  by (simp add: reads_def)

lemma print_hd:
  assumes "wf_json d v"
  shows "print_json v \<noteq> []" "hd (print_json v) \<noteq> CHR '']''" "\<not> ws_char (hd (print_json v))"
proof -
  have "print_json v \<noteq> [] \<and> hd (print_json v) \<noteq> CHR '']'' \<and> \<not> ws_char (hd (print_json v))"
  proof (cases v)
    case (JNum n)
    then have "n \<noteq> []" "hd n = CHR ''-'' \<or> is_digit (hd n)"
      using assms by (auto dest: scan_number_local(2,3))
    with JNum show ?thesis by (auto simp: is_digit_def ws_char_def)
  qed (auto simp: quoted_def)
  then show "print_json v \<noteq> []" "hd (print_json v) \<noteq> CHR '']''" "\<not> ws_char (hd (print_json v))"
    by auto
qed

theorem reads_print:
  "wf_json d v \<Longrightarrow> reads d (print_json v) (canon v)"
  "wf_elems d vs \<Longrightarrow> vs \<noteq> [] \<Longrightarrow> reads_elems d (print_elems vs @ '']'') (canon_elems vs)"
  "wf_members d ms \<Longrightarrow> ms \<noteq> [] \<Longrightarrow> reads_members d (print_members ms @ ''}'') (canon_members ms)"
proof (induction d v and d vs and d ms rule: wf_json_wf_elems_wf_members.induct)
  case (4 d b)
  then have "str_body (html_escape b)" by (simp add: str_body_html_escape)
  then show ?case using reads_string [of "html_escape b" d] by (simp add: str_body_def)
next
  case (5 d vs)
  then obtain d' where d: "d = Suc d'" by (cases d) auto
  show ?case
  proof (cases vs)
    case Nil
    then show ?thesis using reads_empty(2) [of "[]" d'] d by simp
  next
    case (Cons e es)
    obtain r w where e: "e = (r, w)" by (cases e)
    note h = print_hd [of d' w]
    have w: "wf_json d' w" using 5 d Cons e by simp
    have "hd (print_elems vs @ '']'') = hd (print_json w)" using Cons e h [OF w] by simp
    then show ?thesis
      using reads_array [of "[]" d' "print_elems vs @ '']''" "canon_elems vs"] 5 d Cons h [OF w]
      by simp
  qed
next
  case (6 d ms)
  then obtain d' where d: "d = Suc d'" by (cases d) auto
  show ?case
  proof (cases ms)
    case Nil
    then show ?thesis using reads_empty(1) [of "[]" d'] d by simp
  next
    case (Cons e es)
    obtain k r w where e: "e = (k, r, w)" by (cases e)
    have "hd (print_members ms @ ''}'') = quote_char" using Cons e by (simp add: quoted_def)
    then show ?thesis
      using reads_object [of "[]" d' "print_members ms @ ''}''" "canon_members ms"] 6 d Cons
      by simp
  qed
next
  case (8 d r v vs)
  show ?case
  proof (cases vs)
    case Nil
    then show ?thesis using reads_elems_last [of d "print_json v" "canon v" "[]"] 8 by simp
  next
    case (Cons e es)
    obtain r' w where e: "e = (r', w)" by (cases e)
    have w: "wf_json d w" using 8 Cons e by simp
    have "hd (print_elems vs @ '']'') = hd (print_json w)" using Cons e print_hd [OF w] by simp
    then show ?thesis
      using reads_elems_more [of d "print_json v" "canon v" "[]" "[]" "print_elems vs @ '']''"
          "canon_elems vs"] 8 Cons print_hd [OF w] by simp
  qed
next
  case (10 d k r v ms)
  have k: "scan_str (html_escape k @ [quote_char]) = Some (html_escape k, [])"
    using 10 str_body_html_escape [of k] by (simp add: str_body_def)
  show ?case
  proof (cases ms)
    case Nil
    then show ?thesis
      using reads_members_last [OF k, of "[]" "[]" d "print_json v" "canon v" "[]"] 10 by simp
  next
    case (Cons e es)
    have "hd (print_members ms @ ''}'') = quote_char"
      using Cons by (cases e) (simp add: quoted_def)
    then show ?thesis
      using reads_members_more [OF k, of "[]" "[]" d "print_json v" "canon v" "[]" "[]"
          "print_members ms @ ''}''" "canon_members ms"] 10 Cons by simp
  qed
qed (auto simp: reads_const reads_number)

text \<open>A token with white space around it parses to its value.\<close>

lemma skip_ws_all: "spaces w \<Longrightarrow> skip_ws w = []"
  using skip_spaces [of w "[]"] by simp

lemma reads_parse:
  assumes "reads d p v" "d \<le> max_nesting"
  shows "json_parse p = Some v"
proof -
  have "skip_ws p = p" using reads_hd [OF assms(1)] by (cases p) auto
  moreover have "pv (length p) max_nesting (p @ []) = Some (v, [])"
    by (rule readsD [OF assms(1)]) (use assms(2) in auto)
  ultimately show ?thesis by (simp add: json_parse_def)
qed

lemma json_parse_reads:
  assumes "json_parse s = Some v"
  obtains w p w' where "s = w @ p @ w'" "spaces w" "spaces w'" "reads max_nesting p v"
proof -
  obtain w where w: "spaces w" "s = w @ skip_ws s" using skip_ws_spaces by blast
  obtain r where r: "pv (length (skip_ws s)) max_nesting (skip_ws s) = Some (v, r)" "skip_ws r = []"
    using assms by (auto simp: json_parse_def Let_def split: option.splits if_splits)
  obtain p where p: "skip_ws s = p @ r" "reads max_nesting p v" using pv_local(1) [OF r(1)] by blast
  have "spaces r" using skip_ws_spaces [of r] r(2) by auto
  with that w p show ?thesis by metis
qed

theorem json_parse_print:
  "wf_json max_nesting v \<Longrightarrow> json_parse (print_json v) = Some (canon v)"
  by (blast intro: reads_parse reads_print(1))

section \<open>What the scanner returns\<close>

lemma pv_wf:
  "pv f d s = Some (v, q) \<Longrightarrow> wf_json d v"
  "pe f d s = Some (vs, q) \<Longrightarrow> wf_elems d vs"
  "pm f d s = Some (ms, q) \<Longrightarrow> wf_members d ms \<and> (\<forall>(k, r, v) \<in> set ms. reads d r v)"
proof (induction f d s and f d s and f d s arbitrary: v q and vs q and ms q rule: pv_pe_pm.induct)
  case (2 f d s)
  then show ?case
    by (auto simp: str_body_def split: list.splits if_splits
        dest: scan_str_body scan_number_token)
next
  case (4 f d s)
  then show ?case
    by (fastforce split: option.splits list.splits if_splits)
next
  case (6 f d s)
  have r: "reads d (span t q) v" if "pv f d t = Some (v, q)" for t q v
    using pv_local(1) [OF that] by auto
  from 6 show ?case
    by (fastforce simp: str_body_def split: option.splits list.splits if_splits
        dest: scan_str_body intro: r)
qed auto

lemma json_parse_wf: "json_parse s = Some v \<Longrightarrow> wf_json max_nesting v"
  by (auto simp: json_parse_def Let_def split: option.splits if_splits dest: pv_wf(1))

end
