(* ===== verification/Json_Objects.thy ===== *)
theory Json_Objects
  imports Json_Encode
begin

text \<open>
  Objects as the program handles them: decoded into a map of raw members, re-encoded from one. The
  raw tokens a decoder hands out are JSON values again (\<open>unmarshal_map_token\<close>), and an encoded map
  decodes to its members, each compacted (\<open>unmarshal_marshal_map\<close>).
\<close>

section \<open>Raw members\<close>

text \<open>A raw token as it comes out of \<open>json.Marshal\<close> or of a decoder: one value, nothing around it.\<close>

definition token :: "nat \<Rightarrow> bytes \<Rightarrow> bool" where
  "token d r = (\<exists>v. reads d r v \<and> wf_json d v)"

text \<open>Members of a decoded object: distinct names, each a UTF-8 string, each value a token.\<close>

definition raw_map :: "nat \<Rightarrow> (bytes \<times> bytes) list \<Rightarrow> bool" where
  "raw_map d ms = (distinct (map fst ms) \<and> (\<forall>(k, r) \<in> set ms. utf8 k \<and> token d r))"

lemma pv_object:
  assumes "pv f d s = Some (JObj ms, q)"
  shows "0 < d \<and> (\<forall>(k, r, v) \<in> set ms. str_body k \<and> reads (d - 1) r v \<and> wf_json (d - 1) v)"
proof -
  have wf: "0 < d" "wf_members (d - 1) ms" using pv_wf(1) [OF assms] by auto
  obtain f' where f: "f = Suc f'" using assms by (cases f) auto
  have "ms = [] \<or> (\<exists>t q. pm f' (d - 1) t = Some (ms, q))"
    using assms f by (auto split: list.splits if_splits)
  then have "\<forall>(k, r, v) \<in> set ms. reads (d - 1) r v" by (auto dest: pv_wf(3))
  with wf show ?thesis by (auto simp: wf_members_all)
qed

lemma json_parse_object:
  assumes "json_parse s = Some (JObj ms)"
  shows "\<forall>(k, r, v) \<in> set ms. str_body k \<and> reads (max_nesting - 1) r v \<and> wf_json (max_nesting - 1) v"
proof -
  obtain q where "pv (length (skip_ws s)) max_nesting (skip_ws s) = Some (JObj ms, q)"
    using assms by (auto simp: json_parse_def Let_def split: option.splits if_splits)
  from pv_object [OF this] show ?thesis by blast
qed

lemma scalar_u_rune:
  assumes "x < 65536" shows "scalar (fst (u_rune x t))"
  using assms by (auto simp: u_rune_def scalar_def split: option.splits)

lemma hex_val_less: "hex_digit c \<Longrightarrow> hex_val c < 16"
  by (auto simp: hex_digit_def is_digit_def hex_val_def)

lemma hex4_less: "list_all hex_digit [a, b, c, d] \<Longrightarrow> hex4 a b c d < 65536"
  using hex_val_less [of a] hex_val_less [of b] hex_val_less [of c] hex_val_less [of d]
  by (simp add: hex4_def)

lemma utf8_append_rune: "decode_rune s = Some (x, n) \<Longrightarrow> utf8 (take n s @ t) = utf8 t"
  using encode_decode_rune utf8_encode_rune by metis

lemma utf8_replacement [simp]: "utf8 (replacement @ t) = utf8 t"
proof -
  have "replacement = encode_rune 0xFFFD" by code_simp
  then show ?thesis using utf8_encode_rune [of "0xFFFD" t] by (simp add: scalar_def)
qed

theorem utf8_unquote: "str_body b \<Longrightarrow> utf8 (unquote b)"
proof (induction b rule: str_body_induct)
  case (Plain c t)
  have t: "utf8 (unquote t)" using Plain.IH [of "[]" t] Plain.hyps by simp
  show ?case
  proof (cases "byte c < 128")
    case True
    with Plain.hyps t show ?thesis by simp
  next
    case False
    show ?thesis
    proof (cases "decode_rune (c # t)")
      case None
      with False t show ?thesis by (simp add: unquote_high)
    next
      case (Some xn)
      then obtain x n where d: "decode_rune (c # t) = Some (x, n)" by (cases xn) auto
      note w = decode_rune_width [OF d]
      then obtain m where n: "n = Suc m" by (cases n) auto
      have "str_body (drop m t)" using Plain.hyps w n by (intro str_body_drop_conts) auto
      then have "utf8 (unquote (drop m t))" using Plain.IH [of "take m t" "drop m t"] by simp
      with False d n utf8_append_rune [OF d, of "unquote (drop m t)"] show ?thesis
        by (simp add: unquote_high)
    qed
  qed
next
  case (Simple e t)
  have "byte (escape_value e) < 128"
    using Simple.hyps(1) unfolding simple_escape_def
    by (elim insertE emptyE; hypsubst; code_simp)
  with Simple show ?case by simp
next
  case (U h1 h2 h3 h4 t)
  obtain y n where y: "u_rune (hex4 h1 h2 h3 h4) t = (y, n)" by fastforce
  then have sc: "scalar y" using scalar_u_rune [OF hex4_less [OF U.hyps(1)], of t] by simp
  have "utf8 (unquote (drop n t))"
  proof (cases "n = 0")
    case True
    then show ?thesis using U.IH [of "[]" t] U.hyps by simp
  next
    case False
    then obtain a where "u_escape t = Some a" "n = 6"
      using y by (auto simp: u_rune_def split: if_splits option.splits)
    then show ?thesis
      using U.IH [of "take 6 t" "drop 6 t"] U.hyps(2)
      by (auto simp: u_escape_def split: list.splits if_splits)
  qed
  with U.hyps y sc show ?case by (simp add: unquote_u utf8_encode_rune)
qed simp

lemma set_dedup: "set (dedup ms) \<subseteq> set ms"
proof
  fix p assume p: "p \<in> set (dedup ms)"
  obtain k v where kv: "p = (k, v)" by (cases p)
  with p have "map_of (dedup ms) k = Some v" by (simp add: map_of_is_SomeI)
  then have "map_of (rev ms) k = Some v" by (simp add: map_of_dedup)
  with kv show "p \<in> set ms" by (auto dest: map_of_SomeD)
qed

theorem unmarshal_map_raw:
  "unmarshal_map s = Dec ms \<Longrightarrow> raw_map (max_nesting - 1) ms"
proof -
  assume "unmarshal_map s = Dec ms"
  then obtain l where l: "json_parse s = Some (JObj l)" "ms = raw_members l"
    by (auto simp: unmarshal_map_def split: option.splits json.splits)
  have "utf8 k \<and> token (max_nesting - 1) r" if "(k, r) \<in> set ms" for k r
  proof -
    from that l set_dedup [of "map (\<lambda>(k, r, v). (unquote k, r)) l"]
    obtain b v where "(b, r, v) \<in> set l" "k = unquote b" by (auto simp: raw_members_def)
    with json_parse_object [OF l(1)] show ?thesis by (auto simp: token_def utf8_unquote)
  qed
  then show ?thesis using l(2) by (auto simp: raw_map_def raw_members_def)
qed

lemma token_parse:
  assumes "token d r" "d \<le> max_nesting"
  obtains v where "json_parse r = Some v" "wf_json d v" "reads d r v"
  using assms reads_parse unfolding token_def by blast

lemma token_nonempty: "token d r \<Longrightarrow> r \<noteq> []"
  by (auto simp: token_def reads_def)

section \<open>Re-encoding\<close>

text \<open>A raw token as the encoder writes it.\<close>

definition compact :: "bytes \<Rightarrow> bytes" where
  "compact r = (case json_parse r of None \<Rightarrow> [] | Some v \<Rightarrow> print_json v)"

lemma any_of_canon:
  "wf_json d v \<Longrightarrow> any_of (canon v) = any_of v"
  "wf_elems d vs \<Longrightarrow> any_elems (canon_elems vs) = any_elems vs"
  "wf_members d ms \<Longrightarrow> any_members (canon_members ms) = any_members ms"
  by (induction d v and d vs and d ms rule: wf_json_wf_elems_wf_members.induct)
    (auto simp: unquote_html_escape split: option.splits)

lemma compact_parse:
  assumes "json_parse r = Some v"
  shows "json_parse (compact r) = Some (canon v)"
  using assms json_parse_print [OF json_parse_wf [OF assms]] by (simp add: compact_def)

theorem unmarshal_any_compact:
  "json_valid r \<Longrightarrow> unmarshal_any (compact r) = unmarshal_any r"
  using any_of_canon(1) [OF json_parse_wf]
  by (auto simp: json_valid_def unmarshal_any_def compact_parse)

lemma unmarshal_string_compact:
  "json_valid r \<Longrightarrow> unmarshal_string (compact r) = unmarshal_string r"
  using json_parse_wf [of r]
  by (auto simp: json_valid_def unmarshal_string_def compact_parse unquote_html_escape split: json.splits)

lemma token_compact: "token d r \<Longrightarrow> d \<le> max_nesting \<Longrightarrow> token d (compact r)"
proof -
  assume "token d r" "d \<le> max_nesting"
  then obtain v where v: "json_parse r = Some v" "wf_json d v" by (rule token_parse)
  then have r: "reads d (compact r) (canon v)" using reads_print(1) by (simp add: compact_def)
  have "pv (length (compact r)) d (compact r @ []) = Some (canon v, [])"
    by (rule readsD [OF r]) auto
  with r show ?thesis by (auto simp: token_def dest: pv_wf(1))
qed

lemma tree_members_raw:
  assumes "\<forall>(k, r) \<in> set ms. json_valid r"
  shows "tree_members (map (\<lambda>(k, r). (k, ARaw r)) ms)
     = Some (map (\<lambda>(k, r). (k, [], the (json_parse r))) ms)"
  using assms
proof (induction ms)
  case (Cons m ms)
  obtain k r where m: "m = (k, r)" by (cases m)
  with Cons.prems obtain v where v: "json_parse r = Some v" by (auto simp: json_valid_def)
  then have "r \<noteq> []" by (auto simp: json_parse_def)
  with m v Cons show ?case by simp
qed simp

text \<open>The members of an encoded map, in the order they are written.\<close>

definition encoded_members :: "(bytes \<times> bytes) list \<Rightarrow> (bytes \<times> bytes \<times> json) list" where
  "encoded_members ms =
     map (\<lambda>(k, r, v). (quote_body k, r, v))
       (sort_key fst (map (\<lambda>(k, r). (k, [], the (json_parse r))) ms))"

lemma marshal_map_eq:
  assumes "\<forall>(k, r) \<in> set ms. json_valid r"
  shows "marshal_map ms = Some (print_json (JObj (encoded_members ms)))"
  using tree_members_raw [OF assms] by (simp add: marshal_map_def marshal_def encoded_members_def)

lemma str_body_quote_body: "utf8 s \<Longrightarrow> str_body (quote_body s)"
proof (induction s rule: utf8_induct)
  case (Rune c s x n)
  note w = decode_rune_width [OF Rune.hyps(2)]
  have "str_body (c # take n s @ quote_body (drop n s)) = str_body (quote_body (drop n s))"
  proof -
    have c: "c \<noteq> quote_char" "c \<noteq> backslash" "\<not> byte c < 32" using Rune.hyps(1) by auto
    have "str_body (u @ t) = str_body t" if "\<forall>c \<in> set u. cont_byte (byte c)" for u t
      using that
    proof (induction u)
      case (Cons a u)
      then have "a \<noteq> quote_char" "a \<noteq> backslash" "\<not> byte a < 32" by (auto simp: cont_byte_def)
      with Cons show ?case by simp
    qed simp
    with c w show ?thesis by simp
  qed
  with Rune show ?case by (simp add: quote_body_high)
qed simp_all

lemma insort_key_map:
  "insort_key fst (k, f r) (map (\<lambda>(k, r). (k, f r)) l) = map (\<lambda>(k, r). (k, f r)) (insort_key fst (k, r) l)"
  by (induction l) auto

lemma sort_key_map:
  "sort_key fst (map (\<lambda>(k, r). (k, f r)) l) = map (\<lambda>(k, r). (k, f r)) (sort_key fst l)"
  by (induction l) (auto simp: insort_key_map)

lemma distinct_sort_key: "distinct (map fst ms) \<Longrightarrow> distinct (map fst (sort_key fst ms))"
  by (induction ms) (auto simp: distinct_insort_key)

lemma map_of_sort_key:
  "distinct (map fst ms) \<Longrightarrow> map_of (sort_key fst ms) = map_of ms"
  by (subst map_of_inject_set) (simp_all add: distinct_sort_key)

lemma map_of_map_snd: "map_of (map (\<lambda>(k, r). (k, f r)) ms) k = map_option f (map_of ms k)"
  by (induction ms) auto

lemma map_of_rev_distinct: "distinct (map fst ms) \<Longrightarrow> map_of (rev ms) = map_of ms"
  by (subst map_of_inject_set) (simp_all add: rev_map [symmetric])

lemma raw_map_valid: "raw_map d ms \<Longrightarrow> d \<le> max_nesting \<Longrightarrow> \<forall>(k, r) \<in> set ms. json_valid r"
  unfolding raw_map_def json_valid_def by (fastforce elim: token_parse)

lemma encoded_members_map:
  "encoded_members ms = map (\<lambda>(k, r). (quote_body k, [], the (json_parse r))) (sort_key fst ms)"
  unfolding encoded_members_def
  by (subst sort_key_map [where f = "\<lambda>r. ([], the (json_parse r))"]) (simp add: split_beta comp_def)

text \<open>What the decoder reads back from an encoded map.\<close>

lemma raw_members_encoded:
  assumes "raw_map d ms" "d \<le> max_nesting"
  shows "raw_members (canon_members (encoded_members ms))
    = dedup (map (\<lambda>(k, r). (k, compact r)) (sort_key fst ms))"
proof -
  have "(unquote (html_escape (quote_body k)), print_json (the (json_parse r))) = (k, compact r)"
    if "(k, r) \<in> set ms" for k r
  proof -
    have "utf8 k" "token d r" using assms(1) that by (auto simp: raw_map_def)
    moreover obtain v where "json_parse r = Some v" using token_parse [OF \<open>token d r\<close> assms(2)] .
    ultimately show ?thesis
      by (simp add: unquote_html_escape str_body_quote_body unquote_quote_body compact_def)
  qed
  then have *: "map (\<lambda>(k, r). (unquote (html_escape (quote_body k)), print_json (the (json_parse r))))
      (sort_key fst ms) = map (\<lambda>(k, r). (k, compact r)) (sort_key fst ms)"
    by (intro map_cong) auto
  show ?thesis
    unfolding raw_members_def canon_members_map encoded_members_map
    unfolding * [symmetric] by (simp add: comp_def case_prod_unfold)
qed

theorem unmarshal_marshal_map:
  assumes "raw_map (max_nesting - 1) ms"
  obtains out ms' where "marshal_map ms = Some out" "unmarshal_map out = Dec ms'"
    "map_of ms' = (\<lambda>k. map_option compact (map_of ms k))" "token max_nesting out"
proof -
  define v where "v = JObj (encoded_members ms)"
  have d: "distinct (map fst ms)" using assms by (simp add: raw_map_def)
  have "str_body (quote_body k) \<and> wf_json (max_nesting - 1) (the (json_parse r))"
    if "(k, r) \<in> set ms" for k r
  proof -
    have "utf8 k" "token (max_nesting - 1) r" using assms that by (auto simp: raw_map_def)
    moreover obtain w where "json_parse r = Some w" "wf_json (max_nesting - 1) w"
      by (rule token_parse [OF \<open>token (max_nesting - 1) r\<close>]) simp
    ultimately show ?thesis by (simp add: str_body_quote_body)
  qed
  then have wf: "wf_json max_nesting v"
    by (auto simp: v_def wf_members_all encoded_members_map max_nesting_def)
  have out: "marshal_map ms = Some (print_json v)"
    unfolding v_def by (rule marshal_map_eq [OF raw_map_valid [OF assms]]) simp
  have "unmarshal_map (print_json v) = Dec (raw_members (canon_members (encoded_members ms)))"
    using json_parse_print [OF wf] by (simp add: unmarshal_map_def v_def)
  also have "\<dots> = Dec (dedup (map (\<lambda>(k, r). (k, compact r)) (sort_key fst ms)))"
    using raw_members_encoded [OF assms] by simp
  finally have dec: "unmarshal_map (print_json v) = \<dots>" .
  have "map_of (dedup (map (\<lambda>(k, r). (k, compact r)) (sort_key fst ms)))
      = map_of (map (\<lambda>(k, r). (k, compact r)) (sort_key fst ms))"
    unfolding map_of_dedup
    by (rule map_of_rev_distinct) (use distinct_sort_key [OF d] in \<open>simp add: comp_def split_beta\<close>)
  also have "\<dots> = (\<lambda>k. map_option compact (map_of ms k))"
    by (simp add: map_of_map_snd fun_eq_iff map_of_sort_key [OF d])
  finally have "map_of (dedup (map (\<lambda>(k, r). (k, compact r)) (sort_key fst ms))) = \<dots>" .
  moreover have "token max_nesting (print_json v)"
    using token_compact [of max_nesting "print_json v"] reads_print(1) [OF wf]
      pv_wf(1) readsD [OF reads_print(1) [OF wf], of "length (print_json v)" max_nesting "[]"]
    by (auto simp: token_def)
  ultimately show ?thesis using that out dec by blast
qed

section \<open>The shape of a token\<close>

lemma pe_last: "pe f d s = Some (vs, q) \<Longrightarrow> \<exists>p. s = p @ '']'' @ q"
proof (induction f arbitrary: s vs)
  case (Suc f)
  then obtain v q' where v: "pv f d s = Some (v, q')" by (auto split: option.splits)
  obtain p where p: "s = p @ q'" using pv_local(1) [OF v] by blast
  obtain w where w: "q' = w @ skip_ws q'" using skip_ws_split by blast
  from Suc.prems v obtain c r where c: "skip_ws q' = c # r" by (auto split: list.splits)
  show ?case
  proof (cases "c = CHR '']''")
    case True
    with Suc.prems v c have "r = q" by simp
    with p w c True show ?thesis by (metis append.assoc append_Cons append_Nil)
  next
    case False
    with Suc.prems v c obtain vs' where "pe f d (skip_ws r) = Some (vs', q)"
      by (auto split: if_splits)
    from Suc.IH [OF this] obtain p' where "skip_ws r = p' @ '']'' @ q" by blast
    moreover obtain w' where "r = w' @ skip_ws r" using skip_ws_split by blast
    ultimately show ?thesis using p w c by (metis append.assoc append_Cons)
  qed
qed simp

lemma pm_last: "pm f d s = Some (ms, q) \<Longrightarrow> \<exists>p. s = p @ ''}'' @ q"
proof (induction f arbitrary: s ms)
  case (Suc f)
  then obtain t k q0 r1 v q' where s: "s = quote_char # t" and k: "scan_str t = Some (k, q0)"
    and col: "skip_ws q0 = CHR '':'' # r1" and v: "pv f d (skip_ws r1) = Some (v, q')"
    by (auto split: option.splits list.splits if_splits)
  have "t = k @ quote_char # q0" using scan_str_local [OF k] by blast
  moreover obtain w0 w1 where "q0 = w0 @ skip_ws q0" "r1 = w1 @ skip_ws r1" using skip_ws_split by metis
  moreover obtain p where "skip_ws r1 = p @ q'" using pv_local(1) [OF v] by blast
  ultimately obtain p0 where p0: "s = p0 @ q'" using s col by (metis append.assoc append_Cons)
  obtain w where w: "q' = w @ skip_ws q'" using skip_ws_split by blast
  from Suc.prems s k col v obtain c r where c: "skip_ws q' = c # r"
    by (auto split: list.splits)
  show ?case
  proof (cases "c = CHR ''}''")
    case True
    with Suc.prems s k col v c have "r = q" by simp
    with p0 w c True show ?thesis by (metis append.assoc append_Cons append_Nil)
  next
    case False
    with Suc.prems s k col v c obtain ms' where "pm f d (skip_ws r) = Some (ms', q)"
      by (auto split: if_splits)
    from Suc.IH [OF this] obtain p' where "skip_ws r = p' @ ''}'' @ q" by blast
    moreover obtain w' where "r = w' @ skip_ws r" using skip_ws_split by blast
    ultimately show ?thesis using p0 w c by (metis append.assoc append_Cons)
  qed
qed simp

lemma last_digits: "take_digits s \<noteq> [] \<Longrightarrow> is_digit (last (take_digits s))"
  by (metis take_digits_def last_in_set set_takeWhileD)

lemma scan_number_last:
  assumes "scan_number s = Some (n, q)"
  shows "is_digit (last n)"
proof -
  obtain sg s1 i s2 fr s3 e where p: "scan_int s1 = Some (i, s2)" "scan_frac s2 = Some (fr, s3)"
    "scan_exp s3 = Some (e, q)" "n = sg @ i @ fr @ e"
    using assms scan_number_parts by metis
  have "i \<noteq> [] \<and> is_digit (last i)"
    using p(1) last_digits [of s1]
    by (auto simp: scan_int_def take_digits_def is_digit_def split: list.splits if_splits)
  moreover have d: "is_digit (last b)" if "scan_digits1 t = Some (b, u)" for t b u
    using that last_digits by (auto simp: scan_digits1_def split: if_splits)
  have d': "b \<noteq> []" if "scan_digits1 t = Some (b, u)" for t b u
    using that by (auto simp: scan_digits1_def split: if_splits)
  have "fr = [] \<or> is_digit (last fr)"
    using p(2) d d' by (fastforce simp: scan_frac_def prepend_Some split: list.splits if_splits)
  moreover have "e = [] \<or> is_digit (last e)"
    using p(3) d d' by (fastforce simp: scan_exp_def prepend_Some split: list.splits if_splits)
  ultimately show ?thesis using p(4) by (auto simp: last_append)
qed

text \<open>A byte that is no white space stops \<open>bytes.TrimSpace\<close>.\<close>

lemma trim_spaces_keeps:
  assumes "c \<in> set s" "byte c < 128" "\<not> ascii_space c" "\<forall>w \<in> set sps. \<forall>b \<in> set w. 128 \<le> b"
  shows "c \<in> set (trim_spaces sps n s)"
  using assms(1)
proof (induction n arbitrary: s)
  case (Suc n)
  define w where "w = space_width sps s"
  have "c \<notin> set (take w s)"
  proof (cases s)
    case (Cons a t)
    show ?thesis
    proof (cases "ascii_space a")
      case True
      then have "w = 1" by (simp add: w_def space_width_def Cons)
      with True assms(3) Cons show ?thesis by auto
    next
      case False
      show ?thesis
      proof (cases "find (\<lambda>w. map byte (take (length w) s) = w) sps")
        case None
        then show ?thesis using False Cons by (simp add: w_def space_width_def)
      next
        case (Some u)
        then have "w = length u" using False Cons by (simp add: w_def space_width_def)
        moreover from Some have "map byte (take (length u) s) = u" "u \<in> set sps"
          by (auto simp: find_Some_iff)
        moreover from this have "\<forall>b \<in> set (take (length u) s). 128 \<le> byte b"
          using assms(4) by (metis image_eqI set_map)
        ultimately show ?thesis using assms(2) by fastforce
      qed
    qed
  qed simp
  with Suc.prems have "c \<in> set (drop w s)" by (metis Un_iff append_take_drop_id set_append)
  with Suc show ?case by (simp add: Let_def flip: w_def)
qed simp

lemma trim_space_keeps:
  "c \<in> set s \<Longrightarrow> byte c < 128 \<Longrightarrow> \<not> ascii_space c \<Longrightarrow> trim_space s \<noteq> []"
proof -
  assume c: "c \<in> set s" "byte c < 128" "\<not> ascii_space c"
  have sps: "\<forall>w \<in> set unicode_spaces. \<forall>b \<in> set w. 128 \<le> b"
    by (auto simp: unicode_spaces_def)
  have "c \<in> set (trim_left s)" unfolding trim_left_def by (rule trim_spaces_keeps) (use c sps in auto)
  then have "c \<in> set (trim_right (trim_left s))" unfolding trim_right_def set_rev
    by (intro trim_spaces_keeps) (use c sps in auto)
  then show ?thesis by (auto simp: trim_space_def)
qed

lemma trim_space_ws: "spaces s \<Longrightarrow> trim_space s = []"
proof -
  assume s: "spaces s"
  have "trim_spaces sps n s = []" if "length s \<le> n" "\<forall>c \<in> set s. ascii_space c" for sps n s
    using that
  proof (induction n arbitrary: s)
    case (Suc n)
    then show ?case by (cases s) (auto simp: space_width_def Let_def)
  qed simp
  moreover have "\<forall>c \<in> set s. ascii_space c" using s by (auto simp: spaces_def ws_char_def ascii_space_def)
  ultimately show ?thesis by (simp add: trim_space_def trim_left_def trim_right_def)
qed

text \<open>How the bytes of a token show what it is.\<close>

definition value_start :: "char \<Rightarrow> bool" where
  "value_start c = (c \<in> {CHR ''{'', CHR ''['', quote_char, CHR ''t'', CHR ''f'', CHR ''n'', CHR ''-''}
     \<or> is_digit c)"

lemma value_start_ascii: "value_start c \<Longrightarrow> byte c < 128 \<and> \<not> ascii_space c"
  by (auto simp: value_start_def is_digit_def ascii_space_def)

lemma pv_start: "pv f d s = Some (v, q) \<Longrightarrow> s \<noteq> [] \<and> value_start (hd s)"
proof (cases f)
  case (Suc f')
  assume pv: "pv f d s = Some (v, q)"
  obtain c r where s: "s = c # r" using pv Suc by (cases s) auto
  consider "c \<in> {CHR ''{'', CHR ''['', quote_char}" | "has_prefix s ''true''" | "has_prefix s ''false''"
    | "has_prefix s ''null''" | n where "scan_number s = Some (n, q)"
    using pv Suc s by (auto split: if_splits)
  then show ?thesis
  proof cases
    case (5 n)
    with scan_number_local(1,2,3) [OF 5] s show ?thesis by (cases n) (auto simp: value_start_def)
  qed (use s in \<open>auto simp: value_start_def\<close>)
qed simp

lemma array_empty_trim:
  assumes "pv f d (CHR ''['' # p @ '']'') = Some (JArr vs, [])"
  shows "vs = [] \<longleftrightarrow> trim_space p = []"
proof -
  obtain f' where f: "f = Suc f'" using assms by (cases f) auto
  have d: "d \<noteq> 0"
  proof
    assume "d = 0"
    with assms f show False by simp
  qed
  obtain w where w: "spaces w" "p = w @ skip_ws p" using skip_ws_spaces by blast
  show ?thesis
  proof (cases "skip_ws p")
    case Nil
    then have "spaces p" using w by simp
    then have "skip_ws (p @ '']'') = '']''" by simp
    then show ?thesis using assms f d trim_space_ws [OF \<open>spaces p\<close>] by simp
  next
    case (Cons c t)
    then have sk: "skip_ws (p @ '']'') = c # t @ '']''"
      using w skip_ws_hd [OF Cons] by (metis append.assoc append_Cons skip_spaces skip_ws_Cons)
    have c: "c \<noteq> CHR '']''" using assms f d sk by auto
    then obtain vs' where pe: "pe f' (d - 1) (c # t @ '']'') = Some (vs', [])" "vs' = vs"
      using assms f d sk by (auto simp: Let_def)
    then obtain x q where "pv (f' - 1) (d - 1) (c # t @ '']'') = Some (x, q)" "vs \<noteq> []"
      by (cases f') (auto split: option.splits list.splits if_splits)
    then have "value_start c" "vs \<noteq> []" using pv_start by fastforce+
    moreover have "c \<in> set p" using w Cons by (metis in_set_conv_decomp)
    ultimately show ?thesis using trim_space_keeps [of c p] value_start_ascii by blast
  qed
qed

theorem reads_shape:
  assumes "reads d r v"
  shows "case v of JObj _ \<Rightarrow> hd r = CHR ''{'' \<and> last r = CHR ''}''
    | JArr vs \<Rightarrow> (\<exists>p. r = CHR ''['' # p @ '']'' \<and> (vs = [] \<longleftrightarrow> trim_space p = []))
    | JStr b \<Rightarrow> r = quoted b
    | JBool b \<Rightarrow> r = (if b then ''true'' else ''false'')
    | JNull \<Rightarrow> r = ''null''
    | JNum n \<Rightarrow> r = n \<and> scan_number n = Some (n, [])"
proof -
  have pv: "pv (length r) d (r @ []) = Some (v, [])" by (rule readsD [OF assms]) auto
  obtain f where f: "length r = Suc f" using reads_hd [OF assms] by (cases r) auto
  obtain c t where r: "r = c # t" using f by (cases r) auto
  note scan = scan_str_local [of t _ "[]"] scan_number_local(1) [of r _ "[]"]
  have drop: "has_prefix r p \<Longrightarrow> drop (length p) r = [] \<Longrightarrow> r = p" for p
    by (auto simp: has_prefix_iff)
  show ?thesis
  proof (cases v)
    case (JArr vs)
    with pv f r have c: "c = CHR ''[''" by (auto split: if_splits list.splits)
    with pv f r JArr obtain t' where "t = t' @ '']''"
    proof -
      have "d \<noteq> 0" using pv f r c by (auto split: if_splits list.splits)
      then have "(\<exists>u. skip_ws t = CHR '']'' # u \<and> u = []) \<or> (\<exists>s' g. pe g (d - 1) (skip_ws t) = Some (vs, []))"
        using pv f r c JArr by (auto split: list.splits if_splits)
      then obtain u where "skip_ws t = u @ '']''" using pe_last by fastforce
      moreover obtain w where "t = w @ skip_ws t" using skip_ws_split by blast
      ultimately have "t = (w @ u) @ '']''" by simp
      with that show ?thesis by blast
    qed
    with array_empty_trim [of "length r" d t' vs] pv r c JArr show ?thesis by auto
  next
    case (JObj ms)
    with pv f r have c: "c = CHR ''{''" by (auto split: if_splits list.splits)
    have "d \<noteq> 0" using pv f r c by (auto split: if_splits list.splits)
    then have "(\<exists>u. skip_ws t = CHR ''}'' # u \<and> u = []) \<or> (\<exists>s' g. pm g (d - 1) (skip_ws t) = Some (ms, []))"
      using pv f r c JObj by (auto split: list.splits if_splits)
    then obtain u where "skip_ws t = u @ ''}''" using pm_last by fastforce
    moreover obtain w where "t = w @ skip_ws t" using skip_ws_split by blast
    ultimately have "t = (w @ u) @ ''}''" by simp
    then show ?thesis using c r JObj by simp
  next
    case (JStr b)
    with pv f r scan show ?thesis by (auto simp: quoted_def split: if_splits list.splits)
  next
    case (JNum n)
    with pv f r have "scan_number r = Some (n, [])" by (auto split: if_splits list.splits)
    with scan(2) JNum scan_number_token show ?thesis by auto
  next
    case (JBool b)
    with pv f r drop [of "''true''"] drop [of "''false''"] show ?thesis by (auto split: if_splits list.splits)
  next
    case JNull
    with pv f r drop [of "''null''"] show ?thesis by (auto split: if_splits list.splits)
  qed
qed

theorem token_tight:
  assumes "reads d r v" shows "tight r"
proof -
  have pv: "pv (length r) d (r @ []) = Some (v, [])" by (rule readsD [OF assms]) auto
  then have h: "r \<noteq> []" "byte (hd r) < 128" "\<not> ascii_space (hd r)"
    using pv_start value_start_ascii by fastforce+
  have "byte (last r) < 128 \<and> \<not> ascii_space (last r)"
    using reads_shape [OF assms]
    by (cases v) (auto simp: quoted_def ascii_space_def is_digit_def split: if_splits
        dest!: scan_number_last)
  with h show ?thesis by (simp add: tight_def)
qed

section \<open>Integers\<close>

lemma nat_to_dec_hd_digit: "is_digit (hd (nat_to_dec n))"
  using nat_to_dec_digits [of n] by (metis hd_in_set nat_to_dec_nonempty)

lemma nat_to_dec_zero: "nat_to_dec 0 = ''0''"
proof -
  have "digit_char 0 = CHR ''0''" by code_simp
  then show ?thesis by (subst nat_to_dec.simps) simp
qed

lemma digits_whole: "\<forall>c \<in> set s. is_digit c \<Longrightarrow> take_digits s = s \<and> drop_digits s = []"
  by (simp add: take_digits_def drop_digits_def)

lemma scan_int_dec: "scan_int (nat_to_dec n) = Some (nat_to_dec n, [])"
proof (cases "n = 0")
  case True
  then show ?thesis by (simp add: nat_to_dec_zero scan_int_def)
next
  case False
  obtain c r where c: "nat_to_dec n = c # r" by (cases "nat_to_dec n") auto
  with False hd_nat_to_dec [of n] nat_to_dec_hd_digit [of n] have "c \<noteq> CHR ''0''" "is_digit c" by auto
  moreover have "\<forall>d \<in> set (c # r). is_digit d" using nat_to_dec_digits [of n] c by simp
  ultimately show ?thesis using digits_whole [of "c # r"] unfolding c by (simp add: scan_int_def)
qed

lemma not_minus_digit: "is_digit c \<Longrightarrow> c \<noteq> CHR ''-''"
  by auto

lemma scan_number_int: "scan_number (int_to_dec i) = Some (int_to_dec i, [])"
proof -
  have p: "\<not> has_prefix (nat_to_dec n) ''-''" for n
    using nat_to_dec_hd_digit [of n] by (cases "nat_to_dec n") (auto dest: not_minus_digit)
  have "scan_frac [] = Some ([], [])" "scan_exp [] = Some ([], [])"
    by (simp_all add: scan_frac_def scan_exp_def)
  then show ?thesis
    using scan_number_sign [of "[]" "nat_to_dec (nat i)"] scan_number_sign [of "''-''" "nat_to_dec (nat (- i))"]
      p scan_int_dec
    by (simp add: int_to_dec_def)
qed

lemma int_literal_dec: "fits64 i \<Longrightarrow> int_literal (int_to_dec i) = Some i"
proof -
  assume f: "fits64 i"
  have d: "list_all is_digit (nat_to_dec n)" for n using nat_to_dec_digits by (simp add: list_all_iff)
  have h: "hd (nat_to_dec n) \<noteq> CHR ''-''" for n using nat_to_dec_hd_digit not_minus_digit by blast
  show ?thesis using f d h by (simp add: int_literal_def int_to_dec_def Let_def)
qed

end
