(* ===== verification/Content.thy ===== *)
theory Content
  imports Base64 Json_Objects
begin

text \<open>
  The content items of tool results, prompt messages and resource reads (package \<open>content\<close>): their
  metadata and annotations, and the three wire shapes of each kind. A Go \<open>map[string]any\<close> is the
  association list of its members, the nil map the empty one; assigning a key replaces its value.
  A \<open>float64\<close> is the number literal it is written as.

  The interface \<open>Content\<close> is open: \<open>OtherContent\<close> stands for an implementation by the application,
  given by the shapes it returns. \<open>SetLastModified\<close>, which parses a timestamp, is not modelled.
\<close>

type_synonym members = "(bytes \<times> any) list"

definition has_key :: "(bytes \<times> 'v) list \<Rightarrow> bytes \<Rightarrow> bool" where
  "has_key ms k = (map_of ms k \<noteq> None)"

definition put :: "bytes \<Rightarrow> 'v \<Rightarrow> (bytes \<times> 'v) list \<Rightarrow> (bytes \<times> 'v) list" where
  "put k v ms = AList.update k v ms"

definition put_if :: "bool \<Rightarrow> bytes \<Rightarrow> 'v \<Rightarrow> (bytes \<times> 'v) list \<Rightarrow> (bytes \<times> 'v) list" where
  "put_if b k v ms = (if b then put k v ms else ms)"

lemma map_of_put [simp]: "map_of (put k v ms) = (map_of ms)(k \<mapsto> v)"
  by (simp add: put_def update_conv')

lemma map_of_put_if: "map_of (put_if b k v ms) = (if b then (map_of ms)(k \<mapsto> v) else map_of ms)"
  by (simp add: put_if_def)

lemma distinct_put [simp]: "distinct (map fst ms) \<Longrightarrow> distinct (map fst (put k v ms))"
  by (simp add: put_def distinct_update)

lemma distinct_put_if [simp]: "distinct (map fst ms) \<Longrightarrow> distinct (map fst (put_if b k v ms))"
  by (simp add: put_if_def)

lemma put_not_Nil [simp]: "put k v ms \<noteq> []"
  by (cases ms) (auto simp: put_def split: prod.splits if_splits)

section \<open>Annotations (annotations.go)\<close>

record annotations =
  an_audience :: "bytes list"
  an_priority :: "bytes option"
  an_last_modified :: bytes

definition role_valid :: "bytes \<Rightarrow> bool" where
  "role_valid r = (r = ''user'' \<or> r = ''assistant'')"

fun audience_roles :: "bytes list \<Rightarrow> bytes list \<Rightarrow> bytes list option" where
  "audience_roles [] out = Some out"
| "audience_roles (r # rs) out =
     (if \<not> role_valid r then None
      else if r \<in> set out then audience_roles rs out
      else audience_roles rs (out @ [r]))"

text \<open>\<open>SetAudience\<close> and \<open>SetPriority\<close>; \<open>None\<close> is the error, which leaves the value as it was.\<close>

definition set_audience :: "bytes list \<Rightarrow> annotations \<Rightarrow> annotations option" where
  "set_audience roles a =
     (case audience_roles roles [] of
        None \<Rightarrow> None
      | Some out \<Rightarrow> Some (a\<lparr>an_audience := out\<rparr>))"

definition set_priority :: "bytes \<Rightarrow> annotations \<Rightarrow> annotations option" where
  "set_priority p a =
     (let (neg, m, e) = num_parts p;
          above_one = (if 0 \<le> e then 1 < m * 10 ^ nat e else 10 ^ nat (- e) < m)
      in if m \<noteq> 0 \<and> (neg \<or> above_one) then None else Some (a\<lparr>an_priority := Some p\<rparr>))"

definition annotations_map :: "annotations \<Rightarrow> members" where
  "annotations_map a =
     put_if (an_last_modified a \<noteq> []) ''lastModified'' (AStr (an_last_modified a))
       (put_if (an_priority a \<noteq> None) ''priority'' (ANum (the (an_priority a)))
         (put_if (an_audience a \<noteq> []) ''audience'' (AList (map AStr (an_audience a))) []))"

definition merge_annotations :: "annotations \<Rightarrow> members \<Rightarrow> members" where
  "merge_annotations a base =
     (let am = annotations_map a
      in if am = [] then base
         else put_if (\<not> has_key base ''annotations'') ''annotations'' (AMap am) base)"

section \<open>Metadata (content.go)\<close>

record content_meta =
  cm_data :: members
  cm_annotations :: annotations

definition no_meta :: content_meta where
  "no_meta = \<lparr>cm_data = [], cm_annotations = \<lparr>an_audience = [], an_priority = None, an_last_modified = []\<rparr>\<rparr>"

definition set_meta :: "bytes \<Rightarrow> any \<Rightarrow> content_meta \<Rightarrow> content_meta" where
  "set_meta k v m = m\<lparr>cm_data := put k v (cm_data m)\<rparr>"

definition merge_meta :: "members \<Rightarrow> content_meta \<Rightarrow> content_meta" where
  "merge_meta ms m = m\<lparr>cm_data := fold (\<lambda>(k, v). put k v) ms (cm_data m)\<rparr>"

definition meta_merge :: "content_meta \<Rightarrow> members \<Rightarrow> members" where
  "meta_merge m base0 =
     (let base = merge_annotations (cm_annotations m) base0
      in if cm_data m = [] then base
         else put_if (\<not> has_key base ''_meta'') ''_meta'' (AMap (cm_data m)) base)"

section \<open>The kinds of content\<close>

record content_icon =
  ci_src :: bytes
  ci_mime :: bytes
  ci_sizes :: "bytes list"
  ci_theme :: bytes

definition icon_array :: "content_icon \<Rightarrow> members" where
  "icon_array i =
     put_if (ci_theme i \<noteq> []) ''theme'' (AStr (ci_theme i))
       (put_if (ci_sizes i \<noteq> []) ''sizes'' (AList (map AStr (ci_sizes i)))
         (put_if (ci_mime i \<noteq> []) ''mimeType'' (AStr (ci_mime i)) [(''src'', AStr (ci_src i))]))"

record resource_link =
  ln_uri :: bytes
  ln_name :: bytes
  ln_mime :: bytes
  ln_title :: bytes
  ln_description :: bytes
  ln_size :: "int option"
  ln_annotations :: members
  ln_icons :: "content_icon list"

datatype content =
    TextContent content_meta bytes
  | ImageContent content_meta bytes bytes
  | AudioContent content_meta bytes bytes
  | BlobContent content_meta bytes
  | LinkContent content_meta resource_link
  | NotificationContent content_meta bytes members
  | OtherContent "members option" "members option" "bytes \<Rightarrow> bytes \<Rightarrow> members option"

definition new_text :: "bytes \<Rightarrow> content" where
  "new_text t = TextContent no_meta t"

definition new_image :: "bytes \<Rightarrow> bytes \<Rightarrow> content" where
  "new_image data mime = ImageContent no_meta data (if mime = [] then ''image/png'' else mime)"

definition new_audio :: "bytes \<Rightarrow> bytes \<Rightarrow> content" where
  "new_audio data mime = AudioContent no_meta data (if mime = [] then ''audio/wav'' else mime)"

definition text_array :: "content_meta \<Rightarrow> bytes \<Rightarrow> members" where
  "text_array m t = meta_merge m [(''type'', AStr ''text''), (''text'', AStr t)]"

definition image_array :: "content_meta \<Rightarrow> bytes \<Rightarrow> bytes \<Rightarrow> members" where
  "image_array m d mime =
     meta_merge m [(''type'', AStr ''image''), (''data'', AStr (b64_encode d)), (''mimeType'', AStr mime)]"

definition audio_array :: "content_meta \<Rightarrow> bytes \<Rightarrow> bytes \<Rightarrow> members" where
  "audio_array m d mime =
     meta_merge m [(''type'', AStr ''audio''), (''data'', AStr (b64_encode d)), (''mimeType'', AStr mime)]"

definition link_array :: "content_meta \<Rightarrow> resource_link \<Rightarrow> members" where
  "link_array m l = meta_merge m
     (put_if (ln_icons l \<noteq> []) ''icons'' (AList (map (\<lambda>i. AMap (icon_array i)) (ln_icons l)))
       (put_if (ln_annotations l \<noteq> []) ''annotations'' (AMap (ln_annotations l))
         (put_if (ln_size l \<noteq> None) ''size'' (AInt (the (ln_size l)))
           (put_if (ln_mime l \<noteq> []) ''mimeType'' (AStr (ln_mime l))
             (put_if (ln_description l \<noteq> []) ''description'' (AStr (ln_description l))
               (put_if (ln_title l \<noteq> []) ''title'' (AStr (ln_title l))
                 [(''type'', AStr ''resource_link''), (''uri'', AStr (ln_uri l)),
                  (''name'', AStr (ln_name l))]))))))"

definition notification_array :: "content_meta \<Rightarrow> bytes \<Rightarrow> members \<Rightarrow> members" where
  "notification_array m method params =
     [(''method'', AStr method),
      (''params'', AMap (put_if (cm_data m \<noteq> [] \<and> \<not> has_key params ''_meta'') ''_meta''
                           (AMap (cm_data m)) params))]"

definition text_resource :: "content_meta \<Rightarrow> bytes \<Rightarrow> bytes \<Rightarrow> bytes \<Rightarrow> members" where
  "text_resource m t uri mime =
     meta_merge m [(''text'', AStr t), (''uri'', AStr uri), (''mimeType'', AStr mime)]"

definition image_resource :: "content_meta \<Rightarrow> bytes \<Rightarrow> bytes \<Rightarrow> bytes \<Rightarrow> members" where
  "image_resource m d own uri =
     meta_merge m [(''blob'', AStr (b64_encode d)), (''uri'', AStr uri), (''mimeType'', AStr own)]"

definition audio_resource :: "content_meta \<Rightarrow> bytes \<Rightarrow> bytes \<Rightarrow> bytes \<Rightarrow> members" where
  "audio_resource m d own uri =
     meta_merge m [(''blob'', AStr (b64_encode d)), (''uri'', AStr uri), (''mimeType'', AStr own)]"

definition blob_resource :: "content_meta \<Rightarrow> bytes \<Rightarrow> bytes \<Rightarrow> bytes \<Rightarrow> members" where
  "blob_resource m d uri mime =
     meta_merge m [(''blob'', AStr (b64_encode d)), (''uri'', AStr uri), (''mimeType'', AStr mime)]"

text \<open>The conversions; \<open>None\<close> is \<open>ErrNotAllowed\<close>.\<close>

definition to_tool :: "content \<Rightarrow> members option" where
  "to_tool c =
     (case c of
        TextContent m t \<Rightarrow> Some (text_array m t)
      | ImageContent m d mime \<Rightarrow> Some (image_array m d mime)
      | AudioContent m d mime \<Rightarrow> Some (audio_array m d mime)
      | BlobContent m d \<Rightarrow> None
      | LinkContent m l \<Rightarrow> Some (link_array m l)
      | NotificationContent m n ps \<Rightarrow> Some (notification_array m n ps)
      | OtherContent tool prompt res \<Rightarrow> tool)"

definition to_prompt :: "content \<Rightarrow> members option" where
  "to_prompt c =
     (case c of
        TextContent m t \<Rightarrow> Some (text_array m t)
      | ImageContent m d mime \<Rightarrow> Some (image_array m d mime)
      | AudioContent m d mime \<Rightarrow> Some (audio_array m d mime)
      | BlobContent m d \<Rightarrow> None
      | LinkContent m l \<Rightarrow> Some (link_array m l)
      | NotificationContent m n ps \<Rightarrow> Some (notification_array m n ps)
      | OtherContent tool prompt res \<Rightarrow> prompt)"

definition to_resource :: "content \<Rightarrow> bytes \<Rightarrow> bytes \<Rightarrow> members option" where
  "to_resource c uri mime =
     (case c of
        TextContent m t \<Rightarrow> Some (text_resource m t uri mime)
      | ImageContent m d own \<Rightarrow> Some (image_resource m d own uri)
      | AudioContent m d own \<Rightarrow> Some (audio_resource m d own uri)
      | BlobContent m d \<Rightarrow> Some (blob_resource m d uri mime)
      | LinkContent m l \<Rightarrow> None
      | NotificationContent m n ps \<Rightarrow> Some (notification_array m n ps)
      | OtherContent tool prompt res \<Rightarrow> res uri mime)"

section \<open>Correctness\<close>

lemma merge_annotations_keeps: "k \<noteq> ''annotations'' \<Longrightarrow> map_of (merge_annotations a base) k = map_of base k"
  by (simp add: merge_annotations_def Let_def map_of_put_if)

lemma meta_merge_keeps:
  "k \<noteq> ''annotations'' \<Longrightarrow> k \<noteq> ''_meta'' \<Longrightarrow> map_of (meta_merge m base) k = map_of base k"
  by (simp add: meta_merge_def Let_def map_of_put_if merge_annotations_keeps)

text \<open>What the metadata adds never replaces a member that is there.\<close>

lemma meta_merge_extends: "map_of base k = Some v \<Longrightarrow> map_of (meta_merge m base) k = Some v"
  by (auto simp: meta_merge_def merge_annotations_def Let_def map_of_put_if has_key_def)

lemma meta_merge_data:
  "map_of base ''_meta'' = None \<Longrightarrow>
     map_of (meta_merge m base) ''_meta'' = (if cm_data m = [] then None else Some (AMap (cm_data m)))"
  by (auto simp: meta_merge_def Let_def map_of_put_if merge_annotations_keeps has_key_def)

lemma audience_roles_spec:
  "distinct out \<Longrightarrow> audience_roles rs out = Some out' \<Longrightarrow>
     distinct out' \<and> set out' = set out \<union> set rs \<and> (\<forall>r \<in> set rs. role_valid r)"
proof (induction rs arbitrary: out)
  case (Cons r rs)
  then show ?case using Cons.IH [of "out @ [r]"] Cons.IH [of out] by (auto split: if_splits)
qed simp

lemma audience_roles_None: "audience_roles rs out = None \<Longrightarrow> \<not> set rs \<subseteq> {''user'', ''assistant''}"
  by (induction rs arbitrary: out) (auto simp: role_valid_def split: if_splits)

lemma link_array_core:
  "map_of (link_array m l) ''uri'' = Some (AStr (ln_uri l))"
  "map_of (link_array m l) ''name'' = Some (AStr (ln_name l))"
  "map_of (link_array m l) ''size'' = map_option AInt (ln_size l)"
  unfolding link_array_def by (auto simp: meta_merge_keeps map_of_put_if)

text \<open>
  Every kind of content keeps its payload in each shape it has: text is carried as it is, binary
  data in base64 that decodes to it, a link by its URI and name, a notification by its method; a
  resource shape names the resource read. Exactly a blob has no tool or prompt shape, and exactly a
  link no resource shape, among the kinds the package defines.
\<close>

theorem content_shapes:
  "case c of
     TextContent m t \<Rightarrow>
       (\<exists>s r. to_tool c = Some s \<and> to_prompt c = Some s \<and> to_resource c uri mime = Some r
          \<and> map_of s ''text'' = Some (AStr t) \<and> map_of r ''text'' = Some (AStr t)
          \<and> map_of r ''uri'' = Some (AStr uri) \<and> map_of r ''mimeType'' = Some (AStr mime))
   | ImageContent m d own \<Rightarrow>
       (\<exists>s r e. to_tool c = Some s \<and> to_prompt c = Some s \<and> to_resource c uri mime = Some r
          \<and> map_of s ''data'' = Some (AStr e) \<and> map_of r ''blob'' = Some (AStr e)
          \<and> b64_decode True e = Some d \<and> map_of r ''uri'' = Some (AStr uri)
          \<and> map_of r ''mimeType'' = Some (AStr own))
   | AudioContent m d own \<Rightarrow>
       (\<exists>s r e. to_tool c = Some s \<and> to_prompt c = Some s \<and> to_resource c uri mime = Some r
          \<and> map_of s ''data'' = Some (AStr e) \<and> map_of r ''blob'' = Some (AStr e)
          \<and> b64_decode True e = Some d \<and> map_of r ''uri'' = Some (AStr uri)
          \<and> map_of r ''mimeType'' = Some (AStr own))
   | BlobContent m d \<Rightarrow>
       to_tool c = None \<and> to_prompt c = None
       \<and> (\<exists>r e. to_resource c uri mime = Some r \<and> map_of r ''blob'' = Some (AStr e)
          \<and> b64_decode True e = Some d \<and> map_of r ''uri'' = Some (AStr uri)
          \<and> map_of r ''mimeType'' = Some (AStr mime))
   | LinkContent m l \<Rightarrow>
       to_resource c uri mime = None
       \<and> (\<exists>s. to_tool c = Some s \<and> to_prompt c = Some s \<and> map_of s ''uri'' = Some (AStr (ln_uri l))
          \<and> map_of s ''name'' = Some (AStr (ln_name l)) \<and> map_of s ''size'' = map_option AInt (ln_size l))
   | NotificationContent m n ps \<Rightarrow>
       (\<exists>s p. to_tool c = Some s \<and> to_prompt c = Some s \<and> to_resource c uri mime = Some s
          \<and> map_of s ''method'' = Some (AStr n) \<and> map_of s ''params'' = Some (AMap p)
          \<and> map_of ps \<subseteq>\<^sub>m map_of p)
   | OtherContent tool prompt res \<Rightarrow> True"
  by (cases c)
    (auto simp: to_tool_def to_prompt_def to_resource_def text_array_def image_array_def audio_array_def
      text_resource_def image_resource_def audio_resource_def blob_resource_def
      notification_array_def meta_merge_keeps link_array_core b64_decode_encode map_of_put_if has_key_def map_le_def)

text \<open>
  An audience that is accepted holds the roles given, each once, and only roles the protocol
  has; any other role is refused.
\<close>

theorem audience_checked:
  "case set_audience roles a of
     None \<Rightarrow> \<not> set roles \<subseteq> {''user'', ''assistant''}
   | Some a' \<Rightarrow> set (an_audience a') = set roles \<and> distinct (an_audience a')
       \<and> set roles \<subseteq> {''user'', ''assistant''}"
proof (cases "audience_roles roles []")
  case None
  then show ?thesis using audience_roles_None by (simp add: set_audience_def)
next
  case (Some out)
  with audience_roles_spec [of "[]" roles out] have "set out = set roles" "distinct out"
    "\<forall>r \<in> set roles. role_valid r" by simp_all
  then show ?thesis using Some unfolding role_valid_def by (simp add: set_audience_def subset_iff)
qed

end
