(* ===== verification/JsonRpc.thy ===== *)
theory JsonRpc
  imports Json_Objects
begin

text \<open>
  The JSON-RPC 2.0 messages of \<open>jsonrpc/jsonrpc.go\<close> and their parsers in \<open>jsonrpc/parse.go\<close>.

  An \<open>ID\<close> is its raw token; the empty token stands for the absent one. A parse error is a value of
  the sum type, with the id the caller answers under. The parsers decide by looking at bytes (the
  first byte of an id, a hand-written integer scanner, the brackets of the params); the theorems of
  the second half restate what they accept in terms of JSON values, and show that what the package
  encodes it parses back.
\<close>

section \<open>Messages (jsonrpc.go)\<close>

definition rpc_version :: bytes where "rpc_version = ''2.0''"

definition code_parse_error :: int where "code_parse_error = -32700"
definition code_invalid_request :: int where "code_invalid_request = -32600"
definition code_method_not_found :: int where "code_method_not_found = -32601"
definition code_invalid_params :: int where "code_invalid_params = -32602"
definition code_internal_error :: int where "code_internal_error = -32603"
definition code_resource_not_found :: int where "code_resource_not_found = -32002"
definition code_header_mismatch :: int where "code_header_mismatch = -32020"
definition code_missing_capability :: int where "code_missing_capability = -32021"
definition code_unsupported_version :: int where "code_unsupported_version = -32022"

lemmas code_defs [go_defs] =
  code_parse_error_def code_invalid_request_def code_method_not_found_def code_invalid_params_def
  code_internal_error_def code_resource_not_found_def code_header_mismatch_def
  code_missing_capability_def code_unsupported_version_def

datatype rpc_id = Id (id_raw: bytes)

definition string_id :: "bytes \<Rightarrow> rpc_id" where
  "string_id s = Id (quoted (quote_body s))"

definition int_id :: "int \<Rightarrow> rpc_id" where
  "int_id n = Id (int_to_dec n)"

definition null_id :: rpc_id where
  "null_id = Id ''null''"

definition id_is_null :: "rpc_id \<Rightarrow> bool" where
  "id_is_null i = (if id_raw i = [] then True else trim_space (id_raw i) = ''null'')"

text \<open>An optional minus sign, then 0 or digits with no leading zero.\<close>

definition is_json_integer :: "bytes \<Rightarrow> bool" where
  "is_json_integer t0 =
     (let t = (if t0 \<noteq> [] \<and> hd t0 = CHR ''-'' then tl t0 else t0)
      in if t = [] then False
         else if hd t = CHR ''0'' then length t = 1
         else list_all is_digit t)"

definition is_valid_request_id :: "rpc_id \<Rightarrow> bool" where
  "is_valid_request_id i =
     (if id_is_null i then False
      else let t = trim_space (id_raw i)
           in if t = [] then False
              else if hd t = quote_char then True
              else is_json_integer t)"

definition id_string :: "rpc_id \<Rightarrow> bytes" where
  "id_string i =
     (if id_is_null i then []
      else case unmarshal_string (id_raw i) of
             Some s \<Rightarrow> s
           | None \<Rightarrow> trim_space (id_raw i))"

text \<open>\<open>MarshalJSON\<close>, and \<open>UnmarshalJSON\<close>: the id it leaves and whether it reports an error.\<close>

definition id_marshal :: "rpc_id \<Rightarrow> bytes" where
  "id_marshal i = (if id_raw i = [] then ''null'' else id_raw i)"

definition id_unmarshal :: "bytes \<Rightarrow> rpc_id \<times> bool" where
  "id_unmarshal b = (if json_valid b then (Id b, True) else (Id [], False))"

record rpc_error =
  err_code :: int
  err_message :: bytes
  err_data :: any

definition new_error :: "int \<Rightarrow> bytes \<Rightarrow> rpc_error" where
  "new_error c m = \<lparr>err_code = c, err_message = m, err_data = ANil\<rparr>"

definition with_data :: "rpc_error \<Rightarrow> any \<Rightarrow> rpc_error" where
  "with_data e d = e\<lparr>err_data := d\<rparr>"

record rpc_request =
  rq_id :: rpc_id
  rq_method :: bytes
  rq_params :: bytes

record rpc_notification =
  nt_method :: bytes
  nt_params :: bytes

record rpc_response =
  rs_id :: rpc_id
  rs_result :: bytes
  rs_error :: "rpc_error option"

text \<open>
  The result a handler returns: nothing, a raw token it encoded itself, or a value the package
  encodes.
\<close>

datatype result_value = NoResult | RawResult bytes | AnyResult any

definition marshal_result :: "result_value \<Rightarrow> bytes option" where
  "marshal_result r =
     (case r of
        NoResult \<Rightarrow> Some ''{}''
      | RawResult raw \<Rightarrow> if trim_space raw = [] then Some ''{}'' else Some raw
      | AnyResult a \<Rightarrow> marshal a)"

definition new_result :: "rpc_id \<Rightarrow> result_value \<Rightarrow> rpc_response option" where
  "new_result i r =
     map_option (\<lambda>raw. \<lparr>rs_id = i, rs_result = raw, rs_error = None\<rparr>) (marshal_result r)"

definition new_error_response :: "rpc_id \<Rightarrow> rpc_error \<Rightarrow> rpc_response" where
  "new_error_response i e = \<lparr>rs_id = i, rs_result = [], rs_error = Some e\<rparr>"

definition new_error_response_code :: "rpc_id \<Rightarrow> int \<Rightarrow> bytes \<Rightarrow> rpc_response" where
  "new_error_response_code i c m = new_error_response i (new_error c m)"

text \<open>
  The encoding of a struct: its members in the order of the fields, those of an empty
  \<open>omitempty\<close> field left out.
\<close>

definition field :: "bytes \<Rightarrow> json option \<Rightarrow> (bytes \<times> bytes \<times> json) list option" where
  "field k t = map_option (\<lambda>v. [(k, [], v)]) t"

definition omit_empty :: "bool \<Rightarrow> (bytes \<times> bytes \<times> json) list option \<Rightarrow> (bytes \<times> bytes \<times> json) list option" where
  "omit_empty e f = (if e then Some [] else f)"

fun struct_tree :: "(bytes \<times> bytes \<times> json) list option list \<Rightarrow> json option" where
  "struct_tree [] = Some (JObj [])"
| "struct_tree (f # fs) =
     (case (f, struct_tree fs) of
        (Some ms, Some (JObj l)) \<Rightarrow> Some (JObj (ms @ l))
      | _ \<Rightarrow> None)"

definition text_tree :: "bytes \<Rightarrow> json option" where
  "text_tree s = tree_of (AStr s)"

definition error_tree :: "rpc_error \<Rightarrow> json option" where
  "error_tree e = struct_tree
     [field ''code'' (tree_of (AInt (err_code e))), field ''message'' (text_tree (err_message e)),
      omit_empty (err_data e = ANil) (field ''data'' (tree_of (err_data e)))]"

text \<open>\<open>json.Marshal\<close> of a \<open>Request\<close>, a \<open>Notification\<close> and a \<open>Response\<close>.\<close>

definition encode_request :: "rpc_request \<Rightarrow> bytes option" where
  "encode_request r = map_option print_json (struct_tree
     [field ''jsonrpc'' (text_tree rpc_version), field ''id'' (tree_of (ARaw (id_marshal (rq_id r)))),
      field ''method'' (text_tree (rq_method r)),
      omit_empty (rq_params r = []) (field ''params'' (tree_of (ARaw (rq_params r))))])"

definition encode_message :: "bytes \<Rightarrow> any \<Rightarrow> bytes option" where
  "encode_message m p = map_option print_json (struct_tree
     [field ''jsonrpc'' (text_tree rpc_version), field ''method'' (text_tree m),
      omit_empty (p = ANil) (field ''params'' (tree_of p))])"

definition encode_response :: "rpc_response \<Rightarrow> bytes option" where
  "encode_response r = map_option print_json (struct_tree
     [field ''jsonrpc'' (text_tree rpc_version), field ''id'' (tree_of (ARaw (id_marshal (rs_id r)))),
      omit_empty (rs_result r = []) (field ''result'' (tree_of (ARaw (rs_result r)))),
      (case rs_error r of None \<Rightarrow> Some [] | Some e \<Rightarrow> field ''error'' (error_tree e))])"

text \<open>\<open>EncodeNotification\<close> and \<open>NewNotification\<close>; a params value of \<open>ANil\<close> is Go's nil.\<close>

definition encode_notification :: "bytes \<Rightarrow> any \<Rightarrow> bytes option" where
  "encode_notification m p = encode_message m p"

definition new_notification :: "bytes \<Rightarrow> any \<Rightarrow> rpc_notification option" where
  "new_notification m p =
     (if p = ANil then Some \<lparr>nt_method = m, nt_params = []\<rparr>
      else map_option (\<lambda>raw. \<lparr>nt_method = m, nt_params = raw\<rparr>) (marshal p))"

text \<open>\<open>json.Marshal\<close> of a \<open>Notification\<close>.\<close>

definition marshal_notification :: "rpc_notification \<Rightarrow> bytes option" where
  "marshal_notification n = map_option print_json (struct_tree
     [field ''jsonrpc'' (text_tree rpc_version), field ''method'' (text_tree (nt_method n)),
      omit_empty (nt_params n = []) (field ''params'' (tree_of (ARaw (nt_params n))))])"

section \<open>Parsing (parse.go)\<close>

definition msg_parse_error :: bytes where
  "msg_parse_error = ''Parse error: Invalid JSON was received by the server.''"
definition msg_invalid_id :: bytes where
  "msg_invalid_id = ''Invalid Request: The [id] member must be a string or an integer.''"
definition msg_invalid_version :: bytes where
  "msg_invalid_version = ''Invalid Request: The [jsonrpc] member must be exactly [2.0].''"
definition msg_missing_method_req :: bytes where
  "msg_missing_method_req = ''Invalid Request: The [method] member is required and must be a string.''"
definition msg_missing_method_ntf :: bytes where
  "msg_missing_method_ntf = ''Invalid Request: Invalid or missing [method]. Must be a string.''"
definition msg_invalid_ntf_ver :: bytes where
  "msg_invalid_ntf_ver = ''Invalid Request: Invalid JSON-RPC version. Must be [2.0].''"
definition msg_invalid_params :: bytes where
  "msg_invalid_params = ''Invalid params: The [params] member must be an object.''"
definition msg_result_without_id :: bytes where
  "msg_result_without_id = ''Invalid Response: A [result] must carry the [id] of the request it answers.''"
definition msg_malformed_error :: bytes where
  "msg_malformed_error = ''Invalid Response: malformed [error] object.''"
definition msg_exactly_one :: bytes where
  "msg_exactly_one = ''Invalid Response: exactly one of [result] or [error] must be present.''"

type_synonym envelope = "(bytes \<times> bytes) list"

definition env_has :: "envelope \<Rightarrow> bytes \<Rightarrow> bool" where
  "env_has e k = (map_of e k \<noteq> None)"

definition env_raw :: "envelope \<Rightarrow> bytes \<Rightarrow> bytes" where
  "env_raw e k = (case map_of e k of Some v \<Rightarrow> v | None \<Rightarrow> [])"

text \<open>
  \<open>strictUnmarshal\<close> into an envelope: one JSON value, which must be an object or null, and nothing
  after it. A JSON null leaves the nil map, which has no member.
\<close>

definition strict_unmarshal :: "bytes \<Rightarrow> envelope option" where
  "strict_unmarshal data =
     (case unmarshal_map data of DecErr \<Rightarrow> None | DecNil \<Rightarrow> Some [] | Dec ms \<Rightarrow> Some ms)"

definition version_is_20 :: "bytes \<Rightarrow> bool" where
  "version_is_20 raw =
     (if raw = [] then False
      else case unmarshal_string raw of None \<Rightarrow> False | Some s \<Rightarrow> s = rpc_version)"

definition is_params_object :: "bytes \<Rightarrow> bool" where
  "is_params_object raw =
     (let t = trim_space raw
      in if has_prefix t ''{'' then json_valid t
         else if has_prefix t ''['' then
           json_valid t \<and> trim_space (take (length t - 2) (drop 1 t)) = []
         else False)"

definition string_value :: "bytes \<Rightarrow> bytes option" where
  "string_value raw =
     (if raw = [] then None
      else case unmarshal_any raw of Some (AStr s) \<Rightarrow> Some s | _ \<Rightarrow> None)"

text \<open>\<open>IsNotificationBytes\<close>: \<open>Inl\<close> is its error.\<close>

definition is_notification_bytes :: "bytes \<Rightarrow> rpc_error + bool" where
  "is_notification_bytes data =
     (case strict_unmarshal data of
        None \<Rightarrow> Inl (new_error code_parse_error msg_parse_error)
      | Some env \<Rightarrow> Inr (\<not> env_has env ''id''))"

text \<open>
  \<open>ParseRequest\<close>: \<open>Inl (id, e)\<close> is the error with the id to answer it under, \<open>Inr r\<close> the request,
  whose id is the one returned beside it.
\<close>

definition parse_request :: "bytes \<Rightarrow> (rpc_id \<times> rpc_error) + rpc_request" where
  "parse_request data =
     (case strict_unmarshal data of
        None \<Rightarrow> Inl (null_id, new_error code_parse_error msg_parse_error)
      | Some env \<Rightarrow>
          (let i = (if env_has env ''id'' then Id (env_raw env ''id'') else Id [])
           in if \<not> is_valid_request_id i
              then Inl (null_id, new_error code_invalid_request msg_invalid_id)
              else if \<not> version_is_20 (env_raw env ''jsonrpc'')
              then Inl (i, new_error code_invalid_request msg_invalid_version)
              else case string_value (env_raw env ''method'') of
                None \<Rightarrow> Inl (i, new_error code_invalid_request msg_missing_method_req)
              | Some m \<Rightarrow>
                  if env_has env ''params'' \<and> \<not> is_params_object (env_raw env ''params'')
                  then Inl (i, new_error code_invalid_params msg_invalid_params)
                  else Inr \<lparr>rq_id = i, rq_method = m, rq_params = env_raw env ''params''\<rparr>))"

definition parse_notification :: "bytes \<Rightarrow> rpc_error + rpc_notification" where
  "parse_notification data =
     (case strict_unmarshal data of
        None \<Rightarrow> Inl (new_error code_parse_error msg_parse_error)
      | Some env \<Rightarrow>
          if \<not> version_is_20 (env_raw env ''jsonrpc'')
          then Inl (new_error code_invalid_request msg_invalid_ntf_ver)
          else case string_value (env_raw env ''method'') of
            None \<Rightarrow> Inl (new_error code_invalid_request msg_missing_method_ntf)
          | Some m \<Rightarrow>
              if env_has env ''params'' \<and> \<not> is_params_object (env_raw env ''params'')
              then Inl (new_error code_invalid_params msg_invalid_params)
              else Inr \<lparr>nt_method = m, nt_params = env_raw env ''params''\<rparr>)"

text \<open>
  \<open>json.Unmarshal\<close> into a \<open>*Error\<close>: the members named code, message and data, the name compared
  without case, each in the order they come; a JSON null leaves a field as it was and any other
  type is an error.
\<close>

definition decode_error_member :: "bytes \<times> bytes \<times> json \<Rightarrow> rpc_error \<Rightarrow> rpc_error option" where
  "decode_error_member m e =
     (case m of (k, _, v) \<Rightarrow>
        if field_is ''code'' (unquote k) then
          map_option (\<lambda>c. e\<lparr>err_code := c\<rparr>) (decode_int (err_code e) v)
        else if field_is ''message'' (unquote k) then
          map_option (\<lambda>s. e\<lparr>err_message := s\<rparr>) (decode_text (err_message e) v)
        else if field_is ''data'' (unquote k) then
          map_option (\<lambda>a. e\<lparr>err_data := a\<rparr>) (any_of v)
        else Some e)"

definition unmarshal_error :: "bytes \<Rightarrow> rpc_error option" where
  "unmarshal_error raw =
     (case json_parse raw of
        Some (JObj ms) \<Rightarrow> decode_members decode_error_member ms (new_error 0 [])
      | _ \<Rightarrow> None)"

definition parse_response :: "bytes \<Rightarrow> rpc_error + rpc_response" where
  "parse_response data =
     (case strict_unmarshal data of
        None \<Rightarrow> Inl (new_error code_parse_error msg_parse_error)
      | Some env \<Rightarrow>
          if \<not> version_is_20 (env_raw env ''jsonrpc'')
          then Inl (new_error code_invalid_request msg_invalid_version)
          else
            (let has_result = (trim_space (env_raw env ''result'') \<noteq> []);
                 err_raw = env_raw env ''error'';
                 decoded = (if trim_space err_raw \<noteq> [] \<and> trim_space err_raw \<noteq> ''null''
                            then map_option Some (unmarshal_error err_raw) else Some None)
             in case decoded of
                  None \<Rightarrow> Inl (new_error code_invalid_request msg_malformed_error)
                | Some rpc_err \<Rightarrow>
                    if has_result = (rpc_err \<noteq> None)
                    then Inl (new_error code_invalid_request msg_exactly_one)
                    else if has_result \<and> \<not> env_has env ''id''
                    then Inl (new_error code_invalid_request msg_result_without_id)
                    else Inr \<lparr>rs_id = (if env_has env ''id'' then Id (env_raw env ''id'') else null_id),
                              rs_result = env_raw env ''result'', rs_error = rpc_err\<rparr>))"

section \<open>What the byte tests decide\<close>

text \<open>A number literal without fraction and exponent.\<close>

definition plain_number :: "bytes \<Rightarrow> bool" where
  "plain_number n = (\<forall>c \<in> set n. c \<notin> {CHR ''.'', CHR ''e'', CHR ''E''})"

lemma digits_plain: "\<forall>c \<in> set i. is_digit c \<Longrightarrow> plain_number i"
  by (auto simp: plain_number_def is_digit_def)

lemma plain_append [simp]: "plain_number (a @ b) \<longleftrightarrow> plain_number a \<and> plain_number b"
  by (auto simp: plain_number_def)

lemma is_json_integer_number:
  assumes "scan_number n = Some (n, [])"
  shows "is_json_integer n \<longleftrightarrow> plain_number n"
proof -
  obtain sg s1 i s2 fr s3 e where p: "if has_prefix n ''-'' then sg = ''-'' \<and> n = sg @ s1 else sg = [] \<and> s1 = n"
    "scan_int s1 = Some (i, s2)" "scan_frac s2 = Some (fr, s3)" "scan_exp s3 = Some (e, [])"
    "n = sg @ i @ fr @ e"
    using iffD1 [OF scan_number_parts assms] by blast
  note i = scan_int_local(1-3) [OF p(2)]
  have s1: "s1 = i @ fr @ e" using p(1,5) by (auto split: if_splits)
  have fr: "fr = [] \<or> hd fr = CHR ''.''" and e: "e = [] \<or> hd e = CHR ''e'' \<or> hd e = CHR ''E''"
    using scan_frac_local(2) [OF p(3)] scan_exp_local(2) [OF p(4)] by auto
  have i': "i = ''0'' \<or> (hd i \<noteq> CHR ''0'' \<and> (\<forall>c \<in> set i. is_digit c))"
    using p(2) by (auto simp: scan_int_def take_digits_def dest: set_takeWhileD
        split: list.splits if_splits)
  have hd: "hd s1 = hd i" "s1 \<noteq> []" using s1 i by auto
  have t: "(if n \<noteq> [] \<and> hd n = CHR ''-'' then tl n else n) = s1"
    using p(1) i(3) hd by (cases n) (auto split: if_splits)
  have sg: "plain_number sg" using p(1) by (auto simp: plain_number_def split: if_splits)
  have int: "is_json_integer n \<longleftrightarrow> fr = [] \<and> e = []"
  proof (cases "i = ''0''")
    case True
    then show ?thesis using hd s1 by (simp add: is_json_integer_def t)
  next
    case False
    have "list_all is_digit s1 \<longleftrightarrow> fr = [] \<and> e = []"
      using False i' fr e s1 by (cases fr; cases e) (auto simp: list_all_iff)
    then show ?thesis using hd False i' by (simp add: is_json_integer_def t)
  qed
  have "plain_number i" using i' digits_plain [of i] by (auto simp: plain_number_def)
  moreover have "plain_number fr \<longleftrightarrow> fr = []" "plain_number e \<longleftrightarrow> e = []"
    using fr e by (cases fr; cases e; auto simp: plain_number_def)+
  ultimately show ?thesis using p(5) sg int by (metis plain_append)
qed

text \<open>An id the protocol allows, as a JSON value.\<close>

definition request_id_value :: "json \<Rightarrow> bool" where
  "request_id_value v = (case v of JStr _ \<Rightarrow> True | JNum n \<Rightarrow> plain_number n | _ \<Rightarrow> False)"

definition params_value :: "json \<Rightarrow> bool" where
  "params_value v = (case v of JObj _ \<Rightarrow> True | JArr vs \<Rightarrow> vs = [] | _ \<Rightarrow> False)"

lemma number_not_null: "scan_number n = Some (n, []) \<Longrightarrow> n \<noteq> ''null'' \<and> n \<noteq> [] \<and> hd n \<noteq> quote_char"
  using scan_number_local(2,3) [of n n "[]"] by (cases n) (auto simp: is_digit_def)

lemma valid_id_reads:
  assumes "reads d r v"
  shows "is_valid_request_id (Id r) \<longleftrightarrow> request_id_value v"
proof -
  have t: "trim_space r = r" using token_tight [OF assms] by simp
  have ne: "r \<noteq> []" using reads_hd [OF assms] by simp
  show ?thesis
  proof (cases v)
    case (JNum n)
    then have "scan_number n = Some (n, [])" "r = n" using reads_shape [OF assms] by auto
    then show ?thesis
      using t ne JNum is_json_integer_number number_not_null
      by (auto simp: is_valid_request_id_def id_is_null_def request_id_value_def Let_def)
  next
    case (JObj ms)
    then show ?thesis using reads_shape [OF assms] t ne
      by (cases r) (auto simp: is_valid_request_id_def id_is_null_def request_id_value_def
          is_json_integer_def is_digit_def Let_def)
  next
    case (JArr vs)
    then show ?thesis using reads_shape [OF assms] t ne
      by (auto simp: is_valid_request_id_def id_is_null_def request_id_value_def
          is_json_integer_def is_digit_def Let_def)
  qed (use reads_shape [OF assms] t ne in
      \<open>auto simp: is_valid_request_id_def id_is_null_def request_id_value_def quoted_def
        is_json_integer_def is_digit_def Let_def split: if_splits\<close>)
qed

lemma params_object_reads:
  assumes "reads d r v" "d \<le> max_nesting"
  shows "is_params_object r \<longleftrightarrow> params_value v"
proof -
  have t: "trim_space r = r" using token_tight [OF assms(1)] by simp
  have v: "json_valid r" using reads_parse [OF assms] by (simp add: json_valid_def)
  show ?thesis
  proof (cases v)
    case (JObj ms)
    then show ?thesis using reads_shape [OF assms(1)] t v reads_hd [OF assms(1)]
      by (cases r) (auto simp: is_params_object_def params_value_def Let_def)
  next
    case (JArr vs)
    then show ?thesis using reads_shape [OF assms(1)] t v
      by (auto simp: is_params_object_def params_value_def Let_def)
  next
    case (JNum n)
    then show ?thesis using reads_shape [OF assms(1)] t
      by (cases r) (auto simp: is_params_object_def params_value_def Let_def is_digit_def
          dest!: scan_number_local(3))
  qed (use reads_shape [OF assms(1)] t in
      \<open>auto simp: is_params_object_def params_value_def quoted_def Let_def split: if_splits\<close>)
qed

lemma string_value_token:
  assumes "token d r" "d \<le> max_nesting"
  shows "string_value r = (case json_parse r of Some (JStr b) \<Rightarrow> Some (unquote b) | _ \<Rightarrow> None)"
  using token_nonempty [OF assms(1)]
  by (auto simp: string_value_def unmarshal_any_def split: option.splits json.splits any.splits
      intro: token_parse [OF assms])

lemma version_token:
  assumes "token d r" "d \<le> max_nesting"
  shows "version_is_20 r \<longleftrightarrow> (\<exists>b. json_parse r = Some (JStr b) \<and> unquote b = rpc_version)"
  using token_nonempty [OF assms(1)]
  by (auto simp: version_is_20_def unmarshal_string_def rpc_version_def
      split: option.splits json.splits)

section \<open>Members of a message\<close>

text \<open>The value of a member of a decoded object.\<close>

definition member_value :: "envelope \<Rightarrow> bytes \<Rightarrow> json option" where
  "member_value ms k = Option.bind (map_of ms k) json_parse"

lemma raw_map_member:
  assumes "raw_map d ms" "map_of ms k = Some r"
  shows "token d r"
  using assms map_of_SomeD [OF assms(2)] by (auto simp: raw_map_def)

lemma envelope_cases:
  assumes "strict_unmarshal data = Some env"
  shows "raw_map (max_nesting - 1) env"
    and "unmarshal_map data = Dec env \<or> unmarshal_map data = DecNil \<and> env = []"
  using assms unmarshal_map_raw
  by (auto simp: strict_unmarshal_def raw_map_def split: decoded.splits)

lemma envelope_member:
  assumes "strict_unmarshal data = Some env" "map_of env k = Some r"
  obtains v where "json_parse r = Some v" "reads (max_nesting - 1) r v"
    "token (max_nesting - 1) r" "env_has env k" "env_raw env k = r" "member_value env k = Some v"
proof -
  have t: "token (max_nesting - 1) r"
    using raw_map_member envelope_cases(1) assms by blast
  then obtain v where "json_parse r = Some v" "reads (max_nesting - 1) r v"
    by (rule token_parse) simp
  with that t assms(2) show ?thesis
    by (simp add: env_has_def env_raw_def member_value_def)
qed

lemma envelope_absent:
  "map_of env k = None \<Longrightarrow> \<not> env_has env k \<and> env_raw env k = [] \<and> member_value env k = None"
  by (simp add: env_has_def env_raw_def member_value_def)

text \<open>The tests of the parsers on a decoded envelope, as conditions on the values of its members.\<close>

lemma envelope_version:
  assumes "strict_unmarshal data = Some env"
  shows "version_is_20 (env_raw env k) \<longleftrightarrow>
    (\<exists>b. member_value env k = Some (JStr b) \<and> unquote b = rpc_version)"
proof (cases "map_of env k")
  case None
  then show ?thesis by (simp add: envelope_absent version_is_20_def)
next
  case (Some r)
  from envelope_member [OF assms Some] show ?thesis
    using version_token [of "max_nesting - 1" r] by (metis diff_le_self)
qed

lemma envelope_string:
  assumes "strict_unmarshal data = Some env"
  shows "string_value (env_raw env k) =
    (case member_value env k of Some (JStr b) \<Rightarrow> Some (unquote b) | _ \<Rightarrow> None)"
proof (cases "map_of env k")
  case None
  then show ?thesis by (simp add: envelope_absent string_value_def)
next
  case (Some r)
  from envelope_member [OF assms Some] show ?thesis
    using string_value_token [of "max_nesting - 1" r] by (metis diff_le_self)
qed

lemma envelope_params:
  assumes "strict_unmarshal data = Some env"
  shows "env_has env k \<and> \<not> is_params_object (env_raw env k) \<longleftrightarrow>
    (\<exists>v. member_value env k = Some v \<and> \<not> params_value v)"
proof (cases "map_of env k")
  case None
  then show ?thesis by (simp add: envelope_absent)
next
  case (Some r)
  from envelope_member [OF assms Some] show ?thesis
    using params_object_reads [of "max_nesting - 1" r] by (metis diff_le_self option.inject)
qed

lemma envelope_id:
  assumes "strict_unmarshal data = Some env"
  shows "is_valid_request_id (if env_has env k then Id (env_raw env k) else Id []) \<longleftrightarrow>
    (\<exists>v. member_value env k = Some v \<and> request_id_value v)"
proof (cases "map_of env k")
  case None
  then show ?thesis by (simp add: envelope_absent is_valid_request_id_def id_is_null_def)
next
  case (Some r)
  then obtain v where "reads (max_nesting - 1) r v" "env_has env k" "env_raw env k = r"
    "member_value env k = Some v"
    by (rule envelope_member [OF assms])
  then show ?thesis using valid_id_reads by simp
qed

text \<open>
  What a JSON-RPC request is, in terms of the values of its members: the version string, a string
  or integer id, a string method, and params that are absent, an object or an empty array.
\<close>

definition request_object :: "envelope \<Rightarrow> rpc_request \<Rightarrow> bool" where
  "request_object ms r =
     ((\<exists>b. member_value ms ''jsonrpc'' = Some (JStr b) \<and> unquote b = rpc_version)
      \<and> map_of ms ''id'' = Some (id_raw (rq_id r))
      \<and> (\<exists>v. member_value ms ''id'' = Some v \<and> request_id_value v)
      \<and> (\<exists>b. member_value ms ''method'' = Some (JStr b) \<and> unquote b = rq_method r)
      \<and> (case map_of ms ''params'' of None \<Rightarrow> rq_params r = [] | Some p \<Rightarrow> rq_params r = p)
      \<and> (\<forall>v. member_value ms ''params'' = Some v \<longrightarrow> params_value v))"

lemma parse_request_object:
  assumes "strict_unmarshal data = Some env"
  shows "parse_request data = Inr r \<longleftrightarrow> request_object env r"
proof -
  note conds = envelope_id [OF assms, of "''id''"] envelope_version [OF assms, of "''jsonrpc''"]
    envelope_string [OF assms, of "''method''"] envelope_params [OF assms, of "''params''"]
  have raw: "env_raw env ''params'' = (case map_of env ''params'' of None \<Rightarrow> [] | Some p \<Rightarrow> p)"
    by (simp add: env_raw_def split: option.splits)
  have i: "(if env_has env ''id'' then Id (env_raw env ''id'') else Id []) = j
      \<longleftrightarrow> map_of env ''id'' = Some (id_raw j)" if "member_value env ''id'' = Some v" for v j
    using that by (cases j) (auto simp: env_has_def env_raw_def member_value_def split: option.splits)
  show ?thesis
  proof (cases "\<exists>v. member_value env ''id'' = Some v \<and> request_id_value v")
    case False
    then show ?thesis using conds(1) by (auto simp: parse_request_def assms request_object_def Let_def)
  next
    case True
    then obtain v where v: "member_value env ''id'' = Some v" by blast
    have ok: "is_valid_request_id (if env_has env ''id'' then Id (env_raw env ''id'') else Id [])"
      using True conds(1) by simp
    show ?thesis
      unfolding parse_request_def assms option.case Let_def conds(2,3,4) request_object_def
      using ok True i [OF v, of "rq_id r"] raw
      by (cases r) (auto split: option.splits json.splits)
  qed
qed

lemma parse_request_iff:
  "parse_request data = Inr r \<longleftrightarrow> (\<exists>ms. unmarshal_map data = Dec ms \<and> request_object ms r)"
proof (cases "unmarshal_map data")
  case DecErr
  then show ?thesis by (simp add: parse_request_def strict_unmarshal_def)
next
  case DecNil
  have "\<not> request_object [] r" by (simp add: request_object_def member_value_def)
  with DecNil show ?thesis
    using parse_request_object [of data "[]"] by (simp add: strict_unmarshal_def)
next
  case (Dec env)
  then show ?thesis
    using parse_request_object [of data env] by (simp add: strict_unmarshal_def)
qed

text \<open>
  C1. \<open>ParseRequest\<close> accepts exactly the JSON-RPC 2.0 requests the protocol allows: one JSON object
  stating the version 2.0, an id that is a string or an integer, a string method, and params that
  are absent, an object or an empty array. It returns the id and the params as they were written
  and the decoded method.
\<close>

theorem parse_request_accepts:
  "parse_request data = Inr r \<longleftrightarrow> (\<exists>ms. unmarshal_map data = Dec ms \<and> request_object ms r)"
  by (rule parse_request_iff)

text \<open>
  C2. A refused request is answered under the id it states when that id is usable and the bytes are
  one JSON object, and under the null id otherwise; the code says which: a parse error exactly for
  bytes that are no object (or null), an invalid request or invalid params for the rest.
\<close>

theorem parse_request_rejects:
  "parse_request data = Inl (i, e) \<Longrightarrow>
     (case strict_unmarshal data of
        None \<Rightarrow> i = null_id \<and> err_code e = code_parse_error
      | Some ms \<Rightarrow>
          (case member_value ms ''id'' of
             Some v \<Rightarrow>
               if request_id_value v
               then map_of ms ''id'' = Some (id_raw i)
                 \<and> (err_code e = code_invalid_params \<longleftrightarrow>
                     (\<exists>b. member_value ms ''jsonrpc'' = Some (JStr b) \<and> unquote b = rpc_version)
                     \<and> (\<exists>b. member_value ms ''method'' = Some (JStr b))
                     \<and> (\<exists>p. member_value ms ''params'' = Some p \<and> \<not> params_value p))
                 \<and> err_code e \<in> {code_invalid_request, code_invalid_params}
               else i = null_id \<and> err_code e = code_invalid_request
           | None \<Rightarrow> i = null_id \<and> err_code e = code_invalid_request))"
proof -
  assume inl: "parse_request data = Inl (i, e)"
  show ?thesis
  proof (cases "strict_unmarshal data")
    case None
    with inl show ?thesis by (auto simp: parse_request_def new_error_def)
  next
    case (Some env)
    note conds = envelope_id [OF Some, of "''id''"] envelope_version [OF Some, of "''jsonrpc''"]
      envelope_string [OF Some, of "''method''"] envelope_params [OF Some, of "''params''"]
    show ?thesis
    proof (cases "\<exists>v. member_value env ''id'' = Some v \<and> request_id_value v")
      case False
      then show ?thesis using inl conds(1) Some
        by (auto simp: parse_request_def new_error_def Let_def split: option.splits)
    next
      case True
      then have m: "map_of env ''id'' = Some (env_raw env ''id'')" "env_has env ''id''"
        by (auto simp: env_raw_def env_has_def member_value_def split: option.splits bind_splits)
      have ok: "is_valid_request_id (if env_has env ''id'' then Id (env_raw env ''id'') else Id [])"
        using True conds(1) by simp
      show ?thesis
        using inl ok True m
        unfolding parse_request_def Some option.case Let_def conds(2,3,4)
        by (auto simp: new_error_def code_defs split: option.splits json.splits if_splits)
    qed
  qed
qed

section \<open>Reading back what the package writes\<close>

text \<open>A name that is written as it is.\<close>

definition plain_name :: "bytes \<Rightarrow> bool" where
  "plain_name s = list_all (\<lambda>c. 32 \<le> byte c \<and> byte c < 128
     \<and> c \<notin> {quote_char, backslash, CHR ''<'', CHR ''>'', CHR ''&''}) s"

lemma plain_name:
  "plain_name s \<Longrightarrow> str_body s" "plain_name s \<Longrightarrow> html_escape s = s"
  "plain_name s \<Longrightarrow> unquote s = s" "plain_name s \<Longrightarrow> quote_body s = s" "plain_name s \<Longrightarrow> utf8 s"
proof -
  have *: "str_body s \<and> html_escape s = s \<and> unquote s = s \<and> quote_body s = s \<and> utf8 s" if "plain_name s"
    using that
  proof (induction s)
    case (Cons c s)
    have c: "\<not> byte c < 32" "byte c < 128" "c \<noteq> quote_char" "c \<noteq> backslash" "\<not> html_char c"
      using Cons.prems by (auto simp: plain_name_def html_char_def)
    have "c \<noteq> CHR 0xE2" using c(2) by auto
    then have "\<not> ls_ps (c # s)" by simp
    moreover have "quote_ascii c = [c]"
      using c by (auto simp: quote_ascii_def)
    moreover have "plain_name s" using Cons.prems by (simp add: plain_name_def)
    ultimately show ?case using Cons.IH c by (simp add: html_escape_plain)
  qed simp
  show "plain_name s \<Longrightarrow> str_body s" "plain_name s \<Longrightarrow> html_escape s = s"
    "plain_name s \<Longrightarrow> unquote s = s" "plain_name s \<Longrightarrow> quote_body s = s" "plain_name s \<Longrightarrow> utf8 s"
    using * by auto
qed

lemma names_plain [simp]:
  "plain_name ''jsonrpc''" "plain_name ''id''" "plain_name ''method''" "plain_name ''params''"
  "plain_name ''result''" "plain_name ''error''" "plain_name ''code''" "plain_name ''message''"
  "plain_name ''data''"
  by (simp_all add: plain_name_def)

lemma map_of_map_triple:
  "map_of (map (\<lambda>(k, r, v). (k, f v)) ms) = (\<lambda>k. map_option (\<lambda>(r, v). f v) (map_of ms k))"
  by (induction ms) auto

text \<open>The members a decoder finds in an encoded struct.\<close>

lemma unmarshal_struct:
  assumes wf: "wf_members (max_nesting - 1) ms" and d: "distinct (map fst ms)"
    and k: "\<forall>k \<in> set (map fst ms). plain_name k"
  obtains env where "unmarshal_map (print_json (JObj ms)) = Dec env"
    "map_of env = (\<lambda>k. map_option (\<lambda>(r, v). print_json v) (map_of ms k))"
    "member_value env = (\<lambda>k. map_option (\<lambda>(r, v). canon v) (map_of ms k))"
proof -
  define env where "env = raw_members (canon_members ms)"
  have "wf_json max_nesting (JObj ms)" using wf by (simp add: max_nesting_def)
  then have dec: "unmarshal_map (print_json (JObj ms)) = Dec env"
    using json_parse_print [of "JObj ms"] by (simp add: unmarshal_map_def env_def)
  have "map (\<lambda>(k, r, v). (unquote k, r)) (canon_members ms) = map (\<lambda>(k, r, v). (k, print_json v)) ms"
    using k unfolding canon_members_map by (auto simp: comp_def plain_name)
  then have "map_of env = map_of (rev (map (\<lambda>(k, r, v). (k, print_json v)) ms))"
    by (simp add: env_def raw_members_def map_of_dedup)
  also have "\<dots> = map_of (map (\<lambda>(k, r, v). (k, print_json v)) ms)"
    by (rule map_of_rev_distinct) (use d in \<open>simp add: comp_def case_prod_unfold\<close>)
  finally have env: "map_of env = (\<lambda>k. map_option (\<lambda>(r, v). print_json v) (map_of ms k))"
    by (simp add: map_of_map_triple)
  have "member_value env k = map_option (\<lambda>(r, v). canon v) (map_of ms k)" for k
  proof (cases "map_of ms k")
    case (Some rv)
    obtain r v where rv: "rv = (r, v)" by (cases rv)
    with Some have "(k, r, v) \<in> set ms" by (simp add: map_of_SomeD)
    with wf have "reads (max_nesting - 1) (print_json v) (canon v)"
      by (auto simp: wf_members_all intro: reads_print(1))
    then have "json_parse (print_json v) = Some (canon v)" by (rule reads_parse) simp
    with Some rv env show ?thesis by (simp add: member_value_def)
  qed (simp add: env member_value_def)
  with that dec env show ?thesis by blast
qed

lemma id_marshal_token: "token d (id_raw i) \<Longrightarrow> id_marshal i = id_raw i"
  by (simp add: id_marshal_def token_nonempty)

lemma tree_of_token:
  assumes "token d r" "d \<le> max_nesting"
  obtains v where "tree_of (ARaw r) = Some v" "json_parse r = Some v" "wf_json d v" "compact r = print_json v"
    "reads d r v"
  using token_parse [OF assms] token_nonempty [OF assms(1)]
  by (metis compact_def option.case(2) tree_of.simps(8))

lemma canon_values [simp]:
  "request_id_value (canon v) = request_id_value v" "params_value (canon v) = params_value v"
  by (cases v; simp add: request_id_value_def params_value_def)+

lemma text_back:
  "utf8 s \<Longrightarrow> text_tree s = Some (JStr (quote_body s)) \<and> str_body (quote_body s)
     \<and> unquote (html_escape (quote_body s)) = s"
  by (simp add: text_tree_def str_body_quote_body unquote_html_escape unquote_quote_body)

lemma utf8_version [simp]: "utf8 rpc_version"
  by (simp add: rpc_version_def)

text \<open>A request the protocol allows: a usable id, a UTF-8 method, structured params or none.\<close>

definition sendable_request :: "rpc_request \<Rightarrow> bool" where
  "sendable_request r =
     (token (max_nesting - 1) (id_raw (rq_id r)) \<and> is_valid_request_id (rq_id r) \<and> utf8 (rq_method r)
      \<and> (rq_params r = [] \<or> token (max_nesting - 1) (rq_params r) \<and> is_params_object (rq_params r)))"

text \<open>The request as it is read back: raw tokens compacted.\<close>

definition compact_request :: "rpc_request \<Rightarrow> rpc_request" where
  "compact_request r =
     \<lparr>rq_id = Id (compact (id_raw (rq_id r))), rq_method = rq_method r,
      rq_params = (if rq_params r = [] then [] else compact (rq_params r))\<rparr>"


lemma encode_request_eq:
  assumes "sendable_request r"
  obtains ms vi where "encode_request r = Some (print_json (JObj ms))" "wf_members (max_nesting - 1) ms"
    "distinct (map fst ms)" "\<forall>k \<in> set (map fst ms). plain_name k"
    "map_of ms ''jsonrpc'' = Some ([], JStr (quote_body rpc_version))"
    "map_of ms ''method'' = Some ([], JStr (quote_body (rq_method r)))"
    "map_of ms ''id'' = Some ([], vi)" "print_json vi = compact (id_raw (rq_id r))" "request_id_value vi"
    "rq_params r = [] \<Longrightarrow> map_of ms ''params'' = None"
    "rq_params r \<noteq> [] \<Longrightarrow> \<exists>v. map_of ms ''params'' = Some ([], v) \<and> params_value v
       \<and> print_json v = compact (rq_params r)"
proof -
  have s: "token (max_nesting - 1) (id_raw (rq_id r))" "is_valid_request_id (rq_id r)" "utf8 (rq_method r)"
    "rq_params r = [] \<or> token (max_nesting - 1) (rq_params r) \<and> is_params_object (rq_params r)"
    using assms by (auto simp: sendable_request_def)
  obtain vi where vi: "tree_of (ARaw (id_raw (rq_id r))) = Some vi" "wf_json (max_nesting - 1) vi"
    "compact (id_raw (rq_id r)) = print_json vi" "reads (max_nesting - 1) (id_raw (rq_id r)) vi"
    using s(1) by (rule tree_of_token) auto
  have rv: "request_id_value vi" using valid_id_reads [OF vi(4)] s(2) by (cases "rq_id r") auto
  have m: "text_tree (rq_method r) = Some (JStr (quote_body (rq_method r)))"
    "str_body (quote_body (rq_method r))" "text_tree rpc_version = Some (JStr (quote_body rpc_version))"
    "str_body (quote_body rpc_version)"
    using text_back [OF s(3)] text_back [OF utf8_version] by auto
  let ?base = "[(''jsonrpc'', [], JStr (quote_body rpc_version)), (''id'', [], vi),
      (''method'', [], JStr (quote_body (rq_method r)))]"
  note [simp] = plain_name(1)
  show ?thesis
  proof (cases "rq_params r = []")
    case True
    then have "encode_request r = Some (print_json (JObj ?base))"
      using id_marshal_token [OF s(1)] vi(1) m
      by (simp add: encode_request_def field_def omit_empty_def del: tree_of.simps)
    then show ?thesis by (rule that [of ?base vi]) (use True vi rv m in simp_all)
  next
    case False
    with s(4) obtain vp where vp: "tree_of (ARaw (rq_params r)) = Some vp" "wf_json (max_nesting - 1) vp"
      "compact (rq_params r) = print_json vp" "reads (max_nesting - 1) (rq_params r) vp"
      by (auto elim: tree_of_token)
    have pv: "params_value vp" using params_object_reads [OF vp(4)] s(4) False by auto
    have "encode_request r = Some (print_json (JObj (?base @ [(''params'', [], vp)])))"
      using id_marshal_token [OF s(1)] vi(1) vp(1) m False
      by (simp add: encode_request_def field_def omit_empty_def del: tree_of.simps)
    then show ?thesis
      by (rule that [of "?base @ [(''params'', [], vp)]" vi]) (use False vi(2,3) rv m vp(2,3) pv in simp_all)
  qed
qed

text \<open>
  A request the package encodes is read back as it was: \<open>ParseRequest\<close> accepts the bytes
  \<open>json.Marshal\<close> writes for it and returns the method unchanged and the id and params tokens in
  their compact form.
\<close>

theorem request_roundtrip:
  "sendable_request r \<Longrightarrow> \<exists>data. encode_request r = Some data \<and> parse_request data = Inr (compact_request r)"
proof -
  assume s: "sendable_request r"
  from encode_request_eq [OF s] obtain ms vi where ms: "encode_request r = Some (print_json (JObj ms))"
    "wf_members (max_nesting - 1) ms"
    "distinct (map fst ms)" "\<forall>k \<in> set (map fst ms). plain_name k"
    "map_of ms ''jsonrpc'' = Some ([], JStr (quote_body rpc_version))"
    "map_of ms ''method'' = Some ([], JStr (quote_body (rq_method r)))"
    "map_of ms ''id'' = Some ([], vi)" "print_json vi = compact (id_raw (rq_id r))" "request_id_value vi"
    "rq_params r = [] \<Longrightarrow> map_of ms ''params'' = None"
    "rq_params r \<noteq> [] \<Longrightarrow> \<exists>v. map_of ms ''params'' = Some ([], v) \<and> params_value v
       \<and> print_json v = compact (rq_params r)"
    by metis
  obtain env where env: "unmarshal_map (print_json (JObj ms)) = Dec env"
    "map_of env = (\<lambda>k. map_option (\<lambda>(r, v). print_json v) (map_of ms k))"
    "member_value env = (\<lambda>k. map_option (\<lambda>(r, v). canon v) (map_of ms k))"
    using unmarshal_struct [OF ms(2-4)] .
  have "request_object env (compact_request r)"
    using ms(5-11) text_back [OF utf8_version] text_back [of "rq_method r"] s
    unfolding request_object_def env(2,3) compact_request_def sendable_request_def
    by (cases "rq_params r = []") auto
  with ms(1) env(1) show ?thesis using parse_request_iff by blast
qed

text \<open>A response the package encodes: a result token or an error whose data can be written.\<close>

definition sendable_error :: "rpc_error \<Rightarrow> any \<Rightarrow> bool" where
  "sendable_error e data =
     (fits64 (err_code e) \<and> utf8 (err_message e)
      \<and> (case tree_of (err_data e) of
           Some v \<Rightarrow> wf_json (max_nesting - 2) v \<and> any_of v = Some data
         | None \<Rightarrow> False))"

lemma fold_names [simp]:
  "field_is ''code'' ''code''" "\<not> field_is ''code'' ''message''" "\<not> field_is ''code'' ''data''"
  "field_is ''message'' ''message''" "\<not> field_is ''message'' ''data''" "field_is ''data'' ''data''"
  by code_simp+

lemma error_tree_back:
  assumes "sendable_error e data"
  obtains ms where "error_tree e = Some (JObj ms)" "wf_members (max_nesting - 2) ms"
    "decode_members decode_error_member (canon_members ms) (new_error 0 [])
       = Some \<lparr>err_code = err_code e, err_message = err_message e, err_data = data\<rparr>"
proof -
  obtain v where v: "tree_of (err_data e) = Some v" "wf_json (max_nesting - 2) v" "any_of v = Some data"
    using assms by (auto simp: sendable_error_def split: option.splits)
  have m: "text_tree (err_message e) = Some (JStr (quote_body (err_message e)))"
    "str_body (quote_body (err_message e))" "unquote (html_escape (quote_body (err_message e))) = err_message e"
    using assms text_back [of "err_message e"] by (auto simp: sendable_error_def)
  have c: "int_literal (int_to_dec (err_code e)) = Some (err_code e)"
    using assms by (simp add: sendable_error_def int_literal_dec)
  have a: "any_of (canon v) = Some data" using any_of_canon(1) [OF v(2)] v(3) by simp
  let ?base = "[(''code'', [], JNum (int_to_dec (err_code e))),
      (''message'', [], JStr (quote_body (err_message e)))]"
  note [simp] = plain_name
  show ?thesis
  proof (cases "err_data e = ANil")
    case True
    then have "data = ANil" using v by simp
    with True show ?thesis
      by (intro that [of ?base])
        (use m c in \<open>simp_all add: error_tree_def field_def omit_empty_def scan_number_int
          decode_error_member_def decode_int_def decode_text_def new_error_def\<close>)
  next
    case False
    then show ?thesis
      by (intro that [of "?base @ [(''data'', [], v)]"])
        (use m c v(1,2) a in \<open>simp_all add: error_tree_def field_def omit_empty_def scan_number_int
          decode_error_member_def decode_int_def decode_text_def new_error_def\<close>)
  qed
qed

lemma parse_response_envelope:
  assumes dec: "unmarshal_map data = Dec env"
    and ver: "member_value env ''jsonrpc'' = Some (JStr b)" "unquote b = rpc_version"
    and i: "map_of env ''id'' = Some i"
  shows "map_of env ''error'' = None \<Longrightarrow> map_of env ''result'' = Some r \<Longrightarrow>
      parse_response data = Inr \<lparr>rs_id = Id i, rs_result = r, rs_error = None\<rparr>"
    and "map_of env ''result'' = None \<Longrightarrow> map_of env ''error'' = Some er \<Longrightarrow>
      json_parse er = Some (JObj ms) \<Longrightarrow> unmarshal_error er = Some e \<Longrightarrow>
      parse_response data = Inr \<lparr>rs_id = Id i, rs_result = [], rs_error = Some e\<rparr>"
proof -
  have env: "strict_unmarshal data = Some env" using dec by (simp add: strict_unmarshal_def)
  have v: "version_is_20 (env_raw env ''jsonrpc'')" using envelope_version [OF env] ver by blast
  have t: "trim_space x = x \<and> x \<noteq> []" if "map_of env k = Some x" for k x
    using envelope_member [OF env that] token_tight reads_hd by (metis trim_space_tight)
  show "parse_response data = Inr \<lparr>rs_id = Id i, rs_result = r, rs_error = None\<rparr>"
    if "map_of env ''error'' = None" "map_of env ''result'' = Some r"
    using that t [OF that(2)] v i by (simp add: parse_response_def env env_raw_def env_has_def)
  show "parse_response data = Inr \<lparr>rs_id = Id i, rs_result = [], rs_error = Some e\<rparr>"
    if "map_of env ''result'' = None" "map_of env ''error'' = Some er" "json_parse er = Some (JObj ms)"
      "unmarshal_error er = Some e"
  proof -
    have "er \<noteq> ''null''"
    proof
      assume "er = ''null''"
      moreover have "json_parse ''null'' = Some JNull" by code_simp
      ultimately show False using that(3) by simp
    qed
    then show ?thesis
      using that t [OF that(2)] v i by (simp add: parse_response_def env env_raw_def env_has_def)
  qed
qed

text \<open>What an encoded response is: an object of the members of the struct, which the peer reads back.\<close>

definition response_frame :: "bytes \<Rightarrow> bool" where
  "response_frame data = (\<exists>ms. data = print_json (JObj ms) \<and> wf_json max_nesting (JObj ms)
     \<and> set (map fst ms) \<subseteq> {''jsonrpc'', ''id'', ''result'', ''error''})"

lemma result_encoded:
  "token (max_nesting - 1) (id_raw i) \<Longrightarrow> token (max_nesting - 1) r \<Longrightarrow>
     \<exists>data. encode_response \<lparr>rs_id = i, rs_result = r, rs_error = None\<rparr> = Some data
       \<and> response_frame data
       \<and> parse_response data
         = Inr \<lparr>rs_id = Id (compact (id_raw i)), rs_result = compact r, rs_error = None\<rparr>"
proof -
  assume i: "token (max_nesting - 1) (id_raw i)" and r: "token (max_nesting - 1) r"
  obtain vi where vi: "tree_of (ARaw (id_raw i)) = Some vi" "wf_json (max_nesting - 1) vi"
    "compact (id_raw i) = print_json vi"
    using i by (rule tree_of_token) auto
  obtain vr where vr: "tree_of (ARaw r) = Some vr" "wf_json (max_nesting - 1) vr" "compact r = print_json vr"
    using r by (rule tree_of_token) auto
  note t = text_back [OF utf8_version]
  define ms :: "(bytes \<times> bytes \<times> json) list" where "ms = [(''jsonrpc'', [], JStr (quote_body rpc_version)), (''id'', [], vi), (''result'', [], vr)]"
  have enc: "encode_response \<lparr>rs_id = i, rs_result = r, rs_error = None\<rparr> = Some (print_json (JObj ms))"
    using vi vr t id_marshal_token [OF i] token_nonempty [OF r]
    by (simp add: encode_response_def field_def omit_empty_def ms_def del: tree_of.simps)
  obtain env where env: "unmarshal_map (print_json (JObj ms)) = Dec env"
    "map_of env = (\<lambda>k. map_option (\<lambda>(r, v). print_json v) (map_of ms k))"
    "member_value env = (\<lambda>k. map_option (\<lambda>(r, v). canon v) (map_of ms k))"
    by (rule unmarshal_struct [of ms]) (use vi vr t in \<open>simp_all add: ms_def plain_name\<close>)
  have "parse_response (print_json (JObj ms))
      = Inr \<lparr>rs_id = Id (print_json vi), rs_result = print_json vr, rs_error = None\<rparr>"
    by (rule parse_response_envelope(1) [OF env(1), of "html_escape (quote_body rpc_version)"])
      (simp_all add: env(2,3) ms_def t del: print_json.simps)
  moreover have "response_frame (print_json (JObj ms))"
    unfolding response_frame_def using vi vr t
    by (intro exI [of _ ms]) (simp add: ms_def plain_name max_nesting_def)
  ultimately show ?thesis using enc vi vr by simp
qed

lemma error_encoded:
  "token (max_nesting - 1) (id_raw i) \<Longrightarrow> sendable_error e d \<Longrightarrow>
     \<exists>data. encode_response (new_error_response i e) = Some data
       \<and> response_frame data
       \<and> parse_response data
         = Inr (new_error_response (Id (compact (id_raw i)))
             \<lparr>err_code = err_code e, err_message = err_message e, err_data = d\<rparr>)"
proof -
  assume i: "token (max_nesting - 1) (id_raw i)" and e: "sendable_error e d"
  obtain vi where vi: "tree_of (ARaw (id_raw i)) = Some vi" "wf_json (max_nesting - 1) vi"
    "compact (id_raw i) = print_json vi"
    using i by (rule tree_of_token) auto
  obtain em where em: "error_tree e = Some (JObj em)" "wf_members (max_nesting - 2) em"
    "decode_members decode_error_member (canon_members em) (new_error 0 [])
       = Some \<lparr>err_code = err_code e, err_message = err_message e, err_data = d\<rparr>"
    using e by (rule error_tree_back)
  have d: "max_nesting - Suc (Suc 0) = max_nesting - 2" by simp
  have wf: "wf_json (max_nesting - 1) (JObj em)" using em(2) by (simp add: max_nesting_def)
  note t = text_back [OF utf8_version]
  define ms :: "(bytes \<times> bytes \<times> json) list" where "ms = [(''jsonrpc'', [], JStr (quote_body rpc_version)), (''id'', [], vi), (''error'', [], JObj em)]"
  have enc: "encode_response (new_error_response i e) = Some (print_json (JObj ms))"
    using vi em t id_marshal_token [OF i]
    by (simp add: encode_response_def new_error_response_def field_def omit_empty_def ms_def del: tree_of.simps)
  obtain env where env: "unmarshal_map (print_json (JObj ms)) = Dec env"
    "map_of env = (\<lambda>k. map_option (\<lambda>(r, v). print_json v) (map_of ms k))"
    "member_value env = (\<lambda>k. map_option (\<lambda>(r, v). canon v) (map_of ms k))"
    by (rule unmarshal_struct [of ms]) (use vi wf t in \<open>simp_all add: ms_def plain_name del: wf_json.simps(6)\<close>)
  have pe: "json_parse (print_json (JObj em)) = Some (JObj (canon_members em))"
    using reads_parse [OF reads_print(1) [OF wf]] by simp
  have "parse_response (print_json (JObj ms)) = Inr \<lparr>rs_id = Id (print_json vi), rs_result = [],
      rs_error = Some \<lparr>err_code = err_code e, err_message = err_message e, err_data = d\<rparr>\<rparr>"
    by (rule parse_response_envelope(2) [OF env(1), of "html_escape (quote_body rpc_version)" _ "print_json (JObj em)"])
      (simp_all add: env(2,3) ms_def t pe unmarshal_error_def em(3) del: print_json.simps)
  moreover have "response_frame (print_json (JObj ms))"
    unfolding response_frame_def using vi wf t
    by (intro exI [of _ ms]) (simp add: ms_def plain_name max_nesting_def del: wf_json.simps(6), simp add: max_nesting_def)
  ultimately show ?thesis using enc vi by (simp add: new_error_response_def)
qed

text \<open>
  A success response is read back by the peer: \<open>ParseResponse\<close> accepts what \<open>json.Marshal\<close>
  writes for a \<open>Response\<close> carrying a result, and hands on the id and the result tokens in compact
  form and no error.
\<close>

theorem result_roundtrip:
  "token (max_nesting - 1) (id_raw i) \<Longrightarrow> token (max_nesting - 1) r \<Longrightarrow>
     \<exists>data. encode_response \<lparr>rs_id = i, rs_result = r, rs_error = None\<rparr> = Some data
       \<and> parse_response data
         = Inr \<lparr>rs_id = Id (compact (id_raw i)), rs_result = compact r, rs_error = None\<rparr>"
  using result_encoded [of i r] by blast

text \<open>
  A failure response is read back by the peer: the code and the message are the ones the server
  stated, the data is the value its encoding decodes to, and the id is the request's.
\<close>

theorem error_roundtrip:
  "token (max_nesting - 1) (id_raw i) \<Longrightarrow> sendable_error e d \<Longrightarrow>
     \<exists>data. encode_response (new_error_response i e) = Some data
       \<and> parse_response data
         = Inr (new_error_response (Id (compact (id_raw i)))
             \<lparr>err_code = err_code e, err_message = err_message e, err_data = d\<rparr>)"
  using error_encoded [of i e d] by blast

section \<open>Concrete messages\<close>

lemma token_check:
  assumes "map_option snd (pv (length r) d r) = Some []"
  shows "token d r"
proof -
  obtain v where v: "pv (length r) d r = Some (v, [])" using assms by auto
  with pv_local(1) [OF v] pv_wf(1) [OF v] show ?thesis by (auto simp: token_def)
qed

lemma token_seven: "token (max_nesting - 1) ''7''"
  by (rule token_check) code_simp

lemma token_object: "token (max_nesting - 1) ''{\"a\": 1}''"
  by (rule token_check) code_simp

theorem parse_request_rejects_witness:
  "\<exists>e. parse_request ''{\"id\": 7, \"jsonrpc\": \"1.0\"}'' = Inl (Id ''7'', e)
     \<and> err_code e \<in> {code_invalid_request, code_invalid_params}"
proof -
  have p: "parse_request ''{\"id\": 7, \"jsonrpc\": \"1.0\"}''
      = Inl (Id ''7'', new_error code_invalid_request msg_invalid_version)" by code_simp
  have s: "strict_unmarshal ''{\"id\": 7, \"jsonrpc\": \"1.0\"}''
      = Some [(''id'', ''7''), (''jsonrpc'', ''\"1.0\"'')]" by code_simp
  have m: "member_value [(''id'', ''7''), (''jsonrpc'', ''\"1.0\"'')] ''id'' = Some (JNum ''7'')" by code_simp
  have r: "request_id_value (JNum ''7'')" by code_simp
  have "err_code (new_error code_invalid_request msg_invalid_version)
      \<in> {code_invalid_request, code_invalid_params}"
    using parse_request_rejects [OF p, unfolded s option.case m] r by (simp only: if_True)
  with p show ?thesis by blast
qed

theorem request_roundtrip_witness:
  "\<exists>data. encode_request \<lparr>rq_id = Id ''7'', rq_method = ''tools/list'', rq_params = ''{\"a\": 1}''\<rparr> = Some data
     \<and> parse_request data = Inr (compact_request
         \<lparr>rq_id = Id ''7'', rq_method = ''tools/list'', rq_params = ''{\"a\": 1}''\<rparr>)"
proof (rule request_roundtrip)
  have "is_valid_request_id (Id ''7'')" "utf8 ''tools/list''" "is_params_object ''{\"a\": 1}''" by code_simp+
  then show "sendable_request \<lparr>rq_id = Id ''7'', rq_method = ''tools/list'', rq_params = ''{\"a\": 1}''\<rparr>"
    using token_seven token_object by (simp add: sendable_request_def)
qed

theorem result_roundtrip_witness:
  "\<exists>data. encode_response \<lparr>rs_id = Id ''7'', rs_result = ''{\"a\": 1}'', rs_error = None\<rparr> = Some data
     \<and> parse_response data
       = Inr \<lparr>rs_id = Id (compact ''7''), rs_result = compact ''{\"a\": 1}'', rs_error = None\<rparr>"
  using result_roundtrip [of "Id ''7''" "''{\"a\": 1}''"] token_seven token_object by simp

theorem error_roundtrip_witness:
  "\<exists>data. encode_response (new_error_response (Id ''7'') (new_error (- 32601) ''no such method'')) = Some data
     \<and> parse_response data = Inr (new_error_response (Id (compact ''7''))
         \<lparr>err_code = - 32601, err_message = ''no such method'', err_data = ANil\<rparr>)"
proof -
  have "utf8 ''no such method''" by code_simp
  then have "sendable_error (new_error (- 32601) ''no such method'') ANil"
    by (simp add: sendable_error_def new_error_def fits64_def)
  from error_roundtrip [of "Id ''7''", OF _ this] token_seven show ?thesis by (simp add: new_error_def)
qed

end
