(* ===== verification/Go_Float.thy ===== *)
theory Go_Float
  imports Json_Objects
begin

text \<open>
  The \<open>float64\<close> a JSON number literal is decoded to: the nearest value with 53 significant bits,
  ties to the even one, as a sign, a mantissa and a binary exponent. Literals out of range were
  refused by the decoder (\<open>float_range\<close>); the subnormal numbers, all below \<open>2 ^ (-1022)\<close>, keep more
  bits here than a \<open>float64\<close> has, which no integer conversion can see.
\<close>

text \<open>The number of binary digits.\<close>

fun bit_size :: "nat \<Rightarrow> nat" where
  "bit_size n = (if n = 0 then 0 else Suc (bit_size (n div 2)))"

declare bit_size.simps [simp del]

text \<open>The quotient \<open>p / q\<close> rounded to the nearest integer, ties to even.\<close>

definition round_half_even :: "nat \<Rightarrow> nat \<Rightarrow> nat" where
  "round_half_even p q =
     (let d = p div q; r = p mod q
      in if 2 * r < q then d else if q < 2 * r then d + 1 else if even d then d else d + 1)"

text \<open>\<open>p / q\<close> divided by \<open>2 ^ e\<close>, as a quotient of natural numbers.\<close>

definition scale :: "nat \<Rightarrow> nat \<Rightarrow> int \<Rightarrow> nat \<times> nat" where
  "scale p q e = (if 0 \<le> e then (p, q * 2 ^ nat e) else (p * 2 ^ nat (- e), q))"

text \<open>
  The mantissa and exponent of \<open>p / q\<close>: the exponent is the one that leaves 53 bits before the
  point.
\<close>

definition float_exponent :: "nat \<Rightarrow> nat \<Rightarrow> int" where
  "float_exponent p q =
     (let e = int (bit_size p) - int (bit_size q) - 53; (a, b) = scale p q e
      in if 2 ^ 53 * b \<le> a then e + 1 else if a < 2 ^ 52 * b then e - 1 else e)"

definition float_of :: "nat \<Rightarrow> nat \<Rightarrow> nat \<times> int" where
  "float_of p q =
     (if p = 0 then (0, 0)
      else let e = float_exponent p q; (a, b) = scale p q e in (round_half_even a b, e))"

definition literal_float :: "bytes \<Rightarrow> bool \<times> nat \<times> int" where
  "literal_float n =
     (let (neg, m, e) = num_parts n
      in (neg, if 0 \<le> e then float_of (m * 10 ^ nat e) 1 else float_of m (10 ^ nat (- e))))"

text \<open>\<open>math.Trunc\<close> of its magnitude, and whether it is a whole number.\<close>

definition float_trunc :: "nat \<times> int \<Rightarrow> nat" where
  "float_trunc f = (case f of (r, e) \<Rightarrow> if 0 \<le> e then r * 2 ^ nat e else r div 2 ^ nat (- e))"

definition float_whole :: "nat \<times> int \<Rightarrow> bool" where
  "float_whole f = (case f of (r, e) \<Rightarrow> 0 \<le> e \<or> r mod 2 ^ nat (- e) = 0)"

definition apply_sign :: "bool \<Rightarrow> nat \<Rightarrow> int" where
  "apply_sign neg n = (if neg then - int n else int n)"

text \<open>
  The conversion \<open>int(f)\<close> on amd64: truncation, and the least integer for a value out of range.
\<close>

definition float_to_int64 :: "bool \<times> nat \<times> int \<Rightarrow> int" where
  "float_to_int64 f =
     (case f of (neg, m) \<Rightarrow>
        let i = apply_sign neg (float_trunc m) in if fits64 i then i else - (2 ^ 63))"

section \<open>Laws\<close>

lemma bit_size_0 [simp]: "bit_size 0 = 0"
  by (subst bit_size.simps) simp

lemma bit_size_bounds: "0 < n \<Longrightarrow> 2 ^ (bit_size n - 1) \<le> n \<and> n < 2 ^ bit_size n \<and> 0 < bit_size n"
proof (induction n rule: bit_size.induct)
  case (1 n)
  have s: "bit_size n = Suc (bit_size (n div 2))" using 1 by (subst bit_size.simps) simp
  show ?case
  proof (cases "n div 2 = 0")
    case True
    then have "n = 1" using 1 by auto
    then show ?thesis using s by simp
  next
    case False
    then have ih: "2 ^ (bit_size (n div 2) - 1) \<le> n div 2" "n div 2 < 2 ^ bit_size (n div 2)"
      "0 < bit_size (n div 2)" using 1 by auto
    have "2 ^ bit_size (n div 2) = 2 * (2::nat) ^ (bit_size (n div 2) - 1)"
      using ih(3) by (cases "bit_size (n div 2)") auto
    moreover have "x \<le> n div 2 \<Longrightarrow> 2 * x \<le> n" "n div 2 < x \<Longrightarrow> n < 2 * x" for x by auto
    ultimately show ?thesis unfolding s using ih by (metis One_nat_def diff_Suc_1 power_Suc zero_less_Suc)
  qed
qed

lemma bit_size_1: "bit_size (Suc 0) = 1"
  by (subst bit_size.simps) (simp add: bit_size.simps)

lemma round_exact: "0 < q \<Longrightarrow> round_half_even (n * q) q = n"
  by (simp add: round_half_even_def)

text \<open>An integer below \<open>2 ^ 53\<close> is its own float; a larger one rounds to at least \<open>2 ^ 53\<close>.\<close>

lemma float_of_integer:
  assumes "0 < p"
  shows "p < 2 ^ 53 \<Longrightarrow> float_trunc (float_of p 1) = p \<and> float_whole (float_of p 1)"
    and "2 ^ 53 \<le> p \<Longrightarrow> 2 ^ 53 \<le> float_trunc (float_of p 1)"
proof -
  define b where "b = bit_size p"
  have bs: "2 ^ (b - 1) \<le> p" "p < 2 ^ b" "0 < b"
    using bit_size_bounds [OF assms] by (auto simp: b_def)
  define e where "e = int b - 54"
  have exp: "float_exponent p 1 = int b - 53"
  proof -
    consider "54 \<le> b" | "b < 54" by linarith
    then show ?thesis
    proof cases
      case 1
      then have sc: "scale p 1 (int b - 54) = (p, 2 ^ (b - 54))"
        by (auto simp: scale_def nat_diff_distrib)
      have "2 ^ 53 * 2 ^ (b - 54) = (2::nat) ^ (b - 1)"
        unfolding power_add [symmetric] using 1 by (intro arg_cong [of _ _ "(^) 2"]) simp
      with bs sc show ?thesis by (simp add: float_exponent_def bit_size_1 Let_def flip: b_def)
    next
      case 2
      then have sc: "scale p 1 (int b - 54) = (p * 2 ^ (54 - b), 1)"
        by (auto simp: scale_def nat_diff_distrib)
      have "2 ^ 53 = (2::nat) ^ (b - 1) * 2 ^ (54 - b)"
        unfolding power_add [symmetric] using 2 bs(3) by (intro arg_cong [of _ _ "(^) 2"]) simp
      also have "\<dots> \<le> p * 2 ^ (54 - b)" using bs by simp
      finally show ?thesis using sc by (simp add: float_exponent_def bit_size_1 Let_def flip: b_def)
    qed
  qed
  show "float_trunc (float_of p 1) = p \<and> float_whole (float_of p 1)" if "p < 2 ^ 53"
  proof -
    have "2 ^ (b - 1) < (2::nat) ^ 53" using bs(1) that by linarith
    then have "b - 1 < 53" by (simp only: power_strict_increasing_iff)
    then have le: "b \<le> 53" by simp
    define k where "k = 53 - b"
    have k: "int b - 53 = - int k" using le by (simp add: k_def)
    have "float_of p 1 = (p * 2 ^ k, - int k)"
      using assms exp k round_exact [of 1 "p * 2 ^ k"]
      by (cases "k = 0") (simp_all add: float_of_def scale_def)
    then show ?thesis by (cases "k = 0") (simp_all add: float_trunc_def float_whole_def)
  qed
  show "2 ^ 53 \<le> float_trunc (float_of p 1)" if "2 ^ 53 \<le> p"
  proof -
    have "(2::nat) ^ 53 < 2 ^ b" using bs(2) that by linarith
    then have ge: "53 < b" by (simp only: power_strict_increasing_iff)
    define k where "k = b - 53"
    have k: "int b - 53 = int k" using ge by (simp add: k_def)
    have f: "float_of p 1 = (round_half_even p (2 ^ k), int k)"
      using assms exp k by (simp add: float_of_def scale_def)
    have "2 ^ 52 * 2 ^ k = (2::nat) ^ (b - 1)" 
      unfolding power_add [symmetric] using ge by (intro arg_cong [of _ _ "(^) 2"]) (simp add: k_def)
    then have "2 ^ 52 \<le> p div 2 ^ k" using bs(1) by (simp add: less_eq_div_iff_mult_less_eq)
    then have "2 ^ 52 \<le> round_half_even p (2 ^ k)" by (simp add: round_half_even_def Let_def)
    moreover have "2 ^ 1 \<le> (2::nat) ^ k" using ge by (intro power_increasing) (auto simp: k_def)
    ultimately have "2 ^ 52 * 2 \<le> round_half_even p (2 ^ k) * 2 ^ k"
      by (intro mult_le_mono) auto
    then show ?thesis unfolding f by (simp add: float_trunc_def)
  qed
qed

lemma float_of_0 [simp]: "float_of 0 q = (0, 0)"
  by (simp add: float_of_def)

lemma literal_float_int:
  "literal_float (int_to_dec i) = (i < 0, float_of (nat \<bar>i\<bar>) 1)"
proof -
  have d: "list_all is_digit (nat_to_dec n)" for n using nat_to_dec_digits by (simp add: list_all_iff)
  have h: "hd (nat_to_dec n) \<noteq> CHR ''-''" for n using nat_to_dec_hd_digit not_minus_digit by blast
  have td: "take_digits (nat_to_dec n) = nat_to_dec n \<and> drop_digits (nat_to_dec n) = []" for n
    by (rule digits_whole) (use d in \<open>simp add: list_all_iff\<close>)
  have "num_parts (nat_to_dec n) = (False, n, 0)" for n
    using h [of n] td [of n] dec_to_nat_to_dec [of n]
    by (cases "nat_to_dec n") (auto simp: num_parts_def exp_value_def Let_def)
  moreover have "num_parts (CHR ''-'' # nat_to_dec n) = (True, n, 0)" for n
    using td [of n] by (simp add: num_parts_def exp_value_def Let_def)
  ultimately show ?thesis by (simp add: literal_float_def int_to_dec_def)
qed

end
