(* ===== verification/Request.thy ===== *)
theory Request
  imports Content JsonRpc Go_Float
begin

text \<open>
  The request a primitive handler gets (\<open>server/request.go\<close>) and how it reads its arguments
  (\<open>server/argpath.go\<close>): a key is a path into nested objects and lists, except that a name a resource
  template bound out of the URI is read under exactly that name.

  Arguments are those of a decoded message, so the reflective fallback for values built in Go is not
  modelled. Frames a handler sends go through an \<open>emitter\<close>, which acts on the frames written so far
  and reports whether the write succeeded.
\<close>

type_synonym wire = "bytes list"
type_synonym emitter = "bytes \<Rightarrow> wire \<Rightarrow> bool \<times> wire"

record prim_request =
  pr_args :: members
  pr_session :: bytes
  pr_meta :: members
  pr_uri :: bytes
  pr_emit :: "emitter option"
  pr_uri_vars :: "bytes list"

definition new_request :: "members \<Rightarrow> prim_request" where
  "new_request args = \<lparr>pr_args = args, pr_session = [], pr_meta = [], pr_uri = [], pr_emit = None,
     pr_uri_vars = []\<rparr>"

text \<open>\<open>merge\<close> and \<open>WithURIVariables\<close>.\<close>

definition merge_args :: "members \<Rightarrow> prim_request \<Rightarrow> prim_request" where
  "merge_args values r = r\<lparr>pr_args := fold (\<lambda>(k, v). put k v) values (pr_args r)\<rparr>"

definition with_uri_variables :: "(bytes \<times> bytes) list \<Rightarrow> prim_request \<Rightarrow> prim_request" where
  "with_uri_variables vars r =
     (if vars = [] then r
      else merge_args (map (\<lambda>(k, v). (k, AStr v)) vars)
             (r\<lparr>pr_uri_vars := map fst vars @ pr_uri_vars r\<rparr>))"

section \<open>Paths (argpath.go)\<close>

text \<open>\<open>strings.Cut(path, ".")\<close>, and \<open>strings.Split(field, ".")\<close>.\<close>

definition cut_dot :: "bytes \<Rightarrow> bytes \<times> bytes \<times> bool" where
  "cut_dot path =
     (case index_of path ''.'' of
        None \<Rightarrow> (path, [], False)
      | Some i \<Rightarrow> (take i path, drop (Suc i) path, True))"

lemma cut_dot_shorter [termination_simp]:
  "(seg, rest, True) = cut_dot path \<Longrightarrow> length rest < length path"
  by (auto simp: cut_dot_def split: option.splits dest: index_of_split)

function split_dots :: "bytes \<Rightarrow> bytes list" where
  "split_dots s = (case cut_dot s of (seg, rest, again) \<Rightarrow> if again then seg # split_dots rest else [seg])"
  by pat_completeness auto
termination by (relation "measure length") (auto dest: cut_dot_shorter)

declare split_dots.simps [simp del]

definition has_wildcard_segment :: "bytes \<Rightarrow> bool" where
  "has_wildcard_segment path = (path \<noteq> [] \<and> ''*'' \<in> set (split_dots path))"

definition path_index :: "bytes \<Rightarrow> nat \<Rightarrow> nat option" where
  "path_index segment len =
     (if segment = [] then None
      else if 1 < length segment \<and> hd segment = CHR ''0'' then None
      else if \<not> list_all is_digit segment then None
      else let i = dec_to_nat segment in if \<not> fits64 (int i) \<or> len \<le> i then None else Some i)"

definition path_member :: "any \<Rightarrow> bytes \<Rightarrow> any option" where
  "path_member target name =
     (case target of
        AMap ms \<Rightarrow> map_of ms name
      | AList vs \<Rightarrow> map_option (\<lambda>i. vs ! i) (path_index name (length vs))
      | _ \<Rightarrow> None)"

definition path_elements :: "any \<Rightarrow> any list option" where
  "path_elements target =
     (case target of
        AList vs \<Rightarrow> Some vs
      | AMap ms \<Rightarrow> Some (map snd (sort_key fst ms))
      | _ \<Rightarrow> None)"

definition collapse :: "any list \<Rightarrow> any list" where
  "collapse values = concat (map (\<lambda>v. case v of AList vs \<Rightarrow> vs | _ \<Rightarrow> []) values)"

text \<open>\<open>resolvePath\<close> and \<open>collect\<close>.\<close>

function resolve_path :: "any \<Rightarrow> bytes \<Rightarrow> any option"
and collect_path :: "any \<Rightarrow> bytes \<Rightarrow> bool \<Rightarrow> any option" where
  "resolve_path target path =
     (case cut_dot path of (segment, rest, again) \<Rightarrow>
        if segment = ''*'' then collect_path target rest again
        else
          (case path_member target segment of
             None \<Rightarrow> None
           | Some v \<Rightarrow> if \<not> again then Some v else resolve_path v rest))"
| "collect_path target rest again =
     (case path_elements target of
        None \<Rightarrow> None
      | Some es \<Rightarrow>
          (let out = (if \<not> again then es
                      else map (\<lambda>e. case resolve_path e rest of None \<Rightarrow> ANil | Some v \<Rightarrow> v) es)
           in Some (AList (if has_wildcard_segment rest then collapse out else out))))"
  by pat_completeness auto
termination
  by (relation "measure (\<lambda>x. case x of Inl (t, p) \<Rightarrow> 2 * length p + 1
        | Inr (t, r, a) \<Rightarrow> if a then 2 * length r + 2 else 0)")
    (auto dest!: cut_dot_shorter)

declare resolve_path.simps [simp del] collect_path.simps [simp del]

definition lookup_arg :: "prim_request \<Rightarrow> bytes \<Rightarrow> any option" where
  "lookup_arg r key =
     (if key \<in> set (pr_uri_vars r) then map_of (pr_args r) key
      else case resolve_path (AMap (pr_args r)) key of
        Some v \<Rightarrow> Some v
      | None \<Rightarrow> map_of (pr_args r) key)"

fun engine_walk :: "members \<Rightarrow> bytes list \<Rightarrow> any option" where
  "engine_walk current [] = None"
| "engine_walk current [part] = map_of current part"
| "engine_walk current (part # parts) =
     (case map_of current part of Some (AMap nxt) \<Rightarrow> engine_walk nxt parts | _ \<Rightarrow> None)"

definition engine_value :: "members \<Rightarrow> bytes \<Rightarrow> any option" where
  "engine_value args path = engine_walk args (split_dots path)"

text \<open>
  The reasons \<open>ruleFieldFault\<close> gives. The values compared are one and the same node of the
  arguments, or one of them is a string, so structural equality is \<open>reflect.DeepEqual\<close> there.
\<close>

definition wildcard_fault :: bytes where
  "wildcard_fault = ''a \"*\" segment collects every element for the accessors and names one member for the validation engine''"

definition engine_fault :: bytes where
  "engine_fault = ''the validation engine addresses members of nested objects only, so the rules would not see the value the accessors read''"

definition rule_field_fault :: "prim_request \<Rightarrow> bytes \<Rightarrow> bytes" where
  "rule_field_fault r path =
     (if has_wildcard_segment path then wildcard_fault
      else let ev = engine_value (pr_args r) path; av = lookup_arg r path
           in if (ev \<noteq> None) \<noteq> (av \<noteq> None) \<or> ev \<noteq> None \<and> ev \<noteq> av then engine_fault else [])"

text \<open>
  \<open>Validate\<close>: the faulty field it reports, or the outcome of the validation engine on the
  arguments, a parameter.
\<close>

definition validate_fields :: "bytes list \<Rightarrow> prim_request \<Rightarrow> (bytes \<times> bytes) option" where
  "validate_fields paths r =
     (case filter (\<lambda>f. rule_field_fault r f \<noteq> []) (sort paths) of
        [] \<Rightarrow> None
      | f # _ \<Rightarrow> Some (f, rule_field_fault r f))"

definition validate_request ::
  "(members \<Rightarrow> 'rules \<Rightarrow> 'failures option) \<Rightarrow> ('rules \<Rightarrow> bytes list) \<Rightarrow> 'rules \<Rightarrow> prim_request \<Rightarrow>
     ((bytes \<times> bytes) + 'failures) option" where
  "validate_request engine fields_of rules r =
     (case validate_fields (fields_of rules) r of
        Some fault \<Rightarrow> Some (Inl fault)
      | None \<Rightarrow> map_option Inr (engine (pr_args r) rules))"

section \<open>Typed accessors (request.go)\<close>

definition arg_has :: "prim_request \<Rightarrow> bytes \<Rightarrow> bool" where
  "arg_has r key = (lookup_arg r key \<noteq> None)"

definition arg_get :: "prim_request \<Rightarrow> bytes \<Rightarrow> any" where
  "arg_get r key = (case lookup_arg r key of None \<Rightarrow> ANil | Some v \<Rightarrow> v)"

definition arg_exact :: "prim_request \<Rightarrow> bytes \<Rightarrow> any option" where
  "arg_exact r name = map_of (pr_args r) name"

definition string_ok :: "prim_request \<Rightarrow> bytes \<Rightarrow> bytes option" where
  "string_ok r key = (case lookup_arg r key of Some (AStr s) \<Rightarrow> Some s | _ \<Rightarrow> None)"

definition bool_ok :: "prim_request \<Rightarrow> bytes \<Rightarrow> bool option" where
  "bool_ok r key = (case lookup_arg r key of Some (ABool b) \<Rightarrow> Some b | _ \<Rightarrow> None)"

definition max_safe_integer :: nat where
  "max_safe_integer = 2 ^ 53 - 1"

text \<open>
  \<open>floatToInt\<close>. For a whole number its truncation is its value; a number that is not whole is
  refused whatever its size.
\<close>

definition float_to_int :: "bool \<times> nat \<times> int \<Rightarrow> int option" where
  "float_to_int f =
     (case f of (neg, m) \<Rightarrow>
        if \<not> float_whole m \<or> max_safe_integer < float_trunc m then None
        else Some (apply_sign neg (float_trunc m)))"

definition to_int :: "any \<Rightarrow> int option" where
  "to_int v =
     (case v of ANum n \<Rightarrow> float_to_int (literal_float n) | AInt i \<Rightarrow> Some i | _ \<Rightarrow> None)"

definition int_ok :: "prim_request \<Rightarrow> bytes \<Rightarrow> int option" where
  "int_ok r key = Option.bind (lookup_arg r key) to_int"

section \<open>Progress (request.go)\<close>

record progress_update =
  pg_progress :: bytes
  pg_total :: bytes
  pg_message :: bytes

definition positive_literal :: "bytes \<Rightarrow> bool" where
  "positive_literal n = (let (neg, m, e) = num_parts n in \<not> neg \<and> 0 < m)"

text \<open>\<open>ReportProgress\<close>: whether it succeeded, and the frames written.\<close>

definition report_progress :: "prim_request \<Rightarrow> progress_update \<Rightarrow> wire \<Rightarrow> bool \<times> wire" where
  "report_progress r p w =
     (case pr_emit r of
        None \<Rightarrow> (True, w)
      | Some emit \<Rightarrow>
          (case map_of (pr_meta r) ''progressToken'' of
             None \<Rightarrow> (True, w)
           | Some tok \<Rightarrow>
               if tok = ANil then (True, w)
               else
                 (let params = put_if (pg_message p \<noteq> []) ''message'' (AStr (pg_message p))
                    (put_if (positive_literal (pg_total p)) ''total'' (ANum (pg_total p))
                      [(''progressToken'', tok), (''progress'', ANum (pg_progress p))])
                  in case Option.bind (new_notification ''notifications/progress'' (AMap params))
                            marshal_notification of
                       None \<Rightarrow> (False, w)
                     | Some msg \<Rightarrow> emit msg w)))"

section \<open>Correctness\<close>

lemma map_of_fold_put:
  "map_of (fold (\<lambda>(k, v). put k v) vs ms) = map_of ms ++ map_of (rev vs)"
  by (induction vs arbitrary: ms) (auto simp: fun_eq_iff map_add_def split: option.splits)

lemma wildcard_segments: "has_wildcard_segment f \<longleftrightarrow> ''*'' \<in> set (split_dots f)"
proof (cases "f = []")
  case True
  have "split_dots [] = [[]]" by (subst split_dots.simps) (simp add: cut_dot_def)
  with True show ?thesis by (simp add: has_wildcard_segment_def)
qed (simp add: has_wildcard_segment_def)

lemma split_dots_not_Nil [simp]: "split_dots s \<noteq> []"
  by (subst split_dots.simps) (auto split: prod.splits)

text \<open>What the validation engine reaches, the accessors reach.\<close>

lemma engine_walk_resolve:
  "engine_walk ms (split_dots f) = Some v \<Longrightarrow> ''*'' \<notin> set (split_dots f) \<Longrightarrow>
     resolve_path (AMap ms) f = Some v"
proof (induction f arbitrary: ms rule: split_dots.induct)
  case (1 f)
  obtain seg rest again where c: "cut_dot f = (seg, rest, again)" by (cases "cut_dot f") auto
  show ?case
  proof (cases again)
    case False
    then have "split_dots f = [seg]" using c by (subst split_dots.simps) simp
    with 1 c False show ?thesis by (subst resolve_path.simps) (simp add: path_member_def)
  next
    case True
    then have s: "split_dots f = seg # split_dots rest" using c by (subst split_dots.simps) simp
    obtain p ps where "split_dots rest = p # ps" by (cases "split_dots rest") auto
    with 1(2) s obtain nxt where n: "map_of ms seg = Some (AMap nxt)" "engine_walk nxt (split_dots rest) = Some v"
      by (auto split: option.splits any.splits)
    have "resolve_path (AMap nxt) rest = Some v"
      using 1(1) [OF c [symmetric] refl True n(2)] 1(3) s by simp
    moreover have "seg \<noteq> ''*''" using 1(3) s by auto
    ultimately show ?thesis using c True n by (subst resolve_path.simps) (simp add: path_member_def)
  qed
qed

lemma engine_value_lookup:
  "engine_value (pr_args r) f = Some v \<Longrightarrow> \<not> has_wildcard_segment f \<Longrightarrow> f \<notin> set (pr_uri_vars r) \<Longrightarrow>
     lookup_arg r f = Some v"
  by (simp add: engine_value_def lookup_arg_def wildcard_segments engine_walk_resolve)

lemma wildcard_fault_not_Nil [simp]: "wildcard_fault \<noteq> []" "engine_fault \<noteq> []"
  by (simp_all add: wildcard_fault_def engine_fault_def)

lemma rule_field_fault_Nil:
  "rule_field_fault r f = [] \<longleftrightarrow> \<not> has_wildcard_segment f \<and> engine_value (pr_args r) f = lookup_arg r f"
  by (auto simp: rule_field_fault_def Let_def)

lemma validate_fields_None:
  "validate_fields fs r = None \<Longrightarrow> f \<in> set fs \<Longrightarrow> rule_field_fault r f = []"
  by (auto simp: validate_fields_def filter_empty_conv split: list.splits)

text \<open>
  What a rule checked is what the handler reads: when \<open>Validate\<close> succeeds, every field it has
  a rule for reads back exactly the value the engine saw, or is absent for both. No rule on a member
  of nested objects is refused for nothing: a field without a wildcard that the URI did not bind is
  faulty only when the accessors find a value the engine cannot reach.
\<close>

theorem validated_value_read:
  "(validate_request engine fields_of rules r = None \<longrightarrow>
      (\<forall>f \<in> set (fields_of rules). lookup_arg r f = engine_value (pr_args r) f)
      \<and> engine (pr_args r) rules = None)
   \<and> (\<not> has_wildcard_segment f \<and> f \<notin> set (pr_uri_vars r) \<longrightarrow>
        (rule_field_fault r f \<noteq> [] \<longleftrightarrow> engine_value (pr_args r) f = None \<and> lookup_arg r f \<noteq> None))"
proof (intro conjI impI ballI)
  show "engine (pr_args r) rules = None" if "validate_request engine fields_of rules r = None"
    using that by (simp add: validate_request_def split: option.splits)
  show "lookup_arg r f = engine_value (pr_args r) f"
    if "validate_request engine fields_of rules r = None" "f \<in> set (fields_of rules)" for f
    using that validate_fields_None [of "fields_of rules" r f] rule_field_fault_Nil [of r f]
    by (simp add: validate_request_def split: option.splits)
  show "rule_field_fault r f \<noteq> [] \<longleftrightarrow> engine_value (pr_args r) f = None \<and> lookup_arg r f \<noteq> None"
    if "\<not> has_wildcard_segment f \<and> f \<notin> set (pr_uri_vars r)"
    using that engine_value_lookup [of r f] rule_field_fault_Nil [of r f]
    by (cases "engine_value (pr_args r) f"; cases "lookup_arg r f") auto
qed

definition nested_request :: prim_request where
  "nested_request = new_request [(''user'', AMap [(''id'', AStr ''7''), (''tags'', AList [AStr ''a''])])]"

theorem validated_value_read_witness:
  "lookup_arg nested_request ''user.id'' = engine_value (pr_args nested_request) ''user.id''
   \<and> rule_field_fault nested_request ''user.tags.0'' \<noteq> []"
proof -
  have v: "validate_request (\<lambda>args (rules :: unit). None :: unit option) (\<lambda>_. [''user.id'']) () nested_request = None"
    by code_simp
  have w: "\<not> has_wildcard_segment ''user.tags.0'' \<and> ''user.tags.0'' \<notin> set (pr_uri_vars nested_request)"
    and e: "engine_value (pr_args nested_request) ''user.tags.0'' = None
      \<and> lookup_arg nested_request ''user.tags.0'' \<noteq> None" by code_simp+
  note t = validated_value_read [of "\<lambda>args (rules :: unit). None :: unit option" "\<lambda>_. [''user.id'']" "()"
      nested_request "''user.tags.0''"]
  have "lookup_arg nested_request ''user.id'' = engine_value (pr_args nested_request) ''user.id''"
    using t v by simp
  moreover have "rule_field_fault nested_request ''user.tags.0'' \<noteq> []" using t w e by blast
  ultimately show ?thesis by simp
qed

text \<open>
  A variable the server bound out of the URI cannot be spoofed: whatever arguments the client
  sends, nested or named alike, reading the variable's name gives the bound value; every other
  argument is left as the client sent it.
\<close>

theorem uri_variable_wins:
  "distinct (map fst vars) \<Longrightarrow> map_of vars name = Some v \<Longrightarrow>
     lookup_arg (with_uri_variables vars (new_request args)) name = Some (AStr v)
     \<and> (\<forall>k. k \<notin> set (map fst vars) \<longrightarrow>
          arg_exact (with_uri_variables vars (new_request args)) k = map_of args k)"
proof -
  assume d: "distinct (map fst vars)" and v: "map_of vars name = Some v"
  then have ne: "vars \<noteq> []" by auto
  have m: "map_of (rev (map (\<lambda>(k, v). (k, AStr v)) vars)) = (\<lambda>k. map_option AStr (map_of vars k))"
  proof -
    have "distinct (map fst (map (\<lambda>(k, v). (k, AStr v)) vars))" using d by (simp add: comp_def split_beta)
    from map_of_rev_distinct [OF this] show ?thesis by (simp add: map_of_map_snd fun_eq_iff)
  qed
  have a: "map_of (pr_args (with_uri_variables vars (new_request args)))
      = map_of args ++ (\<lambda>k. map_option AStr (map_of vars k))"
    using ne by (simp add: with_uri_variables_def merge_args_def new_request_def map_of_fold_put m)
  have "name \<in> set (pr_uri_vars (with_uri_variables vars (new_request args)))"
    using ne map_of_SomeD [OF v] by (force simp: with_uri_variables_def merge_args_def)
  moreover have "k \<notin> set (map fst vars) \<Longrightarrow> map_of vars k = None" for k
    by (simp add: map_of_eq_None_iff)
  ultimately show ?thesis using a v by (simp add: lookup_arg_def arg_exact_def map_add_def)
qed

theorem uri_variable_wins_witness:
  "lookup_arg (with_uri_variables [(''user.id'', ''42'')]
     (new_request [(''user'', AMap [(''id'', AStr ''victim'')])])) ''user.id'' = Some (AStr ''42'')"
  using uri_variable_wins [of "[(''user.id'', ''42'')]" "''user.id''" "''42''"
      "[(''user'', AMap [(''id'', AStr ''victim'')])]"] by simp

text \<open>
  Integers are read exactly or not at all: of an argument written as an integer, \<open>IntOK\<close>
  returns that integer when its magnitude is below \<open>2 ^ 53\<close>, and refuses it from there on, where
  the decoded \<open>float64\<close> may be a neighbour.
\<close>

theorem int_ok_exact:
  "lookup_arg r key = Some (ANum (int_to_dec i)) \<Longrightarrow>
     int_ok r key = (if \<bar>i\<bar> < 2 ^ 53 then Some i else None)"
proof -
  assume l: "lookup_arg r key = Some (ANum (int_to_dec i))"
  have "to_int (ANum (int_to_dec i)) = (if \<bar>i\<bar> < 2 ^ 53 then Some i else None)"
  proof (cases "i = 0")
    case True
    then show ?thesis
      by (simp add: to_int_def literal_float_int float_to_int_def float_whole_def float_trunc_def apply_sign_def)
  next
    case False
    then have p: "0 < nat \<bar>i\<bar>" by simp
    have s: "apply_sign (i < 0) (nat \<bar>i\<bar>) = i" by (simp add: apply_sign_def)
    show ?thesis
    proof (cases "\<bar>i\<bar> < 2 ^ 53")
      case True
      then have "nat \<bar>i\<bar> < 2 ^ 53" by (simp add: nat_less_iff)
      with float_of_integer(1) [OF p] s True show ?thesis
        by (simp add: to_int_def literal_float_int float_to_int_def max_safe_integer_def)
    next
      case f: False
      then have "2 ^ 53 \<le> nat \<bar>i\<bar>" by (simp add: le_nat_iff)
      then have "max_safe_integer < float_trunc (float_of (nat \<bar>i\<bar>) 1)"
        using float_of_integer(2) [OF p] by (simp add: max_safe_integer_def)
      with f show ?thesis by (simp add: to_int_def literal_float_int float_to_int_def)
    qed
  qed
  then show ?thesis using l by (simp add: int_ok_def)
qed

theorem int_ok_exact_witness:
  "int_ok (new_request [(''n'', ANum ''-12'')]) ''n'' = Some (- 12)"
proof -
  have "lookup_arg (new_request [(''n'', ANum ''-12'')]) ''n'' = Some (ANum (int_to_dec (- 12)))"
    by code_simp
  from int_ok_exact [OF this] show ?thesis by simp
qed

text \<open>
  Not so for a fraction: a literal that is not a whole number can round to one, and \<open>IntOK\<close>
  then returns an integer the client did not send.
\<close>

theorem int_ok_fraction_accepted:
  "int_ok (new_request [(''n'', ANum ''4503599627370496.4'')]) ''n'' = Some 4503599627370496"
  by code_simp

end
