(* ===== verification/Primitives.thy ===== *)
theory Primitives
  imports Request
begin

text \<open>
  The primitives an application registers and what they return: responses (\<open>server/response.go\<close>),
  caching hints (\<open>server/caching.go\<close>), tools, resources and prompts with their metadata
  (\<open>server/primitive.go\<close>, \<open>schema/metadata.go\<close>), completions (\<open>server/completion.go\<close>) and the one
  path by which a tool is run (\<open>server/invoke.go\<close>).

  Application code is a parameter: the handlers are function fields, which take the frames written so
  far and return them with what they wrote. An optional interface a primitive implements
  (\<open>Titled\<close>, \<open>Cacheable\<close>, \<open>Completable\<close>, ...) is an option field. The rendered input schema of a tool
  is the map its \<open>Schema\<close> callback leaves.
\<close>

section \<open>Caching hints (caching.go)\<close>

definition cache_scope_private :: bytes where "cache_scope_private = ''private''"
definition cache_scope_public :: bytes where "cache_scope_public = ''public''"

text \<open>A lifetime is a \<open>time.Duration\<close>: nanoseconds.\<close>

record cache_hint =
  ch_ttl :: int
  ch_scope :: bytes

definition zero_hint :: cache_hint where
  "zero_hint = \<lparr>ch_ttl = 0, ch_scope = []\<rparr>"

definition millisecond :: int where "millisecond = 10 ^ 6"

definition ttl_ms :: "cache_hint \<Rightarrow> int" where
  "ttl_ms h = (if ch_ttl h < millisecond then 0 else ch_ttl h div millisecond)"

definition hint_scope :: "cache_hint \<Rightarrow> bytes" where
  "hint_scope h = (if ch_scope h = cache_scope_public then cache_scope_public else cache_scope_private)"

definition hint_members :: "cache_hint \<Rightarrow> bytes \<times> bytes" where
  "hint_members h = (int_to_dec (ttl_ms h), quoted (hint_scope h))"

definition apply_hint :: "cache_hint \<Rightarrow> members \<Rightarrow> members" where
  "apply_hint h result =
     put ''cacheScope'' (AStr (hint_scope h)) (put ''ttlMs'' (AInt (ttl_ms h)) result)"

section \<open>Errors and responses\<close>

text \<open>
  A Go error as the code tells errors apart: the \<open>*jsonrpc.Error\<close> it wraps, whether it wraps
  \<open>ErrValidation\<close>, and the field messages of the validation errors it wraps.
\<close>

record go_error =
  ge_rpc :: "rpc_error option"
  ge_validation :: bool
  ge_fields :: "(bytes \<times> bytes list) list"

definition plain_error :: go_error where
  "plain_error = \<lparr>ge_rpc = None, ge_validation = False, ge_fields = []\<rparr>"

record response =
  rp_items :: "content list"
  rp_role :: bytes
  rp_is_error :: bool
  rp_meta :: members
  rp_structured :: members

definition new_response :: "content list \<Rightarrow> response" where
  "new_response items = \<lparr>rp_items = items, rp_role = ''user'', rp_is_error = False, rp_meta = [],
     rp_structured = []\<rparr>"

definition text_response :: "bytes \<Rightarrow> response" where
  "text_response t = new_response [new_text t]"

definition error_response :: "bytes \<Rightarrow> response" where
  "error_response m = (text_response m)\<lparr>rp_is_error := True\<rparr>"

text \<open>\<open>JSON\<close>: the value as text and, when it is an object, as structured content too.\<close>

definition json_response :: "any \<Rightarrow> response option" where
  "json_response v =
     (case marshal v of
        None \<Rightarrow> None
      | Some b \<Rightarrow>
          Some (case unmarshal_any_map b of
                  Dec ms \<Rightarrow> (text_response b)\<lparr>rp_structured := ms\<rparr>
                | _ \<Rightarrow> text_response b))"

definition response_role :: "response \<Rightarrow> bytes" where
  "response_role r = (if rp_role r = [] then ''user'' else rp_role r)"

text \<open>A nil response.\<close>

definition response_items :: "response option \<Rightarrow> content list" where
  "response_items r = (case r of None \<Rightarrow> [] | Some x \<Rightarrow> rp_items x)"

definition response_is_error :: "response option \<Rightarrow> bool" where
  "response_is_error r = (case r of None \<Rightarrow> False | Some x \<Rightarrow> rp_is_error x)"

definition response_merge_meta :: "response option \<Rightarrow> members \<Rightarrow> members" where
  "response_merge_meta r base0 =
     (case r of
        None \<Rightarrow> base0
      | Some x \<Rightarrow>
          (let base = put_if (rp_meta x \<noteq> [] \<and> \<not> has_key base0 ''_meta'') ''_meta''
                        (AMap (rp_meta x)) base0
           in put_if (rp_structured x \<noteq> [] \<and> \<not> has_key base ''structuredContent'')
                ''structuredContent'' (AMap (rp_structured x)) base))"

section \<open>Primitives (primitive.go)\<close>

record tool_annotations =
  ta_read_only :: "bool option"
  ta_destructive :: "bool option"
  ta_idempotent :: "bool option"
  ta_open_world :: "bool option"

definition put_some :: "'a option \<Rightarrow> bytes \<Rightarrow> ('a \<Rightarrow> any) \<Rightarrow> members \<Rightarrow> members" where
  "put_some x k f ms = (case x of None \<Rightarrow> ms | Some v \<Rightarrow> put k (f v) ms)"

definition tool_annotations_map :: "tool_annotations \<Rightarrow> members" where
  "tool_annotations_map a =
     put_some (ta_open_world a) ''openWorldHint'' ABool
       (put_some (ta_idempotent a) ''idempotentHint'' ABool
         (put_some (ta_destructive a) ''destructiveHint'' ABool
           (put_some (ta_read_only a) ''readOnlyHint'' ABool [])))"

record resource_annotations =
  ra_audience :: "bytes list"
  ra_priority :: "bytes option"
  ra_last_modified :: bytes

definition resource_annotations_map :: "resource_annotations \<Rightarrow> members" where
  "resource_annotations_map a =
     put_if (ra_last_modified a \<noteq> []) ''lastModified'' (AStr (ra_last_modified a))
       (put_some (ra_priority a) ''priority'' ANum
         (put_if (ra_audience a \<noteq> []) ''audience'' (AList (map AStr (ra_audience a))) []))"

record prompt_argument =
  pa_name :: bytes
  pa_description :: bytes
  pa_required :: bool

definition prompt_argument_map :: "prompt_argument \<Rightarrow> members" where
  "prompt_argument_map a =
     [(''name'', AStr (pa_name a)), (''description'', AStr (pa_description a)),
      (''required'', ABool (pa_required a))]"

record completion_request =
  cq_argument :: bytes
  cq_value :: bytes
  cq_context :: "(bytes \<times> bytes) list"

record completion =
  cp_values :: "bytes list"
  cp_total :: int
  cp_has_more :: bool

type_synonym handler = "prim_request \<Rightarrow> wire \<Rightarrow> (go_error + response option) \<times> wire"
type_synonym completer = "completion_request \<Rightarrow> go_error + completion"

record tool =
  tl_name :: bytes
  tl_description :: bytes
  tl_title :: "bytes option"
  tl_input_schema :: members
  tl_output_schema :: "members option"
  tl_annotations :: "tool_annotations option"
  tl_handle :: handler

text \<open>\<open>rc_template\<close> is the template of a resource that implements \<open>URITemplate\<close>.\<close>

record resource =
  rc_name :: bytes
  rc_description :: bytes
  rc_uri :: bytes
  rc_mime :: bytes
  rc_title :: "bytes option"
  rc_template :: "bytes option"
  rc_annotations :: "resource_annotations option"
  rc_app_meta :: "members option"
  rc_cache_hint :: "cache_hint option"
  rc_complete :: "completer option"
  rc_read :: handler

definition uri_template :: "resource \<Rightarrow> bytes" where
  "uri_template r = (case rc_template r of None \<Rightarrow> [] | Some t \<Rightarrow> t)"

record prompt =
  pm_name :: bytes
  pm_description :: bytes
  pm_title :: "bytes option"
  pm_arguments :: "prompt_argument list"
  pm_complete :: "completer option"
  pm_handle :: handler

section \<open>Implementation metadata (schema/metadata.go)\<close>

record icon =
  ic_src :: bytes
  ic_mime :: bytes
  ic_sizes :: "bytes list"
  ic_theme :: bytes

definition icon_map :: "icon \<Rightarrow> members" where
  "icon_map i =
     put_if (ic_theme i \<noteq> []) ''theme'' (AStr (ic_theme i))
       (put_if (ic_sizes i \<noteq> []) ''sizes'' (AList (map AStr (ic_sizes i)))
         (put_if (ic_mime i \<noteq> []) ''mimeType'' (AStr (ic_mime i)) [(''src'', AStr (ic_src i))]))"

record implementation =
  im_name :: bytes
  im_version :: bytes
  im_title :: bytes
  im_description :: bytes
  im_icons :: "icon list"
  im_website :: bytes

definition implementation_map :: "implementation \<Rightarrow> members" where
  "implementation_map im =
     put_if (im_website im \<noteq> []) ''websiteUrl'' (AStr (im_website im))
       (put_if (im_icons im \<noteq> []) ''icons'' (AList (map (\<lambda>i. AMap (icon_map i)) (im_icons im)))
         (put_if (im_description im \<noteq> []) ''description'' (AStr (im_description im))
           (put_if (im_title im \<noteq> []) ''title'' (AStr (im_title im))
             [(''name'', AStr (im_name im)), (''version'', AStr (im_version im))])))"

section \<open>Completions (completion.go)\<close>

definition max_completion_values :: nat where "max_completion_values = 100"

text \<open>\<open>CompleteValues\<close>, over the framework's \<open>str.Lower\<close> and \<open>str.StartsWith\<close>.\<close>

definition complete_values ::
  "(bytes \<Rightarrow> bytes) \<Rightarrow> (bytes \<Rightarrow> bytes \<Rightarrow> bool) \<Rightarrow> bytes \<Rightarrow> bytes list \<Rightarrow> completion" where
  "complete_values lower starts_with value candidates =
     (let prefix = lower value;
          matched = filter (\<lambda>c. prefix = [] \<or> starts_with (lower c) prefix) candidates;
          total = length matched
      in if max_completion_values < total
         then \<lparr>cp_values = take max_completion_values matched, cp_total = int total, cp_has_more = True\<rparr>
         else \<lparr>cp_values = matched, cp_total = int total, cp_has_more = False\<rparr>)"

section \<open>Running a tool (invoke.go)\<close>

definition internal_error_message :: bytes where
  "internal_error_message = ''Something went wrong while processing the request.''"

definition unrepresentable_content_message :: bytes where
  "unrepresentable_content_message = ''The tool returned content that cannot be represented in a tool result.''"

text \<open>\<open>strings.Join(messages, " ")\<close>.\<close>

fun join_words :: "bytes list \<Rightarrow> bytes" where
  "join_words [] = []"
| "join_words [w] = w"
| "join_words (w # ws) = w @ CHR '' '' # join_words ws"

definition validation_message :: "go_error \<Rightarrow> bytes" where
  "validation_message e =
     (let messages = concat (map snd (sort_key fst (ge_fields e)))
      in if messages = [] then ''The given data was invalid.'' else join_words messages)"

text \<open>The shapes of all items, or \<open>None\<close> at the first that has none.\<close>

fun shapes :: "('c \<Rightarrow> members option) \<Rightarrow> 'c list \<Rightarrow> any list option" where
  "shapes f [] = Some []"
| "shapes f (c # cs) =
     (case f c of None \<Rightarrow> None | Some s \<Rightarrow> map_option (\<lambda>l. AMap s # l) (shapes f cs))"

definition tool_result :: "response option \<Rightarrow> members option" where
  "tool_result resp =
     (case resp of
        None \<Rightarrow> Some [(''content'', AList []), (''isError'', ABool False)]
      | Some r \<Rightarrow>
          (case shapes to_tool (rp_items r) of
             None \<Rightarrow> None
           | Some items \<Rightarrow>
               Some (response_merge_meta resp
                 [(''content'', AList items), (''isError'', ABool (rp_is_error r))])))"

text \<open>
  The end of \<open>InvokeTool\<close>: the result of a response, or of the fixed error response when an item has
  no tool shape.
\<close>

definition represent_result :: "response option \<Rightarrow> members" where
  "represent_result resp =
     (case tool_result resp of
        Some result \<Rightarrow> result
      | None \<Rightarrow> (case tool_result (Some (error_response unrepresentable_content_message)) of
                   Some result \<Rightarrow> result
                 | None \<Rightarrow> []))"

definition invoke_tool :: "tool \<Rightarrow> prim_request \<Rightarrow> wire \<Rightarrow> (go_error + members) \<times> wire" where
  "invoke_tool t req w =
     (case tl_handle t req w of
        (Inl e, w') \<Rightarrow>
          if \<not> ge_validation e then (Inl e, w')
          else (Inr (represent_result (Some (error_response (validation_message e)))), w')
      | (Inr resp, w') \<Rightarrow> (Inr (represent_result resp), w'))"

section \<open>Correctness\<close>

lemma shapes_None: "shapes f cs = None \<longleftrightarrow> \<not> list_all (\<lambda>c. f c \<noteq> None) cs"
  by (induction cs) (auto split: option.splits)

lemma shapes_Some: "list_all (\<lambda>c. f c \<noteq> None) cs \<Longrightarrow> shapes f cs = Some (map (\<lambda>c. AMap (the (f c))) cs)"
  by (induction cs) auto

lemma map_of_merge_meta:
  "k \<noteq> ''_meta'' \<Longrightarrow> k \<noteq> ''structuredContent'' \<Longrightarrow> map_of (response_merge_meta r base) k = map_of base k"
  by (auto simp: response_merge_meta_def Let_def map_of_put_if split: option.splits)

lemma merge_meta_extends:
  "map_of base k = Some v \<Longrightarrow> map_of (response_merge_meta r base) k = Some v"
  by (auto simp: response_merge_meta_def Let_def map_of_put_if has_key_def split: option.splits)

lemma distinct_merge_meta [simp]:
  "distinct (map fst base) \<Longrightarrow> distinct (map fst (response_merge_meta r base))"
  by (auto simp: response_merge_meta_def Let_def split: option.splits)

lemma tool_result_cases:
  "tool_result resp =
     (if list_all (\<lambda>c. to_tool c \<noteq> None) (response_items resp)
      then Some (response_merge_meta resp
        [(''content'', AList (map (\<lambda>c. AMap (the (to_tool c))) (response_items resp))),
         (''isError'', ABool (response_is_error resp))])
      else None)"
  using shapes_None [of to_tool "response_items resp"]
  by (auto simp: tool_result_def response_items_def response_is_error_def response_merge_meta_def
      shapes_Some split: option.splits)

lemma error_response_shape:
  "response_items (Some (error_response m)) = [new_text m]" "response_is_error (Some (error_response m))"
  "response_merge_meta (Some (error_response m)) base = base"
  "to_tool (new_text m) = Some [(''type'', AStr ''text''), (''text'', AStr m)]"
  by (simp_all add: response_items_def error_response_def text_response_def new_response_def
      response_is_error_def response_merge_meta_def put_if_def new_text_def to_tool_def text_array_def
      meta_merge_def merge_annotations_def annotations_map_def no_meta_def)

text \<open>The result of an error response: the message as its only item, flagged.\<close>

definition error_result :: "bytes \<Rightarrow> members" where
  "error_result m =
     [(''content'', AList [AMap [(''type'', AStr ''text''), (''text'', AStr m)]]), (''isError'', ABool True)]"

lemma tool_result_error: "tool_result (Some (error_response m)) = Some (error_result m)"
  unfolding tool_result_cases error_response_shape by (simp add: error_response_shape error_result_def)

lemma represent_result_error: "represent_result (Some (error_response m)) = error_result m"
  by (simp add: represent_result_def tool_result_error)

lemma represent_result_cases:
  "represent_result resp = (case tool_result resp of Some r \<Rightarrow> r | None \<Rightarrow> error_result unrepresentable_content_message)"
  by (simp add: represent_result_def tool_result_error split: option.splits)

text \<open>
  What running a tool gives. An error that is no validation failure is returned unchanged, for
  the caller to hide; a validation failure, and content with no tool shape, become a result flagged
  as an error whose only item is the client-facing message; any other response becomes a result with
  the shapes of its items in order and its own flag, which its metadata cannot overwrite. The frames
  are those the handler wrote.
\<close>

theorem invoke_tool_outcome:
  "snd (invoke_tool t req w) = snd (tl_handle t req w)
   \<and> (case fst (tl_handle t req w) of
        Inl e \<Rightarrow> fst (invoke_tool t req w)
          = (if ge_validation e then Inr (error_result (validation_message e)) else Inl e)
      | Inr resp \<Rightarrow>
          if list_all (\<lambda>c. to_tool c \<noteq> None) (response_items resp)
          then (\<exists>result. fst (invoke_tool t req w) = Inr result
            \<and> map_of result ''content'' = Some (AList (map (\<lambda>c. AMap (the (to_tool c))) (response_items resp)))
            \<and> map_of result ''isError'' = Some (ABool (response_is_error resp)))
          else fst (invoke_tool t req w) = Inr (error_result unrepresentable_content_message))"
proof (cases "tl_handle t req w")
  case (Pair r w')
  show ?thesis
  proof (cases r)
    case (Inl e)
    with Pair show ?thesis by (simp add: invoke_tool_def represent_result_error)
  next
    case (Inr resp)
    with Pair show ?thesis
      by (simp add: invoke_tool_def represent_result_cases tool_result_cases map_of_merge_meta)
  qed
qed

text \<open>
  A completion answers with the candidates the value is a prefix of, in order, at most a
  hundred of them; its total counts all that match, and it says there are more exactly when some
  were left out.
\<close>

theorem complete_values_capped:
  "let matched = filter (\<lambda>c. lower v = [] \<or> starts_with (lower c) (lower v)) cs;
       r = complete_values lower starts_with v cs
   in cp_values r = take 100 matched \<and> cp_total r = int (length matched)
      \<and> (cp_has_more r \<longleftrightarrow> length (cp_values r) < length matched)"
  by (auto simp: complete_values_def Let_def max_completion_values_def)

end
