(* ===== verification/Any_Laws.thy ===== *)
theory Any_Laws
  imports JsonRpc
begin

text \<open>
  What \<open>json.Marshal\<close> makes of a Go value: a well-formed value encodes to one JSON value, and an
  encoded map decodes to its members, each to the encoding of its value
  (\<open>unmarshal_marshal_members\<close>).
\<close>

section \<open>Well-formed values\<close>

text \<open>
  Numbers are JSON literals, raw tokens are JSON values, and the nesting is at most \<open>d\<close>.
\<close>

fun wf_any :: "nat \<Rightarrow> any \<Rightarrow> bool"
and wf_any_list :: "nat \<Rightarrow> any list \<Rightarrow> bool"
and wf_any_members :: "nat \<Rightarrow> (bytes \<times> any) list \<Rightarrow> bool" where
  "wf_any d ANil = True"
| "wf_any d (ABool b) = True"
| "wf_any d (ANum n) = (scan_number n = Some (n, []))"
| "wf_any d (AInt i) = True"
| "wf_any d (AStr s) = True"
| "wf_any d (AList vs) = (0 < d \<and> wf_any_list (d - 1) vs)"
| "wf_any d (AMap ms) = (0 < d \<and> wf_any_members (d - 1) ms)"
| "wf_any d (ARaw r) = (r = [] \<or> token d r)"
| "wf_any_list d [] = True"
| "wf_any_list d (a # vs) = (wf_any d a \<and> wf_any_list d vs)"
| "wf_any_members d [] = True"
| "wf_any_members d ((k, a) # ms) = (wf_any d a \<and> wf_any_members d ms)"

lemma wf_any_list_all: "wf_any_list d vs \<longleftrightarrow> (\<forall>a \<in> set vs. wf_any d a)"
  by (induction vs) auto

lemma wf_any_members_all: "wf_any_members d ms \<longleftrightarrow> (\<forall>(k, a) \<in> set ms. wf_any d a)"
  by (induction ms) auto

lemma str_body_high: "\<forall>c \<in> set u. 128 \<le> byte c \<Longrightarrow> str_body (u @ t) = str_body t"
proof (induction u)
  case (Cons a u)
  then have "a \<noteq> quote_char" "a \<noteq> backslash" "\<not> byte a < 32" by auto
  with Cons show ?case by simp
qed simp

lemma str_body_quoted: "str_body (quote_body s)"
proof (induction s rule: quote_body.induct)
  case (1 s)
  show ?case
  proof (cases s)
    case Nil
    then show ?thesis by (subst quote_body.simps) simp
  next
    case (Cons c r)
    show ?thesis
    proof (cases "byte c < 128")
      case True
      with 1 Cons show ?thesis by (subst quote_body.simps) simp
    next
      case False
      show ?thesis
      proof (cases "decode_rune s")
        case None
        with 1 Cons False show ?thesis
          by (subst quote_body.simps) simp
      next
        case (Some xn)
        then obtain x n where x: "decode_rune s = Some (x, n)" by (cases xn) auto
        have ih: "str_body (quote_body (drop (max n 1) s))" using 1(3) Cons False x by blast
        have "\<forall>c \<in> set (take n s). 128 \<le> byte c"
          using decode_rune_width [of s x n] x Cons False
          by (auto simp: take_Cons' cont_byte_def split: if_splits)
        with ih Cons False x show ?thesis
          by (subst quote_body.simps) (auto simp: str_body_high)
      qed
    qed
  qed
qed

lemma tree_of_wf:
  "wf_any d a \<Longrightarrow> d \<le> max_nesting \<Longrightarrow> \<exists>v. tree_of a = Some v \<and> wf_json d v"
  "wf_any_list d vs \<Longrightarrow> d \<le> max_nesting \<Longrightarrow> \<exists>l. tree_elems vs = Some l \<and> wf_elems d l"
  "wf_any_members d ms \<Longrightarrow> d \<le> max_nesting \<Longrightarrow>
     \<exists>l. tree_members ms = Some l \<and> (\<forall>(k, r, v) \<in> set l. wf_json d v)"
proof (induction a and vs and ms arbitrary: d and d and d rule: tree_of_tree_elems_tree_members.induct)
  case (4 i)
  then show ?case by (simp add: scan_number_int)
next
  case (5 s)
  then show ?case by (simp add: str_body_quoted)
next
  case (6 vs)
  then show ?case by fastforce
next
  case (7 ms)
  then have "0 < d" "wf_any_members (d - 1) ms" "d - 1 \<le> max_nesting" by auto
  with 7(1) obtain l where "tree_members ms = Some l" "\<forall>(k, r, v) \<in> set l. wf_json (d - 1) v"
    by blast
  with \<open>0 < d\<close> show ?case by (auto simp: wf_members_all str_body_quoted)
next
  case (8 r)
  show ?case
  proof (cases "r = []")
    case False
    with 8 have "token d r" by simp
    from tree_of_token [OF this 8(2)] show ?thesis by metis
  qed simp
next
  case (10 a vs)
  then show ?case by fastforce
next
  case (12 k a ms)
  then show ?case by fastforce
qed auto

lemma token_print: "wf_json d v \<Longrightarrow> token d (print_json v)"
proof -
  assume "wf_json d v"
  then have r: "reads d (print_json v) (canon v)" using reads_print(1) by simp
  have "pv (length (print_json v)) d (print_json v @ []) = Some (canon v, [])"
    by (rule readsD [OF r]) auto
  with r show ?thesis by (auto simp: token_def dest: pv_wf(1))
qed

lemma marshal_token:
  assumes "wf_any d a" "d \<le> max_nesting"
  obtains out where "marshal a = Some out" "token d out"
  using tree_of_wf(1) [OF assms] token_print by (auto simp: marshal_def)

lemma marshal_raw: "token d r \<Longrightarrow> d \<le> max_nesting \<Longrightarrow> marshal (ARaw r) = Some (compact r)"
  by (auto simp: marshal_def elim: tree_of_token)

section \<open>Encoded maps\<close>

lemma raw_members_raw_map:
  assumes "\<forall>(k, r, v) \<in> set l. str_body k \<and> reads d r v \<and> wf_json d v"
  shows "raw_map d (raw_members l)"
proof -
  have "utf8 k \<and> token d r" if kr: "(k, r) \<in> set (raw_members l)" for k r
  proof -
    from kr set_dedup [of "map (\<lambda>(k, r, v). (unquote k, r)) l"]
    obtain b v where "(b, r, v) \<in> set l" "k = unquote b" by (auto simp: raw_members_def)
    with assms show ?thesis by (auto simp: token_def utf8_unquote)
  qed
  then show ?thesis by (auto simp: raw_map_def) (simp add: raw_members_def)
qed

lemma token_members:
  assumes "token (Suc d) r" "Suc d \<le> max_nesting" "unmarshal_map r = Dec ms"
  shows "raw_map d ms"
proof -
  from assms(1,2) obtain v where v: "json_parse r = Some v" "reads (Suc d) r v" by (rule token_parse)
  with assms(3) obtain l where l: "v = JObj l" "ms = raw_members l"
    by (auto simp: unmarshal_map_def split: json.splits)
  have "pv (length r) (Suc d) (r @ []) = Some (JObj l, [])"
    using v(2) unfolding l(1) by (rule readsD) auto
  from pv_object [OF this] show ?thesis unfolding l(2) by (intro raw_members_raw_map) auto
qed

lemma tree_members_wf:
  assumes "wf_any_members d ms" "d \<le> max_nesting"
  shows "tree_members ms = Some (map (\<lambda>(k, a). (k, [], the (tree_of a))) ms)"
  using assms
proof (induction ms)
  case (Cons m ms)
  obtain k a where m: "m = (k, a)" by (cases m)
  with Cons.prems tree_of_wf(1) [of d a] obtain v where "tree_of a = Some v" by auto
  with m Cons show ?case by simp
qed simp

theorem unmarshal_marshal_members:
  assumes "distinct (map fst ms)" "\<forall>(k, a) \<in> set ms. utf8 k" "wf_any_members d ms" "d < max_nesting"
  obtains out ms' where "marshal (AMap ms) = Some out" "token (Suc d) out" "unmarshal_map out = Dec ms'"
    "\<And>k. map_of ms' k = Option.bind (map_of ms k) marshal" "raw_map d ms'"
proof -
  define tr where "tr = (\<lambda>a. the (tree_of a))"
  define ls :: "(bytes \<times> bytes \<times> json) list"
    where "ls = map (\<lambda>(k, a). (quote_body k, [], tr a)) (sort_key fst ms)"
  have wfm: "wf_any d a" if "(k, a) \<in> set ms" for k a
    using assms(3) that by (auto simp: wf_any_members_all)
  have tr: "tree_of a = Some (tr a)" "wf_json d (tr a)" if "(k, a) \<in> set ms" for k a
    using tree_of_wf(1) [OF wfm [OF that]] assms(4) by (auto simp: tr_def)
  have tree: "tree_of (AMap ms) = Some (JObj ls)"
  proof -
    have "sort_key fst (map (\<lambda>(k, a). (k, [] :: bytes, the (tree_of a))) ms)
        = map (\<lambda>(k, a). (k, [], the (tree_of a))) (sort_key fst ms)"
      by (rule sort_key_map [where f = "\<lambda>a. ([], the (tree_of a))"])
    moreover have "tree_members ms = Some (map (\<lambda>(k, a). (k, [], the (tree_of a))) ms)"
      using tree_members_wf [OF assms(3)] assms(4) by simp
    ultimately show ?thesis by (simp only: tree_of.simps option.map) (simp add: ls_def tr_def split_beta)
  qed
  have wf: "wf_json (Suc d) (JObj ls)"
    using tr(2) by (auto simp: wf_members_all ls_def str_body_quoted)
  have p: "json_parse (print_json (JObj ls)) = Some (JObj (canon_members ls))"
    using reads_parse [OF reads_print(1) [OF wf]] assms(4) by simp
  define out where "out = print_json (JObj ls)"
  have dec: "unmarshal_map out = Dec (raw_members (canon_members ls))"
    using p by (simp add: unmarshal_map_def out_def)
  have "raw_members (canon_members ls) = dedup (map (\<lambda>(k, a). (k, print_json (tr a))) (sort_key fst ms))"
  proof -
    have "map (\<lambda>(k, r, v). (unquote k, r)) (canon_members ls)
        = map (\<lambda>(k, a). (k, print_json (tr a))) (sort_key fst ms)"
      unfolding canon_members_map ls_def
      using assms(2) by (auto simp: comp_def split_beta unquote_html_escape str_body_quoted unquote_quote_body)
    then show ?thesis by (simp add: raw_members_def)
  qed
  moreover have "map_of (dedup (map (\<lambda>(k, a). (k, print_json (tr a))) (sort_key fst ms)))
      = map_of (map (\<lambda>(k, a). (k, print_json (tr a))) ms)"
  proof -
    have d: "distinct (map fst (map (\<lambda>(k, a). (k, print_json (tr a))) (sort_key fst ms)))"
      using distinct_sort_key [OF assms(1)] by (simp add: comp_def split_beta)
    have "map_of (map (\<lambda>(k, a). (k, print_json (tr a))) (sort_key fst ms))
        = map_of (map (\<lambda>(k, a). (k, print_json (tr a))) ms)"
      by (simp add: fun_eq_iff map_of_map_snd map_of_sort_key [OF assms(1)])
    then show ?thesis unfolding map_of_dedup map_of_rev_distinct [OF d] .
  qed
  ultimately have m: "map_of (raw_members (canon_members ls)) k
      = map_option (\<lambda>a. print_json (tr a)) (map_of ms k)" for k
    by (simp add: map_of_map_snd)
  have "map_of (raw_members (canon_members ls)) k = Option.bind (map_of ms k) marshal" for k
    using tr(1) [OF map_of_SomeD] by (cases "map_of ms k") (simp_all add: m marshal_def)
  moreover have "marshal (AMap ms) = Some out"
    unfolding marshal_def tree out_def by (simp only: option.map)
  moreover have t: "token (Suc d) out" using token_print [OF wf] by (simp add: out_def)
  moreover have "raw_map d (raw_members (canon_members ls))"
    by (rule token_members [OF t _ dec]) (use assms(4) in simp)
  ultimately show ?thesis using that dec by blast
qed

section \<open>Compacting\<close>

lemma html_escape_u_escaped: "x < 65536 \<Longrightarrow> html_escape (u_escaped x @ s) = u_escaped x @ html_escape s"
proof -
  assume x: "x < 65536"
  have "x div 4096 < 16" using x by simp
  then have "list_all hex_digit [hex_char (x div 4096), hex_char (x div 256 mod 16),
    hex_char (x div 16 mod 16), hex_char (x mod 16)]" by (simp add: hex_char_hex)
  from html_escape_u [OF this, of s] show ?thesis by (simp add: u_escaped_form)
qed

lemma html_escape_hd:
  assumes "html_escape s = c # r" "c \<noteq> backslash"
  shows "\<exists>t. s = c # t \<and> html_escape t = r"
proof (cases s)
  case (Cons a t)
  consider "html_char a" | "ls_ps (a # t)" | "\<not> html_char a" "\<not> ls_ps (a # t)" by blast
  then show ?thesis
  proof cases
    case 1
    with assms Cons show ?thesis by (auto simp: u_escaped_form)
  next
    case 2
    then obtain b u where "a # t = CHR 0xE2 # CHR 0x80 # b # u" "b = CHR 0xA8 \<or> b = CHR 0xA9"
      by (rule ls_ps_cases)
    with assms Cons html_escape_ls_ps [of b u] show ?thesis by (auto simp: u_escaped_form)
  next
    case 3
    with assms Cons show ?thesis by (simp add: html_escape_plain)
  qed
qed (use assms in simp)

lemma ls_ps_html_escape: "ls_ps (c # html_escape s) \<Longrightarrow> ls_ps (c # s)"
proof -
  assume "ls_ps (c # html_escape s)"
  then obtain b u where b: "c # html_escape s = CHR 0xE2 # CHR 0x80 # b # u" "b = CHR 0xA8 \<or> b = CHR 0xA9"
    by (rule ls_ps_cases)
  then obtain t where t: "s = CHR 0x80 # t" "html_escape t = b # u" using html_escape_hd [of s "CHR 0x80"] by auto
  then obtain t' where "t = b # t'" using html_escape_hd [of t b u] b(2) by auto
  with t b show ?thesis by (auto simp: ls_ps_def)
qed

lemma html_escape_idem: "html_escape (html_escape s) = html_escape s"
proof (induction s rule: length_induct)
  case (1 s)
  show ?case
  proof (cases s)
    case (Cons a t)
    consider "html_char a" | "ls_ps (a # t)" | "\<not> html_char a" "\<not> ls_ps (a # t)" by blast
    then show ?thesis
    proof cases
      case 1
      then have "byte a < 65536" by (auto simp: html_char_def)
      with 1 \<open>\<forall>ys. length ys < length s \<longrightarrow> _\<close> Cons show ?thesis by (simp add: html_escape_u_escaped)
    next
      case 2
      then obtain b u where b: "a # t = CHR 0xE2 # CHR 0x80 # b # u" "b = CHR 0xA8 \<or> b = CHR 0xA9"
        by (rule ls_ps_cases)
      then have "0x2000 + (byte b - 0x80) < 65536" by auto
      with b 1(1) Cons html_escape_ls_ps [OF b(2), of u] show ?thesis
        by (simp add: html_escape_u_escaped)
    next
      case 3
      then have "\<not> ls_ps (a # html_escape t)" using ls_ps_html_escape by blast
      with 3 1(1) Cons show ?thesis by (simp add: html_escape_plain)
    qed
  qed simp
qed

lemma print_canon [simp]:
  "print_json (canon v) = print_json v"
  "print_elems (canon_elems vs) = print_elems vs"
  "print_members (canon_members ms) = print_members ms"
  by (induction v and vs and ms rule: canon_canon_elems_canon_members.induct) (auto simp: html_escape_idem)

lemma compact_idem: "json_valid r \<Longrightarrow> compact (compact r) = compact r"
  by (auto simp: json_valid_def compact_parse compact_def [of "compact r"]) (simp add: compact_def)

text \<open>The members of a compacted object are its members, compacted.\<close>

lemma unmarshal_map_compact:
  assumes "unmarshal_map r = Dec ms"
  obtains ms' where "unmarshal_map (compact r) = Dec ms'" "map_of ms' = (\<lambda>k. map_option compact (map_of ms k))"
proof -
  obtain l where l: "json_parse r = Some (JObj l)" "ms = raw_members l"
    using assms by (auto simp: unmarshal_map_def split: option.splits json.splits)
  have "(unquote (html_escape k), print_json v) = (unquote k, compact q)" if "(k, q, v) \<in> set l" for k q v
  proof -
    have m: "str_body k" "reads (max_nesting - 1) q v" using json_parse_object [OF l(1)] that by auto
    have "json_parse q = Some v" by (rule reads_parse [OF m(2)]) simp
    with m show ?thesis by (simp add: unquote_html_escape compact_def)
  qed
  then have eq: "map (\<lambda>(k, q, v). (unquote k, q)) (canon_members l)
      = map (\<lambda>(k, q). (k, compact q)) (map (\<lambda>(k, q, v). (unquote k, q)) l)"
    unfolding canon_members_map by (auto simp: comp_def)
  have "unmarshal_map (compact r) = Dec (raw_members (canon_members l))"
    using compact_parse [OF l(1)] by (simp add: unmarshal_map_def)
  moreover have "map_of (raw_members (canon_members l)) k = map_option compact (map_of ms k)" for k
    unfolding raw_members_def eq l(2) map_of_dedup rev_map map_of_map_snd ..
  ultimately show ?thesis using that by (simp add: fun_eq_iff)
qed

end
