(* ===== verification/Protocol_Meta.thy ===== *)
theory Protocol_Meta
  imports JsonRpc
begin

text \<open>
  Protocol versions (\<open>server/protocol.go\<close>) and the per-request protocol metadata of the discovery
  handshake (\<open>server/meta.go\<close>): which handshake a request belongs to, what its \<open>_meta\<close> must state,
  and the description of a message a transport validates headers against (\<open>InspectMessage\<close>).

  A Go pair (value, ok) is an option, a \<open>map[string]json.RawMessage\<close> the association list of its
  members; the nil map has none.
\<close>

section \<open>Protocol versions (protocol.go)\<close>

definition protocol_v20260728 :: bytes where "protocol_v20260728 = ''2026-07-28''"
definition protocol_v20251125 :: bytes where "protocol_v20251125 = ''2025-11-25''"
definition protocol_v20250618 :: bytes where "protocol_v20250618 = ''2025-06-18''"

datatype handshake = HandshakeInitialize | HandshakeDiscovery

definition handshake_for :: "bytes \<Rightarrow> handshake" where
  "handshake_for v = (if v = protocol_v20260728 then HandshakeDiscovery else HandshakeInitialize)"

definition server_supported_versions :: "bytes list" where
  "server_supported_versions = [protocol_v20260728]"

definition initialize_supported_versions :: "bytes list" where
  "initialize_supported_versions = [protocol_v20251125, protocol_v20250618]"

definition contains_version :: "bytes list \<Rightarrow> bytes \<Rightarrow> bool" where
  "contains_version vs v = list_ex (\<lambda>x. x = v) vs"

definition add_version :: "bytes \<Rightarrow> bytes list \<Rightarrow> bytes list" where
  "add_version v vs = (if contains_version vs v then vs else vs @ [v])"

text \<open>The versions accepted in metadata, then those of initialize, each once.\<close>

definition spoken_protocol_versions :: "bytes list \<Rightarrow> bytes list" where
  "spoken_protocol_versions metadata =
     (let m = (if metadata = [] then server_supported_versions else metadata)
      in fold (\<lambda>l vs. fold add_version l vs) [m, initialize_supported_versions] [])"

section \<open>Metadata (meta.go)\<close>

definition meta_key_protocol_version :: bytes where
  "meta_key_protocol_version = ''io.modelcontextprotocol/protocolVersion''"
definition meta_key_client_capabilities :: bytes where
  "meta_key_client_capabilities = ''io.modelcontextprotocol/clientCapabilities''"
definition meta_key_server_info :: bytes where
  "meta_key_server_info = ''io.modelcontextprotocol/serverInfo''"

definition msg_unsupported_version :: bytes where
  "msg_unsupported_version = ''Unsupported protocol version''"

definition named_param_key :: "bytes \<Rightarrow> bytes" where
  "named_param_key m =
     (if m = ''tools/call'' \<or> m = ''prompts/get'' then ''name''
      else if m = ''resources/read'' then ''uri'' else '''')"

definition requires_protocol_meta :: "bytes \<Rightarrow> bool" where
  "requires_protocol_meta m = (m = ''server/discover'' \<or> m = ''subscriptions/listen'')"

definition predates_protocol_meta :: "bytes \<Rightarrow> bool" where
  "predates_protocol_meta m = (m = ''initialize'')"

definition reads_argument_bag :: "bytes \<Rightarrow> bool" where
  "reads_argument_bag m = (m = ''tools/call'' \<or> m = ''prompts/get'' \<or> m = ''resources/read'')"

definition object_members :: "bytes \<Rightarrow> envelope option" where
  "object_members raw =
     (let t = trim_space raw
      in if t = [] \<or> hd t \<noteq> CHR ''{'' then None
         else case unmarshal_map t of Dec ms \<Rightarrow> Some ms | _ \<Rightarrow> None)"

definition string_member :: "bytes \<Rightarrow> bytes option" where
  "string_member raw =
     (let t = trim_space raw
      in if t = [] \<or> hd t \<noteq> quote_char then None else unmarshal_string t)"

definition is_object_member :: "bytes \<Rightarrow> bool" where
  "is_object_member raw =
     (let t = trim_space raw
      in if t = [] then False
         else if hd t = CHR ''{'' then json_valid t
         else if hd t = CHR ''['' then
           json_valid t \<and> trim_space (take (length t - 2) (drop 1 t)) = []
         else False)"

text \<open>A member of a raw map, absent ones read as the nil token.\<close>

definition meta_from_params :: "envelope option \<Rightarrow> envelope option" where
  "meta_from_params params =
     (case params of
        None \<Rightarrow> None
      | Some ps \<Rightarrow> (case map_of ps ''_meta'' of None \<Rightarrow> None | Some raw \<Rightarrow> object_members raw))"

definition is_legacy_meta :: "envelope option \<Rightarrow> bool" where
  "is_legacy_meta meta =
     (case meta of
        None \<Rightarrow> True
      | Some m \<Rightarrow> if env_has m meta_key_protocol_version then False
                 else \<not> env_has m meta_key_client_capabilities)"

definition is_legacy_request :: "bytes \<Rightarrow> envelope option \<Rightarrow> bool" where
  "is_legacy_request m meta = (is_legacy_meta meta \<and> \<not> requires_protocol_meta m)"

definition request_meta :: "rpc_request \<Rightarrow> envelope option" where
  "request_meta r =
     (if rq_params r = [] then None
      else case object_members (rq_params r) of
             None \<Rightarrow> None
           | Some ps \<Rightarrow> meta_from_params (Some ps))"

text \<open>A member of possibly absent metadata.\<close>

definition meta_member :: "envelope option \<Rightarrow> bytes \<Rightarrow> bytes" where
  "meta_member meta k = (case meta of None \<Rightarrow> [] | Some m \<Rightarrow> env_raw m k)"

text \<open>\<open>MessageInfo\<close>: a version and a name are paired with whether the body states them.\<close>

record message_info =
  mi_id :: bytes
  mi_method :: bytes
  mi_legacy :: bool
  mi_version :: "bytes option"
  mi_name :: "bytes option"
  mi_requires_name :: bool

definition inspect_message :: "bytes \<Rightarrow> message_info option" where
  "inspect_message raw =
     (case unmarshal_map raw of
        DecErr \<Rightarrow> None
      | d \<Rightarrow>
          (let body = (case d of Dec ms \<Rightarrow> ms | _ \<Rightarrow> []);
               (i, ok) = id_unmarshal (env_raw body ''id'')
           in if \<not> ok \<or> \<not> is_valid_request_id i then None
              else case unmarshal_any (env_raw body ''method'') of
                Some (AStr m) \<Rightarrow>
                  (let params = (if env_has body ''params'' then object_members (env_raw body ''params'')
                                 else None);
                       meta = meta_from_params params;
                       key = named_param_key m
                   in Some \<lparr>mi_id = id_raw i, mi_method = m, mi_legacy = is_legacy_request m meta,
                            mi_version = string_member (meta_member meta meta_key_protocol_version),
                            mi_name = (if key \<noteq> '''' then string_member (meta_member params key) else None),
                            mi_requires_name = (key \<noteq> '''')\<rparr>)
              | _ \<Rightarrow> None))"

definition unsupported_protocol_version_error :: "bytes list \<Rightarrow> bytes \<Rightarrow> rpc_error" where
  "unsupported_protocol_version_error metadata requested =
     with_data (new_error code_unsupported_version msg_unsupported_version)
       (AMap [(''supported'', AList (map AStr (spoken_protocol_versions metadata))),
              (''requested'', AStr requested)])"

definition handshake_version_in_meta_message :: "bytes \<Rightarrow> bytes" where
  "handshake_version_in_meta_message v =
     ''Invalid params: The protocol version ['' @ v
     @ ''] is negotiated by the initialize handshake and cannot be declared in [''
     @ meta_key_protocol_version @ ''].''"

definition missing_meta_message :: "bytes \<Rightarrow> bytes" where
  "missing_meta_message k =
     ''Invalid params: The request [_meta] is missing the required ['' @ k @ ''] member.''"

definition missing_protocol_version_error :: rpc_error where
  "missing_protocol_version_error =
     new_error code_invalid_params (missing_meta_message meta_key_protocol_version)"

text \<open>
  \<open>validateProtocolMeta\<close>, with the versions the server accepts in metadata
  (\<open>Context.SupportedProtocolVersions\<close>); \<open>None\<close> is no error.
\<close>

definition validate_protocol_meta :: "bytes list \<Rightarrow> rpc_request \<Rightarrow> rpc_error option" where
  "validate_protocol_meta accepted r =
     (let meta = request_meta r
      in if is_legacy_request (rq_method r) meta then None
         else case string_member (meta_member meta meta_key_protocol_version) of
           None \<Rightarrow> Some (new_error code_invalid_params (missing_meta_message meta_key_protocol_version))
         | Some requested \<Rightarrow>
             if \<not> is_object_member (meta_member meta meta_key_client_capabilities)
             then Some (new_error code_invalid_params (missing_meta_message meta_key_client_capabilities))
             else if contains_version accepted requested then None
             else if contains_version initialize_supported_versions requested
             then Some (new_error code_invalid_params (handshake_version_in_meta_message requested))
             else Some (unsupported_protocol_version_error accepted requested))"

definition request_protocol_version :: "rpc_request \<Rightarrow> bytes option" where
  "request_protocol_version r =
     (case request_meta r of
        None \<Rightarrow> None
      | Some m \<Rightarrow> string_member (env_raw m meta_key_protocol_version))"

definition msg_invalid_arguments :: bytes where
  "msg_invalid_arguments = ''Invalid params: The [arguments] member must be an object.''"

definition validate_arguments :: "rpc_request \<Rightarrow> rpc_error option" where
  "validate_arguments r =
     (if \<not> reads_argument_bag (rq_method r) \<or> rq_params r = [] then None
      else case object_members (rq_params r) of
        None \<Rightarrow> None
      | Some ps \<Rightarrow>
          (case map_of ps ''arguments'' of
             None \<Rightarrow> None
           | Some v \<Rightarrow> if is_object_member v then None
                      else Some (new_error code_invalid_params msg_invalid_arguments)))"

section \<open>Supported versions\<close>

lemma contains_version_iff [simp]: "contains_version vs v \<longleftrightarrow> v \<in> set vs"
  by (auto simp: contains_version_def list_ex_iff)

lemma fold_add_version:
  "set (fold add_version l vs) = set vs \<union> set l"
  "distinct vs \<Longrightarrow> distinct (fold add_version l vs)"
  "\<exists>r. fold add_version l vs = vs @ r"
proof (induction l arbitrary: vs)
  case (Cons v l)
  { case 1 show ?case using Cons(1) by (auto simp: add_version_def) }
  { case 2 then show ?case using Cons(2) by (auto simp: add_version_def) }
  { case 3 show ?case using Cons(3) [of vs] Cons(3) [of "vs @ [v]"] by (auto simp: add_version_def) }
qed simp_all

lemma spoken_versions_set:
  "set (spoken_protocol_versions ms) = set (if ms = [] then server_supported_versions else ms)
     \<union> set initialize_supported_versions"
  by (auto simp: spoken_protocol_versions_def Let_def fold_add_version)

lemma spoken_versions_distinct: "distinct (spoken_protocol_versions ms)"
  by (auto simp: spoken_protocol_versions_def Let_def intro!: fold_add_version(2))

lemma spoken_versions_prefix:
  assumes "distinct ms" "ms \<noteq> []"
  shows "\<exists>r. spoken_protocol_versions ms = ms @ r"
proof -
  have "fold add_version l vs = vs @ l" if "distinct (vs @ l)" for l vs
    using that by (induction l arbitrary: vs) (auto simp: add_version_def)
  from this [of "[]" ms] assms show ?thesis
    using fold_add_version(3) [of initialize_supported_versions ms]
    by (simp add: spoken_protocol_versions_def Let_def)
qed

section \<open>Members as JSON values\<close>

lemma trim_token: "token d r \<Longrightarrow> trim_space r = r \<and> r \<noteq> []"
  by (auto simp: token_def dest: token_tight reads_hd)

lemma token_hd:
  assumes "token d r" "d \<le> max_nesting"
  obtains v where "json_parse r = Some v" "hd r = CHR ''{'' \<longleftrightarrow> (\<exists>ms. v = JObj ms)"
    "hd r = quote_char \<longleftrightarrow> (\<exists>b. v = JStr b)"
proof -
  from assms obtain v where v: "json_parse r = Some v" "reads d r v" by (rule token_parse)
  have n: "hd n \<noteq> CHR ''{'' \<and> hd n \<noteq> quote_char" if "scan_number n = Some (n, [])" for n
    using scan_number_local(3) [OF that] by (auto simp: is_digit_def)
  show ?thesis
    by (rule that [OF v(1)]; use reads_shape [OF v(2)] n in \<open>cases v; auto simp: quoted_def split: if_splits\<close>)
qed

lemma object_members_token:
  assumes "token d r" "d \<le> max_nesting"
  shows "object_members r = (case json_parse r of Some (JObj ms) \<Rightarrow> Some (raw_members ms) | _ \<Rightarrow> None)"
proof -
  from assms obtain v where "json_parse r = Some v" "hd r = CHR ''{'' \<longleftrightarrow> (\<exists>ms. v = JObj ms)"
    by (rule token_hd)
  then show ?thesis
    using trim_token [OF assms(1)]
    by (auto simp: object_members_def unmarshal_map_def split: json.splits)
qed

lemma object_members_raw: "object_members r = Some ms \<Longrightarrow> raw_map (max_nesting - 1) ms"
  by (auto simp: object_members_def Let_def split: if_splits decoded.splits dest: unmarshal_map_raw)

lemma object_members_Nil [simp]: "object_members [] = None"
  by (simp add: object_members_def)

lemma string_member_token:
  assumes "token d r" "d \<le> max_nesting"
  shows "string_member r = (case json_parse r of Some (JStr b) \<Rightarrow> Some (unquote b) | _ \<Rightarrow> None)"
proof -
  from assms obtain v where "json_parse r = Some v" "hd r = quote_char \<longleftrightarrow> (\<exists>b. v = JStr b)"
    by (rule token_hd)
  then show ?thesis
    using trim_token [OF assms(1)]
    by (auto simp: string_member_def unmarshal_string_def split: json.splits)
qed

lemma string_member_Nil [simp]: "string_member [] = None"
  by (simp add: string_member_def)

lemma is_object_member_params: "is_object_member r = is_params_object r"
  by (cases "trim_space r") (auto simp: is_object_member_def is_params_object_def Let_def)

lemma is_object_member_Nil [simp]: "\<not> is_object_member []"
  by (simp add: is_object_member_def)

text \<open>The value of a member of an object given by its raw members.\<close>

lemma raw_map_string:
  assumes "raw_map (max_nesting - 1) ms"
  shows "string_member (env_raw ms k) =
    (case member_value ms k of Some (JStr b) \<Rightarrow> Some (unquote b) | _ \<Rightarrow> None)"
proof (cases "map_of ms k")
  case (Some r)
  from string_member_token [OF raw_map_member [OF assms Some]] Some show ?thesis
    by (simp add: env_raw_def member_value_def)
qed (simp add: env_raw_def member_value_def)

lemma raw_map_object:
  assumes "raw_map (max_nesting - 1) ms"
  shows "is_object_member (env_raw ms k) \<longleftrightarrow> (\<exists>v. member_value ms k = Some v \<and> params_value v)"
proof (cases "map_of ms k")
  case (Some r)
  have t: "token (max_nesting - 1) r" by (rule raw_map_member [OF assms Some])
  then obtain v where "reads (max_nesting - 1) r v" "json_parse r = Some v" by (rule token_parse) simp
  with params_object_reads [OF this(1)] Some show ?thesis
    by (simp add: env_raw_def member_value_def is_object_member_params)
qed (simp add: env_raw_def member_value_def)

lemma meta_raw:
  "meta_from_params (Some ps) = Some m \<Longrightarrow> raw_map (max_nesting - 1) m"
  by (auto simp: meta_from_params_def split: option.splits dest: object_members_raw)

lemma request_meta_raw: "request_meta r = Some m \<Longrightarrow> raw_map (max_nesting - 1) m"
  by (auto simp: request_meta_def split: if_splits option.splits dest: meta_raw)

text \<open>
  The \<open>_meta\<close> object of a request as a JSON value: the members a request declares, by name.
\<close>

definition declared :: "rpc_request \<Rightarrow> bytes \<Rightarrow> json option" where
  "declared r k = (case request_meta r of None \<Rightarrow> None | Some m \<Rightarrow> member_value m k)"

lemma member_value_None: "raw_map (max_nesting - 1) ms \<Longrightarrow> member_value ms k = None \<longleftrightarrow> \<not> env_has ms k"
  by (auto simp: member_value_def env_has_def split: bind_splits
      dest!: raw_map_member elim!: token_parse)

lemma legacy_declared:
  "is_legacy_meta (request_meta r) \<longleftrightarrow>
     declared r meta_key_protocol_version = None \<and> declared r meta_key_client_capabilities = None"
proof (cases "request_meta r")
  case (Some m)
  from member_value_None [OF request_meta_raw [OF Some]] Some show ?thesis
    by (simp add: is_legacy_meta_def declared_def)
qed (simp add: is_legacy_meta_def declared_def)

lemma declared_string:
  "string_member (meta_member (request_meta r) k) =
     (case declared r k of Some (JStr b) \<Rightarrow> Some (unquote b) | _ \<Rightarrow> None)"
proof (cases "request_meta r")
  case (Some m)
  from raw_map_string [OF request_meta_raw [OF Some]] Some show ?thesis
    by (simp add: meta_member_def declared_def)
qed (simp add: meta_member_def declared_def)

lemma declared_object:
  "is_object_member (meta_member (request_meta r) k) \<longleftrightarrow> (\<exists>v. declared r k = Some v \<and> params_value v)"
proof (cases "request_meta r")
  case (Some m)
  from raw_map_object [OF request_meta_raw [OF Some]] Some show ?thesis
    by (simp add: meta_member_def declared_def)
qed (simp add: meta_member_def declared_def)

section \<open>The rules of the metadata\<close>

text \<open>
  C3. \<open>validateProtocolMeta\<close> lets through exactly the requests the two handshakes allow: one that
  declares neither the protocol version nor the client capabilities and calls a method an older
  client can call, or one that declares a string version the server accepts in metadata and an
  object (or the empty array) of client capabilities.
\<close>

theorem validate_protocol_meta_accepts:
  "validate_protocol_meta accepted r = None \<longleftrightarrow>
     (declared r meta_key_protocol_version = None \<and> declared r meta_key_client_capabilities = None
        \<and> \<not> requires_protocol_meta (rq_method r))
     \<or> (\<exists>b v. declared r meta_key_protocol_version = Some (JStr b) \<and> unquote b \<in> set accepted
          \<and> declared r meta_key_client_capabilities = Some v \<and> params_value v)"
  unfolding validate_protocol_meta_def Let_def is_legacy_request_def legacy_declared declared_string
    declared_object
  by (auto split: option.splits json.splits)

text \<open>
  An unsupported-version refusal is truthful: it names the version the request declares, lists
  every version the server speaks, each once, and that list does not contain the refused version.
\<close>

theorem unsupported_version_truthful:
  "validate_protocol_meta accepted r = Some e \<Longrightarrow> err_code e = code_unsupported_version \<Longrightarrow>
   accepted \<noteq> [] \<Longrightarrow>
     \<exists>b vs. declared r meta_key_protocol_version = Some (JStr b) \<and> unquote b \<notin> set vs \<and> distinct vs
       \<and> set vs = set accepted \<union> set initialize_supported_versions
       \<and> err_data e = AMap [(''supported'', AList (map AStr vs)), (''requested'', AStr (unquote b))]"
proof -
  assume e: "validate_protocol_meta accepted r = Some e" "err_code e = code_unsupported_version"
    and a: "accepted \<noteq> []"
  then obtain b where b: "declared r meta_key_protocol_version = Some (JStr b)"
    "unquote b \<notin> set accepted" "unquote b \<notin> set initialize_supported_versions"
    "e = unsupported_protocol_version_error accepted (unquote b)"
    unfolding validate_protocol_meta_def Let_def declared_string
    by (auto simp: new_error_def code_defs split: if_splits option.splits json.splits)
  have s: "set (spoken_protocol_versions accepted) = set accepted \<union> set initialize_supported_versions"
    using a by (simp add: spoken_versions_set)
  show ?thesis
    using b s spoken_versions_distinct [of accepted]
    by (intro exI [of _ b] exI [of _ "spoken_protocol_versions accepted"])
      (auto simp: unsupported_protocol_version_error_def with_data_def)
qed

text \<open>The named target of a request, as its params state it.\<close>

definition named_target :: "rpc_request \<Rightarrow> json option" where
  "named_target r =
     (if named_param_key (rq_method r) = [] then None
      else case object_members (rq_params r) of
        None \<Rightarrow> None
      | Some ps \<Rightarrow> member_value ps (named_param_key (rq_method r)))"

lemma inspect_envelope:
  assumes env: "unmarshal_map data = Dec ms" and r: "request_object ms r"
  shows "inspect_message data = Some
    \<lparr>mi_id = id_raw (rq_id r), mi_method = rq_method r,
     mi_legacy = is_legacy_request (rq_method r) (request_meta r),
     mi_version = string_member (meta_member (request_meta r) meta_key_protocol_version),
     mi_name = (if named_param_key (rq_method r) \<noteq> []
                then string_member (meta_member (object_members (rq_params r)) (named_param_key (rq_method r)))
                else None),
     mi_requires_name = (named_param_key (rq_method r) \<noteq> [])\<rparr>"
proof -
  have su: "strict_unmarshal data = Some ms" using env by (simp add: strict_unmarshal_def)
  have i: "map_of ms ''id'' = Some (id_raw (rq_id r))" using r by (simp add: request_object_def)
  obtain v where v: "json_parse (id_raw (rq_id r)) = Some v" "env_raw ms ''id'' = id_raw (rq_id r)"
    "member_value ms ''id'' = Some v" "reads (max_nesting - 1) (id_raw (rq_id r)) v"
    using envelope_member [OF su i] .
  have valid: "is_valid_request_id (Id (id_raw (rq_id r)))" "json_valid (id_raw (rq_id r))"
    using r v valid_id_reads [OF v(4)] by (auto simp: request_object_def json_valid_def)
  obtain b where b: "member_value ms ''method'' = Some (JStr b)" "unquote b = rq_method r"
    using r by (auto simp: request_object_def)
  then have m: "unmarshal_any (env_raw ms ''method'') = Some (AStr (rq_method r))"
    by (auto simp: member_value_def env_raw_def unmarshal_any_def split: bind_splits)
  have p: "(if env_has ms ''params'' then object_members (env_raw ms ''params'') else None)
      = object_members (rq_params r)" "env_raw ms ''params'' = rq_params r"
    using r by (auto simp: request_object_def env_has_def env_raw_def split: option.splits)
  have meta: "meta_from_params (object_members (rq_params r)) = request_meta r"
    by (auto simp: request_meta_def meta_from_params_def split: option.splits)
  show ?thesis
    using valid m v(2) unfolding inspect_message_def env decoded.case Let_def p(1) meta
    by (simp add: id_unmarshal_def)
qed

text \<open>
  The transport and the server read a message alike: whatever \<open>ParseRequest\<close> accepts,
  \<open>InspectMessage\<close> describes with the same id token and method, calls legacy exactly when the
  metadata check exempts it, and gives the protocol version and named target its params state as
  strings.
\<close>

theorem inspect_agrees:
  "parse_request data = Inr r \<Longrightarrow>
     \<exists>info. inspect_message data = Some info \<and> mi_id info = id_raw (rq_id r) \<and> mi_method info = rq_method r
       \<and> mi_legacy info = (declared r meta_key_protocol_version = None
           \<and> declared r meta_key_client_capabilities = None \<and> \<not> requires_protocol_meta (rq_method r))
       \<and> mi_version info = request_protocol_version r
       \<and> mi_name info = (case named_target r of Some (JStr b) \<Rightarrow> Some (unquote b) | _ \<Rightarrow> None)"
proof -
  assume "parse_request data = Inr r"
  then obtain ms where "unmarshal_map data = Dec ms" "request_object ms r"
    using parse_request_iff by blast
  note info = inspect_envelope [OF this]
  have v: "string_member (meta_member (request_meta r) meta_key_protocol_version) = request_protocol_version r"
    by (simp add: meta_member_def request_protocol_version_def split: option.splits)
  have n: "(if named_param_key (rq_method r) \<noteq> []
      then string_member (meta_member (object_members (rq_params r)) (named_param_key (rq_method r))) else None)
      = (case named_target r of Some (JStr b) \<Rightarrow> Some (unquote b) | _ \<Rightarrow> None)"
  proof (cases "object_members (rq_params r)")
    case (Some ps)
    from raw_map_string [OF object_members_raw [OF Some]] Some show ?thesis
      by (simp add: named_target_def meta_member_def)
  qed (simp add: named_target_def meta_member_def)
  show ?thesis
    unfolding info by (simp add: v n is_legacy_request_def legacy_declared)
qed

section \<open>Concrete requests\<close>

definition outdated_request :: rpc_request where
  "outdated_request = \<lparr>rq_id = Id ''1'', rq_method = ''tools/list'', rq_params =
     ''{\"_meta\":{\"io.modelcontextprotocol/protocolVersion\":\"1999-01-01\",\"io.modelcontextprotocol/clientCapabilities\":{}}}''\<rparr>"

theorem unsupported_version_truthful_witness:
  "\<exists>b vs. declared outdated_request meta_key_protocol_version = Some (JStr b) \<and> unquote b \<notin> set vs
     \<and> distinct vs \<and> set vs = set server_supported_versions \<union> set initialize_supported_versions
     \<and> err_data (unsupported_protocol_version_error server_supported_versions ''1999-01-01'')
         = AMap [(''supported'', AList (map AStr vs)), (''requested'', AStr (unquote b))]"
proof (rule unsupported_version_truthful)
  show "validate_protocol_meta server_supported_versions outdated_request
      = Some (unsupported_protocol_version_error server_supported_versions ''1999-01-01'')" by code_simp
  show "err_code (unsupported_protocol_version_error server_supported_versions ''1999-01-01'')
      = code_unsupported_version"
    by (simp add: unsupported_protocol_version_error_def with_data_def new_error_def)
  show "server_supported_versions \<noteq> []" by (simp add: server_supported_versions_def)
qed

theorem inspect_agrees_witness:
  "\<exists>info. inspect_message ''{\"jsonrpc\":\"2.0\",\"id\":1,\"method\":\"tools/call\",\"params\":{\"name\":\"x\"}}''
       = Some info
     \<and> mi_id info = ''1'' \<and> mi_method info = ''tools/call''"
proof -
  have "parse_request ''{\"jsonrpc\":\"2.0\",\"id\":1,\"method\":\"tools/call\",\"params\":{\"name\":\"x\"}}''
      = Inr \<lparr>rq_id = Id ''1'', rq_method = ''tools/call'', rq_params = ''{\"name\":\"x\"}''\<rparr>" by code_simp
  from inspect_agrees [OF this] show ?thesis by auto
qed

end
