(* ===== verification/Uri_Template.thy ===== *)
theory Uri_Template
  imports Prelude
begin

text \<open>
  Matching a concrete URI against a template with \<open>{name}\<close> placeholders
  (\<open>server/uritemplate.go\<close>). The variables are the association list of a Go map: assigning a name
  again replaces its value. A match is sound: putting the captured values back into the template
  gives the URI.
\<close>

section \<open>Templates (uritemplate.go)\<close>

text \<open>\<open>parseTemplate\<close>: the literals around the placeholders and the names between them.\<close>

function parse_template :: "bytes \<Rightarrow> bytes list \<times> bytes list" where
  "parse_template rest =
     (case index_of rest ''{'' of
        None \<Rightarrow> ([rest], [])
      | Some op \<Rightarrow>
          (case index_of (drop op rest) ''}'' of
             None \<Rightarrow> ([rest], [])
           | Some cl \<Rightarrow>
               (let (ls, ns) = parse_template (drop (op + cl + 1) rest)
                in (take op rest # ls, take (cl - 1) (drop (op + 1) rest) # ns))))"
  by pat_completeness auto
termination
proof (relation "measure length", goal_cases)
  case (2 rest op cl)
  then have "op < length rest" using index_of_split [of rest "''{''" op] by auto
  then show ?case by simp
qed simp

declare parse_template.simps [simp del]

text \<open>
  The loop of \<open>MatchURITemplate\<close> over the placeholders: the literals that follow them, the rest of
  the URI and the variables captured so far.
\<close>

fun match_names :: "bytes list \<Rightarrow> bytes list \<Rightarrow> bytes \<Rightarrow> (bytes \<times> bytes) list \<Rightarrow> (bytes \<times> bytes) list option" where
  "match_names [] ls rest vars = Some vars"
| "match_names [name] (l # ls) rest vars =
     (if l \<noteq> [] then
        (case last_index_of rest l of
           None \<Rightarrow> None
         | Some i \<Rightarrow>
             if i + length l \<noteq> length rest then None
             else if take i rest = [] then None
             else Some (AList.update name (take i rest) vars))
      else if rest = [] then None
      else Some (AList.update name rest vars))"
| "match_names (name # n # names) (l # ls) rest vars =
     (case index_of rest l of
        None \<Rightarrow> None
      | Some i \<Rightarrow>
          if i = 0 then None
          else if contains (take i rest) ''/'' then None
          else match_names (n # names) ls (drop (i + length l) rest)
                 (AList.update name (take i rest) vars))"
| "match_names (name # names) [] rest vars = None"

definition match_uri_template :: "bytes \<Rightarrow> bytes \<Rightarrow> (bytes \<times> bytes) list option" where
  "match_uri_template template uri =
     (let (literals, names) = parse_template template
      in if names = [] then (if template = uri then Some [] else None)
         else if \<not> has_prefix uri (hd literals) then None
         else match_names names (tl literals) (drop (length (hd literals)) uri) [])"

section \<open>Soundness\<close>

text \<open>A template with values for its placeholders.\<close>

fun fill :: "bytes list \<Rightarrow> bytes list \<Rightarrow> (bytes \<Rightarrow> bytes) \<Rightarrow> bytes" where
  "fill (l # ls) (n # ns) f = l @ f n @ fill ls ns f"
| "fill (l # ls) [] f = l"
| "fill [] ns f = []"

lemma parse_template_length:
  "length (fst (parse_template t)) = length (snd (parse_template t)) + 1"
proof (induction t rule: parse_template.induct)
  case (1 t)
  then show ?case
    by (subst (1 2) parse_template.simps)
      (auto simp: Let_def case_prod_unfold simp del: parse_template.simps split: option.splits)
qed

text \<open>The template is its literals with the bracketed names between them.\<close>

lemma parse_template_fill:
  "fill (fst (parse_template t)) (snd (parse_template t)) (\<lambda>n. CHR ''{'' # n @ ''}'') = t"
proof (induction t rule: parse_template.induct)
  case (1 t)
  show ?case
  proof (cases "index_of t ''{''")
    case None
    then show ?thesis by (subst (1 2) parse_template.simps) simp
  next
    case (Some op)
    show ?thesis
    proof (cases "index_of (drop op t) ''}''")
      case None
      with Some show ?thesis by (subst (1 2) parse_template.simps) simp
    next
      case cl: (Some cl)
      obtain r where r: "t = take op t @ CHR ''{'' # r" using index_of_split [OF Some] by auto
      obtain q where q: "drop op t = take cl (drop op t) @ CHR ''}'' # q"
        "cl + 1 \<le> length (drop op t)" using index_of_split [OF cl] by auto
      have op: "op < length t" using index_of_split [OF Some] by auto
      then have d: "drop op t = CHR ''{'' # r" using r
        by (metis append_eq_conv_conj append_take_drop_id same_append_eq)
      then have "cl \<noteq> 0" using q(1) by (cases cl) auto
      then have "take cl (drop op t) = CHR ''{'' # take (cl - 1) (drop (op + 1) t)"
        using d by (cases cl) (auto simp: drop_Suc tl_drop [symmetric])
      moreover have "q = drop (op + cl + 1) t"
        using q by (metis add.assoc add.commute append_eq_conv_conj drop_drop drop_Suc_Cons
            length_take list.sel(3) min.absorb2 drop0 Suc_eq_plus1 add_leD1 tl_drop drop_Suc)
      ultimately have "t = take op t @ CHR ''{'' # take (cl - 1) (drop (op + 1) t) @ CHR ''}'' # drop (op + cl + 1) t"
        using q(1) by (metis append_Cons append_take_drop_id)
      with 1 [OF Some cl] Some cl show ?thesis
        by (subst (1 2) parse_template.simps) (simp add: Let_def case_prod_unfold)
    qed
  qed
qed

lemma contains_slash: "contains s [c] \<longleftrightarrow> c \<in> set s"
  by (induction s) (auto simp: contains_def split: option.splits)

lemma match_names_sound:
  "match_names names ls rest vars = Some vars' \<Longrightarrow> distinct names \<Longrightarrow> names \<noteq> [] \<Longrightarrow>
     length ls = length names \<Longrightarrow>
   rest = fill ([] # ls) names (\<lambda>n. the (map_of vars' n))
   \<and> (\<forall>n \<in> set names. \<exists>v. map_of vars' n = Some v \<and> v \<noteq> [])
   \<and> (\<forall>n \<in> set (butlast names). CHR ''/'' \<notin> set (the (map_of vars' n)))
   \<and> (\<forall>n. n \<notin> set names \<longrightarrow> map_of vars' n = map_of vars n)"
proof (induction names ls rest vars rule: match_names.induct)
  case (2 name l ls rest vars)
  show ?case
  proof (cases "l = []")
    case True
    with 2 show ?thesis by (auto simp: update_conv split: if_splits)
  next
    case False
    with 2 obtain i where i: "last_index_of rest l = Some i" "i + length l = length rest"
      "take i rest \<noteq> []" "vars' = AList.update name (take i rest) vars"
      by (auto split: option.splits if_splits)
    obtain r where "rest = take i rest @ l @ r" using last_index_of_split [OF i(1)] by blast
    moreover from this i(2) have "r = []" by (metis append_eq_append_conv_if append_Nil2 append_assoc
          append_take_drop_id length_append length_take add_leD1 min.absorb2 order_refl le_add1)
    ultimately show ?thesis using i 2 by (auto simp: update_conv)
  qed
next
  case (3 name n names l ls rest vars)
  then obtain i where i: "index_of rest l = Some i" "i \<noteq> 0" "\<not> contains (take i rest) ''/''"
    "match_names (n # names) ls (drop (i + length l) rest) (AList.update name (take i rest) vars) = Some vars'"
    by (auto split: option.splits if_splits)
  obtain r where r: "rest = take i rest @ l @ r" "i + length l \<le> length rest"
    using index_of_split [OF i(1)] by blast
  then have d: "drop (i + length l) rest = r" by (metis append.assoc append_eq_conv_conj length_append
        length_take min.absorb2 add_leD1)
  have ih: "drop (i + length l) rest = fill ([] # ls) (n # names) (\<lambda>n. the (map_of vars' n))"
    "\<forall>m \<in> set (n # names). \<exists>v. map_of vars' m = Some v \<and> v \<noteq> []"
    "\<forall>m \<in> set (butlast (n # names)). CHR ''/'' \<notin> set (the (map_of vars' m))"
    "\<forall>m. m \<notin> set (n # names) \<longrightarrow> map_of vars' m = map_of (AList.update name (take i rest) vars) m"
    using 3(1) [OF i(1-4)] 3(3,5) by auto
  have nm: "map_of vars' name = Some (take i rest)" using ih(4) 3(3) by (simp add: update_conv)
  have "take i rest \<noteq> []" using i(2) r by auto
  moreover have "CHR ''/'' \<notin> set (take i rest)" using i(3) contains_slash by blast
  ultimately show ?case using nm ih d r(1) by (auto simp: update_conv)
qed auto

lemma fill_prefix: "fill (l # ls) ns f = l @ fill ([] # ls) ns f"
  by (cases ns) auto

text \<open>
  A template match is sound: the template is its literals with the placeholders between them,
  and putting the captured values in place of the placeholders gives exactly the URI; every value is
  non-empty, and only the value of the last placeholder can contain a slash.
\<close>

theorem match_uri_template_sound:
  "match_uri_template t uri = Some vars \<Longrightarrow> distinct (snd (parse_template t)) \<Longrightarrow>
     fill (fst (parse_template t)) (snd (parse_template t)) (\<lambda>n. CHR ''{'' # n @ ''}'') = t
     \<and> fill (fst (parse_template t)) (snd (parse_template t)) (\<lambda>n. the (map_of vars n)) = uri
     \<and> (\<forall>n \<in> set (snd (parse_template t)). \<exists>v. map_of vars n = Some v \<and> v \<noteq> [])
     \<and> (\<forall>n \<in> set (butlast (snd (parse_template t))). CHR ''/'' \<notin> set (the (map_of vars n)))"
proof -
  assume m: "match_uri_template t uri = Some vars" and d: "distinct (snd (parse_template t))"
  obtain ls ns where p: "parse_template t = (ls, ns)" by (cases "parse_template t")
  have len: "length ls = length ns + 1" using parse_template_length [of t] p by simp
  then obtain l ls' where ls: "ls = l # ls'" "length ls' = length ns" by (cases ls) auto
  show ?thesis
  proof (cases "ns = []")
    case True
    with m p ls parse_template_fill [of t] show ?thesis
      by (auto simp: match_uri_template_def split: if_splits)
  next
    case False
    with m p ls have pre: "has_prefix uri l"
      and mn: "match_names ns ls' (drop (length l) uri) [] = Some vars"
      by (auto simp: match_uri_template_def split: if_splits)
    note s = match_names_sound [OF mn _ False ls(2)]
    have "uri = l @ drop (length l) uri" using pre by (metis append_take_drop_id has_prefix_def)
    then show ?thesis
      using s d p ls fill_prefix [of l ls' ns] parse_template_fill [of t] by auto
  qed
qed

theorem match_uri_template_sound_witness:
  "fill (fst (parse_template ''u://{id}/f/{path}'')) (snd (parse_template ''u://{id}/f/{path}''))
     (\<lambda>n. the (map_of [(''id'', ''7''), (''path'', ''a/b'')] n)) = ''u://7/f/a/b''"
proof -
  have m: "match_uri_template ''u://{id}/f/{path}'' ''u://7/f/a/b'' = Some [(''id'', ''7''), (''path'', ''a/b'')]"
    by code_simp
  have d: "distinct (snd (parse_template ''u://{id}/f/{path}''))" by code_simp
  from match_uri_template_sound [OF m d] show ?thesis by simp
qed

text \<open>
  A template with one placeholder matches every URI made by filling it with a non-empty value,
  and captures that value, slashes included.
\<close>

theorem match_uri_template_complete:
  "parse_template t = ([pre, suf], [n]) \<Longrightarrow> v \<noteq> [] \<Longrightarrow>
     match_uri_template t (pre @ v @ suf) = Some [(n, v)]"
proof -
  assume p: "parse_template t = ([pre, suf], [n])" and v: "v \<noteq> []"
  show ?thesis
  proof (cases "suf = []")
    case True
    with p v show ?thesis by (simp add: match_uri_template_def)
  next
    case False
    obtain i where i: "last_index_of (v @ suf) suf = Some i" "length v \<le> i"
      using last_index_of_ge [of "v @ suf" v suf "[]"] by auto
    then have "i + length suf \<le> length (v @ suf)" using last_index_of_split [OF i(1)] by auto
    then have "i = length v" using i(2) by simp
    with i p v False show ?thesis by (simp add: match_uri_template_def)
  qed
qed

theorem match_uri_template_complete_witness:
  "match_uri_template ''f://{p}.md'' (''f://'' @ ''a/b'' @ ''.md'') = Some [(''p'', ''a/b'')]"
  by (rule match_uri_template_complete) code_simp+

end
