(* ===== verification/Envelope.thy ===== *)
theory Envelope
  imports Primitives Any_Laws Protocol_Meta Uri_Template
begin

text \<open>
  The context a message is handled in (\<open>server/context.go\<close>), the caching advice a result carries
  (\<open>server/caching.go\<close>) and the envelope put around every successful result (\<open>server/envelope.go\<close>).

  The context is the immutable part of Go's \<open>Context\<close>; the negotiated version, which a handler
  records in it, is part of the state a method is run in (theory \<open>Methods\<close>). A nil emitter is \<open>None\<close>.
\<close>

section \<open>The context (context.go)\<close>

record mcp_context =
  cx_implementation :: implementation
  cx_instructions :: bytes
  cx_versions :: "bytes list"
  cx_capabilities :: members
  cx_tools :: "tool list"
  cx_resources :: "resource list"
  cx_templates :: "resource list"
  cx_prompts :: "prompt list"
  cx_max_page :: int
  cx_default_page :: int
  cx_cache_hint :: "cache_hint option"
  cx_method_hints :: "(bytes \<times> cache_hint) list"
  cx_session :: bytes
  cx_emit :: "emitter option"

definition context_emit :: "mcp_context \<Rightarrow> emitter" where
  "context_emit c msg w = (case cx_emit c of None \<Rightarrow> (True, w) | Some emit \<Rightarrow> emit msg w)"

definition context_notify :: "mcp_context \<Rightarrow> bytes \<Rightarrow> any \<Rightarrow> wire \<Rightarrow> bool \<times> wire" where
  "context_notify c m params w =
     (case encode_notification m params of
        None \<Rightarrow> (False, w)
      | Some msg \<Rightarrow> context_emit c msg w)"

definition has_capability :: "mcp_context \<Rightarrow> bytes \<Rightarrow> bool" where
  "has_capability c name = has_key (cx_capabilities c) name"

fun resolve_template :: "resource list \<Rightarrow> bytes \<Rightarrow> (resource \<times> (bytes \<times> bytes) list) option" where
  "resolve_template [] uri = None"
| "resolve_template (t # ts) uri =
     (if uri_template t = uri then Some (t, [])
      else case match_uri_template (uri_template t) uri of
        Some vars \<Rightarrow> Some (t, vars)
      | None \<Rightarrow> resolve_template ts uri)"

definition resolve_resource :: "mcp_context \<Rightarrow> bytes \<Rightarrow> (resource \<times> (bytes \<times> bytes) list) option" where
  "resolve_resource c uri =
     (if uri = [] then None
      else case find (\<lambda>r. rc_uri r = uri) (cx_resources c) of
        Some r \<Rightarrow> Some (r, [])
      | None \<Rightarrow> resolve_template (cx_templates c) uri)"

section \<open>Caching (caching.go)\<close>

definition cacheable_method :: "bytes \<Rightarrow> bool" where
  "cacheable_method m = (m \<in> set [''server/discover'', ''tools/list'', ''prompts/list'',
     ''resources/list'', ''resources/templates/list'', ''resources/read''])"

definition param_members :: "bytes \<Rightarrow> envelope" where
  "param_members raw =
     (if raw = [] then [] else case unmarshal_map raw of Dec ms \<Rightarrow> ms | _ \<Rightarrow> [])"

definition raw_string :: "bytes \<Rightarrow> bytes" where
  "raw_string raw =
     (if raw = [] then [] else case unmarshal_string raw of None \<Rightarrow> [] | Some s \<Rightarrow> s)"

text \<open>The hint of the resource a read addresses, when it has its own.\<close>

definition resource_hint :: "mcp_context \<Rightarrow> rpc_request \<Rightarrow> cache_hint option" where
  "resource_hint c r =
     (if rq_method r = ''resources/read'' then
        (case resolve_resource c (raw_string (env_raw (param_members (rq_params r)) ''uri'')) of
           Some (rc, _) \<Rightarrow> rc_cache_hint rc
         | None \<Rightarrow> None)
      else None)"

definition cache_hint_for :: "mcp_context \<Rightarrow> rpc_request \<Rightarrow> cache_hint option" where
  "cache_hint_for c r =
     (if \<not> cacheable_method (rq_method r) then None
      else
        (let ms = param_members (rq_params r)
         in if has_key ms ''inputResponses'' then Some zero_hint
            else if has_key ms ''requestState'' then Some zero_hint
            else case resource_hint c r of
              Some h \<Rightarrow> Some h
            | None \<Rightarrow>
                (case map_of (cx_method_hints c) (rq_method r) of
                   Some h \<Rightarrow> Some h
                 | None \<Rightarrow> (case cx_cache_hint c of Some h \<Rightarrow> Some h | None \<Rightarrow> Some zero_hint))))"

section \<open>The envelope (envelope.go)\<close>

definition result_type_complete :: bytes where "result_type_complete = ''complete''"

definition is_non_negative_integer :: "bytes \<Rightarrow> bool" where
  "is_non_negative_integer raw =
     (let t = trim_space raw in t \<noteq> [] \<and> list_all is_digit t)"

definition is_cache_scope :: "bytes \<Rightarrow> bool" where
  "is_cache_scope raw =
     (case unmarshal_string raw of
        None \<Rightarrow> False
      | Some s \<Rightarrow> s = cache_scope_public \<or> s = cache_scope_private)"

definition result_type_is_complete :: "bytes \<Rightarrow> bool" where
  "result_type_is_complete raw =
     (case unmarshal_string raw of None \<Rightarrow> False | Some s \<Rightarrow> s = result_type_complete)"

text \<open>A member the handler may have written: the default when absent, the conservative value when bad.\<close>

definition settle_member :: "bytes \<Rightarrow> (bytes \<Rightarrow> bool) \<Rightarrow> bytes \<Rightarrow> bytes \<Rightarrow> envelope \<Rightarrow> envelope" where
  "settle_member k good hinted conservative result =
     (case map_of result k of
        None \<Rightarrow> put k hinted result
      | Some written \<Rightarrow> if good written then result else put k conservative result)"

definition apply_cache_hints :: "mcp_context \<Rightarrow> rpc_request \<Rightarrow> envelope \<Rightarrow> envelope" where
  "apply_cache_hints c r result =
     (if \<not> result_type_is_complete (env_raw result ''resultType'') then result
      else case cache_hint_for c r of
        None \<Rightarrow> result
      | Some hint \<Rightarrow>
          (case hint_members hint of (ttl, scope) \<Rightarrow>
             settle_member ''cacheScope'' is_cache_scope scope (snd (hint_members zero_hint))
               (settle_member ''ttlMs'' is_non_negative_integer ttl (fst (hint_members zero_hint)) result)))"

definition envelope_meta :: "mcp_context \<Rightarrow> bytes \<Rightarrow> bytes option" where
  "envelope_meta c existing =
     (let meta = (if existing = [] then []
                  else case unmarshal_map existing of Dec ms \<Rightarrow> ms | _ \<Rightarrow> [])
      in case marshal (AMap (implementation_map (cx_implementation c))) of
           None \<Rightarrow> None
         | Some info \<Rightarrow> marshal_map (put meta_key_server_info info meta))"

record handle_result =
  hr_response :: "rpc_response option"
  hr_has_response :: bool
  hr_session :: bytes

definition apply_result_envelope :: "mcp_context \<Rightarrow> rpc_request \<Rightarrow> handle_result \<Rightarrow> handle_result" where
  "apply_result_envelope c r res =
     (case hr_response res of
        None \<Rightarrow> res
      | Some rsp \<Rightarrow>
          if rs_error rsp \<noteq> None \<or> rs_result rsp = [] then res
          else case unmarshal_map (rs_result rsp) of
            Dec result0 \<Rightarrow>
              (let result1 = put_if (\<not> has_key result0 ''resultType'') ''resultType''
                               (quoted result_type_complete) result0;
                   result2 = apply_cache_hints c r result1
               in case envelope_meta c (env_raw result2 ''_meta'') of
                    None \<Rightarrow> res
                  | Some meta \<Rightarrow>
                      (case marshal_map (put ''_meta'' meta result2) of
                         None \<Rightarrow> res
                       | Some encoded \<Rightarrow> res\<lparr>hr_response := Some (rsp\<lparr>rs_result := encoded\<rparr>)\<rparr>))
          | _ \<Rightarrow> res)"

section \<open>Well-formedness\<close>

lemma set_put: "set (put k v ms) \<subseteq> insert (k, v) (set ms)"
  by (induction ms) (auto simp: put_def split: if_splits)

lemma wf_any_put: "wf_any d v \<Longrightarrow> wf_any_members d ms \<Longrightarrow> wf_any_members d (put k v ms)"
  unfolding wf_any_members_all using set_put [of k v ms] by blast

lemma wf_any_put_if: "(b \<Longrightarrow> wf_any d v) \<Longrightarrow> wf_any_members d ms \<Longrightarrow> wf_any_members d (put_if b k v ms)"
  by (simp add: put_if_def wf_any_put)

lemma raw_map_put: "utf8 k \<Longrightarrow> token d r \<Longrightarrow> raw_map d ms \<Longrightarrow> raw_map d (put k r ms)"
  unfolding raw_map_def using set_put [of k r ms] by auto

lemma wf_any_texts [simp]: "wf_any_list d (map AStr xs)"
  by (simp add: wf_any_list_all)

lemma icon_map_wf: "0 < d \<Longrightarrow> wf_any_members d (icon_map i)"
  unfolding icon_map_def by (intro wf_any_put_if) simp_all

lemma implementation_map_wf: "3 \<le> d \<Longrightarrow> wf_any_members d (implementation_map im)"
  unfolding implementation_map_def
  by (intro wf_any_put_if) (auto simp: wf_any_list_all icon_map_wf)

lemma marshal_map_token:
  assumes "raw_map d ms" "d < max_nesting"
  obtains out ms' where "marshal_map ms = Some out" "token (Suc d) out" "unmarshal_map out = Dec ms'"
    "map_of ms' = (\<lambda>k. map_option compact (map_of ms k))" "raw_map d ms'"
proof -
  have tok: "utf8 k \<and> token d r" if "(k, r) \<in> set ms" for k r
    using assms(1) that by (auto simp: raw_map_def)
  then have "distinct (map fst (map (\<lambda>(k, r). (k, ARaw r)) ms))"
    "\<forall>(k, a) \<in> set (map (\<lambda>(k, r). (k, ARaw r)) ms). utf8 k"
    "wf_any_members d (map (\<lambda>(k, r). (k, ARaw r)) ms)"
    using assms(1) by (auto simp: raw_map_def comp_def split_beta wf_any_members_all)
  from unmarshal_marshal_members [OF this assms(2)] obtain out ms' where
    o: "marshal_map ms = Some out" "token (Suc d) out" "unmarshal_map out = Dec ms'" "raw_map d ms'"
    and m: "\<And>k. map_of ms' k = Option.bind (map_of (map (\<lambda>(k, r). (k, ARaw r)) ms) k) marshal"
    unfolding marshal_map_def by blast
  have "map_of ms' k = map_option compact (map_of ms k)" for k
  proof (cases "map_of ms k")
    case (Some r)
    with tok [OF map_of_SomeD [OF Some]] assms(2) marshal_raw [of d r] show ?thesis
      by (simp add: m map_of_map_snd)
  qed (simp add: m map_of_map_snd)
  with o show ?thesis using that by blast
qed

lemma marshal_compact:
  assumes "wf_any d a" "d \<le> max_nesting" "marshal a = Some out"
  shows "compact out = out"
proof -
  from assms obtain v where v: "out = print_json v" "wf_json d v"
    using tree_of_wf(1) [OF assms(1,2)] by (auto simp: marshal_def)
  have "json_parse out = Some (canon v)"
    using reads_parse [OF reads_print(1) [OF v(2)] assms(2)] v(1) by simp
  then show ?thesis by (simp add: compact_def v(1))
qed

lemma json_valid_token: "token d r \<Longrightarrow> d \<le> max_nesting \<Longrightarrow> json_valid r"
  by (auto simp: json_valid_def elim: token_parse)

lemma token_int: "token d (int_to_dec i)"
  using token_print [of d "JNum (int_to_dec i)"] scan_number_int by simp

lemma complete_token: "token d (quoted result_type_complete)" "compact (quoted result_type_complete) = quoted result_type_complete"
proof -
  have h: "html_escape result_type_complete = result_type_complete" "str_body result_type_complete" by code_simp+
  show "token d (quoted result_type_complete)" using token_print [of d "JStr result_type_complete"] h by simp
  show "compact (quoted result_type_complete) = quoted result_type_complete" by code_simp
qed

lemma hint_scope_cases: "hint_scope h = ''public'' \<or> hint_scope h = ''private''"
  by (simp add: hint_scope_def cache_scope_public_def cache_scope_private_def)

lemma scope_token: "token d (quoted (hint_scope h))" "compact (quoted (hint_scope h)) = quoted (hint_scope h)"
proof -
  have t: "token d (quoted s) \<and> compact (quoted s) = quoted s" if "s = ''public'' \<or> s = ''private''" for s
  proof -
    have h: "html_escape s = s" "str_body s" using that by (elim disjE; hypsubst; code_simp)+
    have "compact (quoted s) = quoted s" using that by (elim disjE; hypsubst; code_simp)
    with token_print [of d "JStr s"] h show ?thesis by simp
  qed
  from t [OF hint_scope_cases] show "token d (quoted (hint_scope h))"
    "compact (quoted (hint_scope h)) = quoted (hint_scope h)" by blast+
qed

lemma names_utf8 [simp]:
  "utf8 ''resultType''" "utf8 ''_meta''" "utf8 ''ttlMs''" "utf8 ''cacheScope''" "utf8 meta_key_server_info"
  by code_simp+

lemma settle_raw_map:
  assumes "raw_map d ms" "utf8 k" "token d a" "token d b"
  shows "raw_map d (settle_member k good a b ms)"
  using assms by (auto simp: settle_member_def raw_map_put split: option.splits)

lemma settle_other: "k' \<noteq> k \<Longrightarrow> map_of (settle_member k good a b ms) k' = map_of ms k'"
  by (auto simp: settle_member_def split: option.splits)

lemma settle_at:
  "map_of (settle_member k good a b ms) k =
     (case map_of ms k of None \<Rightarrow> Some a | Some w \<Rightarrow> Some (if good w then w else b))"
  by (auto simp: settle_member_def split: option.splits)

lemma cache_hints_raw_map: "raw_map d ms \<Longrightarrow> raw_map d (apply_cache_hints c r ms)"
  by (auto simp: apply_cache_hints_def hint_members_def token_int scope_token
      intro!: settle_raw_map split: option.splits)

lemma cache_hints_other:
  "k \<noteq> ''ttlMs'' \<Longrightarrow> k \<noteq> ''cacheScope'' \<Longrightarrow> map_of (apply_cache_hints c r ms) k = map_of ms k"
  by (auto simp: apply_cache_hints_def hint_members_def settle_other split: option.splits)

text \<open>The metadata a handler gave its result, as far as it is an object.\<close>

definition own_meta :: "envelope \<Rightarrow> envelope" where
  "own_meta ms =
     (case map_of ms ''_meta'' of
        None \<Rightarrow> []
      | Some m \<Rightarrow> (case unmarshal_map m of Dec l \<Rightarrow> l | _ \<Rightarrow> []))"

lemma envelope_meta_members:
  assumes "raw_map (max_nesting - 1) ms"
  obtains meta mm info where "envelope_meta c (env_raw ms ''_meta'') = Some meta"
    "token (max_nesting - 1) meta" "compact meta = meta" "unmarshal_map meta = Dec mm"
    "marshal (AMap (implementation_map (cx_implementation c))) = Some info"
    "map_of mm = (\<lambda>k. map_option compact (map_of (own_meta ms) k))(meta_key_server_info \<mapsto> info)"
proof -
  have n: "max_nesting - 1 = Suc (max_nesting - 2)" "max_nesting - 2 < max_nesting" "4 \<le> max_nesting - 2"
    by (simp_all add: max_nesting_def)
  define own where "own = own_meta ms"
  have "raw_map (max_nesting - 2) own"
  proof (cases "map_of ms ''_meta''")
    case (Some m)
    from raw_map_member [OF assms Some] have "token (Suc (max_nesting - 2)) m" using n(1) by metis
    then show ?thesis
      using Some token_members [of "max_nesting - 2" m] n
      by (auto simp: own_def own_meta_def raw_map_def split: decoded.splits)
  qed (simp add: own_def own_meta_def raw_map_def)
  moreover have wf: "wf_any (max_nesting - 2) (AMap (implementation_map (cx_implementation c)))"
    using implementation_map_wf [of "max_nesting - 2 - 1" "cx_implementation c"] n(3) by simp
  moreover obtain info where info: "marshal (AMap (implementation_map (cx_implementation c))) = Some info"
    "token (max_nesting - 2) info" using marshal_token [OF wf] n(2) by auto
  ultimately have rm: "raw_map (max_nesting - 2) (put meta_key_server_info info own)"
    by (intro raw_map_put) simp_all
  have ci: "compact info = info" by (rule marshal_compact [OF wf _ info(1)]) (use n(2) in simp)
  from marshal_map_token [OF rm n(2)] obtain meta mm where
    m: "marshal_map (put meta_key_server_info info own) = Some meta" "token (max_nesting - 1) meta"
      "unmarshal_map meta = Dec mm"
      "map_of mm = (\<lambda>k. map_option compact (map_of (put meta_key_server_info info own) k))"
    using n(1) by metis
  have "wf_any (max_nesting - 1) (AMap (map (\<lambda>(k, r). (k, ARaw r)) (put meta_key_server_info info own)))"
    using rm n(1) by (auto simp: raw_map_def wf_any_members_all)
  then have cm: "compact meta = meta"
    using m(1) marshal_compact n unfolding marshal_map_def by (metis diff_le_self)
  have e: "envelope_meta c (env_raw ms ''_meta'') = Some meta"
  proof (cases "map_of ms ''_meta''")
    case None
    with info(1) m(1) show ?thesis by (simp add: envelope_meta_def env_raw_def own_def own_meta_def)
  next
    case (Some x)
    from token_nonempty [OF raw_map_member [OF assms Some]] have "x \<noteq> []" .
    with info(1) m(1) Some show ?thesis by (simp add: envelope_meta_def env_raw_def own_def own_meta_def)
  qed
  have "map_of mm = (\<lambda>k. map_option compact (map_of own k))(meta_key_server_info \<mapsto> info)"
    unfolding m(4) using ci by (auto simp: fun_eq_iff)
  with that e m(2,3) cm info(1) show ?thesis unfolding own_def by blast
qed

section \<open>What the envelope does\<close>

definition typed_result :: "envelope \<Rightarrow> envelope" where
  "typed_result ms = put_if (\<not> has_key ms ''resultType'') ''resultType'' (quoted result_type_complete) ms"

text \<open>The type a handler gave its result, or the one it is given.\<close>

definition result_type :: "envelope \<Rightarrow> bytes" where
  "result_type ms = (case map_of ms ''resultType'' of None \<Rightarrow> quoted result_type_complete | Some t \<Rightarrow> t)"

lemma typed_result_at: "map_of (typed_result ms) = (map_of ms)(''resultType'' \<mapsto> result_type ms)"
  by (auto simp: typed_result_def result_type_def map_of_put_if has_key_def fun_eq_iff)

lemma typed_raw_map: "raw_map d ms \<Longrightarrow> raw_map d (typed_result ms)"
  by (simp add: typed_result_def put_if_def raw_map_put complete_token(1))

lemma envelope_result:
  assumes res: "hr_response res = Some rsp" "rs_error rsp = None" "unmarshal_map (rs_result rsp) = Dec ms"
  obtains out ms' meta mm info where
    "apply_result_envelope c r res = res\<lparr>hr_response := Some (rsp\<lparr>rs_result := out\<rparr>)\<rparr>"
    "unmarshal_map out = Dec ms'" "token max_nesting out"
    "map_of ms' = (\<lambda>k. map_option compact (map_of (apply_cache_hints c r (typed_result ms)) k))
       (''_meta'' \<mapsto> meta)"
    "unmarshal_map meta = Dec mm"
    "marshal (AMap (implementation_map (cx_implementation c))) = Some info"
    "map_of mm = (\<lambda>k. map_option compact (map_of (own_meta ms) k))(meta_key_server_info \<mapsto> info)"
proof -
  define result2 where "result2 = apply_cache_hints c r (typed_result ms)"
  have n: "max_nesting = Suc (max_nesting - 1)" "max_nesting - 1 < max_nesting" by (simp_all add: max_nesting_def)
  have ms: "raw_map (max_nesting - 1) ms" by (rule unmarshal_map_raw [OF res(3)])
  have rm: "raw_map (max_nesting - 1) result2"
    unfolding result2_def by (intro cache_hints_raw_map typed_raw_map ms)
  have own: "own_meta result2 = own_meta ms" "map_of result2 ''_meta'' = map_of ms ''_meta''"
    by (simp_all add: own_meta_def result2_def cache_hints_other typed_result_at)
  from envelope_meta_members [OF rm, of c] obtain meta mm info where
    m: "envelope_meta c (env_raw result2 ''_meta'') = Some meta" "token (max_nesting - 1) meta"
      "compact meta = meta" "unmarshal_map meta = Dec mm"
      "marshal (AMap (implementation_map (cx_implementation c))) = Some info"
      "map_of mm = (\<lambda>k. map_option compact (map_of (own_meta result2) k))(meta_key_server_info \<mapsto> info)" .
  have "raw_map (max_nesting - 1) (put ''_meta'' meta result2)"
    by (rule raw_map_put [OF _ m(2) rm]) simp
  from marshal_map_token [OF this n(2)] obtain out ms' where
    o: "marshal_map (put ''_meta'' meta result2) = Some out" "token max_nesting out" "unmarshal_map out = Dec ms'"
      "map_of ms' = (\<lambda>k. map_option compact (map_of (put ''_meta'' meta result2) k))"
    using n(1) by metis
  have ne: "rs_result rsp \<noteq> []" using res(3) by (auto simp: unmarshal_map_def json_parse_def)
  have "apply_result_envelope c r res = res\<lparr>hr_response := Some (rsp\<lparr>rs_result := out\<rparr>)\<rparr>"
    using res ne m(1) o(1) unfolding result2_def typed_result_def
    by (simp add: apply_result_envelope_def Let_def)
  moreover have "map_of ms' = (\<lambda>k. map_option compact (map_of result2 k))(''_meta'' \<mapsto> meta)"
    unfolding o(4) using m(3) by (auto simp: fun_eq_iff)
  ultimately show ?thesis
    using that o(2,3) m(4,5) m(6) [unfolded own(1)] unfolding result2_def by blast
qed

text \<open>
  The envelope adds and never takes away: a successful object result keeps every member the
  handler wrote (as the same JSON, compacted) except those the protocol reserves; it gets a
  \<open>resultType\<close> only where it had none; its \<open>_meta\<close> keeps the handler's own keys and carries the
  server implementation. The id, the session and everything else of the reply stay as they were.
\<close>

theorem envelope_keeps_result:
  "hr_response res = Some rsp \<Longrightarrow> rs_error rsp = None \<Longrightarrow> unmarshal_map (rs_result rsp) = Dec ms \<Longrightarrow>
     \<exists>out ms' meta mm. apply_result_envelope c r res = res\<lparr>hr_response := Some (rsp\<lparr>rs_result := out\<rparr>)\<rparr>
       \<and> unmarshal_map out = Dec ms'
       \<and> (\<forall>k. k \<notin> {''resultType'', ''_meta'', ''ttlMs'', ''cacheScope''} \<longrightarrow>
            map_of ms' k = map_option compact (map_of ms k))
       \<and> map_of ms' ''resultType'' = Some (compact (result_type ms))
       \<and> map_of ms' ''_meta'' = Some meta \<and> unmarshal_map meta = Dec mm
       \<and> map_of mm meta_key_server_info = marshal (AMap (implementation_map (cx_implementation c)))
       \<and> map_of mm meta_key_server_info \<noteq> None
       \<and> (\<forall>k. k \<noteq> meta_key_server_info \<longrightarrow> map_of mm k = map_option compact (map_of (own_meta ms) k))"
proof -
  assume "hr_response res = Some rsp" "rs_error rsp = None" "unmarshal_map (rs_result rsp) = Dec ms"
  from envelope_result [OF this, of c r] obtain out ms' meta mm info where
    e: "apply_result_envelope c r res = res\<lparr>hr_response := Some (rsp\<lparr>rs_result := out\<rparr>)\<rparr>"
      "unmarshal_map out = Dec ms'"
      "map_of ms' = (\<lambda>k. map_option compact (map_of (apply_cache_hints c r (typed_result ms)) k))
         (''_meta'' \<mapsto> meta)"
      "unmarshal_map meta = Dec mm"
      "marshal (AMap (implementation_map (cx_implementation c))) = Some info"
      "map_of mm = (\<lambda>k. map_option compact (map_of (own_meta ms) k))(meta_key_server_info \<mapsto> info)"
    by metis
  then show ?thesis
    by (intro exI [of _ out] exI [of _ ms'] exI [of _ meta] exI [of _ mm])
      (simp add: cache_hints_other typed_result_at)
qed

lemma settle_scope:
  assumes "raw_map d ms" "d \<le> max_nesting"
    "map_of (settle_member ''cacheScope'' is_cache_scope (quoted (hint_scope h)) (quoted (hint_scope zero_hint)) ms)
       ''cacheScope'' = Some s"
  shows "is_cache_scope (compact s)
    \<and> (unmarshal_string (compact s) = Some ''public'' \<longrightarrow>
        (case map_of ms ''cacheScope'' of None \<Rightarrow> ch_scope h = ''public''
         | Some w \<Rightarrow> unmarshal_string w = Some ''public''))"
proof -
  have q: "unmarshal_string (quoted x) = Some x" if "x = ''public'' \<or> x = ''private''" for x
    using that by (elim disjE; hypsubst; code_simp)
  have sc: "unmarshal_string (quoted (hint_scope h)) = Some (hint_scope h)" for h
    using q hint_scope_cases by blast
  have good: "is_cache_scope (quoted (hint_scope h))" for h
    using sc hint_scope_cases [of h]
    by (auto simp: is_cache_scope_def cache_scope_public_def cache_scope_private_def)
  have z: "hint_scope zero_hint = ''private''" by code_simp
  show ?thesis
  proof (cases "map_of ms ''cacheScope''")
    case None
    then have "s = quoted (hint_scope h)" using assms(3) by (simp add: settle_at)
    with good sc scope_token(2) None show ?thesis
      by (auto simp: hint_scope_def cache_scope_public_def cache_scope_private_def split: if_splits)
  next
    case (Some w)
    have v: "json_valid w" using raw_map_member [OF assms(1) Some] assms(2) by (rule json_valid_token)
    show ?thesis
    proof (cases "is_cache_scope w")
      case True
      then have "s = w" using Some assms(3) by (simp add: settle_at)
      with True v Some show ?thesis by (simp add: is_cache_scope_def unmarshal_string_compact)
    next
      case False
      then have "s = quoted (hint_scope zero_hint)" using Some assms(3) by (simp add: settle_at)
      with good [of zero_hint] sc [of zero_hint] scope_token(2) [of zero_hint] z show ?thesis by simp
    qed
  qed
qed

lemma digits_compact: "token d r \<Longrightarrow> d \<le> max_nesting \<Longrightarrow> is_non_negative_integer r \<Longrightarrow> compact r = r"
proof -
  assume t: "token d r" "d \<le> max_nesting" and n: "is_non_negative_integer r"
  from t obtain v where v: "json_parse r = Some v" "reads d r v" by (rule token_parse)
  have "r \<noteq> []" "list_all is_digit r"
    using n trim_token [OF t(1)] by (simp_all add: is_non_negative_integer_def)
  then have "is_digit (hd r)" by (cases r) auto
  with reads_shape [OF v(2)] have "v = JNum r"
    by (cases v) (auto simp: quoted_def is_digit_def split: if_splits)
  then show ?thesis using v(1) by (simp add: compact_def)
qed

lemma int_to_dec_non_negative: "0 \<le> i \<Longrightarrow> is_non_negative_integer (int_to_dec i)"
proof -
  assume "0 \<le> i"
  then have e: "int_to_dec i = nat_to_dec (nat i)" by (simp add: int_to_dec_def)
  have "trim_space (int_to_dec i) = int_to_dec i" using trim_token [OF token_int] by blast
  then show ?thesis
    using nat_to_dec_digits [of "nat i"] by (simp add: is_non_negative_integer_def e list_all_iff)
qed

lemma ttl_ms_nonneg: "0 \<le> ttl_ms h"
  by (auto simp: ttl_ms_def millisecond_def pos_imp_zdiv_nonneg_iff)

lemma settle_ttl:
  assumes "raw_map d ms" "d \<le> max_nesting"
    "map_of (settle_member ''ttlMs'' is_non_negative_integer (int_to_dec (ttl_ms h)) (int_to_dec (ttl_ms zero_hint)) ms)
       ''ttlMs'' = Some t"
  shows "is_non_negative_integer (compact t)
    \<and> (map_of ms ''ttlMs'' = None \<longrightarrow> compact t = int_to_dec (ttl_ms h))"
proof -
  have c: "compact (int_to_dec i) = int_to_dec i" if "0 \<le> i" for i
    by (rule digits_compact [OF token_int order_refl]) (rule int_to_dec_non_negative [OF that])
  show ?thesis
  proof (cases "map_of ms ''ttlMs''")
    case None
    then have "t = int_to_dec (ttl_ms h)" using assms(3) by (simp add: settle_at)
    with c ttl_ms_nonneg int_to_dec_non_negative show ?thesis by metis
  next
    case (Some w)
    then have "t = (if is_non_negative_integer w then w else int_to_dec (ttl_ms zero_hint))"
      using assms(3) by (simp add: settle_at split: if_splits)
    moreover have "token d w" by (rule raw_map_member [OF assms(1) Some])
    ultimately show ?thesis
      using digits_compact [of d w] assms(2) c ttl_ms_nonneg int_to_dec_non_negative Some
      by (metis option.distinct(1))
  qed
qed

text \<open>
  Caching advice is always usable and never wider than asked for: a complete result of a
  cacheable operation carries a lifetime that is an integer of zero or more and one of the two
  scopes; it is public only if the handler itself wrote so or, writing nothing, the hint in force is
  public; where the handler wrote no lifetime it is the hint's, in whole milliseconds; and a request
  retried with client input is advised at no lifetime and private scope unless the handler priced it.
  On any other result the two members are what the handler wrote.
\<close>

theorem cache_members_safe:
  "hr_response res = Some rsp \<Longrightarrow> rs_error rsp = None \<Longrightarrow> unmarshal_map (rs_result rsp) = Dec ms \<Longrightarrow>
     \<exists>out ms'. apply_result_envelope c r res = res\<lparr>hr_response := Some (rsp\<lparr>rs_result := out\<rparr>)\<rparr>
       \<and> unmarshal_map out = Dec ms'
       \<and> (if result_type_is_complete (result_type ms) \<and> cacheable_method (rq_method r)
          then \<exists>h t s. cache_hint_for c r = Some h
            \<and> map_of ms' ''ttlMs'' = Some t \<and> is_non_negative_integer t
            \<and> map_of ms' ''cacheScope'' = Some s \<and> is_cache_scope s
            \<and> (unmarshal_string s = Some ''public'' \<longrightarrow>
                 (case map_of ms ''cacheScope'' of None \<Rightarrow> ch_scope h = ''public''
                  | Some w \<Rightarrow> unmarshal_string w = Some ''public''))
            \<and> (map_of ms ''ttlMs'' = None \<longrightarrow> t = int_to_dec (ttl_ms h))
            \<and> (has_key (param_members (rq_params r)) ''inputResponses''
               \<or> has_key (param_members (rq_params r)) ''requestState'' \<longrightarrow> h = zero_hint)
          else map_of ms' ''ttlMs'' = map_option compact (map_of ms ''ttlMs'')
            \<and> map_of ms' ''cacheScope'' = map_option compact (map_of ms ''cacheScope''))"
proof -
  assume res: "hr_response res = Some rsp" "rs_error rsp = None" "unmarshal_map (rs_result rsp) = Dec ms"
  define ty where "ty = typed_result ms"
  from envelope_result [OF res, of c r] obtain out ms' meta where
    e: "apply_result_envelope c r res = res\<lparr>hr_response := Some (rsp\<lparr>rs_result := out\<rparr>)\<rparr>"
      "unmarshal_map out = Dec ms'"
      "map_of ms' = (\<lambda>k. map_option compact (map_of (apply_cache_hints c r ty) k))(''_meta'' \<mapsto> meta)"
    unfolding ty_def by metis
  have ty: "raw_map (max_nesting - 1) ty"
    unfolding ty_def by (rule typed_raw_map [OF unmarshal_map_raw [OF res(3)]])
  have rt: "env_raw ty ''resultType'' = result_type ms"
    "map_of ty ''ttlMs'' = map_of ms ''ttlMs''" "map_of ty ''cacheScope'' = map_of ms ''cacheScope''"
    by (simp_all add: ty_def env_raw_def typed_result_at)
  have some: "cacheable_method (rq_method r) \<Longrightarrow> \<exists>h. cache_hint_for c r = Some h"
    by (auto simp: cache_hint_for_def Let_def split: option.splits)
  show ?thesis
  proof (cases "result_type_is_complete (result_type ms) \<and> cacheable_method (rq_method r)")
    case True
    then obtain h where h: "cache_hint_for c r = Some h" using some by blast
    define ttl where "ttl = settle_member ''ttlMs'' is_non_negative_integer (int_to_dec (ttl_ms h))
      (int_to_dec (ttl_ms zero_hint)) ty"
    define sc where "sc = settle_member ''cacheScope'' is_cache_scope (quoted (hint_scope h))
      (quoted (hint_scope zero_hint)) ttl"
    have hints: "apply_cache_hints c r ty = sc"
      using True h rt(1) by (simp add: apply_cache_hints_def hint_members_def ttl_def sc_def)
    have ttl_rm: "raw_map (max_nesting - 1) ttl"
      unfolding ttl_def by (rule settle_raw_map [OF ty]) (simp_all add: token_int)
    have le: "max_nesting - 1 \<le> max_nesting" by simp
    obtain t where t: "map_of ttl ''ttlMs'' = Some t"
      by (cases "map_of ty ''ttlMs''") (auto simp: ttl_def settle_at)
    have t': "map_of sc ''ttlMs'' = Some t" using t by (simp add: sc_def settle_other)
    have T: "is_non_negative_integer (compact t)
        \<and> (map_of ms ''ttlMs'' = None \<longrightarrow> compact t = int_to_dec (ttl_ms h))"
      using settle_ttl [OF ty le] t unfolding ttl_def rt(2) by blast
    obtain s where s: "map_of sc ''cacheScope'' = Some s"
      by (cases "map_of ttl ''cacheScope''") (auto simp: sc_def settle_at)
    have o: "map_of ttl ''cacheScope'' = map_of ms ''cacheScope''" by (simp add: ttl_def settle_other rt(3))
    have S: "is_cache_scope (compact s)
        \<and> (unmarshal_string (compact s) = Some ''public'' \<longrightarrow>
            (case map_of ms ''cacheScope'' of None \<Rightarrow> ch_scope h = ''public''
             | Some w \<Rightarrow> unmarshal_string w = Some ''public''))"
      using settle_scope [OF ttl_rm le] s o unfolding sc_def by metis
    have z: "has_key (param_members (rq_params r)) ''inputResponses''
        \<or> has_key (param_members (rq_params r)) ''requestState'' \<longrightarrow> h = zero_hint"
      using h by (auto simp: cache_hint_for_def Let_def split: if_splits)
    have m: "map_of ms' ''ttlMs'' = Some (compact t)" "map_of ms' ''cacheScope'' = Some (compact s)"
      unfolding e(3) hints using t' s by simp_all
    show ?thesis
      unfolding if_P [OF True]
      by (rule exI [of _ out], rule exI [of _ ms'], rule conjI [OF e(1)], rule conjI [OF e(2)],
          rule exI [of _ h], rule exI [of _ "compact t"], rule exI [of _ "compact s"])
        (use h m T S z in blast)
  next
    case False
    then have "apply_cache_hints c r ty = ty"
      using rt(1) by (auto simp: apply_cache_hints_def cache_hint_for_def)
    then show ?thesis
      unfolding if_not_P [OF False]
      by (intro exI [of _ out] exI [of _ ms'] conjI e(1,2)) (simp_all add: e(3) rt(2,3))
  qed
qed

section \<open>A concrete exchange\<close>

definition demo_context :: mcp_context where
  "demo_context = \<lparr>cx_implementation = \<lparr>im_name = ''demo'', im_version = ''1'', im_title = [],
       im_description = [], im_icons = [], im_website = []\<rparr>,
     cx_instructions = [], cx_versions = [protocol_v20260728], cx_capabilities = [], cx_tools = [],
     cx_resources = [], cx_templates = [], cx_prompts = [], cx_max_page = 50, cx_default_page = 15,
     cx_cache_hint = Some \<lparr>ch_ttl = 2500000, ch_scope = ''public''\<rparr>, cx_method_hints = [],
     cx_session = [], cx_emit = None\<rparr>"

definition demo_request :: rpc_request where
  "demo_request = \<lparr>rq_id = Id ''7'', rq_method = ''tools/list'', rq_params = []\<rparr>"

definition demo_reply :: rpc_response where
  "demo_reply = \<lparr>rs_id = Id ''7'', rs_result = ''{\"tools\":[],\"_meta\":{\"x\":1}}'', rs_error = None\<rparr>"

definition demo_result :: handle_result where
  "demo_result = \<lparr>hr_response = Some demo_reply, hr_has_response = True, hr_session = []\<rparr>"

lemma demo_members:
  "hr_response demo_result = Some demo_reply" "rs_error demo_reply = None"
  "unmarshal_map (rs_result demo_reply) = Dec [(''tools'', ''[]''), (''_meta'', ''{\"x\":1}'')]"
  by (simp_all add: demo_result_def demo_reply_def) code_simp

theorem envelope_keeps_result_witness:
  "\<exists>out ms'. apply_result_envelope demo_context demo_request demo_result
       = demo_result\<lparr>hr_response := Some (demo_reply\<lparr>rs_result := out\<rparr>)\<rparr>
     \<and> unmarshal_map out = Dec ms' \<and> map_of ms' ''tools'' = Some ''[]''"
proof -
  have "compact ''[]'' = ''[]''" by code_simp
  moreover from envelope_keeps_result [OF demo_members, of demo_context demo_request] obtain out ms'
    where e: "apply_result_envelope demo_context demo_request demo_result
        = demo_result\<lparr>hr_response := Some (demo_reply\<lparr>rs_result := out\<rparr>)\<rparr>" "unmarshal_map out = Dec ms'"
      "\<forall>k. k \<notin> {''resultType'', ''_meta'', ''ttlMs'', ''cacheScope''} \<longrightarrow> map_of ms' k
        = map_option compact (map_of [(''tools'', ''[]''), (''_meta'', ''{\"x\":1}'')] k)"
    by (elim exE conjE) blast
  moreover have "map_of ms' ''tools'' = Some (compact ''[]'')" using e(3) by simp
  ultimately show ?thesis by (intro exI [of _ out] exI [of _ ms']) simp
qed

theorem cache_members_safe_witness:
  "\<exists>out ms'. apply_result_envelope demo_context demo_request demo_result
       = demo_result\<lparr>hr_response := Some (demo_reply\<lparr>rs_result := out\<rparr>)\<rparr>
     \<and> unmarshal_map out = Dec ms' \<and> map_of ms' ''ttlMs'' = Some ''2''"
proof -
  have t: "result_type_is_complete (result_type [(''tools'', ''[]''), (''_meta'', ''{\"x\":1}'')])
      \<and> cacheable_method (rq_method demo_request)" by code_simp
  have h: "cache_hint_for demo_context demo_request = Some \<lparr>ch_ttl = 2500000, ch_scope = ''public''\<rparr>"
    "int_to_dec (ttl_ms \<lparr>ch_ttl = 2500000, ch_scope = ''public''\<rparr>) = ''2''" by code_simp+
  moreover have "map_of [(''tools'', ''[]''), (''_meta'', ''{\"x\":1}'')] ''ttlMs'' = None" by simp
  ultimately show ?thesis
    using cache_members_safe [OF demo_members, of demo_context demo_request, unfolded if_P [OF t]]
    by (elim exE conjE) (metis option.inject)
qed

end
