(* ===== verification/Pagination.thy ===== *)
theory Pagination
  imports Base64 Json_Objects
begin

text \<open>
  Cursor pagination (\<open>server/pagination.go\<close>) and the page size a list request gets
  (\<open>Context.PerPage\<close> in \<open>server/context.go\<close>). Offsets and sizes are Go's 64-bit \<open>int\<close>, so the sum
  of an offset and a page size wraps; a slice expression out of range is a panic, the value
  \<open>None\<close> of \<open>paginate\<close>. Walking the cursors from the first page gives every item once, in order.
\<close>

section \<open>Cursors (pagination.go)\<close>

definition cursor_json :: "int \<Rightarrow> bytes" where
  "cursor_json n = print_json (JObj [(''offset'', [], JNum (int_to_dec n))])"

definition encode_cursor :: "int \<Rightarrow> bytes" where
  "encode_cursor n = b64_encode (cursor_json n)"

definition decode_offset_member :: "bytes \<times> bytes \<times> json \<Rightarrow> int \<Rightarrow> int option" where
  "decode_offset_member m old =
     (case m of (k, _, v) \<Rightarrow> if field_is ''offset'' (unquote k) then decode_int old v else Some old)"

definition start_offset :: "bytes \<Rightarrow> int" where
  "start_offset cursor =
     (if cursor = [] then 0
      else case b64_decode False cursor of
        None \<Rightarrow> 0
      | Some decoded \<Rightarrow>
          (case json_parse decoded of
             Some (JObj ms) \<Rightarrow>
               (case decode_members decode_offset_member ms 0 of
                  None \<Rightarrow> 0
                | Some offset \<Rightarrow> if offset < 0 then 0 else offset)
           | _ \<Rightarrow> 0))"

text \<open>The slice \<open>items[i:j]\<close>; \<open>None\<close> is the panic of an expression out of range.\<close>

definition slice_items :: "'a list \<Rightarrow> int \<Rightarrow> int \<Rightarrow> 'a list option" where
  "slice_items xs i j =
     (if 0 \<le> i \<and> i \<le> j \<and> j \<le> int (length xs) then Some (take (nat (j - i)) (drop (nat i) xs)) else None)"

definition paginate :: "'a list \<Rightarrow> int \<Rightarrow> bytes \<Rightarrow> ('a list \<times> bytes) option" where
  "paginate items per_page cursor =
     (let start0 = start_offset cursor;
          start = (if start0 < 0 then 0 else start0);
          len = int (length items)
      in if per_page \<le> 0 \<or> len \<le> start then Some ([], [])
         else
           (let stop0 = wrap64 (start + per_page);
                stop = (if len < stop0 then len else stop0)
            in case slice_items items start stop of
                 None \<Rightarrow> None
               | Some page \<Rightarrow>
                   Some (page, if wrap64 (start + per_page) < len
                               then encode_cursor (wrap64 (start + per_page)) else [])))"

section \<open>Page sizes (context.go)\<close>

definition per_page :: "int \<Rightarrow> int \<Rightarrow> int option \<Rightarrow> int" where
  "per_page default_size max_size requested =
     (let sz = (case requested of None \<Rightarrow> default_size | Some n \<Rightarrow> n)
      in if max_size < sz then max_size else sz)"

section \<open>Walking the pages\<close>

text \<open>
  A client that follows the cursors: the pages it is given, at most one more than the fuel; \<open>None\<close>
  when a page panics or the fuel runs out before the last page.
\<close>

fun walk_pages :: "nat \<Rightarrow> 'a list \<Rightarrow> int \<Rightarrow> bytes \<Rightarrow> 'a list list option" where
  "walk_pages fuel items sz cursor =
     (case paginate items sz cursor of
        None \<Rightarrow> None
      | Some (page, nxt) \<Rightarrow>
          if nxt = [] then Some [page]
          else (case fuel of
                  0 \<Rightarrow> None
                | Suc f \<Rightarrow> map_option (\<lambda>ps. page # ps) (walk_pages f items sz nxt)))"

declare walk_pages.simps [simp del]

lemma offset_field [simp]: "field_is ''offset'' ''offset''"
  by code_simp

lemma plain_offset: "str_body ''offset''" "html_escape ''offset'' = ''offset''" "unquote ''offset'' = ''offset''"
  by code_simp+

lemma start_offset_encode:
  assumes "0 \<le> n" "fits64 n"
  shows "start_offset (encode_cursor n) = n"
proof -
  have "wf_json max_nesting (JObj [(''offset'', [], JNum (int_to_dec n))])"
    using plain_offset scan_number_int by (simp add: max_nesting_def)
  then have p: "json_parse (cursor_json n)
      = Some (JObj [(''offset'', print_json (JNum (int_to_dec n)), JNum (int_to_dec n))])"
    using json_parse_print [of "JObj [(''offset'', [], JNum (int_to_dec n))]"] plain_offset
    by (simp add: cursor_json_def)
  have "encode_cursor n \<noteq> []"
    using b64_decode_encode [of False "cursor_json n"]
    by (auto simp: encode_cursor_def b64_decode_def cursor_json_def)
  then show ?thesis
    using p plain_offset assms int_literal_dec [OF assms(2)]
    by (simp add: start_offset_def encode_cursor_def b64_decode_encode decode_offset_member_def
        decode_int_def)
qed

lemma encode_cursor_nonempty [simp]: "encode_cursor n \<noteq> []"
  using b64_decode_encode [of False "cursor_json n"]
  by (auto simp: encode_cursor_def b64_decode_def cursor_json_def)

lemma start_offset_nonneg: "0 \<le> start_offset cursor"
  by (auto simp: start_offset_def split: option.splits json.splits)

lemma start_offset_Nil [simp]: "start_offset [] = 0"
  by (simp add: start_offset_def)

text \<open>A page in the absence of overflow.\<close>

lemma paginate_page:
  assumes "0 < sz" "start_offset cursor = int k" "k < length items" "int (length items) + sz < 2 ^ 63"
  shows "paginate items sz cursor =
    Some (take (nat sz) (drop k items),
          if int k + sz < int (length items) then encode_cursor (int k + sz) else [])"
proof -
  have f: "wrap64 (int k + sz) = int k + sz"
    using assms by (intro wrap64_fits) (simp add: fits64_def)
  show ?thesis
  proof (cases "int k + sz < int (length items)")
    case True
    then show ?thesis using assms f
      by (simp add: paginate_def Let_def slice_items_def)
  next
    case False
    then have "nat (int (length items) - int k) = length (drop k items)"
      "length (drop k items) \<le> nat sz" using assms by auto
    then show ?thesis using assms f False
      by (simp add: paginate_def Let_def slice_items_def)
  qed
qed

lemma walk_pages_from:
  assumes "0 < sz" "int (length items) + sz < 2 ^ 63"
  shows "start_offset cursor = int k \<Longrightarrow> k \<le> length items \<Longrightarrow> length items - k \<le> fuel \<Longrightarrow>
    \<exists>ps. walk_pages fuel items sz cursor = Some ps \<and> concat ps = drop k items
      \<and> (\<forall>p \<in> set ps. int (length p) \<le> sz) \<and> (\<forall>p \<in> set (butlast ps). int (length p) = sz)"
proof (induction fuel arbitrary: cursor k)
  case 0
  then have "paginate items sz cursor = Some ([], [])"
    using assms by (simp add: paginate_def Let_def)
  with 0 assms show ?case by (subst walk_pages.simps) simp
next
  case (Suc fuel)
  show ?case
  proof (cases "k < length items")
    case False
    with Suc.prems have "paginate items sz cursor = Some ([], [])"
      using assms by (simp add: paginate_def Let_def)
    with False assms show ?thesis by (subst walk_pages.simps) simp
  next
    case True
    note page = paginate_page [OF assms(1) Suc.prems(1) True assms(2)]
    show ?thesis
    proof (cases "int k + sz < int (length items)")
      case False
      then have "length (drop k items) \<le> nat sz" by simp
      with False page assms(1) show ?thesis by (subst walk_pages.simps) auto
    next
      case more: True
      define k' where "k' = k + nat sz"
      have k': "int k + sz = int k'" "k' < length items" "length items - k' \<le> fuel"
        using more assms(1) Suc.prems by (auto simp: k'_def)
      have "start_offset (encode_cursor (int k')) = int k'"
        by (rule start_offset_encode) (use k' assms in \<open>auto simp: fits64_def\<close>)
      from Suc.IH [OF this] k' obtain ps where ps:
        "walk_pages fuel items sz (encode_cursor (int k')) = Some ps" "concat ps = drop k' items"
        "\<forall>p \<in> set ps. int (length p) \<le> sz" "\<forall>p \<in> set (butlast ps). int (length p) = sz" by auto
      have ne: "ps \<noteq> []" using ps(2) k'(2) by auto
      have len: "int (length (take (nat sz) (drop k items))) = sz" using more assms(1) by simp
      have "walk_pages (Suc fuel) items sz cursor = Some (take (nat sz) (drop k items) # ps)"
        using page more k'(1) ps(1) by (subst walk_pages.simps) simp
      moreover have "take (nat sz) (drop k items) @ drop k' items = drop k items"
        by (metis append_take_drop_id drop_drop add.commute k'_def)
      ultimately show ?thesis using ps(2,3,4) len ne by auto
    qed
  qed
qed

text \<open>
  C6. Following the cursors from the first page visits the whole list: the walk ends after at most
  as many pages as there are items, the pages concatenated are the items in order, every page but
  the last is full and none is larger than the page size.
\<close>

theorem pagination_complete:
  "0 < sz \<Longrightarrow> int (length items) + sz < 2 ^ 63 \<Longrightarrow>
     \<exists>pages. walk_pages (length items) items sz [] = Some pages \<and> concat pages = items
       \<and> (\<forall>p \<in> set pages. int (length p) \<le> sz) \<and> (\<forall>p \<in> set (butlast pages). int (length p) = sz)"
  using walk_pages_from [of sz items "[]" 0 "length items"] by simp

theorem pagination_complete_witness:
  "\<exists>pages. walk_pages (length ''abcde'') ''abcde'' 2 [] = Some pages \<and> concat pages = ''abcde''
     \<and> (\<forall>p \<in> set pages. int (length p) \<le> 2) \<and> (\<forall>p \<in> set (butlast pages). int (length p) = 2)"
  by (rule pagination_complete) simp_all

text \<open>A page of a size within the limits.\<close>

lemma paginate_within:
  "int (length items) + max_size < 2 ^ 63 \<Longrightarrow>
     \<exists>page nxt k. paginate items (per_page default_size max_size requested) cursor = Some (page, nxt)
       \<and> page = take (length page) (drop k items) \<and> int (length page) \<le> max 0 max_size"
proof -
  assume m: "int (length items) + max_size < 2 ^ 63"
  define sz where "sz = per_page default_size max_size requested"
  have le: "sz \<le> max_size" by (simp add: sz_def per_page_def Let_def split: option.splits)
  obtain k where k: "start_offset cursor = int k"
    using start_offset_nonneg [of cursor] nonneg_int_cases by blast
  show ?thesis
  proof (cases "0 < sz \<and> k < length items")
    case True
    with paginate_page [of sz cursor k items] k m le
    have "paginate items sz cursor = Some (take (nat sz) (drop k items),
        if int k + sz < int (length items) then encode_cursor (int k + sz) else [])" by simp
    moreover have "int (length (take (nat sz) (drop k items))) \<le> max 0 max_size"
      using le by auto
    moreover have "take (nat sz) (drop k items)
        = take (length (take (nat sz) (drop k items))) (drop k items)" by (simp add: min_def)
    ultimately show ?thesis unfolding sz_def by blast
  next
    case False
    then have "paginate items sz cursor = Some ([], [])"
      using k by (auto simp: paginate_def Let_def)
    then show ?thesis unfolding sz_def by auto
  qed
qed

text \<open>
  Whatever the cursor, a page is a contiguous part of the list no larger than the page size, and
  listing never panics, as long as the offset a page ends at fits in an \<open>int\<close>; the page size a list
  request gets never exceeds the server's maximum, so a maximum that leaves room above the length
  of the list is enough.
\<close>

theorem paginate_total:
  "int (length items) + max_size < 2 ^ 63 \<Longrightarrow>
     \<exists>page nxt k. paginate items (per_page default_size max_size requested) cursor = Some (page, nxt)
       \<and> page = take (length page) (drop k items) \<and> int (length page) \<le> max 0 max_size"
  by (rule paginate_within)

theorem paginate_total_witness:
  "\<exists>page nxt k. paginate ''abc'' (per_page 15 50 (Some 100)) ''%'' = Some (page, nxt)
     \<and> page = take (length page) (drop k ''abc'') \<and> int (length page) \<le> max 0 50"
  by (rule paginate_total) simp

text \<open>
  The bound matters: with a maximum page size near the largest \<open>int\<close>, the sum of a cursor's
  offset and the page size wraps to a negative number and slicing the list panics.
\<close>

theorem paginate_overflow_panics:
  "paginate ''ab'' (per_page 15 (2 ^ 63 - 1) (Some (2 ^ 63 - 1))) (encode_cursor 1) = None"
proof -
  have "start_offset (encode_cursor 1) = 1" by (rule start_offset_encode) (simp_all add: fits64_def)
  then show ?thesis by (simp add: paginate_def per_page_def Let_def wrap64_def slice_items_def)
qed

end
