(* ===== verification/Methods.thy ===== *)
theory Methods
  imports Envelope Pagination
begin

text \<open>
  The protocol method handlers (\<open>server/methods\<close>, \<open>server/initialize_fallback.go\<close>). A method gets the
  context and the request, and runs in a state of the frames written and the version negotiated; it
  panics, fails with a Go error, or returns a response (possibly the nil one).

  The headline the framework derives from a name (\<open>str.Headline\<close>) is a parameter. Go converts a
  \<open>per_page\<close> number to an \<open>int\<close> as on amd64 when it is out of range (theory \<open>Go_Float\<close>).
\<close>

section \<open>Methods\<close>

record msg_state =
  st_wire :: wire
  st_negotiated :: bytes

datatype method_outcome = Panic | Fail go_error | Reply "rpc_response option"

type_synonym rpc_method = "mcp_context \<Rightarrow> rpc_request \<Rightarrow> msg_state \<Rightarrow> method_outcome \<times> msg_state"

text \<open>\<open>jsonrpc.NewResult(req.ID, value)\<close> and \<open>NewErrorResponseCode\<close> as what a method returns.\<close>

definition result_outcome :: "rpc_request \<Rightarrow> any \<Rightarrow> method_outcome" where
  "result_outcome r v =
     (case new_result (rq_id r) (AnyResult v) of None \<Rightarrow> Fail plain_error | Some rsp \<Rightarrow> Reply (Some rsp))"

definition error_outcome :: "rpc_request \<Rightarrow> int \<Rightarrow> bytes \<Rightarrow> method_outcome" where
  "error_outcome r code msg = Reply (Some (new_error_response_code (rq_id r) code msg))"

section \<open>Params (params.go)\<close>

definition decode_params :: "rpc_request \<Rightarrow> members" where
  "decode_params r =
     (if rq_params r = [] then [] else case unmarshal_any_map (rq_params r) of Dec ms \<Rightarrow> ms | _ \<Rightarrow> [])"

text \<open>\<open>decodeParams\<close> of the server package (handle.go).\<close>

definition decode_bag :: "bytes \<Rightarrow> members" where
  "decode_bag raw =
     (if raw = [] then [] else case unmarshal_any_map raw of Dec ms \<Rightarrow> ms | _ \<Rightarrow> [])"

definition param_str :: "members \<Rightarrow> bytes \<Rightarrow> bytes" where
  "param_str p k = (case map_of p k of Some (AStr s) \<Rightarrow> s | _ \<Rightarrow> [])"

definition param_int :: "members \<Rightarrow> bytes \<Rightarrow> int option" where
  "param_int p k =
     (case map_of p k of
        Some (ANum n) \<Rightarrow> Some (float_to_int64 (literal_float n))
      | Some (AInt i) \<Rightarrow> Some i
      | _ \<Rightarrow> None)"

definition param_map :: "members \<Rightarrow> bytes \<Rightarrow> members option" where
  "param_map p k = (case map_of p k of Some (AMap ms) \<Rightarrow> Some ms | _ \<Rightarrow> None)"

definition or_empty :: "members option \<Rightarrow> members" where
  "or_empty m = (case m of None \<Rightarrow> [] | Some ms \<Rightarrow> ms)"

definition param_arguments :: "members \<Rightarrow> members" where
  "param_arguments p = or_empty (param_map p ''arguments'')"

text \<open>The request a primitive handler is given.\<close>

definition primitive_request :: "mcp_context \<Rightarrow> members \<Rightarrow> prim_request" where
  "primitive_request c p =
     (new_request (param_arguments p))\<lparr>pr_session := cx_session c, pr_meta := or_empty (param_map p ''_meta''),
        pr_emit := Some (context_emit c)\<rparr>"

section \<open>Serialization (serialize.go, result.go)\<close>

definition server_title :: "(bytes \<Rightarrow> bytes) \<Rightarrow> bytes \<Rightarrow> bytes option \<Rightarrow> bytes" where
  "server_title headline name title =
     (case title of
        Some t \<Rightarrow> if t \<noteq> [] then t else headline name
      | None \<Rightarrow> headline name)"

definition with_properties :: "members \<Rightarrow> members" where
  "with_properties schema = put_if (\<not> has_key schema ''properties'') ''properties'' (AMap []) schema"

definition tool_to_map :: "(bytes \<Rightarrow> bytes) \<Rightarrow> tool \<Rightarrow> members" where
  "tool_to_map headline t =
     put_some (tl_output_schema t) ''outputSchema'' (\<lambda>s. AMap (with_properties s))
       [(''name'', AStr (tl_name t)),
        (''title'', AStr (server_title headline (tl_name t) (tl_title t))),
        (''description'', AStr (tl_description t)),
        (''inputSchema'', AMap (with_properties (tl_input_schema t))),
        (''annotations'', AMap (case tl_annotations t of None \<Rightarrow> [] | Some a \<Rightarrow> tool_annotations_map a))]"

definition with_resource_annotations :: "members \<Rightarrow> resource \<Rightarrow> members" where
  "with_resource_annotations m r =
     (case rc_annotations r of
        None \<Rightarrow> m
      | Some a \<Rightarrow> put_if (resource_annotations_map a \<noteq> []) ''annotations'' (AMap (resource_annotations_map a)) m)"

definition with_app_meta :: "members \<Rightarrow> resource \<Rightarrow> members" where
  "with_app_meta m r =
     (case rc_app_meta r of
        None \<Rightarrow> m
      | Some ui \<Rightarrow>
          if ui = [] then m
          else put ''_meta'' (AMap (put ''ui'' (AMap ui) (or_empty (param_map m ''_meta'')))) m)"

definition resource_to_map :: "(bytes \<Rightarrow> bytes) \<Rightarrow> resource \<Rightarrow> members" where
  "resource_to_map headline r =
     with_app_meta
       (with_resource_annotations
         [(''name'', AStr (rc_name r)),
          (''title'', AStr (server_title headline (rc_name r) (rc_title r))),
          (''description'', AStr (rc_description r)), (''mimeType'', AStr (rc_mime r)),
          (''uri'', AStr (rc_uri r))] r) r"

definition template_to_map :: "(bytes \<Rightarrow> bytes) \<Rightarrow> resource \<Rightarrow> members" where
  "template_to_map headline r =
     with_app_meta
       (with_resource_annotations
         [(''name'', AStr (rc_name r)),
          (''title'', AStr (server_title headline (rc_name r) (rc_title r))),
          (''description'', AStr (rc_description r)), (''mimeType'', AStr (rc_mime r)),
          (''uriTemplate'', AStr (uri_template r))] r) r"

definition prompt_to_map :: "(bytes \<Rightarrow> bytes) \<Rightarrow> prompt \<Rightarrow> members" where
  "prompt_to_map headline p =
     [(''name'', AStr (pm_name p)),
      (''title'', AStr (server_title headline (pm_name p) (pm_title p))),
      (''description'', AStr (pm_description p)),
      (''arguments'', AList (map (\<lambda>a. AMap (prompt_argument_map a)) (pm_arguments p)))]"

definition prompt_result :: "bytes \<Rightarrow> response option \<Rightarrow> members option" where
  "prompt_result description resp =
     (let role = (case resp of None \<Rightarrow> ''user'' | Some x \<Rightarrow> response_role x)
      in case shapes (\<lambda>c. map_option (\<lambda>s. [(''role'', AStr role), (''content'', AMap s)]) (to_prompt c))
                (response_items resp) of
           None \<Rightarrow> None
         | Some messages \<Rightarrow>
             Some (response_merge_meta resp
               [(''description'', AStr description), (''messages'', AList messages)]))"

definition resource_result :: "bytes \<Rightarrow> bytes \<Rightarrow> response option \<Rightarrow> members option" where
  "resource_result uri mime resp =
     (case shapes (\<lambda>c. to_resource c uri mime) (response_items resp) of
        None \<Rightarrow> None
      | Some contents \<Rightarrow> Some (response_merge_meta resp [(''contents'', AList contents)]))"

text \<open>A result map, the nil one encoding as null.\<close>

definition map_value :: "members option \<Rightarrow> any" where
  "map_value m = (case m of None \<Rightarrow> ANil | Some ms \<Rightarrow> AMap ms)"

section \<open>Lists (list.go)\<close>

definition paginated_result :: "rpc_request \<Rightarrow> bytes \<Rightarrow> members list \<Rightarrow> int \<Rightarrow> bytes \<Rightarrow> method_outcome" where
  "paginated_result r key items size_limit cursor =
     (case paginate items size_limit cursor of
        None \<Rightarrow> Panic
      | Some (page, nxt) \<Rightarrow>
          result_outcome r
            (AMap (put_if (nxt \<noteq> []) ''nextCursor'' (AStr nxt) [(key, AList (map AMap page))])))"

definition list_page :: "mcp_context \<Rightarrow> rpc_request \<Rightarrow> bytes \<Rightarrow> members list \<Rightarrow> method_outcome" where
  "list_page c r key items =
     (let p = decode_params r
      in paginated_result r key items
           (per_page (cx_default_page c) (cx_max_page c) (param_int p ''per_page'')) (param_str p ''cursor''))"

definition list_tools :: "(bytes \<Rightarrow> bytes) \<Rightarrow> rpc_method" where
  "list_tools headline c r st = (list_page c r ''tools'' (map (tool_to_map headline) (cx_tools c)), st)"

definition list_resources :: "(bytes \<Rightarrow> bytes) \<Rightarrow> rpc_method" where
  "list_resources headline c r st =
     (list_page c r ''resources'' (map (resource_to_map headline) (cx_resources c)), st)"

definition list_resource_templates :: "(bytes \<Rightarrow> bytes) \<Rightarrow> rpc_method" where
  "list_resource_templates headline c r st =
     (list_page c r ''resourceTemplates'' (map (template_to_map headline) (cx_templates c)), st)"

definition list_prompts :: "(bytes \<Rightarrow> bytes) \<Rightarrow> rpc_method" where
  "list_prompts headline c r st =
     (list_page c r ''prompts'' (map (prompt_to_map headline) (cx_prompts c)), st)"

section \<open>Calls, prompts and reads (call_tool.go, get_prompt.go, read_resource.go)\<close>

definition find_tool :: "mcp_context \<Rightarrow> bytes \<Rightarrow> tool option" where
  "find_tool c name = find (\<lambda>t. tl_name t = name) (cx_tools c)"

definition find_prompt :: "mcp_context \<Rightarrow> bytes \<Rightarrow> prompt option" where
  "find_prompt c name = find (\<lambda>p. pm_name p = name) (cx_prompts c)"

definition call_tool :: rpc_method where
  "call_tool c r st =
     (let p = decode_params r; name = param_str p ''name''
      in if \<not> has_key p ''name'' \<or> name = []
         then (error_outcome r code_invalid_params ''Missing [name] parameter.'', st)
         else case find_tool c name of
           None \<Rightarrow> (error_outcome r code_invalid_params (''Tool ['' @ name @ ''] not found.''), st)
         | Some t \<Rightarrow>
             (case invoke_tool t (primitive_request c p) (st_wire st) of
                (Inl e, w) \<Rightarrow> (Fail e, st\<lparr>st_wire := w\<rparr>)
              | (Inr result, w) \<Rightarrow> (result_outcome r (AMap result), st\<lparr>st_wire := w\<rparr>)))"

definition prompt_content_message :: bytes where
  "prompt_content_message = ''The prompt returned content that cannot be represented in a prompt message.''"

definition prompt_value :: "bytes \<Rightarrow> response option \<Rightarrow> any" where
  "prompt_value description resp =
     (case prompt_result description resp of
        Some result \<Rightarrow> AMap result
      | None \<Rightarrow> map_value (prompt_result description (Some (error_response prompt_content_message))))"

definition get_prompt :: rpc_method where
  "get_prompt c r st =
     (let p = decode_params r; name = param_str p ''name''
      in if \<not> has_key p ''name'' \<or> name = []
         then (error_outcome r code_invalid_params ''Missing [name] parameter.'', st)
         else case find_prompt c name of
           None \<Rightarrow> (error_outcome r code_invalid_params (''Prompt ['' @ name @ ''] not found.''), st)
         | Some pmt \<Rightarrow>
             (case pm_handle pmt (primitive_request c p) (st_wire st) of
                (Inl e, w) \<Rightarrow>
                  if \<not> ge_validation e then (Fail e, st\<lparr>st_wire := w\<rparr>)
                  else (result_outcome r (prompt_value (pm_description pmt)
                          (Some (error_response (''Invalid params: '' @ validation_message e)))),
                        st\<lparr>st_wire := w\<rparr>)
              | (Inr resp, w) \<Rightarrow>
                  (result_outcome r (prompt_value (pm_description pmt) resp), st\<lparr>st_wire := w\<rparr>)))"

definition unresolved_resource_code :: "rpc_request \<Rightarrow> int" where
  "unresolved_resource_code r =
     (let version = (case request_protocol_version r of None \<Rightarrow> [] | Some v \<Rightarrow> v)
      in if handshake_for version = HandshakeDiscovery then code_invalid_params
         else code_resource_not_found)"

definition resource_content_message :: bytes where
  "resource_content_message = ''The resource returned content that cannot be represented in a resource read.''"

text \<open>What is read of a response, with the response it was read of: the fixed error when it has no shape.\<close>

definition read_result :: "bytes \<Rightarrow> bytes \<Rightarrow> response option \<Rightarrow> members option \<times> response option" where
  "read_result uri mime resp =
     (case resource_result uri mime resp of
        Some result \<Rightarrow> (Some result, resp)
      | None \<Rightarrow> (let e = Some (error_response resource_content_message)
                 in (resource_result uri mime e, e)))"

definition priced_result :: "members option \<times> response option \<Rightarrow> any" where
  "priced_result rr =
     (case rr of (result, resp) \<Rightarrow>
        map_value (if response_is_error resp then map_option (apply_hint zero_hint) result else result))"

definition read_resource :: rpc_method where
  "read_resource c r st =
     (let p = decode_params r; uri = param_str p ''uri''
      in if \<not> has_key p ''uri'' \<or> uri = []
         then (error_outcome r code_invalid_params ''Missing [uri] parameter.'', st)
         else case resolve_resource c uri of
           None \<Rightarrow> (error_outcome r (unresolved_resource_code r) (''Resource ['' @ uri @ ''] not found.''), st)
         | Some (rc, vars) \<Rightarrow>
             (case rc_read rc (with_uri_variables vars ((primitive_request c p)\<lparr>pr_uri := uri\<rparr>)) (st_wire st) of
                (Inl e, w) \<Rightarrow>
                  if \<not> ge_validation e then (Fail e, st\<lparr>st_wire := w\<rparr>)
                  else (result_outcome r (priced_result (read_result uri (rc_mime rc)
                          (Some (error_response (''Invalid params: '' @ validation_message e))))),
                        st\<lparr>st_wire := w\<rparr>)
              | (Inr resp, w) \<Rightarrow>
                  (result_outcome r (priced_result (read_result uri (rc_mime rc) resp)),
                   st\<lparr>st_wire := w\<rparr>)))"

section \<open>Completions (completion_complete.go)\<close>

definition empty_completion :: any where
  "empty_completion = AMap [(''values'', AList []), (''total'', AInt 0), (''hasMore'', ABool False)]"

definition completion_shape :: "completion \<Rightarrow> any" where
  "completion_shape x =
     (let total = cp_total x; count = int (length (cp_values x))
      in AMap [(''values'', AList (map AStr (cp_values x))),
               (''total'', AInt (if total < count then count else total)),
               (''hasMore'', ABool (cp_has_more x))])"

definition string_members :: "members \<Rightarrow> (bytes \<times> bytes) list" where
  "string_members ms = concat (map (\<lambda>(k, v). case v of AStr s \<Rightarrow> [(k, s)] | _ \<Rightarrow> []) ms)"

definition completion_context :: "members \<Rightarrow> (bytes \<times> bytes) list" where
  "completion_context p =
     (case param_map p ''context'' of
        None \<Rightarrow> []
      | Some ctx \<Rightarrow>
          (case param_map ctx ''arguments'' of
             None \<Rightarrow> []
           | Some args \<Rightarrow> string_members args))"

definition completable_for :: "mcp_context \<Rightarrow> members \<Rightarrow> completer option" where
  "completable_for c ref =
     (if map_of ref ''type'' = Some (AStr ''ref/prompt'') then
        (case find_prompt c (param_str ref ''name'') of
           None \<Rightarrow> None
         | Some p \<Rightarrow> pm_complete p)
      else if map_of ref ''type'' = Some (AStr ''ref/resource'') then
        (case resolve_resource c (param_str ref ''uri'') of
           None \<Rightarrow> None
         | Some (r, _) \<Rightarrow> rc_complete r)
      else None)"

definition validate_reference :: "mcp_context \<Rightarrow> members \<Rightarrow> rpc_error option" where
  "validate_reference c ref =
     (if map_of ref ''type'' = Some (AStr ''ref/prompt'') then
        (let name = param_str ref ''name''
         in if name = [] then Some (new_error code_invalid_params ''Missing [name] parameter.'')
            else case find_prompt c name of
                   None \<Rightarrow> Some (new_error code_invalid_params (''Prompt ['' @ name @ ''] not found.''))
                 | Some _ \<Rightarrow> None)
      else if map_of ref ''type'' = Some (AStr ''ref/resource'') then
        (let uri = param_str ref ''uri''
         in if uri = [] then Some (new_error code_invalid_params ''Missing [uri] parameter.'')
            else case resolve_resource c uri of
                   None \<Rightarrow> Some (new_error code_invalid_params (''Resource ['' @ uri @ ''] not found.''))
                 | Some _ \<Rightarrow> None)
      else Some (new_error code_invalid_params
             ''Invalid reference type. Expected ref/prompt or ref/resource.''))"

definition capability_completions :: bytes where "capability_completions = ''completions''"

definition completion_complete :: rpc_method where
  "completion_complete c r st =
     ((if \<not> has_capability c capability_completions
       then error_outcome r code_method_not_found ''Server does not support completions capability.''
       else
         (let p = decode_params r
          in case (param_map p ''ref'', param_map p ''argument'') of
               (Some ref, Some argument) \<Rightarrow>
                 (case validate_reference c ref of
                    Some e \<Rightarrow> Reply (Some (new_error_response (rq_id r) e))
                  | None \<Rightarrow>
                      (case completable_for c ref of
                         None \<Rightarrow> result_outcome r (AMap [(''completion'', empty_completion)])
                       | Some complete \<Rightarrow>
                           (let name = param_str argument ''name''
                            in if name = []
                               then error_outcome r code_invalid_params ''Missing [name] parameter.''
                               else case complete \<lparr>cq_argument = name, cq_value = param_str argument ''value'',
                                                   cq_context = completion_context p\<rparr> of
                                 Inl e \<Rightarrow> error_outcome r code_internal_error ''Completion failed.''
                               | Inr result \<Rightarrow> result_outcome r (AMap [(''completion'', completion_shape result)]))))
             | _ \<Rightarrow> error_outcome r code_invalid_params ''Missing required parameters: ref and argument'')),
      st)"

section \<open>Handshakes, pings and subscriptions (discover.go, initialize_fallback.go, initialize.go, listen.go)\<close>

text \<open>A string slice, nil when empty.\<close>

definition string_slice :: "bytes list \<Rightarrow> any" where
  "string_slice vs = (if vs = [] then ANil else AList (map AStr vs))"

definition discover :: rpc_method where
  "discover c r st =
     (result_outcome r (AMap [(''supportedVersions'', string_slice (cx_versions c)),
        (''capabilities'', AMap (cx_capabilities c)), (''instructions'', AStr (cx_instructions c))]), st)"

definition negotiate :: "rpc_request \<Rightarrow> bytes" where
  "negotiate r =
     (case map_of (decode_bag (rq_params r)) ''protocolVersion'' of
        Some (AStr requested) \<Rightarrow>
          if contains_version initialize_supported_versions requested then requested
          else hd initialize_supported_versions
      | _ \<Rightarrow> hd initialize_supported_versions)"

definition mcp_initialize :: rpc_method where
  "mcp_initialize c r st =
     (result_outcome r (AMap [(''protocolVersion'', AStr (negotiate r)),
        (''capabilities'', AMap (cx_capabilities c)),
        (''serverInfo'', AMap (implementation_map (cx_implementation c))),
        (''instructions'', AStr (cx_instructions c))]),
      st\<lparr>st_negotiated := negotiate r\<rparr>)"

definition ping :: rpc_method where
  "ping c r st = (result_outcome r (AMap []), st)"

definition meta_key_subscription_id :: bytes where
  "meta_key_subscription_id = ''io.modelcontextprotocol/subscriptionId''"

definition subscription_acknowledged :: bytes where
  "subscription_acknowledged = ''notifications/subscriptions/acknowledged''"

definition subscription_meta :: "rpc_request \<Rightarrow> any" where
  "subscription_meta r = AMap [(meta_key_subscription_id, ARaw (id_marshal (rq_id r)))]"

definition listen :: rpc_method where
  "listen c r st =
     (case context_notify c subscription_acknowledged
             (AMap [(''_meta'', subscription_meta r), (''notifications'', AMap [])]) (st_wire st) of
        (ok, w) \<Rightarrow>
          (if \<not> ok then Fail plain_error
           else result_outcome r (AMap [(''_meta'', subscription_meta r)]), st\<lparr>st_wire := w\<rparr>))"

section \<open>The method set (methods.go)\<close>

definition default_methods :: "(bytes \<Rightarrow> bytes) \<Rightarrow> (bytes \<times> rpc_method) list" where
  "default_methods headline =
     [(''initialize'', mcp_initialize), (''server/discover'', discover), (''subscriptions/listen'', listen),
      (''ping'', ping), (''tools/list'', list_tools headline), (''tools/call'', call_tool),
      (''resources/list'', list_resources headline), (''resources/read'', read_resource),
      (''resources/templates/list'', list_resource_templates headline),
      (''prompts/list'', list_prompts headline), (''prompts/get'', get_prompt),
      (''completion/complete'', completion_complete)]"

end
