(* ===== verification/Session.thy ===== *)
theory Session
  imports Prelude
begin

text \<open>
  Self-authenticating session ids (\<open>server/session.go\<close>). The MAC (\<open>webhook.HMACSHA256.Sign\<close> of
  the framework) is a parameter of every definition that uses it; an empty key is the server
  without a key.
\<close>

section \<open>Issuing and verifying (session.go)\<close>

type_synonym mac = "bytes \<Rightarrow> bytes \<Rightarrow> bytes"

definition session_tag_size :: nat where "session_tag_size = 16"
definition session_tag_separator :: bytes where "session_tag_separator = ''.''"
definition session_key_label :: bytes where "session_key_label = ''velocity-mcp session id key v1''"
definition min_session_key_size :: nat where "min_session_key_size = 32"
definition max_session_id_length :: nat where "max_session_id_length = 512"

record session_config =
  sc_key :: bytes
  sc_refused :: bool
  sc_refused_size :: nat

definition with_session_key :: "mac \<Rightarrow> bytes \<Rightarrow> session_config \<Rightarrow> session_config" where
  "with_session_key mac key s =
     (if length key < min_session_key_size
      then s\<lparr>sc_refused := True, sc_refused_size := length key\<rparr>
      else s\<lparr>sc_key := mac key session_key_label\<rparr>)"

definition hex_digit_char :: "nat \<Rightarrow> char" where
  "hex_digit_char n = (if n < 10 then char_of (48 + n) else char_of (87 + n))"

definition hex_encode :: "bytes \<Rightarrow> bytes" where
  "hex_encode s = concat (map (\<lambda>c. [hex_digit_char (byte c div 16), hex_digit_char (byte c mod 16)]) s)"

definition session_tag :: "mac \<Rightarrow> bytes \<Rightarrow> bytes \<Rightarrow> bytes" where
  "session_tag mac key i = hex_encode (take session_tag_size (mac key i))"

definition tag_session_id :: "mac \<Rightarrow> bytes \<Rightarrow> bytes \<Rightarrow> bytes" where
  "tag_session_id mac key i =
     (if i = [] \<or> key = [] then i else i @ session_tag_separator @ session_tag mac key i)"

definition is_visible_ascii :: "bytes \<Rightarrow> bool" where
  "is_visible_ascii s = list_all (\<lambda>c. 0x21 \<le> byte c \<and> byte c \<le> 0x7E) s"

definition issued_session_id :: "mac \<Rightarrow> bytes \<Rightarrow> bytes \<Rightarrow> bool" where
  "issued_session_id mac key i =
     (if i = [] \<or> max_session_id_length < length i \<or> key = [] \<or> \<not> is_visible_ascii i then False
      else case last_index_of i session_tag_separator of
        None \<Rightarrow> False
      | Some at \<Rightarrow>
          if at = 0 then False
          else drop (at + length session_tag_separator) i = session_tag mac key (take at i))"

section \<open>The contract of a session authority\<close>

text \<open>
  What the server promises a transport about session ids: an id handed out for a generated id is
  vouched for, and nothing is vouched for that was not handed out for some generated id.
\<close>

locale session_authority =
  fixes issue :: "bytes \<Rightarrow> bytes" and vouches :: "bytes \<Rightarrow> bool" and good :: "bytes \<Rightarrow> bool"
  assumes issued_vouched: "good i \<Longrightarrow> vouches (issue i)"
    and vouched_issued: "vouches s \<Longrightarrow> \<exists>i. good i \<and> s = issue i"
begin

text \<open>A transport that drops what the server does not vouch for passes on issued ids only.\<close>

definition filtered :: "bytes \<Rightarrow> bytes" where
  "filtered s = (if s \<noteq> [] \<and> vouches s then s else [])"

lemma filtered_issued: "filtered s \<noteq> [] \<Longrightarrow> \<exists>i. good i \<and> filtered s = issue i"
  using vouched_issued by (auto simp: filtered_def split: if_splits)

lemma filtered_keeps: "good i \<Longrightarrow> issue i \<noteq> [] \<Longrightarrow> filtered (issue i) = issue i"
  using issued_vouched by (simp add: filtered_def)

end

section \<open>Correctness\<close>

lemma hex_digit_char_visible: "n < 16 \<Longrightarrow> 0x30 \<le> byte (hex_digit_char n) \<and> byte (hex_digit_char n) \<le> 0x66"
  by (auto simp: hex_digit_char_def)

lemma byte_nibbles: "byte c div 16 < 16" "byte c mod 16 < 16"
proof -
  have "(n::nat) < 256 \<Longrightarrow> n div 16 < 16" for n by auto
  then show "byte c div 16 < 16" by simp
qed simp

lemma hex_encode_range: "c \<in> set (hex_encode s) \<Longrightarrow> 0x30 \<le> byte c \<and> byte c \<le> 0x66"
  using hex_digit_char_visible byte_nibbles by (auto simp: hex_encode_def)

lemma hex_encode_length [simp]: "length (hex_encode s) = 2 * length s"
  by (induction s) (auto simp: hex_encode_def)

text \<open>The ids a generator may produce for the server to tag: visible ASCII, and short enough.\<close>

definition taggable :: "bytes \<Rightarrow> bool" where
  "taggable i = (i \<noteq> [] \<and> is_visible_ascii i
     \<and> length i + 1 + 2 * session_tag_size \<le> max_session_id_length)"

lemma tag_no_dot: "CHR ''.'' \<notin> set (session_tag mac key i)"
  using hex_encode_range by (fastforce simp: session_tag_def)

lemma tag_length: "session_tag_size \<le> length (mac key i) \<Longrightarrow> length (session_tag mac key i) = 2 * session_tag_size"
  by (simp add: session_tag_def)

lemma tagged_vouched:
  assumes "\<forall>k x. session_tag_size \<le> length (mac k x)" "key \<noteq> []" "taggable i"
  shows "issued_session_id mac key (tag_session_id mac key i)"
proof -
  let ?t = "session_tag mac key i"
  have i: "i \<noteq> []" "is_visible_ascii i" using assms(3) by (auto simp: taggable_def)
  have t: "tag_session_id mac key i = i @ ''.'' @ ?t"
    using i assms(2) by (simp add: tag_session_id_def session_tag_separator_def)
  have "is_visible_ascii (i @ ''.'' @ ?t)"
    using i(2) hex_encode_range by (fastforce simp: is_visible_ascii_def list_all_iff session_tag_def)
  moreover have "length (i @ ''.'' @ ?t) \<le> max_session_id_length"
    using assms(1,3) tag_length [of mac key i] by (simp add: taggable_def)
  moreover have "last_index_of (i @ ''.'' @ ?t) ''.'' = Some (length i)"
    using last_index_of_single [OF tag_no_dot] by simp
  ultimately show ?thesis
    using i assms(2) by (simp add: t issued_session_id_def session_tag_separator_def)
qed

lemma vouched_tagged:
  assumes "\<forall>k x. session_tag_size \<le> length (mac k x)" "issued_session_id mac key s"
  shows "\<exists>i. taggable i \<and> s = tag_session_id mac key i"
proof -
  obtain at where at: "s \<noteq> []" "length s \<le> max_session_id_length" "key \<noteq> []" "is_visible_ascii s"
    "last_index_of s ''.'' = Some at" "at \<noteq> 0" "drop (at + 1) s = session_tag mac key (take at s)"
    using assms(2) by (auto simp: issued_session_id_def session_tag_separator_def
        split: if_splits option.splits)
  define u where "u = take at s"
  obtain r where r: "s = u @ ''.'' @ r" "length u = at"
    using last_index_of_split [OF at(5)] by (auto simp: u_def)
  then have d: "r = session_tag mac key u" using at(7) by (simp add: u_def [symmetric])
  have ne: "u \<noteq> []" using r(2) at(6) by auto
  have "is_visible_ascii u" using at(4) r(1) by (simp add: is_visible_ascii_def)
  moreover have "length u + 1 + 2 * session_tag_size \<le> max_session_id_length"
    using d tag_length [of mac key u] assms(1) at(2) r(1) by simp
  ultimately have "taggable u" using ne by (simp add: taggable_def)
  moreover have "s = tag_session_id mac key u"
    using r(1) d ne at(3) by (simp add: tag_session_id_def session_tag_separator_def)
  ultimately show ?thesis by blast
qed

text \<open>A server with a key, over a MAC at least as long as the tag (HMAC-SHA256 gives 32 bytes).\<close>

definition well_keyed :: "mac \<Rightarrow> bytes \<Rightarrow> bool" where
  "well_keyed mac key = (key \<noteq> [] \<and> (\<forall>k x. session_tag_size \<le> length (mac k x)))"

interpretation sa: session_authority "tag_session_id mac key"
  "\<lambda>s. well_keyed mac key \<and> issued_session_id mac key s" "\<lambda>i. well_keyed mac key \<and> taggable i"
  by unfold_locales (auto simp: well_keyed_def intro: tagged_vouched dest: vouched_tagged)

text \<open>
  The server vouches for exactly the ids it issues: a tagged id is verified, and whatever is
  verified is the tagged form of some id of visible ASCII characters.
\<close>

theorem session_id_vouched:
  "well_keyed mac key \<Longrightarrow>
     issued_session_id mac key s \<longleftrightarrow> (\<exists>i. taggable i \<and> s = tag_session_id mac key i)"
  using sa.issued_vouched [of mac key] sa.vouched_issued [of mac key s] by blast

text \<open>A stand-in for the MAC in the witnesses.\<close>

definition toy_mac :: mac where
  "toy_mac k x = take 32 (k @ x @ replicate 32 (CHR ''z''))"

lemma toy_mac_keyed: "k \<noteq> [] \<Longrightarrow> well_keyed toy_mac k"
  by (auto simp: well_keyed_def toy_mac_def session_tag_size_def min_def)

theorem session_id_vouched_witness:
  "issued_session_id toy_mac ''k'' (tag_session_id toy_mac ''k'' ''a.b'')"
proof -
  have "taggable ''a.b''"
    by (simp add: taggable_def is_visible_ascii_def session_tag_size_def max_session_id_length_def)
  with session_id_vouched [OF toy_mac_keyed [of "''k''"]] show ?thesis by blast
qed



end
