(* ===== verification/Server.thy ===== *)
theory Server
  imports Methods Session
begin

text \<open>
  The server (\<open>server/server.go\<close>, \<open>options.go\<close>, \<open>method_option.go\<close>, \<open>extensions.go\<close>) and how it handles
  a message (\<open>server/handle.go\<close>).

  Handling is one function of the raw message, the session id the transport vouches for and the
  frames written so far; the id the generator draws is an argument. It gives the result, the events
  dispatched, in order, and the frames written, or \<open>None\<close> when a handler panicked. A duration, a
  log line and the request's Go context are not modelled, nor is the tool catalog a server may be
  configured with: the model is of a server without one.
\<close>

section \<open>The server (server.go)\<close>

record server =
  sv_name :: bytes
  sv_version :: bytes
  sv_instructions :: bytes
  sv_title :: bytes
  sv_website :: bytes
  sv_icons :: "icon list"
  sv_capabilities :: members
  sv_versions :: "bytes list"
  sv_tools :: "tool list"
  sv_resources :: "resource list"
  sv_templates :: "resource list"
  sv_prompts :: "prompt list"
  sv_max_page :: int
  sv_default_page :: int
  sv_cache_hint :: "cache_hint option"
  sv_method_hints :: "(bytes \<times> cache_hint) list"
  sv_session :: session_config
  sv_custom :: "(bytes \<times> rpc_method) list"
  sv_methods :: "(bytes \<times> rpc_method) list"
  sv_dispatcher :: bool

definition default_page_size :: int where "default_page_size = 15"
definition default_max_page_size :: int where "default_max_page_size = 50"

definition default_instructions :: bytes where
  "default_instructions = ''This MCP server lets AI agents interact with the application.''"

definition default_capabilities :: members where
  "default_capabilities = map (\<lambda>k. (k, AMap [(''listChanged'', ABool False)])) [''tools'', ''resources'', ''prompts'']"

text \<open>Options (options.go, method_option.go, extensions.go); a nil handler or primitive is no value here.\<close>

type_synonym server_option = "server \<Rightarrow> server"

definition with_instructions :: "bytes \<Rightarrow> server_option" where
  "with_instructions i s = s\<lparr>sv_instructions := i\<rparr>"

definition with_title :: "bytes \<Rightarrow> server_option" where
  "with_title t s = s\<lparr>sv_title := t\<rparr>"

definition with_website_url :: "bytes \<Rightarrow> server_option" where
  "with_website_url u s = s\<lparr>sv_website := u\<rparr>"

definition with_icons :: "icon list \<Rightarrow> server_option" where
  "with_icons is s = s\<lparr>sv_icons := is\<rparr>"

definition with_tools :: "tool list \<Rightarrow> server_option" where
  "with_tools ts s = s\<lparr>sv_tools := sv_tools s @ ts\<rparr>"

definition with_resources :: "resource list \<Rightarrow> server_option" where
  "with_resources rs s =
     fold (\<lambda>r s. if rc_template r \<noteq> None then s\<lparr>sv_templates := sv_templates s @ [r]\<rparr>
                 else s\<lparr>sv_resources := sv_resources s @ [r]\<rparr>) rs s"

definition with_prompts :: "prompt list \<Rightarrow> server_option" where
  "with_prompts ps s = s\<lparr>sv_prompts := sv_prompts s @ ps\<rparr>"

definition with_page_size :: "int \<Rightarrow> server_option" where
  "with_page_size n s = (if 0 < n then s\<lparr>sv_default_page := n\<rparr> else s)"

definition with_max_page_size :: "int \<Rightarrow> server_option" where
  "with_max_page_size n s = (if 0 < n then s\<lparr>sv_max_page := n\<rparr> else s)"

definition with_capability :: "bytes \<Rightarrow> bool option \<Rightarrow> server_option" where
  "with_capability key value s =
     (let v = (case value of None \<Rightarrow> True | Some b \<Rightarrow> b); caps = sv_capabilities s
      in case cut_dot key of
           (root, child, dotted) \<Rightarrow>
             if dotted
             then s\<lparr>sv_capabilities :=
                    put root (AMap (put child (ABool v) (or_empty (param_map caps root)))) caps\<rparr>
             else s\<lparr>sv_capabilities := put key (AMap []) caps\<rparr>)"

definition with_protocol_versions :: "bytes list \<Rightarrow> server_option" where
  "with_protocol_versions vs s = (if 0 < length vs then s\<lparr>sv_versions := vs\<rparr> else s)"

definition with_cache_hint :: "cache_hint \<Rightarrow> server_option" where
  "with_cache_hint h s = s\<lparr>sv_cache_hint := Some h\<rparr>"

definition with_method_cache_hint :: "bytes \<Rightarrow> cache_hint \<Rightarrow> server_option" where
  "with_method_cache_hint m h s = s\<lparr>sv_method_hints := put m h (sv_method_hints s)\<rparr>"

definition with_method :: "bytes \<Rightarrow> rpc_method \<Rightarrow> server_option" where
  "with_method name m s = (if name = [] then s else s\<lparr>sv_custom := put name m (sv_custom s)\<rparr>)"

definition with_key :: "mac \<Rightarrow> bytes \<Rightarrow> server_option" where
  "with_key mac key s = s\<lparr>sv_session := with_session_key mac key (sv_session s)\<rparr>"

definition capability_extensions :: bytes where "capability_extensions = ''extensions''"
definition extension_ui :: bytes where "extension_ui = ''io.modelcontextprotocol/ui''"

definition add_extension :: "bytes \<Rightarrow> server_option" where
  "add_extension name s =
     (let exts = or_empty (param_map (sv_capabilities s) capability_extensions)
      in s\<lparr>sv_capabilities := put capability_extensions
             (AMap (put_if (\<not> has_key exts name) name (AMap []) exts)) (sv_capabilities s)\<rparr>)"

definition with_extensions :: "bytes list \<Rightarrow> server_option" where
  "with_extensions names s = fold (\<lambda>n s. if n \<noteq> [] then add_extension n s else s) names s"

definition detect_ui_capability :: "server \<Rightarrow> server" where
  "detect_ui_capability s =
     (if list_ex (\<lambda>r. rc_app_meta r \<noteq> None) (sv_resources s) then add_extension extension_ui s
      else if list_ex (\<lambda>r. rc_app_meta r \<noteq> None) (sv_templates s) then add_extension extension_ui s
      else s)"

text \<open>The factory's methods, overlaid with the custom ones; no factory gives none.\<close>

definition build_methods :: "(bytes \<times> rpc_method) list option \<Rightarrow> server \<Rightarrow> (bytes \<times> rpc_method) list" where
  "build_methods factory s =
     fold (\<lambda>(name, m). put name m) (sv_custom s) (case factory of None \<Rightarrow> [] | Some ms \<Rightarrow> ms)"

text \<open>\<open>New\<close>, with the key drawn at random.\<close>

definition new_server ::
  "(bytes \<times> rpc_method) list option \<Rightarrow> bytes \<Rightarrow> bytes \<Rightarrow> bytes \<Rightarrow> server_option list \<Rightarrow> server" where
  "new_server factory drawn name version opts =
     (let s0 = \<lparr>sv_name = name, sv_version = version, sv_instructions = default_instructions,
                sv_title = [], sv_website = [], sv_icons = [], sv_capabilities = default_capabilities,
                sv_versions = server_supported_versions, sv_tools = [], sv_resources = [],
                sv_templates = [], sv_prompts = [], sv_max_page = default_max_page_size,
                sv_default_page = default_page_size, sv_cache_hint = None, sv_method_hints = [],
                sv_session = \<lparr>sc_key = drawn, sc_refused = False, sc_refused_size = 0\<rparr>,
                sv_custom = [], sv_methods = [], sv_dispatcher = False\<rparr>;
          s1 = detect_ui_capability (fold (\<lambda>opt s. opt s) opts s0)
      in s1\<lparr>sv_methods := build_methods factory s1\<rparr>)"

definition server_implementation :: "server \<Rightarrow> implementation" where
  "server_implementation s =
     \<lparr>im_name = sv_name s, im_version = sv_version s, im_title = sv_title s, im_description = [],
      im_icons = sv_icons s, im_website = sv_website s\<rparr>"

definition create_context :: "server \<Rightarrow> bytes \<Rightarrow> emitter option \<Rightarrow> mcp_context" where
  "create_context s session emit =
     \<lparr>cx_implementation = server_implementation s, cx_instructions = sv_instructions s,
      cx_versions = sv_versions s, cx_capabilities = sv_capabilities s, cx_tools = sv_tools s,
      cx_resources = sv_resources s, cx_templates = sv_templates s, cx_prompts = sv_prompts s,
      cx_max_page = sv_max_page s, cx_default_page = sv_default_page s,
      cx_cache_hint = sv_cache_hint s, cx_method_hints = sv_method_hints s,
      cx_session = session, cx_emit = emit\<rparr>"

section \<open>Events (event/event.go)\<close>

record client_info =
  cl_name :: bytes
  cl_title :: bytes
  cl_version :: bytes

datatype server_event =
    SessionInitialized bytes "client_info option" bytes "members option"
  | ToolCalled bytes bytes "members option" bool
  | ToolFailed bytes bytes "members option" "go_error option"

definition dispatch :: "server \<Rightarrow> server_event \<Rightarrow> server_event list" where
  "dispatch s e = (if sv_dispatcher s then [e] else [])"

section \<open>Handling a message (handle.go)\<close>

definition client_info_from_params :: "members \<Rightarrow> client_info option" where
  "client_info_from_params ps =
     (case param_map ps ''clientInfo'' of
        None \<Rightarrow> None
      | Some info \<Rightarrow> Some \<lparr>cl_name = param_str info ''name'', cl_title = param_str info ''title'',
                          cl_version = param_str info ''version''\<rparr>)"

definition decode_is_error :: "bytes \<times> bytes \<times> json \<Rightarrow> bool \<Rightarrow> bool option" where
  "decode_is_error m old =
     (case m of (k, _, v) \<Rightarrow>
        if field_is ''isError'' (unquote k)
        then (case v of JBool b \<Rightarrow> Some b | JNull \<Rightarrow> Some old | _ \<Rightarrow> None)
        else Some old)"

definition result_is_error :: "rpc_response option \<Rightarrow> bool" where
  "result_is_error rsp =
     (case rsp of
        None \<Rightarrow> False
      | Some x \<Rightarrow>
          if rs_error x \<noteq> None \<or> rs_result x = [] then False
          else case json_parse (rs_result x) of
            Some (JObj ms) \<Rightarrow>
              (case decode_members decode_is_error ms False of None \<Rightarrow> False | Some b \<Rightarrow> b)
          | _ \<Rightarrow> False)"

text \<open>\<open>withError\<close>: the reply an outcome that is no panic gives.\<close>

definition with_error :: "rpc_id \<Rightarrow> method_outcome \<Rightarrow> rpc_response option" where
  "with_error i out =
     (case out of
        Reply (Some rsp) \<Rightarrow> Some rsp
      | Reply None \<Rightarrow> new_result i NoResult
      | Fail e \<Rightarrow>
          (case ge_rpc e of
             Some err \<Rightarrow> Some (new_error_response i err)
           | None \<Rightarrow> Some (new_error_response_code i code_internal_error internal_error_message))
      | Panic \<Rightarrow> None)"

record handled =
  hn_result :: handle_result
  hn_events :: "server_event list"
  hn_wire :: wire

definition reply_only :: "rpc_response option \<Rightarrow> handle_result" where
  "reply_only rsp = \<lparr>hr_response = rsp, hr_has_response = True, hr_session = []\<rparr>"

definition handled_reply :: "rpc_response \<Rightarrow> wire \<Rightarrow> handled" where
  "handled_reply rsp w = \<lparr>hn_result = reply_only (Some rsp), hn_events = [], hn_wire = w\<rparr>"

definition method_not_found :: "rpc_request \<Rightarrow> rpc_response" where
  "method_not_found r =
     new_error_response_code (rq_id r) code_method_not_found (''The method ['' @ rq_method r @ ''] was not found.'')"

definition issue_session_id :: "mac \<Rightarrow> server \<Rightarrow> bytes \<Rightarrow> bytes" where
  "issue_session_id mac s gen = tag_session_id mac (sc_key (sv_session s)) gen"

definition start_state :: "wire \<Rightarrow> msg_state" where
  "start_state w = \<lparr>st_wire = w, st_negotiated = []\<rparr>"

definition succeeded :: "rpc_response option \<Rightarrow> bool" where
  "succeeded rsp = (case rsp of None \<Rightarrow> False | Some x \<Rightarrow> rs_error x = None)"

definition handle_initialize ::
  "mac \<Rightarrow> server \<Rightarrow> bytes \<Rightarrow> mcp_context \<Rightarrow> rpc_request \<Rightarrow> wire \<Rightarrow> handled option" where
  "handle_initialize mac s gen c r w =
     (let m = (case map_of (sv_methods s) ''initialize'' of Some m \<Rightarrow> m | None \<Rightarrow> mcp_initialize)
      in case m c r (start_state w) of
           (Panic, _) \<Rightarrow> None
         | (out, st) \<Rightarrow>
             (let rsp = with_error (rq_id r) out
              in if succeeded rsp
                 then
                   (let sid = issue_session_id mac s gen; ps = decode_bag (rq_params r)
                    in Some \<lparr>hn_result = (reply_only rsp)\<lparr>hr_session := sid\<rparr>,
                             hn_events = dispatch s (SessionInitialized sid (client_info_from_params ps)
                               (st_negotiated st) (param_map ps ''capabilities'')),
                             hn_wire = st_wire st\<rparr>)
                 else Some \<lparr>hn_result = reply_only rsp, hn_events = [], hn_wire = st_wire st\<rparr>))"

definition outcome_error :: "method_outcome \<Rightarrow> go_error option" where
  "outcome_error out = (case out of Fail e \<Rightarrow> Some e | _ \<Rightarrow> None)"

definition handle_tool_call ::
  "server \<Rightarrow> mcp_context \<Rightarrow> rpc_request \<Rightarrow> rpc_method \<Rightarrow> bytes \<Rightarrow> wire \<Rightarrow> handled option" where
  "handle_tool_call s c r m session w =
     (let ps = decode_bag (rq_params r); name = param_str ps ''name''; args = param_map ps ''arguments''
      in case m c r (start_state w) of
           (Panic, _) \<Rightarrow> None
         | (out, st) \<Rightarrow>
             (let rsp = with_error (rq_id r) out;
                  failed = (outcome_error out \<noteq> None \<or> (case rsp of None \<Rightarrow> False | Some x \<Rightarrow> rs_error x \<noteq> None))
              in Some \<lparr>hn_result = reply_only rsp,
                       hn_events = dispatch s
                         (if failed then ToolFailed session name args (outcome_error out)
                          else ToolCalled session name args (result_is_error rsp)),
                       hn_wire = st_wire st\<rparr>))"

definition route ::
  "mac \<Rightarrow> server \<Rightarrow> bytes \<Rightarrow> mcp_context \<Rightarrow> rpc_request \<Rightarrow> bytes \<Rightarrow> wire \<Rightarrow> handled option" where
  "route mac s gen c r session w =
     (if rq_method r = ''initialize'' then
        if predates_protocol_meta (rq_method r) \<and> \<not> is_legacy_meta (request_meta r)
        then Some (handled_reply (method_not_found r) w)
        else handle_initialize mac s gen c r w
      else case map_of (sv_methods s) (rq_method r) of
        None \<Rightarrow> Some (handled_reply (method_not_found r) w)
      | Some m \<Rightarrow>
          (case validate_arguments r of
             Some e \<Rightarrow> Some (handled_reply (new_error_response (rq_id r) e) w)
           | None \<Rightarrow>
               if rq_method r = ''tools/call'' then handle_tool_call s c r m session w
               else (case m c r (start_state w) of
                       (Panic, _) \<Rightarrow> None
                     | (out, st) \<Rightarrow> Some \<lparr>hn_result = reply_only (with_error (rq_id r) out), hn_events = [],
                                         hn_wire = st_wire st\<rparr>)))"

definition handle ::
  "mac \<Rightarrow> server \<Rightarrow> emitter option \<Rightarrow> bytes \<Rightarrow> bytes \<Rightarrow> bytes \<Rightarrow> wire \<Rightarrow> handled option" where
  "handle mac s emit gen raw session w =
     (case is_notification_bytes raw of
        Inl e \<Rightarrow> Some (handled_reply (new_error_response null_id e) w)
      | Inr True \<Rightarrow>
          (case parse_notification raw of
             Inl e \<Rightarrow> Some (handled_reply (new_error_response null_id e) w)
           | Inr _ \<Rightarrow> Some \<lparr>hn_result = \<lparr>hr_response = None, hr_has_response = False, hr_session = []\<rparr>,
                           hn_events = [], hn_wire = w\<rparr>)
      | Inr False \<Rightarrow>
          (case parse_request raw of
             Inl (i, e) \<Rightarrow> Some (handled_reply (new_error_response i e) w)
           | Inr r \<Rightarrow>
               (let c = create_context s session emit
                in case validate_protocol_meta (cx_versions c) r of
                     Some e \<Rightarrow> Some (handled_reply (new_error_response (rq_id r) e) w)
                   | None \<Rightarrow>
                       map_option (\<lambda>h. h\<lparr>hn_result := apply_result_envelope c r (hn_result h)\<rparr>)
                         (route mac s gen c r session w))))"

text \<open>
  Only \<open>initialize\<close> is served without the method factory: a ping to a server that has none is an
  unknown method, whatever the comments on \<open>buildMethods\<close> and \<open>methodFactory\<close> say.
\<close>

lemma ping_needs_factory:
  "sv_custom s = [] \<Longrightarrow> sv_methods s = build_methods None s \<Longrightarrow> rq_method r = ''ping'' \<Longrightarrow>
     route mac s gen c r session w = Some (handled_reply (method_not_found r) w)"
  by (simp add: route_def build_methods_def)

section \<open>Which messages are answered, and under which id\<close>

text \<open>A method that replies does so under the id of the request it is given.\<close>

definition answers :: "rpc_method \<Rightarrow> bool" where
  "answers m = (\<forall>c r st. case fst (m c r st) of Reply (Some rsp) \<Rightarrow> rs_id rsp = rq_id r | _ \<Rightarrow> True)"

lemma new_result_id: "new_result i v = Some rsp \<Longrightarrow> rs_id rsp = i \<and> rs_error rsp = None"
  by (auto simp: new_result_def)

lemma result_outcome_id:
  "case result_outcome r v of Reply (Some rsp) \<Rightarrow> rs_id rsp = rq_id r | _ \<Rightarrow> True"
  by (auto simp: result_outcome_def dest: new_result_id split: option.splits)

lemma error_outcome_id:
  "case error_outcome r code msg of Reply (Some rsp) \<Rightarrow> rs_id rsp = rq_id r | _ \<Rightarrow> True"
  by (simp add: error_outcome_def new_error_response_code_def new_error_response_def)

lemma list_page_id: "case list_page c r k items of Reply (Some rsp) \<Rightarrow> rs_id rsp = rq_id r | _ \<Rightarrow> True"
  using result_outcome_id by (auto simp: list_page_def paginated_result_def Let_def split: option.splits)

lemmas outcome_ids = result_outcome_id error_outcome_id list_page_id

lemma answers_simple [simp]:
  "answers mcp_initialize" "answers discover" "answers ping" "answers (list_tools h)"
  "answers (list_resources h)" "answers (list_resource_templates h)" "answers (list_prompts h)"
  using outcome_ids
  by (simp_all add: answers_def mcp_initialize_def discover_def ping_def list_tools_def
      list_resources_def list_resource_templates_def list_prompts_def)

lemma answers_listen [simp]: "answers listen"
  using outcome_ids by (auto simp: answers_def listen_def split: prod.splits if_splits)

lemma answers_call_tool [simp]: "answers call_tool"
  using outcome_ids by (auto simp: answers_def call_tool_def Let_def split: option.splits prod.splits sum.splits)

lemma answers_get_prompt [simp]: "answers get_prompt"
  using outcome_ids by (auto simp: answers_def get_prompt_def Let_def split: option.splits prod.splits sum.splits)

lemma answers_read_resource [simp]: "answers read_resource"
  using outcome_ids by (auto simp: answers_def read_resource_def Let_def split: option.splits prod.splits sum.splits)

lemma answers_completion [simp]: "answers completion_complete"
  using outcome_ids
  by (auto simp: answers_def completion_complete_def Let_def new_error_response_def
      split: option.splits prod.splits sum.splits)

lemma default_methods_answer: "(name, m) \<in> set (default_methods h) \<Longrightarrow> answers m"
  by (auto simp: default_methods_def)

text \<open>A server the default factory and well-behaved custom methods were put in.\<close>

definition standard_server :: "(bytes \<Rightarrow> bytes) \<Rightarrow> server \<Rightarrow> bool" where
  "standard_server h s =
     (sv_methods s = build_methods (Some (default_methods h)) s \<and> (\<forall>(name, m) \<in> set (sv_custom s). answers m))"

lemma set_fold_put: "set (fold (\<lambda>(k, v). put k v) xs ms) \<subseteq> set xs \<union> set ms"
proof (induction xs arbitrary: ms)
  case (Cons x xs)
  obtain k v where x: "x = (k, v)" by (cases x)
  have "set (fold (\<lambda>(k, v). put k v) xs (put k v ms)) \<subseteq> set xs \<union> set (put k v ms)" by (rule Cons.IH)
  with set_put [of k v ms] x show ?case by auto
qed simp

lemma standard_answers: "standard_server h s \<Longrightarrow> map_of (sv_methods s) name = Some m \<Longrightarrow> answers m"
  using set_fold_put [of "sv_custom s" "default_methods h"] default_methods_answer
  by (fastforce simp: standard_server_def build_methods_def dest: map_of_SomeD)

lemma with_error_id:
  "answers m \<Longrightarrow> m c r st = (out, st') \<Longrightarrow> out \<noteq> Panic \<Longrightarrow>
     \<exists>rsp. with_error (rq_id r) out = Some rsp \<and> rs_id rsp = rq_id r"
proof -
  assume m: "answers m" "m c r st = (out, st')" "out \<noteq> Panic"
  then have "case out of Reply (Some rsp) \<Rightarrow> rs_id rsp = rq_id r | _ \<Rightarrow> True"
    unfolding answers_def by (metis fst_conv)
  with m(3) show ?thesis
    by (auto simp: with_error_def new_error_response_code_def new_error_response_def new_result_def
        marshal_result_def split: method_outcome.splits option.splits)
qed

text \<open>An envelope leaves the id, the error, the session and whether there is a reply as they are.\<close>

lemma envelope_frame:
  "hr_has_response (apply_result_envelope c r res) = hr_has_response res"
  "hr_session (apply_result_envelope c r res) = hr_session res"
  "map_option rs_id (hr_response (apply_result_envelope c r res)) = map_option rs_id (hr_response res)"
  "map_option rs_error (hr_response (apply_result_envelope c r res)) = map_option rs_error (hr_response res)"
  by (auto simp: apply_result_envelope_def Let_def split: option.splits decoded.splits)

text \<open>A successful result that is JSON stays JSON.\<close>

lemma envelope_token:
  assumes "hr_response res = Some rsp" "rs_error rsp = None" "token max_nesting (rs_result rsp)"
  shows "\<exists>rsp'. hr_response (apply_result_envelope c r res) = Some rsp' \<and> rs_id rsp' = rs_id rsp
    \<and> rs_error rsp' = None \<and> token max_nesting (rs_result rsp')"
proof (cases "unmarshal_map (rs_result rsp)")
  case (Dec ms)
  from envelope_result [OF assms(1,2) Dec, of c r] obtain out
    where "apply_result_envelope c r res = res\<lparr>hr_response := Some (rsp\<lparr>rs_result := out\<rparr>)\<rparr>"
      "token max_nesting out" by metis
  then show ?thesis using assms(2) by simp
next
  case DecErr
  then have "apply_result_envelope c r res = res"
    using assms(1,2) by (simp add: apply_result_envelope_def)
  then show ?thesis using assms by simp
next
  case DecNil
  then have "apply_result_envelope c r res = res"
    using assms(1,2) by (simp add: apply_result_envelope_def)
  then show ?thesis using assms by simp
qed

lemma request_no_notification: "parse_request raw = Inr r \<Longrightarrow> is_notification_bytes raw = Inr False"
proof -
  assume "parse_request raw = Inr r"
  then obtain ms where "unmarshal_map raw = Dec ms" "request_object ms r" using parse_request_iff by blast
  then show ?thesis by (auto simp: is_notification_bytes_def strict_unmarshal_def request_object_def env_has_def)
qed

lemma create_context_versions: "cx_versions (create_context s session emit) = sv_versions s"
  by (simp add: create_context_def)

text \<open>Handling a request that parses: the metadata check, then the routing, enveloped.\<close>

lemma handle_request:
  assumes "parse_request raw = Inr r"
  shows "handle mac s emit gen raw session w =
    (case validate_protocol_meta (sv_versions s) r of
       Some e \<Rightarrow> Some (handled_reply (new_error_response (rq_id r) e) w)
     | None \<Rightarrow> map_option (\<lambda>h. h\<lparr>hn_result := apply_result_envelope (create_context s session emit) r (hn_result h)\<rparr>)
         (route mac s gen (create_context s session emit) r session w))"
  using assms request_no_notification [OF assms]
  by (simp add: handle_def Let_def create_context_versions split: option.splits)


lemma handle_request_cases:
  assumes "parse_request raw = Inr r" "handle mac s emit gen raw session w = Some ho"
  obtains (refused) e where "validate_protocol_meta (sv_versions s) r = Some e"
      "ho = handled_reply (new_error_response (rq_id r) e) w"
  | (routed) h where "validate_protocol_meta (sv_versions s) r = None"
      "route mac s gen (create_context s session emit) r session w = Some h"
      "ho = h\<lparr>hn_result := apply_result_envelope (create_context s session emit) r (hn_result h)\<rparr>"
  using assms(2) unfolding handle_request [OF assms(1)] by (auto split: option.splits)

lemma handled_reply_simps [simp]:
  "hn_result (handled_reply rsp w) = reply_only (Some rsp)" "hn_events (handled_reply rsp w) = []"
  "hn_wire (handled_reply rsp w) = w"
  "hr_response (reply_only x) = x" "hr_has_response (reply_only x)" "hr_session (reply_only x) = []"
  by (simp_all add: handled_reply_def reply_only_def)

lemma error_response_simps [simp]:
  "rs_id (new_error_response i e) = i" "rs_error (new_error_response i e) = Some e"
  "rs_id (new_error_response_code i code msg) = i"
  "rs_error (new_error_response_code i code msg) = Some (new_error code msg)"
  "rs_id (method_not_found r) = rq_id r" "rs_error (method_not_found r) \<noteq> None"
  by (simp_all add: new_error_response_def new_error_response_code_def method_not_found_def)

lemma answers_initialize: "answers mcp_initialize" by (rule answers_simple)

lemma handle_initialize_answers:
  assumes "standard_server h s" "handle_initialize mac s gen c r w = Some ho"
  shows "\<exists>rsp. hr_response (hn_result ho) = Some rsp \<and> rs_id rsp = rq_id r \<and> hr_has_response (hn_result ho)"
proof -
  define m where "m = (case map_of (sv_methods s) ''initialize'' of Some m \<Rightarrow> m | None \<Rightarrow> mcp_initialize)"
  have m: "answers m"
    using standard_answers [OF assms(1)] answers_initialize by (auto simp: m_def split: option.splits)
  obtain out st where o: "m c r (start_state w) = (out, st)" by (cases "m c r (start_state w)")
  have np: "out \<noteq> Panic" using assms(2) o by (auto simp: handle_initialize_def m_def Let_def)
  obtain rsp where rsp: "with_error (rq_id r) out = Some rsp" "rs_id rsp = rq_id r"
    using with_error_id [OF m o np] by blast
  then show ?thesis
    using assms(2) o np
    by (auto simp: handle_initialize_def m_def [symmetric] Let_def split: method_outcome.splits if_splits)
qed

lemma route_answers:
  assumes "standard_server h s" "route mac s gen c r session w = Some ho"
  shows "\<exists>rsp. hr_response (hn_result ho) = Some rsp \<and> rs_id rsp = rq_id r \<and> hr_has_response (hn_result ho)"
proof (cases "rq_method r = ''initialize''")
  case True
  then show ?thesis
    using assms handle_initialize_answers [OF assms(1), of mac gen c r w ho]
    by (auto simp: route_def split: if_splits)
next
  case False
  note r = assms(2) [unfolded route_def if_not_P [OF False]]
  show ?thesis
  proof (cases "map_of (sv_methods s) (rq_method r)")
    case None
    with r show ?thesis by auto
  next
    case (Some m)
    have m: "answers m" by (rule standard_answers [OF assms(1) Some])
    obtain out st where o: "m c r (start_state w) = (out, st)" by (cases "m c r (start_state w)")
    show ?thesis
    proof (cases "validate_arguments r")
      case (Some e)
      with r \<open>map_of _ _ = Some m\<close> show ?thesis by auto
    next
      case None
      note r' = r [unfolded \<open>map_of _ _ = Some m\<close> None, simplified]
      then have np: "out \<noteq> Panic" using o by (auto simp: handle_tool_call_def Let_def split: if_splits)
      obtain rsp where rsp: "with_error (rq_id r) out = Some rsp" "rs_id rsp = rq_id r"
        using with_error_id [OF m o np] by blast
      then show ?thesis
        using r' o np
        by (auto simp: handle_tool_call_def Let_def split: method_outcome.splits if_splits)
    qed
  qed
qed

lemma handle_answered:
  assumes "standard_server h s" "handle mac s emit gen raw session w = Some ho"
  shows "if is_notification_bytes raw = Inr True \<and> \<not> isl (parse_notification raw)
    then hr_response (hn_result ho) = None \<and> \<not> hr_has_response (hn_result ho)
      \<and> hr_session (hn_result ho) = [] \<and> hn_events ho = [] \<and> hn_wire ho = w
    else \<exists>rsp. hr_response (hn_result ho) = Some rsp \<and> hr_has_response (hn_result ho)
      \<and> (case parse_request raw of
           Inr r \<Rightarrow> rs_id rsp = rq_id r
         | Inl _ \<Rightarrow> rs_error rsp \<noteq> None \<and> hr_session (hn_result ho) = [] \<and> hn_events ho = [] \<and> hn_wire ho = w)"
proof (cases "parse_request raw")
  case (Inl ie)
  then show ?thesis
    using assms(2) by (auto simp: handle_def split: sum.splits bool.splits prod.splits)
next
  case (Inr r)
  have "\<exists>rsp. hr_response (hn_result ho) = Some rsp \<and> hr_has_response (hn_result ho) \<and> rs_id rsp = rq_id r"
    using Inr assms(2)
  proof (cases rule: handle_request_cases)
    case (routed g)
    obtain rsp where "hr_response (hn_result g) = Some rsp" "rs_id rsp = rq_id r" "hr_has_response (hn_result g)"
      using route_answers [OF assms(1) routed(2)] by blast
    then show ?thesis
      using envelope_frame(1,3) [of "create_context s session emit" r "hn_result g"]
      by (auto simp: routed(3))
  qed auto
  then show ?thesis using request_no_notification [OF Inr] Inr by auto
qed


text \<open>
  C8. Exactly one reply, under the right id: a well-formed notification gets none and has no effect;
  every other message gets exactly one reply, a request one under its own id, and a message that is
  no request an error that opens no session, dispatches no event and streams nothing.
\<close>

theorem handle_answers:
  assumes "standard_server h s" "handle mac s emit gen raw session w = Some ho"
  shows "if is_notification_bytes raw = Inr True \<and> \<not> isl (parse_notification raw)
    then hr_response (hn_result ho) = None \<and> \<not> hr_has_response (hn_result ho)
      \<and> hr_session (hn_result ho) = [] \<and> hn_events ho = [] \<and> hn_wire ho = w
    else \<exists>rsp. hr_response (hn_result ho) = Some rsp \<and> hr_has_response (hn_result ho)
      \<and> (case parse_request raw of
           Inr r \<Rightarrow> rs_id rsp = rq_id r
         | Inl _ \<Rightarrow> rs_error rsp \<noteq> None \<and> hr_session (hn_result ho) = [] \<and> hn_events ho = [] \<and> hn_wire ho = w)"
  using assms by (rule handle_answered)

section \<open>Handling always finishes\<close>

text \<open>
  The sizes under which no slice of a list page is out of range: the longest list and the largest page
  together fit in an \<open>int\<close>.
\<close>

definition roomy :: "mcp_context \<Rightarrow> bool" where
  "roomy c = (\<forall>n \<in> {length (cx_tools c), length (cx_resources c), length (cx_templates c),
     length (cx_prompts c)}. int n + cx_max_page c < 2 ^ 63)"

definition panic_free :: "rpc_method \<Rightarrow> bool" where
  "panic_free m = (\<forall>c r st. roomy c \<longrightarrow> fst (m c r st) \<noteq> Panic)"

lemma outcome_no_panic [simp]: "result_outcome r v \<noteq> Panic" "error_outcome r code msg \<noteq> Panic"
  by (auto simp: result_outcome_def error_outcome_def split: option.splits)

lemma list_page_no_panic:
  assumes "int (length items) + cx_max_page c < 2 ^ 63"
  shows "list_page c r k items \<noteq> Panic"
proof -
  let ?p = "decode_params r"
  obtain page nxt n where "paginate items (per_page (cx_default_page c) (cx_max_page c) (param_int ?p ''per_page''))
      (param_str ?p ''cursor'') = Some (page, nxt)" using paginate_within [OF assms] by blast
  then show ?thesis by (simp add: list_page_def paginated_result_def Let_def)
qed

lemma panic_free_methods:
  "panic_free mcp_initialize" "panic_free discover" "panic_free ping" "panic_free (list_tools h)"
  "panic_free (list_resources h)" "panic_free (list_resource_templates h)" "panic_free (list_prompts h)"
  by (simp_all add: panic_free_def mcp_initialize_def discover_def ping_def list_tools_def roomy_def
      list_resources_def list_resource_templates_def list_prompts_def list_page_no_panic)

lemma panic_free_handlers:
  "panic_free listen" "panic_free call_tool" "panic_free get_prompt" "panic_free read_resource"
  by (auto simp: panic_free_def listen_def call_tool_def get_prompt_def read_resource_def Let_def
      split: option.splits prod.splits sum.splits)

lemma panic_free_completion: "panic_free completion_complete"
  by (auto simp: panic_free_def completion_complete_def Let_def split: option.splits prod.splits sum.splits)

lemmas default_panic_free = panic_free_methods panic_free_handlers panic_free_completion

lemma default_methods_panic_free: "(name, m) \<in> set (default_methods h) \<Longrightarrow> panic_free m"
  using default_panic_free by (auto simp: default_methods_def)

lemma methods_panic_free:
  assumes "sv_methods s = build_methods (Some (default_methods h)) s"
    "list_all (\<lambda>(name, m). panic_free m) (sv_custom s)" "map_of (sv_methods s) name = Some m"
  shows "panic_free m"
  using set_fold_put [of "sv_custom s" "default_methods h"] assms default_methods_panic_free
  by (fastforce simp: build_methods_def list_all_iff dest: map_of_SomeD)

definition server_roomy :: "server \<Rightarrow> bool" where
  "server_roomy s = roomy (create_context s [] None)"

lemma create_context_roomy: "roomy (create_context s session emit) = server_roomy s"
  by (simp add: server_roomy_def create_context_def roomy_def)

lemma handle_tool_call_finishes:
  "fst (m c r (start_state w)) \<noteq> Panic \<Longrightarrow> handle_tool_call s c r m session w \<noteq> None"
  by (auto simp: handle_tool_call_def Let_def split: prod.splits method_outcome.splits)

lemma handle_initialize_finishes:
  assumes "\<And>m. map_of (sv_methods s) ''initialize'' = Some m \<Longrightarrow> fst (m c r (start_state w)) \<noteq> Panic"
  shows "handle_initialize mac s gen c r w \<noteq> None"
proof -
  define m where "m = (case map_of (sv_methods s) ''initialize'' of Some m \<Rightarrow> m | None \<Rightarrow> mcp_initialize)"
  have "fst (m c r (start_state w)) \<noteq> Panic"
    using assms by (auto simp: m_def mcp_initialize_def split: option.splits)
  then show ?thesis
    by (auto simp: handle_initialize_def m_def [symmetric] Let_def split: prod.splits method_outcome.splits)
qed

lemma route_finishes:
  assumes "\<And>name m. map_of (sv_methods s) name = Some m \<Longrightarrow> fst (m c r (start_state w)) \<noteq> Panic"
  shows "route mac s gen c r session w \<noteq> None"
proof (cases "rq_method r = ''initialize''")
  case True
  with handle_initialize_finishes [of s c r w mac gen] assms show ?thesis by (auto simp: route_def)
next
  case False
  show ?thesis
  proof (cases "map_of (sv_methods s) (rq_method r)")
    case (Some m)
    obtain out st where o: "m c r (start_state w) = (out, st)" by (cases "m c r (start_state w)")
    then have "out \<noteq> Panic" using assms [OF Some] by simp
    with o False Some handle_tool_call_finishes [of m c r w s session] show ?thesis
      by (cases out) (auto simp: route_def split: option.splits)
  qed (simp add: route_def False)
qed

lemma handle_some:
  assumes "sv_methods s = build_methods (Some (default_methods h)) s"
    "list_all (\<lambda>(name, m). panic_free m) (sv_custom s)" "server_roomy s"
  shows "\<exists>ho. handle mac s emit gen raw session w = Some ho"
proof -
  have "route mac s gen (create_context s session emit) r session w \<noteq> None" for r
    by (rule route_finishes)
      (use methods_panic_free [OF assms(1,2)] assms(3) create_context_roomy panic_free_def in blast)
  then show ?thesis
    by (auto simp: handle_def Let_def split: sum.splits bool.splits option.splits)
qed


text \<open>
  C9. Every message is handled to the end: a server with the default methods, and custom ones that
  do not panic themselves, never panics on any input, as long as its longest list and its maximum
  page size together fit in an \<open>int\<close>.
\<close>

theorem handle_finishes:
  assumes "sv_methods s = build_methods (Some (default_methods h)) s"
    "list_all (\<lambda>(name, m). panic_free m) (sv_custom s)" "server_roomy s"
  shows "\<exists>ho. handle mac s emit gen raw session w = Some ho"
  using assms by (rule handle_some)

definition demo_server :: server where
  "demo_server = new_server (Some (default_methods (\<lambda>x. x))) ''k'' ''demo'' ''1'' []"

lemma demo_server_methods:
  "sv_methods demo_server = build_methods (Some (default_methods (\<lambda>x. x))) demo_server"
  "sv_custom demo_server = []" "server_roomy demo_server"
  by (simp_all add: demo_server_def new_server_def Let_def detect_ui_capability_def build_methods_def
      server_roomy_def roomy_def create_context_def default_max_page_size_def)

theorem handle_finishes_witness:
  "\<exists>ho. handle toy_mac demo_server None ''g'' ''{'' [] [] = Some ho"
  by (rule handle_finishes [OF demo_server_methods(1)]) (simp_all add: demo_server_methods)


definition ping_message :: bytes where
  "ping_message = ''{\"jsonrpc\":\"2.0\",\"id\":7,\"method\":\"ping\"}''"

lemma ping_request: "case parse_request ping_message of Inl _ \<Rightarrow> False | Inr r \<Rightarrow> rq_id r = Id ''7''"
  by code_simp

lemma demo_server_standard: "standard_server (\<lambda>x. x) demo_server"
  by (simp add: standard_server_def demo_server_methods)

theorem handle_answers_witness:
  "\<exists>ho rsp. handle toy_mac demo_server None ''g'' ping_message [] [] = Some ho
     \<and> hr_response (hn_result ho) = Some rsp \<and> hr_has_response (hn_result ho) \<and> rs_id rsp = Id ''7''"
proof -
  obtain ho where ho: "handle toy_mac demo_server None ''g'' ping_message [] [] = Some ho"
    using handle_some [OF demo_server_methods(1)] demo_server_methods by fastforce
  obtain r where r: "parse_request ping_message = Inr r" "rq_id r = Id ''7''"
    using ping_request by (auto split: sum.splits)
  have "is_notification_bytes ping_message = Inr False" by (rule request_no_notification [OF r(1)])
  then show ?thesis using handle_answers [OF demo_server_standard ho] ho r by auto
qed


section \<open>The handshake\<close>

definition initialize_result :: "mcp_context \<Rightarrow> rpc_request \<Rightarrow> any" where
  "initialize_result c r = AMap [(''protocolVersion'', AStr (negotiate r)),
     (''capabilities'', AMap (cx_capabilities c)),
     (''serverInfo'', AMap (implementation_map (cx_implementation c))),
     (''instructions'', AStr (cx_instructions c))]"

lemma initialize_replies:
  assumes "wf_any_members (max_nesting - 2) (cx_capabilities c)"
  obtains out where "fst (mcp_initialize c r st) = Reply (Some \<lparr>rs_id = rq_id r, rs_result = out, rs_error = None\<rparr>)"
    "token max_nesting out"
proof -
  define k where "k = max_nesting - 2"
  have n: "max_nesting = Suc (Suc k)" "3 \<le> k" by (simp_all add: k_def max_nesting_def)
  have "wf_any_members k (implementation_map (cx_implementation c))"
    by (rule implementation_map_wf [OF n(2)])
  then have "wf_any max_nesting (initialize_result c r)"
    using assms by (simp add: initialize_result_def n(1))
  then obtain out where "marshal (initialize_result c r) = Some out" "token max_nesting out"
    using marshal_token by blast
  then show thesis
    using that by (simp add: mcp_initialize_def result_outcome_def new_result_def marshal_result_def
        initialize_result_def)
qed

lemma negotiate_offered: "negotiate r \<in> set initialize_supported_versions"
  by (auto simp: negotiate_def initialize_supported_versions_def
      split: option.splits any.splits)

lemma negotiate_requested:
  "map_of (decode_bag (rq_params r)) ''protocolVersion'' = Some (AStr v) \<Longrightarrow>
     v \<in> set initialize_supported_versions \<Longrightarrow> negotiate r = v"
  by (simp add: negotiate_def)

lemma issued_not_empty: "gen \<noteq> [] \<Longrightarrow> issue_session_id mac s gen \<noteq> []"
  by (simp add: issue_session_id_def tag_session_id_def)


lemma legacy_initialize_admitted:
  "rq_method r = ''initialize'' \<Longrightarrow> is_legacy_meta (request_meta r) \<Longrightarrow> validate_protocol_meta vs r = None"
  by (simp add: validate_protocol_meta_def is_legacy_request_def requires_protocol_meta_def Let_def)

lemma handle_initialize_reply:
  assumes "map_of (sv_methods s) ''initialize'' = Some m"
    "m c r (start_state w) = (Reply (Some rsp), st)"
  shows "handle_initialize mac s gen c r w =
    Some (if rs_error rsp = None
          then \<lparr>hn_result = (reply_only (Some rsp))\<lparr>hr_session := issue_session_id mac s gen\<rparr>,
                hn_events = dispatch s (SessionInitialized (issue_session_id mac s gen)
                  (client_info_from_params (decode_bag (rq_params r))) (st_negotiated st)
                  (param_map (decode_bag (rq_params r)) ''capabilities'')),
                hn_wire = st_wire st\<rparr>
          else \<lparr>hn_result = reply_only (Some rsp), hn_events = [], hn_wire = st_wire st\<rparr>)"
  using assms by (simp add: handle_initialize_def Let_def with_error_def succeeded_def)

lemma initialize_opens:
  assumes "parse_request raw = Inr r" "rq_method r = ''initialize''"
    "map_of (sv_methods s) ''initialize'' = Some mcp_initialize"
    "wf_any_members (max_nesting - 2) (sv_capabilities s)" "is_legacy_meta (request_meta r)"
  obtains ho rsp where "handle mac s emit gen raw session w = Some ho" "hn_wire ho = w"
    "hr_response (hn_result ho) = Some rsp" "rs_id rsp = rq_id r" "rs_error rsp = None"
    "hr_session (hn_result ho) = issue_session_id mac s gen"
    "hn_events ho = dispatch s (SessionInitialized (issue_session_id mac s gen)
       (client_info_from_params (decode_bag (rq_params r))) (negotiate r)
       (param_map (decode_bag (rq_params r)) ''capabilities''))"
    "token max_nesting (rs_result rsp)" "hr_has_response (hn_result ho)"
proof -
  let ?c = "create_context s session emit"
  have "wf_any_members (max_nesting - 2) (cx_capabilities ?c)"
    using assms(4) by (simp add: create_context_def)
  then obtain out where out: "fst (mcp_initialize ?c r (start_state w))
      = Reply (Some \<lparr>rs_id = rq_id r, rs_result = out, rs_error = None\<rparr>)" "token max_nesting out"
    by (rule initialize_replies)
  define rsp where "rsp = \<lparr>rs_id = rq_id r, rs_result = out, rs_error = None\<rparr>"
  define ho where "ho = \<lparr>hn_result = apply_result_envelope ?c r
      ((reply_only (Some rsp))\<lparr>hr_session := issue_session_id mac s gen\<rparr>),
    hn_events = dispatch s (SessionInitialized (issue_session_id mac s gen)
      (client_info_from_params (decode_bag (rq_params r))) (negotiate r)
      (param_map (decode_bag (rq_params r)) ''capabilities'')), hn_wire = w\<rparr>"
  have "mcp_initialize ?c r (start_state w) = (Reply (Some rsp), (start_state w)\<lparr>st_negotiated := negotiate r\<rparr>)"
    using out by (simp add: mcp_initialize_def rsp_def)
  then have "handle mac s emit gen raw session w = Some ho"
    using assms(1,2,5) legacy_initialize_admitted [OF assms(2,5)] handle_initialize_reply [OF assms(3)]
    by (simp add: handle_request route_def ho_def rsp_def start_state_def)
  moreover have "hr_session (hn_result ho) = issue_session_id mac s gen" by (simp add: ho_def envelope_frame)
  moreover obtain rsp' where "hr_response (hn_result ho) = Some rsp'" "rs_id rsp' = rq_id r" "rs_error rsp' = None"
      "token max_nesting (rs_result rsp')"
    using envelope_token [of "(reply_only (Some rsp))\<lparr>hr_session := issue_session_id mac s gen\<rparr>" rsp ?c r] out(2)
    by (auto simp: ho_def rsp_def)
  moreover have "hr_has_response (hn_result ho)" by (simp add: ho_def envelope_frame)
  ultimately show thesis using that [of ho rsp'] by (simp add: ho_def)
qed

lemma initialize_refused:
  assumes "parse_request raw = Inr r" "rq_method r = ''initialize''" "\<not> is_legacy_meta (request_meta r)"
  obtains ho rsp where "handle mac s emit gen raw session w = Some ho" "hn_wire ho = w"
    "hr_response (hn_result ho) = Some rsp" "rs_id rsp = rq_id r" "rs_error rsp \<noteq> None"
    "hr_session (hn_result ho) = []" "hn_events ho = []"
proof -
  let ?c = "create_context s session emit"
  define rsp where "rsp = (case validate_protocol_meta (sv_versions s) r of
      Some e \<Rightarrow> new_error_response (rq_id r) e | None \<Rightarrow> method_not_found r)"
  define res where "res = (case validate_protocol_meta (sv_versions s) r of
      Some e \<Rightarrow> reply_only (Some rsp) | None \<Rightarrow> apply_result_envelope ?c r (reply_only (Some rsp)))"
  have "handle mac s emit gen raw session w = Some \<lparr>hn_result = res, hn_events = [], hn_wire = w\<rparr>"
    using assms
    by (simp add: handle_request route_def predates_protocol_meta_def handled_reply_def res_def rsp_def
        split: option.splits)
  moreover have "hr_session res = []" by (simp add: res_def envelope_frame split: option.splits)
  moreover obtain rsp' where "hr_response res = Some rsp'" "rs_id rsp' = rq_id r" "rs_error rsp' \<noteq> None"
    using envelope_frame(3,4) [of ?c r "reply_only (Some rsp)"]
    by (auto simp: res_def rsp_def method_not_found_def split: option.splits)
  ultimately show thesis using that by simp
qed



definition initialize_message :: bytes where
  "initialize_message =
     ''{\"jsonrpc\":\"2.0\",\"id\":1,\"method\":\"initialize\",\"params\":{\"protocolVersion\":\"2025-06-18\"}}''"

lemma initialize_request:
  "case parse_request initialize_message of Inl _ \<Rightarrow> False
   | Inr r \<Rightarrow> rq_id r = Id ''1'' \<and> rq_method r = ''initialize'' \<and> is_legacy_meta (request_meta r)
       \<and> map_of (decode_bag (rq_params r)) ''protocolVersion'' = Some (AStr ''2025-06-18'')"
  by code_simp

lemma demo_server_initialize:
  "map_of (sv_methods demo_server) ''initialize'' = Some mcp_initialize"
  "wf_any_members (max_nesting - 2) (sv_capabilities demo_server)"
  by (simp_all add: demo_server_methods build_methods_def default_methods_def)
    (simp add: demo_server_def new_server_def Let_def detect_ui_capability_def default_capabilities_def
      max_nesting_def)


end
