(* ===== verification/Tool_Calls.thy ===== *)
theory Tool_Calls
  imports Server
begin

text \<open>
  A \<open>tools/call\<close> from the raw message to the reply and the event (\<open>server/handle.go\<close> over
  \<open>server/methods/call_tool.go\<close> and \<open>server/invoke.go\<close>): what the client is told and what the
  listeners are told agree.
\<close>

section \<open>The error flag of a result, read back from its encoding\<close>

lemma marshal_members_parse:
  assumes "distinct (map fst ms)" "\<forall>(k, a) \<in> set ms. utf8 k" "wf_any_members d ms" "d < max_nesting"
  obtains out l where "marshal (AMap ms) = Some out" "json_parse out = Some (JObj l)"
    "\<forall>(k, r, v) \<in> set l. \<exists>a t. (unquote k, a) \<in> set ms \<and> tree_of a = Some t \<and> v = canon t"
    "set (map (\<lambda>(k, r, v). unquote k) l) = set (map fst ms)"
proof -
  define tr where "tr = (\<lambda>a. the (tree_of a))"
  define ls :: "(bytes \<times> bytes \<times> json) list"
    where "ls = map (\<lambda>(k, a). (quote_body k, [], tr a)) (sort_key fst ms)"
  have tr: "tree_of a = Some (tr a)" "wf_json d (tr a)" if "(k, a) \<in> set ms" for k a
  proof -
    have "wf_any d a" using that assms(3) by (auto simp: wf_any_members_all)
    with tree_of_wf(1) [of d a] assms(4) show "tree_of a = Some (tr a)" "wf_json d (tr a)"
      by (auto simp: tr_def)
  qed
  have tree: "tree_of (AMap ms) = Some (JObj ls)"
  proof -
    have "sort_key fst (map (\<lambda>(k, a). (k, [] :: bytes, the (tree_of a))) ms)
        = map (\<lambda>(k, a). (k, [], the (tree_of a))) (sort_key fst ms)"
      by (rule sort_key_map [where f = "\<lambda>a. ([], the (tree_of a))"])
    moreover have "tree_members ms = Some (map (\<lambda>(k, a). (k, [], the (tree_of a))) ms)"
      using tree_members_wf [OF assms(3)] assms(4) by simp
    ultimately show ?thesis by (simp only: tree_of.simps option.map) (simp add: ls_def tr_def split_beta)
  qed
  have "wf_json (Suc d) (JObj ls)"
    using tr(2) by (auto simp: wf_members_all ls_def str_body_quoted)
  from reads_parse [OF reads_print(1) [OF this]] assms(4)
  have p: "json_parse (print_json (JObj ls)) = Some (JObj (canon_members ls))" by simp
  have n: "unquote (html_escape (quote_body k)) = k" if "(k, a) \<in> set ms" for k a
    using that assms(2) by (auto simp: unquote_html_escape str_body_quoted unquote_quote_body)
  have "\<exists>a t. (unquote k, a) \<in> set ms \<and> tree_of a = Some t \<and> v = canon t"
    if "(k, r, v) \<in> set (canon_members ls)" for k r v
  proof -
    from that obtain k' a where "(k', a) \<in> set ms" "k = html_escape (quote_body k')" "v = canon (tr a)"
      unfolding canon_members_map ls_def by auto
    then show ?thesis using n tr(1) by auto
  qed
  moreover have "set (map (\<lambda>(k, r, v). unquote k) (canon_members ls)) = set (map fst ms)"
    unfolding canon_members_map ls_def using n by (force simp: image_iff)
  moreover have "marshal (AMap ms) = Some (print_json (JObj ls))"
    unfolding marshal_def tree by (simp only: option.map)
  ultimately show thesis using that p by blast
qed

lemma decode_is_error_agree:
  "(\<forall>(k, r, v) \<in> set l. field_is ''isError'' (unquote k) \<longrightarrow> v = JBool b) \<Longrightarrow>
     decode_members decode_is_error l old
     = Some (if \<exists>k \<in> set (map (\<lambda>(k, r, v). unquote k) l). field_is ''isError'' k then b else old)"
  by (induction l arbitrary: old) (auto simp: decode_is_error_def)

definition result_names :: "bytes list" where
  "result_names = [''content'', ''isError'', ''_meta'', ''structuredContent'']"

lemma result_names_fold: "k \<in> set result_names \<Longrightarrow> field_is ''isError'' k \<longleftrightarrow> k = ''isError''"
proof -
  have "list_all (\<lambda>k. field_is ''isError'' k = (k = ''isError'')) result_names" by code_simp
  then show "k \<in> set result_names \<Longrightarrow> ?thesis" by (simp add: list_all_iff)
qed

lemma result_names_utf8: "k \<in> set result_names \<Longrightarrow> utf8 k"
proof -
  have "list_all utf8 result_names" by code_simp
  then show "k \<in> set result_names \<Longrightarrow> ?thesis" by (simp add: list_all_iff)
qed

text \<open>The members a tool result has, and its flag.\<close>

definition flagged :: "bool \<Rightarrow> members \<Rightarrow> bool" where
  "flagged b result = (distinct (map fst result) \<and> set (map fst result) \<subseteq> set result_names
     \<and> map_of result ''isError'' = Some (ABool b))"

lemma merge_meta_names:
  "set (map fst (response_merge_meta r base)) \<subseteq> set (map fst base) \<union> {''_meta'', ''structuredContent''}"
proof -
  have q: "fst ` set (put_if b k v ms) \<subseteq> insert k (fst ` set ms)" for b k and v :: any and ms
    using set_put [of k v ms] by (auto simp: put_if_def)
  have "fst ` set (put_if b2 k2 v2 (put_if b1 k1 v1 base)) \<subseteq> fst ` set base \<union> {k1, k2}"
    for b1 b2 k1 k2 and v1 v2 :: any
    by (rule order_trans [OF q], rule order_trans [OF insert_mono [OF q]]) auto
  then show ?thesis by (cases r) (auto simp only: response_merge_meta_def Let_def option.case set_map)
qed

lemma error_result_flagged: "flagged True (error_result m)"
  by (simp add: flagged_def error_result_def result_names_def)

lemma represent_result_flagged: "\<exists>b. flagged b (represent_result resp)"
proof (cases "list_all (\<lambda>c. to_tool c \<noteq> None) (response_items resp)")
  case True
  define base where "base = [(''content'', AList (map (\<lambda>c. AMap (the (to_tool c))) (response_items resp))),
    (''isError'', ABool (response_is_error resp))]"
  have "flagged (response_is_error resp) (response_merge_meta resp base)"
    using merge_meta_names [of resp base]
    by (auto simp: flagged_def map_of_merge_meta base_def result_names_def)
  then show ?thesis using True by (auto simp: represent_result_cases tool_result_cases base_def)
next
  case False
  then have "represent_result resp = error_result unrepresentable_content_message"
    by (simp only: represent_result_cases tool_result_cases if_False option.simps)
  then show ?thesis using error_result_flagged by metis
qed

lemma invoke_tool_flagged: "fst (invoke_tool t req w) = Inr result \<Longrightarrow> \<exists>b. flagged b result"
  using represent_result_flagged
  by (auto simp: invoke_tool_def split: prod.splits sum.splits if_splits)

lemma flag_read_back:
  assumes "flagged b result" "wf_any_members (max_nesting - 1) result"
  obtains out where "marshal (AMap result) = Some out"
    "result_is_error (Some \<lparr>rs_id = i, rs_result = out, rs_error = None\<rparr>) = b"
proof -
  have u: "\<forall>(k, a) \<in> set result. utf8 k" using assms(1) result_names_utf8 by (auto simp: flagged_def)
  have d: "distinct (map fst result)" using assms(1) by (simp add: flagged_def)
  obtain out l where l: "marshal (AMap result) = Some out" "json_parse out = Some (JObj l)"
    "\<forall>(k, r, v) \<in> set l. \<exists>a t. (unquote k, a) \<in> set result \<and> tree_of a = Some t \<and> v = canon t"
    "set (map (\<lambda>(k, r, v). unquote k) l) = set (map fst result)"
    by (rule marshal_members_parse [OF d u assms(2)]) (simp add: max_nesting_def)
  have "\<forall>(k, r, v) \<in> set l. field_is ''isError'' (unquote k) \<longrightarrow> v = JBool b"
  proof clarify
    fix k r v assume m: "(k, r, v) \<in> set l" "field_is ''isError'' (unquote k)"
    with l(3) obtain a t where a: "(unquote k, a) \<in> set result" "tree_of a = Some t" "v = canon t" by blast
    then have "unquote k \<in> set result_names" using assms(1) by (force simp: flagged_def)
    with m(2) have "unquote k = ''isError''" using result_names_fold by blast
    with a(1) have "a = ABool b" using assms(1) map_of_is_SomeI [OF d a(1)] by (simp add: flagged_def)
    with a(2) have "t = JBool b" by simp
    with a(3) show "v = JBool b" by simp
  qed
  from decode_is_error_agree [OF this, of False]
  have "decode_members decode_is_error l False = Some b"
    unfolding l(4) using assms(1) result_names_fold [of "''isError''"]
    by (auto simp: flagged_def result_names_def dest!: map_of_SomeD)
  moreover have "out \<noteq> []" using l(2) by (auto simp: json_parse_def)
  ultimately show thesis using that l(1,2) by (simp add: result_is_error_def)
qed


section \<open>The call\<close>

lemma decode_bag_params: "decode_bag (rq_params r) = decode_params r"
  by (simp add: decode_bag_def decode_params_def)

lemma route_tool_call:
  assumes "rq_method r = ''tools/call''" "validate_arguments r = None"
    "map_of (sv_methods s) ''tools/call'' = Some m"
  shows "route mac s gen c r session w = handle_tool_call s c r m session w"
  using assms by (simp add: route_def)

lemma call_tool_found:
  assumes "find_tool c (param_str (decode_params r) ''name'') = Some t"
    "param_str (decode_params r) ''name'' \<noteq> []"
    "invoke_tool t (primitive_request c (decode_params r)) w = (out, w')"
  shows "call_tool c r (start_state w) =
    (case out of Inl e \<Rightarrow> Fail e | Inr result \<Rightarrow> result_outcome r (AMap result),
     (start_state w)\<lparr>st_wire := w'\<rparr>)"
proof -
  have "has_key (decode_params r) ''name''"
    using assms(2) by (auto simp: param_str_def has_key_def split: option.splits)
  then show ?thesis
    using assms by (simp add: call_tool_def Let_def start_state_def split: sum.splits)
qed

lemma handle_tool_call_found:
  assumes "find_tool c (param_str (decode_params r) ''name'') = Some t"
    "param_str (decode_params r) ''name'' \<noteq> []"
    "invoke_tool t (primitive_request c (decode_params r)) w = (out, w')"
    "case out of Inl _ \<Rightarrow> True | Inr result \<Rightarrow> wf_any_members (max_nesting - 1) result"
  obtains rsp ev where "handle_tool_call s c r call_tool session w
      = Some \<lparr>hn_result = reply_only (Some rsp), hn_events = dispatch s ev, hn_wire = w'\<rparr>"
    "rs_id rsp = rq_id r"
    "case out of
       Inl e \<Rightarrow> rs_error rsp = Some (case ge_rpc e of Some err \<Rightarrow> err
           | None \<Rightarrow> new_error code_internal_error internal_error_message)
         \<and> ev = ToolFailed session (param_str (decode_params r) ''name'')
             (param_map (decode_params r) ''arguments'') (Some e)
     | Inr result \<Rightarrow> rs_error rsp = None
         \<and> (\<exists>b. map_of result ''isError'' = Some (ABool b)
              \<and> ev = ToolCalled session (param_str (decode_params r) ''name'')
                  (param_map (decode_params r) ''arguments'') b)"
proof (cases out)
  case (Inl e)
  with call_tool_found [OF assms(1-3)] that show ?thesis
    by (cases "ge_rpc e")
      (simp_all add: handle_tool_call_def Let_def with_error_def outcome_error_def decode_bag_params)
next
  case (Inr result)
  have "fst (invoke_tool t (primitive_request c (decode_params r)) w) = Inr result"
    using assms(3) Inr by simp
  then obtain b where b: "flagged b result" using invoke_tool_flagged by blast
  obtain enc where enc: "marshal (AMap result) = Some enc"
    "result_is_error (Some \<lparr>rs_id = rq_id r, rs_result = enc, rs_error = None\<rparr>) = b"
    using flag_read_back [OF b] assms(4) Inr by auto
  then have "result_outcome r (AMap result) = Reply (Some \<lparr>rs_id = rq_id r, rs_result = enc, rs_error = None\<rparr>)"
    by (simp add: result_outcome_def new_result_def marshal_result_def)
  with call_tool_found [OF assms(1-3)] that Inr enc(2) b show ?thesis
    by (simp add: handle_tool_call_def Let_def with_error_def outcome_error_def decode_bag_params flagged_def)
qed

text \<open>
  C11. A tool call, end to end. The client and the listeners are told the same: a handler error ends
  in an error reply and one \<open>ToolFailed\<close> event carrying the error, and unless the error is itself a
  protocol error the reply is the fixed internal error, so nothing of the error reaches the client;
  anything else ends in a result and one \<open>ToolCalled\<close> event whose flag is the \<open>isError\<close> of the result
  that was sent. Either way the frames streamed are the tool's own, and no session is opened.
\<close>

theorem tool_call_outcome:
  assumes "parse_request raw = Inr r" "rq_method r = ''tools/call''"
    "validate_protocol_meta (sv_versions s) r = None" "validate_arguments r = None"
    "map_of (sv_methods s) ''tools/call'' = Some call_tool"
    "param_str (decode_params r) ''name'' = name" "name \<noteq> []"
    "find_tool (create_context s session emit) name = Some t"
    "invoke_tool t (primitive_request (create_context s session emit) (decode_params r)) w = (out, w')"
    "case out of Inl _ \<Rightarrow> True | Inr result \<Rightarrow> wf_any_members (max_nesting - 1) result"
  shows "\<exists>ho rsp. handle mac s emit gen raw session w = Some ho \<and> hn_wire ho = w'
    \<and> hr_response (hn_result ho) = Some rsp \<and> rs_id rsp = rq_id r \<and> hr_session (hn_result ho) = []
    \<and> (case out of
         Inl e \<Rightarrow> rs_error rsp = Some (case ge_rpc e of Some err \<Rightarrow> err
             | None \<Rightarrow> new_error code_internal_error internal_error_message)
           \<and> hn_events ho = dispatch s (ToolFailed session name (param_map (decode_params r) ''arguments'') (Some e))
       | Inr result \<Rightarrow> rs_error rsp = None
           \<and> (\<exists>b. map_of result ''isError'' = Some (ABool b) \<and> hn_events ho
                = dispatch s (ToolCalled session name (param_map (decode_params r) ''arguments'') b)))"
proof -
  let ?c = "create_context s session emit"
  obtain rsp ev where h: "handle_tool_call s ?c r call_tool session w
      = Some \<lparr>hn_result = reply_only (Some rsp), hn_events = dispatch s ev, hn_wire = w'\<rparr>"
    "rs_id rsp = rq_id r"
    "case out of
       Inl e \<Rightarrow> rs_error rsp = Some (case ge_rpc e of Some err \<Rightarrow> err
           | None \<Rightarrow> new_error code_internal_error internal_error_message)
         \<and> ev = ToolFailed session name (param_map (decode_params r) ''arguments'') (Some e)
     | Inr result \<Rightarrow> rs_error rsp = None
         \<and> (\<exists>b. map_of result ''isError'' = Some (ABool b)
              \<and> ev = ToolCalled session name (param_map (decode_params r) ''arguments'') b)"
    using handle_tool_call_found [of ?c r t w out w' s session, unfolded assms(6), OF assms(8,7,9,10)]
    by blast
  let ?res = "apply_result_envelope ?c r (reply_only (Some rsp))"
  have "handle mac s emit gen raw session w
      = Some \<lparr>hn_result = ?res, hn_events = dispatch s ev, hn_wire = w'\<rparr>"
    using assms(3) h(1) route_tool_call [OF assms(2,4,5)] by (simp add: handle_request [OF assms(1)])
  moreover obtain rsp' where "hr_response ?res = Some rsp'" "rs_id rsp' = rs_id rsp" "rs_error rsp' = rs_error rsp"
    using envelope_frame(3,4) [of ?c r "reply_only (Some rsp)"] by auto
  moreover have "hr_session ?res = []" by (simp add: envelope_frame)
  ultimately show ?thesis using h(2,3) by (cases out) auto
qed


definition demo_tool :: tool where
  "demo_tool = \<lparr>tl_name = ''echo'', tl_description = [], tl_title = None, tl_input_schema = [],
     tl_output_schema = None, tl_annotations = None,
     tl_handle = (\<lambda>req w. (Inr (Some (text_response ''hi'')), w))\<rparr>"

definition tool_server :: server where
  "tool_server = (new_server (Some (default_methods (\<lambda>x. x))) ''k'' ''demo'' ''1'' [with_tools [demo_tool]])
     \<lparr>sv_dispatcher := True\<rparr>"

definition call_message :: bytes where
  "call_message =
     ''{\"jsonrpc\":\"2.0\",\"id\":2,\"method\":\"tools/call\",\"params\":{\"name\":\"echo\"}}''"

lemma call_request:
  "case parse_request call_message of Inl _ \<Rightarrow> False
   | Inr r \<Rightarrow> rq_id r = Id ''2'' \<and> rq_method r = ''tools/call'' \<and> validate_protocol_meta [] r = None
       \<and> is_legacy_meta (request_meta r) \<and> validate_arguments r = None
       \<and> param_str (decode_params r) ''name'' = ''echo'' \<and> param_map (decode_params r) ''arguments'' = None"
  by code_simp

lemma tool_server_dispatcher: "sv_dispatcher tool_server"
  by (simp add: tool_server_def)

lemma tool_server_tools:
  "map_of (sv_methods tool_server) ''tools/call'' = Some call_tool"
  "find_tool (create_context tool_server session emit) ''echo'' = Some demo_tool"
  by (simp_all add: tool_server_def new_server_def Let_def detect_ui_capability_def build_methods_def
      with_tools_def default_methods_def find_tool_def create_context_def demo_tool_def)

lemma demo_tool_result:
  "represent_result (Some (text_response ''hi'')) =
     [(''content'', AList [AMap [(''type'', AStr ''text''), (''text'', AStr ''hi'')]]), (''isError'', ABool False)]"
  by code_simp

theorem tool_call_outcome_witness:
  "\<exists>ho rsp. handle toy_mac tool_server None ''g'' call_message ''s'' [] = Some ho
     \<and> hr_response (hn_result ho) = Some rsp \<and> rs_id rsp = Id ''2'' \<and> rs_error rsp = None
     \<and> hn_events ho = [ToolCalled ''s'' ''echo'' None False]"
proof -
  obtain r where r: "parse_request call_message = Inr r" "rq_id r = Id ''2''" "rq_method r = ''tools/call''"
    "is_legacy_meta (request_meta r)" "validate_arguments r = None"
    "param_str (decode_params r) ''name'' = ''echo''" "param_map (decode_params r) ''arguments'' = None"
    using call_request by (auto split: sum.splits)
  have v: "validate_protocol_meta (sv_versions tool_server) r = None"
    using r(3,4) by (simp add: validate_protocol_meta_def is_legacy_request_def requires_protocol_meta_def Let_def)
  have i: "invoke_tool demo_tool req [] = (Inr (represent_result (Some (text_response ''hi''))), [])" for req
    by (simp add: invoke_tool_def demo_tool_def)
  have "wf_any_members (max_nesting - 1) (represent_result (Some (text_response ''hi'')))"
    by (simp add: demo_tool_result max_nesting_def)
  then show ?thesis
    using tool_call_outcome [OF r(1,3) v r(5) tool_server_tools(1) r(6) _ tool_server_tools(2) i,
        of toy_mac None "''g''" "''s''"] r(2,7)
    by (fastforce simp: demo_tool_result dispatch_def tool_server_dispatcher)
qed

end
