(* ===== verification/Header_Value.thy ===== *)
theory Header_Value
  imports Base64
begin

text \<open>
  The encoding of values in MCP HTTP headers (\<open>transport/headervalue.go\<close>): a value that can stand in
  a header as it is travels literally, any other between base64 sentinels. Decoding recovers every
  value, and a value has at most its literal and its one wrapped spelling.
\<close>

section \<open>Codecs\<close>

text \<open>
  What the users of an encoding rely on: what was encoded is decoded to the value it came from.
\<close>

locale codec =
  fixes enc :: "'a \<Rightarrow> 'b" and dec :: "'b \<Rightarrow> 'a option"
  assumes dec_enc: "dec (enc x) = Some x"
begin

lemma enc_inj: "enc x = enc y \<longleftrightarrow> x = y"
  by (metis dec_enc option.inject)

lemma dec_enc_iff: "dec (enc x) = Some y \<longleftrightarrow> x = y"
  by (simp add: dec_enc)

end

interpretation b64: codec b64_encode "b64_decode strict"
  by unfold_locales (rule b64_decode_encode)

section \<open>Encoding and decoding (headervalue.go)\<close>

definition base64_prefix :: bytes where "base64_prefix = ''=?base64?''"
definition base64_suffix :: bytes where "base64_suffix = ''?=''"

datatype header_value_error = ErrHeaderValueSyntax | ErrHeaderValueEncoding

definition is_sentinel_wrapped :: "bytes \<Rightarrow> bool" where
  "is_sentinel_wrapped v =
     (length base64_prefix + length base64_suffix \<le> length v
      \<and> has_prefix v base64_prefix \<and> has_suffix v base64_suffix)"

definition header_spacing :: "char \<Rightarrow> bool" where
  "header_spacing c = (c = CHR '' '' \<or> byte c = 9)"

definition header_visible :: "char \<Rightarrow> bool" where
  "header_visible c = (0x21 \<le> byte c \<and> byte c \<le> 0x7E)"

definition is_literal_header_value :: "bytes \<Rightarrow> bool" where
  "is_literal_header_value v =
     (v \<noteq> [] \<and> list_all (\<lambda>c. header_visible c \<or> header_spacing c) v
      \<and> \<not> header_spacing (hd v) \<and> \<not> header_spacing (last v))"

text \<open>\<open>trimOWS\<close>: spaces and tabs at both ends.\<close>

definition trim_ows :: "bytes \<Rightarrow> bytes" where
  "trim_ows v = rev (dropWhile header_spacing (rev (dropWhile header_spacing v)))"

definition encode_header_value :: "bytes \<Rightarrow> bytes" where
  "encode_header_value v =
     (if \<not> is_sentinel_wrapped v \<and> is_literal_header_value v then v
      else base64_prefix @ b64_encode v @ base64_suffix)"

definition decode_header_value :: "bytes \<Rightarrow> header_value_error + bytes" where
  "decode_header_value h =
     (if \<not> is_literal_header_value h then Inl ErrHeaderValueSyntax
      else if \<not> is_sentinel_wrapped h then Inr h
      else let payload = take (length h - length base64_suffix - length base64_prefix)
                           (drop (length base64_prefix) h)
           in case b64_decode True payload of
                None \<Rightarrow> Inl ErrHeaderValueEncoding
              | Some v \<Rightarrow> Inr v)"

section \<open>Correctness\<close>

definition wrapped :: "bytes \<Rightarrow> bytes" where
  "wrapped p = base64_prefix @ p @ base64_suffix"

lemma sentinel_wrapped_iff: "is_sentinel_wrapped h \<longleftrightarrow> (\<exists>p. h = wrapped p)"
proof
  assume h: "is_sentinel_wrapped h"
  then obtain r where r: "h = base64_prefix @ r" by (auto simp: is_sentinel_wrapped_def has_prefix_iff)
  with h have l: "length base64_suffix \<le> length r" "has_suffix h base64_suffix"
    by (auto simp: is_sentinel_wrapped_def)
  then have "drop (length r - length base64_suffix) r = base64_suffix"
    using r by (simp add: has_suffix_def)
  then have "r = take (length r - length base64_suffix) r @ base64_suffix"
    by (metis append_take_drop_id)
  with r show "\<exists>p. h = wrapped p" by (metis wrapped_def)
next
  assume "\<exists>p. h = wrapped p"
  then show "is_sentinel_wrapped h"
    by (auto simp: wrapped_def is_sentinel_wrapped_def has_suffix_iff)
qed

lemma wrapped_literal:
  "is_literal_header_value (wrapped (b64_encode v))"
  using b64_encode_visible
  by (auto simp: is_literal_header_value_def wrapped_def base64_prefix_def base64_suffix_def
      header_visible_def header_spacing_def list_all_iff)

lemma decode_wrapped:
  "decode_header_value (wrapped p) =
     (if is_literal_header_value (wrapped p) then
        (case b64_decode True p of None \<Rightarrow> Inl ErrHeaderValueEncoding | Some v \<Rightarrow> Inr v)
      else Inl ErrHeaderValueSyntax)"
  using sentinel_wrapped_iff [of "wrapped p"]
  by (auto simp: decode_header_value_def Let_def) (simp_all add: wrapped_def)

lemma encode_header_value_cases:
  obtains "encode_header_value v = v" "\<not> is_sentinel_wrapped v" "is_literal_header_value v"
  | "encode_header_value v = wrapped (b64_encode v)"
  by (cases "\<not> is_sentinel_wrapped v \<and> is_literal_header_value v")
    (auto simp: encode_header_value_def wrapped_def)

lemma header_value_exact:
  "is_literal_header_value (encode_header_value v) \<and> decode_header_value (encode_header_value v) = Inr v"
proof (cases v rule: encode_header_value_cases)
  case 1
  then show ?thesis by (simp add: decode_header_value_def)
next
  case 2
  then show ?thesis by (simp add: wrapped_literal decode_wrapped b64.dec_enc)
qed

definition header_decoded :: "bytes \<Rightarrow> bytes option" where
  "header_decoded h = (case decode_header_value h of Inr v \<Rightarrow> Some v | Inl _ \<Rightarrow> None)"

interpretation hv: codec encode_header_value header_decoded
  by unfold_locales (simp add: header_decoded_def header_value_exact)

text \<open>
  C4. Encoding is total and exact: every byte string has a header form, the form is one a header may
  carry, \<open>DecodeHeaderValue\<close> recovers the string from it, and no other string has the same form.
\<close>

theorem header_value_roundtrip:
  "is_literal_header_value (encode_header_value v)
   \<and> decode_header_value (encode_header_value v) = Inr v
   \<and> (encode_header_value v = encode_header_value w \<longleftrightarrow> v = w)"
  using header_value_exact hv.enc_inj by blast

lemma literal_no_breaks:
  assumes "is_literal_header_value h" "c \<in> set h"
  shows "byte c \<noteq> 10 \<and> byte c \<noteq> 13"
  using assms by (auto simp: is_literal_header_value_def list_all_iff header_visible_def header_spacing_def)

text \<open>
  A header states a value in at most two spellings: what \<open>DecodeHeaderValue\<close> reads from a header
  is the header itself, when that is an unwrapped literal, or else the header is the value's one
  canonical wrapped form.
\<close>

theorem header_value_spellings:
  "decode_header_value h = Inr v \<longleftrightarrow>
     (h = v \<and> is_literal_header_value v \<and> \<not> is_sentinel_wrapped v)
     \<or> h = base64_prefix @ b64_encode v @ base64_suffix"
proof
  assume d: "decode_header_value h = Inr v"
  then have lit: "is_literal_header_value h" by (auto simp: decode_header_value_def split: if_splits)
  show "(h = v \<and> is_literal_header_value v \<and> \<not> is_sentinel_wrapped v)
     \<or> h = base64_prefix @ b64_encode v @ base64_suffix"
  proof (cases "is_sentinel_wrapped h")
    case False
    with d lit show ?thesis by (simp add: decode_header_value_def)
  next
    case True
    then obtain p where p: "h = wrapped p" by (auto simp: sentinel_wrapped_iff)
    with d lit have b: "b64_decode True p = Some v" by (auto simp: decode_wrapped split: option.splits)
    have "filter (\<lambda>c. byte c \<noteq> 10 \<and> byte c \<noteq> 13) p = p"
      by (rule filter_True) (use literal_no_breaks [OF lit] p in \<open>auto simp: wrapped_def\<close>)
    with b have "p = b64_encode v" by (simp add: b64_decode_def b64_groups_canonical)
    with p show ?thesis by (simp add: wrapped_def)
  qed
next
  assume "(h = v \<and> is_literal_header_value v \<and> \<not> is_sentinel_wrapped v)
     \<or> h = base64_prefix @ b64_encode v @ base64_suffix"
  then show "decode_header_value h = Inr v"
    using wrapped_literal [of v] decode_wrapped [of "b64_encode v"] b64.dec_enc [of True v]
    by (auto simp: decode_header_value_def wrapped_def)
qed

end
