(* ===== verification/Mcp_Headers.thy ===== *)
theory Mcp_Headers
  imports Header_Value Protocol_Meta
begin

text \<open>
  The middleware that holds the mirrored MCP headers to the JSON-RPC body
  (\<open>transport/mcp_headers.go\<close>) and the mapping of a reply to an HTTP status
  (\<open>transport/status.go\<close>).

  The headers of a request are the field lines stated for each name (\<open>http.Header.Values\<close>, which
  matches names without case). The middleware's outcome is a value: the request is handed on, with
  the description of the message when there is one, or it is refused with a status and a JSON-RPC
  reply. What the framework does before (the content type, reading the body) is not part of it.
\<close>

type_synonym headers = "bytes \<Rightarrow> bytes list"

definition header_protocol_version :: bytes where "header_protocol_version = ''MCP-Protocol-Version''"
definition header_method :: bytes where "header_method = ''Mcp-Method''"
definition header_name :: bytes where "header_name = ''Mcp-Name''"

definition malformed_header_message :: "bytes \<Rightarrow> bytes \<Rightarrow> bytes" where
  "malformed_header_message name fault =
     ''Header mismatch: The ['' @ name @ ''] header value '' @ fault @ ''.''"

text \<open>
  \<open>statedHeader\<close> and \<open>headerValue\<close> return a value or a complaint: \<open>Inl\<close> is the complaint. The empty
  value stands for a header that states nothing.
\<close>

definition stated_header :: "headers \<Rightarrow> bytes \<Rightarrow> bytes + bytes" where
  "stated_header h name =
     (let lines = h name
      in if 1 < length lines
         then Inl (''Header mismatch: The ['' @ name @ ''] header is stated more than once.'')
         else if lines = [] then Inr []
         else Inr (trim_ows (hd lines)))"

definition header_value :: "bytes \<Rightarrow> bytes \<Rightarrow> bool \<Rightarrow> bytes + bytes" where
  "header_value name v dec =
     (if \<not> dec then
        if \<not> is_literal_header_value v
        then Inl (malformed_header_message name ''is not a valid header value'') else Inr v
      else case decode_header_value v of
        Inl ErrHeaderValueEncoding \<Rightarrow>
          Inl (malformed_header_message name ''declares a base64 encoding that does not decode'')
      | Inl ErrHeaderValueSyntax \<Rightarrow> Inl (malformed_header_message name ''is not a valid header value'')
      | Inr d \<Rightarrow> Inr d)"

text \<open>\<open>checkHeader\<close>: the complaint, if any. The body's value is \<open>None\<close> when it states none.\<close>

definition check_header :: "headers \<Rightarrow> bytes \<Rightarrow> bytes option \<Rightarrow> bool \<Rightarrow> bool \<Rightarrow> bytes option" where
  "check_header h name expected required dec =
     (case stated_header h name of
        Inl m \<Rightarrow> Some m
      | Inr v \<Rightarrow>
          if v = [] then
            (if required then Some (''Header mismatch: The ['' @ name @ ''] header is required.'') else None)
          else case header_value name v dec of
            Inl m \<Rightarrow> Some m
          | Inr d \<Rightarrow>
              (case expected of
                 None \<Rightarrow> None
               | Some e \<Rightarrow>
                   if d = e then None
                   else Some (''Header mismatch: The ['' @ name @ ''] header value ['' @ d
                     @ ''] does not match the request body value ['' @ e @ ''].'')))"

definition mirrored_header_mismatch :: "headers \<Rightarrow> message_info \<Rightarrow> bool \<Rightarrow> bytes option" where
  "mirrored_header_mismatch h info required =
     (case check_header h header_method (Some (mi_method info)) required False of
        Some m \<Rightarrow> Some m
      | None \<Rightarrow> check_header h header_name (mi_name info) (required \<and> mi_requires_name info) True)"

definition header_mismatch :: "headers \<Rightarrow> message_info \<Rightarrow> bytes option" where
  "header_mismatch h info =
     (case check_header h header_protocol_version (mi_version info) True False of
        Some m \<Rightarrow> Some m
      | None \<Rightarrow> mirrored_header_mismatch h info True)"

definition stated_protocol_version :: "headers \<Rightarrow> bytes + bytes" where
  "stated_protocol_version h =
     (case stated_header h header_protocol_version of
        Inl m \<Rightarrow> Inl m
      | Inr v \<Rightarrow> if v = [] then Inr [] else header_value header_protocol_version v False)"

definition metadata_protocol_versions :: "bytes list \<Rightarrow> bytes list" where
  "metadata_protocol_versions versions =
     (if versions \<noteq> [] then versions else server_supported_versions)"

datatype admission =
    Next "message_info option"
  | Refused nat rpc_response

definition write_header_error :: "bytes \<Rightarrow> rpc_error \<Rightarrow> admission" where
  "write_header_error raw_id e =
     (let (echoed, ok) = id_unmarshal raw_id
      in Refused 400 (new_error_response (if ok \<and> is_valid_request_id echoed then echoed else null_id) e))"

definition write_header_mismatch :: "bytes \<Rightarrow> bytes \<Rightarrow> admission" where
  "write_header_mismatch raw_id m = write_header_error raw_id (new_error code_header_mismatch m)"

definition write_unsupported_protocol_version :: "bytes list \<Rightarrow> bytes \<Rightarrow> bytes \<Rightarrow> admission" where
  "write_unsupported_protocol_version versions raw_id stated =
     write_header_error raw_id
       (unsupported_protocol_version_error (metadata_protocol_versions versions) stated)"

definition serve_legacy :: "headers \<Rightarrow> message_info \<Rightarrow> admission" where
  "serve_legacy h info =
     (case mirrored_header_mismatch h info False of
        Some m \<Rightarrow> write_header_mismatch (mi_id info) m
      | None \<Rightarrow> Next (Some info))"

definition legacy_request :: "bytes list \<Rightarrow> headers \<Rightarrow> message_info \<Rightarrow> admission" where
  "legacy_request versions h info =
     (case stated_protocol_version h of
        Inl m \<Rightarrow> write_header_mismatch (mi_id info) m
      | Inr version \<Rightarrow>
          if version = [] then serve_legacy h info
          else if contains_version initialize_supported_versions version then serve_legacy h info
          else if contains_version (metadata_protocol_versions versions) version then
            (case mirrored_header_mismatch h info True of
               Some m \<Rightarrow> write_header_mismatch (mi_id info) m
             | None \<Rightarrow> write_header_error (mi_id info) missing_protocol_version_error)
          else write_unsupported_protocol_version versions (mi_id info) version)"

text \<open>\<open>ValidateHeaders\<close>, from the buffered body on.\<close>

definition validate_headers :: "bytes list \<Rightarrow> headers \<Rightarrow> bytes \<Rightarrow> admission" where
  "validate_headers versions h raw =
     (case inspect_message raw of
        None \<Rightarrow> Next None
      | Some info \<Rightarrow>
          if mi_legacy info then legacy_request versions h info
          else case header_mismatch h info of
            Some m \<Rightarrow> write_header_mismatch (mi_id info) m
          | None \<Rightarrow> Next (Some info))"

text \<open>\<open>status.go\<close>.\<close>

definition status_for_response :: "rpc_response option \<Rightarrow> nat" where
  "status_for_response resp =
     (case resp of
        None \<Rightarrow> 200
      | Some r \<Rightarrow>
          (case rs_error r of
             None \<Rightarrow> 200
           | Some e \<Rightarrow>
               if err_code e = code_method_not_found then 404
               else if err_code e = code_internal_error then 500 else 400))"

definition is_modern_request :: "bytes \<Rightarrow> bool" where
  "is_modern_request raw = (case inspect_message raw of None \<Rightarrow> False | Some info \<Rightarrow> \<not> mi_legacy info)"

definition reply_status :: "bytes \<Rightarrow> rpc_response option \<Rightarrow> nat" where
  "reply_status raw resp = (if \<not> is_modern_request raw then 200 else status_for_response resp)"

definition wants_subscription_stream :: "bytes \<Rightarrow> bool" where
  "wants_subscription_stream raw =
     (case inspect_message raw of None \<Rightarrow> False | Some info \<Rightarrow> mi_method info = ''subscriptions/listen'')"

section \<open>What a header states\<close>

text \<open>
  What a reader of the headers alone takes a header to say: nothing, when it is absent or blank;
  the value of its single field line otherwise.
\<close>

definition header_says :: "headers \<Rightarrow> bytes \<Rightarrow> bool \<Rightarrow> bytes option" where
  "header_says h name dec =
     (case h name of
        [l] \<Rightarrow> (let v = trim_ows l in
          if v = [] then None
          else if dec then (case decode_header_value v of Inr d \<Rightarrow> Some d | Inl _ \<Rightarrow> None)
          else if is_literal_header_value v then Some v else None)
      | _ \<Rightarrow> None)"

definition blank_header :: "headers \<Rightarrow> bytes \<Rightarrow> bool" where
  "blank_header h name = (h name = [] \<or> (\<exists>l. h name = [l] \<and> trim_ows l = []))"

lemma check_header_None:
  "check_header h name expected required dec = None \<longleftrightarrow>
     (if blank_header h name then \<not> required
      else \<exists>d. header_says h name dec = Some d \<and> (\<forall>e. expected = Some e \<longrightarrow> d = e))"
proof (cases "h name")
  case Nil
  then show ?thesis by (simp add: check_header_def stated_header_def blank_header_def)
next
  case (Cons l ls)
  then show ?thesis
    by (cases ls) (auto simp: check_header_def stated_header_def blank_header_def header_says_def
        header_value_def Let_def split: sum.splits header_value_error.splits option.splits if_splits)
qed

text \<open>A message that was inspected has a usable id, which is the one a refusal is correlated to.\<close>

lemma inspected_id:
  assumes "inspect_message raw = Some info"
  shows "json_valid (mi_id info) \<and> is_valid_request_id (Id (mi_id info))"
  using assms
  by (auto simp: inspect_message_def id_unmarshal_def Let_def split: decoded.splits if_splits
      option.splits any.splits)

lemma refusal_id:
  "inspect_message raw = Some info \<Longrightarrow>
     write_header_error (mi_id info) e = Refused 400 (new_error_response (Id (mi_id info)) e)"
  using inspected_id by (simp add: write_header_error_def id_unmarshal_def)

lemma admit_modern:
  assumes "inspect_message raw = Some info" "\<not> mi_legacy info"
  shows "validate_headers vs h raw = Next (Some info) \<longleftrightarrow> header_mismatch h info = None"
  using assms refusal_id [OF assms(1)]
  by (auto simp: validate_headers_def write_header_mismatch_def split: option.splits)

lemma admit_legacy:
  assumes "inspect_message raw = Some info" "mi_legacy info"
  shows "validate_headers vs h raw = Next (Some info) \<longleftrightarrow>
    mirrored_header_mismatch h info False = None
    \<and> (\<exists>v. stated_protocol_version h = Inr v \<and> (v = [] \<or> v \<in> set initialize_supported_versions))"
  using assms refusal_id [OF assms(1)]
  by (auto simp: validate_headers_def legacy_request_def serve_legacy_def write_header_mismatch_def
      write_unsupported_protocol_version_def split: option.splits sum.splits)

lemma admitted_info:
  assumes "validate_headers vs h raw = Next (Some info)"
  shows "inspect_message raw = Some info"
proof (cases "inspect_message raw")
  case None
  with assms show ?thesis by (simp add: validate_headers_def)
next
  case (Some i)
  have "i = info"
    using assms refusal_id [OF Some] Some
    by (auto simp: validate_headers_def legacy_request_def serve_legacy_def write_header_mismatch_def
        write_unsupported_protocol_version_def split: option.splits sum.splits if_splits)
  with Some show ?thesis by simp
qed

lemma mirrored_None:
  "mirrored_header_mismatch h info required = None \<longleftrightarrow>
     (if blank_header h header_method then \<not> required
      else header_says h header_method False = Some (mi_method info))
     \<and> (if blank_header h header_name then \<not> (required \<and> mi_requires_name info)
        else \<exists>d. header_says h header_name True = Some d \<and> (\<forall>n. mi_name info = Some n \<longrightarrow> d = n))"
proof -
  have "mirrored_header_mismatch h info required = None \<longleftrightarrow>
      check_header h header_method (Some (mi_method info)) required False = None
      \<and> check_header h header_name (mi_name info) (required \<and> mi_requires_name info) True = None"
    by (simp add: mirrored_header_mismatch_def split: option.splits)
  then show ?thesis unfolding check_header_None by auto
qed

lemma header_mismatch_None:
  "header_mismatch h info = None \<longleftrightarrow>
     \<not> blank_header h header_protocol_version
     \<and> (\<exists>d. header_says h header_protocol_version False = Some d \<and> (\<forall>v. mi_version info = Some v \<longrightarrow> d = v))
     \<and> mirrored_header_mismatch h info True = None"
proof -
  have "header_mismatch h info = None \<longleftrightarrow>
      check_header h header_protocol_version (mi_version info) True False = None
      \<and> mirrored_header_mismatch h info True = None"
    by (simp add: header_mismatch_def split: option.splits)
  then show ?thesis unfolding check_header_None by auto
qed

lemma stated_version:
  "stated_protocol_version h = Inr v \<longleftrightarrow>
     (if blank_header h header_protocol_version then v = []
      else header_says h header_protocol_version False = Some v)"
proof (cases "h header_protocol_version")
  case Nil
  then show ?thesis by (auto simp: stated_protocol_version_def stated_header_def blank_header_def)
next
  case (Cons l ls)
  then show ?thesis
    by (cases ls) (auto simp: stated_protocol_version_def stated_header_def blank_header_def
        header_says_def header_value_def Let_def)
qed

lemma blank_says: "blank_header h name \<Longrightarrow> header_says h name dec = None"
  by (auto simp: blank_header_def header_says_def)

lemma says_nonempty: "header_says h name False = Some v \<Longrightarrow> v \<noteq> []"
  by (auto simp: header_says_def Let_def split: list.splits if_splits)

section \<open>Properties\<close>

text \<open>
  C5. No admitted request carries headers that disagree with its body: whatever an intermediary
  reads in Mcp-Method, in Mcp-Name or (for a discovery request) in MCP-Protocol-Version is what the
  body states, and a discovery request states all of them.
\<close>

theorem admitted_headers_agree:
  "validate_headers versions h raw = Next (Some info) \<Longrightarrow>
     (\<not> blank_header h header_method \<longrightarrow> header_says h header_method False = Some (mi_method info))
     \<and> (\<not> blank_header h header_name \<longrightarrow>
          (\<exists>d. header_says h header_name True = Some d \<and> (\<forall>n. mi_name info = Some n \<longrightarrow> d = n)))
     \<and> (\<not> mi_legacy info \<longrightarrow>
          \<not> blank_header h header_method
          \<and> (mi_requires_name info \<longrightarrow> \<not> blank_header h header_name)
          \<and> (\<exists>v. header_says h header_protocol_version False = Some v
               \<and> (\<forall>w. mi_version info = Some w \<longrightarrow> v = w)))
     \<and> (mi_legacy info \<longrightarrow> blank_header h header_protocol_version
          \<or> (\<exists>v \<in> set initialize_supported_versions.
               header_says h header_protocol_version False = Some v))"
proof -
  assume a: "validate_headers versions h raw = Next (Some info)"
  note i = admitted_info [OF a]
  show ?thesis
  proof (cases "mi_legacy info")
    case True
    with a admit_legacy [OF i] show ?thesis unfolding mirrored_None stated_version
      by (auto split: if_splits dest: says_nonempty)
  next
    case False
    with a admit_modern [OF i] show ?thesis unfolding header_mismatch_None mirrored_None
      by (auto split: if_splits)
  qed
qed

definition mirrors :: "headers \<Rightarrow> message_info \<Rightarrow> bool" where
  "mirrors h info =
     ((\<exists>v. h header_protocol_version = [v] \<and> is_literal_header_value v
        \<and> (mi_version info = Some v \<or> mi_version info = None))
      \<and> h header_method = [mi_method info] \<and> is_literal_header_value (mi_method info)
      \<and> (case mi_name info of
           Some n \<Rightarrow> h header_name = [encode_header_value n]
         | None \<Rightarrow> h header_name = [] \<and> \<not> mi_requires_name info))"

lemma literal_trim: "is_literal_header_value v \<Longrightarrow> trim_ows v = v \<and> v \<noteq> []"
proof -
  assume v: "is_literal_header_value v"
  then have ne: "v \<noteq> []" "\<not> header_spacing (hd v)" "\<not> header_spacing (last v)"
    by (auto simp: is_literal_header_value_def)
  then have "dropWhile header_spacing v = v" by (cases v) auto
  moreover have "dropWhile header_spacing (rev v) = rev v"
    using ne by (cases v rule: rev_cases) auto
  ultimately show ?thesis using ne by (simp add: trim_ows_def)
qed

text \<open>
  A client that mirrors its request the way the encoding prescribes is never refused: with the
  version and the method stated literally and the named target encoded by \<open>EncodeHeaderValue\<close>, a
  discovery request is handed on.
\<close>

theorem mirroring_client_admitted:
  "inspect_message raw = Some info \<Longrightarrow> \<not> mi_legacy info \<Longrightarrow> mirrors h info \<Longrightarrow>
     validate_headers versions h raw = Next (Some info)"
proof -
  assume i: "inspect_message raw = Some info" "\<not> mi_legacy info" and m: "mirrors h info"
  then obtain v where v: "h header_protocol_version = [v]" "is_literal_header_value v"
    "mi_version info = Some v \<or> mi_version info = None"
    "h header_method = [mi_method info]" "is_literal_header_value (mi_method info)"
    by (auto simp: mirrors_def)
  have n: "if blank_header h header_name then \<not> (True \<and> mi_requires_name info)
      else \<exists>d. header_says h header_name True = Some d \<and> (\<forall>n. mi_name info = Some n \<longrightarrow> d = n)"
  proof (cases "mi_name info")
    case None
    with m show ?thesis by (simp add: mirrors_def blank_header_def)
  next
    case (Some n)
    with m have "h header_name = [encode_header_value n]" by (simp add: mirrors_def)
    with Some literal_trim [of "encode_header_value n"] header_value_exact [of n] show ?thesis
      by (simp add: blank_header_def header_says_def)
  qed
  have says: "\<not> blank_header h header_protocol_version"
    "header_says h header_protocol_version False = Some v" "\<not> blank_header h header_method"
    "header_says h header_method False = Some (mi_method info)"
    using v literal_trim [OF v(2)] literal_trim [OF v(5)] by (auto simp: blank_header_def header_says_def)
  have "header_mismatch h info = None"
    unfolding header_mismatch_None mirrored_None using v(3) says n by auto
  with admit_modern [OF i] show ?thesis by simp
qed

text \<open>
  A refusal is a JSON-RPC error the client can match to its call: HTTP 400, the id token of the
  request exactly as it was sent, and one of the three codes of the header rules; a body that
  declares no metadata under a header naming a discovery revision is answered with invalid params.
\<close>

theorem header_refusals:
  "validate_headers versions h raw = Refused status resp \<Longrightarrow>
     \<exists>info e. inspect_message raw = Some info \<and> status = 400
       \<and> resp = new_error_response (Id (mi_id info)) e
       \<and> err_code e \<in> {code_header_mismatch, code_invalid_params, code_unsupported_version}
       \<and> (err_code e = code_invalid_params \<longleftrightarrow>
            mi_legacy info \<and> mirrored_header_mismatch h info True = None
            \<and> (\<exists>v. header_says h header_protocol_version False = Some v
                 \<and> v \<in> set (metadata_protocol_versions versions) \<and> v \<notin> set initialize_supported_versions
                 \<and> v \<noteq> []))"
proof -
  assume r: "validate_headers versions h raw = Refused status resp"
  then obtain info where i: "inspect_message raw = Some info"
    by (auto simp: validate_headers_def split: option.splits)
  note id = refusal_id [OF i]
  show ?thesis
  proof (cases "mi_legacy info")
    case False
    with r i id show ?thesis
      by (auto simp: validate_headers_def write_header_mismatch_def new_error_def code_defs
          split: option.splits)
  next
    case True
    show ?thesis
    proof (cases "stated_protocol_version h")
      case (Inl m)
      then have nv: "\<not> (\<exists>v. stated_protocol_version h = Inr v)" by simp
      then have "header_says h header_protocol_version False = None"
        using stated_version [of h] by (metis not_None_eq)
      with r i id True Inl show ?thesis
        by (auto simp: validate_headers_def legacy_request_def write_header_mismatch_def new_error_def
            code_defs split: option.splits)
    next
      case (Inr v)
      then have v: "if blank_header h header_protocol_version then v = []
        else header_says h header_protocol_version False = Some v" by (simp add: stated_version)
      have "\<exists>e. resp = new_error_response (Id (mi_id info)) e \<and> status = 400
        \<and> err_code e \<in> {code_header_mismatch, code_invalid_params, code_unsupported_version}
        \<and> (err_code e = code_invalid_params \<longleftrightarrow> v \<noteq> [] \<and> v \<notin> set initialize_supported_versions
            \<and> v \<in> set (metadata_protocol_versions versions)
            \<and> mirrored_header_mismatch h info True = None)"
        using r i id True Inr
        by (auto simp: validate_headers_def legacy_request_def serve_legacy_def write_header_mismatch_def
            write_unsupported_protocol_version_def missing_protocol_version_error_def
            unsupported_protocol_version_error_def with_data_def new_error_def code_defs
            split: option.splits if_splits)
      moreover have "(\<exists>u. header_says h header_protocol_version False = Some u
          \<and> u \<in> set (metadata_protocol_versions versions) \<and> u \<notin> set initialize_supported_versions
          \<and> u \<noteq> []) \<longleftrightarrow> v \<noteq> [] \<and> v \<notin> set initialize_supported_versions
          \<and> v \<in> set (metadata_protocol_versions versions)"
        using v by (cases "blank_header h header_protocol_version") (auto simp: blank_says)
      ultimately show ?thesis using i True by blast
    qed
  qed
qed

section \<open>A concrete request\<close>

definition sample_raw :: bytes where
  "sample_raw = ''{\"jsonrpc\":\"2.0\",\"id\":1,\"method\":\"tools/call\",\"params\":{\"name\":\"x y\",\"_meta\":{\"io.modelcontextprotocol/protocolVersion\":\"2026-07-28\"}}}''"

definition sample_info :: message_info where
  "sample_info = \<lparr>mi_id = ''1'', mi_method = ''tools/call'', mi_legacy = False,
     mi_version = Some ''2026-07-28'', mi_name = Some ''x y'', mi_requires_name = True\<rparr>"

definition sample_headers :: "bytes \<Rightarrow> headers" where
  "sample_headers name k =
     (if k = header_protocol_version then [''2026-07-28''] else if k = header_method then [''tools/call'']
      else if k = header_name then [name] else [])"

lemma sample_inspected: "inspect_message sample_raw = Some sample_info"
  by code_simp

theorem admitted_headers_agree_witness:
  "header_says (sample_headers ''x y'') header_name True = Some ''x y''
   \<and> header_says (sample_headers ''x y'') header_method False = Some (mi_method sample_info)"
proof -
  have m: "header_mismatch (sample_headers ''x y'') sample_info = None" by code_simp
  have v: "validate_headers [] (sample_headers ''x y'') sample_raw = Next (Some sample_info)"
    using m sample_inspected by (simp add: validate_headers_def sample_info_def)
  have b: "\<not> blank_header (sample_headers ''x y'') header_name"
    "\<not> blank_header (sample_headers ''x y'') header_method"
    by (auto simp: blank_header_def sample_headers_def header_name_def header_method_def
        header_protocol_version_def) (code_simp)+
  from admitted_headers_agree [OF v] b show ?thesis by (auto simp: sample_info_def)
qed

theorem mirroring_client_admitted_witness:
  "validate_headers [] (sample_headers (encode_header_value ''x y'')) sample_raw = Next (Some sample_info)"
proof (rule mirroring_client_admitted)
  show "inspect_message sample_raw = Some sample_info" by (rule sample_inspected)
  show "\<not> mi_legacy sample_info" by (simp add: sample_info_def)
  have "is_literal_header_value ''2026-07-28''" "is_literal_header_value ''tools/call''" by code_simp+
  moreover have "header_protocol_version \<noteq> header_method" "header_protocol_version \<noteq> header_name"
    "header_method \<noteq> header_name" by code_simp+
  ultimately show "mirrors (sample_headers (encode_header_value ''x y'')) sample_info"
    by (auto simp: mirrors_def sample_headers_def sample_info_def)
qed

theorem header_refusals_witness:
  "\<exists>e. validate_headers [] (sample_headers ''z'') sample_raw
       = Refused 400 (new_error_response (Id ''1'') e)
     \<and> err_code e \<in> {code_header_mismatch, code_invalid_params, code_unsupported_version}"
proof -
  have m: "header_mismatch (sample_headers ''z'') sample_info \<noteq> None" by code_simp
  then obtain c where c: "header_mismatch (sample_headers ''z'') sample_info = Some c" by blast
  have v: "validate_headers [] (sample_headers ''z'') sample_raw
      = Refused 400 (new_error_response (Id ''1'') (new_error code_header_mismatch c))"
    using c sample_inspected refusal_id [OF sample_inspected]
    by (simp add: validate_headers_def write_header_mismatch_def sample_info_def)
  from header_refusals [OF v] v sample_inspected show ?thesis by (auto simp: sample_info_def)
qed

end
