(* ===== verification/Transport.thy ===== *)
theory Transport
  imports Server Mcp_Headers
begin

text \<open>
  What the transports share (\<open>transport/transport.go\<close>): the server as a transport sees it, and the
  contract it has to keep.

  A transport server is a record of what the Go interfaces \<open>MCPServer\<close>, \<open>streamingServer\<close>,
  \<open>sessionIssuer\<close> and the version lister offer. Handling a message may panic (\<open>None\<close>); otherwise it
  gives the result and the frames on the wire, which the handler extends through the emitter.
\<close>

section \<open>The server behind a transport (transport.go)\<close>

record transport_server =
  ts_handle :: "emitter option \<Rightarrow> bytes \<Rightarrow> bytes \<Rightarrow> wire \<Rightarrow> (handle_result \<times> wire) option"
  ts_streams :: bool
  ts_issued :: "(bytes \<Rightarrow> bool) option"
  ts_versions :: "bytes list option"

text \<open>\<open>handleMessage\<close>: the streaming entry point when there is a sink and the server has one.\<close>

definition handle_message ::
  "transport_server \<Rightarrow> emitter option \<Rightarrow> bytes \<Rightarrow> bytes \<Rightarrow> wire \<Rightarrow> (handle_result \<times> wire) option" where
  "handle_message ts emit raw session w =
     (if emit \<noteq> None \<and> ts_streams ts then ts_handle ts emit raw session w
      else ts_handle ts None raw session w)"

text \<open>The server of \<open>server.go\<close>: its message handling, and the check of the ids it issues.\<close>

definition model_server :: "mac \<Rightarrow> server \<Rightarrow> bytes \<Rightarrow> transport_server" where
  "model_server mac s gen =
     \<lparr>ts_handle = (\<lambda>emit raw session w.
        map_option (\<lambda>h. (hn_result h, hn_wire h)) (handle mac s emit gen raw session w)),
      ts_streams = True,
      ts_issued = Some (issued_session_id mac (sc_key (sv_session s))),
      ts_versions = Some (sv_versions s)\<rparr>"

section \<open>The contract of a server\<close>

text \<open>
  What a transport relies on: the flag of a result says whether there is a response, and a session
  is opened only by a legacy \<open>initialize\<close>, under an id the server stands by.
\<close>

definition opens_session :: "bytes \<Rightarrow> bool" where
  "opens_session raw = (case parse_request raw of
     Inl _ \<Rightarrow> False
   | Inr r \<Rightarrow> rq_method r = ''initialize'' \<and> is_legacy_meta (request_meta r))"

locale mcp_server =
  fixes run :: "emitter option \<Rightarrow> bytes \<Rightarrow> bytes \<Rightarrow> wire \<Rightarrow> (handle_result \<times> wire) option"
    and stands_by :: "bytes \<Rightarrow> bool"
  assumes flagged: "run e raw s w = Some (res, w') \<Longrightarrow> hr_has_response res = (hr_response res \<noteq> None)"
    and opened: "run e raw s w = Some (res, w') \<Longrightarrow> hr_session res \<noteq> [] \<Longrightarrow>
        opens_session raw \<and> stands_by (hr_session res) \<and> succeeded (hr_response res)"

section \<open>The server keeps the contract\<close>

lemma with_error_some: "out \<noteq> Panic \<Longrightarrow> with_error i out \<noteq> None"
  by (auto simp: with_error_def new_result_def marshal_result_def
      split: method_outcome.splits option.splits)

text \<open>What a transport sees of a result.\<close>

definition sound_result :: "mac \<Rightarrow> server \<Rightarrow> bytes \<Rightarrow> bool \<Rightarrow> handle_result \<Rightarrow> bool" where
  "sound_result mac s gen opens res =
     (hr_has_response res = (hr_response res \<noteq> None)
      \<and> (hr_session res \<noteq> [] \<longrightarrow> opens \<and> hr_session res = issue_session_id mac s gen
           \<and> succeeded (hr_response res)))"

lemma sound_reply [simp]: "sound_result mac s gen opens (reply_only (Some rsp))"
  by (simp add: sound_result_def)

lemma sound_with_error: "out \<noteq> Panic \<Longrightarrow> sound_result mac s gen opens (reply_only (with_error i out))"
  using with_error_some [of out i] by (simp add: sound_result_def)

lemma sound_envelope: "sound_result mac s gen opens res \<Longrightarrow>
    sound_result mac s gen opens (apply_result_envelope c r res)"
  using envelope_frame [of c r res]
  by (cases "hr_response res"; cases "hr_response (apply_result_envelope c r res)")
    (auto simp: sound_result_def succeeded_def)

lemma sound_initialize:
  assumes "handle_initialize mac s gen c r w = Some h"
  shows "sound_result mac s gen True (hn_result h)"
proof -
  define m where "m = (case map_of (sv_methods s) ''initialize'' of Some m \<Rightarrow> m | None \<Rightarrow> mcp_initialize)"
  obtain out st where o: "m c r (start_state w) = (out, st)" by (cases "m c r (start_state w)")
  have p: "out \<noteq> Panic" using assms o by (auto simp: handle_initialize_def m_def Let_def)
  then show ?thesis
    using assms o sound_with_error [OF p, of mac s gen True "rq_id r"] with_error_some [OF p, of "rq_id r"]
    by (auto simp: handle_initialize_def m_def [symmetric] Let_def sound_result_def
        split: method_outcome.splits if_splits)
qed

lemma sound_tool_call:
  assumes "handle_tool_call s c r m session w = Some h"
  shows "sound_result mac s gen opens (hn_result h)"
proof -
  obtain out st where o: "m c r (start_state w) = (out, st)" by (cases "m c r (start_state w)")
  have "out \<noteq> Panic" using assms o by (auto simp: handle_tool_call_def Let_def)
  then show ?thesis
    using assms o sound_with_error [of out mac s gen opens "rq_id r"]
    by (auto simp: handle_tool_call_def Let_def split: method_outcome.splits)
qed

lemma sound_route:
  assumes "route mac s gen c r session w = Some h"
  shows "sound_result mac s gen (rq_method r = ''initialize'' \<and> is_legacy_meta (request_meta r)) (hn_result h)"
proof (cases "rq_method r = ''initialize''")
  case True
  show ?thesis
  proof (cases "is_legacy_meta (request_meta r)")
    case legacy: True
    then have "handle_initialize mac s gen c r w = Some h" using assms True by (simp add: route_def)
    from sound_initialize [OF this] True legacy show ?thesis by simp
  next
    case False
    then show ?thesis using assms True by (auto simp: route_def predates_protocol_meta_def)
  qed
next
  case False
  note route = assms [unfolded route_def if_not_P [OF False]]
  show ?thesis
  proof (cases "map_of (sv_methods s) (rq_method r)")
    case None
    with route show ?thesis by auto
  next
    case (Some m)
    note route = route [unfolded Some option.case]
    show ?thesis
    proof (cases "validate_arguments r")
      case (Some e)
      with route show ?thesis by auto
    next
      case None
      note route = route [unfolded None option.case]
      show ?thesis
      proof (cases "rq_method r = ''tools/call''")
        case True
        with route have "handle_tool_call s c r m session w = Some h" by simp
        then show ?thesis by (rule sound_tool_call)
      next
        case False
        obtain out st where o: "m c r (start_state w) = (out, st)" by (cases "m c r (start_state w)")
        with route False have p: "out \<noteq> Panic" by auto
        with route False o have "hn_result h = reply_only (with_error (rq_id r) out)"
          by (cases out) auto
        with sound_with_error [OF p] show ?thesis by simp
      qed
    qed
  qed
qed

lemma sound_handle:
  assumes "handle mac s emit gen raw session w = Some h"
  shows "sound_result mac s gen (opens_session raw) (hn_result h)"
proof (cases "parse_request raw")
  case (Inl ie)
  then show ?thesis
    using assms by (auto simp: handle_def sound_result_def split: sum.splits bool.splits prod.splits)
next
  case (Inr r)
  from Inr assms show ?thesis
  proof (cases rule: handle_request_cases)
    case (routed g)
    from sound_envelope [OF sound_route [OF routed(2)]] Inr show ?thesis
      by (simp add: routed(3) opens_session_def)
  qed simp
qed

definition stands_by :: "mac \<Rightarrow> server \<Rightarrow> bytes \<Rightarrow> bytes \<Rightarrow> bool" where
  "stands_by mac s gen i = (i = issue_session_id mac s gen)"

interpretation ms: mcp_server "ts_handle (model_server mac s gen)" "stands_by mac s gen"
proof unfold_locales
  fix e raw session w res w'
  assume "ts_handle (model_server mac s gen) e raw session w = Some (res, w')"
  then obtain h where "handle mac s e gen raw session w = Some h" "res = hn_result h"
    by (auto simp: model_server_def)
  with sound_handle [of mac s e gen raw session w h]
  have r: "sound_result mac s gen (opens_session raw) res" by simp
  then show "hr_has_response res = (hr_response res \<noteq> None)" by (simp add: sound_result_def)
  assume "hr_session res \<noteq> []"
  with r show "opens_session raw \<and> stands_by mac s gen (hr_session res) \<and> succeeded (hr_response res)"
    by (simp add: sound_result_def stands_by_def)
qed

text \<open>An id the server issues is one it vouches for, if it has a key and the generator is well behaved.\<close>

lemma stands_by_issued:
  "well_keyed mac (sc_key (sv_session s)) \<Longrightarrow> taggable gen \<Longrightarrow> stands_by mac s gen i \<Longrightarrow>
     issued_session_id mac (sc_key (sv_session s)) i"
  using sa.issued_vouched [of mac "sc_key (sv_session s)" gen]
  by (simp add: stands_by_def issue_session_id_def)

end
