(* ===== verification/Http_Transport.thy ===== *)
theory Http_Transport
  imports Transport
begin

text \<open>
  The HTTP transport (\<open>transport/http.go\<close>): one POST, from its headers and body to the reply.

  The reply is a value: the error the framework's boundary renders for a body that cannot be read,
  or a status, the session header if set, and the body, which is empty, one JSON message or the
  frames of an event stream. Writes to the client succeed, and the framework's content-type gate,
  which runs before the body is read, is not part of the model.
\<close>

section \<open>Bodies and headers\<close>

definition default_max_body_bytes :: int where "default_max_body_bytes = 4 * 2 ^ 20"
definition session_header :: bytes where "session_header = ''Mcp-Session-Id''"

record http_options =
  op_max_body :: int
  op_versions :: "bytes list"

definition with_max_body_bytes :: "int \<Rightarrow> http_options \<Rightarrow> http_options" where
  "with_max_body_bytes n opts = (if 0 < n then opts\<lparr>op_max_body := n\<rparr> else opts)"

definition http_with_protocol_versions :: "bytes list \<Rightarrow> http_options \<Rightarrow> http_options" where
  "http_with_protocol_versions vs opts = opts\<lparr>op_versions := vs\<rparr>"

definition protocol_versions_of :: "transport_server \<Rightarrow> http_options \<Rightarrow> http_options" where
  "protocol_versions_of ts opts =
     (case ts_versions ts of None \<Rightarrow> opts | Some vs \<Rightarrow> http_with_protocol_versions vs opts)"

definition http_options :: "(http_options \<Rightarrow> http_options) list \<Rightarrow> http_options" where
  "http_options opts = fold (\<lambda>f o0. f o0) opts \<lparr>op_max_body = default_max_body_bytes, op_versions = []\<rparr>"

text \<open>A request body: none, bytes that can be read to the end, or a read that fails.\<close>

datatype inbound = NoBody | Readable bytes | Broken

datatype body_fault = TooLarge | Unreadable

text \<open>\<open>readBody\<close>, through \<open>http.MaxBytesReader\<close>.\<close>

definition read_body :: "int \<Rightarrow> inbound \<Rightarrow> body_fault + bytes" where
  "read_body max_bytes b =
     (case b of
        NoBody \<Rightarrow> Inr []
      | Readable s \<Rightarrow> if max_bytes < int (length s) then Inl TooLarge else Inr s
      | Broken \<Rightarrow> Inl Unreadable)"

text \<open>The framework's status for the error \<open>bodyReadError\<close> returns.\<close>

definition body_error_status :: "body_fault \<Rightarrow> nat" where
  "body_error_status f = (case f of TooLarge \<Rightarrow> 413 | Unreadable \<Rightarrow> 400)"

text \<open>\<open>http.Header.Get\<close>.\<close>

definition header_get :: "headers \<Rightarrow> bytes \<Rightarrow> bytes" where
  "header_get h name = (case h name of [] \<Rightarrow> [] | v # _ \<Rightarrow> v)"

definition inbound_session_id :: "headers \<Rightarrow> transport_server \<Rightarrow> bytes \<Rightarrow> bytes" where
  "inbound_session_id h ts raw =
     (if is_modern_request raw then []
      else let i = trim_space (header_get h session_header)
           in if i = [] then []
              else case ts_issued ts of
                     None \<Rightarrow> []
                   | Some issued \<Rightarrow> if issued i then i else [])"

section \<open>Accept\<close>

text \<open>
  \<open>strings.ToLower\<close>, as far as its result can be ASCII: the capitals, and the two other runes whose
  lower case is ASCII, U+0130 (\<open>i\<close>) and U+212A (\<open>k\<close>). Every other byte stays, which keeps a string
  with any other rune different from every ASCII one.
\<close>

fun to_lower :: "bytes \<Rightarrow> bytes" where
  "to_lower [] = []"
| "to_lower (c # s) =
     (if has_prefix (c # s) [CHR 0xC4, CHR 0xB0] then CHR ''i'' # to_lower (drop 1 s)
      else if has_prefix (c # s) [CHR 0xE2, CHR 0x84, CHR 0xAA] then CHR ''k'' # to_lower (drop 2 s)
      else (if 0x41 \<le> byte c \<and> byte c \<le> 0x5A then char_of (byte c + 32) else c) # to_lower s)"

fun split_commas :: "bytes \<Rightarrow> bytes list" where
  "split_commas [] = [[]]"
| "split_commas (c # s) =
     (if c = CHR '','' then [] # split_commas s
      else case split_commas s of [] \<Rightarrow> [[c]] | p # ps \<Rightarrow> (c # p) # ps)"

record accept_set =
  ac_sse :: bool
  ac_plain :: bool
  ac_any :: bool

definition media_type :: "bytes \<Rightarrow> bytes" where
  "media_type part = to_lower (trim_space (case index_of part '';'' of None \<Rightarrow> part | Some i \<Rightarrow> take i part))"

definition accept_part :: "bytes \<Rightarrow> accept_set \<Rightarrow> accept_set" where
  "accept_part part a =
     (let m = media_type part
      in if m = ''text/event-stream'' then a\<lparr>ac_sse := True\<rparr>
         else if m = ''application/json'' \<or> m = ''application/*'' then a\<lparr>ac_plain := True\<rparr>
         else if m = ''*/*'' then a\<lparr>ac_any := True\<rparr>
         else a)"

definition parse_accept :: "headers \<Rightarrow> accept_set" where
  "parse_accept h =
     (let none = \<lparr>ac_sse = False, ac_plain = False, ac_any = False\<rparr>; accept = header_get h ''Accept''
      in if accept = [] then none else fold accept_part (split_commas accept) none)"

definition wants_event_stream :: "headers \<Rightarrow> bool" where
  "wants_event_stream h =
     (let a = parse_accept h in ac_sse a \<and> \<not> ac_plain a \<and> \<not> ac_any a)"

definition accepts_event_stream :: "headers \<Rightarrow> bool" where
  "accepts_event_stream h = (let a = parse_accept h in ac_sse a \<or> ac_any a)"

section \<open>What is streamed\<close>

text \<open>\<open>hasProgressToken\<close>: the nested struct, whose fields match without case; null leaves one as it is.\<close>

type_synonym member = "bytes \<times> bytes \<times> json"

definition struct_member :: "bytes \<Rightarrow> (member \<Rightarrow> bool \<Rightarrow> bool option) \<Rightarrow> member \<Rightarrow> bool \<Rightarrow> bool option" where
  "struct_member name inner m old =
     (case m of (k, _, v) \<Rightarrow>
        if field_is name (unquote k)
        then (case v of JObj ms \<Rightarrow> decode_members inner ms old | JNull \<Rightarrow> Some old | _ \<Rightarrow> None)
        else Some old)"

definition token_member :: "member \<Rightarrow> bool \<Rightarrow> bool option" where
  "token_member m old = (case m of (k, r, _) \<Rightarrow>
     Some (if field_is ''progressToken'' (unquote k) then r \<noteq> [] else old))"

definition has_progress_token :: "bytes \<Rightarrow> bool" where
  "has_progress_token raw =
     (case json_parse raw of
        Some (JObj ms) \<Rightarrow>
          decode_members (struct_member ''params'' (struct_member ''_meta'' token_member)) ms False = Some True
      | _ \<Rightarrow> False)"

definition streamable :: "headers \<Rightarrow> bytes \<Rightarrow> bool" where
  "streamable h raw =
     (if wants_subscription_stream raw then accepts_event_stream h
      else wants_event_stream h \<and> has_progress_token raw)"

section \<open>Replies\<close>

datatype http_body = NoContent | JsonBody bytes | EventStream "bytes list"

record http_response =
  ho_status :: nat
  ho_session :: bytes
  ho_body :: http_body

text \<open>A refusal of the header middleware is rendered by the framework (\<open>c.JSON\<close>).\<close>

datatype http_reply = BodyError body_fault | HeaderRefused nat rpc_response | Replied http_response

definition write_json :: "nat \<Rightarrow> bytes \<Rightarrow> http_response" where
  "write_json status msg = \<lparr>ho_status = status, ho_session = [], ho_body = JsonBody (msg @ [CHR 0x0A])\<rparr>"

definition write_sse :: "nat \<Rightarrow> bytes \<Rightarrow> http_response" where
  "write_sse status msg = \<lparr>ho_status = status, ho_session = [], ho_body = EventStream [msg]\<rparr>"

definition accepted_reply :: http_response where
  "accepted_reply = \<lparr>ho_status = 202, ho_session = [], ho_body = NoContent\<rparr>"

definition static_error_body :: bytes where
  "static_error_body = ''{\"jsonrpc\":\"2.0\",\"id\":null,\"error\":{\"code\":-32603,\"message\":\"Something went wrong while processing the request.\"}}''"

definition write_internal_error :: "bytes \<Rightarrow> rpc_response option \<Rightarrow> http_response" where
  "write_internal_error raw orig =
     (let i = (case orig of None \<Rightarrow> null_id | Some r \<Rightarrow> rs_id r);
          resp = new_error_response_code i code_internal_error internal_error_message;
          msg = (case encode_response resp of None \<Rightarrow> static_error_body | Some m \<Rightarrow> m)
      in write_json (reply_status raw (Some resp)) msg)"

text \<open>The reply to a message that was handled without streaming anything.\<close>

definition buffered_reply :: "headers \<Rightarrow> bytes \<Rightarrow> handle_result \<Rightarrow> http_response" where
  "buffered_reply h raw res =
     (case hr_response res of
        None \<Rightarrow> accepted_reply
      | Some rsp \<Rightarrow>
          if \<not> hr_has_response res then accepted_reply
          else case encode_response rsp of
            None \<Rightarrow> write_internal_error raw (Some rsp)
          | Some msg \<Rightarrow>
              (let status = reply_status raw (Some rsp);
                   out = (if wants_event_stream h then write_sse status msg else write_json status msg)
               in if hr_session res \<noteq> [] then out\<lparr>ho_session := hr_session res\<rparr> else out))"

text \<open>\<open>serveStream\<close>: frames are written as they are emitted; the headers go out with the first.\<close>

definition sse_emit :: emitter where
  "sse_emit msg w = (True, w @ [msg])"

definition serve_stream :: "headers \<Rightarrow> transport_server \<Rightarrow> bytes \<Rightarrow> bytes \<Rightarrow> http_response option" where
  "serve_stream h ts raw session =
     (case ts_handle ts (Some sse_emit) raw session [] of
        None \<Rightarrow> None
      | Some (res, frames) \<Rightarrow>
          (let streamed = (frames \<noteq> []);
               stream = (\<lambda>fs. \<lparr>ho_status = 200, ho_session = [], ho_body = EventStream fs\<rparr>)
           in if \<not> streamed then Some (buffered_reply h raw res)
              else if \<not> hr_has_response res then Some (stream frames)
              else case hr_response res of
                None \<Rightarrow> Some (stream frames)
              | Some rsp \<Rightarrow>
                  (case encode_response rsp of
                     None \<Rightarrow> Some (stream frames)
                   | Some msg \<Rightarrow> Some (stream (frames @ [msg])))))"

section \<open>The handler\<close>

text \<open>The handler proper, behind the header middleware, which hands it the buffered body.\<close>

definition serve :: "int \<Rightarrow> transport_server \<Rightarrow> headers \<Rightarrow> inbound \<Rightarrow> http_reply option" where
  "serve max_body ts h body =
     (case read_body max_body body of
        Inl f \<Rightarrow> Some (BodyError f)
      | Inr raw \<Rightarrow>
          (let session = inbound_session_id h ts raw
           in if streamable h raw \<and> ts_streams ts
              then map_option Replied (serve_stream h ts raw session)
              else case ts_handle ts None raw session [] of
                     None \<Rightarrow> None
                   | Some (res, _) \<Rightarrow> Some (Replied (buffered_reply h raw res))))"

text \<open>\<open>Handler\<close>; \<open>None\<close> is a panic, which the framework recovers.\<close>

definition http_handler ::
  "(http_options \<Rightarrow> http_options) list \<Rightarrow> transport_server \<Rightarrow> headers \<Rightarrow> inbound \<Rightarrow> http_reply option" where
  "http_handler opts ts h body =
     (let max_body = op_max_body (http_options opts);
          checked = http_options (opts @ [protocol_versions_of ts])
      in case read_body (op_max_body checked) body of
           Inl f \<Rightarrow> Some (BodyError f)
         | Inr raw \<Rightarrow>
             (case validate_headers (op_versions checked) h raw of
                Refused status rsp \<Rightarrow> Some (HeaderRefused status rsp)
              | Next _ \<Rightarrow> serve max_body ts h (Readable raw)))"


section \<open>Sessions over HTTP\<close>

lemma tagged_tight: "taggable i \<Longrightarrow> well_keyed mac key \<Longrightarrow> tight (tag_session_id mac key i)"
proof -
  assume i: "taggable i" "well_keyed mac key"
  then have "issued_session_id mac key (tag_session_id mac key i)" using sa.issued_vouched by blast
  then have v: "tag_session_id mac key i \<noteq> []" "is_visible_ascii (tag_session_id mac key i)"
    by (auto simp: issued_session_id_def split: if_splits)
  have "0x21 \<le> byte c \<and> byte c \<le> 0x7E" if "c \<in> set (tag_session_id mac key i)" for c
    using v(2) that by (simp add: is_visible_ascii_def list_all_iff)
  from this [OF hd_in_set [OF v(1)]] this [OF last_in_set [OF v(1)]] show ?thesis
    by (auto simp: tight_def ascii_space_def v(1))
qed

lemma model_server_simps [simp]:
  "ts_streams (model_server mac s gen)" "ts_versions (model_server mac s gen) = Some (sv_versions s)"
  "ts_issued (model_server mac s gen) = Some (issued_session_id mac (sc_key (sv_session s)))"
  by (simp_all add: model_server_def)

lemma inbound_issued:
  assumes "well_keyed mac (sc_key (sv_session s))"
  shows "inbound_session_id h (model_server mac s gen) raw =
    (if \<not> is_modern_request raw
        \<and> (\<exists>i. taggable i \<and> trim_space (header_get h session_header) = tag_session_id mac (sc_key (sv_session s)) i)
     then trim_space (header_get h session_header) else [])"
proof -
  let ?k = "sc_key (sv_session s)"
  have v: "issued_session_id mac ?k x \<longleftrightarrow> (\<exists>i. taggable i \<and> x = tag_session_id mac ?k i)" for x
    using sa.issued_vouched [of mac ?k] sa.vouched_issued [of mac ?k x] assms by blast
  show ?thesis by (auto simp: inbound_session_id_def Let_def v)
qed

text \<open>
  C12. A message is handled under a session only when the server issued it: the id of the header
  reaches the handlers exactly when the request is made under a revision that has sessions and the
  id, white space trimmed, is the tagged form of some id the server may have generated. Every other
  header value, and every modern request, is handled with no session.
\<close>

theorem http_session_issued:
  assumes "well_keyed mac (sc_key (sv_session s))"
  shows "inbound_session_id h (model_server mac s gen) raw =
    (if \<not> is_modern_request raw
        \<and> (\<exists>i. taggable i \<and> trim_space (header_get h session_header) = tag_session_id mac (sc_key (sv_session s)) i)
     then trim_space (header_get h session_header) else [])"
  using assms by (rule inbound_issued)

definition session_lines :: "bytes \<Rightarrow> headers" where
  "session_lines v name = (if name = session_header then [v] else [])"

theorem http_session_issued_witness:
  "inbound_session_id (session_lines ''forged.00'') (model_server toy_mac demo_server ''g'') ping_message = []"
proof -
  have w: "well_keyed toy_mac (sc_key (sv_session demo_server))"
    by (simp add: demo_server_def new_server_def Let_def detect_ui_capability_def toy_mac_keyed)
  have "trim_space ''forged.00'' = ''forged.00''" by code_simp
  moreover have "tag_session_id toy_mac (sc_key (sv_session demo_server)) i \<noteq> ''forged.00''"
    if i: "taggable i" for i
  proof
    assume e: "tag_session_id toy_mac (sc_key (sv_session demo_server)) i = ''forged.00''"
    have "length (tag_session_id toy_mac (sc_key (sv_session demo_server)) i) > 32"
      using i w tag_length [of toy_mac "sc_key (sv_session demo_server)" i]
      by (auto simp: tag_session_id_def taggable_def well_keyed_def session_tag_size_def session_tag_separator_def)
    with e show False by simp
  qed
  moreover have "header_get (session_lines ''forged.00'') session_header = ''forged.00''"
    by (simp add: header_get_def session_lines_def)
  ultimately have "\<not> (\<exists>i. taggable i \<and> trim_space (header_get (session_lines ''forged.00'') session_header)
      = tag_session_id toy_mac (sc_key (sv_session demo_server)) i)" by metis
  then show ?thesis unfolding http_session_issued [OF w] by (rule if_not_P [OF contrapos_nn]) blast
qed


section \<open>From the server's result to the reply\<close>

text \<open>
  What a server keeping the contract makes of a reply: a session header is set only when the message
  opened a session, and then it names one the server stands by.
\<close>

context mcp_server begin

lemma buffered_session:
  assumes "run e raw s w = Some (res, w')" "ho_session (buffered_reply h raw' res) \<noteq> []"
  shows "opens_session raw \<and> stands_by (ho_session (buffered_reply h raw' res))"
proof -
  have "ho_session (buffered_reply h raw' res) = hr_session res"
    using assms(2) by (auto simp: buffered_reply_def accepted_reply_def write_internal_error_def
        write_json_def write_sse_def Let_def split: option.splits if_splits)
  then show ?thesis using opened [OF assms(1)] assms(2) by simp
qed

lemma served_session:
  assumes "ts_handle ts = run" "serve max_body ts h (Readable raw) = Some (Replied rp)" "ho_session rp \<noteq> []"
  shows "opens_session raw \<and> stands_by (ho_session rp)"
proof -
  let ?s = "inbound_session_id h ts raw"
  have r: "read_body max_body (Readable raw) = Inr raw"
    using assms(2) by (auto simp: serve_def read_body_def split: if_splits)
  show ?thesis
  proof (cases "streamable h raw \<and> ts_streams ts")
    case True
    then obtain res frames where res: "run (Some sse_emit) raw ?s [] = Some (res, frames)"
      and rp: "serve_stream h ts raw ?s = Some rp"
      using assms(1,2) r by (auto simp: serve_def serve_stream_def Let_def split: option.splits)
    have "rp = buffered_reply h raw res"
      using rp res assms(1,3) by (auto simp: serve_stream_def Let_def split: if_splits option.splits)
    then show ?thesis using buffered_session [OF res] assms(3) by simp
  next
    case False
    then obtain res w where res: "run None raw ?s [] = Some (res, w)" and "rp = buffered_reply h raw res"
      using assms(1,2) r by (auto simp: serve_def Let_def split: option.splits prod.splits)
    then show ?thesis using buffered_session [OF res] assms(3) by simp
  qed
qed

end

lemma handler_replied:
  assumes "http_handler opts ts h (Readable raw) = Some (Replied rp)"
  shows "\<exists>info. validate_headers (op_versions (http_options (opts @ [protocol_versions_of ts]))) h raw = Next info
    \<and> serve (op_max_body (http_options opts)) ts h (Readable raw) = Some (Replied rp)"
  using assms by (auto simp: http_handler_def Let_def read_body_def split: if_splits admission.splits)

lemma model_served_session:
  assumes "http_handler opts (model_server mac s gen) h (Readable raw) = Some (Replied rp)" "ho_session rp \<noteq> []"
  shows "opens_session raw \<and> ho_session rp = issue_session_id mac s gen"
  using ms.served_session [OF refl, of _ mac s gen h raw rp] handler_replied [OF assms(1)] assms(2)
  by (auto simp: stands_by_def)

text \<open>
  A session survives the round trip through the client: the reply that sets a session header
  answers a legacy \<open>initialize\<close>, and a client that sends the value back, with or without white space
  around it, has its later legacy messages handled under exactly that session, whatever ids the
  server's generator gives in between.
\<close>

theorem http_session_roundtrip:
  assumes "well_keyed mac (sc_key (sv_session s))" "taggable gen"
    "http_handler opts (model_server mac s gen) h (Readable raw) = Some (Replied rp)" "ho_session rp \<noteq> []"
    "trim_space (header_get h2 session_header) = ho_session rp" "\<not> is_modern_request raw2"
  shows "opens_session raw \<and> inbound_session_id h2 (model_server mac s gen2) raw2 = ho_session rp"
proof -
  have "opens_session raw \<and> ho_session rp = issue_session_id mac s gen"
    by (rule model_served_session [OF assms(3,4)])
  then show ?thesis
    unfolding inbound_issued [OF assms(1)] assms(5) using assms(2,6) by (auto simp: issue_session_id_def)
qed


text \<open>What can be encoded: an id and a result that are JSON.\<close>

lemma encode_success:
  assumes "token max_nesting (id_raw (rs_id rsp))" "rs_error rsp = None" "token max_nesting (rs_result rsp)"
  shows "encode_response rsp \<noteq> None"
proof -
  obtain vi where "tree_of (ARaw (id_raw (rs_id rsp))) = Some vi" using assms(1) by (rule tree_of_token) auto
  moreover obtain vr where "tree_of (ARaw (rs_result rsp)) = Some vr" using assms(3) by (rule tree_of_token) auto
  moreover have "text_tree rpc_version \<noteq> None" by code_simp
  ultimately show ?thesis
    using assms(2) id_marshal_token [OF assms(1)] token_nonempty [OF assms(3)]
    by (auto simp: encode_response_def field_def omit_empty_def)
qed

definition no_headers :: headers where "no_headers name = []"

lemma initialize_admitted:
  "validate_headers server_supported_versions no_headers initialize_message \<noteq> Refused st rsp"
  "\<not> streamable no_headers initialize_message" "\<not> is_modern_request ping_message"
proof -
  have "case validate_headers server_supported_versions no_headers initialize_message of Refused _ _ \<Rightarrow> False | _ \<Rightarrow> True"
    by code_simp
  then show "validate_headers server_supported_versions no_headers initialize_message \<noteq> Refused st rsp" by auto
  show "\<not> streamable no_headers initialize_message" by code_simp
  show "\<not> is_modern_request ping_message" by code_simp
qed

lemma initialize_replied:
  "\<exists>rp. http_handler [] (model_server toy_mac demo_server ''g'') no_headers (Readable initialize_message)
      = Some (Replied rp) \<and> ho_session rp = issue_session_id toy_mac demo_server ''g''"
proof -
  obtain r where r: "parse_request initialize_message = Inr r" "rq_id r = Id ''1''"
    "rq_method r = ''initialize''" "is_legacy_meta (request_meta r)"
    using initialize_request by (auto split: sum.splits)
  let ?ts = "model_server toy_mac demo_server ''g''"
  let ?i = "inbound_session_id no_headers ?ts initialize_message"
  obtain ho rsp where h: "handle toy_mac demo_server None ''g'' initialize_message ?i [] = Some ho"
    "hr_response (hn_result ho) = Some rsp" "rs_id rsp = rq_id r" "rs_error rsp = None"
    "hr_session (hn_result ho) = issue_session_id toy_mac demo_server ''g''"
    "token max_nesting (rs_result rsp)" "hr_has_response (hn_result ho)"
    by (rule initialize_opens [OF r(1,3) demo_server_initialize r(4)])
  have "token max_nesting ''1''" by (rule token_check) code_simp
  then obtain msg where msg: "encode_response rsp = Some msg" using encode_success [of rsp] h(3,4,6) r(2) by auto
  have n: "issue_session_id toy_mac demo_server ''g'' \<noteq> []" by (rule issued_not_empty) simp
  have v: "sv_versions demo_server = server_supported_versions"
    by (simp add: demo_server_def new_server_def Let_def detect_ui_capability_def)
  have len: "int (length initialize_message) \<le> default_max_body_bytes"
    by (simp add: initialize_message_def default_max_body_bytes_def)
  have "ts_handle ?ts None initialize_message ?i [] = Some (hn_result ho, hn_wire ho)"
    using h(1) by (simp add: model_server_def)
  then have s: "serve default_max_body_bytes ?ts no_headers (Readable initialize_message)
      = Some (Replied (buffered_reply no_headers initialize_message (hn_result ho)))"
    using len initialize_admitted(2) by (simp add: serve_def read_body_def Let_def)
  have "ho_session (buffered_reply no_headers initialize_message (hn_result ho))
      = issue_session_id toy_mac demo_server ''g''"
    using h(2,5,7) n msg by (simp add: buffered_reply_def Let_def)
  moreover have "http_handler [] ?ts no_headers (Readable initialize_message)
      = serve default_max_body_bytes ?ts no_headers (Readable initialize_message)"
    using len initialize_admitted(1) v
    by (auto simp: http_handler_def http_options_def protocol_versions_of_def read_body_def
        http_with_protocol_versions_def split: admission.splits)
  ultimately show ?thesis using s by simp
qed

theorem http_session_roundtrip_witness:
  "opens_session initialize_message
   \<and> inbound_session_id (session_lines (issue_session_id toy_mac demo_server ''g''))
       (model_server toy_mac demo_server ''other'') ping_message
     = issue_session_id toy_mac demo_server ''g''"
proof -
  let ?sid = "issue_session_id toy_mac demo_server ''g''"
  obtain rp where rp: "http_handler [] (model_server toy_mac demo_server ''g'') no_headers (Readable initialize_message)
      = Some (Replied rp)" "ho_session rp = ?sid" using initialize_replied by blast
  have k: "well_keyed toy_mac (sc_key (sv_session demo_server))"
    by (simp add: demo_server_def new_server_def Let_def detect_ui_capability_def toy_mac_keyed)
  have g: "taggable ''g''"
    by (simp add: taggable_def is_visible_ascii_def session_tag_size_def max_session_id_length_def)
  have "trim_space (header_get (session_lines ?sid) session_header) = ho_session rp"
    using tagged_tight [OF g k] rp(2) by (simp add: header_get_def session_lines_def issue_session_id_def)
  then show ?thesis
    using http_session_roundtrip [OF k g rp(1) _ _ initialize_admitted(3)] rp(2) issued_not_empty by simp
qed


section \<open>What a client gets back\<close>

lemma buffered_accepted: "hr_response res = None \<Longrightarrow> buffered_reply h raw res = accepted_reply"
  by (simp add: buffered_reply_def)

lemma buffered_message:
  assumes "hr_response res = Some rsp" "hr_has_response res" "encode_response rsp = Some msg"
  shows "ho_status (buffered_reply h raw res) = reply_status raw (Some rsp)"
    "ho_body (buffered_reply h raw res)
      = (if wants_event_stream h then EventStream [msg] else JsonBody (msg @ [CHR 0x0A]))"
  using assms by (simp_all add: buffered_reply_def write_sse_def write_json_def Let_def)

text \<open>The result a reply was made of, and whether frames were streamed before it.\<close>

lemma served_result:
  assumes "serve max_body (model_server mac s gen) h (Readable raw) = Some rep"
    "int (length raw) \<le> max_body"
  obtains ho rp emit where "rep = Replied rp"
    "handle mac s emit gen raw (inbound_session_id h (model_server mac s gen) raw) [] = Some ho"
    "rp = buffered_reply h raw (hn_result ho) \<or> streamable h raw \<and> hn_wire ho \<noteq> []
       \<and> ho_status rp = 200 \<and> ho_session rp = []
       \<and> (\<forall>rsp msg. hr_response (hn_result ho) = Some rsp \<longrightarrow> hr_has_response (hn_result ho) \<longrightarrow>
            encode_response rsp = Some msg \<longrightarrow> ho_body rp = EventStream (hn_wire ho @ [msg]))"
proof -
  let ?ts = "model_server mac s gen"
  let ?i = "inbound_session_id h ?ts raw"
  have run: "ts_handle ?ts e raw ?i [] = Some (res, w) \<longleftrightarrow>
      (\<exists>ho. handle mac s e gen raw ?i [] = Some ho \<and> res = hn_result ho \<and> w = hn_wire ho)" for e res w
    by (auto simp: model_server_def)
  have b: "read_body max_body (Readable raw) = Inr raw" using assms(2) by (simp add: read_body_def)
  show thesis
  proof (cases "streamable h raw")
    case True
    then obtain rp where rp: "rep = Replied rp" "serve_stream h ?ts raw ?i = Some rp"
      using assms(1) b by (auto simp: serve_def Let_def)
    then obtain res frames where "ts_handle ?ts (Some sse_emit) raw ?i [] = Some (res, frames)"
      by (auto simp: serve_stream_def split: option.splits)
    moreover from this obtain ho where "handle mac s (Some sse_emit) gen raw ?i [] = Some ho"
      "res = hn_result ho" "frames = hn_wire ho" unfolding run by blast
    ultimately show thesis
      using that [OF rp(1)] rp(2) True
      by (cases "frames = []") (auto simp: serve_stream_def Let_def split: if_splits option.splits)
  next
    case False
    then obtain res w where "ts_handle ?ts None raw ?i [] = Some (res, w)" "rep = Replied (buffered_reply h raw res)"
      using assms(1) b by (auto simp: serve_def Let_def split: option.splits)
    moreover from this(1) obtain ho where "handle mac s None gen raw ?i [] = Some ho" "res = hn_result ho"
      unfolding run by blast
    ultimately show thesis using that by blast
  qed
qed

text \<open>A refusal of the header middleware is correlated to the message.\<close>

lemma refused_headers:
  assumes "validate_headers vs h raw = Refused status rsp"
  shows "status = 400 \<and> rs_error rsp \<noteq> None
    \<and> (\<exists>info. inspect_message raw = Some info \<and> rs_id rsp = Id (mi_id info))"
proof -
  obtain info where i: "inspect_message raw = Some info"
    using assms by (auto simp: validate_headers_def split: option.splits)
  have w: "write_header_error (mi_id info) e = Refused 400 (new_error_response (Id (mi_id info)) e)" for e
    by (rule refusal_id [OF i])
  have "status = 400 \<and> rs_id rsp = Id (mi_id info) \<and> rs_error rsp \<noteq> None"
    using assms i
    by (auto simp: validate_headers_def legacy_request_def serve_legacy_def write_header_mismatch_def
        write_unsupported_protocol_version_def w split: option.splits sum.splits if_splits)
  then show ?thesis using i by simp
qed

text \<open>
  What a client gets back over HTTP. A body over the limit is refused for its size; a request
  whose headers contradict it is refused with 400 under its own id; a notification is acknowledged
  with 202 and an empty body; every other message gets one JSON-RPC reply, a request one under its
  id, as JSON or as an event by the client's \<open>Accept\<close> header, with the status its outcome maps to;
  only a message that may be streamed has frames before it, and then the status is 200.
\<close>

theorem http_reply_correlated:
  assumes "standard_server hl s" "http_handler opts (model_server mac s gen) h (Readable raw) = Some rep"
  shows "case rep of
      BodyError f \<Rightarrow> f = TooLarge
    | HeaderRefused status rsp \<Rightarrow> status = 400 \<and> rs_error rsp \<noteq> None
        \<and> (\<exists>info. inspect_message raw = Some info \<and> rs_id rsp = Id (mi_id info))
    | Replied rp \<Rightarrow>
        if is_notification_bytes raw = Inr True \<and> \<not> isl (parse_notification raw) then rp = accepted_reply
        else \<exists>rsp. (case parse_request raw of Inr r \<Rightarrow> rs_id rsp = rq_id r | Inl _ \<Rightarrow> rs_error rsp \<noteq> None)
          \<and> (\<forall>msg. encode_response rsp = Some msg \<longrightarrow>
               ho_status rp = reply_status raw (Some rsp)
                 \<and> ho_body rp = (if wants_event_stream h then EventStream [msg] else JsonBody (msg @ [CHR 0x0A]))
               \<or> streamable h raw \<and> ho_status rp = 200
                 \<and> (\<exists>frames. frames \<noteq> [] \<and> ho_body rp = EventStream (frames @ [msg])))"
proof (cases rep)
  case (BodyError f)
  then show ?thesis
    using assms(2)
    by (auto simp: http_handler_def serve_def read_body_def Let_def split: if_splits admission.splits option.splits)
next
  case (HeaderRefused status rsp)
  then have "validate_headers (op_versions (http_options (opts @ [protocol_versions_of (model_server mac s gen)]))) h raw
      = Refused status rsp"
    using assms(2)
    by (auto simp: http_handler_def serve_def read_body_def Let_def split: if_splits admission.splits option.splits)
  then show ?thesis using refused_headers [of _ h raw status rsp] HeaderRefused by simp
next
  case (Replied rp)
  have len: "int (length raw) \<le> op_max_body (http_options opts)"
    using assms(2) Replied
    by (auto simp: http_handler_def serve_def read_body_def Let_def split: if_splits admission.splits option.splits)
  have served: "serve (op_max_body (http_options opts)) (model_server mac s gen) h (Readable raw) = Some (Replied rp)"
    using handler_replied [OF assms(2) [unfolded Replied]] by blast
  obtain ho rp' emit where h: "Replied rp = Replied rp'"
    "handle mac s emit gen raw (inbound_session_id h (model_server mac s gen) raw) [] = Some ho"
    "rp' = buffered_reply h raw (hn_result ho) \<or> streamable h raw \<and> hn_wire ho \<noteq> []
       \<and> ho_status rp' = 200 \<and> ho_session rp' = []
       \<and> (\<forall>rsp msg. hr_response (hn_result ho) = Some rsp \<longrightarrow> hr_has_response (hn_result ho) \<longrightarrow>
            encode_response rsp = Some msg \<longrightarrow> ho_body rp' = EventStream (hn_wire ho @ [msg]))"
    by (rule served_result [OF served len])
  note a = handle_answered [OF assms(1) h(2)]
  show ?thesis
  proof (cases "is_notification_bytes raw = Inr True \<and> \<not> isl (parse_notification raw)")
    case True
    with a have "hr_response (hn_result ho) = None" "hn_wire ho = []" by simp_all
    with h(1,3) have "rp = accepted_reply" by (simp add: buffered_accepted)
    with True Replied show ?thesis by simp
  next
    case False
    from a [unfolded if_not_P [OF False]]
    obtain rsp where r: "hr_response (hn_result ho) = Some rsp" "hr_has_response (hn_result ho)"
      "case parse_request raw of Inr r \<Rightarrow> rs_id rsp = rq_id r | Inl _ \<Rightarrow> rs_error rsp \<noteq> None"
      by (elim exE conjE) (cases "parse_request raw", auto)
    have "ho_status rp = reply_status raw (Some rsp)
          \<and> ho_body rp = (if wants_event_stream h then EventStream [msg] else JsonBody (msg @ [CHR 0x0A]))
        \<or> streamable h raw \<and> ho_status rp = 200
          \<and> (\<exists>frames. frames \<noteq> [] \<and> ho_body rp = EventStream (frames @ [msg]))"
      if "encode_response rsp = Some msg" for msg
      using h(3)
    proof
      assume "rp' = buffered_reply h raw (hn_result ho)"
      with h(1) buffered_message [OF r(1,2) that, of h raw] show ?thesis by simp
    next
      assume "streamable h raw \<and> hn_wire ho \<noteq> [] \<and> ho_status rp' = 200 \<and> ho_session rp' = []
        \<and> (\<forall>rsp msg. hr_response (hn_result ho) = Some rsp \<longrightarrow> hr_has_response (hn_result ho) \<longrightarrow>
            encode_response rsp = Some msg \<longrightarrow> ho_body rp' = EventStream (hn_wire ho @ [msg]))"
      with h(1) r(1,2) that show ?thesis by blast
    qed
    then show ?thesis
      unfolding Replied http_reply.case if_not_P [OF False] using r(3) by blast
  qed
qed


theorem http_reply_correlated_witness:
  "\<exists>rp rsp. http_handler [] (model_server toy_mac demo_server ''g'') no_headers (Readable initialize_message)
       = Some (Replied rp)
     \<and> rs_id rsp = Id ''1'' \<and> (\<forall>msg. encode_response rsp = Some msg \<longrightarrow> ho_body rp = JsonBody (msg @ [CHR 0x0A]))"
proof -
  obtain rp where rp: "http_handler [] (model_server toy_mac demo_server ''g'') no_headers (Readable initialize_message)
      = Some (Replied rp)" using initialize_replied by blast
  obtain r where r: "parse_request initialize_message = Inr r" "rq_id r = Id ''1''"
    using initialize_request by (auto split: sum.splits)
  have n: "\<not> (is_notification_bytes initialize_message = Inr True \<and> \<not> isl (parse_notification initialize_message))"
    using request_no_notification [OF r(1)] by simp
  have "\<not> wants_event_stream no_headers" by code_simp
  with http_reply_correlated [OF demo_server_standard rp] n r initialize_admitted(2) rp
  show ?thesis by auto
qed

end
