(* ===== verification/Stdio_Transport.thy ===== *)
theory Stdio_Transport
  imports Transport
begin

text \<open>
  The stdio transport (\<open>transport/stdio.go\<close>) and the in-memory one (\<open>transport/fake.go\<close>): the input
  split into lines as \<open>bufio.Scanner\<close> does, one line handled at a time, and the loop as a step
  relation, which cancellation may stop between any two lines.

  Whether a write succeeds is a predicate of what was written before. The generator's value for a
  session id is given per line, as the server of the line.
\<close>

section \<open>Lines\<close>

definition max_line_bytes :: nat where "max_line_bytes = 4 * 2 ^ 20"

text \<open>\<open>bufio.ScanLines\<close> drops one carriage return before the newline.\<close>

definition drop_cr :: "bytes \<Rightarrow> bytes" where
  "drop_cr s = (if s \<noteq> [] \<and> last s = CHR 0x0D then butlast s else s)"

lemma index_of_less: "index_of s p = Some i \<Longrightarrow> p \<noteq> [] \<Longrightarrow> i < length s"
proof (induction s arbitrary: i)
  case (Cons c s)
  then show ?case by (auto split: if_splits option.splits)
qed simp

text \<open>
  \<open>readLines\<close>: the complete lines, and what follows the last newline if there is any; a line that
  does not fit the buffer ends the stream.
\<close>

function scan_lines :: "nat \<Rightarrow> bytes \<Rightarrow> bytes list" where
  "scan_lines cap s =
     (if s = [] then []
      else case index_of s [CHR 0x0A] of
             None \<Rightarrow> if length s < cap then [drop_cr s] else []
           | Some i \<Rightarrow> if i < cap then drop_cr (take i s) # scan_lines cap (drop (Suc i) s) else [])"
  by pat_completeness auto
termination
  by (relation "measure (\<lambda>(cap, s). length s)") (auto dest: index_of_less)

declare scan_lines.simps [simp del]

section \<open>One line\<close>

record stdio =
  so_session :: bytes
  so_out :: wire

text \<open>\<open>Send\<close>: a frame and its newline; a failed write leaves the stream as it is.\<close>

definition stdio_send :: "(wire \<Rightarrow> bool) \<Rightarrow> emitter" where
  "stdio_send up msg w = (if up w then (True, w @ [msg]) else (False, w))"

text \<open>
  \<open>dispatch\<close>: whether the loop goes on, and the new state. \<open>None\<close> is a panic of the handler.
\<close>

definition stdio_dispatch ::
  "transport_server \<Rightarrow> (wire \<Rightarrow> bool) \<Rightarrow> bytes \<Rightarrow> stdio \<Rightarrow> (bool \<times> stdio) option" where
  "stdio_dispatch ts up line st =
     (if line = [] then Some (True, st)
      else case handle_message ts (Some (stdio_send up)) line (so_session st) (so_out st) of
        None \<Rightarrow> None
      | Some (res, w) \<Rightarrow>
          (let st' = \<lparr>so_session = (if hr_session res \<noteq> [] then hr_session res else so_session st), so_out = w\<rparr>
           in if \<not> hr_has_response res then Some (True, st')
              else case hr_response res of
                None \<Rightarrow> Some (True, st')
              | Some rsp \<Rightarrow>
                  (case encode_response rsp of
                     None \<Rightarrow> Some (True, st')
                   | Some msg \<Rightarrow>
                       (case stdio_send up msg w of (ok, w') \<Rightarrow> Some (ok, st'\<lparr>so_out := w'\<rparr>)))))"

section \<open>The loop\<close>

text \<open>
  A configuration is what is left of the input, the state of the transport and whether the loop has
  ended. The loop takes the next line, ends at the end of the input, after a failed write, and, when
  its context is cancelled, between any two lines.
\<close>

record stdio_loop =
  sl_lines :: "bytes list"
  sl_next :: nat
  sl_state :: stdio
  sl_done :: bool

inductive stdio_step ::
  "(nat \<Rightarrow> transport_server) \<Rightarrow> (wire \<Rightarrow> bool) \<Rightarrow> stdio_loop \<Rightarrow> stdio_loop \<Rightarrow> bool"
  for srv :: "nat \<Rightarrow> transport_server" and up :: "wire \<Rightarrow> bool" where
  line: "stdio_dispatch (srv n) up l st = Some (ok, st') \<Longrightarrow>
     stdio_step srv up \<lparr>sl_lines = l # ls, sl_next = n, sl_state = st, sl_done = False\<rparr>
       \<lparr>sl_lines = ls, sl_next = Suc n, sl_state = st', sl_done = \<not> ok\<rparr>"
| eof: "stdio_step srv up \<lparr>sl_lines = [], sl_next = n, sl_state = st, sl_done = False\<rparr>
     \<lparr>sl_lines = [], sl_next = n, sl_state = st, sl_done = True\<rparr>"
| cancelled: "stdio_step srv up \<lparr>sl_lines = ls, sl_next = n, sl_state = st, sl_done = False\<rparr>
     \<lparr>sl_lines = ls, sl_next = n, sl_state = st, sl_done = True\<rparr>"

inductive_cases stdio_stepE: "stdio_step srv up a b"

inductive stdio_reach ::
  "(nat \<Rightarrow> transport_server) \<Rightarrow> (wire \<Rightarrow> bool) \<Rightarrow> stdio_loop \<Rightarrow> stdio_loop \<Rightarrow> bool"
  for srv :: "nat \<Rightarrow> transport_server" and up :: "wire \<Rightarrow> bool" where
  start: "stdio_reach srv up a a"
| step: "stdio_reach srv up a b \<Longrightarrow> stdio_step srv up b c \<Longrightarrow> stdio_reach srv up a c"

definition stdio_init :: stdio where
  "stdio_init = \<lparr>so_session = [], so_out = []\<rparr>"

definition stdio_start :: "bytes \<Rightarrow> stdio_loop" where
  "stdio_start input = \<lparr>sl_lines = scan_lines max_line_bytes input, sl_next = 0,
     sl_state = stdio_init, sl_done = False\<rparr>"

text \<open>The specification of the loop: the lines handled one after the other, up to a failed write.\<close>

fun stdio_run ::
  "(nat \<Rightarrow> transport_server) \<Rightarrow> (wire \<Rightarrow> bool) \<Rightarrow> nat \<Rightarrow> bytes list \<Rightarrow> stdio \<Rightarrow> (bool \<times> stdio) option" where
  "stdio_run srv up n [] st = Some (True, st)"
| "stdio_run srv up n (l # ls) st =
     (case stdio_dispatch (srv n) up l st of
        None \<Rightarrow> None
      | Some (ok, st') \<Rightarrow> if ok then stdio_run srv up (Suc n) ls st' else Some (False, st'))"

lemma stdio_run_snoc:
  "stdio_run srv up n ls st = Some (True, st') \<Longrightarrow>
     stdio_run srv up n (ls @ [l]) st = stdio_dispatch (srv (n + length ls)) up l st'"
  by (induction srv up n ls st rule: stdio_run.induct) (auto split: option.splits if_splits)

lemma stdio_run_init:
  "stdio_run srv up n (ls @ [l]) st = Some (True, st') \<Longrightarrow> \<exists>st0. stdio_run srv up n ls st = Some (True, st0)"
  by (induction srv up n ls st rule: stdio_run.induct) (auto split: option.splits if_splits)

text \<open>The configurations in which the loop is still running after \<open>k\<close> lines, and those it ends in.\<close>

definition running_after ::
  "(nat \<Rightarrow> transport_server) \<Rightarrow> (wire \<Rightarrow> bool) \<Rightarrow> bytes list \<Rightarrow> nat \<Rightarrow> stdio \<Rightarrow> bool" where
  "running_after srv up ls k st = (k \<le> length ls \<and> stdio_run srv up 0 (take k ls) stdio_init = Some (True, st))"

lemma running_next:
  assumes "running_after srv up ls k st" "drop k ls = l # rest"
  shows "k < length ls" "ls ! k = l" "drop (Suc k) ls = rest"
    "stdio_dispatch (srv k) up l st = Some (True, st') \<Longrightarrow> running_after srv up ls (Suc k) st'"
proof -
  show k: "k < length ls" using assms(2) by (metis drop_eq_Nil list.distinct(1) not_le)
  show l: "ls ! k = l" "drop (Suc k) ls = rest"
    using assms(2) k by (metis nth_via_drop) (metis assms(2) drop_Suc list.sel(3) tl_drop)
  have "take (Suc k) ls = take k ls @ [l]" using l(1) k take_Suc_conv_app_nth by blast
  then show "stdio_dispatch (srv k) up l st = Some (True, st') \<Longrightarrow> running_after srv up ls (Suc k) st'"
    using assms(1) k stdio_run_snoc [of srv up 0 "take k ls" stdio_init st l]
    by (simp add: running_after_def)
qed

definition ended_after ::
  "(nat \<Rightarrow> transport_server) \<Rightarrow> (wire \<Rightarrow> bool) \<Rightarrow> bytes list \<Rightarrow> nat \<Rightarrow> stdio \<Rightarrow> bool" where
  "ended_after srv up ls k st =
     (running_after srv up ls k st
      \<or> (\<exists>j st0. k = Suc j \<and> j < length ls \<and> running_after srv up ls j st0
           \<and> stdio_dispatch (srv j) up (ls ! j) st0 = Some (False, st)))"

definition stdio_loop_spec ::
  "(nat \<Rightarrow> transport_server) \<Rightarrow> (wire \<Rightarrow> bool) \<Rightarrow> bytes list \<Rightarrow> stdio_loop \<Rightarrow> bool" where
  "stdio_loop_spec srv up ls c =
     (sl_lines c = drop (sl_next c) ls
      \<and> (if sl_done c then ended_after srv up ls (sl_next c) (sl_state c)
         else running_after srv up ls (sl_next c) (sl_state c)))"

lemma stdio_step_spec:
  assumes "stdio_step srv up b c" "stdio_loop_spec srv up ls b"
  shows "stdio_loop_spec srv up ls c"
  using assms(1)
proof (cases rule: stdio_step.cases)
  case (line n l st ok st' rest)
  then have r: "running_after srv up ls n st" "drop n ls = l # rest"
    using assms(2) by (auto simp: stdio_loop_spec_def)
  note n = running_next [OF r]
  show ?thesis
  proof (cases ok)
    case True
    then show ?thesis using line n by (simp add: stdio_loop_spec_def)
  next
    case False
    then show ?thesis using line n r by (auto simp: stdio_loop_spec_def ended_after_def)
  qed
qed (use assms(2) in \<open>auto simp: stdio_loop_spec_def ended_after_def\<close>)

lemma stdio_reach_spec:
  assumes "stdio_reach srv up (stdio_start input) c"
  shows "stdio_loop_spec srv up (scan_lines max_line_bytes input) c"
  using assms
proof (induction "stdio_start input" c rule: stdio_reach.induct)
  case start
  then show ?case by (simp add: stdio_loop_spec_def stdio_start_def running_after_def)
next
  case (step b c)
  then show ?case using stdio_step_spec by blast
qed

lemma stdio_reach_line:
  assumes "stdio_reach srv up a \<lparr>sl_lines = drop k ls, sl_next = k, sl_state = st, sl_done = False\<rparr>"
    "k < length ls" "stdio_dispatch (srv k) up (ls ! k) st = Some (ok, st')"
  shows "stdio_reach srv up a \<lparr>sl_lines = drop (Suc k) ls, sl_next = Suc k, sl_state = st', sl_done = \<not> ok\<rparr>"
proof -
  have "stdio_step srv up \<lparr>sl_lines = ls ! k # drop (Suc k) ls, sl_next = k, sl_state = st, sl_done = False\<rparr>
      \<lparr>sl_lines = drop (Suc k) ls, sl_next = Suc k, sl_state = st', sl_done = \<not> ok\<rparr>"
    by (rule stdio_step.line [where srv = srv and n = k, OF assms(3)])
  then show ?thesis using stdio_reach.step [OF assms(1)] Cons_nth_drop_Suc [OF assms(2)] by simp
qed

lemma stdio_run_reach:
  assumes "running_after srv up (scan_lines max_line_bytes input) k st"
  shows "stdio_reach srv up (stdio_start input)
    \<lparr>sl_lines = drop k (scan_lines max_line_bytes input), sl_next = k, sl_state = st, sl_done = False\<rparr>"
  using assms
proof (induction k arbitrary: st)
  case 0
  then show ?case using stdio_reach.start [of srv up "stdio_start input"]
    by (simp add: running_after_def stdio_start_def)
next
  case (Suc k)
  let ?ls = "scan_lines max_line_bytes input"
  have k: "k < length ?ls" "take (Suc k) ?ls = take k ?ls @ [?ls ! k]"
    using Suc.prems by (simp_all add: running_after_def take_Suc_conv_app_nth)
  have run: "stdio_run srv up 0 (take k ?ls @ [?ls ! k]) stdio_init = Some (True, st)"
    using Suc.prems k(2) by (simp add: running_after_def)
  from stdio_run_init [OF run] obtain st0 where st0: "stdio_run srv up 0 (take k ?ls) stdio_init = Some (True, st0)"
    by blast
  then have d: "stdio_dispatch (srv k) up (?ls ! k) st0 = Some (True, st)"
    using stdio_run_snoc [OF st0, of "?ls ! k"] run k(1) by simp
  have "running_after srv up ?ls k st0" using st0 k(1) by (simp add: running_after_def)
  then show ?case using stdio_reach_line [OF Suc.IH k(1) d] by simp
qed



section \<open>The session of a connection\<close>

context mcp_server begin

lemma message_session:
  assumes "ts_handle ts = run" "handle_message ts emit raw s w = Some (res, w')" "hr_session res \<noteq> []"
  shows "opens_session raw \<and> stands_by (hr_session res)"
  using assms opened by (auto simp: handle_message_def split: if_splits)

lemma dispatch_session:
  assumes "ts_handle ts = run" "stdio_dispatch ts up l st = Some (ok, st')" "so_session st' \<noteq> so_session st"
  shows "opens_session l \<and> stands_by (so_session st')"
proof -
  have l: "l \<noteq> []" using assms(2,3) by (auto simp: stdio_dispatch_def)
  then obtain res w where m: "handle_message ts (Some (stdio_send up)) l (so_session st) (so_out st) = Some (res, w)"
    using assms(2) by (auto simp: stdio_dispatch_def split: option.splits)
  have "so_session st' = (if hr_session res \<noteq> [] then hr_session res else so_session st)"
    using assms(2) l m
    by (auto simp: stdio_dispatch_def Let_def split: option.splits prod.splits if_splits)
  with message_session [OF assms(1) m] assms(3) show ?thesis by (auto split: if_splits)
qed

end

lemma model_dispatch_session:
  "stdio_dispatch (model_server mac s gen) up l st = Some (ok, st') \<Longrightarrow> so_session st' \<noteq> so_session st \<Longrightarrow>
     opens_session l \<and> so_session st' = issue_session_id mac s gen"
  using ms.dispatch_session [OF refl, of mac s gen up l st ok st'] by (simp add: stands_by_def)

definition session_from ::
  "mac \<Rightarrow> server \<Rightarrow> (nat \<Rightarrow> bytes) \<Rightarrow> bytes list \<Rightarrow> nat \<Rightarrow> bytes \<Rightarrow> bool" where
  "session_from mac s gen ls k i =
     (i = [] \<or> (\<exists>n < k. n < length ls \<and> opens_session (ls ! n) \<and> i = issue_session_id mac s (gen n)))"

lemma session_from_mono: "session_from mac s gen ls k i \<Longrightarrow> k \<le> k' \<Longrightarrow> session_from mac s gen ls k' i"
  unfolding session_from_def using less_le_trans by blast

text \<open>
  C14. The session of a stdio connection: at every moment the messages of the connection are handled
  either under no session or under the one the server issued for an \<open>initialize\<close> among the lines
  handled so far; nothing else a client sends changes it.
\<close>

theorem stdio_session_issued:
  assumes "stdio_reach (\<lambda>n. model_server mac s (gen n)) up (stdio_start input) c"
  shows "session_from mac s gen (scan_lines max_line_bytes input) (sl_next c) (so_session (sl_state c))"
  using assms
proof (induction "stdio_start input" c rule: stdio_reach.induct)
  case start
  then show ?case by (simp add: session_from_def stdio_start_def stdio_init_def)
next
  case (step b c)
  let ?ls = "scan_lines max_line_bytes input"
  have spec: "stdio_loop_spec (\<lambda>n. model_server mac s (gen n)) up ?ls b"
    by (rule stdio_reach_spec [OF step.hyps(1)])
  from step.hyps(3) show ?case
  proof (cases rule: stdio_step.cases)
    case (line n l st ok st' rest)
    then have r: "running_after (\<lambda>n. model_server mac s (gen n)) up ?ls n st" "drop n ?ls = l # rest"
      using spec by (auto simp: stdio_loop_spec_def)
    have old: "session_from mac s gen ?ls n (so_session st)" using step.hyps(2) line by simp
    show ?thesis
    proof (cases "so_session st' = so_session st")
      case True
      then show ?thesis using session_from_mono [OF old, of "Suc n"] line by simp
    next
      case False
      with model_dispatch_session [OF line(3)] running_next(1,2) [OF r] line show ?thesis
        by (auto simp: session_from_def)
    qed
  qed (use step.hyps(2) in auto)
qed

section \<open>What a client reads\<close>



section \<open>A connection\<close>

lemma initialize_dispatched:
  "\<exists>st'. stdio_dispatch (model_server toy_mac demo_server ''g'') (\<lambda>_. True) initialize_message stdio_init
     = Some (True, st') \<and> so_session st' = issue_session_id toy_mac demo_server ''g''"
proof -
  obtain r where r: "parse_request initialize_message = Inr r" "rq_id r = Id ''1''"
    "rq_method r = ''initialize''" "is_legacy_meta (request_meta r)"
    using initialize_request by (auto split: sum.splits)
  obtain ho rsp where h: "handle toy_mac demo_server (Some (stdio_send (\<lambda>_. True))) ''g'' initialize_message [] [] = Some ho"
    "hr_session (hn_result ho) = issue_session_id toy_mac demo_server ''g''"
    by (rule initialize_opens [OF r(1,3) demo_server_initialize r(4)])
  have "issue_session_id toy_mac demo_server ''g'' \<noteq> []" by (rule issued_not_empty) simp
  moreover have "initialize_message \<noteq> []" by (simp add: initialize_message_def)
  ultimately show ?thesis
    using h by (simp add: stdio_dispatch_def handle_message_def model_server_def stdio_init_def Let_def
        stdio_send_def split: option.splits)
qed

lemma initialize_line: "scan_lines max_line_bytes initialize_message = [initialize_message]"
proof -
  have "index_of initialize_message [CHR 0x0A] = None" "drop_cr initialize_message = initialize_message"
    by code_simp+
  moreover have "length initialize_message < max_line_bytes" "initialize_message \<noteq> []"
    by (simp_all add: initialize_message_def max_line_bytes_def)
  ultimately show ?thesis by (simp add: scan_lines.simps)
qed

theorem stdio_session_issued_witness:
  "\<exists>c. stdio_reach (\<lambda>n. model_server toy_mac demo_server ''g'') (\<lambda>_. True) (stdio_start initialize_message) c
     \<and> so_session (sl_state c) \<noteq> []
     \<and> session_from toy_mac demo_server (\<lambda>n. ''g'') [initialize_message] (sl_next c) (so_session (sl_state c))"
proof -
  obtain st' where st': "stdio_dispatch (model_server toy_mac demo_server ''g'') (\<lambda>_. True) initialize_message stdio_init
     = Some (True, st')" "so_session st' = issue_session_id toy_mac demo_server ''g''"
    using initialize_dispatched by blast
  let ?c = "\<lparr>sl_lines = [], sl_next = 1, sl_state = st', sl_done = False\<rparr>"
  have "running_after (\<lambda>n. model_server toy_mac demo_server ''g'') (\<lambda>_. True) [initialize_message] 1 st'"
    using st'(1) by (simp add: running_after_def)
  then have "stdio_loop_spec (\<lambda>n. model_server toy_mac demo_server ''g'') (\<lambda>_. True) [initialize_message] ?c"
    by (simp add: stdio_loop_spec_def)
  then have r: "stdio_reach (\<lambda>n. model_server toy_mac demo_server ''g'') (\<lambda>_. True) (stdio_start initialize_message) ?c"
    using stdio_run_reach [of "\<lambda>n. model_server toy_mac demo_server ''g''" "\<lambda>_. True" initialize_message 1 st']
    by (simp add: initialize_line stdio_loop_spec_def)
  from stdio_session_issued [OF r] r st'(2) issued_not_empty [of "''g''"] show ?thesis
    by (intro exI [of _ ?c]) (simp add: initialize_line)
qed


section \<open>The in-memory transport (fake.go)\<close>

record fake =
  fk_sent :: wire
  fk_received :: "bytes list"
  fk_session :: bytes

definition new_fake :: fake where
  "new_fake = \<lparr>fk_sent = [], fk_received = [], fk_session = []\<rparr>"

definition fake_send :: "bytes \<Rightarrow> fake \<Rightarrow> fake" where
  "fake_send msg f = f\<lparr>fk_sent := fk_sent f @ [msg]\<rparr>"

definition fake_emit :: emitter where
  "fake_emit msg w = (True, w @ [msg])"

text \<open>\<open>Inject\<close>: the reply, if any; a reply that cannot be encoded is the error \<open>Inl\<close>.\<close>

definition fake_inject :: "transport_server option \<Rightarrow> bytes \<Rightarrow> fake \<Rightarrow> ((unit + bytes option) \<times> fake) option" where
  "fake_inject srv raw f0 =
     (let f = f0\<lparr>fk_received := fk_received f0 @ [raw]\<rparr>
      in case srv of
           None \<Rightarrow> Some (Inr None, f)
         | Some ts \<Rightarrow>
             (case handle_message ts (Some fake_emit) raw (fk_session f) (fk_sent f) of
                None \<Rightarrow> None
              | Some (res, w) \<Rightarrow>
                  (let f' = f\<lparr>fk_sent := w,
                        fk_session := (if hr_session res \<noteq> [] then hr_session res else fk_session f)\<rparr>
                   in if \<not> hr_has_response res then Some (Inr None, f')
                      else case hr_response res of
                        None \<Rightarrow> Some (Inr None, f')
                      | Some rsp \<Rightarrow>
                          (case encode_response rsp of
                             None \<Rightarrow> Some (Inl (), f')
                           | Some msg \<Rightarrow> Some (Inr (Some msg), fake_send msg f')))))"

definition fake_last_sent :: "fake \<Rightarrow> bytes option" where
  "fake_last_sent f = (if fk_sent f = [] then None else Some (last (fk_sent f)))"

definition fake_reset :: "fake \<Rightarrow> fake" where
  "fake_reset f = f\<lparr>fk_sent := [], fk_received := [], fk_session := []\<rparr>"

text \<open>
  The in-memory transport stands for the real one: injecting a message leaves the session and the
  frames that the stdio transport has after the same message as a line.
\<close>

theorem fake_stands_for_stdio:
  assumes "raw \<noteq> []" "fake_inject (Some ts) raw f = Some (reply, f')"
  shows "stdio_dispatch ts (\<lambda>_. True) raw \<lparr>so_session = fk_session f, so_out = fk_sent f\<rparr>
    = Some (True, \<lparr>so_session = fk_session f', so_out = fk_sent f'\<rparr>)"
proof -
  have e: "fake_emit = stdio_send (\<lambda>_. True)" by (simp add: fun_eq_iff fake_emit_def stdio_send_def)
  obtain res w where m: "handle_message ts (Some (stdio_send (\<lambda>_. True))) raw (fk_session f) (fk_sent f) = Some (res, w)"
    using assms(2) by (auto simp: fake_inject_def Let_def e split: option.splits)
  show ?thesis
    using assms m by (auto simp: fake_inject_def stdio_dispatch_def Let_def e fake_send_def stdio_send_def
        split: option.splits if_splits)
qed

end
