(* ===== verification/Subscription.thy ===== *)
theory Subscription
  imports Http_Transport
begin

text \<open>
  A subscription over HTTP (\<open>server/methods/listen.go\<close> under \<open>transport/http.go\<close>): the acknowledgement
  and the result reach the client as two frames of one event stream, in this order.
\<close>

section \<open>Ids are scalars\<close>

lemma scalar_token:
  assumes "token d r" "d \<le> max_nesting" "is_valid_request_id (Id r)"
  shows "token d' r"
proof -
  obtain v where v: "reads d r v" "wf_json d v" using assms(1) by (auto simp: token_def)
  have "request_id_value v" using valid_id_reads [OF v(1)] assms(3) by simp
  then consider b where "v = JStr b" | n where "v = JNum n" by (cases v) (auto simp: request_id_value_def)
  then show ?thesis
  proof cases
    case (1 b)
    then have "r = quoted b" "scan_str (b @ [quote_char]) = Some (b, [])"
      using reads_shape [OF v(1)] v(2) by (auto simp: str_body_def)
    then show ?thesis using reads_string [of b d'] v(2) 1 by (auto simp: token_def intro!: exI [of _ "JStr b"])
  next
    case (2 n)
    then have "scan_number n = Some (n, [])" "r = n" using reads_shape [OF v(1)] by auto
    then show ?thesis using reads_number [of n d'] v(2) 2 by (auto simp: token_def intro!: exI [of _ "JNum n"])
  qed
qed

lemma request_id_token:
  assumes "parse_request raw = Inr r"
  shows "token d (id_raw (rq_id r))" "is_valid_request_id (rq_id r)"
proof -
  obtain ms where ms: "unmarshal_map raw = Dec ms" "request_object ms r" using assms parse_request_iff by blast
  have su: "strict_unmarshal raw = Some ms" using ms(1) by (simp add: strict_unmarshal_def)
  have i: "map_of ms ''id'' = Some (id_raw (rq_id r))" using ms(2) by (simp add: request_object_def)
  obtain v where v: "reads (max_nesting - 1) (id_raw (rq_id r)) v" "token (max_nesting - 1) (id_raw (rq_id r))"
    "member_value ms ''id'' = Some v" using envelope_member [OF su i] by blast
  have "is_valid_request_id (Id (id_raw (rq_id r)))"
    using ms(2) v valid_id_reads [OF v(1)] by (auto simp: request_object_def)
  then show "token d (id_raw (rq_id r))" "is_valid_request_id (rq_id r)"
    by (auto intro: scalar_token [OF v(2)] simp: max_nesting_def)
qed


section \<open>The two frames\<close>

lemma subscription_meta_wf:
  assumes "parse_request raw = Inr r" "2 \<le> d"
  shows "wf_any d (subscription_meta r)"
proof -
  obtain e where d: "d = Suc (Suc e)" using assms(2) by (metis Suc_le_D add_2_eq_Suc le_Suc_ex)
  have "token (Suc e) (id_marshal (rq_id r))"
    using request_id_token(1) [OF assms(1)] id_marshal_token by metis
  then show ?thesis by (simp add: d subscription_meta_def)
qed

definition subscription_notice :: "rpc_request \<Rightarrow> any" where
  "subscription_notice r = AMap [(''_meta'', subscription_meta r), (''notifications'', AMap [])]"

lemma notice_encoded:
  assumes "parse_request raw = Inr r"
  shows "encode_notification subscription_acknowledged (subscription_notice r) \<noteq> None"
proof -
  have "wf_any max_nesting (subscription_notice r)"
    using subscription_meta_wf [OF assms, of "max_nesting - 1"]
    by (simp add: subscription_notice_def max_nesting_def)
  then obtain v where "tree_of (subscription_notice r) = Some v" using tree_of_wf(1) by blast
  moreover have "text_tree rpc_version \<noteq> None" "text_tree subscription_acknowledged \<noteq> None"
    by (simp_all add: text_tree_def)
  ultimately show ?thesis
    by (auto simp: encode_notification_def encode_message_def field_def omit_empty_def subscription_notice_def)
qed

lemma listen_result:
  assumes "parse_request raw = Inr r"
  obtains out where "marshal (AMap [(''_meta'', subscription_meta r)]) = Some out" "token max_nesting out"
proof -
  have "wf_any max_nesting (AMap [(''_meta'', subscription_meta r)])"
    using subscription_meta_wf [OF assms, of "max_nesting - 1"] by (simp add: max_nesting_def)
  then show thesis using that marshal_token by blast
qed

lemma listen_runs:
  assumes "parse_request raw = Inr r" "cx_emit c = Some sse_emit"
  obtains ack rsp where "encode_notification subscription_acknowledged (subscription_notice r) = Some ack"
    "listen c r (start_state []) = (Reply (Some rsp), \<lparr>st_wire = [ack], st_negotiated = []\<rparr>)"
    "rs_id rsp = rq_id r" "rs_error rsp = None" "token max_nesting (rs_result rsp)"
proof -
  obtain ack where ack: "encode_notification subscription_acknowledged (subscription_notice r) = Some ack"
    using notice_encoded [OF assms(1)] by blast
  obtain out where out: "marshal (AMap [(''_meta'', subscription_meta r)]) = Some out" "token max_nesting out"
    using listen_result [OF assms(1)] .
  have "listen c r (start_state []) = (Reply (Some \<lparr>rs_id = rq_id r, rs_result = out, rs_error = None\<rparr>),
      \<lparr>st_wire = [ack], st_negotiated = []\<rparr>)"
    using ack [unfolded subscription_notice_def] out(1) assms(2)
    by (simp add: listen_def context_notify_def context_emit_def sse_emit_def start_state_def
        result_outcome_def new_result_def marshal_result_def)
  with ack out(2) show thesis using that by simp
qed

text \<open>
  A subscription acknowledges before it answers: a \<open>subscriptions/listen\<close> that is served to a
  client accepting an event stream, in preference to JSON or beside it, is answered with status 200
  and an event stream of exactly two frames, the acknowledgement notification carrying the request's
  id as its subscription and then the result under that id.
\<close>

theorem subscription_acknowledged_first:
  assumes "parse_request raw = Inr r" "rq_method r = ''subscriptions/listen''"
    "validate_protocol_meta (sv_versions s) r = None"
    "map_of (sv_methods s) ''subscriptions/listen'' = Some listen"
    "accepts_event_stream h" "int (length raw) \<le> max_body"
  shows "\<exists>ack rsp msg. serve max_body (model_server mac s gen) h (Readable raw)
      = Some (Replied \<lparr>ho_status = 200, ho_session = [], ho_body = EventStream [ack, msg]\<rparr>)
    \<and> encode_notification subscription_acknowledged (subscription_notice r) = Some ack
    \<and> encode_response rsp = Some msg \<and> rs_id rsp = rq_id r \<and> rs_error rsp = None"
proof -
  let ?ts = "model_server mac s gen"
  define i where "i = inbound_session_id h ?ts raw"
  define c where "c = create_context s i (Some sse_emit)"
  obtain ms where "unmarshal_map raw = Dec ms" "request_object ms r" using assms(1) parse_request_iff by blast
  from inspect_envelope [OF this] have "wants_subscription_stream raw"
    using assms(2) by (simp add: wants_subscription_stream_def)
  then have stream: "streamable h raw" using assms(5) by (simp add: streamable_def)
  have "cx_emit c = Some sse_emit" by (simp add: c_def create_context_def)
  from listen_runs [OF assms(1) this] obtain ack rsp
    where ack: "encode_notification subscription_acknowledged (subscription_notice r) = Some ack"
      and run: "listen c r (start_state []) = (Reply (Some rsp), \<lparr>st_wire = [ack], st_negotiated = []\<rparr>)"
      and rsp: "rs_id rsp = rq_id r" "rs_error rsp = None" "token max_nesting (rs_result rsp)" .
  have "validate_arguments r = None"
    using assms(2) by (simp add: validate_arguments_def reads_argument_bag_def)
  then have "handle mac s (Some sse_emit) gen raw i []
      = Some \<lparr>hn_result = apply_result_envelope c r (reply_only (Some rsp)), hn_events = [], hn_wire = [ack]\<rparr>"
    using assms(2-4) run by (simp add: handle_request [OF assms(1)] route_def c_def [symmetric] with_error_def)
  moreover obtain rsp' where r': "hr_response (apply_result_envelope c r (reply_only (Some rsp))) = Some rsp'"
    "rs_id rsp' = rq_id r" "rs_error rsp' = None" "token max_nesting (rs_result rsp')"
    using envelope_token [of "reply_only (Some rsp)" rsp c r] rsp by auto
  moreover obtain msg where "encode_response rsp' = Some msg"
    using encode_success [of rsp'] request_id_token(1) [OF assms(1)] r' by auto
  ultimately have "serve max_body ?ts h (Readable raw)
      = Some (Replied \<lparr>ho_status = 200, ho_session = [], ho_body = EventStream [ack, msg]\<rparr>)"
    using assms(6) stream
    by (simp add: serve_def read_body_def serve_stream_def model_server_def i_def [unfolded model_server_def, symmetric]
        envelope_frame)
  then show ?thesis using ack r' \<open>encode_response rsp' = Some msg\<close> by blast
qed


definition listen_message :: bytes where
  "listen_message = ''{\"jsonrpc\":\"2.0\",\"id\":\"s\",\"method\":\"subscriptions/listen\",\"params\":{\"_meta\":{\"io.modelcontextprotocol/protocolVersion\":\"2026-07-28\",\"io.modelcontextprotocol/clientCapabilities\":{}}}}''"

definition listening_headers :: headers where
  "listening_headers name = (if name = ''Accept'' then [''application/json, text/event-stream''] else [])"

lemma listen_request:
  "case parse_request listen_message of Inl _ \<Rightarrow> False
   | Inr r \<Rightarrow> rq_id r = Id ''\"s\"'' \<and> rq_method r = ''subscriptions/listen''
       \<and> validate_protocol_meta server_supported_versions r = None"
  by code_simp

theorem subscription_acknowledged_first_witness:
  "\<exists>ack rsp msg. serve 1000 (model_server toy_mac demo_server ''g'') listening_headers (Readable listen_message)
      = Some (Replied \<lparr>ho_status = 200, ho_session = [], ho_body = EventStream [ack, msg]\<rparr>)
    \<and> encode_response rsp = Some msg \<and> rs_id rsp = Id ''\"s\"''"
proof -
  obtain r where r: "parse_request listen_message = Inr r" "rq_id r = Id ''\"s\"''"
    "rq_method r = ''subscriptions/listen''" "validate_protocol_meta server_supported_versions r = None"
    using listen_request by (auto split: sum.splits)
  have v: "sv_versions demo_server = server_supported_versions"
    by (simp add: demo_server_def new_server_def Let_def detect_ui_capability_def)
  have m: "map_of (sv_methods demo_server) ''subscriptions/listen'' = Some listen"
    by (simp add: demo_server_methods build_methods_def default_methods_def)
  have a: "accepts_event_stream listening_headers" by code_simp
  have l: "int (length listen_message) \<le> 1000" by (simp add: listen_message_def)
  from subscription_acknowledged_first [OF r(1,3) _ m a l] r(2,4) v show ?thesis by metis
qed

end
