(* ===== verification/Wire.thy ===== *)
theory Wire
  imports Any_Laws JsonRpc
begin

text \<open>
  The encoding of the client (\<open>marshalWire\<close> of \<open>client/protocol.go\<close>): \<open>encoding/json\<close> without the
  escaping of HTML characters, which would rewrite the raw members the client sends back exactly as
  they arrived. What it writes is read back (\<open>reads_wire\<close>), and a token without white space of its
  own leaves as it came (\<open>verbatim_wire\<close>).
\<close>

section \<open>Encoding\<close>

definition wire_ascii :: "char \<Rightarrow> bytes" where
  "wire_ascii c = (if html_char c then [c] else quote_ascii c)"

function wire_body :: "bytes \<Rightarrow> bytes" where
  "wire_body s =
     (case s of
        [] \<Rightarrow> []
      | c # r \<Rightarrow>
          if byte c < 128 then wire_ascii c @ wire_body r
          else (case decode_rune s of
                  None \<Rightarrow> u_escaped 0xFFFD @ wire_body r
                | Some (x, n) \<Rightarrow>
                    (if x = 0x2028 \<or> x = 0x2029 then u_escaped x else take n s)
                    @ wire_body (drop (max n 1) s)))"
  by pat_completeness auto
termination
  by (relation "measure length") auto

declare wire_body.simps [simp del]

fun wire_json :: "json \<Rightarrow> bytes"
and wire_elems :: "(bytes \<times> json) list \<Rightarrow> bytes"
and wire_members :: "(bytes \<times> bytes \<times> json) list \<Rightarrow> bytes" where
  "wire_json JNull = ''null''"
| "wire_json (JBool b) = (if b then ''true'' else ''false'')"
| "wire_json (JNum n) = n"
| "wire_json (JStr b) = quoted b"
| "wire_json (JArr vs) = CHR ''['' # wire_elems vs @ '']''"
| "wire_json (JObj ms) = CHR ''{'' # wire_members ms @ ''}''"
| "wire_elems [] = []"
| "wire_elems ((r, v) # vs) =
     wire_json v @ (if vs = [] then [] else CHR '','' # wire_elems vs)"
| "wire_members [] = []"
| "wire_members ((k, r, v) # ms) =
     quoted k @ CHR '':'' # wire_json v
     @ (if ms = [] then [] else CHR '','' # wire_members ms)"

fun wire_tree :: "any \<Rightarrow> json option"
and wire_tree_elems :: "any list \<Rightarrow> (bytes \<times> json) list option"
and wire_tree_members :: "(bytes \<times> any) list \<Rightarrow> (bytes \<times> bytes \<times> json) list option" where
  "wire_tree ANil = Some JNull"
| "wire_tree (ABool b) = Some (JBool b)"
| "wire_tree (ANum n) = Some (JNum n)"
| "wire_tree (AInt i) = Some (JNum (int_to_dec i))"
| "wire_tree (AStr s) = Some (JStr (wire_body s))"
| "wire_tree (AList vs) = map_option JArr (wire_tree_elems vs)"
| "wire_tree (AMap ms) =
     map_option (\<lambda>l. JObj (map (\<lambda>(k, r, v). (wire_body k, r, v)) (sort_key fst l)))
       (wire_tree_members ms)"
| "wire_tree (ARaw r) = (if r = [] then Some JNull else json_parse r)"
| "wire_tree_elems [] = Some []"
| "wire_tree_elems (a # vs) =
     (case wire_tree a of None \<Rightarrow> None | Some v \<Rightarrow> map_option (\<lambda>l. ([], v) # l) (wire_tree_elems vs))"
| "wire_tree_members [] = Some []"
| "wire_tree_members ((k, a) # ms) =
     (case wire_tree a of None \<Rightarrow> None | Some v \<Rightarrow> map_option (\<lambda>l. (k, [], v) # l) (wire_tree_members ms))"

definition marshal_wire :: "any \<Rightarrow> bytes option" where
  "marshal_wire a = map_option wire_json (wire_tree a)"

definition marshal_wire_map :: "(bytes \<times> bytes) list \<Rightarrow> bytes option" where
  "marshal_wire_map ms = marshal_wire (AMap (map (\<lambda>(k, r). (k, ARaw r)) ms))"

text \<open>\<open>marshalWire\<close> of a request, of a response and of the notification of \<open>notify\<close>.\<close>

definition wire_request :: "rpc_request \<Rightarrow> bytes option" where
  "wire_request r = map_option wire_json (struct_tree
     [field ''jsonrpc'' (wire_tree (AStr rpc_version)), field ''id'' (wire_tree (ARaw (id_marshal (rq_id r)))),
      field ''method'' (wire_tree (AStr (rq_method r))),
      omit_empty (rq_params r = []) (field ''params'' (wire_tree (ARaw (rq_params r))))])"

definition wire_error_tree :: "rpc_error \<Rightarrow> json option" where
  "wire_error_tree e = struct_tree
     [field ''code'' (wire_tree (AInt (err_code e))), field ''message'' (wire_tree (AStr (err_message e))),
      omit_empty (err_data e = ANil) (field ''data'' (wire_tree (err_data e)))]"

definition wire_response :: "rpc_response \<Rightarrow> bytes option" where
  "wire_response r = map_option wire_json (struct_tree
     [field ''jsonrpc'' (wire_tree (AStr rpc_version)), field ''id'' (wire_tree (ARaw (id_marshal (rs_id r)))),
      omit_empty (rs_result r = []) (field ''result'' (wire_tree (ARaw (rs_result r)))),
      (case rs_error r of None \<Rightarrow> Some [] | Some e \<Rightarrow> field ''error'' (wire_error_tree e))])"

definition wire_notification :: "bytes \<Rightarrow> bytes \<Rightarrow> bytes option" where
  "wire_notification m params = map_option wire_json (struct_tree
     [field ''jsonrpc'' (wire_tree (AStr rpc_version)), field ''method'' (wire_tree (AStr m)),
      omit_empty (params = []) (field ''params'' (wire_tree (ARaw params)))])"

section \<open>Quoting\<close>

lemma wire_body_Nil [simp]: "wire_body [] = []"
  by (subst wire_body.simps) simp

lemma wire_body_ascii [simp]: "byte c < 128 \<Longrightarrow> wire_body (c # s) = wire_ascii c @ wire_body s"
  by (subst wire_body.simps) simp

lemma wire_body_high:
  "\<not> byte c < 128 \<Longrightarrow>
     wire_body (c # s) =
       (case decode_rune (c # s) of
          None \<Rightarrow> u_escaped 0xFFFD @ wire_body s
        | Some (x, n) \<Rightarrow> (if x = 0x2028 \<or> x = 0x2029 then u_escaped x else take n (c # s))
                         @ wire_body (drop (max n 1) (c # s)))"
  by (subst wire_body.simps) simp

lemma html_char_plain: "html_char c \<Longrightarrow> c \<noteq> backslash \<and> c \<noteq> quote_char \<and> \<not> byte c < 32 \<and> byte c < 128"
  by (auto simp: html_char_def)

lemma unquote_wire_ascii: "byte c < 128 \<Longrightarrow> unquote (wire_ascii c @ s) = c # unquote s"
  using html_char_plain [of c] by (simp add: wire_ascii_def unquote_quote_ascii)

lemma str_body_wire_ascii [simp]: "byte c < 128 \<Longrightarrow> str_body (wire_ascii c @ s) = str_body s"
  using html_char_plain [of c] by (simp add: wire_ascii_def)

theorem unquote_wire_body:
  assumes "utf8 s"
  shows "unquote (wire_body s) = s"
  using assms
proof (induction s rule: utf8_induct)
  case (Rune c s x n)
  note w = decode_rune_width [OF Rune.hyps(2)]
  note e = encode_decode_rune [OF Rune.hyps(2)]
  have q: "wire_body (c # s) = (if x = 0x2028 \<or> x = 0x2029 then u_escaped x else c # take n s)
      @ wire_body (drop n s)"
    using Rune.hyps by (simp add: wire_body_high)
  show ?case
  proof (cases "x = 0x2028 \<or> x = 0x2029")
    case True
    then have "unquote (wire_body (c # s)) = encode_rune x @ drop n s"
      using q Rune.IH unquote_u_escaped [of x "wire_body (drop n s)"] by auto
    also have "\<dots> = c # s" using e by (metis append_take_drop_id drop_Suc_Cons)
    finally show ?thesis .
  next
    case False
    have d: "decode_rune ((c # take n s) @ wire_body (drop n s)) = Some (x, Suc n)"
      using decode_rune_encode_rune [of x "wire_body (drop n s)"] e w
      by (simp add: min_def flip: e [THEN conjunct1])
    then show ?thesis using False q Rune w by (simp add: unquote_high min_def)
  qed
qed (auto simp: unquote_wire_ascii)


lemma str_body_wired: "str_body (wire_body s)"
proof (induction s rule: wire_body.induct)
  case (1 s)
  show ?case
  proof (cases s)
    case (Cons c r)
    show ?thesis
    proof (cases "byte c < 128")
      case True
      with 1 Cons show ?thesis by simp
    next
      case False
      show ?thesis
      proof (cases "decode_rune s")
        case None
        with 1 Cons False show ?thesis by (simp add: wire_body_high)
      next
        case (Some xn)
        then obtain x n where x: "decode_rune s = Some (x, n)" by (cases xn) auto
        have ih: "str_body (wire_body (drop (max n 1) s))" using 1(3) Cons False x by blast
        have "\<forall>c \<in> set (take n s). 128 \<le> byte c"
          using decode_rune_width [of s x n] x Cons False
          by (auto simp: take_Cons' cont_byte_def split: if_splits)
        with ih Cons False x show ?thesis
          by (subst wire_body.simps) (auto simp: str_body_high)
      qed
    qed
  qed simp
qed

section \<open>Reading back\<close>

fun wired :: "json \<Rightarrow> json"
and wired_elems :: "(bytes \<times> json) list \<Rightarrow> (bytes \<times> json) list"
and wired_members :: "(bytes \<times> bytes \<times> json) list \<Rightarrow> (bytes \<times> bytes \<times> json) list" where
  "wired JNull = JNull"
| "wired (JBool b) = JBool b"
| "wired (JNum n) = JNum n"
| "wired (JStr b) = JStr b"
| "wired (JArr vs) = JArr (wired_elems vs)"
| "wired (JObj ms) = JObj (wired_members ms)"
| "wired_elems [] = []"
| "wired_elems ((r, v) # vs) = (wire_json v, wired v) # wired_elems vs"
| "wired_members [] = []"
| "wired_members ((k, r, v) # ms) = (k, wire_json v, wired v) # wired_members ms"

lemma wired_members_map: "wired_members ms = map (\<lambda>(k, r, v). (k, wire_json v, wired v)) ms"
  by (induction ms) auto

lemma wired_elems_empty [simp]: "wired_elems vs = [] \<longleftrightarrow> vs = []"
  by (cases vs) auto

lemma wired_members_empty [simp]: "wired_members ms = [] \<longleftrightarrow> ms = []"
  by (cases ms) auto

lemma wire_hd:
  assumes "wf_json d v"
  shows "wire_json v \<noteq> []" "hd (wire_json v) \<noteq> CHR '']''" "\<not> ws_char (hd (wire_json v))"
proof -
  have "wire_json v \<noteq> [] \<and> hd (wire_json v) \<noteq> CHR '']'' \<and> \<not> ws_char (hd (wire_json v))"
  proof (cases v)
    case (JNum n)
    then have "n \<noteq> []" "hd n = CHR ''-'' \<or> is_digit (hd n)"
      using assms by (auto dest: scan_number_local(2,3))
    with JNum show ?thesis by (auto simp: is_digit_def ws_char_def)
  qed (auto simp: quoted_def)
  then show "wire_json v \<noteq> []" "hd (wire_json v) \<noteq> CHR '']''" "\<not> ws_char (hd (wire_json v))"
    by auto
qed

lemma reads_wire:
  "wf_json d v \<Longrightarrow> reads d (wire_json v) (wired v)"
  "wf_elems d vs \<Longrightarrow> vs \<noteq> [] \<Longrightarrow> reads_elems d (wire_elems vs @ '']'') (wired_elems vs)"
  "wf_members d ms \<Longrightarrow> ms \<noteq> [] \<Longrightarrow> reads_members d (wire_members ms @ ''}'') (wired_members ms)"
proof (induction d v and d vs and d ms rule: wf_json_wf_elems_wf_members.induct)
  case (4 d b)
  then show ?case using reads_string [of b d] by (simp add: str_body_def)
next
  case (5 d vs)
  then obtain d' where d: "d = Suc d'" by (cases d) auto
  show ?case
  proof (cases vs)
    case Nil
    then show ?thesis using reads_empty(2) [of "[]" d'] d by simp
  next
    case (Cons e es)
    obtain r w where e: "e = (r, w)" by (cases e)
    note h = wire_hd [of d' w]
    have w: "wf_json d' w" using 5 d Cons e by simp
    have "hd (wire_elems vs @ '']'') = hd (wire_json w)" using Cons e h [OF w] by simp
    then show ?thesis
      using reads_array [of "[]" d' "wire_elems vs @ '']''" "wired_elems vs"] 5 d Cons h [OF w]
      by simp
  qed
next
  case (6 d ms)
  then obtain d' where d: "d = Suc d'" by (cases d) auto
  show ?case
  proof (cases ms)
    case Nil
    then show ?thesis using reads_empty(1) [of "[]" d'] d by simp
  next
    case (Cons e es)
    obtain k r w where e: "e = (k, r, w)" by (cases e)
    have "hd (wire_members ms @ ''}'') = quote_char" using Cons e by (simp add: quoted_def)
    then show ?thesis
      using reads_object [of "[]" d' "wire_members ms @ ''}''" "wired_members ms"] 6 d Cons
      by simp
  qed
next
  case (8 d r v vs)
  show ?case
  proof (cases vs)
    case Nil
    then show ?thesis using reads_elems_last [of d "wire_json v" "wired v" "[]"] 8 by simp
  next
    case (Cons e es)
    obtain r' w where e: "e = (r', w)" by (cases e)
    have w: "wf_json d w" using 8 Cons e by simp
    have "hd (wire_elems vs @ '']'') = hd (wire_json w)" using Cons e wire_hd [OF w] by simp
    then show ?thesis
      using reads_elems_more [of d "wire_json v" "wired v" "[]" "[]" "wire_elems vs @ '']''"
          "wired_elems vs"] 8 Cons wire_hd [OF w] by simp
  qed
next
  case (10 d k r v ms)
  have k: "scan_str (k @ [quote_char]) = Some (k, [])" using 10 by (simp add: str_body_def)
  show ?case
  proof (cases ms)
    case Nil
    then show ?thesis
      using reads_members_last [OF k, of "[]" "[]" d "wire_json v" "wired v" "[]"] 10 by simp
  next
    case (Cons e es)
    have "hd (wire_members ms @ ''}'') = quote_char"
      using Cons by (cases e) (simp add: quoted_def)
    then show ?thesis
      using reads_members_more [OF k, of "[]" "[]" d "wire_json v" "wired v" "[]" "[]"
          "wire_members ms @ ''}''" "wired_members ms"] 10 Cons by simp
  qed
qed (auto simp: reads_const reads_number)

lemma json_parse_wire: "wf_json max_nesting v \<Longrightarrow> json_parse (wire_json v) = Some (wired v)"
  by (blast intro: reads_parse reads_wire(1))

lemma token_wire: "wf_json d v \<Longrightarrow> token d (wire_json v)"
proof -
  assume wf: "wf_json d v"
  then have r: "reads d (wire_json v) (wired v)" using reads_wire(1) by simp
  have "pv (length (wire_json v)) d (wire_json v @ []) = Some (wired v, [])"
    by (rule readsD [OF r]) auto
  with r show ?thesis by (auto simp: token_def dest: pv_wf(1))
qed

lemma wire_tree_wf:
  "wf_any d a \<Longrightarrow> d \<le> max_nesting \<Longrightarrow> \<exists>v. wire_tree a = Some v \<and> wf_json d v"
  "wf_any_list d vs \<Longrightarrow> d \<le> max_nesting \<Longrightarrow> \<exists>l. wire_tree_elems vs = Some l \<and> wf_elems d l"
  "wf_any_members d ms \<Longrightarrow> d \<le> max_nesting \<Longrightarrow>
     \<exists>l. wire_tree_members ms = Some l \<and> (\<forall>(k, r, v) \<in> set l. wf_json d v)"
proof (induction a and vs and ms arbitrary: d and d and d rule: wire_tree_wire_tree_elems_wire_tree_members.induct)
  case (4 i)
  then show ?case by (simp add: scan_number_int)
next
  case (5 s)
  then show ?case by (simp add: str_body_wired)
next
  case (6 vs)
  then show ?case by fastforce
next
  case (7 ms)
  then have "0 < d" "wf_any_members (d - 1) ms" "d - 1 \<le> max_nesting" by auto
  with 7(1) obtain l where "wire_tree_members ms = Some l" "\<forall>(k, r, v) \<in> set l. wf_json (d - 1) v"
    by blast
  with \<open>0 < d\<close> show ?case by (auto simp: wf_members_all str_body_wired)
next
  case (8 r)
  show ?case
  proof (cases "r = []")
    case False
    with 8 have "token d r" by simp
    from token_parse [OF this 8(2)] show ?thesis using False by (metis wire_tree.simps(8))
  qed simp
next
  case (10 a vs)
  then show ?case by fastforce
next
  case (12 k a ms)
  then show ?case by fastforce
qed auto

text \<open>A token as the client sends it, and the tokens that leave as they are.\<close>

definition compact_wire :: "bytes \<Rightarrow> bytes" where
  "compact_wire r = (case json_parse r of None \<Rightarrow> [] | Some v \<Rightarrow> wire_json v)"

lemma wire_canon:
  "wf_json d v \<Longrightarrow> wire_json (canon v) = print_json v"
  "wf_elems d vs \<Longrightarrow> wire_elems (canon_elems vs) = print_elems vs"
  "wf_members d ms \<Longrightarrow> wire_members (canon_members ms) = print_members ms"
  by (induction d v and d vs and d ms rule: wf_json_wf_elems_wf_members.induct) auto

lemma wire_wired:
  "wire_json (wired v) = wire_json v"
  "wire_elems (wired_elems vs) = wire_elems vs"
  "wire_members (wired_members ms) = wire_members ms"
  by (induction v and vs and ms rule: wire_json_wire_elems_wire_members.induct) auto

text \<open>What \<open>json.Marshal\<close> or the client itself wrote, the client sends back byte for byte.\<close>

lemma verbatim_wire:
  assumes "json_valid r"
  shows "compact_wire (compact r) = compact r" "compact_wire (compact_wire r) = compact_wire r"
proof -
  obtain v where v: "json_parse r = Some v" "wf_json max_nesting v"
    using assms json_parse_wf by (auto simp: json_valid_def)
  show "compact_wire (compact r) = compact r"
    using v compact_parse [OF v(1)] wire_canon(1) [OF v(2)] by (simp add: compact_wire_def compact_def)
  show "compact_wire (compact_wire r) = compact_wire r"
    using v json_parse_wire [OF v(2)] by (simp add: compact_wire_def wire_wired)
qed

lemma wire_tree_token:
  assumes "token d r" "d \<le> max_nesting"
  obtains v where "wire_tree (ARaw r) = Some v" "json_parse r = Some v" "wf_json d v" "wire_json v = compact_wire r"
  using token_parse [OF assms] token_nonempty [OF assms(1)]
  by (metis compact_wire_def option.case(2) wire_tree.simps(8))

text \<open>The members a decoder finds in an encoded struct.\<close>

lemma unmarshal_wire_struct:
  assumes wf: "wf_members (max_nesting - 1) ms" and d: "distinct (map fst ms)"
    and k: "\<forall>k \<in> set (map fst ms). plain_name k"
  obtains env where "unmarshal_map (wire_json (JObj ms)) = Dec env"
    "map_of env = (\<lambda>k. map_option (\<lambda>(r, v). wire_json v) (map_of ms k))"
    "member_value env = (\<lambda>k. map_option (\<lambda>(r, v). wired v) (map_of ms k))"
proof -
  define env where "env = raw_members (wired_members ms)"
  have "wf_json max_nesting (JObj ms)" using wf by (simp add: max_nesting_def)
  then have dec: "unmarshal_map (wire_json (JObj ms)) = Dec env"
    using json_parse_wire [of "JObj ms"] by (simp add: unmarshal_map_def env_def)
  have "map (\<lambda>(k, r, v). (unquote k, r)) (wired_members ms) = map (\<lambda>(k, r, v). (k, wire_json v)) ms"
    using k unfolding wired_members_map by (auto simp: comp_def plain_name)
  then have "map_of env = map_of (rev (map (\<lambda>(k, r, v). (k, wire_json v)) ms))"
    by (simp add: env_def raw_members_def map_of_dedup)
  also have "\<dots> = map_of (map (\<lambda>(k, r, v). (k, wire_json v)) ms)"
    by (rule map_of_rev_distinct) (use d in \<open>simp add: comp_def case_prod_unfold\<close>)
  finally have env: "map_of env = (\<lambda>k. map_option (\<lambda>(r, v). wire_json v) (map_of ms k))"
    by (simp add: map_of_map_triple)
  have "member_value env k = map_option (\<lambda>(r, v). wired v) (map_of ms k)" for k
  proof (cases "map_of ms k")
    case (Some rv)
    obtain r v where rv: "rv = (r, v)" by (cases rv)
    with Some have "(k, r, v) \<in> set ms" by (simp add: map_of_SomeD)
    with wf have "reads (max_nesting - 1) (wire_json v) (wired v)"
      by (auto simp: wf_members_all intro: reads_wire(1))
    then have "json_parse (wire_json v) = Some (wired v)" by (rule reads_parse) simp
    with Some rv env show ?thesis by (simp add: member_value_def)
  qed (simp add: env member_value_def)
  with that dec env show ?thesis by blast
qed


section \<open>Encoded maps\<close>

lemma wire_tree_members_eq:
  assumes "wf_any_members d ms" "d \<le> max_nesting"
  shows "wire_tree_members ms = Some (map (\<lambda>(k, a). (k, [], the (wire_tree a))) ms)"
  using assms
proof (induction ms)
  case (Cons m ms)
  obtain k a where m: "m = (k, a)" by (cases m)
  with Cons.prems wire_tree_wf(1) [of d a] obtain v where "wire_tree a = Some v" by auto
  with m Cons show ?case by simp
qed simp

theorem unmarshal_wire_members:
  assumes "distinct (map fst ms)" "\<forall>(k, a) \<in> set ms. utf8 k" "wf_any_members d ms" "d < max_nesting"
  obtains out ms' where "marshal_wire (AMap ms) = Some out" "token (Suc d) out" "unmarshal_map out = Dec ms'"
    "\<And>k. map_of ms' k = Option.bind (map_of ms k) marshal_wire" "raw_map d ms'" "compact_wire out = out"
proof -
  define tr where "tr = (\<lambda>a. the (wire_tree a))"
  define ls :: "(bytes \<times> bytes \<times> json) list"
    where "ls = map (\<lambda>(k, a). (wire_body k, [], tr a)) (sort_key fst ms)"
  have wfm: "wf_any d a" if "(k, a) \<in> set ms" for k a
    using assms(3) that by (auto simp: wf_any_members_all)
  have tr: "wire_tree a = Some (tr a)" "wf_json d (tr a)" if "(k, a) \<in> set ms" for k a
    using wire_tree_wf(1) [OF wfm [OF that]] assms(4) by (auto simp: tr_def)
  have tree: "wire_tree (AMap ms) = Some (JObj ls)"
  proof -
    have "sort_key fst (map (\<lambda>(k, a). (k, [] :: bytes, the (wire_tree a))) ms)
        = map (\<lambda>(k, a). (k, [], the (wire_tree a))) (sort_key fst ms)"
      by (rule sort_key_map [where f = "\<lambda>a. ([], the (wire_tree a))"])
    moreover have "wire_tree_members ms = Some (map (\<lambda>(k, a). (k, [], the (wire_tree a))) ms)"
      using wire_tree_members_eq [OF assms(3)] assms(4) by simp
    ultimately show ?thesis by (simp only: wire_tree.simps option.map) (simp add: ls_def tr_def split_beta)
  qed
  have wf: "wf_json (Suc d) (JObj ls)"
    using tr(2) by (auto simp: wf_members_all ls_def str_body_wired)
  have p: "json_parse (wire_json (JObj ls)) = Some (JObj (wired_members ls))"
    using reads_parse [OF reads_wire(1) [OF wf]] assms(4) by simp
  define out where "out = wire_json (JObj ls)"
  have dec: "unmarshal_map out = Dec (raw_members (wired_members ls))"
    using p by (simp add: unmarshal_map_def out_def)
  have "raw_members (wired_members ls) = dedup (map (\<lambda>(k, a). (k, wire_json (tr a))) (sort_key fst ms))"
  proof -
    have "map (\<lambda>(k, r, v). (unquote k, r)) (wired_members ls)
        = map (\<lambda>(k, a). (k, wire_json (tr a))) (sort_key fst ms)"
      unfolding wired_members_map ls_def
      using assms(2) by (auto simp: comp_def split_beta unquote_wire_body)
    then show ?thesis by (simp add: raw_members_def)
  qed
  moreover have "map_of (dedup (map (\<lambda>(k, a). (k, wire_json (tr a))) (sort_key fst ms)))
      = map_of (map (\<lambda>(k, a). (k, wire_json (tr a))) ms)"
  proof -
    have d: "distinct (map fst (map (\<lambda>(k, a). (k, wire_json (tr a))) (sort_key fst ms)))"
      using distinct_sort_key [OF assms(1)] by (simp add: comp_def split_beta)
    have "map_of (map (\<lambda>(k, a). (k, wire_json (tr a))) (sort_key fst ms))
        = map_of (map (\<lambda>(k, a). (k, wire_json (tr a))) ms)"
      by (simp add: fun_eq_iff map_of_map_snd map_of_sort_key [OF assms(1)])
    then show ?thesis unfolding map_of_dedup map_of_rev_distinct [OF d] .
  qed
  ultimately have m: "map_of (raw_members (wired_members ls)) k
      = map_option (\<lambda>a. wire_json (tr a)) (map_of ms k)" for k
    by (simp add: map_of_map_snd)
  have "map_of (raw_members (wired_members ls)) k = Option.bind (map_of ms k) marshal_wire" for k
    using tr(1) [OF map_of_SomeD] by (cases "map_of ms k") (simp_all add: m marshal_wire_def)
  moreover have "marshal_wire (AMap ms) = Some out"
    unfolding marshal_wire_def tree out_def by (simp only: option.map)
  moreover have t: "token (Suc d) out" using token_wire [OF wf] by (simp add: out_def)
  moreover have "raw_map d (raw_members (wired_members ls))"
    by (rule token_members [OF t _ dec]) (use assms(4) in simp)
  moreover have "compact_wire out = out"
    using p wire_wired(1) [of "JObj ls"] by (simp add: compact_wire_def out_def)
  ultimately show ?thesis using that dec by blast
qed

lemma marshal_wire_token:
  assumes "wf_any d a" "d \<le> max_nesting"
  obtains out where "marshal_wire a = Some out" "token d out"
  using wire_tree_wf(1) [OF assms] token_wire by (auto simp: marshal_wire_def)

lemma marshal_wire_raw:
  "token d r \<Longrightarrow> d \<le> max_nesting \<Longrightarrow> marshal_wire (ARaw r) = Some (compact_wire r)"
  by (auto simp: marshal_wire_def elim: wire_tree_token)

text \<open>A string token has no white space of its own.\<close>

lemma compact_wire_string:
  assumes "json_parse r = Some (JStr b)" "token d r" "d \<le> max_nesting"
  shows "compact_wire r = r"
proof -
  have "reads d r (JStr b)" using token_parse [OF assms(2,3)] assms(1) by auto
  then show ?thesis using reads_shape [of d r "JStr b"] assms(1) by (auto simp: compact_wire_def)
qed


section \<open>Requests on the wire\<close>

definition wire_compact_request :: "rpc_request \<Rightarrow> rpc_request" where
  "wire_compact_request r =
     \<lparr>rq_id = Id (compact_wire (id_raw (rq_id r))), rq_method = rq_method r,
      rq_params = (if rq_params r = [] then [] else compact_wire (rq_params r))\<rparr>"

lemma wired_values [simp]:
  "request_id_value (wired v) = request_id_value v" "params_value (wired v) = params_value v"
  by (cases v; simp add: request_id_value_def params_value_def)+

lemma wire_request_eq:
  assumes "sendable_request r"
  obtains ms vi where "wire_request r = Some (wire_json (JObj ms))" "wf_members (max_nesting - 1) ms"
    "distinct (map fst ms)" "\<forall>k \<in> set (map fst ms). plain_name k"
    "map_of ms ''jsonrpc'' = Some ([], JStr (wire_body rpc_version))"
    "map_of ms ''method'' = Some ([], JStr (wire_body (rq_method r)))"
    "map_of ms ''id'' = Some ([], vi)" "wire_json vi = compact_wire (id_raw (rq_id r))" "request_id_value vi"
    "rq_params r = [] \<Longrightarrow> map_of ms ''params'' = None"
    "rq_params r \<noteq> [] \<Longrightarrow> \<exists>v. map_of ms ''params'' = Some ([], v) \<and> params_value v
       \<and> wire_json v = compact_wire (rq_params r)"
proof -
  have s: "token (max_nesting - 1) (id_raw (rq_id r))" "is_valid_request_id (rq_id r)" "utf8 (rq_method r)"
    "rq_params r = [] \<or> token (max_nesting - 1) (rq_params r) \<and> is_params_object (rq_params r)"
    using assms by (auto simp: sendable_request_def)
  obtain vi where vi: "wire_tree (ARaw (id_raw (rq_id r))) = Some vi" "wf_json (max_nesting - 1) vi"
    "wire_json vi = compact_wire (id_raw (rq_id r))" "json_parse (id_raw (rq_id r)) = Some vi"
    using s(1) by (rule wire_tree_token) auto
  have rid: "reads (max_nesting - 1) (id_raw (rq_id r)) vi"
    using token_parse [OF s(1)] vi(4) by auto
  have rv: "request_id_value vi" using valid_id_reads [OF rid] s(2) by (cases "rq_id r") auto
  have b: "str_body (wire_body x)" for x by (rule str_body_wired)
  let ?base = "[(''jsonrpc'', [], JStr (wire_body rpc_version)), (''id'', [], vi),
      (''method'', [], JStr (wire_body (rq_method r)))]"
  note [simp] = plain_name(1)
  show ?thesis
  proof (cases "rq_params r = []")
    case True
    then have "wire_request r = Some (wire_json (JObj ?base))"
      using id_marshal_token [OF s(1)] vi(1)
      by (simp add: wire_request_def field_def omit_empty_def del: wire_tree.simps(8))
    then show ?thesis by (rule that [of ?base vi]) (use True vi rv b in simp_all)
  next
    case False
    with s(4) obtain vp where vp: "wire_tree (ARaw (rq_params r)) = Some vp" "wf_json (max_nesting - 1) vp"
      "wire_json vp = compact_wire (rq_params r)" "json_parse (rq_params r) = Some vp"
      by (auto elim: wire_tree_token)
    have "reads (max_nesting - 1) (rq_params r) vp"
      using token_parse [of "max_nesting - 1" "rq_params r"] vp(4) s(4) False by auto
    then have pv: "params_value vp" using params_object_reads s(4) False by auto
    have "wire_request r = Some (wire_json (JObj (?base @ [(''params'', [], vp)])))"
      using id_marshal_token [OF s(1)] vi(1) vp(1) False
      by (simp add: wire_request_def field_def omit_empty_def del: wire_tree.simps(8))
    then show ?thesis
      by (rule that [of "?base @ [(''params'', [], vp)]" vi]) (use False vi(2,3) rv b vp(2,3) pv in simp_all)
  qed
qed

lemma wire_request_read:
  assumes s: "sendable_request r"
  shows "\<exists>data. wire_request r = Some data \<and> parse_request data = Inr (wire_compact_request r)"
proof -
  from wire_request_eq [OF s] obtain ms vi where ms: "wire_request r = Some (wire_json (JObj ms))"
    "wf_members (max_nesting - 1) ms"
    "distinct (map fst ms)" "\<forall>k \<in> set (map fst ms). plain_name k"
    "map_of ms ''jsonrpc'' = Some ([], JStr (wire_body rpc_version))"
    "map_of ms ''method'' = Some ([], JStr (wire_body (rq_method r)))"
    "map_of ms ''id'' = Some ([], vi)" "wire_json vi = compact_wire (id_raw (rq_id r))" "request_id_value vi"
    "rq_params r = [] \<Longrightarrow> map_of ms ''params'' = None"
    "rq_params r \<noteq> [] \<Longrightarrow> \<exists>v. map_of ms ''params'' = Some ([], v) \<and> params_value v
       \<and> wire_json v = compact_wire (rq_params r)"
    by metis
  obtain env where env: "unmarshal_map (wire_json (JObj ms)) = Dec env"
    "map_of env = (\<lambda>k. map_option (\<lambda>(r, v). wire_json v) (map_of ms k))"
    "member_value env = (\<lambda>k. map_option (\<lambda>(r, v). wired v) (map_of ms k))"
    using unmarshal_wire_struct [OF ms(2-4)] .
  have "request_object env (wire_compact_request r)"
    using ms(5-11) unquote_wire_body [OF utf8_version] unquote_wire_body [of "rq_method r"] s
    unfolding request_object_def env(2,3) wire_compact_request_def sendable_request_def
    by (cases "rq_params r = []") auto
  with ms(1) env(1) show ?thesis using parse_request_iff by blast
qed

end
