(* ===== verification/Integral_Number.thy ===== *)
theory Integral_Number
  imports Go_Float
begin

text \<open>
  Whole numbers read from JSON number literals (\<open>integralNumber\<close> and \<open>mirroredInteger\<close> of
  \<open>client/mirrored.go\<close>, \<open>lifetimeOf\<close> of \<open>client/caching.go\<close>). The code reads the digits as they
  are written and moves the decimal point by the exponent; \<open>denotes\<close> is what a literal means, and
  \<open>integral_number_exact\<close> says the two agree on every integer an \<open>int64\<close> and its negation hold.
\<close>

section \<open>Decimal digits\<close>

definition is_digits :: "bytes \<Rightarrow> bool" where
  "is_digits s = (s \<noteq> [] \<and> list_all is_digit s)"

definition is_signed_digits :: "bytes \<Rightarrow> bool" where
  "is_signed_digits s =
     is_digits (if has_prefix s ''+'' \<or> has_prefix s ''-'' then tl s else s)"

definition digits_value :: "bytes \<Rightarrow> int" where
  "digits_value s =
     (if has_prefix s ''-'' then - int (dec_to_nat (tl s))
      else int (dec_to_nat (if has_prefix s ''+'' then tl s else s)))"

text \<open>\<open>strconv.ParseInt\<close> in base 10 with 64 bits, and \<open>strconv.Atoi\<close> where an \<open>int\<close> has 64 bits.\<close>

definition parse_int :: "bytes \<Rightarrow> int option" where
  "parse_int s =
     (if is_signed_digits s \<and> fits64 (digits_value s) then Some (digits_value s) else None)"

lemma dec_to_nat_Nil [simp]: "dec_to_nat [] = 0"
  by (simp add: dec_to_nat_def)

lemma foldl_dec:
  "foldl (\<lambda>n c. 10 * n + (byte c - 48)) a s = a * 10 ^ length s + dec_to_nat s"
proof (induction s arbitrary: a)
  case (Cons c s)
  have "dec_to_nat (c # s) = (byte c - 48) * 10 ^ length s + dec_to_nat s"
    using Cons [of "byte c - 48"] by (simp add: dec_to_nat_def)
  then show ?case using Cons [of "10 * a + (byte c - 48)"] by (simp add: algebra_simps)
qed (simp add: dec_to_nat_def)

lemma dec_to_nat_append: "dec_to_nat (s @ t) = dec_to_nat s * 10 ^ length t + dec_to_nat t"
  using foldl_dec [of "dec_to_nat s" t] by (simp add: dec_to_nat_def)

lemma dec_to_nat_Cons: "dec_to_nat (c # s) = (byte c - 48) * 10 ^ length s + dec_to_nat s"
  using dec_to_nat_append [of "[c]" s] by (simp add: dec_to_nat_def)

lemma dec_to_nat_zeros [simp]: "dec_to_nat (replicate n (CHR ''0'')) = 0"
  by (induction n) (auto simp: dec_to_nat_Cons)

lemma dec_to_nat_less: "list_all is_digit s \<Longrightarrow> dec_to_nat s < 10 ^ length s"
proof (induction s)
  case (Cons c s)
  then have "byte c - 48 \<le> 9" "dec_to_nat s < 10 ^ length s" by (auto simp: is_digit_def)
  then have "(byte c - 48) * 10 ^ length s + dec_to_nat s < 9 * 10 ^ length s + 10 ^ length s"
    by (intro add_le_less_mono mult_le_mono1) auto
  then show ?case by (simp add: dec_to_nat_Cons)
qed simp

lemma digit_nonzero: "is_digit c \<Longrightarrow> c \<noteq> CHR ''0'' \<Longrightarrow> 1 \<le> byte c - 48"
proof -
  assume d: "is_digit c" and n: "c \<noteq> CHR ''0''"
  have "byte c \<noteq> 48"
  proof
    assume "byte c = 48"
    then have "byte c = byte (CHR ''0'')" by simp
    with n show False by (simp only: of_char_eq_iff)
  qed
  with d show ?thesis unfolding is_digit_def by linarith
qed

lemma dec_to_nat_ge:
  "s \<noteq> [] \<Longrightarrow> list_all is_digit s \<Longrightarrow> hd s \<noteq> CHR ''0'' \<Longrightarrow> 10 ^ (length s - 1) \<le> dec_to_nat s"
  by (cases s) (use digit_nonzero in \<open>auto simp: dec_to_nat_Cons intro!: trans_le_add1\<close>)

lemma dec_to_nat_0: "list_all is_digit s \<Longrightarrow> dec_to_nat s = 0 \<longleftrightarrow> (\<forall>c \<in> set s. c = CHR ''0'')"
proof (induction s)
  case (Cons c s)
  have "byte c - 48 = 0 \<longleftrightarrow> c = CHR ''0''"
    using digit_nonzero [of c] Cons.prems by force
  with Cons show ?case by (auto simp: dec_to_nat_Cons)
qed simp

lemma dec_to_nat_drop_zeros: "dec_to_nat (dropWhile (\<lambda>c. c = CHR ''0'') s) = dec_to_nat s"
  by (induction s) (auto simp: dec_to_nat_Cons)

section \<open>integralNumber\<close>

text \<open>\<open>strings.Trim\<close> with the cut set of one zero, and \<open>strings.Repeat\<close> of one, which panics on a
  negative count (\<open>None\<close>).\<close>

definition trim_left_zeros :: "bytes \<Rightarrow> bytes" where
  "trim_left_zeros s = dropWhile (\<lambda>c. c = CHR ''0'') s"

definition trim_zeros :: "bytes \<Rightarrow> bytes" where
  "trim_zeros s = rev (trim_left_zeros (rev (trim_left_zeros s)))"

definition repeat_zero :: "int \<Rightarrow> bytes option" where
  "repeat_zero n = (if n < 0 then None else Some (replicate (nat n) (CHR ''0'')))"

text \<open>
  The number with the given digits before and behind the point, moved by \<open>pow\<close>. The sum that
  places the point is one of machine words. \<open>None\<close> is a panic, \<open>Some None\<close> the refusal.
\<close>

definition moved_value :: "bool \<Rightarrow> bytes \<Rightarrow> int \<Rightarrow> int option option" where
  "moved_value negative digits point =
     (let tail = max point 0
      in if point < int (length digits) \<and> trim_zeros (drop (nat tail) digits) \<noteq> [] then Some None
         else let kept = (if point < int (length digits) then take (nat tail) digits else digits)
              in if point > 19 then Some None
                 else map_option
                        (\<lambda>zs. case parse_int (kept @ zs) of
                                None \<Rightarrow> None
                              | Some parsed \<Rightarrow> Some (if negative then - parsed else parsed))
                        (repeat_zero (wrap64 (point - int (length kept)))))"

definition whole_value :: "bool \<Rightarrow> bytes \<Rightarrow> bytes \<Rightarrow> bytes \<Rightarrow> int option option" where
  "whole_value negative whole fraction pow =
     (let digits = trim_left_zeros (whole @ fraction)
      in if digits = [] then Some (Some 0)
         else case (if pow \<noteq> [] then parse_int pow else Some 0) of
           None \<Rightarrow> Some None
         | Some exponent \<Rightarrow>
             moved_value negative digits
               (wrap64 (wrap64 (int (length digits) + exponent) - int (length fraction))))"

text \<open>The text before the first byte that satisfies a predicate, and after it if there is one.\<close>

definition cut_at :: "(char \<Rightarrow> bool) \<Rightarrow> bytes \<Rightarrow> bytes \<times> bytes option" where
  "cut_at p s =
     (takeWhile (\<lambda>c. \<not> p c) s,
      case dropWhile (\<lambda>c. \<not> p c) s of [] \<Rightarrow> None | _ # r \<Rightarrow> Some r)"

definition exponent_mark :: "char \<Rightarrow> bool" where
  "exponent_mark c = (c = CHR ''e'' \<or> c = CHR ''E'')"

definition integral_number :: "bytes \<Rightarrow> int option option" where
  "integral_number s =
     (let negative = has_prefix s ''-''; text = (if negative then tl s else s);
          (mantissa, pow) = cut_at exponent_mark text;
          (whole, fraction) = cut_at (\<lambda>c. c = CHR ''.'') mantissa
      in if (case pow of None \<Rightarrow> False | Some p \<Rightarrow> \<not> is_signed_digits p) then Some None
         else if \<not> is_digits whole \<or> (case fraction of None \<Rightarrow> False | Some f \<Rightarrow> \<not> is_digits f)
         then Some None
         else whole_value negative whole
                (case fraction of None \<Rightarrow> [] | Some f \<Rightarrow> f) (case pow of None \<Rightarrow> [] | Some p \<Rightarrow> p))"


lemma wrap64_up: "2 ^ 63 \<le> i \<Longrightarrow> i < 2 ^ 63 + 2 ^ 62 \<Longrightarrow> wrap64 i = i - 2 ^ 64"
  unfolding wrap64_def by (subst mod_pos_geq) simp_all

lemma wrap64_down: "i < - (2 ^ 63) \<Longrightarrow> - (2 ^ 63) - 2 ^ 62 \<le> i \<Longrightarrow> wrap64 i = i + 2 ^ 64"
proof -
  assume "i < - (2 ^ 63)" "- (2 ^ 63) - 2 ^ 62 \<le> i"
  then have "(i + 2 ^ 63 + 2 ^ 64) mod 2 ^ 64 = i + 2 ^ 63 + 2 ^ 64" by (intro mod_pos_pos_trivial) simp_all
  then show ?thesis unfolding wrap64_def by (simp only: mod_add_self2)
qed

section \<open>What a literal means\<close>

text \<open>
  The literal states the digits before and behind the point as one natural number, times a power of
  ten: the stated exponent less the digits behind the point. \<open>scaled m e v\<close> says that \<open>v\<close> is the
  natural number \<open>m * 10 ^ e\<close>.
\<close>

definition scaled :: "nat \<Rightarrow> int \<Rightarrow> nat \<Rightarrow> bool" where
  "scaled m e v = (if 0 \<le> e then v = m * 10 ^ nat e else v * 10 ^ nat (- e) = m)"

lemma ten_powers: "(10::nat) ^ 18 < 2 ^ 63" "(2::nat) ^ 63 \<le> 10 ^ 19"
  by simp_all

lemma scaled_zero: "scaled 0 e v \<longleftrightarrow> v = 0"
  by (auto simp: scaled_def)

text \<open>A number with a digit more than 19 before its point is out of range, one without any is none.\<close>

lemma scaled_large:
  assumes m: "10 ^ (n - 1) \<le> m" "0 < n" and p: "19 < int n + e" and s: "scaled m e v"
  shows "2 ^ 63 \<le> v"
proof -
  have "(10::nat) ^ 19 \<le> v"
  proof (cases "0 \<le> e")
    case True
    have "(10::nat) ^ 19 \<le> 10 ^ (n - 1 + nat e)" using p True m(2) by (intro power_increasing) auto
    also have "\<dots> \<le> m * 10 ^ nat e" using m(1) by (simp add: power_add)
    finally show ?thesis using s True by (simp add: scaled_def)
  next
    case False
    have "(10::nat) ^ 19 * 10 ^ nat (- e) = 10 ^ (19 + nat (- e))" by (simp add: power_add)
    also have "\<dots> \<le> 10 ^ (n - 1)" using p False m(2) by (intro power_increasing) auto
    also have "\<dots> \<le> v * 10 ^ nat (- e)" using s False m(1) by (simp add: scaled_def)
    finally show ?thesis by simp
  qed
  then show ?thesis using ten_powers(2) by linarith
qed

lemma scaled_small:
  assumes m: "m < 10 ^ n" "0 < m" and p: "int n + e \<le> 0"
  shows "\<not> scaled m e v"
proof
  assume s: "scaled m e v"
  have e: "e \<le> - int n" using p by simp
  show False
  proof (cases "0 \<le> e")
    case True
    with e have "n = 0" by simp
    with m show False by simp
  next
    case False
    with s have v: "v * 10 ^ nat (- e) = m" by (simp add: scaled_def)
    with m(2) have "1 \<le> v" by (cases v) auto
    have "(10::nat) ^ n \<le> 10 ^ nat (- e)" using e by (intro power_increasing) auto
    also have "\<dots> \<le> v * 10 ^ nat (- e)" using \<open>1 \<le> v\<close> by simp
    finally show False using v m(1) by simp
  qed
qed

section \<open>integralNumber agrees\<close>

lemma trim_zeros_Nil: "trim_zeros s = [] \<longleftrightarrow> (\<forall>c \<in> set s. c = CHR ''0'')"
proof -
  have "trim_zeros s = [] \<longleftrightarrow> (\<forall>c \<in> set (trim_left_zeros s). c = CHR ''0'')"
    by (simp add: trim_zeros_def trim_left_zeros_def dropWhile_eq_Nil_conv)
  also have "\<dots> \<longleftrightarrow> (\<forall>c \<in> set s. c = CHR ''0'')"
    unfolding trim_left_zeros_def by (induction s) auto
  finally show ?thesis .
qed

lemma digit_not_sign: "is_digit c \<Longrightarrow> c \<noteq> CHR ''+'' \<and> c \<noteq> CHR ''-''"
  by (auto simp: is_digit_def)

lemma parse_int_digits:
  assumes "is_digits s"
  shows "parse_int s = (if dec_to_nat s < 2 ^ 63 then Some (int (dec_to_nat s)) else None)"
proof -
  obtain c r where s: "s = c # r" "is_digit c" using assms by (cases s) (auto simp: is_digits_def)
  have np: "\<not> has_prefix s ''+''" "\<not> has_prefix s ''-''" using digit_not_sign [OF s(2)] s(1) by auto
  have "fits64 (int (dec_to_nat s)) \<longleftrightarrow> dec_to_nat s < 2 ^ 63"
    unfolding fits64_def by (metis (no_types) of_nat_less_numeral_power_cancel_iff less_imp_le
        order_trans neg_le_0_iff_le of_nat_0_le_iff zero_le_numeral zero_le_power)
  then show ?thesis using assms np by (simp add: parse_int_def is_signed_digits_def digits_value_def)
qed

lemma wrap64_step: "wrap64 (wrap64 a - b) = wrap64 (a - b)"
proof -
  have "((a + 2 ^ 63) mod 2 ^ 64 - 2 ^ 63 - b + 2 ^ 63) mod 2 ^ 64 = (a - b + 2 ^ 63) mod (2 ^ 64 :: int)"
    by (simp add: mod_simps algebra_simps)
  then show ?thesis by (simp add: wrap64_def)
qed


text \<open>Cutting the digits at the point: what stands past it must be zeros.\<close>

lemma scaled_cut:
  assumes d: "list_all is_digit ds" and p: "0 \<le> p" "p < int (length ds)"
  shows "scaled (dec_to_nat ds) (p - int (length ds)) v \<longleftrightarrow>
    (\<forall>c \<in> set (drop (nat p) ds). c = CHR ''0'') \<and> v = dec_to_nat (take (nat p) ds)"
proof -
  let ?t = "take (nat p) ds" and ?u = "drop (nat p) ds"
  define q where "q = (10::nat) ^ length ?u"
  have n: "dec_to_nat ds = dec_to_nat ?t * q + dec_to_nat ?u"
    using dec_to_nat_append [of ?t ?u] by (simp add: q_def)
  have du: "list_all is_digit ?u" using d by (metis append_take_drop_id list_all_append)
  have u: "dec_to_nat ?u < q" unfolding q_def by (rule dec_to_nat_less [OF du])
  have "nat (int (length ds) - p) = length ?u" using p by auto
  then have "scaled (dec_to_nat ds) (p - int (length ds)) v \<longleftrightarrow> v * q = dec_to_nat ?t * q + dec_to_nat ?u"
    using p by (simp add: scaled_def n q_def)
  also have "\<dots> \<longleftrightarrow> dec_to_nat ?u = 0 \<and> v = dec_to_nat ?t"
  proof
    assume h: "v * q = dec_to_nat ?t * q + dec_to_nat ?u"
    have "dec_to_nat ?u = (v * q) mod q" unfolding h using u by simp
    then have "dec_to_nat ?u = 0" by (simp only: mod_mult_self2_is_0)
    with h u show "dec_to_nat ?u = 0 \<and> v = dec_to_nat ?t" by simp
  qed simp
  finally show ?thesis by (simp add: dec_to_nat_0 [OF du])
qed

lemma scaled_fill:
  "int (length ds) \<le> p \<Longrightarrow> scaled (dec_to_nat ds) (p - int (length ds)) v \<longleftrightarrow>
     v = dec_to_nat (ds @ replicate (nat (p - int (length ds))) (CHR ''0''))"
  by (simp add: scaled_def dec_to_nat_append)

lemma parse_kept:
  assumes "is_digits k"
  shows "(case parse_int (k @ replicate n (CHR ''0'')) of None \<Rightarrow> None
      | Some i \<Rightarrow> Some (if neg then - i else i))
    = (if dec_to_nat (k @ replicate n (CHR ''0'')) < 2 ^ 63
       then Some (apply_sign neg (dec_to_nat (k @ replicate n (CHR ''0'')))) else None)"
proof -
  have "list_all is_digit (replicate n (CHR ''0''))" by (simp add: list_all_iff is_digit_def)
  then have "is_digits (k @ replicate n (CHR ''0''))" using assms by (auto simp: is_digits_def)
  then show ?thesis by (simp add: parse_int_digits apply_sign_def)
qed

definition reads_scaled :: "bool \<Rightarrow> nat \<Rightarrow> int \<Rightarrow> int option \<Rightarrow> bool" where
  "reads_scaled neg m e r =
     (\<forall>v. r = Some v \<longleftrightarrow> (\<exists>n < 2 ^ 63. scaled m e n \<and> v = apply_sign neg n))"

lemma moved_value_in_range:
  assumes ds: "is_digits ds" "hd ds \<noteq> CHR ''0''" and f: "fits64 p" "length ds < 2 ^ 62"
  shows "\<exists>r. moved_value neg ds p = Some r
    \<and> reads_scaled neg (dec_to_nat ds) (p - int (length ds)) r"
proof -
  let ?L = "int (length ds)" and ?m = "dec_to_nat ds"
  have d: "list_all is_digit ds" "ds \<noteq> []" using ds(1) by (auto simp: is_digits_def)
  have m: "10 ^ (length ds - 1) \<le> ?m" "?m < 10 ^ length ds" "0 < length ds"
    using dec_to_nat_ge [OF d(2,1) ds(2)] dec_to_nat_less [OF d(1)] d(2) by auto
  then have pos: "0 < ?m" by (metis less_le_trans zero_less_numeral zero_less_power)
  have first: "\<not> (\<forall>c \<in> set ds. c = CHR ''0'')" using d(2) ds(2) by (cases ds) auto
  show ?thesis
  proof (cases "p \<le> 0")
    case True
    then have "\<not> scaled ?m (p - ?L) v" for v using scaled_small [OF m(2) pos] by simp
    moreover have "p < ?L" using True m(3) by linarith
    then have "moved_value neg ds p = Some None"
      using True first by (simp add: moved_value_def trim_zeros_Nil)
    ultimately show ?thesis by (auto simp: reads_scaled_def)
  next
    case False
    show ?thesis
    proof (cases "p < ?L \<and> \<not> (\<forall>c \<in> set (drop (nat p) ds). c = CHR ''0'')")
      case True
      then have "\<not> scaled ?m (p - ?L) v" for v using scaled_cut [OF d(1)] False by simp
      moreover have "moved_value neg ds p = Some None"
        using True False by (auto simp: moved_value_def trim_zeros_Nil max_def)
      ultimately show ?thesis by (auto simp: reads_scaled_def)
    next
      case tail: False
      define k where "k = (if p < ?L then take (nat p) ds else ds)"
      define z where "z = replicate (nat (p - int (length k))) (CHR ''0'')"
      have val: "scaled ?m (p - ?L) v \<longleftrightarrow> v = dec_to_nat (k @ z)" for v
        using tail False scaled_cut [OF d(1), of p v] scaled_fill [of ds p v]
        by (cases "p < ?L") (auto simp: k_def z_def)
      have step: "moved_value neg ds p =
        (if p > 19 then Some None
         else map_option (\<lambda>zs. case parse_int (k @ zs) of None \<Rightarrow> None
             | Some i \<Rightarrow> Some (if neg then - i else i)) (repeat_zero (wrap64 (p - int (length k)))))"
        unfolding moved_value_def k_def Let_def using tail False by (auto simp: trim_zeros_Nil max_def)
      show ?thesis
      proof (cases "p > 19")
        case True
        have "2 ^ 63 \<le> v" if "scaled ?m (p - ?L) v" for v
          using scaled_large [OF m(1,3) _ that] True by simp
        then show ?thesis using step True by (auto simp: reads_scaled_def not_less [symmetric])
      next
        case False
        have len: "int (length k) \<le> p" "0 \<le> p" using \<open>\<not> p \<le> 0\<close> by (auto simp: k_def)
        then have "fits64 (p - int (length k))" using False by (simp add: fits64_def)
        then have rep: "repeat_zero (wrap64 (p - int (length k))) = Some z"
          using len by (simp add: repeat_zero_def z_def)
        have "is_digits k" using d \<open>\<not> p \<le> 0\<close> m(3)
          by (auto simp: is_digits_def k_def list_all_iff dest: in_set_takeD)
        from parse_kept [OF this, of neg "nat (p - int (length k))"] show ?thesis
          using step False rep val by (auto simp: reads_scaled_def z_def)
      qed
    qed
  qed
qed


lemma moved_value_out_of_range:
  assumes ds: "is_digits ds" "hd ds \<noteq> CHR ''0''" and len: "length ds < 2 ^ 62"
    and p: "\<not> fits64 p" "- (2 ^ 63) - 2 ^ 62 \<le> p" "p < 2 ^ 63 + 2 ^ 62"
  shows "moved_value neg ds (wrap64 p) = Some None
    \<and> reads_scaled neg (dec_to_nat ds) (p - int (length ds)) None"
proof -
  let ?L = "int (length ds)" and ?m = "dec_to_nat ds"
  have d: "list_all is_digit ds" "ds \<noteq> []" using ds(1) by (auto simp: is_digits_def)
  have m: "10 ^ (length ds - 1) \<le> ?m" "?m < 10 ^ length ds" "0 < length ds"
    using dec_to_nat_ge [OF d(2,1) ds(2)] dec_to_nat_less [OF d(1)] d(2) by auto
  then have pos: "0 < ?m" by (metis less_le_trans zero_less_numeral zero_less_power)
  have first: "\<not> (\<forall>c \<in> set ds. c = CHR ''0'')" using d(2) ds(2) by (cases ds) auto
  consider "2 ^ 63 \<le> p" | "p < - (2 ^ 63)" using p(1) unfolding fits64_def by linarith
  then show ?thesis
  proof cases
    case 1
    then have "wrap64 p = p - 2 ^ 64" using p(3) wrap64_up by simp
    with p(3) m(3) have w: "wrap64 p < 0" "wrap64 p < ?L" by simp_all
    have "2 ^ 63 \<le> v" if "scaled ?m (p - ?L) v" for v
      using scaled_large [OF m(1,3) _ that] 1 by simp
    then show ?thesis
      using w first by (auto simp: moved_value_def trim_zeros_Nil reads_scaled_def not_less [symmetric])
  next
    case 2
    then have "wrap64 p = p + 2 ^ 64" using p(2) wrap64_down by simp
    moreover have "?L < 2 ^ 62" using len by simp
    ultimately have w: "\<not> wrap64 p < ?L" "19 < wrap64 p" using p(2) by simp_all
    have "\<not> scaled ?m (p - ?L) v" for v using scaled_small [OF m(2) pos] 2 by simp
    then show ?thesis using w by (auto simp: moved_value_def reads_scaled_def)
  qed
qed


lemma whole_value_exact:
  assumes w: "is_digits whole" and f: "list_all is_digit fraction"
    and x: "pow = [] \<or> is_signed_digits pow" and len: "length whole + length fraction < 2 ^ 62"
  shows "\<exists>r. whole_value neg whole fraction pow = Some r
    \<and> reads_scaled neg (dec_to_nat (whole @ fraction)) (digits_value pow - int (length fraction)) r"
proof -
  define ds where "ds = trim_left_zeros (whole @ fraction)"
  let ?F = "int (length fraction)" and ?L = "int (length ds)"
  have all: "list_all is_digit (whole @ fraction)" using w f by (simp add: is_digits_def)
  have val: "dec_to_nat (whole @ fraction) = dec_to_nat ds"
    by (simp add: ds_def trim_left_zeros_def dec_to_nat_drop_zeros)
  show ?thesis
  proof (cases "ds = []")
    case True
    then have "whole_value neg whole fraction pow = Some (Some 0)"
      unfolding whole_value_def Let_def ds_def by simp
    then show ?thesis unfolding val using True
      by (auto simp: reads_scaled_def scaled_zero apply_sign_def)
  next
    case False
    have ds: "is_digits ds" "hd ds \<noteq> CHR ''0''"
      using False all hd_dropWhile [of "\<lambda>c. c = CHR ''0''" "whole @ fraction"]
      by (auto simp: is_digits_def ds_def trim_left_zeros_def list_all_iff dest: set_dropWhileD)
    have "length ds \<le> length (whole @ fraction)"
      by (simp only: ds_def trim_left_zeros_def length_dropWhile_le)
    then have l: "length ds < 2 ^ 62" "?L < 2 ^ 62" "?F < 2 ^ 62" using len by simp_all
    have d: "list_all is_digit ds" "ds \<noteq> []" using ds(1) by (auto simp: is_digits_def)
    note m = dec_to_nat_ge [OF d(2,1) ds(2)] dec_to_nat_less [OF d(1)]
    have nz: "0 < length ds" using d(2) by simp
    have pos: "0 < dec_to_nat ds" using m(1) by (metis less_le_trans zero_less_numeral zero_less_power)
    let ?x = "digits_value pow"
    have atoi: "(if pow \<noteq> [] then parse_int pow else Some 0) = (if fits64 ?x then Some ?x else None)"
      using x by (auto simp: parse_int_def digits_value_def fits64_def)
    show ?thesis
    proof (cases "fits64 ?x")
      case False
      then have r: "whole_value neg whole fraction pow = Some None"
        unfolding whole_value_def Let_def atoi using \<open>ds \<noteq> []\<close> by (simp flip: ds_def)
      consider "2 ^ 63 \<le> ?x" | "?x < - (2 ^ 63)" using False unfolding fits64_def by linarith
      then have "\<not> (\<exists>v < 2 ^ 63. scaled (dec_to_nat ds) (?x - ?F) v)"
      proof cases
        case 1
        then have "19 < ?L + (?x - ?F)" using l(3) by simp
        then show ?thesis using scaled_large [OF m(1) nz] leD by blast
      next
        case 2
        then show ?thesis using scaled_small [OF m(2) pos] l by auto
      qed
      then show ?thesis unfolding val r by (auto simp: reads_scaled_def)
    next
      case True
      define p where "p = ?L + ?x - ?F"
      have e: "?x - ?F = p - ?L" by (simp add: p_def)
      have r: "whole_value neg whole fraction pow = moved_value neg ds (wrap64 p)"
        unfolding whole_value_def Let_def atoi p_def using \<open>ds \<noteq> []\<close> True
        by (simp add: wrap64_step flip: ds_def)
      have "- (2 ^ 63) - 2 ^ 62 \<le> p" "p < 2 ^ 63 + 2 ^ 62"
        using True l nz unfolding p_def fits64_def by linarith+
      then show ?thesis unfolding val e r
        using moved_value_in_range [OF ds, of p neg] moved_value_out_of_range [OF ds l(1), of p neg] l(1)
        by (cases "fits64 p") auto
    qed
  qed
qed

section \<open>The denotation of a literal\<close>

definition literal_parts :: "bytes \<Rightarrow> bool \<times> nat \<times> int" where
  "literal_parts s =
     (let neg = has_prefix s ''-''; t = (if neg then tl s else s);
          rest = drop_digits t;
          (f, e) = (if has_prefix rest ''.'' then (take_digits (tl rest), drop_digits (tl rest)) else ([], rest))
      in (neg, dec_to_nat (take_digits t @ f), digits_value (tl e) - int (length f)))"

definition denotes :: "bytes \<Rightarrow> int \<Rightarrow> bool" where
  "denotes s v =
     (case literal_parts s of (neg, m, e) \<Rightarrow> scaled m e (nat \<bar>v\<bar>) \<and> v = apply_sign neg (nat \<bar>v\<bar>))"

text \<open>The shape of a JSON number literal.\<close>

definition fraction_part :: "bytes \<Rightarrow> bytes \<Rightarrow> bool" where
  "fraction_part fr f = (fr = [] \<and> f = [] \<or> fr = CHR ''.'' # f \<and> is_digits f)"

definition exponent_part :: "bytes \<Rightarrow> bytes \<Rightarrow> bool" where
  "exponent_part e p = (e = [] \<and> p = [] \<or> (\<exists>c. e = c # p \<and> exponent_mark c \<and> is_signed_digits p))"

lemma scan_digits1_digits: "scan_digits1 s = Some (b, q) \<Longrightarrow> is_digits b"
  by (auto simp: scan_digits1_def is_digits_def list_all_iff take_digits_def
      dest: set_takeWhileD split: if_splits)

lemma number_shape:
  assumes "scan_number s = Some (n, q)"
  obtains sg i fr f e p where "n = sg @ i @ fr @ e" "sg = [] \<or> sg = ''-''" "is_digits i"
    "fraction_part fr f" "exponent_part e p"
proof -
  obtain sg s1 i s2 fr s3 e where
    sg: "if has_prefix s ''-'' then sg = ''-'' \<and> s = sg @ s1 else sg = [] \<and> s1 = s"
    and i: "scan_int s1 = Some (i, s2)" and fr: "scan_frac s2 = Some (fr, s3)"
    and e: "scan_exp s3 = Some (e, q)" and n: "n = sg @ i @ fr @ e"
    using assms unfolding scan_number_parts by blast
  have "is_digit (CHR ''0'')" by (simp add: is_digit_def)
  then have "is_digits i" using i
    by (auto simp: scan_int_def is_digits_def take_digits_def list_all_iff
        dest: set_takeWhileD split: list.splits if_splits)
  moreover have "\<exists>f. fraction_part fr f" using fr scan_digits1_digits
    by (fastforce simp: scan_frac_def fraction_part_def prepend_Some split: list.splits if_splits)
  moreover have "is_signed_digits b" if "is_digits b" for b
    using that digit_not_sign by (cases b) (auto simp: is_signed_digits_def is_digits_def)
  then have "\<exists>p. exponent_part e p" using e scan_digits1_digits
    by (fastforce simp: scan_exp_def exponent_part_def exponent_mark_def prepend_Some is_signed_digits_def
        split: list.splits if_splits)
  ultimately show thesis using that n sg by (metis (full_types))
qed


text \<open>Both readings of a literal take it apart alike.\<close>

lemma takeWhile_mark: "(\<forall>c \<in> set s. \<not> P c) \<Longrightarrow> cut_at P (s @ t) =
    (s @ fst (cut_at P t), snd (cut_at P t))"
  by (induction s) (auto simp: cut_at_def)

lemma digit_no_mark: "is_digit c \<Longrightarrow> \<not> exponent_mark c \<and> c \<noteq> CHR ''.''"
  by (auto simp: exponent_mark_def)

lemma integral_number_shape:
  assumes n: "s = sg @ i @ fr @ e" and sg: "sg = [] \<or> sg = ''-''" and i: "is_digits i"
    and fr: "fraction_part fr f" and e: "exponent_part e p"
  shows "integral_number s = whole_value (sg \<noteq> []) i f p"
    and "literal_parts s = (sg \<noteq> [], dec_to_nat (i @ f), digits_value p - int (length f))"
proof -
  have neg: "has_prefix s ''-'' \<longleftrightarrow> sg \<noteq> []" "(if sg \<noteq> [] then tl s else s) = i @ fr @ e"
    using sg i n digit_not_sign by (cases i; auto simp: is_digits_def)+
  have ds: "\<forall>c \<in> set i. is_digit c" "\<forall>c \<in> set f. is_digit c"
    using i fr by (auto simp: is_digits_def fraction_part_def list_all_iff)
  have "\<not> exponent_mark (CHR ''.'')" by (simp add: exponent_mark_def)
  moreover have "\<forall>c \<in> set i. \<not> exponent_mark c" "\<forall>c \<in> set f. \<not> exponent_mark c"
    using ds digit_no_mark by blast+
  ultimately have "\<forall>c \<in> set (i @ fr). \<not> exponent_mark c" using fr by (auto simp: fraction_part_def)
  then have c1: "cut_at exponent_mark (i @ fr @ e) = (i @ fr, if e = [] then None else Some p)"
    using takeWhile_mark [of "i @ fr" exponent_mark e] e
    by (auto simp: exponent_part_def cut_at_def)
  have "\<forall>c \<in> set i. c \<noteq> CHR ''.''" using ds digit_no_mark by blast
  then have c2: "cut_at (\<lambda>c. c = CHR ''.'') (i @ fr) = (i, if fr = [] then None else Some f)"
  proof -
    have "cut_at (\<lambda>c. c = CHR ''.'') fr = ([], if fr = [] then None else Some f)"
      using fr by (cases fr) (simp_all add: fraction_part_def cut_at_def)
    with \<open>\<forall>c \<in> set i. c \<noteq> CHR ''.''\<close> show ?thesis
      by (simp only: takeWhile_mark append_Nil2 fst_conv snd_conv)
  qed
  have opt: "(case if e = [] then None else Some p of None \<Rightarrow> False | Some p \<Rightarrow> \<not> is_signed_digits p) = False"
    "(case if fr = [] then None else Some f of None \<Rightarrow> False | Some f \<Rightarrow> \<not> is_digits f) = False"
    "(case if e = [] then None else Some p of None \<Rightarrow> [] | Some p \<Rightarrow> p) = p"
    "(case if fr = [] then None else Some f of None \<Rightarrow> [] | Some f \<Rightarrow> f) = f"
    using fr e by (auto simp: fraction_part_def exponent_part_def)
  show "integral_number s = whole_value (sg \<noteq> []) i f p"
    unfolding integral_number_def Let_def neg(1) unfolding neg(2) c1 case_prod_conv c2 opt
    using i by (simp only: if_False HOL.simp_thms)
  have td: "take_digits (u @ v) = u \<and> drop_digits (u @ v) = v"
    if "\<forall>c \<in> set u. is_digit c" "nondigit v" for u v
    using that by (cases v) (auto simp: take_digits_def drop_digits_def takeWhile_append dropWhile_append)
  have nd: "nondigit e" "nondigit (fr @ e)" "\<not> has_prefix e ''.''"
    using e fr digit_no_mark
    by (cases e; auto simp: exponent_part_def exponent_mark_def fraction_part_def)+
  show "literal_parts s = (sg \<noteq> [], dec_to_nat (i @ f), digits_value p - int (length f))"
    unfolding literal_parts_def Let_def neg(1) unfolding neg(2)
    using td [OF ds(1) nd(2)] td [OF ds(2) nd(1)] nd(3) fr e
    by (cases "fr = []"; cases "e = []") (auto simp: fraction_part_def exponent_part_def)
qed

lemma integral_number_exact:
  assumes s: "scan_number s = Some (s, [])" and len: "length s < 2 ^ 62"
  shows "\<exists>r. integral_number s = Some r \<and> (\<forall>v. r = Some v \<longleftrightarrow> denotes s v \<and> \<bar>v\<bar> < 2 ^ 63)"
proof -
  obtain sg i fr f e p where n: "s = sg @ i @ fr @ e" "sg = [] \<or> sg = ''-''" "is_digits i"
    "fraction_part fr f" "exponent_part e p"
    by (rule number_shape [OF s])
  have "list_all is_digit f" "p = [] \<or> is_signed_digits p"
    using n(4,5) by (auto simp: fraction_part_def exponent_part_def is_digits_def)
  moreover have "length i + length f \<le> length s" using n(1,4) by (auto simp: fraction_part_def)
  then have "length i + length f < 2 ^ 62" using len by linarith
  ultimately obtain r where r: "whole_value (sg \<noteq> []) i f p = Some r"
    "reads_scaled (sg \<noteq> []) (dec_to_nat (i @ f)) (digits_value p - int (length f)) r"
    using whole_value_exact [OF n(3)] by blast
  have "denotes s v \<and> \<bar>v\<bar> < 2 ^ 63 \<longleftrightarrow> (\<exists>k < 2 ^ 63. scaled (dec_to_nat (i @ f))
      (digits_value p - int (length f)) k \<and> v = apply_sign (sg \<noteq> []) k)" for v
    unfolding denotes_def integral_number_shape(2) [OF n]
    by (auto simp: apply_sign_def nat_less_iff intro!: exI [of _ "nat \<bar>v\<bar>"])
  then show ?thesis
    using r unfolding integral_number_shape(1) [OF n] reads_scaled_def by simp
qed


lemma cut_at_length:
  assumes "cut_at P s = (a, b)"
  shows "length a + (case b of None \<Rightarrow> 0 | Some r \<Rightarrow> length r) \<le> length s"
proof -
  have "s = takeWhile (\<lambda>c. \<not> P c) s @ dropWhile (\<lambda>c. \<not> P c) s" by simp
  then have "length s = length (takeWhile (\<lambda>c. \<not> P c) s) + length (dropWhile (\<lambda>c. \<not> P c) s)"
    by (metis length_append)
  then show ?thesis using assms by (auto simp: cut_at_def split: list.splits)
qed

text \<open>The count \<open>strings.Repeat\<close> is called with is never negative.\<close>

lemma integral_number_total:
  assumes "length s < 2 ^ 62"
  shows "integral_number s \<noteq> None"
proof -
  define t where "t = (if has_prefix s ''-'' then tl s else s)"
  obtain m p where c1: "cut_at exponent_mark t = (m, p)" by fastforce
  obtain w f where c2: "cut_at (\<lambda>c. c = CHR ''.'') m = (w, f)" by fastforce
  let ?f = "case f of None \<Rightarrow> [] | Some f \<Rightarrow> f" and ?p = "case p of None \<Rightarrow> [] | Some p \<Rightarrow> p"
  have "length m \<le> length t" "length w + length ?f \<le> length m" "length t \<le> length s"
    using cut_at_length [OF c1] cut_at_length [OF c2] by (auto simp: t_def split: option.splits)
  then have len: "length w + length ?f < 2 ^ 62" using assms by linarith
  have def: "integral_number s =
      (if (case p of None \<Rightarrow> False | Some p \<Rightarrow> \<not> is_signed_digits p) then Some None
       else if \<not> is_digits w \<or> (case f of None \<Rightarrow> False | Some f \<Rightarrow> \<not> is_digits f) then Some None
       else whole_value (has_prefix s ''-'') w ?f ?p)"
    unfolding integral_number_def Let_def t_def [symmetric] c1 case_prod_conv c2 ..
  show ?thesis
  proof (cases "(case p of None \<Rightarrow> False | Some p \<Rightarrow> \<not> is_signed_digits p)
      \<or> \<not> is_digits w \<or> (case f of None \<Rightarrow> False | Some f \<Rightarrow> \<not> is_digits f)")
    case True
    then show ?thesis unfolding def by auto
  next
    case False
    then have "is_digits w" "list_all is_digit ?f" "?p = [] \<or> is_signed_digits ?p"
      by (auto simp: is_digits_def split: option.splits)
    from whole_value_exact [OF this len, of "has_prefix s ''-''"] False show ?thesis
      unfolding def by auto
  qed
qed

text \<open>A literal the integer parser reads denotes what it reads; a literal denotes one number.\<close>

lemma parse_int_denotes:
  assumes s: "scan_number s = Some (s, [])" and p: "parse_int s = Some v"
  shows "denotes s v"
proof -
  obtain sg i fr f e x where n: "s = sg @ i @ fr @ e" "sg = [] \<or> sg = ''-''" "is_digits i"
    "fraction_part fr f" "exponent_part e x"
    by (rule number_shape [OF s])
  obtain c r where i: "i = c # r" "is_digit c" using n(3) by (cases i) (auto simp: is_digits_def)
  have sign: "c \<noteq> CHR ''-''" "c \<noteq> CHR ''+''" using digit_not_sign [OF i(2)] by auto
  have pr: "is_signed_digits s" "v = digits_value s" using p by (auto simp: parse_int_def split: if_splits)
  have d: "list_all is_digit (i @ fr @ e)" "v = apply_sign (sg \<noteq> []) (dec_to_nat (i @ fr @ e))"
    using pr n(1,2) i sign by (auto simp: is_signed_digits_def is_digits_def digits_value_def apply_sign_def)
  have "e = []" "fr = []"
    using d(1) n(4,5) digit_no_mark by (auto simp: fraction_part_def exponent_part_def)
  then have "x = []" "f = []" using n(4,5) by (auto simp: fraction_part_def exponent_part_def)
  then show ?thesis
    using d(2) \<open>e = []\<close> \<open>fr = []\<close> unfolding denotes_def integral_number_shape(2) [OF n]
    by (auto simp: scaled_def digits_value_def apply_sign_def)
qed

lemma scaled_unique: "scaled m e a \<Longrightarrow> scaled m e b \<Longrightarrow> a = b"
  by (auto simp: scaled_def split: if_splits)

lemma denotes_unique: "denotes s a \<Longrightarrow> denotes s b \<Longrightarrow> a = b"
  unfolding denotes_def by (auto split: prod.splits dest: scaled_unique)

section \<open>Mirrored integers\<close>

definition safe_integer :: int where "safe_integer = 2 ^ 53 - 1"

definition bounded_integer :: "int \<Rightarrow> bytes option" where
  "bounded_integer v = (if v > safe_integer \<or> v < - safe_integer then None else Some (int_to_dec v))"

text \<open>The argument is a decoded value whose numbers are kept as written (\<open>json.Number\<close>).\<close>

definition mirrored_integer :: "any \<Rightarrow> bytes option option" where
  "mirrored_integer value =
     (case value of
        ANum n \<Rightarrow>
          (case parse_int n of
             Some parsed \<Rightarrow> Some (bounded_integer parsed)
           | None \<Rightarrow> map_option (\<lambda>r. Option.bind r bounded_integer) (integral_number n))
      | _ \<Rightarrow> Some None)"

lemma number_value:
  assumes s: "scan_number s = Some (s, [])" and len: "length s < 2 ^ 62"
  shows "\<exists>r. (case parse_int s of Some v \<Rightarrow> Some (Some v) | None \<Rightarrow> integral_number s) = Some r
    \<and> (\<forall>v. \<bar>v\<bar> < 2 ^ 63 \<longrightarrow> (r = Some v \<longleftrightarrow> denotes s v)) \<and> (\<forall>v. r = Some v \<longrightarrow> denotes s v)"
proof (cases "parse_int s")
  case None
  then show ?thesis using integral_number_exact [OF s len] by auto
next
  case (Some v)
  then show ?thesis using parse_int_denotes [OF s Some] denotes_unique by auto
qed

lemma mirrored_integer_number:
  assumes s: "scan_number s = Some (s, [])" and len: "length s < 2 ^ 62"
  shows "\<exists>r. mirrored_integer (ANum s) = Some r
    \<and> (\<forall>t. r = Some t \<longleftrightarrow> (\<exists>v. denotes s v \<and> \<bar>v\<bar> < 2 ^ 53 \<and> t = int_to_dec v))"
proof -
  obtain r where r: "(case parse_int s of Some v \<Rightarrow> Some (Some v) | None \<Rightarrow> integral_number s) = Some r"
    "\<And>v. \<bar>v\<bar> < 2 ^ 63 \<Longrightarrow> r = Some v \<longleftrightarrow> denotes s v" "\<And>v. r = Some v \<Longrightarrow> denotes s v"
    using number_value [OF s len] by blast
  have "mirrored_integer (ANum s) = Some (Option.bind r bounded_integer)"
    using r(1) by (cases "parse_int s") (auto simp: mirrored_integer_def)
  moreover have "Option.bind r bounded_integer = Some t \<longleftrightarrow>
      (\<exists>v. denotes s v \<and> \<bar>v\<bar> < 2 ^ 53 \<and> t = int_to_dec v)" for t
  proof
    assume "Option.bind r bounded_integer = Some t"
    then obtain v where "r = Some v" "bounded_integer v = Some t" by (auto simp: Option.bind_eq_Some_conv)
    then show "\<exists>v. denotes s v \<and> \<bar>v\<bar> < 2 ^ 53 \<and> t = int_to_dec v"
      using r(3) by (auto simp: bounded_integer_def safe_integer_def split: if_splits intro!: exI [of _ v])
  next
    assume "\<exists>v. denotes s v \<and> \<bar>v\<bar> < 2 ^ 53 \<and> t = int_to_dec v"
    then obtain v where v: "denotes s v" "\<bar>v\<bar> < 2 ^ 53" "t = int_to_dec v" by blast
    then have "r = Some v" using r(2) [of v] by simp
    moreover have "\<not> (v > safe_integer \<or> v < - safe_integer)"
      using v(2) by (simp add: safe_integer_def) arith
    ultimately show "Option.bind r bounded_integer = Some t" using v(3) by (simp add: bounded_integer_def)
  qed
  ultimately show ?thesis by blast
qed

section \<open>Lifetimes\<close>

definition trim_json_space :: "bytes \<Rightarrow> bytes" where
  "trim_json_space s = rev (skip_ws (rev (skip_ws s)))"

definition ttl_member :: "bytes \<times> bytes \<times> json \<Rightarrow> bytes \<Rightarrow> bytes option" where
  "ttl_member m old = (case m of (k, r, v) \<Rightarrow> Some (if field_is ''ttlMs'' (unquote k) then r else old))"

definition ttl_text :: "bytes \<Rightarrow> bytes option" where
  "ttl_text result =
     (case json_parse result of
        Some (JObj ms) \<Rightarrow> decode_members ttl_member ms []
      | Some JNull \<Rightarrow> Some []
      | _ \<Rightarrow> None)"

definition max_duration :: int where "max_duration = 2 ^ 63 - 1"

definition lifetime_of_ms :: "int \<Rightarrow> int" where
  "lifetime_of_ms milliseconds =
     (if milliseconds \<le> 0 then 0
      else if milliseconds > max_duration div 1000000 then max_duration
      else wrap64 (milliseconds * 1000000))"

definition lifetime_of :: "bytes \<Rightarrow> int option" where
  "lifetime_of result =
     (case ttl_text result of
        None \<Rightarrow> Some 0
      | Some raw \<Rightarrow>
          (let text = trim_json_space raw
           in case parse_int text of
                Some milliseconds \<Rightarrow> Some (lifetime_of_ms milliseconds)
              | None \<Rightarrow>
                  map_option (\<lambda>whole. case whole of None \<Rightarrow> 0 | Some milliseconds \<Rightarrow> lifetime_of_ms milliseconds)
                    (integral_number text)))"

definition stale_after :: "int \<Rightarrow> bytes \<Rightarrow> int option" where
  "stale_after received_at result = map_option (\<lambda>d. received_at + d) (lifetime_of result)"

lemma lifetime_of_ms_min: "lifetime_of_ms ms = min (max 0 ms * 1000000) max_duration"
proof (cases "0 < ms \<and> ms \<le> max_duration div 1000000")
  case True
  then have "ms \<le> 9223372036854" by (simp add: max_duration_def)
  then have "ms * 1000000 \<le> max_duration" by (simp add: max_duration_def)
  moreover from this True have "fits64 (ms * 1000000)" by (simp add: fits64_def max_duration_def)
  ultimately show ?thesis using True by (simp add: lifetime_of_ms_def)
next
  case False
  then consider "ms \<le> 0" | "9223372036854 < ms" by (fastforce simp: max_duration_def)
  then show ?thesis
  proof cases
    case 1
    then show ?thesis by (simp add: lifetime_of_ms_def max_duration_def)
  next
    case 2
    then show ?thesis by (simp add: lifetime_of_ms_def max_duration_def)
  qed
qed


lemma trim_json_space_token:
  assumes "s \<noteq> []" "\<not> ws_char (hd s)" "\<not> ws_char (last s)"
  shows "trim_json_space s = s"
proof -
  have "skip_ws s = s" using assms(1,2) by (cases s) auto
  moreover have "skip_ws (rev s) = rev s"
    using assms(1,3) by (cases s rule: rev_cases) auto
  ultimately show ?thesis by (simp add: trim_json_space_def)
qed

lemma number_trim: "scan_number s = Some (s, []) \<Longrightarrow> trim_json_space s = s"
  using scan_number_local(2,3) [of s s "[]"] scan_number_last [of s s "[]"]
  by (intro trim_json_space_token) (auto simp: digit_not_ws)

lemma lifetime_of_total:
  assumes "\<And>raw. ttl_text result = Some raw \<Longrightarrow> length raw < 2 ^ 62"
  shows "\<exists>d. lifetime_of result = Some d \<and> 0 \<le> d \<and> d \<le> max_duration"
proof -
  have m: "0 \<le> lifetime_of_ms ms \<and> lifetime_of_ms ms \<le> max_duration" for ms
    by (simp add: lifetime_of_ms_min max_duration_def)
  show ?thesis
  proof (cases "ttl_text result")
    case None
    then show ?thesis by (simp add: lifetime_of_def max_duration_def)
  next
    case (Some raw)
    have "length (skip_ws x) \<le> length x" for x
      unfolding skip_ws_def by (rule length_dropWhile_le)
    then have "length (trim_json_space raw) \<le> length raw"
      unfolding trim_json_space_def by (metis length_rev order_trans)
    from le_less_trans [OF this assms [OF Some]]
    have "integral_number (trim_json_space raw) \<noteq> None" by (rule integral_number_total)
    then obtain w where "integral_number (trim_json_space raw) = Some w" by blast
    with Some m show ?thesis
      by (cases "parse_int (trim_json_space raw)"; cases w)
        (simp_all add: lifetime_of_def Let_def max_duration_def)
  qed
qed

text \<open>
  Mirrored integers are exact: whatever form a JSON number is written in (\<open>1e2\<close>, \<open>-1.250e3\<close>), the
  header text it is mirrored into is the decimal form of the integer it denotes, for every integer
  below \<open>2 ^ 53\<close> in magnitude; a fraction or a larger integer is refused, and nothing panics.
\<close>

theorem mirrored_integer_exact:
  assumes "scan_number s = Some (s, [])" "length s < 2 ^ 62"
  shows "\<exists>r. mirrored_integer (ANum s) = Some r
    \<and> (\<forall>t. r = Some t \<longleftrightarrow> (\<exists>v. denotes s v \<and> \<bar>v\<bar> < 2 ^ 53 \<and> t = int_to_dec v))"
  using assms by (rule mirrored_integer_number)

theorem mirrored_integer_exact_witness:
  "denotes ''-1.2500e3'' (- 1250) \<and> mirrored_integer (ANum ''-1.2500e3'') = Some (Some ''-1250'')"
proof -
  have d: "denotes ''-1.2500e3'' (- 1250)" "int_to_dec (- 1250) = ''-1250''" by code_simp+
  have "scan_number ''-1.2500e3'' = Some (''-1.2500e3'', [])" by code_simp
  moreover have "length ''-1.2500e3'' < 2 ^ 62" by simp
  ultimately have "\<exists>r. mirrored_integer (ANum ''-1.2500e3'') = Some r
    \<and> (\<forall>t. r = Some t \<longleftrightarrow> (\<exists>v. denotes ''-1.2500e3'' v \<and> \<bar>v\<bar> < 2 ^ 53 \<and> t = int_to_dec v))"
    by (rule mirrored_integer_exact)
  then obtain r where r: "mirrored_integer (ANum ''-1.2500e3'') = Some r"
    "\<forall>t. r = Some t \<longleftrightarrow> (\<exists>v. denotes ''-1.2500e3'' v \<and> \<bar>v\<bar> < 2 ^ 53 \<and> t = int_to_dec v)"
    by (elim exE conjE)
  have "\<bar>- 1250\<bar> < (2::int) ^ 53" by simp
  with d have "r = Some ''-1250''" by (intro r(2) [rule_format, THEN iffD2] exI [of _ "- 1250"] conjI) (simp_all only:)
  with r(1) d(1) show ?thesis by simp
qed

text \<open>
  A caching hint that is a JSON number is read as the lifetime it denotes: an integer of
  milliseconds as that many, capped at the longest duration, a negative one as none; a fraction or an
  integer beyond 64 bits as none.
\<close>

theorem lifetime_of_exact:
  assumes s: "ttl_text result = Some s" "scan_number s = Some (s, [])" "length s < 2 ^ 62"
  shows "\<exists>d. lifetime_of result = Some d
    \<and> (\<forall>v. denotes s v \<longrightarrow> \<bar>v\<bar> < 2 ^ 63 \<longrightarrow> d = min (max 0 v * 1000000) max_duration)
    \<and> ((\<nexists>v. denotes s v \<and> \<bar>v\<bar> < 2 ^ 63) \<longrightarrow> d = 0)"
proof (cases "parse_int s")
  case (Some v)
  then have "denotes s v" "\<bar>v\<bar> < 2 ^ 63 \<or> v = - (2 ^ 63)"
    using parse_int_denotes [OF s(2)] by (auto simp: parse_int_def fits64_def split: if_splits)
  have d: "lifetime_of result = Some (lifetime_of_ms v)"
    using Some s(1) number_trim [OF s(2)] by (simp add: lifetime_of_def)
  have "lifetime_of_ms v = 0" if "\<nexists>w. denotes s w \<and> \<bar>w\<bar> < 2 ^ 63"
  proof -
    from that \<open>denotes s v\<close> \<open>\<bar>v\<bar> < 2 ^ 63 \<or> v = - (2 ^ 63)\<close> have "v = - (2 ^ 63)" by blast
    then show ?thesis by (simp add: lifetime_of_ms_def)
  qed
  moreover have "lifetime_of_ms v = min (max 0 w * 1000000) max_duration" if "denotes s w" for w
    using denotes_unique [OF \<open>denotes s v\<close> that] lifetime_of_ms_min by simp
  ultimately show ?thesis using d by (intro exI [of _ "lifetime_of_ms v"]) simp
next
  case None
  obtain r where "integral_number s = Some r" "\<forall>v. r = Some v \<longleftrightarrow> denotes s v \<and> \<bar>v\<bar> < 2 ^ 63"
    using integral_number_exact [OF s(2,3)] by blast
  then have r: "\<And>v. r = Some v \<longleftrightarrow> denotes s v \<and> \<bar>v\<bar> < 2 ^ 63"
    and d: "lifetime_of result = Some (case r of None \<Rightarrow> 0 | Some v \<Rightarrow> lifetime_of_ms v)"
    using None s(1) number_trim [OF s(2)] by (auto simp: lifetime_of_def)
  have "(case r of None \<Rightarrow> 0 | Some v \<Rightarrow> lifetime_of_ms v) = min (max 0 v * 1000000) max_duration"
    if "denotes s v" "\<bar>v\<bar> < 2 ^ 63" for v
    using that r [of v] by (simp add: lifetime_of_ms_min)
  moreover have "(case r of None \<Rightarrow> 0 | Some v \<Rightarrow> lifetime_of_ms v) = 0"
    if "\<nexists>v. denotes s v \<and> \<bar>v\<bar> < 2 ^ 63"
    using that r by (cases r) auto
  ultimately show ?thesis using d by (intro exI [of _ "case r of None \<Rightarrow> 0 | Some v \<Rightarrow> lifetime_of_ms v"]) simp
qed

theorem lifetime_of_exact_witness:
  "lifetime_of (''{'' @ [quote_char] @ ''ttlMs'' @ [quote_char] @ '':3e5}'') = Some 300000000000"
proof -
  have "ttl_text (''{'' @ [quote_char] @ ''ttlMs'' @ [quote_char] @ '':3e5}'') = Some ''3e5''" "scan_number ''3e5'' = Some (''3e5'', [])"
    and d: "denotes ''3e5'' 300000" by code_simp+
  from lifetime_of_exact [OF this(1,2)] obtain d where
    "lifetime_of (''{'' @ [quote_char] @ ''ttlMs'' @ [quote_char] @ '':3e5}'') = Some d"
    "\<And>v. denotes ''3e5'' v \<Longrightarrow> \<bar>v\<bar> < 2 ^ 63 \<Longrightarrow> d = min (max 0 v * 1000000) max_duration"
    by auto
  with d show ?thesis by (simp add: max_duration_def)
qed

end
