(* ===== verification/Client_Results.thy ===== *)
theory Client_Results
  imports Wire Integral_Number
begin

text \<open>
  How the client reads the result of a request (\<open>client/unfinished.go\<close>): a complete result, a
  suspended one the caller continues from, or an invalid one; the continuation that repeats the
  request; and how it quotes text of the server in errors (\<open>client/errors.go\<close>).
\<close>

section \<open>Quoting text of the server (errors.go)\<close>

text \<open>
  \<open>strconv.IsPrint\<close>: the Latin-1 range as its code has it, the tables above it a parameter.
\<close>

definition is_print :: "(nat \<Rightarrow> bool) \<Rightarrow> nat \<Rightarrow> bool" where
  "is_print table r =
     (if r \<le> 0xFF then (0x20 \<le> r \<and> r < 0x7F) \<or> (0xA1 \<le> r \<and> r \<noteq> 0xAD) else table r)"

fun lower_hex :: "nat \<Rightarrow> nat \<Rightarrow> bytes" where
  "lower_hex 0 x = []"
| "lower_hex (Suc n) x = lower_hex n (x div 16) @ [hex_char (x mod 16)]"

text \<open>The control characters with an escape of their own.\<close>

definition control_escape :: "nat \<Rightarrow> char option" where
  "control_escape r =
     (if r = 7 then Some (CHR ''a'') else if r = 8 then Some (CHR ''b'') else if r = 12 then Some (CHR ''f'')
      else if r = 10 then Some (CHR ''n'') else if r = 13 then Some (CHR ''r'')
      else if r = 9 then Some (CHR ''t'') else if r = 11 then Some (CHR ''v'') else None)"

definition escape_rune :: "(nat \<Rightarrow> bool) \<Rightarrow> nat \<Rightarrow> bytes \<Rightarrow> bytes" where
  "escape_rune table r written =
     (if r = byte quote_char \<or> r = byte backslash then backslash # written
      else if is_print table r then written
      else case control_escape r of
        Some e \<Rightarrow> [backslash, e]
      | None \<Rightarrow>
          if r < 32 \<or> r = 127 then [backslash, CHR ''x''] @ lower_hex 2 r
          else if r < 0x10000 then [backslash, CHR ''u''] @ lower_hex 4 r
          else [backslash, CHR ''U''] @ lower_hex 8 r)"

text \<open>\<open>strconv.Quote\<close> without the quotes around it.\<close>

function escaped :: "(nat \<Rightarrow> bool) \<Rightarrow> bytes \<Rightarrow> bytes" where
  "escaped table s =
     (case s of
        [] \<Rightarrow> []
      | c # r \<Rightarrow>
          (case decode_rune s of
             None \<Rightarrow> [backslash, CHR ''x''] @ lower_hex 2 (byte c) @ escaped table r
           | Some (x, n) \<Rightarrow> escape_rune table x (take n s) @ escaped table (drop (max n 1) s)))"
  by pat_completeness auto
termination
  by (relation "measure (\<lambda>(table, s). length s)") auto

declare escaped.simps [simp del]

definition quoted_limit :: nat where "quoted_limit = 256"

definition quoted_text :: "(nat \<Rightarrow> bool) \<Rightarrow> bytes \<Rightarrow> bytes" where
  "quoted_text table s =
     (if length s \<le> quoted_limit then escaped table s
      else escaped table (take quoted_limit s) @ ''...'')"

section \<open>Decoding members\<close>

definition json_object :: "bytes \<Rightarrow> (bytes \<times> bytes) list option" where
  "json_object raw =
     (let t = trim_json_space raw
      in if t = [] \<or> hd t \<noteq> CHR ''{'' then None
         else case unmarshal_map t of Dec ms \<Rightarrow> Some ms | _ \<Rightarrow> None)"

definition json_string :: "bytes \<Rightarrow> bytes option" where
  "json_string raw =
     (let t = trim_json_space raw
      in if t = [] \<or> hd t \<noteq> quote_char then None else unmarshal_string t)"

section \<open>Unfinished results\<close>

definition result_complete :: bytes where "result_complete = ''complete''"
definition result_input_required :: bytes where "result_input_required = ''input_required''"

definition answerable_input_methods :: "bytes list" where
  "answerable_input_methods = [''elicitation/create'', ''sampling/createMessage'', ''roots/list'']"

record unfinished =
  uf_method :: bytes
  uf_requests :: "(bytes \<times> bytes) list"
  uf_state :: "bytes option"
  uf_result :: bytes
  uf_raw_state :: bytes

datatype result_verdict = Complete | Suspended unfinished | InvalidResult bytes

definition invalid_result :: "bytes \<Rightarrow> bytes \<Rightarrow> result_verdict" where
  "invalid_result m reason =
     InvalidResult (''the server answered ['' @ m @ ''] with an invalid result: '' @ reason)"

definition answerable_input_request :: "bytes \<Rightarrow> bool" where
  "answerable_input_request raw =
     (case json_object raw of
        None \<Rightarrow> False
      | Some members \<Rightarrow>
          (case json_string (env_raw members ''method'') of
             None \<Rightarrow> False | Some m \<Rightarrow> m \<in> set answerable_input_methods))"

text \<open>
  The entries of a map are visited in no particular order: the message of a refused one names the
  first of the model's, any of them in the code.
\<close>

definition input_requests :: "(bytes \<times> bytes) list \<Rightarrow> bytes + (bytes \<times> bytes) list" where
  "input_requests members =
     (case map_of members ''inputRequests'' of
        None \<Rightarrow> Inr []
      | Some stated \<Rightarrow>
          (case json_object stated of
             None \<Rightarrow> Inl ''its input requests are not an object''
           | Some requests \<Rightarrow>
               (case find (\<lambda>(k, r). \<not> answerable_input_request r) requests of
                  Some (k, r) \<Rightarrow> Inl (''its input request ['' @ k @ ''] is not a request this client can answer'')
                | None \<Rightarrow> Inr requests)))"

definition input_required :: "bytes \<Rightarrow> (bytes \<times> bytes) list \<Rightarrow> bytes \<Rightarrow> result_verdict" where
  "input_required m members raw =
     (case (case map_of members ''requestState'' of
              None \<Rightarrow> Inr None
            | Some stated \<Rightarrow>
                (case json_string stated of
                   None \<Rightarrow> Inl ''its state token is not a string''
                 | Some state \<Rightarrow> Inr (Some (state, trim_json_space stated)))) of
        Inl reason \<Rightarrow> invalid_result m reason
      | Inr tk \<Rightarrow>
          (case input_requests members of
             Inl reason \<Rightarrow> invalid_result m reason
           | Inr requests \<Rightarrow>
               if tk = None \<and> requests = []
               then invalid_result m ''it carries neither input requests nor a state token''
               else Suspended \<lparr>uf_method = m, uf_requests = requests, uf_state = map_option fst tk,
                      uf_result = raw, uf_raw_state = (case tk of None \<Rightarrow> [] | Some (_, r) \<Rightarrow> r)\<rparr>))"

definition unfinished_result :: "bytes \<Rightarrow> bytes \<Rightarrow> result_verdict" where
  "unfinished_result m raw =
     (case json_object raw of
        None \<Rightarrow> invalid_result m ''it is not an object''
      | Some members \<Rightarrow>
          (case map_of members ''resultType'' of
             None \<Rightarrow> Complete
           | Some stated \<Rightarrow>
               (case json_string stated of
                  None \<Rightarrow> invalid_result m ''its result type is not a string''
                | Some kind \<Rightarrow>
                    if kind = result_complete then Complete
                    else if kind = result_input_required then input_required m members raw
                    else invalid_result m (''it states the unrecognized result type ['' @ kind @ '']''))))"

section \<open>Continuations\<close>

record continuation =
  ct_state :: "bytes option"
  ct_responses :: "(bytes \<times> any) list"
  ct_raw_state :: bytes

definition continue_with :: "unfinished \<Rightarrow> (bytes \<times> any) list \<Rightarrow> continuation" where
  "continue_with e responses =
     \<lparr>ct_state = uf_state e, ct_responses = responses, ct_raw_state = uf_raw_state e\<rparr>"

definition state_on_the_wire :: "bytes \<Rightarrow> bytes \<Rightarrow> any" where
  "state_on_the_wire state raw = (if json_string raw = Some state then ARaw raw else AStr state)"

definition check_continuation :: "continuation list \<Rightarrow> bytes option" where
  "check_continuation cs =
     (if 1 < length cs then Some ''at most one continuation may be supplied per request'' else None)"

definition apply_continuation ::
  "(bytes \<times> any) list \<Rightarrow> continuation list \<Rightarrow> bytes + (bytes \<times> any) list" where
  "apply_continuation params cs =
     (case check_continuation cs of
        Some e \<Rightarrow> Inl e
      | None \<Rightarrow>
          (case cs of
             [] \<Rightarrow> Inr params
           | c # _ \<Rightarrow>
               (let params1 = (case ct_state c of None \<Rightarrow> params
                   | Some state \<Rightarrow> AList.update ''requestState'' (state_on_the_wire state (ct_raw_state c)) params);
                    params2 = (if ct_responses c = [] then params1
                               else AList.update ''inputResponses'' (AMap (ct_responses c)) params1)
                in Inr params2)))"

section \<open>Quoted text is harmless\<close>

lemma hex_char_printable: "n < 16 \<Longrightarrow> 48 \<le> byte (hex_char n) \<and> byte (hex_char n) < 127"
  by (auto simp: hex_char_def)

lemma lower_hex_length [simp]: "length (lower_hex n x) = n"
  by (induction n x rule: lower_hex.induct) auto

lemma lower_hex_printable: "c \<in> set (lower_hex n x) \<Longrightarrow> 32 \<le> byte c \<and> byte c \<noteq> 127"
proof (induction n x rule: lower_hex.induct)
  case (2 n x)
  then show ?case using hex_char_printable [of "x mod 16"] by auto
qed simp

definition harmless :: "bytes \<Rightarrow> bool" where
  "harmless s = (\<forall>c \<in> set s. 32 \<le> byte c \<and> byte c \<noteq> 127)"

lemma harmless_append [simp]: "harmless (s @ t) \<longleftrightarrow> harmless s \<and> harmless t"
  by (auto simp: harmless_def)

lemma harmless_Cons [simp]: "harmless (c # s) \<longleftrightarrow> 32 \<le> byte c \<and> byte c \<noteq> 127 \<and> harmless s"
  by (auto simp: harmless_def)

lemma harmless_Nil [simp]: "harmless []"
  by (simp add: harmless_def)

lemma harmless_hex [simp]: "harmless (lower_hex n x)"
  by (simp add: harmless_def lower_hex_printable)

lemma rune_taken:
  assumes "decode_rune (c # r) = Some (x, n)"
  shows "x < 128 \<Longrightarrow> take n (c # r) = [c] \<and> byte c = x"
    and "128 \<le> x \<Longrightarrow> harmless (take n (c # r))"
    and "0 < n" "n \<le> length (c # r)" "0x10000 \<le> x \<Longrightarrow> 4 \<le> n" "128 \<le> x \<Longrightarrow> 2 \<le> n"
  using assms
  by (auto simp: decode_rune_def decode_rune2_def decode_rune3_def decode_rune4_def cont_byte_def
      split: if_splits list.splits option.splits)

lemma print_ascii: "x < 128 \<Longrightarrow> is_print table x \<longleftrightarrow> 32 \<le> x \<and> x < 127"
  by (auto simp: is_print_def)

lemma control_low: "control_escape r = Some e \<Longrightarrow> r < 32 \<and> 32 \<le> byte e \<and> byte e \<noteq> 127"
  by (auto simp: control_escape_def split: if_splits)

lemma escape_rune_harmless:
  assumes "decode_rune (c # r) = Some (x, n)"
  shows "harmless (escape_rune table x (take n (c # r)))
    \<and> length (escape_rune table x (take n (c # r))) \<le> 4 * n"
proof (cases "x < 128")
  case True
  note t = rune_taken(1) [OF assms True] and n = rune_taken(3) [OF assms]
  show ?thesis
    using t n print_ascii [OF True, of table] True control_low
    by (auto simp: escape_rune_def split: option.splits)
next
  case False
  then have x: "128 \<le> x" by simp
  note h = rune_taken(2) [OF assms x] and n = rune_taken(6) [OF assms x] rune_taken(5) [OF assms]
  have "control_escape x = None" using control_low x by (cases "control_escape x") fastforce+
  with x have e: "escape_rune table x w = (if is_print table x then w
      else if x < 0x10000 then [backslash, CHR ''u''] @ lower_hex 4 x
      else [backslash, CHR ''U''] @ lower_hex 8 x)" for w
    by (auto simp: escape_rune_def)
  show ?thesis using h n unfolding e by auto
qed

lemma escaped_harmless: "harmless (escaped table s) \<and> length (escaped table s) \<le> 4 * length s"
proof (induction table s rule: escaped.induct)
  case (1 table s)
  show ?case
  proof (cases s)
    case Nil
    then show ?thesis by (subst (1 2) escaped.simps) simp
  next
    case (Cons c r)
    show ?thesis
    proof (cases "decode_rune s")
      case None
      have e: "escaped table s = [backslash, CHR ''x''] @ lower_hex 2 (byte c) @ escaped table r"
        using None Cons by (subst escaped.simps) simp
      show ?thesis unfolding e using 1(1) [OF Cons None] Cons by simp
    next
      case (Some xn)
      obtain x n where x: "decode_rune s = Some (x, n)" using Some by (cases xn) auto
      have e: "escaped table s = escape_rune table x (take n s) @ escaped table (drop (max n 1) s)"
        using x Cons by (subst escaped.simps) simp
      note w = rune_taken(3,4) [of c r x n] and h = escape_rune_harmless [of c r x n table]
      have "length (drop (max n 1) s) = length s - n" using w(1) x Cons by (auto simp: max_def)
      moreover have "harmless (escaped table (drop (max n 1) s))
          \<and> length (escaped table (drop (max n 1) s)) \<le> 4 * length (drop (max n 1) s)"
        using 1(2) [OF Cons] x by simp
      ultimately show ?thesis unfolding e using h w x Cons by auto
    qed
  qed
qed

lemma quoted_text_harmless: "harmless (quoted_text table s) \<and> length (quoted_text table s) \<le> 4 * quoted_limit + 3"
proof -
  have "length (escaped table (take quoted_limit s)) \<le> 4 * quoted_limit"
    using escaped_harmless [of table "take quoted_limit s"] by (auto intro: order_trans)
  then show ?thesis
    using escaped_harmless [of table s] escaped_harmless [of table "take quoted_limit s"]
    by (auto simp: quoted_text_def)
qed


section \<open>The state token comes back as it arrived\<close>

lemma token_trim: "token d r \<Longrightarrow> d \<le> max_nesting \<Longrightarrow> trim_json_space r = r"
proof -
  assume "token d r" "d \<le> max_nesting"
  then obtain v where "reads d r v" by (rule token_parse)
  then have t: "tight r" by (rule token_tight)
  have "\<not> ws_char c" if "\<not> ascii_space c" for c using that by (auto simp: ascii_space_def ws_char_def)
  with t show ?thesis by (intro trim_json_space_token) (auto simp: tight_def)
qed

lemma json_object_members:
  "json_object raw = Some members \<Longrightarrow> raw_map (max_nesting - 1) members"
  using unmarshal_map_raw [of "trim_json_space raw"]
  by (auto simp: json_object_def Let_def split: if_splits decoded.splits)

lemma json_string_token:
  assumes "token d r" "d \<le> max_nesting"
  shows "json_string r = (case json_parse r of Some (JStr b) \<Rightarrow> Some (unquote b) | _ \<Rightarrow> None)"
proof -
  obtain v where v: "json_parse r = Some v" "reads d r v" using token_parse [OF assms] by blast
  have t: "trim_json_space r = r" using token_trim [OF assms] .
  have "r \<noteq> [] \<and> hd r = quote_char \<longleftrightarrow> (\<exists>b. v = JStr b)"
    using reads_shape [OF v(2)] reads_hd [OF v(2)]
    by (cases v) (auto simp: quoted_def is_digit_def dest!: scan_number_local(3))
  then show ?thesis using v(1) t reads_hd [OF v(2)]
    by (auto simp: json_string_def Let_def unmarshal_string_def split: json.splits)
qed

definition encodable :: "(bytes \<times> any) list \<Rightarrow> bool" where
  "encodable ps =
     (distinct (map fst ps) \<and> (\<forall>(k, a) \<in> set ps. utf8 k) \<and> wf_any_members (max_nesting - 1) ps)"

lemma set_update: "set (AList.update k v xs) \<subseteq> insert (k, v) (set xs)"
  by (induction xs) (auto split: if_splits)

lemma encodable_update:
  assumes "encodable ps" "utf8 k" "wf_any (max_nesting - 1) v"
  shows "encodable (AList.update k v ps)"
proof -
  have "(l, a) \<in> set (AList.update k v ps) \<Longrightarrow> (l, a) = (k, v) \<or> (l, a) \<in> set ps" for l a
    using set_update [of k v ps] by blast
  then show ?thesis using assms
    by (fastforce simp: encodable_def distinct_update wf_any_members_all)
qed

lemma encodable_wire:
  assumes "encodable ps"
  obtains out ms where "marshal_wire (AMap ps) = Some out" "token max_nesting out" "unmarshal_map out = Dec ms"
    "\<forall>k. map_of ms k = Option.bind (map_of ps k) marshal_wire" "raw_map (max_nesting - 1) ms"
    "compact_wire out = out"
proof -
  have d: "max_nesting - 1 < max_nesting" "Suc (max_nesting - 1) = max_nesting" by (simp_all add: max_nesting_def)
  from assms have e: "distinct (map fst ps)" "\<forall>(k, a) \<in> set ps. utf8 k" "wf_any_members (max_nesting - 1) ps"
    by (simp_all add: encodable_def)
  show thesis by (rule unmarshal_wire_members [OF e d(1)]) (use that d(2) in auto)
qed

lemma suspended_members:
  assumes "unfinished_result m raw = Suspended e"
  obtains members where "json_object raw = Some members"
    "case map_of members ''requestState'' of
       None \<Rightarrow> uf_state e = None \<and> uf_raw_state e = []
     | Some r \<Rightarrow> json_string r = uf_state e \<and> uf_state e \<noteq> None \<and> uf_raw_state e = trim_json_space r"
    "input_requests members = Inr (uf_requests e)" "uf_state e \<noteq> None \<or> uf_requests e \<noteq> []"
  using assms
  by (auto simp: unfinished_result_def input_required_def invalid_result_def
      split: option.splits sum.splits if_splits prod.splits)

lemma state_echoed:
  assumes sus: "unfinished_result m raw = Suspended e"
    and params: "encodable params" "map_of params ''requestState'' = None"
    and resp: "wf_any (max_nesting - 1) (AMap responses)"
  shows "\<exists>members ps out ms. json_object raw = Some members
    \<and> apply_continuation params [continue_with e responses] = Inr ps
    \<and> marshal_wire (AMap ps) = Some out \<and> unmarshal_map out = Dec ms
    \<and> map_of ms ''requestState'' = map_of members ''requestState''"
proof -
  obtain members where mem: "json_object raw = Some members"
    "case map_of members ''requestState'' of
       None \<Rightarrow> uf_state e = None \<and> uf_raw_state e = []
     | Some r \<Rightarrow> json_string r = uf_state e \<and> uf_state e \<noteq> None \<and> uf_raw_state e = trim_json_space r"
    by (rule suspended_members [OF sus])
  have names: "utf8 ''requestState''" "utf8 ''inputResponses''" by (simp_all)
  define ps1 where "ps1 = (case uf_state e of None \<Rightarrow> params
      | Some s \<Rightarrow> AList.update ''requestState'' (state_on_the_wire s (uf_raw_state e)) params)"
  define ps where "ps = (if responses = [] then ps1 else AList.update ''inputResponses'' (AMap responses) ps1)"
  have app: "apply_continuation params [continue_with e responses] = Inr ps"
    by (cases "uf_state e")
      (simp_all add: apply_continuation_def check_continuation_def continue_with_def ps_def ps1_def)
  have one: "encodable ps1 \<and> Option.bind (map_of ps1 ''requestState'') marshal_wire = map_of members ''requestState''"
  proof (cases "map_of members ''requestState''")
    case None
    then show ?thesis using mem(2) params by (simp add: ps1_def)
  next
    case (Some r)
    have t: "token (max_nesting - 1) r"
      using json_object_members [OF mem(1)] Some by (rule raw_map_member)
    then have tr: "trim_json_space r = r" by (rule token_trim) simp
    obtain s where s: "uf_state e = Some s" "json_string r = Some s" using Some mem(2) by auto
    then obtain b where b: "json_parse r = Some (JStr b)"
      using json_string_token [OF t] by (auto split: option.splits json.splits)
    have w: "state_on_the_wire s (uf_raw_state e) = ARaw r"
      using s Some mem(2) tr by (simp add: state_on_the_wire_def)
    have "marshal_wire (ARaw r) = Some r"
      using marshal_wire_raw [OF t] compact_wire_string [OF b t] by simp
    moreover have "encodable ps1"
      unfolding ps1_def s(1) option.case w by (rule encodable_update [OF params(1) names(1)]) (use t in simp)
    ultimately show ?thesis using Some s(1) w by (simp add: ps1_def update_conv)
  qed
  have enc: "encodable ps"
    using one encodable_update [OF _ names(2) resp] by (auto simp: ps_def)
  obtain out ms where o: "marshal_wire (AMap ps) = Some out" "unmarshal_map out = Dec ms"
    "\<forall>k. map_of ms k = Option.bind (map_of ps k) marshal_wire"
    by (rule encodable_wire [OF enc]) blast
  have "map_of ps ''requestState'' = map_of ps1 ''requestState''" by (simp add: ps_def update_conv)
  then show ?thesis using mem(1) app o one by auto
qed


text \<open>
  A suspended request is repeated with the server's state token exactly as it arrived: the
  \<open>requestState\<close> member the continuation sends is the token of the suspended result byte for byte,
  escapes and all, and is left out when the result stated none.
\<close>

theorem state_token_echoed:
  assumes "unfinished_result m raw = Suspended e" "encodable params" "map_of params ''requestState'' = None"
    and "wf_any (max_nesting - 1) (AMap responses)"
  shows "\<exists>members ps out ms. json_object raw = Some members
    \<and> apply_continuation params [continue_with e responses] = Inr ps
    \<and> marshal_wire (AMap ps) = Some out \<and> unmarshal_map out = Dec ms
    \<and> map_of ms ''requestState'' = map_of members ''requestState''"
  using assms by (rule state_echoed)

definition suspended_raw :: bytes where
  "suspended_raw = ''{\"resultType\":\"input_required\",\"requestState\":\"a'' @ [backslash] @ ''u003cb''
     @ [backslash] @ ''ud800\"}''"

theorem state_token_echoed_witness:
  "\<exists>e members ps out ms. unfinished_result ''tools/call'' suspended_raw = Suspended e
    \<and> json_object suspended_raw = Some members
    \<and> apply_continuation [(''name'', AStr ''x'')] [continue_with e []] = Inr ps
    \<and> marshal_wire (AMap ps) = Some out \<and> unmarshal_map out = Dec ms
    \<and> map_of ms ''requestState'' = map_of members ''requestState''"
proof -
  have "case unfinished_result ''tools/call'' suspended_raw of Suspended _ \<Rightarrow> True | _ \<Rightarrow> False"
    by code_simp
  then obtain e where e: "unfinished_result ''tools/call'' suspended_raw = Suspended e"
    by (cases "unfinished_result ''tools/call'' suspended_raw") simp_all
  have "encodable [(''name'', AStr ''x'')]" "map_of [(''name'', AStr ''x'')] ''requestState'' = None"
    by (simp_all add: encodable_def)
  from state_token_echoed [OF e this, of "[]"] e show ?thesis by (simp add: max_nesting_def)
qed

end
