(* ===== verification/Mirrored.thy ===== *)
theory Mirrored
  imports Integral_Number Header_Value Any_Laws
begin

text \<open>
  The mirrored tool parameters of the HTTP client (\<open>client/mirrored.go\<close>) and the headers that mirror
  a request (\<open>client/headers.go\<close>). A schema is a decoded JSON object; reading it gives the annotated
  properties or the first violation, whose message is the error. The walk over a schema ends because
  the code bounds its depth, and that bound is the measure of the recursion here.
\<close>

section \<open>Loops that stop at the first error\<close>

fun first_violation :: "('a \<Rightarrow> bytes option) \<Rightarrow> 'a list \<Rightarrow> bytes option" where
  "first_violation f [] = None"
| "first_violation f (x # xs) = (case f x of Some e \<Rightarrow> Some e | None \<Rightarrow> first_violation f xs)"

fun collect :: "('a \<Rightarrow> 'e + 'b list) \<Rightarrow> 'a list \<Rightarrow> 'e + 'b list" where
  "collect f [] = Inr []"
| "collect f (x # xs) =
     (case f x of Inl e \<Rightarrow> Inl e
      | Inr ps \<Rightarrow> (case collect f xs of Inl e \<Rightarrow> Inl e | Inr qs \<Rightarrow> Inr (ps @ qs)))"

definition also_collect :: "'e + 'b list \<Rightarrow> 'e + 'b list \<Rightarrow> 'e + 'b list" where
  "also_collect own rest =
     (case own of Inl e \<Rightarrow> Inl e
      | Inr ps \<Rightarrow> (case rest of Inl e \<Rightarrow> Inl e | Inr qs \<Rightarrow> Inr (ps @ qs)))"

definition refuse :: "'e option \<Rightarrow> 'e + 'b list" where
  "refuse violation = (case violation of None \<Rightarrow> Inr [] | Some e \<Rightarrow> Inl e)"

lemma first_violation_cong [fundef_cong]:
  "xs = ys \<Longrightarrow> (\<And>x. x \<in> set ys \<Longrightarrow> f x = g x) \<Longrightarrow> first_violation f xs = first_violation g ys"
  by (induction ys arbitrary: xs) (auto split: option.splits)

lemma collect_cong [fundef_cong]:
  "xs = ys \<Longrightarrow> (\<And>x. x \<in> set ys \<Longrightarrow> f x = g x) \<Longrightarrow> collect f xs = collect g ys"
  by (induction ys arbitrary: xs) (auto split: sum.splits)

lemma first_violation_None: "first_violation f xs = None \<longleftrightarrow> (\<forall>x \<in> set xs. f x = None)"
  by (induction xs) (auto split: option.splits)

lemma collect_Inr:
  "collect f xs = Inr ps \<Longrightarrow> (\<forall>x \<in> set xs. \<exists>qs. f x = Inr qs)
     \<and> (\<forall>p. p \<in> set ps \<longleftrightarrow> (\<exists>x \<in> set xs. \<exists>qs. f x = Inr qs \<and> p \<in> set qs))"
  by (induction xs arbitrary: ps) (fastforce split: sum.splits)+

lemma also_collect_Inr:
  "also_collect a b = Inr ps \<longleftrightarrow> (\<exists>qs rs. a = Inr qs \<and> b = Inr rs \<and> ps = qs @ rs)"
  by (auto simp: also_collect_def split: sum.splits)

lemma refuse_Inr [simp]: "refuse v = Inr ps \<longleftrightarrow> v = None \<and> ps = []"
  by (auto simp: refuse_def split: option.splits)

section \<open>The annotation and the keywords of a schema\<close>

definition mirror_annotation :: bytes where "mirror_annotation = ''x-mcp-header''"
definition mirror_prefix :: bytes where "mirror_prefix = ''Mcp-Param-''"

definition header_token_chars :: bytes where
  "header_token_chars = ''!#$%&'' @ [CHR 0x27] @ ''*+-.^_'' @ [CHR 0x60] @ ''|~0123456789''
     @ ''abcdefghijklmnopqrstuvwxyz'' @ ''ABCDEFGHIJKLMNOPQRSTUVWXYZ''"

definition max_schema_depth :: nat where "max_schema_depth = 256"

definition is_instance_data :: "bytes \<Rightarrow> bool" where
  "is_instance_data key = (key \<in> set [''const'', ''default'', ''enum'', ''examples''])"

definition is_subschema :: "bytes \<Rightarrow> bool" where
  "is_subschema key =
     (key \<in> set [''additionalItems'', ''additionalProperties'', ''allOf'', ''anyOf'', ''contains'',
        ''contentSchema'', ''else'', ''if'', ''items'', ''not'', ''oneOf'', ''prefixItems'',
        ''propertyNames'', ''then'', ''unevaluatedItems'', ''unevaluatedProperties''])"

definition is_subschema_map :: "bytes \<Rightarrow> bool" where
  "is_subschema_map key =
     (key \<in> set [''$defs'', ''definitions'', ''dependencies'', ''dependentSchemas'',
        ''patternProperties'', ''properties''])"

definition is_name_list :: "bytes \<Rightarrow> bool" where
  "is_name_list key = (key \<in> set [''dependentRequired''])"

definition is_header_token :: "bytes \<Rightarrow> bool" where
  "is_header_token value = (value \<noteq> [] \<and> list_all (\<lambda>c. c \<in> set header_token_chars) value)"

section \<open>Messages\<close>

definition pointer_escape :: "char \<Rightarrow> bytes" where
  "pointer_escape c = (if c = CHR ''~'' then ''~0'' else if c = CHR ''/'' then ''~1'' else [c])"

definition render_schema_path :: "bytes list \<Rightarrow> bytes" where
  "render_schema_path path = concat (map (\<lambda>s. CHR ''/'' # concat (map pointer_escape s)) path)"

definition schema_place :: "bytes list \<Rightarrow> bytes" where
  "schema_place path =
     (if render_schema_path path = [] then ''the schema root''
      else ''['' @ render_schema_path path @ '']'')"

definition unreachable_annotation :: "bytes list \<Rightarrow> bytes" where
  "unreachable_annotation path =
     ''an ['' @ mirror_annotation @ ''] annotation on '' @ schema_place path
     @ '' sits outside the statically reachable properties''"

definition too_deep :: "bytes list \<Rightarrow> bytes" where
  "too_deep path =
     ''the schema below '' @ schema_place path @ '' is nested deeper than [''
     @ nat_to_dec max_schema_depth @ ''] levels''"

definition describe_kind :: "bytes \<Rightarrow> bytes" where
  "describe_kind kind = (if kind = ''integer'' then ''an [integer]'' else ''a ['' @ kind @ '']'')"

section \<open>Violations away from the chain of properties\<close>

text \<open>The keys of an object are visited in sorted order; a decoded object has each key once.\<close>

definition sorted_members :: "(bytes \<times> any) list \<Rightarrow> (bytes \<times> any) list" where
  "sorted_members ms = sort_key fst ms"

lemma set_sorted_members [simp]: "set (sorted_members ms) = set ms"
  by (simp add: sorted_members_def)

function value_violation :: "any \<Rightarrow> bytes list \<Rightarrow> nat \<Rightarrow> bytes option" where
  "value_violation value path depth =
     (if max_schema_depth < depth then Some (too_deep path)
      else case value of
        AMap ms \<Rightarrow>
          first_violation
            (\<lambda>(key, v). if key = mirror_annotation then Some (unreachable_annotation path)
                        else value_violation v path (Suc depth))
            (sorted_members ms)
      | AList vs \<Rightarrow> first_violation (\<lambda>v. value_violation v path (Suc depth)) vs
      | _ \<Rightarrow> None)"
  by pat_completeness auto
termination
  by (relation "measure (\<lambda>(value, path, depth). Suc max_schema_depth - depth)") auto

declare value_violation.simps [simp del]

definition named_members_violation ::
  "(bytes \<times> any) list \<Rightarrow> bytes list \<Rightarrow> nat \<Rightarrow> (any \<Rightarrow> bytes list \<Rightarrow> nat \<Rightarrow> bytes option) \<Rightarrow> bytes option" where
  "named_members_violation members path depth read =
     first_violation (\<lambda>(name, v). read v path (Suc depth)) (sorted_members members)"

lemma named_members_violation_cong [fundef_cong]:
  assumes "ms = ms'" "path = path'" "depth = depth'"
    and "\<And>v. v \<in> snd ` set ms' \<Longrightarrow> read v path' (Suc depth') = read' v path' (Suc depth')"
  shows "named_members_violation ms path depth read = named_members_violation ms' path' depth' read'"
  unfolding named_members_violation_def using assms by (intro first_violation_cong) force+

function (sequential) keyword_violation :: "bytes \<Rightarrow> any \<Rightarrow> bytes list \<Rightarrow> nat \<Rightarrow> bytes option"
and subschema_violation :: "any \<Rightarrow> bytes list \<Rightarrow> nat \<Rightarrow> bytes option"
and schema_violation :: "(bytes \<times> any) list \<Rightarrow> bytes list \<Rightarrow> nat \<Rightarrow> bytes option" where
  "keyword_violation key value path depth =
     (if is_instance_data key then None
      else if is_subschema key then subschema_violation value path depth
      else case value of
        AMap members \<Rightarrow>
          if is_subschema_map key
          then named_members_violation members path depth (\<lambda>v p d. subschema_violation v p d)
          else if is_name_list key then named_members_violation members path depth value_violation
          else value_violation value path depth
      | _ \<Rightarrow> value_violation value path depth)"
| "subschema_violation value path depth =
     (if max_schema_depth < depth then Some (too_deep path)
      else case value of
        AMap node \<Rightarrow> schema_violation node path depth
      | AList node \<Rightarrow> first_violation (\<lambda>member. subschema_violation member path (Suc depth)) node
      | _ \<Rightarrow> None)"
| "schema_violation schema path depth =
     (if max_schema_depth < depth then Some (too_deep path)
      else first_violation
             (\<lambda>(key, v). if key = mirror_annotation then Some (unreachable_annotation path)
                         else keyword_violation key v path (Suc depth))
             (sorted_members schema))"
  by pat_completeness auto
termination
  by (relation "inv_image (less_than <*lex*> less_than)
      (\<lambda>x. case x of Inl (key, value, path, depth) \<Rightarrow> (max_schema_depth + 2 - depth, 2::nat)
         | Inr (Inl (value, path, depth)) \<Rightarrow> (max_schema_depth + 2 - depth, 1)
         | Inr (Inr (schema, path, depth)) \<Rightarrow> (max_schema_depth + 2 - depth, 0))") auto

declare keyword_violation.simps [simp del] subschema_violation.simps [simp del]
  schema_violation.simps [simp del]


section \<open>The annotated properties\<close>

record mirrored_parameter =
  mp_path :: "bytes list"
  mp_name :: bytes
  mp_kind :: bytes

definition param_header :: "mirrored_parameter \<Rightarrow> bytes" where
  "param_header p = mirror_prefix @ mp_name p"

definition string_at :: "(bytes \<times> any) list \<Rightarrow> bytes \<Rightarrow> bytes option" where
  "string_at ms key = (case map_of ms key of Some (AStr s) \<Rightarrow> Some s | _ \<Rightarrow> None)"

definition mirrored_parameter_of :: "(bytes \<times> any) list \<Rightarrow> bytes list \<Rightarrow> bytes + mirrored_parameter list" where
  "mirrored_parameter_of member path =
     (case string_at member mirror_annotation of
        None \<Rightarrow> Inl (''the ['' @ mirror_annotation @ ''] value on ['' @ render_schema_path path
                     @ ''] is not a valid header name token'')
      | Some name \<Rightarrow>
          if \<not> is_header_token name
          then Inl (''the ['' @ mirror_annotation @ ''] value on ['' @ render_schema_path path
                     @ ''] is not a valid header name token'')
          else let kind = (case string_at member ''type'' of None \<Rightarrow> [] | Some k \<Rightarrow> k)
               in if kind \<in> set [''string'', ''integer'', ''boolean'']
                  then Inr [\<lparr>mp_path = path, mp_name = name, mp_kind = kind\<rparr>]
                  else Inl (''the ['' @ mirror_annotation @ ''] annotation on ['' @ render_schema_path path
                     @ ''] must sit on a string, integer, or boolean''))"

text \<open>
  \<open>mirroredIn\<close>. A property whose schema is an object is read itself when it is annotated, and then
  walked; everything else on the way must carry no annotation.
\<close>

function mirrored_in ::
  "(bytes \<times> any) list \<Rightarrow> bytes list \<Rightarrow> bool \<Rightarrow> nat \<Rightarrow> bytes + mirrored_parameter list" where
  "mirrored_in schema path consumed depth =
     (if max_schema_depth < depth then Inl (too_deep path)
      else collect
        (\<lambda>(key, value).
           if key = mirror_annotation
           then (if consumed then Inr [] else Inl (unreachable_annotation path))
           else if is_instance_data key then Inr []
           else case (if key = ''properties'' then value else ANil) of
             AMap properties \<Rightarrow>
               collect
                 (\<lambda>(property, member).
                    case member of
                      AMap ms \<Rightarrow>
                        also_collect
                          (if map_of ms mirror_annotation \<noteq> None
                           then mirrored_parameter_of ms (path @ [property]) else Inr [])
                          (mirrored_in ms (path @ [property]) True (Suc depth))
                    | _ \<Rightarrow> refuse (subschema_violation member (path @ [property]) (Suc depth)))
                 (sorted_members properties)
           | _ \<Rightarrow> refuse (keyword_violation key value path (Suc depth)))
        (sorted_members schema))"
  by pat_completeness auto
termination
  by (relation "measure (\<lambda>(schema, path, consumed, depth). Suc max_schema_depth - depth)") auto

declare mirrored_in.simps [simp del]

text \<open>\<open>strings.ToLower\<close>, on the ASCII text a header token is.\<close>

definition lower_char :: "char \<Rightarrow> char" where
  "lower_char c = (if 65 \<le> byte c \<and> byte c \<le> 90 then char_of (byte c + 32) else c)"

fun duplicate_name :: "bytes list \<Rightarrow> mirrored_parameter list \<Rightarrow> bytes option" where
  "duplicate_name seen [] = None"
| "duplicate_name seen (p # ps) =
     (if map lower_char (mp_name p) \<in> set seen then Some (mp_name p)
      else duplicate_name (map lower_char (mp_name p) # seen) ps)"

definition parse_mirrored_parameters :: "(bytes \<times> any) list \<Rightarrow> bytes + mirrored_parameter list" where
  "parse_mirrored_parameters input_schema =
     (case mirrored_in input_schema [] False 0 of
        Inl e \<Rightarrow> Inl e
      | Inr params \<Rightarrow>
          (case duplicate_name [] params of
             None \<Rightarrow> Inr params
           | Some name \<Rightarrow> Inl (''the ['' @ mirror_annotation @ ''] value ['' @ name
                               @ ''] is used more than once'')))"

section \<open>What an accepted schema says\<close>

text \<open>
  The schema of the property at a path: down through \<open>properties\<close> alone.
\<close>

fun property_at :: "(bytes \<times> any) list \<Rightarrow> bytes list \<Rightarrow> (bytes \<times> any) list option" where
  "property_at schema [] = Some schema"
| "property_at schema (p # path) =
     (case map_of schema ''properties'' of
        Some (AMap properties) \<Rightarrow>
          (case map_of properties p of Some (AMap ms) \<Rightarrow> property_at ms path | _ \<Rightarrow> None)
      | _ \<Rightarrow> None)"

fun keys_once :: "any \<Rightarrow> bool" where
  "keys_once (AMap ms) = (distinct (map fst ms) \<and> list_all (\<lambda>(k, v). keys_once v) ms)"
| "keys_once (AList vs) = list_all keys_once vs"
| "keys_once _ = True"

text \<open>A parameter the annotation of a property describes.\<close>

definition describes :: "(bytes \<times> any) list \<Rightarrow> mirrored_parameter \<Rightarrow> bool" where
  "describes m p =
     (string_at m mirror_annotation = Some (mp_name p) \<and> string_at m ''type'' = Some (mp_kind p)
      \<and> is_header_token (mp_name p) \<and> mp_kind p \<in> set [''string'', ''integer'', ''boolean''])"

lemma parameter_of_Inr:
  assumes "mirrored_parameter_of m path = Inr ps"
  shows "\<exists>p. ps = [p] \<and> mp_path p = path \<and> describes m p"
  using assms
  by (auto simp: mirrored_parameter_of_def describes_def Let_def split: option.splits if_splits)

lemma describes_unique: "describes m p \<Longrightarrow> describes m q \<Longrightarrow> mp_path p = mp_path q \<Longrightarrow> p = q"
  by (simp add: describes_def)

lemma describes_annotated: "describes m p \<Longrightarrow> map_of m mirror_annotation \<noteq> None"
  by (auto simp: describes_def string_at_def split: option.splits)


definition param_under :: "(bytes \<times> any) list \<Rightarrow> bytes list \<Rightarrow> mirrored_parameter \<Rightarrow> bool" where
  "param_under schema path p =
     (\<exists>q m. q \<noteq> [] \<and> mp_path p = path @ q \<and> property_at schema q = Some m \<and> describes m p)"

lemma param_under_step:
  "param_under schema path p \<longleftrightarrow>
     (\<exists>props x ms. map_of schema ''properties'' = Some (AMap props) \<and> map_of props x = Some (AMap ms)
        \<and> (mp_path p = path @ [x] \<and> describes ms p \<or> param_under ms (path @ [x]) p))"
proof
  assume "param_under schema path p"
  then obtain x q m where q: "mp_path p = path @ x # q" "property_at schema (x # q) = Some m" "describes m p"
    unfolding param_under_def by (metis neq_Nil_conv)
  then obtain props ms where s: "map_of schema ''properties'' = Some (AMap props)"
    "map_of props x = Some (AMap ms)" "property_at ms q = Some m"
    by (auto split: option.splits any.splits)
  moreover have "mp_path p = path @ [x] \<and> describes ms p \<or> param_under ms (path @ [x]) p"
    using q s(3) unfolding param_under_def by (cases q) auto
  ultimately show "\<exists>props x ms. map_of schema ''properties'' = Some (AMap props)
      \<and> map_of props x = Some (AMap ms)
      \<and> (mp_path p = path @ [x] \<and> describes ms p \<or> param_under ms (path @ [x]) p)" by blast
next
  assume "\<exists>props x ms. map_of schema ''properties'' = Some (AMap props) \<and> map_of props x = Some (AMap ms)
        \<and> (mp_path p = path @ [x] \<and> describes ms p \<or> param_under ms (path @ [x]) p)"
  then obtain props x ms where s: "map_of schema ''properties'' = Some (AMap props)"
    "map_of props x = Some (AMap ms)"
    "mp_path p = path @ [x] \<and> describes ms p \<or> param_under ms (path @ [x]) p" by blast
  from s(3) obtain q m where "mp_path p = path @ x # q" "property_at ms q = Some m" "describes m p"
  proof
    assume "mp_path p = path @ [x] \<and> describes ms p"
    then show ?thesis using that [of "[]" ms] by simp
  next
    assume "param_under ms (path @ [x]) p"
    then show ?thesis unfolding param_under_def using that by auto
  qed
  with s(1,2) show "param_under schema path p"
    unfolding param_under_def by (intro exI [of _ "x # q"] exI [of _ m]) simp
qed

text \<open>Members of an object whose keys are distinct, one level of the walk and its recursion.\<close>

lemma member_iff: "distinct (map fst ms) \<Longrightarrow> (k, v) \<in> set ms \<longleftrightarrow> map_of ms k = Some v"
  by (simp add: map_of_eq_Some_iff)

lemma keys_once_at: "keys_once (AMap ms) \<Longrightarrow> map_of ms k = Some v \<Longrightarrow> keys_once v"
  by (auto simp: list_all_iff dest: map_of_SomeD)

lemma properties_read:
  assumes once: "keys_once (AMap props)"
    and c: "collect (\<lambda>(x, member). case member of
          AMap ms \<Rightarrow> also_collect (if map_of ms mirror_annotation \<noteq> None
              then mirrored_parameter_of ms (path @ [x]) else Inr []) (sub ms (path @ [x]))
        | _ \<Rightarrow> refuse (viol member (path @ [x]))) (sorted_members props) = Inr ps"
    and sub: "\<And>ms x qs p. map_of props x = Some (AMap ms) \<Longrightarrow> sub ms (path @ [x]) = Inr qs \<Longrightarrow>
      p \<in> set qs \<longleftrightarrow> param_under ms (path @ [x]) p"
  shows "p \<in> set ps \<longleftrightarrow> (\<exists>x ms. map_of props x = Some (AMap ms)
        \<and> (mp_path p = path @ [x] \<and> describes ms p \<or> param_under ms (path @ [x]) p))"
    and "map_of props x = Some (AMap ms) \<Longrightarrow>
      (\<exists>qs. sub ms (path @ [x]) = Inr qs) \<and> (map_of ms mirror_annotation \<noteq> None \<longrightarrow> (\<exists>p. describes ms p))"
proof -
  define g where "g = (\<lambda>(x, member). case member of
          AMap ms \<Rightarrow> also_collect (if map_of ms mirror_annotation \<noteq> None
              then mirrored_parameter_of ms (path @ [x]) else Inr []) (sub ms (path @ [x]))
        | _ \<Rightarrow> refuse (viol member (path @ [x])))"
  have d: "distinct (map fst props)" using once by simp
  note r = collect_Inr [OF c, folded g_def]
  have all: "\<exists>qs. g (x, m) = Inr qs" if "map_of props x = Some m" for x m
    using r that map_of_SomeD [OF that] by auto
  have mem: "p \<in> set ps \<longleftrightarrow> (\<exists>x m qs. map_of props x = Some m \<and> g (x, m) = Inr qs \<and> p \<in> set qs)"
    for p using r member_iff [OF d] by fastforce
  have obj: "p \<in> set qs \<longleftrightarrow> mp_path p = path @ [x] \<and> describes ms p \<or> param_under ms (path @ [x]) p"
    if x: "map_of props x = Some (AMap ms)" and g: "g (x, AMap ms) = Inr qs" for x ms qs p
  proof -
    obtain own rest where o: "(if map_of ms mirror_annotation \<noteq> None
        then mirrored_parameter_of ms (path @ [x]) else Inr []) = Inr own"
      "sub ms (path @ [x]) = Inr rest" "qs = own @ rest"
      using g by (auto simp: g_def also_collect_Inr)
    have "p \<in> set own \<longleftrightarrow> mp_path p = path @ [x] \<and> describes ms p"
    proof (cases "map_of ms mirror_annotation = None")
      case True
      with o(1) show ?thesis by (auto dest: describes_annotated)
    next
      case False
      with o(1) have "mirrored_parameter_of ms (path @ [x]) = Inr own" by simp
      from parameter_of_Inr [OF this] obtain q where "own = [q]" "mp_path q = path @ [x]" "describes ms q"
        by blast
      then show ?thesis using describes_unique by auto
    qed
    with sub [OF x o(2)] o(3) show ?thesis by simp
  qed
  show "p \<in> set ps \<longleftrightarrow> (\<exists>x ms. map_of props x = Some (AMap ms)
        \<and> (mp_path p = path @ [x] \<and> describes ms p \<or> param_under ms (path @ [x]) p))"
  proof
    assume "p \<in> set ps"
    then obtain x m qs where m: "map_of props x = Some m" "g (x, m) = Inr qs" "p \<in> set qs"
      using mem by blast
    then obtain ms where "m = AMap ms" by (cases m) (auto simp: g_def)
    with m obj show "\<exists>x ms. map_of props x = Some (AMap ms)
        \<and> (mp_path p = path @ [x] \<and> describes ms p \<or> param_under ms (path @ [x]) p)" by blast
  next
    assume "\<exists>x ms. map_of props x = Some (AMap ms)
        \<and> (mp_path p = path @ [x] \<and> describes ms p \<or> param_under ms (path @ [x]) p)"
    then show "p \<in> set ps" using mem obj all by blast
  qed
  show "(\<exists>qs. sub ms (path @ [x]) = Inr qs) \<and> (map_of ms mirror_annotation \<noteq> None \<longrightarrow> (\<exists>p. describes ms p))"
    if "map_of props x = Some (AMap ms)"
    using all [OF that] parameter_of_Inr by (fastforce simp: g_def also_collect_Inr)
qed


lemma mirrored_in_exact:
  assumes "keys_once (AMap schema)" "mirrored_in schema path consumed depth = Inr ps"
  shows "(\<forall>p. p \<in> set ps \<longleftrightarrow> param_under schema path p)
    \<and> (\<forall>q m. q \<noteq> [] \<longrightarrow> property_at schema q = Some m \<longrightarrow> map_of m mirror_annotation \<noteq> None
        \<longrightarrow> (\<exists>p. describes m p))
    \<and> (\<not> consumed \<longrightarrow> map_of schema mirror_annotation = None)"
  using assms
proof (induction "Suc max_schema_depth - depth" arbitrary: schema path consumed depth ps rule: less_induct)
  case less
  note once = less.prems(1) and read = less.prems(2)
  define f where "f = (\<lambda>(key, value).
           if key = mirror_annotation
           then (if consumed then Inr [] else Inl (unreachable_annotation path))
           else if is_instance_data key then Inr []
           else case (if key = ''properties'' then value else ANil) of
             AMap properties \<Rightarrow>
               collect
                 (\<lambda>(property, member).
                    case member of
                      AMap ms \<Rightarrow>
                        also_collect
                          (if map_of ms mirror_annotation \<noteq> None
                           then mirrored_parameter_of ms (path @ [property]) else Inr [])
                          (mirrored_in ms (path @ [property]) True (Suc depth))
                    | _ \<Rightarrow> refuse (subschema_violation member (path @ [property]) (Suc depth)))
                 (sorted_members properties)
           | _ \<Rightarrow> refuse (keyword_violation key value path (Suc depth)))"
  have fits: "depth \<le> max_schema_depth" and c: "collect f (sorted_members schema) = Inr ps"
    using read unfolding f_def by (subst (asm) mirrored_in.simps; simp split: if_splits)+
  have smaller: "Suc max_schema_depth - Suc depth < Suc max_schema_depth - depth" using fits by simp
  have dist: "distinct (map fst schema)" using once by simp
  note r = collect_Inr [OF c]
  have ready: "\<not> is_instance_data ''properties''" "''properties'' \<noteq> mirror_annotation"
    by (simp_all add: is_instance_data_def mirror_annotation_def)
  have ih: "(\<forall>p. p \<in> set rs \<longleftrightarrow> param_under ms (path @ [x]) p)
      \<and> (\<forall>q m. q \<noteq> [] \<longrightarrow> property_at ms q = Some m \<longrightarrow> map_of m mirror_annotation \<noteq> None
        \<longrightarrow> (\<exists>p. describes m p))"
    if "map_of schema ''properties'' = Some (AMap props)" "map_of props x = Some (AMap ms)"
      "mirrored_in ms (path @ [x]) True (Suc depth) = Inr rs" for props ms x rs
    using less.hyps [OF smaller keys_once_at [OF keys_once_at [OF once that(1)] that(2)] that(3)] by blast
  have props: "(\<exists>qs. f (''properties'', AMap props) = Inr qs \<and> p \<in> set qs) \<longleftrightarrow>
      (\<exists>x ms. map_of props x = Some (AMap ms)
        \<and> (mp_path p = path @ [x] \<and> describes ms p \<or> param_under ms (path @ [x]) p))"
    and subs: "map_of props x = Some (AMap ms) \<Longrightarrow>
      (\<exists>qs. mirrored_in ms (path @ [x]) True (Suc depth) = Inr qs)
      \<and> (map_of ms mirror_annotation \<noteq> None \<longrightarrow> (\<exists>p. describes ms p))"
    if a: "map_of schema ''properties'' = Some (AMap props)" for props p x ms
  proof -
    obtain qs where qs: "f (''properties'', AMap props) = Inr qs"
      using r map_of_SomeD [OF a] by auto
    have col: "collect (\<lambda>(x, member). case member of
          AMap ms \<Rightarrow> also_collect (if map_of ms mirror_annotation \<noteq> None
              then mirrored_parameter_of ms (path @ [x]) else Inr [])
              (mirrored_in ms (path @ [x]) True (Suc depth))
        | _ \<Rightarrow> refuse (subschema_violation member (path @ [x]) (Suc depth))) (sorted_members props) = Inr qs"
      using qs ready unfolding f_def by simp
    note pr = properties_read [where sub = "\<lambda>ms p. mirrored_in ms p True (Suc depth)",
        OF keys_once_at [OF once a] col ih [OF a, THEN conjunct1, rule_format]]
    show "(\<exists>qs. f (''properties'', AMap props) = Inr qs \<and> p \<in> set qs) \<longleftrightarrow>
      (\<exists>x ms. map_of props x = Some (AMap ms)
        \<and> (mp_path p = path @ [x] \<and> describes ms p \<or> param_under ms (path @ [x]) p))"
      using qs pr(1) by simp
    show "(\<exists>qs. mirrored_in ms (path @ [x]) True (Suc depth) = Inr qs)
      \<and> (map_of ms mirror_annotation \<noteq> None \<longrightarrow> (\<exists>p. describes ms p))"
      if "map_of props x = Some (AMap ms)" using pr(2) [OF _ _ that] by blast
  qed
  have "p \<in> set ps \<longleftrightarrow> param_under schema path p" for p
  proof -
    have other: "f (k, v) = Inr qs \<Longrightarrow> p \<in> set qs \<Longrightarrow> k = ''properties'' \<and> (\<exists>props. v = AMap props)" for k v qs
      by (auto simp: f_def split: if_splits any.splits)
    have "p \<in> set ps \<longleftrightarrow> (\<exists>k v qs. map_of schema k = Some v \<and> f (k, v) = Inr qs \<and> p \<in> set qs)"
      using r member_iff [OF dist] by fastforce
    also have "\<dots> \<longleftrightarrow> (\<exists>props. map_of schema ''properties'' = Some (AMap props)
        \<and> (\<exists>qs. f (''properties'', AMap props) = Inr qs \<and> p \<in> set qs))"
      using other by blast
    also have "\<dots> \<longleftrightarrow> param_under schema path p"
      unfolding param_under_step [of schema path p] by (intro iffI; elim exE conjE; (frule props [of _ p]; blast))
    finally show ?thesis .
  qed
  moreover have "\<exists>p. describes m p"
    if q: "q \<noteq> []" "property_at schema q = Some m" "map_of m mirror_annotation \<noteq> None" for q m
  proof -
    obtain x t where x: "q = x # t" using q(1) by (cases q) auto
    with q(2) obtain props ms where a: "map_of schema ''properties'' = Some (AMap props)"
      "map_of props x = Some (AMap ms)" "property_at ms t = Some m"
      by (auto split: option.splits any.splits)
    obtain qs where "mirrored_in ms (path @ [x]) True (Suc depth) = Inr qs"
      using subs [OF a(1,2)] by blast
    from ih [OF a(1,2) this] subs [OF a(1,2)] a(3) q(3) show ?thesis by (cases "t = []") auto
  qed
  moreover have "map_of schema mirror_annotation = None" if "\<not> consumed"
  proof (rule ccontr)
    assume "map_of schema mirror_annotation \<noteq> None"
    then obtain v where "(mirror_annotation, v) \<in> set schema" by (auto dest: map_of_SomeD)
    then have "\<exists>qs. f (mirror_annotation, v) = Inr qs" using r by auto
    then show False using that by (simp add: f_def)
  qed
  ultimately show ?case by blast
qed


abbreviation folded_name :: "mirrored_parameter \<Rightarrow> bytes" where
  "folded_name p \<equiv> map lower_char (mp_name p)"

lemma duplicate_name_None:
  "duplicate_name seen ps = None \<longleftrightarrow>
     distinct (map folded_name ps) \<and> (\<forall>p \<in> set ps. folded_name p \<notin> set seen)"
proof (induction ps arbitrary: seen)
  case (Cons p ps)
  then show ?case by (simp add: image_iff) metis
qed simp

lemma parse_mirrored:
  assumes "keys_once (AMap schema)" "parse_mirrored_parameters schema = Inr ps"
  shows "p \<in> set ps \<longleftrightarrow>
      (\<exists>m. mp_path p \<noteq> [] \<and> property_at schema (mp_path p) = Some m \<and> describes m p)"
    and "q \<noteq> [] \<Longrightarrow> property_at schema q = Some m \<Longrightarrow> map_of m mirror_annotation \<noteq> None \<Longrightarrow>
      \<exists>p \<in> set ps. mp_path p = q"
    and "distinct (map folded_name ps)" "map_of schema mirror_annotation = None"
proof -
  have read: "mirrored_in schema [] False 0 = Inr ps" and dup: "duplicate_name [] ps = None"
    using assms(2) by (auto simp: parse_mirrored_parameters_def split: sum.splits option.splits)
  note r = mirrored_in_exact [OF assms(1) read]
  show mem: "p \<in> set ps \<longleftrightarrow>
      (\<exists>m. mp_path p \<noteq> [] \<and> property_at schema (mp_path p) = Some m \<and> describes m p)" for p
    using r by (auto simp: param_under_def)
  show "\<exists>p \<in> set ps. mp_path p = q"
    if q: "q \<noteq> []" "property_at schema q = Some m" "map_of m mirror_annotation \<noteq> None" for q m
  proof -
    obtain p where "describes m p" using r q by blast
    then have "describes m (p\<lparr>mp_path := q\<rparr>)" by (simp add: describes_def)
    with mem [of "p\<lparr>mp_path := q\<rparr>"] q show ?thesis by (intro bexI [of _ "p\<lparr>mp_path := q\<rparr>"]) auto
  qed
  show "distinct (map folded_name ps)" using dup by (simp add: duplicate_name_None)
  show "map_of schema mirror_annotation = None" using r by simp
qed

section \<open>The values a call mirrors\<close>

text \<open>Decoding with \<open>UseNumber\<close>: a number stays its literal, whatever its magnitude.\<close>

fun number_any :: "json \<Rightarrow> any"
and number_elems :: "(bytes \<times> json) list \<Rightarrow> any list"
and number_members :: "(bytes \<times> bytes \<times> json) list \<Rightarrow> (bytes \<times> any) list" where
  "number_any JNull = ANil"
| "number_any (JBool b) = ABool b"
| "number_any (JNum n) = ANum n"
| "number_any (JStr b) = AStr (unquote b)"
| "number_any (JArr vs) = AList (number_elems vs)"
| "number_any (JObj ms) = AMap (dedup (number_members ms))"
| "number_elems [] = []"
| "number_elems ((r, v) # vs) = number_any v # number_elems vs"
| "number_members [] = []"
| "number_members ((k, r, v) # ms) = (unquote k, number_any v) # number_members ms"

text \<open>
  \<open>json.Decoder.Decode\<close> reads the first value of its input. The arguments come out of the \<open>params\<close>
  of the frame as it was encoded.
\<close>

definition msg_not_object :: bytes where
  "msg_not_object = ''the call arguments do not encode to a JSON object''"

definition encoded_arguments :: "bytes \<Rightarrow> bytes + (bytes \<times> any) list" where
  "encoded_arguments params =
     (let t = skip_ws params
      in case pv (length t) max_nesting t of
           Some (JObj ms, rest) \<Rightarrow>
             (case map_of (dedup (number_members ms)) ''arguments'' of
                Some (AMap arguments) \<Rightarrow> Inr arguments
              | _ \<Rightarrow> Inl msg_not_object)
         | _ \<Rightarrow> Inl msg_not_object)"

fun value_at_path :: "any \<Rightarrow> bytes list \<Rightarrow> any option" where
  "value_at_path current [] = Some current"
| "value_at_path current (segment # path) =
     (case current of
        AMap members \<Rightarrow>
          (case map_of members segment of None \<Rightarrow> None | Some v \<Rightarrow> value_at_path v path)
      | _ \<Rightarrow> None)"

text \<open>\<open>None\<close> is the panic \<open>mirroredInteger\<close> could have, \<open>Some None\<close> a value of another type.\<close>

definition stringify :: "mirrored_parameter \<Rightarrow> any \<Rightarrow> bytes option option" where
  "stringify p value =
     (if mp_kind p = ''string'' then Some (case value of AStr text \<Rightarrow> Some text | _ \<Rightarrow> None)
      else if mp_kind p = ''boolean''
      then Some (case value of ABool flag \<Rightarrow> Some (if flag then ''true'' else ''false'') | _ \<Rightarrow> None)
      else mirrored_integer value)"

definition is_base64_header_value :: "bytes \<Rightarrow> bool" where
  "is_base64_header_value v = (has_prefix v base64_prefix \<and> has_suffix v base64_suffix)"

definition field_value_at :: "bytes \<Rightarrow> nat \<Rightarrow> bool" where
  "field_value_at v i =
     (let c = v ! i; edge = (i = 0 \<or> i = length v - 1)
      in (0x21 \<le> byte c \<and> byte c \<le> 0x7E) \<or> (\<not> edge \<and> (c = CHR '' '' \<or> byte c = 9)))"

definition is_printable_field_value :: "bytes \<Rightarrow> bool" where
  "is_printable_field_value v = (v \<noteq> [] \<and> list_all (field_value_at v) [0 ..< length v])"

definition client_encode_header_value :: "bytes \<Rightarrow> bytes" where
  "client_encode_header_value v =
     (if \<not> is_base64_header_value v \<and> is_printable_field_value v then v
      else base64_prefix @ b64_encode v @ base64_suffix)"

definition not_mirrored :: "mirrored_parameter \<Rightarrow> bytes" where
  "not_mirrored p =
     ''the ['' @ render_schema_path (mp_path p) @ ''] argument cannot be mirrored into the [''
     @ param_header p @ ''] header as '' @ describe_kind (mp_kind p)"

fun render_headers ::
  "any \<Rightarrow> mirrored_parameter list \<Rightarrow> (bytes \<times> bytes) list \<Rightarrow> (bytes + (bytes \<times> bytes) list) option" where
  "render_headers values [] out = Some (Inr out)"
| "render_headers values (p # ps) out =
     (case value_at_path values (mp_path p) of
        None \<Rightarrow> render_headers values ps out
      | Some v \<Rightarrow>
          if v = ANil then render_headers values ps out
          else (case stringify p v of
                  None \<Rightarrow> None
                | Some None \<Rightarrow> Some (Inl (not_mirrored p))
                | Some (Some text) \<Rightarrow>
                    render_headers values ps
                      (AList.update (param_header p) (client_encode_header_value text) out)))"

definition mirrored_param_headers ::
  "mirrored_parameter list \<Rightarrow> bytes \<Rightarrow> (bytes + (bytes \<times> bytes) list) option" where
  "mirrored_param_headers params encoded_params =
     (if params = [] then Some (Inr [])
      else case encoded_arguments encoded_params of
        Inl e \<Rightarrow> Some (Inl e)
      | Inr arguments \<Rightarrow> render_headers (AMap arguments) params [])"

section \<open>The two encoders of header values agree\<close>

lemma field_value_middle:
  "list_all (field_value_at v) [0 ..< length v] \<longleftrightarrow>
     list_all (\<lambda>c. header_visible c \<or> header_spacing c) v
     \<and> (v \<noteq> [] \<longrightarrow> \<not> header_spacing (hd v) \<and> \<not> header_spacing (last v))"
proof -
  have f: "field_value_at v i \<longleftrightarrow> header_visible (v ! i) \<or>
      (i \<noteq> 0 \<and> i \<noteq> length v - 1 \<and> header_spacing (v ! i))" for i
    by (auto simp: field_value_at_def header_visible_def header_spacing_def Let_def)
  have nv: "header_spacing c \<Longrightarrow> \<not> header_visible c" for c
    by (auto simp: header_visible_def header_spacing_def)
  have "list_all (field_value_at v) [0 ..< length v] \<longleftrightarrow> (\<forall>i < length v. field_value_at v i)"
    by (auto simp: list_all_iff)
  also have "\<dots> \<longleftrightarrow> (\<forall>i < length v. header_visible (v ! i) \<or> header_spacing (v ! i))
     \<and> (v \<noteq> [] \<longrightarrow> \<not> header_spacing (v ! 0) \<and> \<not> header_spacing (v ! (length v - 1)))"
  proof (cases "v = []")
    case False
    then have ends: "0 < length v" "length v - 1 < length v" by simp_all
    show ?thesis
    proof
      assume a: "\<forall>i < length v. field_value_at v i"
      have "\<not> header_spacing (v ! 0)" "\<not> header_spacing (v ! (length v - 1))"
        using a [rule_format, OF ends(1)] a [rule_format, OF ends(2)] nv unfolding f by blast+
      moreover have "header_visible (v ! i) \<or> header_spacing (v ! i)" if "i < length v" for i
        using a [rule_format, OF that] unfolding f by blast
      ultimately show "(\<forall>i < length v. header_visible (v ! i) \<or> header_spacing (v ! i))
        \<and> (v \<noteq> [] \<longrightarrow> \<not> header_spacing (v ! 0) \<and> \<not> header_spacing (v ! (length v - 1)))" by simp
    next
      assume a: "(\<forall>i < length v. header_visible (v ! i) \<or> header_spacing (v ! i))
        \<and> (v \<noteq> [] \<longrightarrow> \<not> header_spacing (v ! 0) \<and> \<not> header_spacing (v ! (length v - 1)))"
      show "\<forall>i < length v. field_value_at v i"
      proof (intro allI impI)
        fix i assume "i < length v"
        with a have "header_visible (v ! i) \<or> header_spacing (v ! i)" by blast
        moreover have "i \<noteq> 0 \<and> i \<noteq> length v - 1" if "header_spacing (v ! i)"
          using a False that by metis
        ultimately show "field_value_at v i" unfolding f by blast
      qed
    qed
  qed simp
  also have "\<dots> \<longleftrightarrow> list_all (\<lambda>c. header_visible c \<or> header_spacing c) v
     \<and> (v \<noteq> [] \<longrightarrow> \<not> header_spacing (hd v) \<and> \<not> header_spacing (last v))"
    by (auto simp: list_all_length hd_conv_nth last_conv_nth)
  finally show ?thesis .
qed

text \<open>
  The client asks only for the two markers, the server also for room for both of them; the values
  between, \<open>=?base64?=\<close>, end in the mark they begin with and are wrapped by the one and not the other.
\<close>

lemma client_encode_header_value_eq:
  "client_encode_header_value v =
     (if v = ''=?base64?='' then wrapped (b64_encode v) else encode_header_value v)"
proof -
  have p: "is_printable_field_value v \<longleftrightarrow> is_literal_header_value v"
    unfolding is_printable_field_value_def is_literal_header_value_def field_value_middle by auto
  have b: "is_base64_header_value v \<longleftrightarrow> is_sentinel_wrapped v \<or> v = ''=?base64?=''"
  proof
    assume h: "is_base64_header_value v"
    then obtain r where r1: "v = base64_prefix @ r"
      by (auto simp: is_base64_header_value_def has_prefix_iff)
    from h obtain u where r2: "v = u @ base64_suffix"
      by (auto simp: is_base64_header_value_def has_suffix_iff)
    note r = r1 r2
    show "is_sentinel_wrapped v \<or> v = ''=?base64?=''"
    proof (cases r)
      case Nil
      with r show ?thesis by (auto simp: base64_prefix_def base64_suffix_def append_eq_Cons_conv)
    next
      case (Cons c s)
      show ?thesis
      proof (cases s)
        case Nil
        with r Cons have "last v = c" "last v = CHR ''=''" by (auto simp: base64_suffix_def)
        with r Cons Nil show ?thesis by (simp add: base64_prefix_def)
      next
        case (Cons d t)
        with \<open>r = c # s\<close> r h show ?thesis
          by (simp add: is_sentinel_wrapped_def is_base64_header_value_def base64_suffix_def)
      qed
    qed
  next
    assume "is_sentinel_wrapped v \<or> v = ''=?base64?=''"
    then show "is_base64_header_value v"
      by (auto simp: is_sentinel_wrapped_def is_base64_header_value_def base64_prefix_def
          base64_suffix_def has_suffix_def)
  qed
  show ?thesis
    unfolding client_encode_header_value_def encode_header_value_def p b by (auto simp: wrapped_def)
qed

lemma client_header_decoded:
  "is_literal_header_value (client_encode_header_value v)
   \<and> decode_header_value (client_encode_header_value v) = Inr v"
proof (cases "v = ''=?base64?=''")
  case True
  then have "client_encode_header_value v = wrapped (b64_encode v)"
    unfolding client_encode_header_value_eq by (rule if_P)
  then show ?thesis using wrapped_literal [of v] by (simp only: decode_wrapped b64.dec_enc if_True option.case)
next
  case False
  then have "client_encode_header_value v = encode_header_value v"
    unfolding client_encode_header_value_eq by (rule if_not_P)
  then show ?thesis using header_value_exact [of v] by simp
qed


section \<open>What the headers state\<close>

definition present :: "any \<Rightarrow> mirrored_parameter \<Rightarrow> any option" where
  "present values p =
     (case value_at_path values (mp_path p) of
        None \<Rightarrow> None | Some v \<Rightarrow> if v = ANil then None else Some v)"

text \<open>The text a value of the declared type is carried as.\<close>

definition carries :: "mirrored_parameter \<Rightarrow> any \<Rightarrow> bytes \<Rightarrow> bool" where
  "carries p v t =
     (if mp_kind p = ''string'' then v = AStr t
      else if mp_kind p = ''boolean'' then \<exists>b. v = ABool b \<and> t = (if b then ''true'' else ''false'')
      else \<exists>n i. v = ANum n \<and> denotes n i \<and> \<bar>i\<bar> < 2 ^ 53 \<and> t = int_to_dec i)"

lemma stringify_carries:
  assumes "\<And>n. v = ANum n \<Longrightarrow> scan_number n = Some (n, []) \<and> length n < 2 ^ 62"
  shows "\<exists>r. stringify p v = Some r \<and> (\<forall>t. r = Some t \<longleftrightarrow> carries p v t)"
proof (cases "mp_kind p = ''string'' \<or> mp_kind p = ''boolean''")
  case True
  then show ?thesis by (cases v) (auto simp: stringify_def carries_def)
next
  case False
  then have s: "stringify p v = mirrored_integer v"
    "carries p v t \<longleftrightarrow> (\<exists>n i. v = ANum n \<and> denotes n i \<and> \<bar>i\<bar> < 2 ^ 53 \<and> t = int_to_dec i)" for t
    unfolding stringify_def carries_def by simp_all
  show ?thesis
  proof (cases "\<exists>n. v = ANum n")
    case True
    then obtain n where n: "v = ANum n" by blast
    from mirrored_integer_number [of n] assms [OF n] n show ?thesis unfolding s by auto
  next
    case False
    then show ?thesis unfolding s by (cases v) (simp_all add: mirrored_integer_def)
  qed
qed

lemma render_total:
  assumes "\<And>p v. p \<in> set ps \<Longrightarrow> present values p = Some v \<Longrightarrow> \<exists>r. stringify p v = Some r"
  shows "(\<exists>r. render_headers values ps out = Some r)
    \<and> ((\<exists>hs. render_headers values ps out = Some (Inr hs)) \<longleftrightarrow>
        (\<forall>p \<in> set ps. \<forall>v. present values p = Some v \<longrightarrow> (\<exists>t. stringify p v = Some (Some t))))"
  using assms
proof (induction ps arbitrary: out)
  case (Cons p ps)
  show ?case
  proof (cases "present values p")
    case None
    then have "render_headers values (p # ps) out = render_headers values ps out"
      by (auto simp: present_def split: option.splits if_splits)
    with Cons None show ?thesis by simp
  next
    case (Some v)
    obtain r where r: "stringify p v = Some r" using Cons.prems [of p v] Some by auto
    have "render_headers values (p # ps) out =
        (case r of None \<Rightarrow> Some (Inl (not_mirrored p))
         | Some t \<Rightarrow> render_headers values ps (AList.update (param_header p) (client_encode_header_value t) out))"
      using Some r by (auto simp: present_def split: option.splits if_splits)
    with Cons Some r show ?thesis by (cases r) auto
  qed
qed simp

lemma render_Inr:
  assumes "render_headers values ps out = Some (Inr hs)" "distinct (map param_header ps)"
  shows "(\<forall>p \<in> set ps. map_of hs (param_header p) =
        (case present values p of None \<Rightarrow> map_of out (param_header p)
         | Some v \<Rightarrow> map_option client_encode_header_value (the (stringify p v))))
    \<and> (\<forall>k. k \<notin> param_header ` set ps \<longrightarrow> map_of hs k = map_of out k)"
  using assms
proof (induction ps arbitrary: out)
  case (Cons p ps)
  show ?case
  proof (cases "present values p")
    case None
    then have "render_headers values (p # ps) out = render_headers values ps out"
      by (auto simp: present_def split: option.splits if_splits)
    with Cons None show ?thesis by auto
  next
    case (Some v)
    then obtain t where t: "stringify p v = Some (Some t)"
      "render_headers values ps (AList.update (param_header p) (client_encode_header_value t) out) = Some (Inr hs)"
      using Cons.prems(1) by (auto simp: present_def split: option.splits if_splits)
    have p: "param_header p \<notin> param_header ` set ps" "distinct (map param_header ps)"
      using Cons.prems(2) by auto
    note ih = Cons.IH [OF t(2) p(2)]
    have "map_of hs (param_header p) = Some (client_encode_header_value t)"
      using ih p(1) by (simp add: update_conv)
    moreover have "param_header q \<noteq> param_header p" if "q \<in> set ps" for q
      using p(1) that by (metis image_eqI)
    ultimately show ?thesis using ih Some t(1) by (auto simp: update_conv split: option.splits)
  qed
qed simp

text \<open>What is decoded with numbers kept is well-formed.\<close>

lemma number_any_wf:
  "wf_json d v \<Longrightarrow> wf_any d (number_any v)"
  "wf_elems d vs \<Longrightarrow> wf_any_list d (number_elems vs)"
  "wf_members d ms \<Longrightarrow> wf_any_members d (number_members ms)"
proof (induction d v and d vs and d ms rule: wf_json_wf_elems_wf_members.induct)
  case (6 d ms)
  then show ?case using set_dedup [of "number_members ms"] by (auto simp: wf_any_members_all)
qed auto

lemma value_at_wf: "wf_any d a \<Longrightarrow> value_at_path a path = Some v \<Longrightarrow> \<exists>d. wf_any d v"
proof (induction path arbitrary: a d)
  case (Cons x path)
  then obtain ms w where "a = AMap ms" "map_of ms x = Some w" "value_at_path w path = Some v"
    by (auto split: any.splits option.splits)
  moreover from this(1,2) Cons.prems(1) have "wf_any (d - 1) w"
    by (auto simp: wf_any_members_all dest: map_of_SomeD)
  ultimately show ?case using Cons.IH by blast
qed auto

lemma arguments_wf: "encoded_arguments body = Inr args \<Longrightarrow> \<exists>d. wf_any d (AMap args)"
proof -
  assume "encoded_arguments body = Inr args"
  then obtain ms r where v: "pv (length (skip_ws body)) max_nesting (skip_ws body) = Some (JObj ms, r)"
    "map_of (dedup (number_members ms)) ''arguments'' = Some (AMap args)"
    by (auto simp: encoded_arguments_def Let_def split: option.splits json.splits any.splits)
  have "wf_any max_nesting (number_any (JObj ms))" using number_any_wf(1) [OF pv_wf(1) [OF v(1)]] .
  from value_at_wf [OF this, of "[''arguments'']" "AMap args"] v(2) show ?thesis by simp
qed

lemma mirrored_headers_rendered:
  assumes schema: "keys_once (AMap schema)" "parse_mirrored_parameters schema = Inr ps"
    and body: "encoded_arguments body = Inr args"
    and len: "\<And>p n. p \<in> set ps \<Longrightarrow> value_at_path (AMap args) (mp_path p) = Some (ANum n) \<Longrightarrow> length n < 2 ^ 62"
  shows "\<exists>r. mirrored_param_headers ps body = Some r
    \<and> ((\<exists>hs. r = Inr hs) \<longleftrightarrow>
        (\<forall>p \<in> set ps. \<forall>v. present (AMap args) p = Some v \<longrightarrow> (\<exists>t. carries p v t)))
    \<and> (\<forall>hs. r = Inr hs \<longrightarrow>
        (\<forall>p \<in> set ps. \<forall>t. (\<exists>h. map_of hs (param_header p) = Some h \<and> decode_header_value h = Inr t) \<longleftrightarrow>
            (\<exists>v. present (AMap args) p = Some v \<and> carries p v t))
        \<and> dom (map_of hs) \<subseteq> param_header ` set ps)"
proof -
  let ?a = "AMap args"
  have render: "mirrored_param_headers ps body = render_headers ?a ps []"
    using body by (simp add: mirrored_param_headers_def)
  have str: "\<exists>r. stringify p v = Some r \<and> (\<forall>t. r = Some t \<longleftrightarrow> carries p v t)"
    if p: "p \<in> set ps" and v: "present ?a p = Some v" for p v
  proof (rule stringify_carries)
    fix n assume n: "v = ANum n"
    have at: "value_at_path ?a (mp_path p) = Some v"
      using v by (auto simp: present_def split: option.splits if_splits)
    obtain d where "wf_any d ?a" using arguments_wf [OF body] by blast
    then obtain d' where "wf_any d' v" using value_at_wf at by blast
    with len [OF p] at n show "scan_number n = Some (n, []) \<and> length n < 2 ^ 62" by simp
  qed
  have dist: "distinct (map param_header ps)"
    using parse_mirrored(3) [OF schema] by (auto simp: distinct_map inj_on_def param_header_def)
  have all: "\<And>p v. p \<in> set ps \<Longrightarrow> present ?a p = Some v \<Longrightarrow> \<exists>r. stringify p v = Some r" using str by blast
  note tot = render_total [of ps "?a" "[]", OF all]
  obtain r where r: "render_headers ?a ps [] = Some r" using tot by blast
  have "(\<exists>hs. r = Inr hs) \<longleftrightarrow> (\<forall>p \<in> set ps. \<forall>v. present ?a p = Some v \<longrightarrow> (\<exists>t. carries p v t))"
  proof -
    have "(\<exists>t. stringify p v = Some (Some t)) \<longleftrightarrow> (\<exists>t. carries p v t)"
      if "p \<in> set ps" "present ?a p = Some v" for p v
      using str [OF that] by auto
    moreover have "(\<exists>hs. r = Inr hs) \<longleftrightarrow>
        (\<forall>p \<in> set ps. \<forall>v. present ?a p = Some v \<longrightarrow> (\<exists>t. stringify p v = Some (Some t)))"
      using tot r by simp
    ultimately show ?thesis by blast
  qed
  moreover have "(\<forall>p \<in> set ps. \<forall>t. (\<exists>h. map_of hs (param_header p) = Some h \<and> decode_header_value h = Inr t) \<longleftrightarrow>
            (\<exists>v. present ?a p = Some v \<and> carries p v t)) \<and> dom (map_of hs) \<subseteq> param_header ` set ps"
    if hs: "r = Inr hs" for hs
  proof
    note st = render_Inr [OF r [unfolded hs] dist]
    show "dom (map_of hs) \<subseteq> param_header ` set ps" using st by force
    show "\<forall>p \<in> set ps. \<forall>t. (\<exists>h. map_of hs (param_header p) = Some h \<and> decode_header_value h = Inr t) \<longleftrightarrow>
            (\<exists>v. present ?a p = Some v \<and> carries p v t)"
    proof (intro ballI allI)
      fix p t assume p: "p \<in> set ps"
      show "(\<exists>h. map_of hs (param_header p) = Some h \<and> decode_header_value h = Inr t) \<longleftrightarrow>
            (\<exists>v. present ?a p = Some v \<and> carries p v t)"
      proof (cases "present ?a p")
        case None
        then show ?thesis using st p by auto
      next
        case (Some v)
        obtain u where u: "stringify p v = Some u" "\<And>t. u = Some t \<longleftrightarrow> carries p v t"
          using str [OF p Some] by blast
        have "map_of hs (param_header p) = map_option client_encode_header_value u"
          using st p Some u(1) by auto
        then show ?thesis using Some u(2) [of t] client_header_decoded by (cases u) auto
      qed
    qed
  qed
  ultimately show ?thesis using render r by auto
qed

section \<open>Properties\<close>

text \<open>
  C26. The mirrored parameters of a tool are exactly its annotated properties: every property, at any
  depth of objects, that carries a well-formed annotation is read with its path, name and type, nothing
  else is, an annotated property is never passed over in a schema that is accepted, no two of the names
  differ only in case, and the schema itself carries none.
\<close>

theorem mirrored_parameters_exact:
  assumes "keys_once (AMap schema)" "parse_mirrored_parameters schema = Inr ps"
  shows "(p \<in> set ps \<longleftrightarrow> (\<exists>m. mp_path p \<noteq> [] \<and> property_at schema (mp_path p) = Some m \<and> describes m p))
    \<and> (q \<noteq> [] \<longrightarrow> property_at schema q = Some m \<longrightarrow> map_of m mirror_annotation \<noteq> None \<longrightarrow>
         (\<exists>p \<in> set ps. mp_path p = q))
    \<and> distinct (map folded_name ps) \<and> map_of schema mirror_annotation = None"
  using parse_mirrored [OF assms] by blast

definition demo_schema :: "(bytes \<times> any) list" where
  "demo_schema = [(''type'', AStr ''object''), (''properties'', AMap [
     (''region'', AMap [(''type'', AStr ''string''), (''x-mcp-header'', AStr ''Region'')]),
     (''page'', AMap [(''type'', AStr ''object''), (''properties'', AMap [
        (''n'', AMap [(''type'', AStr ''integer''), (''x-mcp-header'', AStr ''Page-N'')])])])])]"

definition demo_parameters :: "mirrored_parameter list" where
  "demo_parameters =
     [\<lparr>mp_path = [''page'', ''n''], mp_name = ''Page-N'', mp_kind = ''integer''\<rparr>,
      \<lparr>mp_path = [''region''], mp_name = ''Region'', mp_kind = ''string''\<rparr>]"

lemma demo_schema_read: "keys_once (AMap demo_schema)" "parse_mirrored_parameters demo_schema = Inr demo_parameters"
  unfolding demo_parameters_def by code_simp+

theorem mirrored_parameters_exact_witness:
  "\<exists>m. property_at demo_schema [''page'', ''n''] = Some m
     \<and> describes m \<lparr>mp_path = [''page'', ''n''], mp_name = ''Page-N'', mp_kind = ''integer''\<rparr>"
  using mirrored_parameters_exact [OF demo_schema_read,
      of "\<lparr>mp_path = [''page'', ''n''], mp_name = ''Page-N'', mp_kind = ''integer''\<rparr>"]
  by (simp add: demo_parameters_def)

text \<open>
  C27. The mirrored headers state exactly the arguments: rendering always ends; it succeeds exactly when
  each mirrored argument that is present has a value of its declared type, an integer one within the
  doubles' exact range in whatever form it is written; and then the header of a parameter is there, and
  decodes to the text of the value, exactly when the argument is present, with no header besides.
\<close>

theorem mirrored_headers_exact:
  assumes "keys_once (AMap schema)" "parse_mirrored_parameters schema = Inr ps"
    "encoded_arguments body = Inr args"
    "list_all (\<lambda>p. case value_at_path (AMap args) (mp_path p) of Some (ANum n) \<Rightarrow> length n < 2 ^ 62 | _ \<Rightarrow> True) ps"
  shows "\<exists>r. mirrored_param_headers ps body = Some r
    \<and> ((\<exists>hs. r = Inr hs) \<longleftrightarrow>
        (\<forall>p \<in> set ps. \<forall>v. present (AMap args) p = Some v \<longrightarrow> (\<exists>t. carries p v t)))
    \<and> (\<forall>hs. r = Inr hs \<longrightarrow>
        (\<forall>p \<in> set ps. \<forall>t. (\<exists>h. map_of hs (param_header p) = Some h \<and> decode_header_value h = Inr t) \<longleftrightarrow>
            (\<exists>v. present (AMap args) p = Some v \<and> carries p v t))
        \<and> dom (map_of hs) \<subseteq> param_header ` set ps)"
proof (rule mirrored_headers_rendered [OF assms(1-3)])
  fix p n assume "p \<in> set ps" "value_at_path (AMap args) (mp_path p) = Some (ANum n)"
  with assms(4) show "length n < 2 ^ 62" by (auto simp: list_all_iff)
qed

definition demo_body :: bytes where
  "demo_body = ''{\"name\":\"t\",\"arguments\":{\"page\":{\"n\":1.5e1},\"region\":\"eu\"}}''"

definition demo_arguments :: "(bytes \<times> any) list" where
  "demo_arguments = [(''page'', AMap [(''n'', ANum ''1.5e1'')]), (''region'', AStr ''eu'')]"

lemma demo_body_read: "encoded_arguments demo_body = Inr demo_arguments"
  "present (AMap demo_arguments) \<lparr>mp_path = [''region''], mp_name = ''Region'', mp_kind = ''string''\<rparr> = Some (AStr ''eu'')"
  "mirrored_param_headers demo_parameters demo_body = Some (Inr [(''Mcp-Param-Page-N'', ''15''), (''Mcp-Param-Region'', ''eu'')])"
  unfolding demo_arguments_def by code_simp+

theorem mirrored_headers_exact_witness:
  "\<exists>h. map_of [(''Mcp-Param-Page-N'', ''15''), (''Mcp-Param-Region'', ''eu'')] ''Mcp-Param-Region'' = Some h
     \<and> decode_header_value h = Inr ''eu''"
proof -
  let ?p = "\<lparr>mp_path = [''region''], mp_name = ''Region'', mp_kind = ''string''\<rparr>"
  have l: "list_all (\<lambda>p. case value_at_path (AMap demo_arguments) (mp_path p) of
      Some (ANum n) \<Rightarrow> length n < 2 ^ 62 | _ \<Rightarrow> True) demo_parameters"
    by (simp add: demo_parameters_def demo_arguments_def)
  have p: "?p \<in> set demo_parameters" by (simp add: demo_parameters_def)
  have c: "carries ?p (AStr ''eu'') ''eu''" by (simp add: carries_def)
  from mirrored_headers_exact [OF demo_schema_read demo_body_read(1) l]
  have "\<forall>t. (\<exists>h. map_of [(''Mcp-Param-Page-N'', ''15''), (''Mcp-Param-Region'', ''eu'')] (param_header ?p) = Some h
      \<and> decode_header_value h = Inr t) \<longleftrightarrow> (\<exists>v. present (AMap demo_arguments) ?p = Some v \<and> carries ?p v t)"
    unfolding demo_body_read(3) using p by auto
  with demo_body_read(2) c have "\<exists>h. map_of [(''Mcp-Param-Page-N'', ''15''), (''Mcp-Param-Region'', ''eu'')] (param_header ?p)
      = Some h \<and> decode_header_value h = Inr ''eu''" by blast
  then show ?thesis by (simp add: param_header_def mirror_prefix_def)
qed

end
