(* ===== verification/Client_Exchange.thy ===== *)
theory Client_Exchange
  imports Client_Results Mirrored Primitives Protocol_Meta
begin

text \<open>
  One request of the client over its transport (\<open>client/protocol.go\<close>): the params and headers of the
  frame, the loop that reads until the response arrives and serves what the server sends in between,
  and the withdrawal of a request that was given up. The transport is a parameter: what it is, and
  the frames and failures it delivers, each with the time it was read and the state of the context
  before it. The locks of the code make one exchange run at a time, which is what is modelled.
\<close>

section \<open>Failures and state\<close>

text \<open>
  What is asked of an error: a \<open>TimeoutError\<close> (itself a \<open>TransportError\<close>), a deadline reported as
  such, a cancellation, an expired session, any other \<open>TransportError\<close>, the two marks the client leaves
  itself; and whether its chain holds the mark of a peer that did not answer, or an error of the OAuth
  package. The text is the message, without that of an encoder's error it may wrap.
\<close>

datatype failure_class = TimedOut | PastDeadline | Cancelled | SessionExpired | ChannelDown
  | CredentialChanged | NothingNewToMirror | ClientError

record failure =
  fl_class :: failure_class
  fl_text :: bytes
  fl_unanswered :: bool
  fl_unauthorized :: bool

definition plain_failure :: "failure_class \<Rightarrow> bytes \<Rightarrow> failure" where
  "plain_failure c text = \<lparr>fl_class = c, fl_text = text, fl_unanswered = False, fl_unauthorized = False\<rparr>"

definition client_error :: "bytes \<Rightarrow> failure" where
  "client_error text = plain_failure ClientError text"

definition is_timed_out :: "failure \<Rightarrow> bool" where
  "is_timed_out f = (fl_class f = TimedOut \<or> fl_class f = PastDeadline)"

type_synonym header_set = "(bytes \<times> bytes) list"

text \<open>
  A transport: its optional hooks (cancellations, replies apart, progress, the answers that mean an
  older server), and whether a frame is taken after those sent before.
\<close>

record client_transport =
  tr_cancels :: "(bytes \<Rightarrow> bool) option"
  tr_replies_apart :: bool
  tr_progress_deaf :: bool
  tr_legacy :: "(rpc_error \<Rightarrow> bool) option"
  tr_refuses :: "(header_set \<times> bytes) list \<Rightarrow> header_set \<times> bytes \<Rightarrow> failure option"

record client_config =
  cf_transport :: client_transport
  cf_identity :: implementation
  cf_capabilities :: "failure + bytes"
  cf_print :: "nat \<Rightarrow> bool"

record client =
  cl_connected :: bool
  cl_connecting :: bool
  cl_next_id :: int
  cl_next_token :: int
  cl_unaccounted :: "(bytes \<times> int) list"
  cl_silent :: bool
  cl_sent :: "(header_set \<times> bytes) list"
  cl_notified :: "bytes list"
  cl_restarts :: nat
  cl_disconnects :: nat

definition send_frame :: "client_config \<Rightarrow> header_set \<Rightarrow> bytes \<Rightarrow> client \<Rightarrow> failure option \<times> client" where
  "send_frame cfg headers frame st =
     (case tr_refuses (cf_transport cfg) (cl_sent st) (headers, frame) of
        Some f \<Rightarrow> (Some f, st)
      | None \<Rightarrow> (None, st\<lparr>cl_sent := cl_sent st @ [(headers, frame)]\<rparr>))"

definition disconnect :: "client \<Rightarrow> client" where
  "disconnect st = st\<lparr>cl_connected := False, cl_unaccounted := [], cl_silent := False,
     cl_disconnects := Suc (cl_disconnects st)\<rparr>"

definition disconnect_if_connected :: "client \<Rightarrow> client" where
  "disconnect_if_connected st = (if cl_connected st then disconnect st else st)"

section \<open>Params and headers\<close>

definition meta_key_client_info :: bytes where
  "meta_key_client_info = ''io.modelcontextprotocol/clientInfo''"

definition msg_params :: bytes where "msg_params = ''unable to encode request params''"

text \<open>The protocol metadata, with what the caller supplied on top.\<close>

definition protocol_meta :: "client_config \<Rightarrow> bytes \<Rightarrow> bytes \<Rightarrow> bytes option \<Rightarrow> failure + bytes" where
  "protocol_meta cfg existing version tok =
     (let with_token = (\<lambda>m. case tok of None \<Rightarrow> m | Some t \<Rightarrow> AList.update ''progressToken'' (ARaw t) m);
          finish = (\<lambda>m. if existing = [] then Inr m
             else case unmarshal_map existing of
               Dec supplied \<Rightarrow> Inr (fold (\<lambda>(k, v) m. AList.update k (ARaw v) m) supplied m)
             | _ \<Rightarrow> Inl (client_error (msg_params @ '': the [_meta] member must be an object'')));
          base = (if handshake_for version = HandshakeDiscovery
             then (case cf_capabilities cfg of
                     Inl f \<Rightarrow> Inl f
                   | Inr capabilities \<Rightarrow>
                       Inr [(meta_key_protocol_version, AStr version),
                            (meta_key_client_capabilities, ARaw capabilities),
                            (meta_key_client_info, AMap (implementation_map (cf_identity cfg)))])
             else Inr [])
      in case base of Inl f \<Rightarrow> Inl f
         | Inr m \<Rightarrow>
             (case finish (with_token m) of Inl f \<Rightarrow> Inl f
              | Inr meta \<Rightarrow>
                  (case marshal_wire (AMap meta) of
                     None \<Rightarrow> Inl (client_error msg_params) | Some raw \<Rightarrow> Inr raw)))"

definition encode_params ::
  "client_config \<Rightarrow> any option \<Rightarrow> bytes \<Rightarrow> bytes option \<Rightarrow> failure + bytes" where
  "encode_params cfg params version tok =
     (let plain = (handshake_for version \<noteq> HandshakeDiscovery \<and> tok = None);
          complete = (\<lambda>members.
             case protocol_meta cfg (env_raw members ''_meta'') version tok of
               Inl f \<Rightarrow> Inl f
             | Inr meta \<Rightarrow>
                 (case marshal_wire_map (AList.update ''_meta'' meta members) of
                    None \<Rightarrow> Inl (client_error msg_params) | Some raw \<Rightarrow> Inr raw))
      in case params of
           None \<Rightarrow> if plain then Inr [] else complete []
         | Some p \<Rightarrow>
             (case marshal_wire p of
                None \<Rightarrow> Inl (client_error msg_params)
              | Some raw \<Rightarrow>
                  if plain then Inr raw
                  else (case unmarshal_map raw of
                          DecErr \<Rightarrow> Inl (client_error msg_params)
                        | DecNil \<Rightarrow> complete []
                        | Dec members \<Rightarrow> complete members)))"

definition client_method_header :: bytes where "client_method_header = ''Mcp-Method''"
definition client_name_header :: bytes where "client_name_header = ''Mcp-Name''"

definition name_key_for :: "bytes \<Rightarrow> bytes" where
  "name_key_for m =
     (if m = ''tools/call'' \<or> m = ''prompts/get'' then ''name''
      else if m = ''resources/read'' then ''uri'' else '''')"

definition mirrored_name :: "bytes \<Rightarrow> bytes \<Rightarrow> bytes option" where
  "mirrored_name m params =
     (if name_key_for m = [] \<or> params = [] then None
      else case unmarshal_map params of
        DecErr \<Rightarrow> None
      | DecNil \<Rightarrow> None
      | Dec members \<Rightarrow>
          (case map_of members (name_key_for m) of None \<Rightarrow> None | Some raw \<Rightarrow> unmarshal_string raw))"

definition mirrored_headers :: "bytes \<Rightarrow> bytes \<Rightarrow> header_set" where
  "mirrored_headers m params =
     (case mirrored_name m params of
        None \<Rightarrow> [(client_method_header, m)]
      | Some n \<Rightarrow> [(client_method_header, m), (client_name_header, client_encode_header_value n)])"

section \<open>Withdrawn requests\<close>

definition withdrawn_reply_window :: int where "withdrawn_reply_window = 5000000000"
definition max_unaccounted :: nat where "max_unaccounted = 64"

definition lapse :: "int \<Rightarrow> client \<Rightarrow> client" where
  "lapse now st =
     st\<lparr>cl_unaccounted := filter (\<lambda>(i, at). now - at < withdrawn_reply_window) (cl_unaccounted st)\<rparr>"

definition account :: "client_config \<Rightarrow> int \<Rightarrow> rpc_id \<Rightarrow> client \<Rightarrow> client" where
  "account cfg now i st =
     (if tr_replies_apart (cf_transport cfg) then st
      else let st1 = lapse now st; all = cl_unaccounted st1 @ [(id_raw i, now)]
           in st1\<lparr>cl_unaccounted := drop (length all - max_unaccounted) all\<rparr>)"

fun drop_first :: "bytes \<Rightarrow> (bytes \<times> int) list \<Rightarrow> (bytes \<times> int) list" where
  "drop_first i [] = []"
| "drop_first i (w # ws) = (if fst w = i then ws else w # drop_first i ws)"

definition accounted_for :: "rpc_id \<Rightarrow> client \<Rightarrow> client" where
  "accounted_for i st = st\<lparr>cl_unaccounted := drop_first (id_raw i) (cl_unaccounted st)\<rparr>"

definition replies_to_withdrawn :: "int \<Rightarrow> client \<Rightarrow> bool \<times> client" where
  "replies_to_withdrawn now st =
     (let st1 = lapse now st
      in case cl_unaccounted st1 of
           [] \<Rightarrow> (False, st1)
         | _ # ws \<Rightarrow> (True, st1\<lparr>cl_unaccounted := ws\<rparr>))"

definition heard :: "client \<Rightarrow> client" where
  "heard st = st\<lparr>cl_silent := False\<rparr>"

section \<open>Frames of the server\<close>

definition probe_member :: "bytes \<times> bytes \<times> json \<Rightarrow> bytes option \<times> bytes \<Rightarrow> (bytes option \<times> bytes) option" where
  "probe_member m old =
     (case m of (k, r, v) \<Rightarrow> case old of (name, i) \<Rightarrow>
        if field_is ''method'' (unquote k)
        then (case v of JStr b \<Rightarrow> Some (Some (unquote b), i) | JNull \<Rightarrow> Some (None, i) | _ \<Rightarrow> None)
        else if field_is ''id'' (unquote k) then Some (name, r) else Some (name, i))"

text \<open>The method and the raw id of a frame; \<open>None\<close> for one that is no object of that shape.\<close>

definition probe_frame :: "bytes \<Rightarrow> (bytes option \<times> bytes) option" where
  "probe_frame raw =
     (case json_parse raw of
        Some (JObj ms) \<Rightarrow> decode_members probe_member ms (None, [])
      | Some JNull \<Rightarrow> Some (None, [])
      | _ \<Rightarrow> None)"

definition ping_reply :: "rpc_id \<Rightarrow> bytes option" where
  "ping_reply i =
     (case new_result i (AnyResult (AMap [])) of Some rsp \<Rightarrow> wire_response rsp | None \<Rightarrow> Some ''null'')"

definition serve_server_frame ::
  "client_config \<Rightarrow> bytes \<Rightarrow> bytes \<Rightarrow> client \<Rightarrow> (failure + bool) \<times> client" where
  "serve_server_frame cfg version raw st =
     (case probe_frame raw of
        Some (Some m, i) \<Rightarrow>
          if i = [] then (Inr True, st\<lparr>cl_notified := cl_notified st @ [m]\<rparr>)
          else (case id_unmarshal i of (rid, ok) \<Rightarrow>
            if \<not> ok \<or> \<not> is_valid_request_id rid
            then (Inl (client_error (''invalid JSON-RPC message from server: the ['' @ quoted_text (cf_print cfg) m
                    @ ''] frame carries an id that is neither a string nor a number'')), st)
            else if handshake_for version = HandshakeDiscovery
            then (Inl (client_error (''the server sent a ['' @ quoted_text (cf_print cfg) m
                    @ ''] request over a connection of protocol version ['' @ version
                    @ ''], which forbids it; this client sends no response'')), st)
            else (case (if m = ''ping'' then ping_reply rid
                        else wire_response (new_error_response_code rid code_method_not_found
                               (''method ['' @ m @ ''] is not supported by this client''))) of
                    None \<Rightarrow> (Inl (client_error ''unable to encode response to server request''), st)
                  | Some out \<Rightarrow>
                      (case send_frame cfg [] out st of
                         (Some f, st1) \<Rightarrow> (Inl f, st1)
                       | (None, st1) \<Rightarrow> (Inr True, st1))))
      | _ \<Rightarrow> (Inr False, st))"


section \<open>Progress\<close>

definition asks_for_progress :: "client_config \<Rightarrow> bytes \<Rightarrow> bool" where
  "asks_for_progress cfg m =
     (if tr_progress_deaf (cf_transport cfg) then False
      else m \<in> set [''tools/call'', ''resources/read'', ''prompts/get''])"

text \<open>A nested struct of one field, whose members match without case; null leaves it as it is.\<close>

definition inner_struct :: "bytes \<Rightarrow> bytes \<times> bytes \<times> json \<Rightarrow> bytes \<Rightarrow> bytes option" where
  "inner_struct name m old =
     (case m of (k, r, v) \<Rightarrow> Some (if field_is name (unquote k) then r else old))"

definition outer_struct :: "bytes \<Rightarrow> bytes \<Rightarrow> bytes \<times> bytes \<times> json \<Rightarrow> bytes \<Rightarrow> bytes option" where
  "outer_struct name inner m old =
     (case m of (k, r, v) \<Rightarrow>
        if field_is name (unquote k)
        then (case v of JObj ms \<Rightarrow> decode_members (inner_struct inner) ms old | JNull \<Rightarrow> Some old | _ \<Rightarrow> None)
        else Some old)"

definition progress_token_of :: "bytes \<Rightarrow> bytes option" where
  "progress_token_of encoded =
     (case json_parse encoded of
        Some (JObj ms) \<Rightarrow>
          (case decode_members (outer_struct ''_meta'' ''progressToken'') ms [] of
             None \<Rightarrow> None
           | Some raw \<Rightarrow>
               (let t = trim_json_space raw in if t = [] \<or> t = ''null'' then None else Some t))
      | _ \<Rightarrow> None)"

text \<open>The id, the method and the progress token a frame states.\<close>

definition progress_member ::
  "bytes \<times> bytes \<times> json \<Rightarrow> bytes \<times> bytes \<times> bytes \<Rightarrow> (bytes \<times> bytes \<times> bytes) option" where
  "progress_member m old =
     (case m of (k, r, v) \<Rightarrow> case old of (i, name, tok) \<Rightarrow>
        if field_is ''id'' (unquote k) then Some (r, name, tok)
        else if field_is ''method'' (unquote k)
        then (case decode_text name v of None \<Rightarrow> None | Some n \<Rightarrow> Some (i, n, tok))
        else (case outer_struct ''params'' ''progressToken'' m tok of None \<Rightarrow> None | Some t \<Rightarrow> Some (i, name, t)))"

definition reports_progress :: "bytes \<Rightarrow> bytes \<Rightarrow> bool" where
  "reports_progress tok frame =
     (case json_parse frame of
        Some (JObj ms) \<Rightarrow>
          (case decode_members progress_member ms ([], [], []) of
             None \<Rightarrow> False
           | Some (i, m, t) \<Rightarrow> i = [] \<and> m = ''notifications/progress'' \<and> trim_json_space t = tok)
      | _ \<Rightarrow> False)"

text \<open>\<open>report\<close>: the clock, when the exchange runs on one, is started over.\<close>

definition note_progress :: "bool \<Rightarrow> bytes option \<Rightarrow> bytes \<Rightarrow> client \<Rightarrow> client" where
  "note_progress clocked tok frame st =
     (case tok of
        Some t \<Rightarrow> if clocked \<and> reports_progress t frame then st\<lparr>cl_restarts := Suc (cl_restarts st)\<rparr> else st
      | None \<Rightarrow> st)"

section \<open>The exchange\<close>

datatype context_end = WasCancelled | DeadlinePassed

text \<open>A read of the transport: when, the context before it, and the frame or the failure it gave.\<close>

record arrival =
  ar_now :: int
  ar_done :: "context_end option"
  ar_got :: "failure + bytes"

definition exchange_ended :: "bytes \<Rightarrow> context_end \<Rightarrow> failure" where
  "exchange_ended m cause =
     (case cause of
        WasCancelled \<Rightarrow> plain_failure Cancelled (''the wait for a response to ['' @ m @ ''] was cancelled: context canceled'')
      | DeadlinePassed \<Rightarrow> plain_failure TimedOut (''timed out while waiting for a response to ['' @ m @ '']: context deadline exceeded''))"

datatype exchanged = Broken failure | Refusal rpc_error | Answer bytes

text \<open>A frame: what it ends the exchange with, if it does.\<close>

definition exchange_step ::
  "client_config \<Rightarrow> bytes \<Rightarrow> rpc_id \<Rightarrow> bool \<Rightarrow> bytes option \<Rightarrow> int \<Rightarrow> bytes \<Rightarrow> client
     \<Rightarrow> exchanged option \<times> client" where
  "exchange_step cfg version i clocked tok now raw st =
     (let st1 = note_progress clocked tok raw (heard st)
      in case serve_server_frame cfg version raw st1 of
           (Inl f, st2) \<Rightarrow> (Some (Broken f), st2)
         | (Inr True, st2) \<Rightarrow> (None, st2)
         | (Inr False, st2) \<Rightarrow>
             (case parse_response raw of
                Inl e \<Rightarrow> (Some (Broken (client_error (''invalid JSON-RPC response from server: '' @ err_message e))), st2)
              | Inr resp \<Rightarrow>
                  (let done = (case rs_error resp of Some e \<Rightarrow> Refusal e | None \<Rightarrow> Answer (rs_result resp))
                   in if id_raw (rs_id resp) = id_raw i then (Some done, st2)
                      else if \<not> id_is_null (rs_id resp) then (None, accounted_for (rs_id resp) st2)
                      else if rs_error resp = None then (None, st2)
                      else (case replies_to_withdrawn now st2 of
                              (True, st3) \<Rightarrow> (None, st3)
                            | (False, st3) \<Rightarrow> (Some done, st3)))))"

text \<open>\<open>None\<close> is an exchange still waiting for the transport.\<close>

fun exchange_loop ::
  "client_config \<Rightarrow> bytes \<Rightarrow> bytes \<Rightarrow> rpc_id \<Rightarrow> bool \<Rightarrow> bytes option \<Rightarrow> bool \<Rightarrow> arrival list \<Rightarrow> client
     \<Rightarrow> exchanged option \<times> client" where
  "exchange_loop cfg m version i clocked tok passed_over [] st = (None, st)"
| "exchange_loop cfg m version i clocked tok passed_over (a # as) st =
     (case (if passed_over then ar_done a else None) of
        Some cause \<Rightarrow> (Some (Broken (exchange_ended m cause)), st)
      | None \<Rightarrow>
          (case ar_got a of
             Inl f \<Rightarrow> (Some (Broken f), st)
           | Inr raw \<Rightarrow>
               (case exchange_step cfg version i clocked tok (ar_now a) raw st of
                  (Some res, st1) \<Rightarrow> (Some res, st1)
                | (None, st1) \<Rightarrow> exchange_loop cfg m version i clocked tok True as st1)))"

definition exchange_frame ::
  "client_config \<Rightarrow> bytes \<Rightarrow> bytes \<Rightarrow> header_set \<Rightarrow> rpc_id \<Rightarrow> bytes \<Rightarrow> bool \<Rightarrow> bytes option \<Rightarrow> arrival list
     \<Rightarrow> client \<Rightarrow> exchanged option \<times> client" where
  "exchange_frame cfg m frame headers i version clocked tok arrivals st =
     (case send_frame cfg headers frame st of
        (Some f, st1) \<Rightarrow> (Some (Broken f), st1)
      | (None, st1) \<Rightarrow> exchange_loop cfg m version i clocked tok False arrivals st1)"

section \<open>Withdrawing a request\<close>

definition notify :: "client_config \<Rightarrow> bytes \<Rightarrow> any option \<Rightarrow> bytes \<Rightarrow> client \<Rightarrow> failure option \<times> client" where
  "notify cfg m params version st =
     (case encode_params cfg params version None of
        Inl f \<Rightarrow> (Some f, st)
      | Inr encoded \<Rightarrow>
          (case wire_notification m encoded of
             None \<Rightarrow> (Some (client_error ''unable to encode notification''), st)
           | Some out \<Rightarrow>
               send_frame cfg (if handshake_for version = HandshakeDiscovery then mirrored_headers m encoded else [])
                 out st))"

definition withdrawn :: "client_config \<Rightarrow> int \<Rightarrow> failure \<Rightarrow> rpc_id \<Rightarrow> bytes \<Rightarrow> client \<Rightarrow> bool \<times> client" where
  "withdrawn cfg now f i version st =
     (case tr_cancels (cf_transport cfg) of
        None \<Rightarrow> (False, st)
      | Some notifies \<Rightarrow>
          (let timed_out = is_timed_out f
           in if \<not> timed_out \<and> fl_class f \<noteq> Cancelled then (False, st)
              else
                let settled = (cl_connected st \<and> \<not> cl_connecting st);
                    hung = (timed_out \<and> cl_silent st);
                    st1 = (if settled \<and> timed_out then st\<lparr>cl_silent := \<not> hung\<rparr> else st)
                in if \<not> settled \<or> hung then (False, st1)
                   else if \<not> notifies version then (True, st1)
                   else
                     let reason = (if timed_out then ''the request timed out''
                                   else ''the caller withdrew the request'')
                     in case notify cfg ''notifications/cancelled''
                            (Some (AMap [(''requestId'', ARaw (id_raw i)), (''reason'', AStr reason)])) version st1 of
                          (Some _, st2) \<Rightarrow> (False, st2)
                        | (None, st2) \<Rightarrow> (True, account cfg now i st2)))"

section \<open>One attempt\<close>

datatype attempted = Failed failure | Rejected rpc_error | Unfinished unfinished | Result bytes

text \<open>The token a request asks for progress under, and its encoded params.\<close>

definition attempt_params ::
  "client_config \<Rightarrow> bytes \<Rightarrow> any option \<Rightarrow> bytes \<Rightarrow> client \<Rightarrow> (failure + bytes) \<times> client" where
  "attempt_params cfg m params version st =
     (if asks_for_progress cfg m
      then let n = wrap64 (cl_next_token st + 1); st1 = st\<lparr>cl_next_token := n\<rparr>
           in (encode_params cfg params version (Some (int_to_dec n)), st1)
      else (encode_params cfg params version None, st))"

text \<open>The headers of the frame; the extra ones are rendered from the very params it carries.\<close>

definition attempt_headers ::
  "bytes \<Rightarrow> bytes \<Rightarrow> bytes \<Rightarrow> (bytes \<Rightarrow> failure + header_set) option \<Rightarrow> failure + header_set" where
  "attempt_headers m version encoded extra =
     (if handshake_for version \<noteq> HandshakeDiscovery then Inr []
      else case (case extra of None \<Rightarrow> Inr [] | Some render \<Rightarrow> render encoded) of
        Inl f \<Rightarrow> Inl f
      | Inr mirrored \<Rightarrow> Inr (fold (\<lambda>(k, v) hs. AList.update k v hs) mirrored (mirrored_headers m encoded)))"

text \<open>
  The request goes out under the next id, and what comes back is weighed. \<open>None\<close> is an attempt still
  waiting for the transport.
\<close>

definition attempt_sent ::
  "client_config \<Rightarrow> bytes \<Rightarrow> bytes \<Rightarrow> bytes \<Rightarrow> header_set \<Rightarrow> bool \<Rightarrow> arrival list \<Rightarrow> int \<Rightarrow> client
     \<Rightarrow> attempted option \<times> client" where
  "attempt_sent cfg m version encoded headers clocked arrivals ended_at st =
     (let i = int_id (cl_next_id st); st1 = st\<lparr>cl_next_id := wrap64 (cl_next_id st + 1)\<rparr>
      in case wire_request \<lparr>rq_id = i, rq_method = m, rq_params = encoded\<rparr> of
           None \<Rightarrow> (Some (Failed (client_error ''unable to encode request'')), st1)
         | Some frame \<Rightarrow>
             (case exchange_frame cfg m frame headers i version clocked (progress_token_of encoded) arrivals st1 of
                (None, st2) \<Rightarrow> (None, st2)
              | (Some (Broken f), st2) \<Rightarrow>
                  (case withdrawn cfg ended_at f i version st2 of
                     (True, st3) \<Rightarrow> (Some (Failed f), st3)
                   | (False, st3) \<Rightarrow> (Some (Failed f), disconnect_if_connected st3))
              | (Some (Refusal e), st2) \<Rightarrow> (Some (Rejected e), st2)
              | (Some (Answer result), st2) \<Rightarrow>
                  (case unfinished_result m result of
                     Complete \<Rightarrow> (Some (Result result), st2)
                   | Suspended u \<Rightarrow> (Some (Unfinished u), st2)
                   | InvalidResult text \<Rightarrow> (Some (Failed (client_error text)), st2))))"

definition attempt ::
  "client_config \<Rightarrow> bytes \<Rightarrow> any option \<Rightarrow> bytes \<Rightarrow> (bytes \<Rightarrow> failure + header_set) option \<Rightarrow> bool
     \<Rightarrow> arrival list \<Rightarrow> int \<Rightarrow> client \<Rightarrow> attempted option \<times> client" where
  "attempt cfg m params version extra clocked arrivals ended_at st =
     (case attempt_params cfg m params version st of
        (Inl f, st1) \<Rightarrow> (Some (Failed f), st1)
      | (Inr encoded, st1) \<Rightarrow>
          (case attempt_headers m version encoded extra of
             Inl f \<Rightarrow> (Some (Failed f), st1)
           | Inr headers \<Rightarrow> attempt_sent cfg m version encoded headers clocked arrivals ended_at st1))"


section \<open>What an exchange returns\<close>

definition answers_with :: "bytes \<Rightarrow> rpc_response \<Rightarrow> exchanged \<Rightarrow> bool" where
  "answers_with raw resp out =
     (parse_response raw = Inr resp
      \<and> out = (case rs_error resp of Some e \<Rightarrow> Refusal e | None \<Rightarrow> Answer (rs_result resp)))"

lemma loop_outcome:
  assumes "exchange_loop cfg m version i clocked tok passed arrivals st = (Some out, st')"
  shows "(\<exists>f. out = Broken f) \<or> (\<exists>a \<in> set arrivals. \<exists>raw resp. ar_got a = Inr raw \<and> answers_with raw resp out
    \<and> (id_raw (rs_id resp) = id_raw i \<or> id_is_null (rs_id resp) \<and> rs_error resp \<noteq> None))"
  using assms
proof (induction arrivals arbitrary: passed st)
  case (Cons a as)
  show ?case
  proof (cases "if passed then ar_done a else None")
    case (Some c)
    with Cons.prems show ?thesis by auto
  next
    case None
    show ?thesis
    proof (cases "ar_got a")
      case (Inl f)
      with None Cons.prems show ?thesis by auto
    next
      case (Inr raw)
      obtain res st1 where step: "exchange_step cfg version i clocked tok (ar_now a) raw st = (res, st1)"
        by fastforce
      show ?thesis
      proof (cases res)
        case None
        with step Inr \<open>(if passed then ar_done a else None) = None\<close> Cons.prems
        have "exchange_loop cfg m version i clocked tok True as st1 = (Some out, st')" by simp
        from Cons.IH [OF this] show ?thesis by auto
      next
        case (Some o1)
        with step Inr \<open>(if passed then ar_done a else None) = None\<close> Cons.prems have o: "o1 = out" by simp
        have "(\<exists>f. o1 = Broken f) \<or> (\<exists>resp. answers_with raw resp o1
            \<and> (id_raw (rs_id resp) = id_raw i \<or> id_is_null (rs_id resp) \<and> rs_error resp \<noteq> None))"
          using step unfolding Some exchange_step_def answers_with_def Let_def
          by (auto split: prod.splits sum.splits bool.splits if_splits option.splits)
        then show ?thesis using o Inr by auto
      qed
    qed
  qed
qed simp

section \<open>What the client keeps and sends\<close>

lemma send_frame_keeps:
  "send_frame cfg hs frame st = (r, st') \<Longrightarrow>
     cl_unaccounted st' = cl_unaccounted st \<and> cl_connected st' = cl_connected st"
  by (auto simp: send_frame_def split: option.splits)

lemma serve_keeps:
  "serve_server_frame cfg version raw st = (r, st') \<Longrightarrow>
     cl_unaccounted st' = cl_unaccounted st \<and> cl_connected st' = cl_connected st"
  by (auto simp: serve_server_frame_def split: option.splits prod.splits if_splits dest: send_frame_keeps)

lemma serve_discovery:
  "handshake_for version = HandshakeDiscovery \<Longrightarrow> serve_server_frame cfg version raw st = (r, st') \<Longrightarrow>
     cl_sent st' = cl_sent st"
  by (auto simp: serve_server_frame_def split: option.splits prod.splits if_splits)

lemma note_simps [simp]:
  "cl_unaccounted (note_progress c t raw st) = cl_unaccounted st"
  "cl_sent (note_progress c t raw st) = cl_sent st"
  "cl_connected (note_progress c t raw st) = cl_connected st" "cl_connected (heard st) = cl_connected st"
  "cl_notified (note_progress c t raw st) = cl_notified st"
  "cl_unaccounted (heard st) = cl_unaccounted st" "cl_sent (heard st) = cl_sent st"
  "cl_notified (heard st) = cl_notified st"
  by (auto simp: note_progress_def heard_def split: option.splits)

lemma drop_first_length: "length (drop_first i ws) \<le> length ws"
  by (induction ws) auto

lemma accounting_simps:
  "length (cl_unaccounted (lapse now st)) \<le> length (cl_unaccounted st)"
  "length (cl_unaccounted (accounted_for i st)) \<le> length (cl_unaccounted st)"
  "replies_to_withdrawn now st = (b, st') \<Longrightarrow> length (cl_unaccounted st') \<le> length (cl_unaccounted st)"
  "cl_sent (lapse now st) = cl_sent st" "cl_sent (accounted_for i st) = cl_sent st"
  "replies_to_withdrawn now st = (b, st') \<Longrightarrow> cl_sent st' = cl_sent st \<and> cl_connected st' = cl_connected st"
  "cl_connected (lapse now st) = cl_connected st" "cl_connected (accounted_for i st) = cl_connected st"
proof -
  show l: "length (cl_unaccounted (lapse now st)) \<le> length (cl_unaccounted st)"
    by (simp add: lapse_def)
  show "replies_to_withdrawn now st = (b, st') \<Longrightarrow> length (cl_unaccounted st') \<le> length (cl_unaccounted st)"
    using l by (auto simp: replies_to_withdrawn_def Let_def split: list.splits)
qed (auto simp: lapse_def accounted_for_def drop_first_length replies_to_withdrawn_def Let_def split: list.splits)

lemma step_keeps:
  assumes "exchange_step cfg version i clocked tok now raw st = (r, st')"
  shows "length (cl_unaccounted st') \<le> length (cl_unaccounted st)"
    and "cl_connected st' = cl_connected st"
    and "handshake_for version = HandshakeDiscovery \<Longrightarrow> cl_sent st' = cl_sent st"
proof -
  obtain sv st1 where serve: "serve_server_frame cfg version raw (note_progress clocked tok raw (heard st)) = (sv, st1)"
    by fastforce
  have k: "cl_unaccounted st1 = cl_unaccounted st" "cl_connected st1 = cl_connected st"
    using serve_keeps [OF serve] by simp_all
  have d: "handshake_for version = HandshakeDiscovery \<Longrightarrow> cl_sent st1 = cl_sent st"
    using serve_discovery [OF _ serve] by simp
  have s: "st' = st1 \<or> (\<exists>rid. st' = accounted_for rid st1) \<or> (\<exists>b. replies_to_withdrawn now st1 = (b, st'))"
    using assms serve unfolding exchange_step_def Let_def
    by (auto split: sum.splits bool.splits if_splits prod.splits)
  show "length (cl_unaccounted st') \<le> length (cl_unaccounted st)"
    using s k accounting_simps(2,3) by (metis order_refl)
  show "cl_connected st' = cl_connected st"
    using s k accounting_simps(6,8) by metis
  show "handshake_for version = HandshakeDiscovery \<Longrightarrow> cl_sent st' = cl_sent st"
    using s d accounting_simps(5,6) by metis
qed

text \<open>What every step relates, a whole exchange does.\<close>

lemma loop_relates:
  assumes "exchange_loop cfg m version i clocked tok passed arrivals st = (r, st')"
    and step: "\<And>now raw r st st'. exchange_step cfg version i clocked tok now raw st = (r, st') \<Longrightarrow> R st st'"
    and refl: "\<And>st. R st st" and trans: "\<And>st st1 st2. R st st1 \<Longrightarrow> R st1 st2 \<Longrightarrow> R st st2"
  shows "R st st'"
  using assms(1)
proof (induction arrivals arbitrary: passed st)
  case Nil
  then show ?case using refl by simp
next
  case (Cons a as)
  show ?case
  proof (cases "(if passed then ar_done a else None) = None \<and> (\<exists>raw. ar_got a = Inr raw)")
    case False
    with Cons.prems have "st' = st" by (auto split: option.splits sum.splits)
    then show ?thesis using refl by simp
  next
    case True
    then obtain raw where raw: "ar_got a = Inr raw" by blast
    obtain res st1 where one: "exchange_step cfg version i clocked tok (ar_now a) raw st = (res, st1)"
      by fastforce
    have "(if passed then ar_done a else None) = None" using True by blast
    with Cons.prems raw one
    consider "st' = st1" | "exchange_loop cfg m version i clocked tok True as st1 = (r, st')"
      by (cases res) auto
    then show ?thesis using Cons.IH trans step [OF one] by cases blast+
  qed
qed

definition shrinks :: "client \<Rightarrow> client \<Rightarrow> bool" where
  "shrinks st st' \<longleftrightarrow> cl_connected st' = cl_connected st
     \<and> length (cl_unaccounted st') \<le> length (cl_unaccounted st)"

lemma loop_keeps:
  assumes "exchange_loop cfg m version i clocked tok passed arrivals st = (r, st')"
  shows "shrinks st st'"
    and "handshake_for version = HandshakeDiscovery \<Longrightarrow> cl_sent st' = cl_sent st"
proof -
  show "shrinks st st'"
    by (rule loop_relates [OF assms]) (use step_keeps(1,2) in \<open>fastforce simp: shrinks_def\<close>)+
  assume d: "handshake_for version = HandshakeDiscovery"
  show "cl_sent st' = cl_sent st"
    by (rule loop_relates [OF assms, of "\<lambda>st st'. cl_sent st' = cl_sent st"]) (simp_all add: step_keeps(3) [OF _ d])
qed

section \<open>What a whole attempt keeps\<close>

text \<open>The withdrawn requests still owed a reply are few, and none is left once disconnected.\<close>

definition accounts_kept :: "client \<Rightarrow> bool" where
  "accounts_kept st \<longleftrightarrow> length (cl_unaccounted st) \<le> max_unaccounted
     \<and> (cl_connected st \<or> cl_unaccounted st = [])"

lemma kept_shrinks: "accounts_kept st \<Longrightarrow> shrinks st st' \<Longrightarrow> accounts_kept st'"
  by (auto simp: accounts_kept_def shrinks_def)

lemma kept_disconnect: "accounts_kept st \<Longrightarrow> accounts_kept (disconnect_if_connected st)"
  by (auto simp: accounts_kept_def disconnect_if_connected_def disconnect_def)

lemma send_shrinks: "send_frame cfg hs frame st = (r, st') \<Longrightarrow> shrinks st st'"
  using send_frame_keeps by (auto simp: shrinks_def)

lemma notify_shrinks: "notify cfg m ps version st = (r, st') \<Longrightarrow> shrinks st st'"
  by (auto simp: notify_def shrinks_def dest: send_frame_keeps split: sum.splits option.splits)

lemma kept_account: "cl_connected st \<Longrightarrow> accounts_kept st \<Longrightarrow> accounts_kept (account cfg now i st)"
  by (auto simp: account_def accounts_kept_def accounting_simps Let_def max_unaccounted_def)

lemma kept_withdrawn:
  assumes "accounts_kept st" "withdrawn cfg now f i version st = (r, st')"
  shows "accounts_kept st'"
proof -
  define st1 where "st1 = (if cl_connected st \<and> \<not> cl_connecting st \<and> is_timed_out f
    then st\<lparr>cl_silent := \<not> (is_timed_out f \<and> cl_silent st)\<rparr> else st)"
  have k: "accounts_kept st1" using assms(1) by (simp add: st1_def accounts_kept_def)
  consider "st' = st" | "st' = st1"
    | ps r2 st2 where "notify cfg ''notifications/cancelled'' ps version st1 = (r2, st2)"
      "st' = st2 \<or> cl_connected st \<and> st' = account cfg now i st2"
    using assms(2) unfolding withdrawn_def st1_def Let_def
    by (auto split: option.splits if_splits prod.splits)
  then show ?thesis
  proof cases
    case 3
    note n = notify_shrinks [OF 3(1)]
    have "cl_connected st \<Longrightarrow> cl_connected st2" using n by (simp add: shrinks_def st1_def)
    then show ?thesis using 3(2) kept_shrinks [OF k n] kept_account by blast
  qed (use assms(1) k in simp_all)
qed

lemma kept_params:
  "accounts_kept st \<Longrightarrow> attempt_params cfg m params version st = (enc, st') \<Longrightarrow> accounts_kept st'"
  by (auto simp: attempt_params_def accounts_kept_def Let_def split: if_splits)

lemma kept_sent:
  assumes "accounts_kept st"
    "attempt_sent cfg m version encoded headers clocked arrivals ended_at st = (r, st')"
  shows "accounts_kept st'"
proof -
  let ?st1 = "st\<lparr>cl_next_id := wrap64 (cl_next_id st + 1)\<rparr>"
  have k1: "accounts_kept ?st1" using assms(1) by (simp add: accounts_kept_def)
  consider "st' = ?st1"
    | frame i tok out st3 where
      "exchange_frame cfg m frame headers i version clocked tok arrivals ?st1 = (out, st3)"
      "st' = st3 \<or> (\<exists>f b st4. withdrawn cfg ended_at f i version st3 = (b, st4)
        \<and> (st' = st4 \<or> st' = disconnect_if_connected st4))"
    using assms(2) unfolding attempt_sent_def Let_def
    by (simp split: option.splits prod.splits exchanged.splits bool.splits result_verdict.splits) blast+
  then show ?thesis
  proof cases
    case 2
    have "shrinks ?st1 st3"
      using 2(1) unfolding exchange_frame_def
      by (auto split: prod.splits option.splits dest!: send_shrinks loop_keeps(1) simp: shrinks_def)
    then have "accounts_kept st3" using kept_shrinks k1 by blast
    then show ?thesis using 2(2) kept_withdrawn kept_disconnect by blast
  qed (use k1 in simp_all)
qed

lemma kept_attempt:
  assumes "accounts_kept st" "attempt cfg m params version extra clocked arrivals ended_at st = (r, st')"
  shows "accounts_kept st'"
  using assms(2) unfolding attempt_def
  by (auto split: prod.splits sum.splits dest: kept_params [OF assms(1)] kept_sent)

section \<open>Properties\<close>

text \<open>
  An exchange returns only what the server answered it: whatever arrives, a result or an error is
  handed to the caller only if some frame that arrived parses as a response carrying it, and that
  response states the id of this request, or is an error under a null id.
\<close>

theorem exchange_outcome:
  "case fst (exchange_frame cfg m frame headers i version clocked tok arrivals st) of
     None \<Rightarrow> True | Some (Broken f) \<Rightarrow> True
   | Some out \<Rightarrow> (\<exists>a \<in> set arrivals. \<exists>raw resp. ar_got a = Inr raw \<and> answers_with raw resp out
       \<and> (id_raw (rs_id resp) = id_raw i \<or> id_is_null (rs_id resp) \<and> rs_error resp \<noteq> None))"
proof -
  have "(\<exists>f. out = Broken f) \<or> (\<exists>a \<in> set arrivals. \<exists>raw resp. ar_got a = Inr raw \<and> answers_with raw resp out
      \<and> (id_raw (rs_id resp) = id_raw i \<or> id_is_null (rs_id resp) \<and> rs_error resp \<noteq> None))"
    if "fst (exchange_frame cfg m frame headers i version clocked tok arrivals st) = Some out" for out
  proof -
    obtain r st1 where s: "send_frame cfg headers frame st = (r, st1)" by fastforce
    show ?thesis
    proof (cases r)
      case (Some f)
      with that s have "out = Broken f" by (simp add: exchange_frame_def)
      then show ?thesis by blast
    next
      case None
      with that s have "fst (exchange_loop cfg m version i clocked tok False arrivals st1) = Some out"
        by (simp add: exchange_frame_def)
      then obtain st' where "exchange_loop cfg m version i clocked tok False arrivals st1 = (Some out, st')"
        by (metis prod.collapse)
      then show ?thesis by (rule loop_outcome)
    qed
  qed
  then show ?thesis by (auto split: option.splits exchanged.splits)
qed

text \<open>
  The account of withdrawn requests stays bounded: an attempt, however it ends, leaves at most the
  maximum number of requests owed a reply, and none at all on a client it leaves disconnected.
\<close>

theorem attempt_keeps_accounts:
  assumes "accounts_kept st"
  shows "accounts_kept (snd (attempt cfg m params version extra clocked arrivals ended_at st))"
  using assms kept_attempt by (metis prod.collapse)

text \<open>
  Nothing is ever sent back over the discovery revision: whatever the server sends in the course of
  an exchange, requests included, the client sends only the frame of its own request.
\<close>

theorem discovery_sends_nothing_back:
  assumes "handshake_for version = HandshakeDiscovery"
  shows "cl_sent (snd (exchange_frame cfg m frame headers i version clocked tok arrivals st))
    \<in> {cl_sent st, cl_sent st @ [(headers, frame)]}"
proof -
  obtain r st1 where s: "send_frame cfg headers frame st = (r, st1)" by fastforce
  have k: "cl_sent st1 = cl_sent st \<or> cl_sent st1 = cl_sent st @ [(headers, frame)]"
    using s by (auto simp: send_frame_def split: option.splits)
  obtain out st' where l: "exchange_loop cfg m version i clocked tok False arrivals st1 = (out, st')" by fastforce
  show ?thesis using s k loop_keeps(2) [OF l assms] l by (cases r) (auto simp: exchange_frame_def)
qed

end
