(* ===== verification/Client_Parse.thy ===== *)
theory Client_Parse
  imports Client_Exchange Go_Float Base64
begin

text \<open>
  What the client reads out of results: the protocol versions it speaks
  (\<open>client/protocol_version.go\<close>), the results of the two handshakes (\<open>client/discover.go\<close>,
  \<open>client/results.go\<close>), the results of calls, reads and prompts (\<open>client/results.go\<close>), and the entries of
  listings (\<open>client/primitives.go\<close>). A Go map is the association list of its members, a map that may be
  nil an option of it.
\<close>

section \<open>Protocol versions\<close>

definition client_supported_versions :: "bytes list" where
  "client_supported_versions = [protocol_v20260728, protocol_v20251125, protocol_v20250618]"

definition client_initialize_versions :: "bytes list" where
  "client_initialize_versions = [protocol_v20251125, protocol_v20250618]"

definition latest_protocol_version :: bytes where
  "latest_protocol_version = protocol_v20260728"

definition preferred_protocol_version :: "bytes list \<Rightarrow> bytes option" where
  "preferred_protocol_version versions =
     find (\<lambda>supported. list_ex (\<lambda>offered. offered = supported) versions) client_supported_versions"

definition supports_protocol_version :: "bytes \<Rightarrow> bool" where
  "supports_protocol_version version = (preferred_protocol_version [version] \<noteq> None)"

definition supports_initialize_version :: "bytes \<Rightarrow> bool" where
  "supports_initialize_version version = list_ex (\<lambda>supported. version = supported) client_initialize_versions"

definition liveness_method :: "bytes \<Rightarrow> bytes" where
  "liveness_method version =
     (if handshake_for version = HandshakeDiscovery then ''server/discover'' else ''ping'')"

fun join_versions :: "bytes list \<Rightarrow> bytes" where
  "join_versions [] = []"
| "join_versions [v] = v"
| "join_versions (v # vs) = v @ '', '' @ join_versions vs"

definition code_header_mismatch_client :: int where "code_header_mismatch_client = -32020"
definition code_missing_capability_client :: int where "code_missing_capability_client = -32021"
definition code_unsupported_version_client :: int where "code_unsupported_version_client = -32022"

definition identifies_discovery_server :: "rpc_error \<Rightarrow> bool" where
  "identifies_discovery_server e =
     (err_code e \<in> set [code_header_mismatch_client, code_missing_capability_client,
        code_unsupported_version_client])"

section \<open>Members of a result\<close>

text \<open>A field of a struct that holds a member raw; a payload that is no object is refused.\<close>

definition raw_member :: "bytes \<Rightarrow> (bytes \<times> bytes \<times> json) list \<Rightarrow> bytes" where
  "raw_member name ms = foldl (\<lambda>old (k, r, v). if field_is name (unquote k) then r else old) [] ms"

definition struct_members :: "bytes \<Rightarrow> (bytes \<times> bytes \<times> json) list option" where
  "struct_members raw =
     (case json_parse raw of Some (JObj ms) \<Rightarrow> Some ms | Some JNull \<Rightarrow> Some [] | _ \<Rightarrow> None)"

text \<open>\<open>decodeMember\<close> into a list, a map and a string: absent, null and ill-typed alike where they are.\<close>

definition member_list :: "bytes \<Rightarrow> any list option" where
  "member_list raw =
     (if raw = [] then None else case unmarshal_any raw of Some (AList vs) \<Rightarrow> Some vs | _ \<Rightarrow> None)"

definition member_map :: "bytes \<Rightarrow> (bytes \<times> any) list option" where
  "member_map raw =
     (if raw = [] then None else case unmarshal_any_map raw of Dec ms \<Rightarrow> Some ms | _ \<Rightarrow> None)"

definition member_text :: "bytes \<Rightarrow> bytes" where
  "member_text raw = (if raw = [] then [] else case unmarshal_string raw of Some s \<Rightarrow> s | None \<Rightarrow> [])"

definition strings_of :: "any list \<Rightarrow> bytes list" where
  "strings_of vs = concat (map (\<lambda>v. case v of AStr s \<Rightarrow> [s] | _ \<Rightarrow> []) vs)"

definition empty_implementation :: implementation where
  "empty_implementation = \<lparr>im_name = [], im_version = [], im_title = [], im_description = [], im_icons = [],
     im_website = []\<rparr>"

definition implementation_member ::
  "bytes \<times> bytes \<times> json \<Rightarrow> implementation \<Rightarrow> implementation option" where
  "implementation_member m im =
     (case m of (k, r, v) \<Rightarrow>
        let key = unquote k in
        if field_is ''name'' key then map_option (\<lambda>s. im\<lparr>im_name := s\<rparr>) (decode_text (im_name im) v)
        else if field_is ''version'' key then map_option (\<lambda>s. im\<lparr>im_version := s\<rparr>) (decode_text (im_version im) v)
        else if field_is ''title'' key then map_option (\<lambda>s. im\<lparr>im_title := s\<rparr>) (decode_text (im_title im) v)
        else if field_is ''description'' key
        then map_option (\<lambda>s. im\<lparr>im_description := s\<rparr>) (decode_text (im_description im) v)
        else if field_is ''websiteUrl'' key then map_option (\<lambda>s. im\<lparr>im_website := s\<rparr>) (decode_text (im_website im) v)
        else Some im)"

definition parse_implementation :: "bytes \<Rightarrow> implementation option" where
  "parse_implementation raw =
     (if raw = [] then None
      else case struct_members raw of
        None \<Rightarrow> None
      | Some ms \<Rightarrow>
          (case decode_members implementation_member ms empty_implementation of
             None \<Rightarrow> None
           | Some im \<Rightarrow> if im_name im = [] \<or> im_version im = [] then None else Some im))"

section \<open>Handshake results\<close>

record discovered =
  dr_versions :: "bytes list"
  dr_capabilities :: "(bytes \<times> any) list"
  dr_info :: implementation
  dr_instructions :: bytes

definition msg_invalid_discover :: bytes where
  "msg_invalid_discover = ''invalid discover response from server''"

definition discovered_info :: "bytes \<Rightarrow> implementation" where
  "discovered_info raw_meta =
     (if raw_meta = [] then empty_implementation
      else case unmarshal_map raw_meta of
        Dec meta \<Rightarrow>
          (case parse_implementation (env_raw meta meta_key_server_info) of
             Some im \<Rightarrow> im | None \<Rightarrow> empty_implementation)
      | _ \<Rightarrow> empty_implementation)"

definition parse_discover_result :: "bytes \<Rightarrow> failure + discovered" where
  "parse_discover_result raw =
     (case struct_members raw of
        None \<Rightarrow> Inl (client_error msg_invalid_discover)
      | Some ms \<Rightarrow>
          (case (member_list (raw_member ''supportedVersions'' ms), member_map (raw_member ''capabilities'' ms)) of
             (Some offered, Some capabilities) \<Rightarrow>
               Inr \<lparr>dr_versions = strings_of offered, dr_capabilities = capabilities,
                    dr_info = discovered_info (raw_member ''_meta'' ms),
                    dr_instructions = member_text (raw_member ''instructions'' ms)\<rparr>
           | _ \<Rightarrow> Inl (client_error msg_invalid_discover)))"

record initialized =
  ir_version :: bytes
  ir_capabilities :: "(bytes \<times> any) list"
  ir_info :: implementation
  ir_instructions :: bytes

definition msg_invalid_initialize :: bytes where
  "msg_invalid_initialize = ''invalid initialize response from server''"

definition parse_initialize_result :: "(nat \<Rightarrow> bool) \<Rightarrow> bytes \<Rightarrow> failure + initialized" where
  "parse_initialize_result table raw =
     (case struct_members raw of
        None \<Rightarrow> Inl (client_error msg_invalid_initialize)
      | Some ms \<Rightarrow>
          (let chosen = member_text (raw_member ''protocolVersion'' ms)
           in if \<not> supports_initialize_version chosen
              then Inl (client_error (''the server chose protocol version [''
                     @ quoted_text table (if chosen = [] then ''none'' else chosen)
                     @ '']; this client supports ['' @ join_versions client_initialize_versions @ '']''))
              else case (member_map (raw_member ''capabilities'' ms),
                         parse_implementation (raw_member ''serverInfo'' ms)) of
                (Some capabilities, Some info) \<Rightarrow>
                  Inr \<lparr>ir_version = chosen, ir_capabilities = capabilities, ir_info = info,
                       ir_instructions = member_text (raw_member ''instructions'' ms)\<rparr>
              | _ \<Rightarrow> Inl (client_error msg_invalid_initialize)))"

section \<open>Results of calls, reads and prompts\<close>

text \<open>
  A destination that already holds a value is decoded into: members are added to a map, and a list
  is decoded element by element over what it held. A null leaves no map and no list.
\<close>

definition decode_any_map :: "(bytes \<times> any) list option \<Rightarrow> json \<Rightarrow> (bytes \<times> any) list option option" where
  "decode_any_map old v =
     (case v of
        JNull \<Rightarrow> Some None
      | JObj ms \<Rightarrow>
          map_option (\<lambda>l. Some (fold (\<lambda>(k, a) m. AList.update k a m) l (case old of None \<Rightarrow> [] | Some m \<Rightarrow> m)))
            (any_members ms)
      | _ \<Rightarrow> None)"

type_synonym any_maps = "(bytes \<times> any) list option list"

fun decode_map_elems :: "any_maps \<Rightarrow> (bytes \<times> json) list \<Rightarrow> any_maps option" where
  "decode_map_elems old [] = Some []"
| "decode_map_elems old ((r, v) # vs) =
     (case decode_any_map (case old of [] \<Rightarrow> None | m # _ \<Rightarrow> m) v of
        None \<Rightarrow> None
      | Some m \<Rightarrow> map_option (\<lambda>ms. m # ms) (decode_map_elems (drop 1 old) vs))"

definition decode_maps :: "any_maps \<Rightarrow> json \<Rightarrow> any_maps option" where
  "decode_maps old v =
     (case v of JNull \<Rightarrow> Some [] | JArr vs \<Rightarrow> decode_map_elems old vs | _ \<Rightarrow> None)"

record tool_outcome =
  to_content :: any_maps
  to_is_error :: bool
  to_structured :: "any option"
  to_meta :: "(bytes \<times> any) list option"

text \<open>The result, and the structured content still raw.\<close>

definition tool_result_member ::
  "bytes \<times> bytes \<times> json \<Rightarrow> tool_outcome \<times> bytes \<Rightarrow> (tool_outcome \<times> bytes) option" where
  "tool_result_member m old =
     (case m of (k, r, v) \<Rightarrow> case old of (res, structured) \<Rightarrow>
        let key = unquote k in
        if field_is ''content'' key
        then map_option (\<lambda>c. (res\<lparr>to_content := c\<rparr>, structured)) (decode_maps (to_content res) v)
        else if field_is ''isError'' key
        then (case v of JBool b \<Rightarrow> Some (res\<lparr>to_is_error := b\<rparr>, structured) | JNull \<Rightarrow> Some old | _ \<Rightarrow> None)
        else if field_is ''structuredContent'' key then Some (res, r)
        else if field_is ''_meta'' key
        then map_option (\<lambda>c. (res\<lparr>to_meta := c\<rparr>, structured)) (decode_any_map (to_meta res) v)
        else Some old)"

definition msg_invalid_result :: "bytes \<Rightarrow> bytes" where
  "msg_invalid_result m = ''invalid '' @ m @ '' result from server''"

definition parse_tool_result :: "bytes \<Rightarrow> failure + tool_outcome" where
  "parse_tool_result raw =
     (case Option.bind (struct_members raw) (\<lambda>ms. decode_members tool_result_member ms
             (\<lparr>to_content = [], to_is_error = False, to_structured = None, to_meta = None\<rparr>, [])) of
        None \<Rightarrow> Inl (client_error (msg_invalid_result ''tools/call''))
      | Some (res, structured) \<Rightarrow>
          if structured = [] then Inr res
          else (case unmarshal_any structured of
                  None \<Rightarrow> Inl (client_error (msg_invalid_result ''tools/call''))
                | Some a \<Rightarrow> Inr (res\<lparr>to_structured := Some a\<rparr>)))"

definition structured_object :: "tool_outcome \<Rightarrow> (bytes \<times> any) list option" where
  "structured_object res = (case to_structured res of Some (AMap ms) \<Rightarrow> Some ms | _ \<Rightarrow> None)"

definition any_at :: "(bytes \<times> any) list option \<Rightarrow> bytes \<Rightarrow> any option" where
  "any_at m k = (case m of None \<Rightarrow> None | Some ms \<Rightarrow> map_of ms k)"

definition text_at :: "(bytes \<times> any) list option \<Rightarrow> bytes \<Rightarrow> bytes option" where
  "text_at m k = (case any_at m k of Some (AStr s) \<Rightarrow> Some s | _ \<Rightarrow> None)"

definition text_block :: "(bytes \<times> any) list option \<Rightarrow> bytes" where
  "text_block b =
     (if any_at b ''type'' = Some (AStr ''text'') then (case text_at b ''text'' of Some t \<Rightarrow> t | None \<Rightarrow> []) else [])"

definition join_text_blocks :: "any_maps \<Rightarrow> bytes" where
  "join_text_blocks blocks = concat (map text_block blocks)"

record read_outcome =
  ro_contents :: any_maps
  ro_meta :: "(bytes \<times> any) list option"

definition read_result_member :: "bytes \<times> bytes \<times> json \<Rightarrow> read_outcome \<Rightarrow> read_outcome option" where
  "read_result_member m res =
     (case m of (k, r, v) \<Rightarrow>
        if field_is ''contents'' (unquote k) then map_option (\<lambda>c. res\<lparr>ro_contents := c\<rparr>) (decode_maps (ro_contents res) v)
        else if field_is ''_meta'' (unquote k) then map_option (\<lambda>c. res\<lparr>ro_meta := c\<rparr>) (decode_any_map (ro_meta res) v)
        else Some res)"

definition parse_read_result :: "bytes \<Rightarrow> failure + read_outcome" where
  "parse_read_result raw =
     (case Option.bind (struct_members raw) (\<lambda>ms. decode_members read_result_member ms
             \<lparr>ro_contents = [], ro_meta = None\<rparr>) of
        None \<Rightarrow> Inl (client_error (msg_invalid_result ''resources/read''))
      | Some res \<Rightarrow> Inr res)"

definition read_mime_type :: "read_outcome \<Rightarrow> bytes" where
  "read_mime_type res =
     (case find (\<lambda>c. text_at c ''mimeType'' \<noteq> None \<and> text_at c ''mimeType'' \<noteq> Some []) (ro_contents res) of
        Some c \<Rightarrow> the (text_at c ''mimeType'') | None \<Rightarrow> [])"

definition read_block :: "(bytes \<times> any) list option \<Rightarrow> bytes" where
  "read_block c =
     (case text_at c ''text'' of
        Some t \<Rightarrow> t
      | None \<Rightarrow>
          (case text_at c ''blob'' of
             None \<Rightarrow> []
           | Some blob \<Rightarrow> (case b64_decode False blob of Some d \<Rightarrow> d | None \<Rightarrow> [])))"

definition read_content :: "read_outcome \<Rightarrow> bytes" where
  "read_content res = concat (map read_block (ro_contents res))"

record prompt_outcome =
  po_messages :: any_maps
  po_description :: bytes
  po_meta :: "(bytes \<times> any) list option"

definition prompt_result_member :: "bytes \<times> bytes \<times> json \<Rightarrow> prompt_outcome \<Rightarrow> prompt_outcome option" where
  "prompt_result_member m res =
     (case m of (k, r, v) \<Rightarrow>
        if field_is ''messages'' (unquote k) then map_option (\<lambda>c. res\<lparr>po_messages := c\<rparr>) (decode_maps (po_messages res) v)
        else if field_is ''description'' (unquote k)
        then map_option (\<lambda>s. res\<lparr>po_description := s\<rparr>) (decode_text (po_description res) v)
        else if field_is ''_meta'' (unquote k) then map_option (\<lambda>c. res\<lparr>po_meta := c\<rparr>) (decode_any_map (po_meta res) v)
        else Some res)"

definition parse_prompt_result :: "bytes \<Rightarrow> failure + prompt_outcome" where
  "parse_prompt_result raw =
     (case Option.bind (struct_members raw) (\<lambda>ms. decode_members prompt_result_member ms
             \<lparr>po_messages = [], po_description = [], po_meta = None\<rparr>) of
        None \<Rightarrow> Inl (client_error (msg_invalid_result ''prompts/get''))
      | Some res \<Rightarrow> Inr res)"

definition prompt_text :: "prompt_outcome \<Rightarrow> bytes" where
  "prompt_text res =
     concat (map (\<lambda>m. case any_at m ''content'' of Some (AMap c) \<Rightarrow> text_block (Some c) | _ \<Rightarrow> []) (po_messages res))"

section \<open>Entries of listings\<close>

definition payload_string :: "(bytes \<times> any) list \<Rightarrow> bytes \<Rightarrow> bytes" where
  "payload_string m k = (case map_of m k of Some (AStr s) \<Rightarrow> s | _ \<Rightarrow> [])"

definition payload_map :: "(bytes \<times> any) list \<Rightarrow> bytes \<Rightarrow> (bytes \<times> any) list option" where
  "payload_map m k = (case map_of m k of Some (AMap ms) \<Rightarrow> Some ms | _ \<Rightarrow> None)"

record client_tool =
  ct_name :: bytes
  ct_title :: bytes
  ct_description :: bytes
  ct_input_schema :: "(bytes \<times> any) list option"
  ct_output_schema :: "(bytes \<times> any) list option"
  ct_annotations :: "(bytes \<times> any) list option"
  ct_meta :: "(bytes \<times> any) list option"
  ct_mirrored :: "bytes + mirrored_parameter list"

definition parse_tool :: "(bytes \<times> any) list \<Rightarrow> failure + client_tool" where
  "parse_tool payload =
     (if payload_string payload ''name'' = [] then Inl (client_error ''invalid tool payload from server'')
      else Inr \<lparr>ct_name = payload_string payload ''name'', ct_title = payload_string payload ''title'',
        ct_description = payload_string payload ''description'', ct_input_schema = payload_map payload ''inputSchema'',
        ct_output_schema = payload_map payload ''outputSchema'', ct_annotations = payload_map payload ''annotations'',
        ct_meta = payload_map payload ''_meta'',
        ct_mirrored = parse_mirrored_parameters
          (case payload_map payload ''inputSchema'' of None \<Rightarrow> [] | Some schema \<Rightarrow> schema)\<rparr>)"

record client_resource =
  cr_uri :: bytes
  cr_name :: bytes
  cr_title :: bytes
  cr_description :: bytes
  cr_mime :: bytes
  cr_size :: "int option"
  cr_annotations :: "(bytes \<times> any) list option"
  cr_meta :: "(bytes \<times> any) list option"

definition parse_resource :: "(bytes \<times> any) list \<Rightarrow> failure + client_resource" where
  "parse_resource payload =
     (if payload_string payload ''uri'' = [] \<or> payload_string payload ''name'' = []
      then Inl (client_error ''invalid resource payload from server'')
      else Inr \<lparr>cr_uri = payload_string payload ''uri'', cr_name = payload_string payload ''name'',
        cr_title = payload_string payload ''title'', cr_description = payload_string payload ''description'',
        cr_mime = payload_string payload ''mimeType'',
        cr_size = (case map_of payload ''size'' of Some (ANum n) \<Rightarrow> Some (float_to_int64 (literal_float n)) | _ \<Rightarrow> None),
        cr_annotations = payload_map payload ''annotations'', cr_meta = payload_map payload ''_meta''\<rparr>)"

record client_prompt =
  cp_name :: bytes
  cp_title :: bytes
  cp_description :: bytes
  cp_arguments :: "(bytes \<times> any) list list"
  cp_meta :: "(bytes \<times> any) list option"

definition parse_prompt :: "(bytes \<times> any) list \<Rightarrow> failure + client_prompt" where
  "parse_prompt payload =
     (if payload_string payload ''name'' = [] then Inl (client_error ''invalid prompt payload from server'')
      else Inr \<lparr>cp_name = payload_string payload ''name'', cp_title = payload_string payload ''title'',
        cp_description = payload_string payload ''description'',
        cp_arguments = (case map_of payload ''arguments'' of
            Some (AList items) \<Rightarrow> concat (map (\<lambda>a. case a of AMap m \<Rightarrow> [m] | _ \<Rightarrow> []) items)
          | _ \<Rightarrow> []),
        cp_meta = payload_map payload ''_meta''\<rparr>)"

section \<open>What the choice of a version guarantees\<close>

lemma preferred_protocol_version_newest:
  "preferred_protocol_version versions = Some v \<longleftrightarrow>
     (\<exists>older newer. client_supported_versions = newer @ v # older \<and> v \<in> set versions \<and> set newer \<inter> set versions = {})"
proof -
  have e: "list_ex (\<lambda>offered. offered = s) versions \<longleftrightarrow> s \<in> set versions" for s by (auto simp: list_ex_iff)
  have "preferred_protocol_version versions = Some v \<longleftrightarrow>
    (\<exists>i < length client_supported_versions. client_supported_versions ! i \<in> set versions
       \<and> v = client_supported_versions ! i \<and> (\<forall>j < i. client_supported_versions ! j \<notin> set versions))"
    by (simp add: preferred_protocol_version_def e find_Some_iff)
  also have "\<dots> \<longleftrightarrow> (\<exists>older newer. client_supported_versions = newer @ v # older \<and> v \<in> set versions
      \<and> set newer \<inter> set versions = {})" (is "?l \<longleftrightarrow> ?r")
  proof
    assume ?l
    then obtain i where i: "i < length client_supported_versions" "v = client_supported_versions ! i"
      "v \<in> set versions" "\<forall>j < i. client_supported_versions ! j \<notin> set versions" by blast
    have "set (take i client_supported_versions) \<inter> set versions = {}"
      using i(1,4) by (auto simp: in_set_conv_nth)
    then show ?r using id_take_nth_drop [OF i(1)] i(2,3) by blast
  next
    assume ?r
    then obtain older newer where o: "client_supported_versions = newer @ v # older" "v \<in> set versions"
      "set newer \<inter> set versions = {}" by blast
    have "\<forall>j < length newer. client_supported_versions ! j \<notin> set versions"
      unfolding o(1) using o(3) by (auto simp: nth_append disjoint_iff)
    moreover have "length newer < length client_supported_versions" "client_supported_versions ! length newer = v"
      unfolding o(1) by simp_all
    ultimately show ?l using o(2) by blast
  qed
  finally show ?thesis .
qed

lemma preferred_supported: "preferred_protocol_version versions = Some v \<Longrightarrow> v \<in> set client_supported_versions"
  by (auto simp: preferred_protocol_version_def find_Some_iff)

lemma initialize_supported [simp]: "set client_initialize_versions \<subseteq> set client_supported_versions"
  by (auto simp: client_initialize_versions_def client_supported_versions_def)

lemma supports_initialize_iff: "supports_initialize_version v \<longleftrightarrow> v \<in> set client_initialize_versions"
  by (auto simp: supports_initialize_version_def list_ex_iff)

lemma supports_protocol_iff: "supports_protocol_version v \<longleftrightarrow> v \<in> set client_supported_versions"
  by (auto simp: supports_protocol_version_def preferred_protocol_version_def find_None_iff)

lemma initialize_handshake: "v \<in> set client_initialize_versions \<Longrightarrow> handshake_for v = HandshakeInitialize"
  by (auto simp: client_initialize_versions_def handshake_for_def protocol_v20260728_def protocol_v20251125_def
      protocol_v20250618_def)

lemma parse_initialize_version:
  "parse_initialize_result table raw = Inr res \<Longrightarrow> ir_version res \<in> set client_initialize_versions"
  by (auto simp: parse_initialize_result_def Let_def supports_initialize_iff
      split: option.splits if_splits prod.splits)

end
