(* ===== verification/Client_Negotiation.thy ===== *)
theory Client_Negotiation
  imports Client_Parse
begin

text \<open>
  The handshakes of the client (\<open>client/negotiation.go\<close>), over everything one client holds: the state
  of its requests, the connection it negotiated, the pinned version, and what it keeps of the tools of
  the server. An action takes that state and returns, fails, or does not return (the transport has
  nothing more to deliver). What lies outside is a world of functions of the moment: the transport as
  each action finds it, what it delivers, the clock, the state of the caller's context. Every action
  that meets the world is noted, and the number of notes is the moment, so no two share one.
\<close>

section \<open>The state of a client\<close>

record negotiated =
  ng_version :: bytes
  ng_discover :: "discovered option"
  ng_initialize :: "initialized option"
  ng_stale_after :: int
  ng_authorization :: int

text \<open>What a listing stated for a tool, and what is kept of the tools of one connection.\<close>

record tool_definition =
  td_mirrored :: "bytes + mirrored_parameter list"
  td_stale_after :: int

record catalogue =
  ca_generation :: int
  ca_tools :: "(bytes \<times> tool_definition) list"
  ca_whole :: bool
  ca_whole_until :: int

definition empty_catalogue :: "int \<Rightarrow> catalogue" where
  "empty_catalogue generation =
     \<lparr>ca_generation = generation, ca_tools = [], ca_whole = False, ca_whole_until = 0\<rparr>"

text \<open>
  What a client holds, ending with the headers the tool call in hand has rendered, and the moves it made.
\<close>

datatype move = Connects | Disconnects | Requests bytes bytes | Notifies bytes bytes | Looks

record session =
  ss_client :: client
  ss_conn :: "negotiated option"
  ss_pinned :: bytes
  ss_pin_err :: "bytes option"
  ss_generation :: int
  ss_catalogue :: catalogue
  ss_changes :: int
  ss_excluded :: "(bytes \<times> bytes) list"
  ss_excluded_for :: int
  ss_rendered :: "header_set option"
  ss_moves :: "move list"

record world =
  wd_carries_headers :: bool
  wd_config :: "nat \<Rightarrow> client_config"
  wd_reads :: "nat \<Rightarrow> arrival list"
  wd_clocked :: "nat \<Rightarrow> bool"
  wd_now :: "nat \<Rightarrow> int"
  wd_connects :: "nat \<Rightarrow> failure option"
  wd_context :: "nat \<Rightarrow> context_end option"
  wd_authorization :: "nat \<Rightarrow> int"

definition moment :: "session \<Rightarrow> nat" where
  "moment st = length (ss_moves st)"

definition noted :: "move \<Rightarrow> session \<Rightarrow> session" where
  "noted x st = st\<lparr>ss_moves := ss_moves st @ [x]\<rparr>"

section \<open>Actions\<close>

text \<open>What an error holds: a failure of the client or the transport, an error of the server under a
  message, or a result that asks for more.\<close>

datatype trouble = Down failure | Refused bytes rpc_error | Suspends unfinished

datatype 'a outcome = Returned 'a | Erred trouble | NoReturn

type_synonym 'a act = "session \<Rightarrow> 'a outcome \<times> session"

definition give :: "'a \<Rightarrow> 'a act" where "give x st = (Returned x, st)"
definition fail :: "trouble \<Rightarrow> 'a act" where "fail t st = (Erred t, st)"

definition on_result :: "'a act \<Rightarrow> (trouble + 'a \<Rightarrow> 'b act) \<Rightarrow> 'b act" where
  "on_result a k st =
     (case a st of
        (NoReturn, st1) \<Rightarrow> (NoReturn, st1)
      | (Erred t, st1) \<Rightarrow> k (Inl t) st1
      | (Returned x, st1) \<Rightarrow> k (Inr x) st1)"

definition on_success :: "'a act \<Rightarrow> ('a \<Rightarrow> 'b act) \<Rightarrow> 'b act" where
  "on_success a k = on_result a (case_sum fail k)"

definition look :: "(nat \<Rightarrow> 'a) \<Rightarrow> 'a act" where
  "look f st = (Returned (f (moment st)), noted Looks st)"

definition with_session :: "(session \<Rightarrow> 'a act) \<Rightarrow> 'a act" where
  "with_session k st = k st st"

definition update :: "(session \<Rightarrow> session) \<Rightarrow> unit act" where
  "update f st = (Returned (), f st)"

section \<open>Errors\<close>

definition rpc_error_text :: "rpc_error \<Rightarrow> bytes" where
  "rpc_error_text e = ''jsonrpc: code '' @ int_to_dec (err_code e) @ '': '' @ err_message e"

definition unfinished_error_text :: "unfinished \<Rightarrow> bytes" where
  "unfinished_error_text u =
     ''the server did not complete ['' @ uf_method u @ '']: it answered with a ['' @ result_input_required
     @ ''] result and is waiting for further input''"

definition trouble_text :: "trouble \<Rightarrow> bytes" where
  "trouble_text t =
     (case t of Down f \<Rightarrow> fl_text f | Refused text e \<Rightarrow> text | Suspends u \<Rightarrow> unfinished_error_text u)"

definition wrap_trouble :: "bytes \<Rightarrow> trouble \<Rightarrow> trouble" where
  "wrap_trouble text t =
     (case t of
        Down f \<Rightarrow> Down (f\<lparr>fl_text := text @ '': '' @ fl_text f\<rparr>)
      | Refused inner e \<Rightarrow> Refused (text @ '': '' @ inner) e
      | Suspends u \<Rightarrow> Suspends u)"

definition is_transport_error :: "trouble \<Rightarrow> bool" where
  "is_transport_error t = (case t of Down f \<Rightarrow> fl_class f \<in> {TimedOut, ChannelDown} | _ \<Rightarrow> False)"

definition is_timeout_error :: "trouble \<Rightarrow> bool" where
  "is_timeout_error t = (case t of Down f \<Rightarrow> fl_class f = TimedOut | _ \<Rightarrow> False)"

definition is_authorization_error :: "trouble \<Rightarrow> bool" where
  "is_authorization_error t = (case t of Down f \<Rightarrow> fl_unauthorized f | _ \<Rightarrow> False)"

definition is_unanswered :: "trouble \<Rightarrow> bool" where
  "is_unanswered t = (case t of Down f \<Rightarrow> fl_unanswered f | _ \<Rightarrow> False)"

definition is_session_expired :: "trouble \<Rightarrow> bool" where
  "is_session_expired t = (case t of Down f \<Rightarrow> fl_class f = SessionExpired | _ \<Rightarrow> False)"

section \<open>What the server announces\<close>

definition tools_changed_notification :: bytes where
  "tools_changed_notification = ''notifications/tools/list_changed''"

definition server_notified :: "bytes \<Rightarrow> session \<Rightarrow> session" where
  "server_notified m st =
     (if m \<noteq> tools_changed_notification then st
      else st\<lparr>ss_catalogue := empty_catalogue (ca_generation (ss_catalogue st)),
              ss_changes := wrap64 (ss_changes st + 1)\<rparr>)"

text \<open>The client after a request, told of the notifications that came in between.\<close>

definition with_client :: "client \<Rightarrow> session \<Rightarrow> session" where
  "with_client cl st =
     fold server_notified (drop (length (cl_notified (ss_client st))) (cl_notified cl)) (st\<lparr>ss_client := cl\<rparr>)"

section \<open>Requests and notifications\<close>

definition attempted_outcome :: "attempted option \<Rightarrow> bytes outcome" where
  "attempted_outcome r =
     (case r of
        None \<Rightarrow> NoReturn
      | Some (Failed f) \<Rightarrow> Erred (Down f)
      | Some (Rejected e) \<Rightarrow> Erred (Refused (rpc_error_text e) e)
      | Some (Unfinished u) \<Rightarrow> Erred (Suspends u)
      | Some (Result raw) \<Rightarrow> Returned raw)"

definition send_request :: "world \<Rightarrow> bytes \<Rightarrow> bytes \<Rightarrow> bytes \<Rightarrow> header_set \<Rightarrow> bytes act" where
  "send_request w m version encoded headers st =
     (let n = moment st in
      case attempt_sent (wd_config w n) m version encoded headers (wd_clocked w n) (wd_reads w n) (wd_now w n)
             (ss_client st) of
        (r, cl) \<Rightarrow> (attempted_outcome r, noted (Requests m version) (with_client cl st)))"

definition request_params :: "world \<Rightarrow> bytes \<Rightarrow> any option \<Rightarrow> bytes \<Rightarrow> bytes act" where
  "request_params w m params version st =
     (case attempt_params (wd_config w (moment st)) m params version (ss_client st) of
        (Inl f, cl) \<Rightarrow> (Erred (Down f), noted Looks (with_client cl st))
      | (Inr encoded, cl) \<Rightarrow> (Returned encoded, noted Looks (with_client cl st)))"

text \<open>The headers of a request; the extra ones are rendered by an action of their own.\<close>

definition request_headers ::
  "bytes \<Rightarrow> bytes \<Rightarrow> bytes \<Rightarrow> (bytes \<Rightarrow> header_set act) option \<Rightarrow> header_set act" where
  "request_headers m version encoded extra =
     (if handshake_for version \<noteq> HandshakeDiscovery then give []
      else on_success (case extra of None \<Rightarrow> give [] | Some render \<Rightarrow> render encoded)
             (\<lambda>mirrored. give (fold (\<lambda>(k, v) hs. AList.update k v hs) mirrored (mirrored_headers m encoded))))"

definition request_with ::
  "world \<Rightarrow> bytes \<Rightarrow> any option \<Rightarrow> bytes \<Rightarrow> (bytes \<Rightarrow> header_set act) option \<Rightarrow> bytes act" where
  "request_with w m params version extra =
     on_success (request_params w m params version) (\<lambda>encoded.
       on_success (request_headers m version encoded extra) (\<lambda>headers.
         send_request w m version encoded headers))"

definition send_notification :: "world \<Rightarrow> bytes \<Rightarrow> bytes \<Rightarrow> unit act" where
  "send_notification w m version st =
     (case notify (wd_config w (moment st)) m None version (ss_client st) of
        (r, cl) \<Rightarrow> (case r of None \<Rightarrow> Returned () | Some f \<Rightarrow> Erred (Down f),
                    noted (Notifies m version) (with_client cl st)))"

definition transport_connect :: "world \<Rightarrow> unit act" where
  "transport_connect w st =
     (case wd_connects w (moment st) of None \<Rightarrow> Returned () | Some f \<Rightarrow> Erred (Down f), noted Connects st)"

definition transport_disconnect :: "unit act" where
  "transport_disconnect = update (noted Disconnects)"

text \<open>Whether the context of the caller is done.\<close>

definition context_done :: "world \<Rightarrow> bool act" where
  "context_done w = look (\<lambda>n. wd_context w n \<noteq> None)"

section \<open>The two handshakes\<close>

definition handshake_failure :: "bytes \<Rightarrow> trouble \<Rightarrow> trouble" where
  "handshake_failure m t =
     (case t of
        Suspends u \<Rightarrow>
          (case invalid_result m ''it asks for further input, which a handshake never does'' of
             InvalidResult text \<Rightarrow> Down (client_error text)
           | _ \<Rightarrow> t)
      | _ \<Rightarrow> t)"

definition version_mismatch :: "bytes \<Rightarrow> bytes \<Rightarrow> trouble" where
  "version_mismatch settled requested =
     Down (client_error (''the server settled on protocol version ['' @ settled @ ''] while [''
       @ requested @ ''] was requested''))"

definition no_capabilities :: bytes where "no_capabilities = ''{}''"

definition initialize_params :: "client_config \<Rightarrow> bytes \<Rightarrow> any" where
  "initialize_params cfg version =
     AMap [(''protocolVersion'', AStr version), (''capabilities'', ARaw no_capabilities),
           (''clientInfo'', AMap (implementation_map (cf_identity cfg)))]"

definition client_initialize :: "world \<Rightarrow> bytes \<Rightarrow> bool \<Rightarrow> negotiated act" where
  "client_initialize w version pinned =
     on_success (look (wd_config w)) (\<lambda>cfg.
       on_result (request_with w ''initialize'' (Some (initialize_params cfg version)) version None) (\<lambda>r.
         case r of
           Inl t \<Rightarrow> fail (handshake_failure ''initialize'' t)
         | Inr raw \<Rightarrow>
             (case parse_initialize_result (cf_print cfg) raw of
                Inl f \<Rightarrow> fail (Down f)
              | Inr res \<Rightarrow>
                  if pinned \<and> ir_version res \<noteq> version then fail (version_mismatch (ir_version res) version)
                  else on_success (send_notification w ''notifications/initialized'' (ir_version res)) (\<lambda>_.
                         give \<lparr>ng_version = ir_version res, ng_discover = None, ng_initialize = Some res,
                               ng_stale_after = 0, ng_authorization = 0\<rparr>))))"

definition no_common_version :: "(nat \<Rightarrow> bool) \<Rightarrow> bytes list \<Rightarrow> trouble" where
  "no_common_version table versions =
     Down (client_error (''the server supports protocol versions ['' @ quoted_text table (join_versions versions)
       @ '']; this client supports ['' @ join_versions client_supported_versions @ '']''))"

definition discovered_connection :: "world \<Rightarrow> bytes \<Rightarrow> bytes \<Rightarrow> (nat \<Rightarrow> bool) \<Rightarrow> int \<Rightarrow> negotiated act" where
  "discovered_connection w pinned raw table received_at =
     (case parse_discover_result raw of
        Inl f \<Rightarrow> fail (Down f)
      | Inr res \<Rightarrow>
          (case preferred_protocol_version (dr_versions res) of
             None \<Rightarrow> fail (no_common_version table (dr_versions res))
           | Some settled \<Rightarrow>
               if pinned \<noteq> [] \<and> settled \<noteq> pinned then fail (version_mismatch settled pinned)
               else if handshake_for settled = HandshakeInitialize then client_initialize w settled False
               else (case stale_after received_at raw of
                       None \<Rightarrow> (\<lambda>st. (NoReturn, st))
                     | Some stale \<Rightarrow>
                         give \<lparr>ng_version = settled, ng_discover = Some res, ng_initialize = None,
                               ng_stale_after = stale, ng_authorization = 0\<rparr>)))"

definition client_discover :: "world \<Rightarrow> bytes \<Rightarrow> negotiated act" where
  "client_discover w pinned =
     on_result (request_with w ''server/discover'' None
         (if pinned = [] then latest_protocol_version else pinned) None) (\<lambda>r.
       case r of
         Inl t \<Rightarrow> fail (handshake_failure ''server/discover'' t)
       | Inr raw \<Rightarrow>
           on_success (look (\<lambda>n. (cf_print (wd_config w n), wd_now w n))) (\<lambda>(table, now).
             discovered_connection w pinned raw table now))"

section \<open>Negotiation\<close>

definition supported_versions_from_data :: "any \<Rightarrow> bytes list" where
  "supported_versions_from_data data =
     (case data of
        AMap container \<Rightarrow> (case map_of container ''supported'' of Some (AList entries) \<Rightarrow> strings_of entries | _ \<Rightarrow> [])
      | _ \<Rightarrow> [])"

definition negotiate_down :: "world \<Rightarrow> rpc_error \<Rightarrow> negotiated act" where
  "negotiate_down w e =
     (case preferred_protocol_version (supported_versions_from_data (err_data e)) of
        None \<Rightarrow> fail (Refused (rpc_error_text e) e)
      | Some version \<Rightarrow>
          if handshake_for version \<noteq> HandshakeInitialize then fail (Refused (rpc_error_text e) e)
          else client_initialize w version False)"

definition negotiate_pinned :: "world \<Rightarrow> bytes \<Rightarrow> negotiated act" where
  "negotiate_pinned w pinned =
     (if handshake_for pinned = HandshakeDiscovery then client_discover w pinned
      else client_initialize w pinned True)"

definition client_fallback :: "world \<Rightarrow> negotiated act" where
  "client_fallback w =
     on_result (client_initialize w protocol_v20251125 False) (\<lambda>r.
       case r of
         Inr conn \<Rightarrow> give conn
       | Inl t \<Rightarrow>
           if \<not> is_transport_error t \<or> is_timeout_error t \<or> is_authorization_error t then fail t
           else on_success (context_done w) (\<lambda>over.
             if over then fail t
             else on_success transport_disconnect (\<lambda>_.
               on_result (transport_connect w) (\<lambda>c.
                 case c of
                   Inl _ \<Rightarrow> fail t
                 | Inr _ \<Rightarrow> client_initialize w protocol_v20251125 False))))"

text \<open>The older handshake, after the rejection of the probe.\<close>

definition fall_back_from :: "world \<Rightarrow> trouble \<Rightarrow> negotiated act" where
  "fall_back_from w rejection =
     on_success (context_done w) (\<lambda>over.
       if over then fail rejection
       else on_success (transport_connect w) (\<lambda>_.
         on_result (client_fallback w) (\<lambda>r.
           case r of
             Inr conn \<Rightarrow> give conn
           | Inl t \<Rightarrow>
               if is_authorization_error t then fail t
               else fail (wrap_trouble (trouble_text rejection @ ''; the legacy handshake also failed'') t))))"

definition answered_as_legacy :: "client_transport \<Rightarrow> rpc_error \<Rightarrow> bool" where
  "answered_as_legacy tr e = (case tr_legacy tr of None \<Rightarrow> True | Some detects \<Rightarrow> detects e)"

definition weigh_rejection :: "world \<Rightarrow> trouble \<Rightarrow> negotiated act" where
  "weigh_rejection w t =
     (if is_unanswered t then fail t
      else case t of
        Refused text e \<Rightarrow>
          if identifies_discovery_server e then negotiate_down w e
          else on_success (look (wd_config w)) (\<lambda>cfg.
                 if answered_as_legacy (cf_transport cfg) e then fall_back_from w t else fail t)
      | Down f \<Rightarrow> if is_transport_error t then fall_back_from w t else fail t
      | Suspends u \<Rightarrow> fail t)"

definition probe :: "world \<Rightarrow> negotiated act" where
  "probe w = on_result (client_discover w []) (case_sum (weigh_rejection w) give)"

definition set_connection :: "negotiated option \<Rightarrow> unit act" where
  "set_connection c = update (\<lambda>st. st\<lparr>ss_conn := c\<rparr>)"

definition settle_on :: "int \<Rightarrow> negotiated \<Rightarrow> unit act" where
  "settle_on authorization conn = set_connection (Some (conn\<lparr>ng_authorization := authorization\<rparr>))"

definition probe_and_settle :: "world \<Rightarrow> int \<Rightarrow> unit act" where
  "probe_and_settle w authorization = on_success (probe w) (settle_on authorization)"

text \<open>The handshake the server is remembered to speak, and from scratch when it no longer does.\<close>

definition handshake_again :: "world \<Rightarrow> int \<Rightarrow> bytes \<Rightarrow> unit act" where
  "handshake_again w authorization version =
     on_result (client_initialize w version False) (\<lambda>r.
       case r of
         Inr conn \<Rightarrow> settle_on authorization conn
       | Inl t \<Rightarrow>
           if is_authorization_error t then fail t
           else on_success (context_done w) (\<lambda>over.
             if over then fail t
             else on_success (set_connection None) (\<lambda>_.
               on_success (transport_connect w) (\<lambda>_. probe_and_settle w authorization))))"

definition negotiate_handshake :: "world \<Rightarrow> int \<Rightarrow> unit act" where
  "negotiate_handshake w authorization =
     with_session (\<lambda>st.
       case ss_pin_err st of
         Some text \<Rightarrow> fail (Down (client_error text))
       | None \<Rightarrow>
           if ss_pinned st \<noteq> [] then on_success (negotiate_pinned w (ss_pinned st)) (settle_on authorization)
           else (case ss_conn st of
                   Some remembered \<Rightarrow>
                     if handshake_for (ng_version remembered) = HandshakeInitialize
                     then handshake_again w authorization (ng_version remembered)
                     else probe_and_settle w authorization
                 | None \<Rightarrow> probe_and_settle w authorization))"

section \<open>The connection\<close>

definition remembered :: "negotiated \<Rightarrow> negotiated" where
  "remembered c = \<lparr>ng_version = ng_version c, ng_discover = None, ng_initialize = None, ng_stale_after = 0,
     ng_authorization = ng_authorization c\<rparr>"

definition outlived :: "int \<Rightarrow> negotiated option \<Rightarrow> bool" where
  "outlived now c = (case c of None \<Rightarrow> False | Some c \<Rightarrow> ng_discover c \<noteq> None \<and> \<not> now < ng_stale_after c)"

definition conn_discover_result :: "negotiated option \<Rightarrow> discovered option" where
  "conn_discover_result c = Option.bind c ng_discover"

definition conn_initialize_result :: "negotiated option \<Rightarrow> initialized option" where
  "conn_initialize_result c = Option.bind c ng_initialize"

text \<open>What the server advertises, whichever handshake reported it.\<close>

definition advertised_by :: "(discovered \<Rightarrow> 'a) \<Rightarrow> (initialized \<Rightarrow> 'a) \<Rightarrow> 'a \<Rightarrow> negotiated option \<Rightarrow> 'a" where
  "advertised_by of_discover of_initialize none c =
     (case c of
        None \<Rightarrow> none
      | Some c \<Rightarrow>
          (case ng_discover c of
             Some d \<Rightarrow> of_discover d
           | None \<Rightarrow> (case ng_initialize c of Some i \<Rightarrow> of_initialize i | None \<Rightarrow> none)))"

definition conn_capabilities :: "negotiated option \<Rightarrow> (bytes \<times> any) list option" where
  "conn_capabilities = advertised_by (\<lambda>d. Some (dr_capabilities d)) (\<lambda>i. Some (ir_capabilities i)) None"

definition conn_server_info :: "negotiated option \<Rightarrow> implementation" where
  "conn_server_info = advertised_by dr_info ir_info empty_implementation"

definition conn_instructions :: "negotiated option \<Rightarrow> bytes" where
  "conn_instructions = advertised_by dr_instructions ir_instructions []"

end
