(* ===== verification/Client_Session.thy ===== *)
theory Client_Session
  imports Client_Negotiation
begin

text \<open>
  The life of a connection (\<open>client/protocol.go\<close>): every exchange settles the credential it presents,
  gives up a connection settled under another one, negotiates where none stands, and repeats a request
  once after an expired session and once after a refused version. The gate lets one exchange run at a
  time, so an exchange is one action.
\<close>

section \<open>Taking the gate\<close>

definition abandoned :: "context_end \<Rightarrow> trouble" where
  "abandoned cause =
     Down (case cause of
        WasCancelled \<Rightarrow> plain_failure Cancelled ''the request was abandoned before it was sent: context canceled''
      | DeadlinePassed \<Rightarrow>
          plain_failure PastDeadline ''the request was abandoned before it was sent: context deadline exceeded'')"

definition acquire_exchange :: "world \<Rightarrow> unit act" where
  "acquire_exchange w =
     on_success (look (wd_context w)) (\<lambda>over. case over of None \<Rightarrow> give () | Some cause \<Rightarrow> fail (abandoned cause))"

section \<open>Settling a connection\<close>

definition is_connected :: "session \<Rightarrow> bool" where
  "is_connected st = cl_connected (ss_client st)"

definition set_connecting :: "bool \<Rightarrow> unit act" where
  "set_connecting b = update (\<lambda>st. st\<lparr>ss_client := (ss_client st)\<lparr>cl_connecting := b\<rparr>\<rparr>)"

definition session_disconnect :: "unit act" where
  "session_disconnect = update (\<lambda>st. noted Disconnects (st\<lparr>ss_client := disconnect (ss_client st)\<rparr>))"

definition disconnect_if_standing :: "unit act" where
  "disconnect_if_standing = with_session (\<lambda>st. if is_connected st then session_disconnect else give ())"

definition forsake :: "negotiated \<Rightarrow> unit act" where
  "forsake standing = on_success disconnect_if_standing (\<lambda>_. set_connection (Some (remembered standing)))"

definition count_connection :: "unit act" where
  "count_connection = update (\<lambda>st. st\<lparr>ss_client := (ss_client st)\<lparr>cl_connected := True\<rparr>,
     ss_generation := wrap64 (ss_generation st + 1)\<rparr>)"

definition settle :: "world \<Rightarrow> int \<Rightarrow> unit act" where
  "settle w authorization =
     on_success (set_connecting True) (\<lambda>_.
       on_result (negotiate_handshake w authorization) (\<lambda>r.
         on_success (set_connecting False) (\<lambda>_.
           case r of
             Inl t \<Rightarrow> on_success session_disconnect (\<lambda>_. fail t)
           | Inr _ \<Rightarrow> count_connection)))"

definition forsake_other :: "int \<Rightarrow> unit act" where
  "forsake_other authorization =
     with_session (\<lambda>st. case ss_conn st of
         Some standing \<Rightarrow> if ng_authorization standing \<noteq> authorization then forsake standing else give ()
       | None \<Rightarrow> give ())"

definition connect_afresh :: "world \<Rightarrow> int \<Rightarrow> unit act" where
  "connect_afresh w authorization =
     with_session (\<lambda>st.
       if is_connected st then give ()
       else case ss_pin_err st of
         Some text \<Rightarrow> fail (Down (client_error text))
       | None \<Rightarrow> on_success (transport_connect w) (\<lambda>_. settle w authorization))"

definition connect_locked :: "world \<Rightarrow> unit act" where
  "connect_locked w =
     on_success (look (wd_authorization w)) (\<lambda>authorization.
       on_success (forsake_other authorization) (\<lambda>_. connect_afresh w authorization))"

text \<open>What a caller is shown of the connection, with the credential it would present now.\<close>

definition presentable :: "int \<Rightarrow> session \<Rightarrow> negotiated option" where
  "presentable authorization st =
     (case ss_conn st of
        None \<Rightarrow> None
      | Some c \<Rightarrow> if ng_authorization c \<noteq> authorization then None else Some c)"

definition discover_result_now :: "int \<Rightarrow> session \<Rightarrow> discovered option" where
  "discover_result_now authorization st = conn_discover_result (presentable authorization st)"

definition initialize_result_now :: "int \<Rightarrow> session \<Rightarrow> initialized option" where
  "initialize_result_now authorization st = conn_initialize_result (presentable authorization st)"

section \<open>Pinning a version\<close>

definition pin_protocol_version :: "bytes \<Rightarrow> unit act" where
  "pin_protocol_version version =
     on_success (update (\<lambda>st. st\<lparr>ss_pinned := version, ss_conn := None,
         ss_pin_err := (if version \<noteq> [] \<and> \<not> supports_protocol_version version
           then Some (''this client does not support protocol version ['' @ version @ '']; it supports [''
                  @ join_versions client_supported_versions @ '']'')
           else None)\<rparr>)) (\<lambda>_. disconnect_if_standing)"

section \<open>An exchange\<close>

record held_connection =
  hc_version :: bytes
  hc_generation :: int
  hc_authorization :: int

text \<open>The terms of an exchange: the headers it renders, the authorization context it insists on.\<close>

record exchange_terms =
  te_headers :: "(held_connection \<Rightarrow> bytes \<Rightarrow> header_set act) option"
  te_authorization :: int

definition no_terms :: exchange_terms where
  "no_terms = \<lparr>te_headers = None, te_authorization = 0\<rparr>"

record answered =
  an_result :: bytes
  an_generation :: int
  an_received_at :: int
  an_authorization :: int

definition authorization_changed :: trouble where
  "authorization_changed =
     Down (plain_failure CredentialChanged ''client: the credential presented to the server has changed'')"

definition connection_under :: "exchange_terms \<Rightarrow> negotiated act" where
  "connection_under held =
     with_session (\<lambda>st. case ss_conn st of
         None \<Rightarrow> fail (Down (client_error ''the client has not negotiated a protocol version''))
       | Some c \<Rightarrow>
           if te_authorization held \<noteq> 0 \<and> ng_authorization c \<noteq> te_authorization held
           then fail authorization_changed else give c)"

definition standing_connection :: "world \<Rightarrow> exchange_terms \<Rightarrow> negotiated act" where
  "standing_connection w held =
     with_session (\<lambda>st.
       on_success (if cl_connecting (ss_client st) then give () else connect_locked w) (\<lambda>_.
         connection_under held))"

definition connect :: "world \<Rightarrow> (bytes \<times> int) act" where
  "connect w =
     on_success (acquire_exchange w) (\<lambda>_.
       on_success (standing_connection w no_terms) (\<lambda>c.
         with_session (\<lambda>st. give (ng_version c, ss_generation st))))"

definition held_over :: "negotiated \<Rightarrow> int \<Rightarrow> held_connection" where
  "held_over c generation =
     \<lparr>hc_version = ng_version c, hc_generation = generation, hc_authorization = ng_authorization c\<rparr>"

definition rendering :: "exchange_terms \<Rightarrow> negotiated \<Rightarrow> int \<Rightarrow> (bytes \<Rightarrow> header_set act) option" where
  "rendering held c generation = map_option (\<lambda>render. render (held_over c generation)) (te_headers held)"

definition request_over ::
  "world \<Rightarrow> (bytes \<Rightarrow> bytes) \<Rightarrow> any option \<Rightarrow> exchange_terms \<Rightarrow> negotiated \<Rightarrow> bytes act" where
  "request_over w method_for params held c =
     with_session (\<lambda>st. request_with w (method_for (ng_version c)) params (ng_version c)
       (rendering held c (ss_generation st)))"

definition is_unsupported_version :: "trouble \<Rightarrow> bool" where
  "is_unsupported_version t =
     (case t of Refused text e \<Rightarrow> err_code e = code_unsupported_version_client | _ \<Rightarrow> False)"

definition forget_connection :: "unit act" where
  "forget_connection = update (\<lambda>st. st\<lparr>ss_client := (ss_client st)\<lparr>cl_connected := False\<rparr>, ss_conn := None\<rparr>)"

definition renegotiated :: "world \<Rightarrow> negotiated \<Rightarrow> trouble \<Rightarrow> negotiated act" where
  "renegotiated w refused rejection =
     with_session (\<lambda>st.
       if ss_pinned st \<noteq> [] then fail rejection
       else on_success forget_connection (\<lambda>_.
         on_success (settle w (ng_authorization refused)) (\<lambda>_.
           with_session (\<lambda>st1. case ss_conn st1 of
               None \<Rightarrow> (\<lambda>st. (NoReturn, st))
             | Some c \<Rightarrow> if ng_version c = ng_version refused then fail rejection else give c))))"

text \<open>The connection a request travelled over, and what came of it.\<close>

type_synonym tried = "negotiated \<times> (trouble + bytes)"

definition try_over ::
  "world \<Rightarrow> (bytes \<Rightarrow> bytes) \<Rightarrow> any option \<Rightarrow> exchange_terms \<Rightarrow> negotiated \<Rightarrow> tried act" where
  "try_over w method_for params held c = on_result (request_over w method_for params held c) (\<lambda>r. give (c, r))"

definition retry_expired ::
  "world \<Rightarrow> (bytes \<Rightarrow> bytes) \<Rightarrow> any option \<Rightarrow> exchange_terms \<Rightarrow> tried \<Rightarrow> tried act" where
  "retry_expired w method_for params held tried =
     (case snd tried of
        Inl t \<Rightarrow>
          if is_session_expired t
          then on_success (standing_connection w held) (try_over w method_for params held)
          else give tried
      | Inr _ \<Rightarrow> give tried)"

definition retry_unsupported ::
  "world \<Rightarrow> (bytes \<Rightarrow> bytes) \<Rightarrow> any option \<Rightarrow> exchange_terms \<Rightarrow> tried \<Rightarrow> tried act" where
  "retry_unsupported w method_for params held tried =
     (case snd tried of
        Inl t \<Rightarrow>
          if is_unsupported_version t
          then on_success (renegotiated w (fst tried) t) (try_over w method_for params held)
          else give tried
      | Inr _ \<Rightarrow> give tried)"

definition answer_of :: "world \<Rightarrow> tried \<Rightarrow> answered act" where
  "answer_of w tried =
     (case snd tried of
        Inl t \<Rightarrow> fail t
      | Inr raw \<Rightarrow>
          with_session (\<lambda>st. on_success (look (wd_now w)) (\<lambda>now.
            give \<lparr>an_result = raw, an_generation = ss_generation st, an_received_at = now,
                  an_authorization = ng_authorization (fst tried)\<rparr>)))"

definition exchange_for ::
  "world \<Rightarrow> (bytes \<Rightarrow> bytes) \<Rightarrow> any option \<Rightarrow> exchange_terms \<Rightarrow> answered act" where
  "exchange_for w method_for params held =
     on_success (acquire_exchange w) (\<lambda>_.
       on_success (standing_connection w held) (\<lambda>c.
         on_success (try_over w method_for params held c) (\<lambda>first.
           on_success (retry_expired w method_for params held first) (\<lambda>second.
             on_success (retry_unsupported w method_for params held second) (answer_of w)))))"

definition exchange_with :: "world \<Rightarrow> bytes \<Rightarrow> any option \<Rightarrow> exchange_terms \<Rightarrow> answered act" where
  "exchange_with w m params held = exchange_for w (\<lambda>_. m) params held"

definition dispatch_with ::
  "world \<Rightarrow> bytes \<Rightarrow> any option \<Rightarrow> (held_connection \<Rightarrow> bytes \<Rightarrow> header_set act) option \<Rightarrow> bytes act" where
  "dispatch_with w m params extra =
     on_success (exchange_with w m params \<lparr>te_headers = extra, te_authorization = 0\<rparr>) (\<lambda>a. give (an_result a))"

definition session_dispatch :: "world \<Rightarrow> bytes \<Rightarrow> any option \<Rightarrow> bytes act" where
  "session_dispatch w m params = dispatch_with w m params None"

definition client_ping :: "world \<Rightarrow> unit act" where
  "client_ping w = on_success (exchange_for w liveness_method None no_terms) (\<lambda>_. give ())"

text \<open>A request over the connection an exchange already holds.\<close>

definition ask_held :: "world \<Rightarrow> held_connection \<Rightarrow> bytes \<Rightarrow> any option \<Rightarrow> answered act" where
  "ask_held w h m params =
     on_success (request_with w m params (hc_version h) None) (\<lambda>raw.
       on_success (look (wd_now w)) (\<lambda>now.
         give \<lparr>an_result = raw, an_generation = hc_generation h, an_received_at = now,
               an_authorization = hc_authorization h\<rparr>))"

section \<open>What the server advertises now\<close>

definition mark_disconnected :: "unit act" where
  "mark_disconnected = update (\<lambda>st. st\<lparr>ss_client := (ss_client st)\<lparr>cl_connected := False\<rparr>\<rparr>)"

definition refresh_outlived :: "world \<Rightarrow> int \<Rightarrow> unit act" where
  "refresh_outlived w standing =
     with_session (\<lambda>st.
       if ss_generation st \<noteq> standing then give ()
       else on_success (look (wd_now w)) (\<lambda>now.
         case ss_conn st of
           None \<Rightarrow> give ()
         | Some c \<Rightarrow>
             if outlived now (Some c)
             then on_success mark_disconnected (\<lambda>_. settle w (ng_authorization c))
             else give ()))"

definition advertised :: "world \<Rightarrow> negotiated option act" where
  "advertised w =
     on_success (acquire_exchange w) (\<lambda>_.
       with_session (\<lambda>st0.
         on_success (connect_locked w) (\<lambda>_.
           on_success (refresh_outlived w (ss_generation st0)) (\<lambda>_.
             with_session (\<lambda>st. give (ss_conn st))))))"

definition client_capabilities :: "world \<Rightarrow> (bytes \<times> any) list option act" where
  "client_capabilities w = on_success (advertised w) (\<lambda>c. give (conn_capabilities c))"

definition client_server_info :: "world \<Rightarrow> implementation act" where
  "client_server_info w = on_success (advertised w) (\<lambda>c. give (conn_server_info c))"

definition client_instructions :: "world \<Rightarrow> bytes act" where
  "client_instructions w = on_success (advertised w) (\<lambda>c. give (conn_instructions c))"

definition client_protocol_version :: "world \<Rightarrow> bytes act" where
  "client_protocol_version w = on_success (connect w) (\<lambda>(version, _). give version)"

end
