(* ===== verification/Client_Laws.thy ===== *)
theory Client_Laws
  imports Client_Session
begin

text \<open>
  Reasoning about the actions of a client: relations between the states an action starts and ends in
  (a locale, whose laws are asked of single requests and hold of every handshake), what the results
  of an action satisfy, and triples with a postcondition for success and one for everything else.
\<close>

section \<open>Elementary actions\<close>

lemma act_simps [simp]:
  "give x st = (Returned x, st)" "fail t st = (Erred t, st)" "look f st = (Returned (f (moment st)), noted Looks st)"
  "with_session k st = k st st" "update g st = (Returned (), g st)"
  by (simp_all add: give_def fail_def look_def with_session_def update_def)

lemma noted_simps [simp]:
  "ss_client (noted x st) = ss_client st" "ss_conn (noted x st) = ss_conn st"
  "ss_pinned (noted x st) = ss_pinned st" "ss_pin_err (noted x st) = ss_pin_err st"
  "ss_generation (noted x st) = ss_generation st" "ss_moves (noted x st) = ss_moves st @ [x]"
  "ss_catalogue (noted x st) = ss_catalogue st" "ss_changes (noted x st) = ss_changes st"
  "ss_excluded (noted x st) = ss_excluded st" "ss_excluded_for (noted x st) = ss_excluded_for st"
  "ss_rendered (noted x st) = ss_rendered st"
  by (simp_all add: noted_def)

lemma server_notified_simps [simp]:
  "ss_client (server_notified m st) = ss_client st" "ss_conn (server_notified m st) = ss_conn st"
  "ss_pinned (server_notified m st) = ss_pinned st" "ss_pin_err (server_notified m st) = ss_pin_err st"
  "ss_generation (server_notified m st) = ss_generation st" "ss_moves (server_notified m st) = ss_moves st"
  "ca_generation (ss_catalogue (server_notified m st)) = ca_generation (ss_catalogue st)"
  by (simp_all add: server_notified_def empty_catalogue_def)

lemma fold_notified [simp]:
  "ss_client (fold server_notified ms st) = ss_client st" "ss_conn (fold server_notified ms st) = ss_conn st"
  "ss_pinned (fold server_notified ms st) = ss_pinned st" "ss_pin_err (fold server_notified ms st) = ss_pin_err st"
  "ss_generation (fold server_notified ms st) = ss_generation st"
  "ss_moves (fold server_notified ms st) = ss_moves st"
  "ca_generation (ss_catalogue (fold server_notified ms st)) = ca_generation (ss_catalogue st)"
  by (induction ms arbitrary: st) simp_all

lemma with_client_simps [simp]:
  "ss_client (with_client cl st) = cl" "ss_conn (with_client cl st) = ss_conn st"
  "ss_pinned (with_client cl st) = ss_pinned st" "ss_pin_err (with_client cl st) = ss_pin_err st"
  "ss_generation (with_client cl st) = ss_generation st" "ss_moves (with_client cl st) = ss_moves st"
  "ca_generation (ss_catalogue (with_client cl st)) = ca_generation (ss_catalogue st)"
  by (simp_all add: with_client_def)

section \<open>Relations an action keeps\<close>

definition along :: "(session \<Rightarrow> session \<Rightarrow> bool) \<Rightarrow> 'a act \<Rightarrow> bool" where
  "along R a = (\<forall>st. R st (snd (a st)))"

lemma alongD: "along R a \<Longrightarrow> a st = (r, st') \<Longrightarrow> R st st'"
  unfolding along_def by (metis snd_conv)

lemma along_cases:
  "along R a \<Longrightarrow> along R b \<Longrightarrow> along R (if c then a else b)"
  "(\<And>x. along R (f x)) \<Longrightarrow> (\<And>y. along R (g y)) \<Longrightarrow> along R (case s of Inl x \<Rightarrow> f x | Inr y \<Rightarrow> g y)"
  "along R a \<Longrightarrow> (\<And>z. along R (h z)) \<Longrightarrow> along R (case opt of None \<Rightarrow> a | Some z \<Rightarrow> h z)"
  "(\<And>x y. along R (p x y)) \<Longrightarrow> along R (case pair of (x, y) \<Rightarrow> p x y)"
  "(\<And>d. along R (td d)) \<Longrightarrow> (\<And>u e. along R (tr u e)) \<Longrightarrow> (\<And>u. along R (ts u))
     \<Longrightarrow> along R (case t of Down d \<Rightarrow> td d | Refused u e \<Rightarrow> tr u e | Suspends u \<Rightarrow> ts u)"
  by (simp_all split: sum.split option.split prod.split trouble.split)

locale session_relation =
  fixes R :: "session \<Rightarrow> session \<Rightarrow> bool"
  assumes refl: "R st st"
    and trans: "R a b \<Longrightarrow> R b c \<Longrightarrow> R a c"
    and note_law: "R st (noted x st)"
begin

lemma along_basic: "along R (give x)" "along R (fail t)" "along R (look f)" "along R (\<lambda>st. (NoReturn, st))"
  by (auto simp: along_def intro: refl note_law)

lemma along_on_result: "along R a \<Longrightarrow> (\<And>r. along R (k r)) \<Longrightarrow> along R (on_result a k)"
  unfolding along_def on_result_def
  by (auto split: prod.splits outcome.splits) (metis snd_conv trans)+

lemma along_on_success: "along R a \<Longrightarrow> (\<And>x. along R (k x)) \<Longrightarrow> along R (on_success a k)"
  unfolding on_success_def by (rule along_on_result) (auto split: sum.split intro: along_basic)

lemma along_with_session: "(\<And>s. along R (k s)) \<Longrightarrow> along R (with_session k)"
  by (simp add: along_def)

lemma along_update: "(\<And>st. R st (g st)) \<Longrightarrow> along R (update g)"
  by (simp add: along_def)

lemmas along_rules = along_basic along_on_result along_on_success along_with_session along_cases

end

locale request_relation = session_relation +
  assumes params_law: "attempt_params cfg m ps v (ss_client st) = (r, cl) \<Longrightarrow> R st (with_client cl st)"
    and sent_law: "attempt_sent cfg m v enc hs clocked arrivals now (ss_client st) = (res, cl)
      \<Longrightarrow> R st (with_client cl st)"
    and notify_law: "notify cfg m ps v (ss_client st) = (f, cl) \<Longrightarrow> R st (with_client cl st)"
begin

lemma along_requests:
  "along R (request_params w m ps v)" "along R (send_request w m v enc hs)" "along R (send_notification w m v)"
  "along R (transport_connect w)" "along R transport_disconnect" "along R (context_done w)"
  by (auto simp: along_def request_params_def send_request_def send_notification_def transport_connect_def
      transport_disconnect_def context_done_def Let_def split: prod.splits sum.splits
      intro: note_law trans [OF params_law note_law] trans [OF sent_law note_law] trans [OF notify_law note_law])

lemma along_request_with:
  assumes "\<And>render enc. extra = Some render \<Longrightarrow> along R (render enc)"
  shows "along R (request_with w m ps v extra)"
proof -
  have h: "along R (case extra of None \<Rightarrow> give [] | Some render \<Rightarrow> render enc)" for enc
    using assms by (cases extra) (simp_all add: along_basic)
  show ?thesis unfolding request_with_def request_headers_def
    by (intro along_basic along_on_success h along_requests along_cases(1))
qed

lemma along_request_plain: "along R (request_with w m ps v None)"
  by (rule along_request_with) simp

lemma along_initialize: "along R (client_initialize w v pinned)"
  unfolding client_initialize_def by (intro along_rules along_requests along_request_plain)

lemma along_discover: "along R (client_discover w pinned)"
  unfolding client_discover_def discovered_connection_def
  by (intro along_rules along_request_plain along_initialize)

lemma along_negotiate_down: "along R (negotiate_down w e)"
  unfolding negotiate_down_def by (intro along_rules along_initialize)

lemma along_negotiate_pinned: "along R (negotiate_pinned w pinned)"
  unfolding negotiate_pinned_def by (intro along_rules along_initialize along_discover)

lemma along_fallback: "along R (client_fallback w)"
  unfolding client_fallback_def by (intro along_rules along_initialize along_requests)

lemma along_fall_back_from: "along R (fall_back_from w t)"
  unfolding fall_back_from_def by (intro along_rules along_fallback along_requests)

lemma along_weigh_rejection: "along R (weigh_rejection w t)"
  unfolding weigh_rejection_def by (intro along_rules along_fall_back_from along_negotiate_down)

lemma along_probe: "along R (probe w)"
  unfolding probe_def by (intro along_rules along_weigh_rejection along_discover)

end

section \<open>A request leaves the connection as it is\<close>

definition steady :: "session \<Rightarrow> session \<Rightarrow> bool" where
  "steady st st' \<longleftrightarrow> ss_conn st' = ss_conn st \<and> ss_pinned st' = ss_pinned st \<and> ss_pin_err st' = ss_pin_err st
     \<and> ss_generation st' = ss_generation st \<and> (is_connected st' \<longrightarrow> is_connected st)
     \<and> cl_connecting (ss_client st') = cl_connecting (ss_client st)"

definition flags_kept :: "client \<Rightarrow> client \<Rightarrow> bool" where
  "flags_kept st st' \<longleftrightarrow> cl_connecting st' = cl_connecting st \<and> (cl_connected st' \<longrightarrow> cl_connected st)"

lemma flags_trans: "flags_kept a b \<Longrightarrow> flags_kept b c \<Longrightarrow> flags_kept a c"
  by (auto simp: flags_kept_def)

lemma flags_basic:
  "send_frame cfg hs frame st = (r, st') \<Longrightarrow> flags_kept st st'"
  "notify cfg m ps v st = (r2, st') \<Longrightarrow> flags_kept st st'"
  by (auto simp: flags_kept_def send_frame_def notify_def split: option.splits sum.splits if_splits)

lemma flags_step:
  assumes "exchange_step cfg version i clocked tok now raw st = (r, st')"
  shows "flags_kept st st'"
proof -
  have n: "flags_kept st (note_progress clocked tok raw (heard st))"
    by (auto simp: flags_kept_def note_progress_def heard_def split: option.splits)
  have s: "serve_server_frame cfg version raw st0 = (x, st1) \<Longrightarrow> flags_kept st0 st1" for st0 x st1
    by (auto simp: serve_server_frame_def flags_kept_def dest!: flags_basic(1)
        split: option.splits prod.splits if_splits)
  have a: "flags_kept st1 (accounted_for j st1)" for st1 j
    by (simp add: flags_kept_def accounted_for_def)
  have w: "replies_to_withdrawn now st1 = (b, st2) \<Longrightarrow> flags_kept st1 st2" for st1 b st2
    by (auto simp: flags_kept_def replies_to_withdrawn_def lapse_def Let_def split: list.splits)
  obtain x st1 where s1: "serve_server_frame cfg version raw (note_progress clocked tok raw (heard st)) = (x, st1)"
    by fastforce
  have k: "flags_kept st st1" using flags_trans [OF n s [OF s1]] .
  consider "st' = st1" | j where "st' = accounted_for j st1" | b where "replies_to_withdrawn now st1 = (b, st')"
    using assms s1 by (auto simp: exchange_step_def Let_def split: sum.splits prod.splits if_splits bool.splits)
  then show ?thesis by cases (use k flags_trans a w in blast)+
qed

lemma flags_loop:
  "exchange_loop cfg m version i clocked tok passed as st = (r, st') \<Longrightarrow> flags_kept st st'"
  by (rule loop_relates [where R = flags_kept, OF _ flags_step _ flags_trans])
    (auto simp: flags_kept_def)


lemma flags_disconnect: "flags_kept st (disconnect_if_connected st)"
  by (simp add: flags_kept_def disconnect_if_connected_def disconnect_def)

lemma flags_withdrawn: "withdrawn cfg now f i v st = (b, st') \<Longrightarrow> flags_kept st st'"
  unfolding withdrawn_def Let_def
  by (auto split: option.splits if_splits prod.splits simp: flags_kept_def account_def lapse_def Let_def
      dest!: flags_basic(2))

lemma flags_sent:
  assumes "attempt_sent cfg m v enc hs clocked arrivals now st = (r, st')"
  shows "flags_kept st st'"
proof -
  let ?st1 = "st\<lparr>cl_next_id := wrap64 (cl_next_id st + 1)\<rparr>"
  have 1: "flags_kept st ?st1" by (simp add: flags_kept_def)
  consider "st' = ?st1"
    | frame i tok out st3 where
      "exchange_frame cfg m frame hs i v clocked tok arrivals ?st1 = (out, st3)"
      "st' = st3 \<or> (\<exists>f b st4. withdrawn cfg now f i v st3 = (b, st4)
        \<and> (st' = st4 \<or> st' = disconnect_if_connected st4))"
    using assms unfolding attempt_sent_def Let_def
    by (simp split: option.splits prod.splits exchanged.splits bool.splits result_verdict.splits) blast+
  then show ?thesis
  proof cases
    case 2
    have "flags_kept ?st1 st3"
      using 2(1) unfolding exchange_frame_def
      by (auto split: prod.splits option.splits dest: flags_basic(1) flags_loop intro: flags_trans)
    then show ?thesis using 1 2(2) flags_trans flags_withdrawn flags_disconnect by metis
  qed (use 1 in simp)
qed

lemma flags_params: "attempt_params cfg m ps v st = (r, st') \<Longrightarrow> flags_kept st st'"
  by (auto simp: attempt_params_def flags_kept_def Let_def split: if_splits)

lemma steady_flags: "flags_kept (ss_client st) cl \<Longrightarrow> steady st (with_client cl st)"
  by (simp add: steady_def flags_kept_def is_connected_def)

interpretation steady: request_relation steady
  by unfold_locales
    (auto simp: steady_def is_connected_def dest!: flags_params flags_sent flags_basic(2) steady_flags)

section \<open>Results of an action\<close>

definition returns :: "('a \<Rightarrow> bool) \<Rightarrow> 'a act \<Rightarrow> bool" where
  "returns P a = (\<forall>st x st'. a st = (Returned x, st') \<longrightarrow> P x)"

lemma returnsD: "returns P a \<Longrightarrow> a st = (Returned x, st') \<Longrightarrow> P x"
  unfolding returns_def by blast

lemma returns_basic: "P x \<Longrightarrow> returns P (give x)" "returns P (fail t)" "returns P (\<lambda>st. (NoReturn, st))"
  by (simp_all add: returns_def)

lemma returns_any: "returns (\<lambda>_. True) a"
  by (simp add: returns_def)

lemma returns_on_result:
  "returns Q a \<Longrightarrow> (\<And>t. returns P (k (Inl t))) \<Longrightarrow> (\<And>x. Q x \<Longrightarrow> returns P (k (Inr x)))
     \<Longrightarrow> returns P (on_result a k)"
  unfolding returns_def on_result_def by (auto split: prod.splits outcome.splits) blast+

lemma returns_on_success:
  "returns Q a \<Longrightarrow> (\<And>x. Q x \<Longrightarrow> returns P (k x)) \<Longrightarrow> returns P (on_success a k)"
  unfolding on_success_def by (rule returns_on_result [of Q]) (auto intro: returns_basic)

text \<open>A settled connection holds the result of the handshake its version belongs to, and no other.\<close>

definition complete_connection :: "negotiated \<Rightarrow> bool" where
  "complete_connection c =
     (case (ng_discover c, ng_initialize c) of
        (Some d, None) \<Rightarrow> handshake_for (ng_version c) = HandshakeDiscovery
          \<and> preferred_protocol_version (dr_versions d) = Some (ng_version c)
      | (None, Some i) \<Rightarrow> ng_version c = ir_version i \<and> ng_version c \<in> set client_initialize_versions
      | _ \<Rightarrow> False)"

definition serves_pin :: "bytes \<Rightarrow> negotiated \<Rightarrow> bool" where
  "serves_pin pinned c \<longleftrightarrow> complete_connection c \<and> (pinned = [] \<or> ng_version c = pinned)"

lemma serves_no_pin: "serves_pin [] = complete_connection"
  by (simp add: fun_eq_iff serves_pin_def)

lemma complete_supported: "complete_connection c \<Longrightarrow> ng_version c \<in> set client_supported_versions"
  using subsetD [OF initialize_supported, of "ng_version c"]
  by (auto simp: complete_connection_def preferred_supported split: option.splits)

lemma returns_initialize:
  "returns (\<lambda>c. complete_connection c \<and> (pinned \<longrightarrow> ng_version c = v)) (client_initialize w v pinned)"
  unfolding client_initialize_def
proof (intro returns_on_success [OF returns_any] returns_on_result [OF returns_any]; (simp add: returns_basic)?)
  fix cfg raw
  show "returns (\<lambda>c. complete_connection c \<and> (pinned \<longrightarrow> ng_version c = v))
    (case parse_initialize_result (cf_print cfg) raw of Inl f \<Rightarrow> fail (Down f)
     | Inr res \<Rightarrow> if pinned \<and> ir_version res \<noteq> v then fail (version_mismatch (ir_version res) v)
       else on_success (send_notification w ''notifications/initialized'' (ir_version res)) (\<lambda>_.
         give \<lparr>ng_version = ir_version res, ng_discover = None, ng_initialize = Some res,
               ng_stale_after = 0, ng_authorization = 0\<rparr>))"
    using parse_initialize_version
    by (auto split: sum.split intro!: returns_basic returns_on_success [OF returns_any]
        simp: complete_connection_def)
qed

lemma returns_initialize_free: "returns complete_connection (client_initialize w v pinned)"
  using returns_initialize [of pinned v w] by (auto simp: returns_def)

lemma returns_discovered:
  assumes "pinned = [] \<or> handshake_for pinned = HandshakeDiscovery"
  shows "returns (serves_pin pinned) (discovered_connection w pinned raw table now)"
proof -
  have d: "serves_pin p \<lparr>ng_version = v, ng_discover = Some res, ng_initialize = None,
      ng_stale_after = stale, ng_authorization = 0\<rparr>"
    if "preferred_protocol_version (dr_versions res) = Some v" "handshake_for v \<noteq> HandshakeInitialize"
      "p = [] \<or> v = p" for v res stale p
    using that by (cases "handshake_for v") (auto simp: serves_pin_def complete_connection_def)
  have i: "returns (serves_pin []) (client_initialize w v False)" for v
    using returns_initialize_free by (simp add: serves_no_pin)
  show ?thesis
    unfolding discovered_connection_def using assms
    by (auto split: sum.split option.split intro!: returns_basic d i)
qed

lemma returns_discover:
  assumes "pinned = [] \<or> handshake_for pinned = HandshakeDiscovery"
  shows "returns (serves_pin pinned) (client_discover w pinned)"
  unfolding client_discover_def
  by (intro returns_on_result [OF returns_any])
    (auto intro!: returns_basic returns_on_success [OF returns_any] returns_discovered [OF assms])

lemma returns_pinned: "returns (serves_pin pinned) (negotiate_pinned w pinned)"
  using returns_discover [of pinned w] returns_initialize [of True pinned w]
  by (auto simp: negotiate_pinned_def serves_pin_def returns_def)

lemma returns_fallback: "returns complete_connection (client_fallback w)"
  unfolding client_fallback_def
  by (intro returns_on_result [OF returns_initialize_free])
    (auto intro!: returns_basic returns_on_success [OF returns_any] returns_on_result [OF returns_any]
      returns_initialize_free split: sum.split)

lemma returns_probe: "returns complete_connection (probe w)"
proof -
  have n: "returns complete_connection (negotiate_down w e)" for e
    unfolding negotiate_down_def by (auto split: option.split intro!: returns_basic returns_initialize_free)
  have f: "returns complete_connection (fall_back_from w t)" for t
    unfolding fall_back_from_def
    by (intro returns_on_success [OF returns_any])
      (auto intro!: returns_basic returns_on_success [OF returns_any] returns_on_result [OF returns_fallback])
  have r: "returns complete_connection (weigh_rejection w t)" for t
    unfolding weigh_rejection_def
    by (auto split: trouble.split intro!: returns_basic n f returns_on_success [OF returns_any])
  have "returns complete_connection (client_discover w [])"
    using returns_discover [of "[]" w] by (simp add: serves_no_pin)
  then show ?thesis unfolding probe_def by (rule returns_on_result) (auto intro: r returns_basic)
qed

section \<open>Triples\<close>

text \<open>From a state in the first assertion an action returns in the second or fails in the third.\<close>

definition triple ::
  "(session \<Rightarrow> bool) \<Rightarrow> 'a act \<Rightarrow> ('a \<Rightarrow> session \<Rightarrow> bool) \<Rightarrow> (session \<Rightarrow> bool) \<Rightarrow> bool" where
  "triple P a Q E =
     (\<forall>st. P st \<longrightarrow> (case a st of (Returned x, st') \<Rightarrow> Q x st' | (Erred t, st') \<Rightarrow> E st' | (NoReturn, st') \<Rightarrow> True))"

lemma triple_weaken:
  "triple P a Q E \<Longrightarrow> (\<And>st. P' st \<Longrightarrow> P st) \<Longrightarrow> (\<And>x st. Q x st \<Longrightarrow> Q' x st) \<Longrightarrow> (\<And>st. E st \<Longrightarrow> E' st)
     \<Longrightarrow> triple P' a Q' E'"
  unfolding triple_def by (fastforce split: prod.splits outcome.splits)

lemma triple_basic:
  "(\<And>st. P st \<Longrightarrow> Q x st) \<Longrightarrow> triple P (give x) Q E" "(\<And>st. P st \<Longrightarrow> E st) \<Longrightarrow> triple P (fail t) Q E"
  "(\<And>st. P st \<Longrightarrow> U () (g st)) \<Longrightarrow> triple P (update g) U E"
  "(\<And>st. P st \<Longrightarrow> Q (f (moment st)) (noted Looks st)) \<Longrightarrow> triple P (look f) Q E"
  "triple P (\<lambda>st. (NoReturn, st)) Q E"
  by (simp_all add: triple_def)

lemma triple_on_result:
  "triple P a M F \<Longrightarrow> (\<And>x. triple (M x) (k (Inr x)) Q E) \<Longrightarrow> (\<And>t. triple F (k (Inl t)) Q E)
     \<Longrightarrow> triple P (on_result a k) Q E"
  unfolding triple_def on_result_def by (fastforce split: prod.splits outcome.splits)

lemma triple_on_success:
  "triple P a M E \<Longrightarrow> (\<And>x. triple (M x) (k x) Q E) \<Longrightarrow> triple P (on_success a k) Q E"
  unfolding on_success_def by (rule triple_on_result [of P a M E]) (simp_all add: triple_def)

lemma triple_with_session: "(\<And>s. triple (\<lambda>st. st = s \<and> P st) (k s) Q E) \<Longrightarrow> triple P (with_session k) Q E"
  by (simp add: triple_def)

lemma triple_at: "triple P a Q E \<Longrightarrow> triple (\<lambda>st. st = s \<and> P st) a Q E"
  by (simp add: triple_def)

lemma triple_cases:
  "(c \<Longrightarrow> triple P a Q E) \<Longrightarrow> (\<not> c \<Longrightarrow> triple P b Q E) \<Longrightarrow> triple P (if c then a else b) Q E"
  "(\<And>x. s = Inl x \<Longrightarrow> triple P (f x) Q E) \<Longrightarrow> (\<And>y. s = Inr y \<Longrightarrow> triple P (g y) Q E)
     \<Longrightarrow> triple P (case s of Inl x \<Rightarrow> f x | Inr y \<Rightarrow> g y) Q E"
  "(opt = None \<Longrightarrow> triple P a Q E) \<Longrightarrow> (\<And>z. opt = Some z \<Longrightarrow> triple P (h z) Q E)
     \<Longrightarrow> triple P (case opt of None \<Rightarrow> a | Some z \<Rightarrow> h z) Q E"
  by (simp_all split: sum.split option.split)

lemma triple_steady:
  assumes "along steady a" "returns P a" "\<And>st st'. I st \<Longrightarrow> steady st st' \<Longrightarrow> I st'"
  shows "triple I a (\<lambda>x st. I st \<and> P x) I"
  unfolding triple_def
  using assms(3) alongD [OF assms(1)] returnsD [OF assms(2)]
  by (auto split: prod.splits outcome.splits)

lemma triple_steady_any:
  assumes "along steady a" "\<And>st st'. I st \<Longrightarrow> steady st st' \<Longrightarrow> I st'"
  shows "triple I a (\<lambda>x st. I st) I"
  using triple_steady [OF assms(1) returns_any assms(2)] by simp

lemma tripleD:
  "triple P a Q E \<Longrightarrow> P st \<Longrightarrow> a st = (Returned x, st') \<Longrightarrow> Q x st'"
  "triple P a Q E \<Longrightarrow> P st \<Longrightarrow> a st = (Erred t, st') \<Longrightarrow> E st'"
  unfolding triple_def by (auto split: prod.splits outcome.splits)

section \<open>Connections are settled properly\<close>

text \<open>What is kept of a connection: what a handshake settled, or the version alone.\<close>

definition known_connection :: "negotiated \<Rightarrow> bool" where
  "known_connection c \<longleftrightarrow> ng_version c \<in> set client_supported_versions
     \<and> (complete_connection c \<or> ng_discover c = None \<and> ng_initialize c = None)"

definition idle :: "bytes \<Rightarrow> bytes option \<Rightarrow> bool \<Rightarrow> session \<Rightarrow> bool" where
  "idle pinned pin_err connecting st \<longleftrightarrow> (case ss_conn st of None \<Rightarrow> True | Some c \<Rightarrow> known_connection c)
     \<and> \<not> is_connected st \<and> cl_connecting (ss_client st) = connecting
     \<and> ss_pinned st = pinned \<and> ss_pin_err st = pin_err"

definition settled_under :: "bytes \<Rightarrow> int \<Rightarrow> session \<Rightarrow> bool" where
  "settled_under pinned authorization st \<longleftrightarrow>
     (case ss_conn st of None \<Rightarrow> False | Some c \<Rightarrow> serves_pin pinned c \<and> ng_authorization c = authorization)"

lemma idle_steady: "idle p e b st \<Longrightarrow> steady st st' \<Longrightarrow> idle p e b st'"
  by (auto simp: idle_def steady_def)

lemma connected_updates [simp]:
  "is_connected (noted x st) = is_connected st" "is_connected (st\<lparr>ss_conn := c\<rparr>) = is_connected st"
  by (simp_all add: is_connected_def)

lemma idle_updates [simp]:
  "idle p e b (noted x st) = idle p e b st"
  "idle p e b (st\<lparr>ss_conn := None\<rparr>) \<longleftrightarrow> \<not> is_connected st \<and> cl_connecting (ss_client st) = b \<and> ss_pinned st = p
     \<and> ss_pin_err st = e"
  by (auto simp: idle_def is_connected_def)

lemma complete_authorization [simp]: "complete_connection (c\<lparr>ng_authorization := a\<rparr>) = complete_connection c"
  by (auto simp: complete_connection_def split: option.splits)

lemma serves_authorization [simp]: "serves_pin p (c\<lparr>ng_authorization := a\<rparr>) = serves_pin p c"
  by (simp add: serves_pin_def)

lemma serves_known: "serves_pin p c \<Longrightarrow> known_connection c"
  using complete_supported by (simp add: serves_pin_def known_connection_def)

lemma known_authorization [simp]: "known_connection (c\<lparr>ng_authorization := a\<rparr>) = known_connection c"
  by (simp add: known_connection_def)

lemma triple_settle_on:
  "serves_pin p c \<Longrightarrow> triple (idle p e b) (settle_on a c) (\<lambda>_ st. idle p e b st \<and> settled_under p a st) (idle p e b)"
  unfolding settle_on_def set_connection_def
  by (rule triple_basic) (auto simp: idle_def settled_under_def serves_known is_connected_def)

lemma triple_probe_and_settle:
  "triple (idle [] e b) (probe_and_settle w a) (\<lambda>_ st. idle [] e b st \<and> settled_under [] a st) (idle [] e b)"
  unfolding probe_and_settle_def
proof (rule triple_on_success)
  show "triple (idle [] e b) (probe w) (\<lambda>c st. idle [] e b st \<and> complete_connection c) (idle [] e b)"
    by (rule triple_steady [OF steady.along_probe returns_probe]) (rule idle_steady)
  show "triple (\<lambda>st. idle [] e b st \<and> complete_connection c) (settle_on a c)
      (\<lambda>_ st. idle [] e b st \<and> settled_under [] a st) (idle [] e b)" for c
    using triple_settle_on [of "[]" c e b a] by (auto simp: serves_no_pin triple_def)
qed

lemma triple_connect: "triple (idle p e b) (transport_connect w) (\<lambda>_. idle p e b) (idle p e b)"
  by (rule triple_steady_any [OF steady.along_requests(4)]) (rule idle_steady)

lemma triple_done: "triple (idle p e b) (context_done w) (\<lambda>_. idle p e b) (idle p e b)"
  by (rule triple_steady_any [OF steady.along_requests(6)]) (rule idle_steady)

lemma triple_handshake_again:
  "triple (idle [] e b) (handshake_again w a v) (\<lambda>_ st. idle [] e b st \<and> settled_under [] a st) (idle [] e b)"
  unfolding handshake_again_def
proof (rule triple_on_result)
  show "triple (idle [] e b) (client_initialize w v False) (\<lambda>c st. idle [] e b st \<and> complete_connection c) (idle [] e b)"
    by (rule triple_steady [OF steady.along_initialize returns_initialize_free]) (rule idle_steady)
  show "triple (\<lambda>st. idle [] e b st \<and> complete_connection c)
      (case Inr c of Inr conn \<Rightarrow> settle_on a conn | Inl t \<Rightarrow> k t) (\<lambda>_ st. idle [] e b st \<and> settled_under [] a st)
      (idle [] e b)" for c k
    using triple_settle_on [of "[]" c e b a] by (auto simp: serves_no_pin triple_def)
  show "triple (idle [] e b)
      (case Inl t of Inr conn \<Rightarrow> settle_on a conn
       | Inl t \<Rightarrow> if is_authorization_error t then fail t
           else on_success (context_done w) (\<lambda>over. if over then fail t
             else on_success (set_connection None) (\<lambda>_. on_success (transport_connect w) (\<lambda>_. probe_and_settle w a))))
      (\<lambda>_ st. idle [] e b st \<and> settled_under [] a st) (idle [] e b)" for t
    unfolding sum.case set_connection_def
    by (intro triple_cases triple_basic(1-3) triple_on_success [where M = "\<lambda>_. idle [] e b"] triple_connect
        triple_done triple_probe_and_settle) (auto simp: idle_def)
qed

lemma triple_handshake:
  "triple (idle p e b) (negotiate_handshake w a) (\<lambda>_ st. idle p e b st \<and> settled_under p a st) (idle p e b)"
  unfolding negotiate_handshake_def
proof (rule triple_with_session)
  fix s
  let ?Q = "\<lambda>_ st. idle p e b st \<and> settled_under p a st"
  have pin: "triple (idle p e b) (on_success (negotiate_pinned w p) (settle_on a)) ?Q (idle p e b)"
  proof (rule triple_on_success)
    show "triple (idle p e b) (negotiate_pinned w p) (\<lambda>c st. idle p e b st \<and> serves_pin p c) (idle p e b)"
      by (rule triple_steady [OF steady.along_negotiate_pinned returns_pinned]) (rule idle_steady)
    show "triple (\<lambda>st. idle p e b st \<and> serves_pin p c) (settle_on a c) ?Q (idle p e b)" for c
      using triple_settle_on [of p c e b a] by (auto simp: triple_def)
  qed
  show "triple (\<lambda>st. st = s \<and> idle p e b st)
     (case ss_pin_err s of
        None \<Rightarrow> if ss_pinned s \<noteq> [] then on_success (negotiate_pinned w (ss_pinned s)) (settle_on a)
           else (case ss_conn s of
               None \<Rightarrow> probe_and_settle w a
             | Some c \<Rightarrow> if handshake_for (ng_version c) = HandshakeInitialize
                   then handshake_again w a (ng_version c) else probe_and_settle w a)
      | Some text \<Rightarrow> fail (Down (client_error text))) ?Q (idle p e b)"
  proof (cases "idle p e b s")
    case True
    then have s: "ss_pinned s = p" by (simp add: idle_def)
    show ?thesis
      unfolding s
      using triple_at [OF pin]
      by (auto split: option.split intro!: triple_basic triple_at triple_handshake_again triple_probe_and_settle)
  qed (simp add: triple_def)
qed

end
