(* ===== verification/Session_Laws.thy ===== *)
theory Session_Laws
  imports Client_Laws
begin

text \<open>
  What every operation of a client keeps of its connection (\<open>client/protocol.go\<close>): a connection that
  stands was settled by the handshake its version belongs to, at the pinned version where one is, and
  under the credential it is used with.
\<close>

section \<open>The invariant\<close>

definition session_ok :: "session \<Rightarrow> bool" where
  "session_ok st \<longleftrightarrow> \<not> cl_connecting (ss_client st)
     \<and> (case ss_conn st of
          None \<Rightarrow> \<not> is_connected st
        | Some c \<Rightarrow> known_connection c \<and> (\<not> is_connected st \<or> serves_pin (ss_pinned st) c))"

definition connected_under :: "int \<Rightarrow> session \<Rightarrow> bool" where
  "connected_under a st \<longleftrightarrow> session_ok st \<and> is_connected st
     \<and> (case ss_conn st of None \<Rightarrow> False | Some c \<Rightarrow> ng_authorization c = a)"

lemma connected_ok: "connected_under a st \<Longrightarrow> session_ok st"
  by (simp add: connected_under_def)

lemma ok_steady: "session_ok st \<Longrightarrow> steady st st' \<Longrightarrow> session_ok st'"
  by (auto simp: session_ok_def steady_def split: option.splits)

lemma ok_noted [simp]: "session_ok (noted x st) = session_ok st" "connected_under a (noted x st) = connected_under a st"
  by (simp_all add: session_ok_def connected_under_def split: option.split)

lemma ok_idle: "session_ok st \<Longrightarrow> \<not> is_connected st \<Longrightarrow> idle (ss_pinned st) (ss_pin_err st) False st"
  by (auto simp: session_ok_def idle_def split: option.splits)

lemma idle_ok: "idle p e False st \<Longrightarrow> session_ok st"
  by (auto simp: session_ok_def idle_def split: option.splits)

lemma disconnected_ok: "session_ok st \<Longrightarrow> session_ok (noted x (st\<lparr>ss_client := disconnect (ss_client st)\<rparr>))"
  by (auto simp: session_ok_def is_connected_def disconnect_def split: option.splits)

section \<open>Settling\<close>

lemma triple_settle:
  "triple (idle p e False) (settle w a) (\<lambda>_ st. connected_under a st \<and> ss_pinned st = p) session_ok"
  unfolding settle_def set_connecting_def
proof (rule triple_on_success)
  let ?on = "\<lambda>b st. st\<lparr>ss_client := (ss_client st)\<lparr>cl_connecting := b\<rparr>\<rparr>"
  show "triple (idle p e False) (update (?on True)) (\<lambda>_. idle p e True) session_ok"
    by (rule triple_basic) (auto simp: idle_def is_connected_def)
  have off: "triple (idle p e True) (update (?on False)) (\<lambda>_. idle p e False) session_ok"
    by (rule triple_basic) (auto simp: idle_def is_connected_def)
  have off_settled: "triple (\<lambda>st. idle p e True st \<and> settled_under p a st) (update (?on False))
      (\<lambda>_ st. idle p e False st \<and> settled_under p a st) session_ok"
    by (rule triple_basic) (auto simp: idle_def settled_under_def is_connected_def)
  have lost: "triple (idle p e False) (on_success session_disconnect (\<lambda>_. fail t))
      (\<lambda>_ st. connected_under a st \<and> ss_pinned st = p) session_ok" for t
    unfolding session_disconnect_def
    by (rule triple_on_success [where M = "\<lambda>_. session_ok"])
      (auto intro!: triple_basic(3) triple_basic(2) disconnected_ok dest: idle_ok)
  have counted: "triple (\<lambda>st. idle p e False st \<and> settled_under p a st) count_connection
      (\<lambda>_ st. connected_under a st \<and> ss_pinned st = p) session_ok"
    unfolding count_connection_def
    by (rule triple_basic)
      (auto simp: idle_def settled_under_def connected_under_def session_ok_def is_connected_def serves_known
        split: option.splits)
  show "triple (idle p e True)
     (on_result (negotiate_handshake w a) (\<lambda>r. on_success (update (?on False)) (\<lambda>_.
        case r of Inl t \<Rightarrow> on_success session_disconnect (\<lambda>_. fail t) | Inr _ \<Rightarrow> count_connection)))
     (\<lambda>_ st. connected_under a st \<and> ss_pinned st = p) session_ok" for u :: unit
    by (rule triple_on_result [OF triple_handshake])
      (auto intro!: triple_on_success [OF off] triple_on_success [OF off_settled] lost counted)
qed

lemma triple_disconnect_if:
  "triple session_ok disconnect_if_standing (\<lambda>_ st. session_ok st \<and> \<not> is_connected st) session_ok"
  by (auto simp: triple_def disconnect_if_standing_def session_disconnect_def is_connected_def disconnect_def
      split: prod.splits dest: disconnected_ok [where x = Disconnects])

lemma triple_forsake_other:
  "triple session_ok (forsake_other a)
     (\<lambda>_ st. session_ok st \<and> (\<not> is_connected st \<or> connected_under a st)) session_ok"
  unfolding forsake_other_def
proof (rule triple_with_session)
  fix s
  let ?Q = "\<lambda>_ st. session_ok st \<and> (\<not> is_connected st \<or> connected_under a st)"
  have f: "triple (\<lambda>st. session_ok st \<and> ss_conn st = Some c) (forsake c) ?Q session_ok" for c
    by (auto simp: triple_def forsake_def on_success_def on_result_def disconnect_if_standing_def
        session_disconnect_def set_connection_def session_ok_def is_connected_def disconnect_def
        remembered_def known_connection_def)
  show "triple (\<lambda>st. st = s \<and> session_ok st)
     (case ss_conn s of None \<Rightarrow> give ()
      | Some c \<Rightarrow> if ng_authorization c \<noteq> a then forsake c else give ()) ?Q session_ok"
    by (cases "ss_conn s")
      (auto simp: session_ok_def connected_under_def intro!: triple_basic triple_weaken [OF f])
qed

lemma triple_connect_afresh:
  "triple (\<lambda>st. session_ok st \<and> (\<not> is_connected st \<or> connected_under a st)) (connect_afresh w a)
     (\<lambda>_. connected_under a) session_ok"
  unfolding connect_afresh_def
proof (rule triple_with_session)
  fix s
  let ?P = "\<lambda>st. session_ok st \<and> (\<not> is_connected st \<or> connected_under a st)"
  have f: "triple (idle p e False) (on_success (transport_connect w) (\<lambda>_. settle w a)) (\<lambda>_. connected_under a) session_ok" for p e
    by (rule triple_on_success [where M = "\<lambda>_. idle p e False"])
      (auto intro: triple_weaken [OF triple_connect] triple_weaken [OF triple_settle] idle_ok)
  show "triple (\<lambda>st. st = s \<and> ?P st)
     (if is_connected s then give () else case ss_pin_err s of
        None \<Rightarrow> on_success (transport_connect w) (\<lambda>_. settle w a)
      | Some text \<Rightarrow> fail (Down (client_error text))) (\<lambda>_. connected_under a) session_ok"
  proof (cases "is_connected s")
    case False
    then have "triple (\<lambda>st. st = s \<and> ?P st) (on_success (transport_connect w) (\<lambda>_. settle w a))
        (\<lambda>_. connected_under a) session_ok"
      by (intro triple_weaken [OF f [of "ss_pinned s" "ss_pin_err s"]]) (auto dest: ok_idle)
    with False show ?thesis by (auto split: option.split intro: triple_basic)
  qed (auto intro: triple_basic)
qed

text \<open>The connection an exchange starts with belongs to the credential presented at its start.\<close>

lemma triple_connect_locked:
  "triple (\<lambda>st. session_ok st \<and> moment st = n) (connect_locked w)
     (\<lambda>_. connected_under (wd_authorization w n)) session_ok"
  unfolding connect_locked_def
proof (rule triple_on_success)
  show "triple (\<lambda>st. session_ok st \<and> moment st = n) (look (wd_authorization w))
     (\<lambda>a st. session_ok st \<and> a = wd_authorization w n) session_ok"
    by (rule triple_basic) auto
  show "triple (\<lambda>st. session_ok st \<and> a = wd_authorization w n)
     (on_success (forsake_other a) (\<lambda>_. connect_afresh w a)) (\<lambda>_. connected_under (wd_authorization w n)) session_ok" for a
    using triple_on_success [OF triple_forsake_other triple_connect_afresh, of a "\<lambda>_. w"] by (auto simp: triple_def)
qed


section \<open>Exchanges\<close>

text \<open>Extra headers are rendered without touching the connection.\<close>

definition steady_terms :: "exchange_terms \<Rightarrow> bool" where
  "steady_terms held \<longleftrightarrow>
     (case te_headers held of None \<Rightarrow> True | Some render \<Rightarrow> (\<forall>h encoded. along steady (render h encoded)))"

lemma along_request_over: "steady_terms held \<Longrightarrow> along steady (request_over w mf ps held c)"
  unfolding request_over_def
  by (intro steady.along_with_session steady.along_request_with) (auto simp: steady_terms_def rendering_def)

text \<open>The connection a request goes over: known, and in the context its terms insist on.\<close>

definition usable :: "exchange_terms \<Rightarrow> negotiated \<Rightarrow> bool" where
  "usable held c \<longleftrightarrow> known_connection c \<and> (te_authorization held = 0 \<or> ng_authorization c = te_authorization held)"

lemma triple_standing:
  "triple session_ok (standing_connection w held) (\<lambda>c st. session_ok st \<and> usable held c) session_ok"
  unfolding standing_connection_def
proof (rule triple_with_session)
  fix s
  have c: "triple session_ok (connection_under held) (\<lambda>c st. session_ok st \<and> usable held c) session_ok"
    by (auto simp: triple_def connection_under_def session_ok_def usable_def split: option.splits)
  have l: "triple (\<lambda>st. st = s \<and> session_ok st) (connect_locked w) (\<lambda>_. session_ok) session_ok"
    by (rule triple_weaken [OF triple_connect_locked [of "moment s"]]) (auto dest: connected_ok)
  show "triple (\<lambda>st. st = s \<and> session_ok st)
     (on_success (if cl_connecting (ss_client s) then give () else connect_locked w) (\<lambda>_. connection_under held))
     (\<lambda>c st. session_ok st \<and> usable held c) session_ok"
    by (rule triple_on_success [OF _ c]) (auto intro: l triple_basic)
qed

lemma triple_request_over:
  "steady_terms held \<Longrightarrow> triple session_ok (request_over w mf ps held c) (\<lambda>_. session_ok) session_ok"
  by (rule triple_steady_any [OF along_request_over]) (auto intro: ok_steady)

lemma triple_try_over:
  assumes "steady_terms held"
  shows "triple (\<lambda>st. session_ok st \<and> usable held c) (try_over w mf ps held c)
    (\<lambda>tried st. session_ok st \<and> usable held (fst tried)) session_ok"
  using triple_request_over [OF assms, of w mf ps c]
  by (fastforce simp: triple_def try_over_def on_result_def split: prod.splits outcome.splits)

lemma triple_retry_expired:
  assumes "steady_terms held"
  shows "triple (\<lambda>st. session_ok st \<and> usable held (fst tried)) (retry_expired w mf ps held tried)
    (\<lambda>tried st. session_ok st \<and> usable held (fst tried)) session_ok"
proof -
  have "triple (\<lambda>st. session_ok st \<and> usable held (fst tried))
      (on_success (standing_connection w held) (try_over w mf ps held))
      (\<lambda>tried st. session_ok st \<and> usable held (fst tried)) session_ok"
    by (rule triple_on_success [OF _ triple_try_over [OF assms]])
      (auto intro: triple_weaken [OF triple_standing])
  then show ?thesis unfolding retry_expired_def by (auto split: sum.split intro!: triple_basic)
qed

lemma triple_renegotiated:
  "triple (\<lambda>st. session_ok st \<and> usable held c) (renegotiated w c t)
     (\<lambda>c st. session_ok st \<and> usable held c) session_ok"
  unfolding renegotiated_def
proof (rule triple_with_session)
  fix s
  let ?a = "ng_authorization c"
  have f: "triple (\<lambda>st. st = s \<and> session_ok st) forget_connection
      (\<lambda>_. idle (ss_pinned s) (ss_pin_err s) False) session_ok"
    unfolding forget_connection_def by (rule triple_basic) (auto simp: idle_def session_ok_def is_connected_def)
  have g: "triple (\<lambda>st. connected_under ?a st \<and> usable held c)
      (with_session (\<lambda>st1. case ss_conn st1 of None \<Rightarrow> (\<lambda>st. (NoReturn, st))
         | Some c1 \<Rightarrow> if ng_version c1 = ng_version c then fail t else give c1))
      (\<lambda>c st. session_ok st \<and> usable held c) session_ok"
    by (auto simp: triple_def connected_under_def session_ok_def usable_def split: option.splits)
  show "triple (\<lambda>st. st = s \<and> session_ok st \<and> usable held c)
     (if ss_pinned s \<noteq> [] then fail t
      else on_success forget_connection (\<lambda>_. on_success (settle w ?a) (\<lambda>_.
        with_session (\<lambda>st1. case ss_conn st1 of None \<Rightarrow> (\<lambda>st. (NoReturn, st))
         | Some c1 \<Rightarrow> if ng_version c1 = ng_version c then fail t else give c1))))
     (\<lambda>c st. session_ok st \<and> usable held c) session_ok"
  proof (cases "usable held c")
    case True
    then have "triple (idle p e False) (settle w ?a) (\<lambda>_ st. connected_under ?a st \<and> usable held c) session_ok" for p e
      by (intro triple_weaken [OF triple_settle]) auto
    note x = triple_on_success [OF f triple_on_success [OF this g]]
    have "triple (\<lambda>st. st = s \<and> session_ok st \<and> usable held c) (fail t) (\<lambda>c st. session_ok st \<and> usable held c) session_ok"
      by (rule triple_basic) simp
    then show ?thesis
      by (intro triple_cases(1) triple_weaken [OF x]) simp_all
  qed (simp add: triple_def)
qed

lemma triple_retry_unsupported:
  assumes "steady_terms held"
  shows "triple (\<lambda>st. session_ok st \<and> usable held (fst tried)) (retry_unsupported w mf ps held tried)
    (\<lambda>tried st. session_ok st \<and> usable held (fst tried)) session_ok"
proof -
  have "triple (\<lambda>st. session_ok st \<and> usable held (fst tried))
      (on_success (renegotiated w (fst tried) t) (try_over w mf ps held))
      (\<lambda>tried st. session_ok st \<and> usable held (fst tried)) session_ok" for t
    by (rule triple_on_success [OF triple_renegotiated triple_try_over [OF assms]])
  then show ?thesis unfolding retry_unsupported_def by (auto split: sum.split intro!: triple_basic)
qed

lemma triple_acquire: "triple session_ok (acquire_exchange w) (\<lambda>_. session_ok) session_ok"
  unfolding acquire_exchange_def
  by (rule triple_on_success [where M = "\<lambda>_. session_ok"]) (auto intro!: triple_basic split: option.split)

lemma triple_exchange:
  assumes "steady_terms held"
  shows "triple session_ok (exchange_for w mf ps held)
    (\<lambda>a st. session_ok st \<and> an_generation a = ss_generation st
      \<and> (te_authorization held = 0 \<or> an_authorization a = te_authorization held)) session_ok"
proof -
  have a: "triple (\<lambda>st. session_ok st \<and> usable held (fst tried)) (answer_of w tried)
    (\<lambda>a st. session_ok st \<and> an_generation a = ss_generation st
      \<and> (te_authorization held = 0 \<or> an_authorization a = te_authorization held)) session_ok" for tried
    by (auto simp: triple_def answer_of_def on_success_def on_result_def usable_def split: sum.split)
  show ?thesis
    unfolding exchange_for_def
    by (intro triple_on_success [OF triple_acquire] triple_on_success [OF triple_standing]
        triple_on_success [OF triple_try_over [OF assms]] triple_on_success [OF triple_retry_expired [OF assms]]
        triple_on_success [OF triple_retry_unsupported [OF assms]] a)
qed

lemma triple_connection: "triple session_ok (connect w) (\<lambda>_. session_ok) session_ok"
  unfolding connect_def
  by (intro triple_on_success [OF triple_acquire] triple_on_success [OF triple_standing] triple_with_session)
    (auto intro: triple_basic)

lemma triple_advertised: "triple session_ok (advertised w) (\<lambda>_. session_ok) session_ok"
proof -
  have r: "triple session_ok (refresh_outlived w g) (\<lambda>_. session_ok) session_ok" for g
    unfolding refresh_outlived_def mark_disconnected_def
  proof (intro triple_with_session triple_cases triple_on_success)
    fix s
    show "triple (\<lambda>st. st = s \<and> session_ok st) (look (wd_now w)) (\<lambda>_ st. session_ok st \<and> ss_conn st = ss_conn s
        \<and> ss_pinned st = ss_pinned s \<and> ss_pin_err st = ss_pin_err s) session_ok"
      by (rule triple_basic) auto
  next
    fix s c
    let ?off = "\<lambda>st. st\<lparr>ss_client := (ss_client st)\<lparr>cl_connected := False\<rparr>\<rparr>"
    assume "ss_conn s = Some c"
    then show "triple (\<lambda>st. session_ok st \<and> ss_conn st = ss_conn s \<and> ss_pinned st = ss_pinned s
        \<and> ss_pin_err st = ss_pin_err s) (update ?off) (\<lambda>_. idle (ss_pinned s) (ss_pin_err s) False) session_ok"
      by (intro triple_basic) (auto simp: idle_def session_ok_def is_connected_def)
    show "triple (idle (ss_pinned s) (ss_pin_err s) False) (settle w (ng_authorization c)) (\<lambda>_. session_ok) session_ok"
      by (rule triple_weaken [OF triple_settle]) (auto dest: connected_ok)
  qed (auto intro: triple_basic)
  have c: "triple (\<lambda>st. st = s \<and> session_ok st) (connect_locked w) (\<lambda>_. session_ok) session_ok" for s
    by (rule triple_weaken [OF triple_connect_locked [of "moment s"]]) (auto dest: connected_ok)
  show ?thesis
    unfolding advertised_def
    by (intro triple_on_success [OF triple_acquire] triple_with_session triple_on_success [OF c]
        triple_on_success [OF r]) (auto intro: triple_basic)
qed

lemma triple_pin: "triple session_ok (pin_protocol_version v) (\<lambda>_. session_ok) session_ok"
  by (auto simp: triple_def pin_protocol_version_def on_success_def on_result_def disconnect_if_standing_def
      session_disconnect_def session_ok_def is_connected_def disconnect_def)

end
