(* ===== verification/Client_Catalogue.thy ===== *)
theory Client_Catalogue
  imports Session_Laws
begin

text \<open>
  The operations of a client over its connection (\<open>client/client.go\<close>, \<open>client/methods.go\<close>): listings
  read page by page, what is kept of the tools a listing stated, and calls of a tool mirrored from it.
  The pages of a listing are asked for through an asker: an exchange of its own each, or a request over
  the connection an exchange already holds.
\<close>

section \<open>Reading a listing\<close>

definition crossed_generation :: int where "crossed_generation = -1"
definition max_list_pages :: nat where "max_list_pages = 1000"

text \<open>An entry is a payload and the moment its page goes stale.\<close>

record listing =
  li_entries :: "((bytes \<times> any) list \<times> int) list"
  li_read_on :: int
  li_stale_after :: int
  li_authorization :: int

definition unread :: listing where
  "unread = \<lparr>li_entries = [], li_read_on = crossed_generation, li_stale_after = 0, li_authorization = 0\<rparr>"

type_synonym asker = "bytes \<Rightarrow> any option \<Rightarrow> int \<Rightarrow> answered act"

definition client_trouble :: "bytes \<Rightarrow> trouble" where
  "client_trouble text = Down (client_error text)"

definition list_method :: "bytes \<Rightarrow> bytes" where
  "list_method list_type = list_type @ ''/list''"

definition repeated_cursor :: "bytes \<Rightarrow> trouble" where
  "repeated_cursor list_type = client_trouble (''repeated '' @ list_method list_type @ '' cursor received from server'')"

definition unbounded_listing :: "bytes \<Rightarrow> nat \<Rightarrow> trouble" where
  "unbounded_listing list_type pages =
     client_trouble (''the server kept handing out cursors for ['' @ list_method list_type @ ''] past ''
       @ nat_to_dec pages @ '' pages, so the listing was given up'')"

definition invalid_listing :: "bytes \<Rightarrow> trouble" where
  "invalid_listing list_type = client_trouble (''invalid '' @ list_method list_type @ '' response from server'')"

text \<open>The cursor of the next page, as it was written: none where the listing ends.\<close>

definition next_cursor_of :: "bytes \<Rightarrow> (bytes \<times> bytes) list \<Rightarrow> trouble + bytes option" where
  "next_cursor_of list_type result =
     (let stated = trim_json_space (env_raw result ''nextCursor'')
      in if stated = [] \<or> stated = ''null'' then Inr None
         else if json_string stated = None
         then Inl (client_trouble (''invalid '' @ list_method list_type
                @ '' response from server: the nextCursor member is not a string''))
         else Inr (Some stated))"

text \<open>The first page settles what the listing belongs to; a later one can only take from it.\<close>

definition date_listing :: "nat \<Rightarrow> answered \<Rightarrow> int \<Rightarrow> listing \<Rightarrow> listing" where
  "date_listing pages reply stale read =
     (if pages = 0
      then read\<lparr>li_read_on := an_generation reply, li_stale_after := stale, li_authorization := an_authorization reply\<rparr>
      else read\<lparr>li_read_on := (if an_generation reply \<noteq> li_read_on read then crossed_generation else li_read_on read),
                li_stale_after := (if stale < li_stale_after read then stale else li_stale_after read)\<rparr>)"

datatype page_end = BadEntry | LimitReached listing | PageRead listing

fun add_entries :: "int option \<Rightarrow> int \<Rightarrow> any list \<Rightarrow> listing \<Rightarrow> page_end" where
  "add_entries limit stale [] read = PageRead read"
| "add_entries limit stale (entry # page) read =
     (case entry of
        AMap m \<Rightarrow>
          if (case limit of None \<Rightarrow> False | Some lim \<Rightarrow> lim \<le> int (length (li_entries read)))
          then LimitReached read
          else add_entries limit stale page (read\<lparr>li_entries := li_entries read @ [(m, stale)]\<rparr>)
      | _ \<Rightarrow> BadEntry)"

text \<open>What a page adds, and the cursor after it unless the listing ends with it.\<close>

definition page_read :: "bytes \<Rightarrow> int option \<Rightarrow> int \<Rightarrow> bytes \<Rightarrow> listing \<Rightarrow> trouble + (listing \<times> bytes option)" where
  "page_read list_type limit stale raw read =
     (let result = (case unmarshal_map raw of Dec ms \<Rightarrow> Some ms | DecNil \<Rightarrow> Some [] | DecErr \<Rightarrow> None)
      in case result of
           None \<Rightarrow> Inl (invalid_listing list_type)
         | Some members \<Rightarrow>
             (case member_list (env_raw members list_type) of
                None \<Rightarrow> Inl (invalid_listing list_type)
              | Some page \<Rightarrow>
                  (case add_entries limit stale page read of
                     BadEntry \<Rightarrow> Inl (client_trouble (''invalid '' @ list_type @ '' payload from server''))
                   | LimitReached whole \<Rightarrow> Inr (whole, None)
                   | PageRead longer \<Rightarrow>
                       (case next_cursor_of list_type members of
                          Inl t \<Rightarrow> Inl t
                        | Inr next \<Rightarrow> Inr (longer, next)))))"

definition cursor_params :: "bytes option \<Rightarrow> any option" where
  "cursor_params cursor = map_option (\<lambda>c. AMap [(''cursor'', ARaw c)]) cursor"

text \<open>The first number counts the pages still allowed, the second those read.\<close>

fun read_pages_from ::
  "asker \<Rightarrow> bytes \<Rightarrow> int option \<Rightarrow> nat \<Rightarrow> nat \<Rightarrow> bytes option \<Rightarrow> bytes list \<Rightarrow> listing \<Rightarrow> listing act" where
  "read_pages_from ask list_type limit left pages cursor seen read =
     (if (case cursor of None \<Rightarrow> False | Some c \<Rightarrow> c \<in> set seen) then fail (repeated_cursor list_type)
      else case left of
        0 \<Rightarrow> fail (unbounded_listing list_type pages)
      | Suc n \<Rightarrow>
          on_success (ask (list_method list_type) (cursor_params cursor) (li_authorization read)) (\<lambda>reply.
            case stale_after (an_received_at reply) (an_result reply) of
              None \<Rightarrow> (\<lambda>st. (NoReturn, st))
            | Some stale \<Rightarrow>
                (case page_read list_type limit stale (an_result reply) (date_listing pages reply stale read) of
                   Inl t \<Rightarrow> fail t
                 | Inr (longer, None) \<Rightarrow> give longer
                 | Inr (longer, Some next) \<Rightarrow>
                     read_pages_from ask list_type limit n (Suc pages) (Some next)
                       (case cursor of None \<Rightarrow> seen | Some c \<Rightarrow> c # seen) longer)))"

definition read_pages :: "asker \<Rightarrow> bytes \<Rightarrow> int option \<Rightarrow> listing act" where
  "read_pages ask list_type limit = read_pages_from ask list_type limit max_list_pages 0 None [] unread"

definition page_exchanged :: "world \<Rightarrow> asker" where
  "page_exchanged w m params authorization = exchange_with w m params \<lparr>te_headers = None, te_authorization = authorization\<rparr>"

definition asked :: "world \<Rightarrow> held_connection \<Rightarrow> asker" where
  "asked w h m params authorization = ask_held w h m params"

definition resolve_limit :: "bytes \<Rightarrow> int option \<Rightarrow> trouble + int option" where
  "resolve_limit list_type limit =
     (case limit of
        None \<Rightarrow> Inr None
      | Some lim \<Rightarrow>
          if lim < 0 then Inl (client_trouble (list_type @ '' list limit must be greater than or equal to zero''))
          else Inr (Some lim))"

definition is_authorization_changed :: "trouble \<Rightarrow> bool" where
  "is_authorization_changed t = (case t of Down f \<Rightarrow> fl_class f = CredentialChanged | _ \<Rightarrow> False)"

definition credential_kept_changing :: "bytes \<Rightarrow> trouble" where
  "credential_kept_changing list_type =
     client_trouble (''the credential presented to the server kept changing while the '' @ list_type
       @ '' were being listed, so no listing of them belongs to one caller'')"

definition list_on :: "world \<Rightarrow> bytes \<Rightarrow> int option \<Rightarrow> listing act" where
  "list_on w list_type limit =
     (case resolve_limit list_type limit of
        Inl t \<Rightarrow> fail t
      | Inr lim \<Rightarrow>
          if lim = Some 0 then give unread
          else on_result (read_pages (page_exchanged w) list_type lim) (\<lambda>first.
                 case first of
                   Inr read \<Rightarrow> give read
                 | Inl t \<Rightarrow>
                     if \<not> is_authorization_changed t then fail t
                     else on_result (read_pages (page_exchanged w) list_type lim) (\<lambda>second.
                            case second of
                              Inr read \<Rightarrow> give read
                            | Inl t2 \<Rightarrow>
                                fail (if is_authorization_changed t2 then credential_kept_changing list_type else t2))))"

definition list_entries :: "world \<Rightarrow> bytes \<Rightarrow> int option \<Rightarrow> (bytes \<times> any) list list act" where
  "list_entries w list_type limit = on_success (list_on w list_type limit) (\<lambda>read. give (map fst (li_entries read)))"

section \<open>What is kept of the tools\<close>

text \<open>The tools on offer, what was stated under each name, and the tools refused with the reasons.\<close>

record tools_read =
  tl_tools :: "client_tool list"
  tl_stated :: "(bytes \<times> tool_definition) list"
  tl_excluded :: "(bytes \<times> bytes) list"

fun tools_of :: "((bytes \<times> any) list \<times> int) list \<Rightarrow> tools_read \<Rightarrow> failure + tools_read" where
  "tools_of [] acc = Inr acc"
| "tools_of ((payload, stale) # entries) acc =
     (case parse_tool payload of
        Inl f \<Rightarrow> Inl f
      | Inr t \<Rightarrow>
          (let acc1 = acc\<lparr>tl_stated := AList.update (ct_name t)
                 \<lparr>td_mirrored = ct_mirrored t, td_stale_after = stale\<rparr> (tl_stated acc)\<rparr>
           in tools_of entries
                (case ct_mirrored t of
                   Inl refused \<Rightarrow> acc1\<lparr>tl_excluded := tl_excluded acc1 @ [(ct_name t, refused)]\<rparr>
                 | Inr _ \<Rightarrow> acc1\<lparr>tl_tools := tl_tools acc1 @ [t]\<rparr>)))"

definition no_tools_read :: tools_read where
  "no_tools_read = \<lparr>tl_tools = [], tl_stated = [], tl_excluded = []\<rparr>"

definition forget_other_connection :: "int \<Rightarrow> catalogue \<Rightarrow> catalogue" where
  "forget_other_connection generation c = (if ca_generation c = generation then c else empty_catalogue generation)"

definition recorded_listing ::
  "tools_read \<Rightarrow> bool \<Rightarrow> listing \<Rightarrow> int \<Rightarrow> session \<Rightarrow> session" where
  "recorded_listing tools whole read changes st =
     (let generation = ss_generation st; kept = forget_other_connection generation (ss_catalogue st);
          st1 = st\<lparr>ss_catalogue := kept, ss_excluded := tl_excluded tools, ss_excluded_for := li_authorization read\<rparr>
      in if li_read_on read \<noteq> generation \<or> changes \<noteq> ss_changes st then st1
         else if whole
         then st1\<lparr>ss_catalogue := \<lparr>ca_generation = generation, ca_tools = tl_stated tools, ca_whole = True,
                    ca_whole_until = li_stale_after read\<rparr>\<rparr>
         else st1\<lparr>ss_catalogue := kept\<lparr>ca_tools :=
                    fold (\<lambda>(name, d) kept. AList.update name d kept) (tl_stated tools) (ca_tools kept)\<rparr>\<rparr>)"

definition record_listing :: "tools_read \<Rightarrow> bool \<Rightarrow> listing \<Rightarrow> int \<Rightarrow> unit act" where
  "record_listing tools whole read changes = update (recorded_listing tools whole read changes)"

definition no_definition :: tool_definition where
  "no_definition = \<lparr>td_mirrored = Inr [], td_stale_after = 0\<rparr>"

definition stated_in :: "int \<Rightarrow> bytes \<Rightarrow> catalogue \<Rightarrow> tool_definition \<times> bool" where
  "stated_in now name c =
     (case map_of (ca_tools c) name of
        Some stated \<Rightarrow> (stated, now < td_stale_after stated)
      | None \<Rightarrow> (no_definition, ca_whole c \<and> now < ca_whole_until c))"

definition stated_for :: "world \<Rightarrow> bytes \<Rightarrow> int \<Rightarrow> (tool_definition \<times> bool) act" where
  "stated_for w name generation =
     on_success (look (wd_now w)) (\<lambda>now.
       on_success (update (\<lambda>st. st\<lparr>ss_catalogue := forget_other_connection generation (ss_catalogue st)\<rparr>)) (\<lambda>_.
         with_session (\<lambda>st. give (stated_in now name (ss_catalogue st)))))"

definition excluded_tools :: "int \<Rightarrow> session \<Rightarrow> (bytes \<times> bytes) list" where
  "excluded_tools authorization st = (if ss_excluded_for st \<noteq> authorization then [] else ss_excluded st)"

text \<open>The changes announced are counted before the first page is asked for.\<close>

definition client_tools :: "world \<Rightarrow> int option \<Rightarrow> client_tool list act" where
  "client_tools w limit =
     with_session (\<lambda>st.
       on_success (list_on w ''tools'' limit) (\<lambda>read.
         case tools_of (li_entries read) no_tools_read of
           Inl f \<Rightarrow> fail (Down f)
         | Inr tools \<Rightarrow>
             on_success (record_listing tools (limit = None) read (ss_changes st)) (\<lambda>_. give (tl_tools tools))))"

section \<open>Calling a tool\<close>

definition read_definition :: "world \<Rightarrow> held_connection \<Rightarrow> bytes \<Rightarrow> tool_definition option act" where
  "read_definition w held name =
     with_session (\<lambda>st.
       on_success (read_pages (asked w held) ''tools'' None) (\<lambda>read.
         case tools_of (li_entries read) no_tools_read of
           Inl f \<Rightarrow> fail (Down f)
         | Inr tools \<Rightarrow>
             on_success (record_listing tools True read (ss_changes st)) (\<lambda>_.
               give (map_of (tl_stated tools) name))))"

definition definition_headers :: "bytes \<Rightarrow> bytes \<Rightarrow> tool_definition \<Rightarrow> header_set act" where
  "definition_headers name encoded d =
     (case td_mirrored d of
        Inl refused \<Rightarrow>
          fail (client_trouble (''tool ['' @ name @ ''] cannot be called: its definition is invalid: '' @ refused))
      | Inr params \<Rightarrow>
          (case mirrored_param_headers params encoded of
             None \<Rightarrow> (\<lambda>st. (NoReturn, st))
           | Some (Inl text) \<Rightarrow> fail (client_trouble text)
           | Some (Inr headers) \<Rightarrow> give headers))"

definition is_server_refusal :: "trouble \<Rightarrow> bool" where
  "is_server_refusal t = (case t of Refused text e \<Rightarrow> True | _ \<Rightarrow> False)"

definition nothing_new_to_mirror :: trouble where
  "nothing_new_to_mirror =
     Down (plain_failure NothingNewToMirror ''client: the definition read again mirrors what was already sent'')"

definition is_nothing_new :: "trouble \<Rightarrow> bool" where
  "is_nothing_new t = (case t of Down f \<Rightarrow> fl_class f = NothingNewToMirror | _ \<Rightarrow> False)"

definition same_headers :: "header_set \<Rightarrow> header_set \<Rightarrow> bool" where
  "same_headers a b \<longleftrightarrow> length a = length b
     \<and> list_all (\<lambda>(name, value). (case map_of b name of None \<Rightarrow> [] | Some v \<Rightarrow> v) = value) a"

text \<open>The definition to mirror from, and whether it was read for this very attempt.\<close>

definition definition_to_mirror ::
  "world \<Rightarrow> bytes \<Rightarrow> header_set option \<Rightarrow> held_connection \<Rightarrow> (tool_definition \<times> bool) act" where
  "definition_to_mirror w name rejected held =
     on_success (case rejected of
         None \<Rightarrow> stated_for w name (hc_generation held)
       | Some _ \<Rightarrow> give (no_definition, False)) (\<lambda>(stated, known).
       if known then give (stated, False)
       else on_result (read_definition w held name) (\<lambda>r.
              case r of
                Inl t \<Rightarrow>
                  if \<not> is_server_refusal t then fail t
                  else if rejected \<noteq> None then fail nothing_new_to_mirror
                  else give (no_definition, True)
              | Inr None \<Rightarrow> if rejected \<noteq> None then fail nothing_new_to_mirror else give (no_definition, True)
              | Inr (Some d) \<Rightarrow> give (d, True)))"

text \<open>A definition that was kept is read again before a call is refused on it.\<close>

definition headers_to_mirror ::
  "world \<Rightarrow> bytes \<Rightarrow> held_connection \<Rightarrow> bytes \<Rightarrow> tool_definition \<times> bool \<Rightarrow> header_set act" where
  "headers_to_mirror w name held encoded stated_read =
     (case stated_read of (stated, read) \<Rightarrow>
        on_result (definition_headers name encoded stated) (\<lambda>r.
          case r of
            Inr headers \<Rightarrow> give headers
          | Inl t \<Rightarrow>
              if read then fail t
              else on_result (read_definition w held name) (\<lambda>again.
                     case again of
                       Inl t2 \<Rightarrow> if \<not> is_server_refusal t2 then fail t2 else fail t
                     | Inr None \<Rightarrow> fail t
                     | Inr (Some current) \<Rightarrow> definition_headers name encoded current)))"

definition mirroring ::
  "world \<Rightarrow> bytes \<Rightarrow> header_set option \<Rightarrow> held_connection \<Rightarrow> bytes \<Rightarrow> header_set act" where
  "mirroring w name rejected held encoded =
     on_success (definition_to_mirror w name rejected held) (\<lambda>stated_read.
       on_success (headers_to_mirror w name held encoded stated_read) (\<lambda>headers.
         if (case rejected of None \<Rightarrow> False | Some sent \<Rightarrow> same_headers headers sent)
         then fail nothing_new_to_mirror
         else on_success (update (\<lambda>st. st\<lparr>ss_rendered := Some headers\<rparr>)) (\<lambda>_. give headers)))"

definition dispatch_tool_call ::
  "world \<Rightarrow> (bytes \<times> any) list \<Rightarrow> (held_connection \<Rightarrow> bytes \<Rightarrow> header_set act) option \<Rightarrow> tool_outcome act" where
  "dispatch_tool_call w params extra =
     on_success (dispatch_with w ''tools/call'' (Some (AMap params)) extra) (\<lambda>raw.
       case parse_tool_result raw of Inl f \<Rightarrow> fail (Down f) | Inr res \<Rightarrow> give res)"

definition is_header_mismatch :: "trouble \<Rightarrow> bool" where
  "is_header_mismatch t = (case t of Refused text e \<Rightarrow> err_code e = code_header_mismatch_client | _ \<Rightarrow> False)"

text \<open>A call repeated once with the headers of a definition read again.\<close>

definition call_again :: "world \<Rightarrow> bytes \<Rightarrow> (bytes \<times> any) list \<Rightarrow> trouble \<Rightarrow> tool_outcome act" where
  "call_again w name params refusal =
     with_session (\<lambda>st.
       case ss_rendered st of
         None \<Rightarrow> fail refusal
       | Some sent \<Rightarrow>
           on_result (dispatch_tool_call w params (Some (mirroring w name (Some sent)))) (\<lambda>again.
             case again of
               Inr res \<Rightarrow> give res
             | Inl t \<Rightarrow> fail (if is_nothing_new t then refusal else t)))"

definition call_mirrored :: "world \<Rightarrow> bytes \<Rightarrow> (bytes \<times> any) list \<Rightarrow> tool_outcome act" where
  "call_mirrored w name params =
     on_success (update (\<lambda>st. st\<lparr>ss_rendered := None\<rparr>)) (\<lambda>_.
       on_result (dispatch_tool_call w params (Some (mirroring w name None))) (\<lambda>r.
         case r of
           Inr res \<Rightarrow> give res
         | Inl t \<Rightarrow> if is_header_mismatch t then call_again w name params t else fail t))"

definition call_params :: "bytes \<Rightarrow> (bytes \<times> any) list option \<Rightarrow> (bytes \<times> any) list" where
  "call_params name arguments =
     [(''name'', AStr name), (''arguments'', AMap (case arguments of None \<Rightarrow> [] | Some a \<Rightarrow> a))]"

definition client_call_tool ::
  "world \<Rightarrow> bytes \<Rightarrow> (bytes \<times> any) list option \<Rightarrow> continuation list \<Rightarrow> tool_outcome act" where
  "client_call_tool w name arguments continuations =
     (case apply_continuation (call_params name arguments) continuations of
        Inl text \<Rightarrow> fail (client_trouble text)
      | Inr params \<Rightarrow>
          if \<not> wd_carries_headers w then dispatch_tool_call w params None
          else call_mirrored w name params)"

section \<open>Resources and prompts\<close>

fun parse_all :: "('p \<Rightarrow> failure + 'r) \<Rightarrow> 'p list \<Rightarrow> failure + 'r list" where
  "parse_all parse [] = Inr []"
| "parse_all parse (p # ps) =
     (case parse p of Inl f \<Rightarrow> Inl f | Inr r \<Rightarrow> (case parse_all parse ps of Inl f \<Rightarrow> Inl f | Inr rs \<Rightarrow> Inr (r # rs)))"

definition parsed :: "failure + 'r \<Rightarrow> 'r act" where
  "parsed r = (case r of Inl f \<Rightarrow> fail (Down f) | Inr x \<Rightarrow> give x)"

definition client_resources :: "world \<Rightarrow> int option \<Rightarrow> client_resource list act" where
  "client_resources w limit =
     on_success (list_entries w ''resources'' limit) (\<lambda>entries. parsed (parse_all parse_resource entries))"

definition client_prompts :: "world \<Rightarrow> int option \<Rightarrow> client_prompt list act" where
  "client_prompts w limit =
     on_success (list_entries w ''prompts'' limit) (\<lambda>entries. parsed (parse_all parse_prompt entries))"

definition client_read_resource :: "world \<Rightarrow> bytes \<Rightarrow> continuation list \<Rightarrow> read_outcome act" where
  "client_read_resource w uri continuations =
     (case apply_continuation [(''uri'', AStr uri)] continuations of
        Inl text \<Rightarrow> fail (client_trouble text)
      | Inr params \<Rightarrow>
          on_success (session_dispatch w ''resources/read'' (Some (AMap params))) (\<lambda>raw. parsed (parse_read_result raw)))"

definition get_client_prompt ::
  "world \<Rightarrow> bytes \<Rightarrow> (bytes \<times> any) list option \<Rightarrow> continuation list \<Rightarrow> prompt_outcome act" where
  "get_client_prompt w name arguments continuations =
     (case apply_continuation (call_params name arguments) continuations of
        Inl text \<Rightarrow> fail (client_trouble text)
      | Inr params \<Rightarrow>
          on_success (session_dispatch w ''prompts/get'' (Some (AMap params))) (\<lambda>raw. parsed (parse_prompt_result raw)))"

end
