(* ===== verification/Client_Bounds.thy ===== *)
theory Client_Bounds
  imports Client_Catalogue
begin

text \<open>
  How many requests an operation of a client can make, whatever the server answers: handshakes are
  retried a fixed number of times, a request is repeated at most twice, a listing runs to a fixed
  number of pages, and a call is repeated once.
\<close>

section \<open>Counting requests\<close>

fun is_request :: "move \<Rightarrow> bool" where
  "is_request (Requests m v) = True"
| "is_request _ = False"

definition requests_made :: "session \<Rightarrow> nat" where
  "requests_made st = length (filter is_request (ss_moves st))"

definition costs :: "nat \<Rightarrow> 'a act \<Rightarrow> bool" where
  "costs n a = (\<forall>st. requests_made (snd (a st)) \<le> requests_made st + n)"

lemma requests_noted [simp]:
  "requests_made (noted x st) = requests_made st + (if is_request x then 1 else 0)"
  "requests_made (with_client cl st) = requests_made st"
  "requests_made (st\<lparr>ss_conn := c\<rparr>) = requests_made st" "requests_made (st\<lparr>ss_client := cl\<rparr>) = requests_made st"
  "requests_made (st\<lparr>ss_catalogue := ca\<rparr>) = requests_made st"
  "requests_made (st\<lparr>ss_rendered := hs\<rparr>) = requests_made st"
  by (simp_all add: requests_made_def)

lemma costs_mono: "costs n a \<Longrightarrow> n \<le> m \<Longrightarrow> costs m a"
  unfolding costs_def by (meson add_left_mono le_trans)

lemma costs_basic:
  "costs n (give x)" "costs n (fail t)" "costs n (look f)" "costs n (\<lambda>st. (NoReturn, st))"
  by (simp_all add: costs_def)

lemma costs_update: "(\<And>st. requests_made (g st) \<le> requests_made st) \<Longrightarrow> costs n (update g)"
  by (simp add: costs_def trans_le_add1)

lemma costs_on_result:
  assumes "costs m a" "m \<le> n" "\<And>x. costs (n - m) (k (Inr x))" "\<And>t. costs (n - m) (k (Inl t))"
  shows "costs n (on_result a k)"
  unfolding costs_def
proof
  fix st
  obtain r st1 where a: "a st = (r, st1)" by fastforce
  have 1: "requests_made st1 \<le> requests_made st + m" using assms(1) a unfolding costs_def by (metis snd_conv)
  have 2: "requests_made (snd (k (Inr x) st1)) \<le> requests_made st1 + (n - m)"
    "requests_made (snd (k (Inl t) st1)) \<le> requests_made st1 + (n - m)" for x t
    using assms(3,4) by (simp_all add: costs_def)
  show "requests_made (snd (on_result a k st)) \<le> requests_made st + n"
  proof (cases r)
    case (Returned x)
    with a 1 2(1) [of x] assms(2) show ?thesis by (simp add: on_result_def)
  next
    case (Erred t)
    with a 1 2(2) [of t] assms(2) show ?thesis by (simp add: on_result_def)
  next
    case NoReturn
    with a 1 assms(2) show ?thesis by (simp add: on_result_def)
  qed
qed

lemma costs_on_success:
  "costs m a \<Longrightarrow> m \<le> n \<Longrightarrow> (\<And>x. costs (n - m) (k x)) \<Longrightarrow> costs n (on_success a k)"
  unfolding on_success_def by (rule costs_on_result) (simp_all add: costs_basic)

lemma costs_with_session: "(\<And>s. costs n (k s)) \<Longrightarrow> costs n (with_session k)"
  by (simp add: costs_def)

lemma costs_cases:
  "costs n a \<Longrightarrow> costs n b \<Longrightarrow> costs n (if c then a else b)"
  "(\<And>x. costs n (f x)) \<Longrightarrow> (\<And>y. costs n (g y)) \<Longrightarrow> costs n (case s of Inl x \<Rightarrow> f x | Inr y \<Rightarrow> g y)"
  "costs n a \<Longrightarrow> (\<And>z. costs n (h z)) \<Longrightarrow> costs n (case opt of None \<Rightarrow> a | Some z \<Rightarrow> h z)"
  "(\<And>x y. costs n (p x y)) \<Longrightarrow> costs n (case pair of (x, y) \<Rightarrow> p x y)"
  "(\<And>d. costs n (td d)) \<Longrightarrow> (\<And>u e. costs n (tr u e)) \<Longrightarrow> (\<And>u. costs n (ts u))
     \<Longrightarrow> costs n (case t of Down d \<Rightarrow> td d | Refused u e \<Rightarrow> tr u e | Suspends u \<Rightarrow> ts u)"
  by (simp_all split: sum.split option.split prod.split trouble.split)

lemmas costs_rules = costs_basic costs_with_session costs_cases

section \<open>Handshakes\<close>

lemma costs_requests:
  "costs 0 (request_params w m ps v)" "costs (Suc 0) (send_request w m v enc hs)" "costs 0 (send_notification w m v)"
  "costs 0 (transport_connect w)" "costs 0 transport_disconnect" "costs 0 (context_done w)"
  "costs 0 (look f)" "costs 0 (set_connection c)" "costs 0 (settle_on a conn)"
  by (auto simp: costs_def request_params_def send_request_def send_notification_def transport_connect_def
      transport_disconnect_def context_done_def set_connection_def settle_on_def Let_def
      split: prod.splits sum.splits)

lemma costs_request_with:
  assumes "\<And>render enc. extra = Some render \<Longrightarrow> costs k (render enc)"
  shows "costs (Suc k) (request_with w m ps v extra)"
proof -
  have r: "costs k (case extra of None \<Rightarrow> give [] | Some render \<Rightarrow> render enc)" for enc
    using assms by (cases extra) (simp_all add: costs_basic)
  have h: "costs k (request_headers m v enc extra)" for enc
    unfolding request_headers_def by (intro costs_cases(1) costs_on_success [OF r]) (simp_all add: costs_basic)
  show ?thesis
    unfolding request_with_def
    by (intro costs_on_success [OF costs_requests(1)] costs_on_success [OF h]) (simp_all add: costs_requests)
qed

lemma costs_request_plain: "costs (Suc 0) (request_with w m ps v None)"
  using costs_request_with [of None 0] by simp

lemma costs_initialize: "costs (Suc 0) (client_initialize w v pinned)"
  unfolding client_initialize_def
  by (intro costs_on_success [OF costs_requests(7)] costs_on_result [OF costs_request_plain])
    (auto intro!: costs_rules costs_on_success [OF costs_requests(3)] split: sum.split)

lemma costs_discover: "costs 2 (client_discover w pinned)"
proof -
  have d: "costs (Suc 0) (discovered_connection w pinned raw table now)" for raw table now
    unfolding discovered_connection_def by (intro costs_rules costs_initialize)
  show ?thesis
    unfolding client_discover_def
    by (intro costs_on_result [OF costs_request_plain])
      (auto intro!: costs_rules costs_on_success [OF costs_requests(7)] d)
qed

lemma costs_fallback: "costs 2 (client_fallback w)"
  unfolding client_fallback_def
  by (intro costs_on_result [OF costs_initialize])
    (auto intro!: costs_rules costs_on_success [OF costs_requests(6)] costs_on_success [OF costs_requests(5)]
      costs_on_result [OF costs_requests(4)] costs_initialize)

lemma costs_probe: "costs 4 (probe w)"
proof -
  have f: "costs 2 (fall_back_from w t)" for t
    unfolding fall_back_from_def
    by (intro costs_on_success [OF costs_requests(6)] costs_cases(1) costs_on_success [OF costs_requests(4)]
        costs_on_result [OF costs_fallback]) (auto intro!: costs_rules)
  have d: "costs 2 (negotiate_down w e)" for e
    unfolding negotiate_down_def by (intro costs_rules costs_mono [OF costs_initialize]) simp
  have r: "costs 2 (weigh_rejection w t)" for t
    unfolding weigh_rejection_def
    by (intro costs_rules f d costs_on_success [OF costs_requests(7)]) (simp_all add: f costs_basic)
  show ?thesis unfolding probe_def by (intro costs_on_result [OF costs_discover]) (auto intro: r costs_basic)
qed

lemma costs_handshake: "costs 5 (negotiate_handshake w a)"
proof -
  have p: "costs 4 (probe_and_settle w a)"
    unfolding probe_and_settle_def
    by (intro costs_on_success [OF costs_probe] costs_mono [OF costs_requests(9)]) simp_all
  have h: "costs 5 (handshake_again w a v)" for v
    unfolding handshake_again_def
    by (intro costs_on_result [OF costs_initialize])
      (auto intro!: costs_rules costs_on_success [OF costs_requests(6)] costs_on_success [OF costs_requests(8)]
        costs_on_success [OF costs_requests(4)] costs_mono [OF p] costs_mono [OF costs_requests(9)])
  have n: "costs 2 (negotiate_pinned w v)" for v
    unfolding negotiate_pinned_def by (intro costs_rules costs_discover costs_mono [OF costs_initialize]) simp
  show ?thesis
    unfolding negotiate_handshake_def
    by (intro costs_rules h costs_mono [OF p] costs_on_success [OF n] costs_mono [OF costs_requests(9)]) simp_all
qed

lemma costs_settle: "costs 5 (settle w a)"
proof -
  have u: "costs n (set_connecting b)" "costs n count_connection" "costs n session_disconnect" for b n
    by (auto simp: set_connecting_def count_connection_def session_disconnect_def requests_made_def
        intro!: costs_update)
  show ?thesis
    unfolding settle_def
    by (intro costs_on_success [OF u(1) [of 0]] costs_on_result [OF costs_handshake])
      (auto intro!: costs_on_success [OF u(1) [of 0]] costs_on_success [OF u(3) [of 0]] u costs_basic)
qed

lemma costs_connect_locked: "costs 5 (connect_locked w)"
proof -
  have d: "costs 0 disconnect_if_standing"
    unfolding disconnect_if_standing_def session_disconnect_def
    by (auto intro!: costs_with_session costs_cases costs_basic costs_update)
  have f: "costs 0 (forsake_other a)" for a
    unfolding forsake_other_def forsake_def
    by (intro costs_rules costs_on_success [OF d]) (simp_all add: costs_requests)
  have c: "costs 5 (connect_afresh w a)" for a
    unfolding connect_afresh_def
    by (intro costs_rules costs_on_success [OF costs_requests(4)] costs_mono [OF costs_settle]) simp_all
  show ?thesis
    unfolding connect_locked_def
    by (intro costs_on_success [OF costs_requests(7)] costs_on_success [OF f] costs_mono [OF c]) simp_all
qed

section \<open>Exchanges\<close>

text \<open>Rendering the headers of a request costs at most so many requests.\<close>

definition render_costs :: "nat \<Rightarrow> exchange_terms \<Rightarrow> bool" where
  "render_costs k held \<longleftrightarrow>
     (case te_headers held of None \<Rightarrow> True | Some render \<Rightarrow> (\<forall>h encoded. costs k (render h encoded)))"

lemma costs_standing: "costs 5 (standing_connection w held)"
  unfolding standing_connection_def connection_under_def
  by (intro costs_with_session costs_on_success [of 5] costs_cases costs_basic costs_connect_locked) simp_all

lemma costs_try: "render_costs k held \<Longrightarrow> costs (Suc k) (try_over w mf ps held c)"
  unfolding try_over_def request_over_def
  by (intro costs_on_result [of "Suc k"] costs_with_session costs_request_with)
    (auto simp: render_costs_def rendering_def costs_basic)

lemma costs_renegotiated: "costs 5 (renegotiated w c t)"
proof -
  have f: "costs 0 forget_connection"
    unfolding forget_connection_def by (rule costs_update) (simp add: requests_made_def)
  show ?thesis
    unfolding renegotiated_def
    by (intro costs_with_session costs_cases costs_basic costs_on_success [OF f] costs_on_success [OF costs_settle])
      simp_all
qed

lemma costs_exchange:
  assumes "render_costs k held"
  shows "costs (18 + 3 * k) (exchange_for w mf ps held)"
proof -
  note t = costs_try [OF assms]
  have a: "costs 0 (acquire_exchange w)"
    unfolding acquire_exchange_def
    by (intro costs_on_success [OF costs_requests(7)]) (auto intro!: costs_rules)
  have e: "costs (6 + k) (retry_expired w mf ps held tried)" for tried
    unfolding retry_expired_def
    by (intro costs_rules costs_on_success [OF costs_standing] costs_mono [OF t]) simp_all
  have u: "costs (6 + k) (retry_unsupported w mf ps held tried)" for tried
    unfolding retry_unsupported_def
    by (intro costs_rules costs_on_success [OF costs_renegotiated] costs_mono [OF t]) simp_all
  have n: "costs n (answer_of w tried)" for n tried
    unfolding answer_of_def
    by (intro costs_rules costs_mono [OF costs_on_success [OF costs_requests(7)], of 0]) (simp_all add: costs_basic)
  show ?thesis
    unfolding exchange_for_def
    by (intro costs_on_success [OF a] costs_on_success [OF costs_standing] costs_on_success [OF t]
        costs_on_success [OF e] costs_on_success [OF u] n) simp_all
qed


section \<open>Listings and calls\<close>

declare read_pages_from.simps [simp del]

lemma costs_pages:
  assumes "\<And>m params a. costs k (ask m params a)"
  shows "costs (left * k) (read_pages_from ask lt limit left pages cursor seen read)"
proof (induction left arbitrary: pages cursor seen read)
  case 0
  show ?case by (subst read_pages_from.simps) (simp add: costs_basic)
next
  case (Suc n)
  have "costs (Suc n * k) (on_success (ask (list_method lt) (cursor_params cursor) (li_authorization read)) (\<lambda>reply.
      case stale_after (an_received_at reply) (an_result reply) of
        None \<Rightarrow> (\<lambda>st. (NoReturn, st))
      | Some stale \<Rightarrow>
          (case page_read lt limit stale (an_result reply) (date_listing pages reply stale read) of
             Inl t \<Rightarrow> fail t
           | Inr (longer, None) \<Rightarrow> give longer
           | Inr (longer, Some next) \<Rightarrow>
               read_pages_from ask lt limit n (Suc pages) (Some next)
                 (case cursor of None \<Rightarrow> seen | Some c \<Rightarrow> c # seen) longer)))"
    by (intro costs_on_success [OF assms] costs_cases(2-4) costs_basic) (simp_all add: Suc.IH)
  then show ?case by (subst read_pages_from.simps) (simp add: costs_basic)
qed

lemma costs_read_pages: "(\<And>m params a. costs k (ask m params a)) \<Longrightarrow> costs (max_list_pages * k) (read_pages ask lt limit)"
  unfolding read_pages_def by (rule costs_pages)

lemma costs_asked: "costs 1 (asked w h m params a)"
  unfolding asked_def ask_held_def
  by (intro costs_on_success [OF costs_request_plain] costs_mono [OF costs_on_success [OF costs_requests(7)], of 0])
    (simp_all add: costs_basic)

lemma costs_exchanged: "costs 18 (page_exchanged w m params a)"
  using costs_exchange [of 0 "\<lparr>te_headers = None, te_authorization = a\<rparr>" w "\<lambda>_. m" params]
  by (simp add: page_exchanged_def exchange_with_def render_costs_def)

lemma costs_list_on: "costs 36000 (list_on w lt limit)"
proof -
  have p: "costs 18000 (read_pages (page_exchanged w) lt lim)" for lim
    using costs_read_pages [of 18 "page_exchanged w", OF costs_exchanged] by (simp add: max_list_pages_def)
  show ?thesis
    unfolding list_on_def
    by (intro costs_rules costs_on_result [OF p]) (auto intro!: costs_rules costs_mono [OF costs_on_result [OF p], of 18000])
qed

lemma costs_read_definition: "costs 1000 (read_definition w h name)"
proof -
  have p: "costs 1000 (read_pages (asked w h) ''tools'' None)"
    using costs_read_pages [of 1 "asked w h", OF costs_asked] by (simp add: max_list_pages_def)
  have r: "costs 0 (record_listing tools whole read changes)" for tools whole read changes
    unfolding record_listing_def by (rule costs_update) (simp add: recorded_listing_def requests_made_def Let_def)
  show ?thesis
    unfolding read_definition_def
    by (intro costs_rules costs_on_success [OF p]) (auto intro!: costs_rules costs_on_success [OF r] split: sum.split)
qed

lemma costs_mirroring: "costs 2000 (mirroring w name rejected h enc)"
proof -
  have s: "costs 0 (stated_for w name g)" for g
    unfolding stated_for_def
    by (intro costs_on_success [OF costs_requests(7)] costs_on_success [OF costs_update [of _ 0]])
      (auto intro: costs_rules)
  have d: "costs 0 (case rejected of None \<Rightarrow> stated_for w name (hc_generation h) | Some _ \<Rightarrow> give (no_definition, False))"
    by (intro costs_rules s)
  have m: "costs 1000 (definition_to_mirror w name rejected h)"
    unfolding definition_to_mirror_def
    by (intro costs_on_success [OF d])
      (auto intro!: costs_rules costs_on_result [OF costs_read_definition] split: option.split)
  have e: "costs n (definition_headers name enc x)" for n x
    unfolding definition_headers_def by (intro costs_rules)
  have hs: "costs 1000 (headers_to_mirror w name h enc x)" for x
    unfolding headers_to_mirror_def
    by (intro costs_cases(4) costs_on_result [OF e [of 0]])
      (auto intro!: costs_rules costs_on_result [OF costs_read_definition] e split: option.split sum.split)
  have u: "costs 0 (update (\<lambda>st. st\<lparr>ss_rendered := x\<rparr>))" for x
    by (rule costs_update) simp
  show ?thesis
    unfolding mirroring_def
    by (intro costs_on_success [OF m] costs_on_success [OF hs] costs_cases(1) costs_on_success [OF u])
      (simp_all add: costs_basic)
qed

lemma costs_dispatch:
  "(\<And>render h enc. extra = Some render \<Longrightarrow> costs k (render h enc)) \<Longrightarrow> costs (18 + 3 * k) (dispatch_with w m params extra)"
  unfolding dispatch_with_def exchange_with_def
  by (intro costs_on_success [OF costs_exchange [of k]])
    (auto simp: render_costs_def costs_basic split: option.split)

lemma costs_call: "costs 12036 (client_call_tool w name arguments cs)"
proof -
  have d: "costs 6018 (dispatch_tool_call w params (Some (mirroring w name rejected)))" for params rejected
    using costs_dispatch [of "Some (mirroring w name rejected)" 2000 w "''tools/call''" "Some (AMap params)"]
    unfolding dispatch_tool_call_def
    by (intro costs_on_success [of 6018]) (auto intro!: costs_mirroring costs_rules)
  have p: "costs 12036 (dispatch_tool_call w params None)" for params
    using costs_dispatch [of None 0 w "''tools/call''" "Some (AMap params)"]
    unfolding dispatch_tool_call_def
    by (intro costs_on_success [of 18]) (auto intro!: costs_rules)
  have u: "costs 0 (update (\<lambda>st. st\<lparr>ss_rendered := x\<rparr>))" for x
    by (rule costs_update) simp
  have a: "costs 6018 (call_again w name params t)" for params t
    unfolding call_again_def by (intro costs_rules costs_on_result [OF d]) (auto intro: costs_rules)
  have c: "costs 12036 (call_mirrored w name params)" for params
    unfolding call_mirrored_def
    by (intro costs_on_success [OF u] costs_on_result [OF d]) (auto intro!: costs_rules costs_mono [OF a])
  show ?thesis
    unfolding client_call_tool_def by (intro costs_rules c p)
qed

text \<open>
  C21. What one operation of a client costs is bounded, whatever the server answers and however often it
  ends the session or refuses the version: a request is settled after at most eighteen requests, those
  of every handshake it needs included, a listing after 36000, and the call of a tool, with every
  reading of its definition and its one repetition, after 12036.
\<close>

theorem requests_bounded:
  "requests_made (snd (exchange_for w mf params \<lparr>te_headers = None, te_authorization = a\<rparr> st)) \<le> requests_made st + 18
    \<and> requests_made (snd (list_on w lt limit st)) \<le> requests_made st + 36000
    \<and> requests_made (snd (client_call_tool w name arguments cs st)) \<le> requests_made st + 12036"
proof -
  have e: "costs 18 (exchange_for w mf params \<lparr>te_headers = None, te_authorization = a\<rparr>)"
    using costs_exchange [of 0 "\<lparr>te_headers = None, te_authorization = a\<rparr>" w mf params] by (simp add: render_costs_def)
  show ?thesis
    using e costs_list_on [of w lt limit] costs_call [of w name arguments cs] unfolding costs_def by blast
qed

end
