(* ===== verification/Catalogue_Laws.thy ===== *)
theory Catalogue_Laws
  imports Client_Bounds
begin

text \<open>
  What the operations of a client keep and return: the connection through every operation, the pages
  of a listing, and the definition the headers of a call are rendered from.
\<close>

section \<open>Reading tools along a relation\<close>

context request_relation
begin

lemma along_read_pages_from:
  assumes "\<And>m params a. along R (ask m params a)"
  shows "along R (read_pages_from ask lt limit left pages cursor seen read)"
proof (induction left arbitrary: pages cursor seen read)
  case 0
  show ?case by (subst read_pages_from.simps) (simp add: along_basic)
next
  case (Suc n)
  show ?case
    by (subst read_pages_from.simps) (simp, intro conjI impI along_rules assms Suc.IH)
qed

lemma along_held_pages: "along R (read_pages (asked w h) lt limit)"
  unfolding read_pages_def asked_def ask_held_def
  by (intro along_read_pages_from along_rules along_request_plain)

text \<open>The updates of what is kept of the tools are asked of the relation.\<close>

lemma along_mirroring_parts:
  assumes "\<And>c st. R st (st\<lparr>ss_catalogue := c\<rparr>)" "\<And>x st. R st (st\<lparr>ss_rendered := x\<rparr>)"
    "\<And>tools whole read changes st. R st (recorded_listing tools whole read changes st)"
  shows "along R (record_listing tools whole read changes)" "along R (read_definition w h name)"
    "along R (definition_to_mirror w name rejected h)" "along R (headers_to_mirror w name h enc x)"
    "along R (definition_headers name enc d)" "along R (mirroring w name rejected h enc)" "along R (stated_for w name g)"
proof -
  show r: "along R (record_listing tools whole read changes)" for tools whole read changes
    unfolding record_listing_def by (rule along_update) (rule assms(3))
  show d: "along R (read_definition w h name)"
    unfolding read_definition_def by (intro along_rules along_held_pages r)
  show s: "along R (stated_for w name g)" for g
    unfolding stated_for_def by (intro along_rules along_update assms(1))
  show m: "along R (definition_to_mirror w name rejected h)"
    unfolding definition_to_mirror_def by (intro along_rules s d)
  show e: "along R (definition_headers name enc d)" for d
    unfolding definition_headers_def by (intro along_rules)
  show hs: "along R (headers_to_mirror w name h enc x)" for x
    unfolding headers_to_mirror_def by (intro along_rules e d)
  show "along R (mirroring w name rejected h enc)"
    unfolding mirroring_def by (intro along_rules m hs along_update assms(2))
qed

end

lemma along_mirroring: "along steady (mirroring w name rejected h enc)"
  by (rule steady.along_mirroring_parts) (simp_all add: steady_def recorded_listing_def is_connected_def Let_def)

section \<open>Every operation keeps the connection sound\<close>

abbreviation keeps_session :: "'a act \<Rightarrow> bool" where
  "keeps_session a \<equiv> triple session_ok a (\<lambda>_. session_ok) session_ok"

lemma ok_updates [simp]:
  "session_ok (st\<lparr>ss_catalogue := c\<rparr>) = session_ok st" "session_ok (st\<lparr>ss_rendered := x\<rparr>) = session_ok st"
  "session_ok (st\<lparr>ss_excluded := e\<rparr>) = session_ok st" "session_ok (st\<lparr>ss_excluded_for := a\<rparr>) = session_ok st"
  by (simp_all add: session_ok_def is_connected_def split: option.splits)

lemma keeps_basic:
  "keeps_session (give x)" "keeps_session (fail t)" "keeps_session (look f)" "keeps_session (\<lambda>st. (NoReturn, st))"
  by (auto intro: triple_basic)

lemma keeps_on_success: "keeps_session a \<Longrightarrow> (\<And>x. keeps_session (k x)) \<Longrightarrow> keeps_session (on_success a k)"
  by (rule triple_on_success)

lemma keeps_on_result: "keeps_session a \<Longrightarrow> (\<And>r. keeps_session (k r)) \<Longrightarrow> keeps_session (on_result a k)"
  by (rule triple_on_result)

lemma keeps_with_session: "(\<And>s. keeps_session (k s)) \<Longrightarrow> keeps_session (with_session k)"
  by (simp add: triple_def)

lemma keeps_cases:
  "keeps_session a \<Longrightarrow> keeps_session b \<Longrightarrow> keeps_session (if c then a else b)"
  "(\<And>x. keeps_session (f x)) \<Longrightarrow> (\<And>y. keeps_session (g y)) \<Longrightarrow> keeps_session (case s of Inl x \<Rightarrow> f x | Inr y \<Rightarrow> g y)"
  "keeps_session a \<Longrightarrow> (\<And>z. keeps_session (h z)) \<Longrightarrow> keeps_session (case opt of None \<Rightarrow> a | Some z \<Rightarrow> h z)"
  "(\<And>x y. keeps_session (p x y)) \<Longrightarrow> keeps_session (case pair of (x, y) \<Rightarrow> p x y)"
  by (simp_all split: sum.split option.split prod.split)

lemmas keeps_rules = keeps_basic keeps_on_success keeps_on_result keeps_with_session keeps_cases

lemma keeps_exchange: "steady_terms held \<Longrightarrow> keeps_session (exchange_for w mf params held)"
  by (rule triple_weaken [OF triple_exchange]) auto

lemma keeps_dispatch_with:
  "(\<And>render h enc. extra = Some render \<Longrightarrow> along steady (render h enc)) \<Longrightarrow> keeps_session (dispatch_with w m params extra)"
  unfolding dispatch_with_def exchange_with_def
  by (intro keeps_rules keeps_exchange) (auto simp: steady_terms_def split: option.split)

lemma keeps_dispatch: "keeps_session (session_dispatch w m params)"
  unfolding session_dispatch_def by (rule keeps_dispatch_with) simp

lemma keeps_list_on: "keeps_session (list_on w lt limit)"
proof -
  have e: "keeps_session (page_exchanged w m params a)" for m params a
    unfolding page_exchanged_def exchange_with_def by (rule keeps_exchange) (simp add: steady_terms_def)
  have f: "keeps_session (read_pages_from (page_exchanged w) lt lim left pages cursor seen read)" for lim left pages cursor seen read
  proof (induction left arbitrary: pages cursor seen read)
    case 0
    show ?case by (subst read_pages_from.simps) (simp add: keeps_basic)
  next
    case (Suc n)
    show ?case by (subst read_pages_from.simps) (simp, intro conjI impI keeps_rules e Suc.IH)
  qed
  show ?thesis unfolding list_on_def read_pages_def by (intro keeps_rules f)
qed

lemma keeps_client_tools: "keeps_session (client_tools w limit)"
proof -
  have "keeps_session (record_listing tools whole read changes)" for tools whole read changes
    unfolding record_listing_def by (rule triple_basic) (simp add: recorded_listing_def Let_def)
  then show ?thesis unfolding client_tools_def by (intro keeps_rules keeps_list_on)
qed

lemma keeps_call_tool: "keeps_session (client_call_tool w name arguments cs)"
proof -
  have d: "keeps_session (dispatch_tool_call w params (Some (mirroring w name rejected)))" for params rejected
    unfolding dispatch_tool_call_def by (intro keeps_rules keeps_dispatch_with) (auto intro: along_mirroring)
  have p: "keeps_session (dispatch_tool_call w params None)" for params
    unfolding dispatch_tool_call_def by (intro keeps_rules keeps_dispatch_with) simp
  have u: "keeps_session (update (\<lambda>st. st\<lparr>ss_rendered := x\<rparr>))" for x
    by (rule triple_basic) simp
  show ?thesis
    unfolding client_call_tool_def call_mirrored_def call_again_def by (intro keeps_rules d p u)
qed

lemma keeps_lists: "keeps_session (client_resources w limit)" "keeps_session (client_prompts w limit)"
  "keeps_session (client_read_resource w uri cs)" "keeps_session (get_client_prompt w name arguments cs)"
  unfolding client_resources_def client_prompts_def client_read_resource_def get_client_prompt_def list_entries_def parsed_def
  by (intro keeps_rules keeps_list_on keeps_dispatch)+

section \<open>The states a client reaches\<close>

definition fresh_client :: client where
  "fresh_client = \<lparr>cl_connected = False, cl_connecting = False, cl_next_id = 1, cl_next_token = 0,
     cl_unaccounted = [], cl_silent = False, cl_sent = [], cl_notified = [], cl_restarts = 0, cl_disconnects = 0\<rparr>"

definition fresh_session :: session where
  "fresh_session = \<lparr>ss_client = fresh_client, ss_conn = None, ss_pinned = [], ss_pin_err = None, ss_generation = 0,
     ss_catalogue = empty_catalogue 0, ss_changes = 0, ss_excluded = [], ss_excluded_for = 0, ss_rendered = None,
     ss_moves = []\<rparr>"

text \<open>The operations of a client, and the state each leaves when it returns or fails.\<close>

datatype client_op =
    DoConnect | DoPin bytes | DoDisconnect | DoRequest bytes "any option" | DoPing | DoAdvertised
  | DoTools "int option" | DoCallTool bytes "(bytes \<times> any) list option" "continuation list"
  | DoResources "int option" | DoPrompts "int option" | DoReadResource bytes "continuation list"
  | DoGetPrompt bytes "(bytes \<times> any) list option" "continuation list"

definition left_by :: "'a outcome \<times> session \<Rightarrow> session option" where
  "left_by r = (case r of (NoReturn, st) \<Rightarrow> None | (_, st) \<Rightarrow> Some st)"

fun client_run :: "world \<Rightarrow> client_op \<Rightarrow> session \<Rightarrow> session option" where
  "client_run w DoConnect st = left_by (connect w st)"
| "client_run w (DoPin v) st = left_by (pin_protocol_version v st)"
| "client_run w DoDisconnect st = left_by (session_disconnect st)"
| "client_run w (DoRequest m params) st = left_by (session_dispatch w m params st)"
| "client_run w DoPing st = left_by (client_ping w st)"
| "client_run w DoAdvertised st = left_by (advertised w st)"
| "client_run w (DoTools limit) st = left_by (client_tools w limit st)"
| "client_run w (DoCallTool n arguments cs) st = left_by (client_call_tool w n arguments cs st)"
| "client_run w (DoResources limit) st = left_by (client_resources w limit st)"
| "client_run w (DoPrompts limit) st = left_by (client_prompts w limit st)"
| "client_run w (DoReadResource uri cs) st = left_by (client_read_resource w uri cs st)"
| "client_run w (DoGetPrompt n arguments cs) st = left_by (get_client_prompt w n arguments cs st)"

inductive client_reaches :: "session \<Rightarrow> bool" where
  fresh: "client_reaches fresh_session"
| step: "client_reaches st \<Longrightarrow> client_run w operation st = Some st' \<Longrightarrow> client_reaches st'"

inductive_cases client_reachesE: "client_reaches st"

lemma left_keeps: "keeps_session a \<Longrightarrow> session_ok st \<Longrightarrow> left_by (a st) = Some st' \<Longrightarrow> session_ok st'"
  by (auto simp: left_by_def split: prod.splits outcome.splits dest: tripleD)

lemma keeps_disconnect: "keeps_session session_disconnect"
  unfolding session_disconnect_def by (rule triple_basic) (rule disconnected_ok)

lemma keeps_ping: "keeps_session (client_ping w)"
  unfolding client_ping_def no_terms_def
  by (intro keeps_rules keeps_exchange) (simp add: steady_terms_def)

lemma run_keeps:
  assumes "session_ok st" "client_run w operation st = Some st'"
  shows "session_ok st'"
proof -
  note kept = left_keeps [OF triple_connection assms(1)] left_keeps [OF triple_pin assms(1)]
    left_keeps [OF keeps_disconnect assms(1)] left_keeps [OF keeps_dispatch assms(1)]
    left_keeps [OF keeps_ping assms(1)] left_keeps [OF triple_advertised assms(1)]
    left_keeps [OF keeps_client_tools assms(1)] left_keeps [OF keeps_call_tool assms(1)]
    left_keeps [OF keeps_lists(1) assms(1)] left_keeps [OF keeps_lists(2) assms(1)]
    left_keeps [OF keeps_lists(3) assms(1)] left_keeps [OF keeps_lists(4) assms(1)]
  show ?thesis using assms(2) by (cases operation) (simp_all, (erule kept)+)
qed

lemma reaches_ok: "client_reaches st \<Longrightarrow> session_ok st"
proof (induction rule: client_reaches.induct)
  case fresh
  show ?case by (simp add: session_ok_def fresh_session_def fresh_client_def is_connected_def)
next
  case (step st w operation st')
  then show ?case using run_keeps by blast
qed


section \<open>A listing is whole\<close>

text \<open>What a page states: its entries, and the cursor of the page after it.\<close>

definition page_states :: "bytes \<Rightarrow> bytes \<Rightarrow> (bytes \<times> any) list list \<Rightarrow> bytes option \<Rightarrow> bool" where
  "page_states lt raw entries next =
     (case unmarshal_map raw of
        Dec members \<Rightarrow> member_list (env_raw members lt) = Some (map AMap entries)
          \<and> next_cursor_of lt members = Inr next
      | _ \<Rightarrow> False)"

text \<open>A server of pages, each with the cursor it is asked for by, that answers whoever asks for one.\<close>

fun serves :: "asker \<Rightarrow> bytes \<Rightarrow> (bytes option \<times> (bytes \<times> any) list list) list \<Rightarrow> bool" where
  "serves ask lt [] \<longleftrightarrow> False"
| "serves ask lt ((cursor, entries) # rest) \<longleftrightarrow>
     (\<forall>a st. \<exists>reply st'. ask (list_method lt) (map_option (\<lambda>c. AMap [(''cursor'', ARaw c)]) cursor) a st = (Returned reply, st')
        \<and> stale_after (an_received_at reply) (an_result reply) \<noteq> None
        \<and> page_states lt (an_result reply) entries (if rest = [] then None else fst (hd rest)))
     \<and> (rest = [] \<or> fst (hd rest) \<noteq> None \<and> serves ask lt rest)"

definition cut_to :: "int option \<Rightarrow> 'a list \<Rightarrow> 'a list" where
  "cut_to limit xs = (case limit of None \<Rightarrow> xs | Some lim \<Rightarrow> take (nat lim) xs)"

definition within_limit :: "int option \<Rightarrow> 'a list \<Rightarrow> bool" where
  "within_limit limit xs = (case limit of None \<Rightarrow> True | Some lim \<Rightarrow> int (length xs) \<le> lim)"

lemma add_entries_maps:
  assumes "within_limit limit (li_entries read)"
  shows "(\<exists>whole. add_entries limit stale (map AMap es) read = PageRead whole
      \<and> map fst (li_entries whole) = map fst (li_entries read) @ es \<and> within_limit limit (li_entries whole)
      \<and> li_authorization whole = li_authorization read)
    \<or> (\<exists>whole. add_entries limit stale (map AMap es) read = LimitReached whole
      \<and> (\<forall>later. map fst (li_entries whole) = cut_to limit (map fst (li_entries read) @ es @ later)))"
  using assms
proof (induction es arbitrary: read)
  case (Cons e es)
  show ?case
  proof (cases "case limit of None \<Rightarrow> False | Some lim \<Rightarrow> lim \<le> int (length (li_entries read))")
    case True
    with Cons.prems have "\<forall>later. map fst (li_entries read) = cut_to limit (map fst (li_entries read) @ (e # es) @ later)"
      by (auto simp: within_limit_def cut_to_def split: option.splits)
    with True show ?thesis by auto
  next
    case False
    let ?r = "read\<lparr>li_entries := li_entries read @ [(e, stale)]\<rparr>"
    have "within_limit limit (li_entries ?r)" using False by (auto simp: within_limit_def split: option.splits)
    from Cons.IH [OF this] False show ?thesis by auto
  qed
qed auto

lemma within_cut: "within_limit limit xs \<Longrightarrow> cut_to limit (map f xs) = map f xs"
  by (auto simp: within_limit_def cut_to_def split: option.splits)

lemma read_pages_from_serves:
  assumes "serves ask lt pages" "length pages \<le> left" "within_limit limit (li_entries read)"
    "distinct (map fst pages)" "\<forall>c \<in> set seen. Some c \<notin> fst ` set pages"
  shows "\<exists>whole st'. read_pages_from ask lt limit left n (fst (hd pages)) seen read st = (Returned whole, st')
    \<and> map fst (li_entries whole) = cut_to limit (map fst (li_entries read) @ concat (map snd pages))"
  using assms
proof (induction pages arbitrary: left n seen read st)
  case (Cons page rest)
  obtain cursor es where p: "page = (cursor, es)" by (cases page)
  obtain m where m: "left = Suc m" using Cons.prems(2) by (cases left) auto
  obtain reply st1 stale where reply:
    "ask (list_method lt) (cursor_params cursor) (li_authorization read) st = (Returned reply, st1)"
    "stale_after (an_received_at reply) (an_result reply) = Some stale"
    "page_states lt (an_result reply) es (if rest = [] then None else fst (hd rest))"
    using Cons.prems(1) unfolding p by (fastforce simp: cursor_params_def)
  define dated where "dated = date_listing n reply stale read"
  have d: "li_entries dated = li_entries read" by (simp add: dated_def date_listing_def)
  obtain members where mem: "unmarshal_map (an_result reply) = Dec members"
    "member_list (env_raw members lt) = Some (map AMap es)"
    "next_cursor_of lt members = Inr (if rest = [] then None else fst (hd rest))"
    using reply(3) by (auto simp: page_states_def split: decoded.splits)
  have fresh: "\<not> (case cursor of None \<Rightarrow> False | Some c \<Rightarrow> c \<in> set seen)"
    using Cons.prems(5) p by (auto split: option.splits)
  let ?go = "\<lambda>longer next. read_pages_from ask lt limit m (Suc n) (Some next)
    (case cursor of None \<Rightarrow> seen | Some c \<Rightarrow> c # seen) longer"
  have unfold: "read_pages_from ask lt limit left n cursor seen read st =
    (case page_read lt limit stale (an_result reply) dated of
       Inl t \<Rightarrow> fail t | Inr (longer, None) \<Rightarrow> give longer | Inr (longer, Some next) \<Rightarrow> ?go longer next) st1"
    using fresh reply(1,2) m
    by (subst read_pages_from.simps) (auto simp: on_success_def on_result_def dated_def)
  from add_entries_maps [of limit dated stale es] Cons.prems(3) d
  consider
    (Read) whole where "add_entries limit stale (map AMap es) dated = PageRead whole"
      "map fst (li_entries whole) = map fst (li_entries read) @ es" "within_limit limit (li_entries whole)"
  | (Limit) whole where "add_entries limit stale (map AMap es) dated = LimitReached whole"
      "\<forall>later. map fst (li_entries whole) = cut_to limit (map fst (li_entries read) @ es @ later)"
    by auto
  then show ?case
  proof cases
    case Limit
    with mem unfold p show ?thesis by (simp add: page_read_def)
  next
    case Read
    show ?thesis
    proof (cases rest)
      case Nil
      with Read mem unfold p within_cut [OF Read(3), of fst] show ?thesis by (simp add: page_read_def)
    next
      case (Cons q tail)
      then obtain c where c: "fst (hd rest) = Some c" using Cons.prems(1) p by auto
      have s: "serves ask lt rest" using Cons.prems(1) p Cons by simp
      let ?seen = "case cursor of None \<Rightarrow> seen | Some c \<Rightarrow> c # seen"
      have "\<forall>c \<in> set ?seen. Some c \<notin> fst ` set rest"
        using Cons.prems(4,5) p by (auto split: option.splits simp: image_iff)
      from Cons.IH [OF s _ Read(3) _ this, of m "Suc n" st1] Cons.prems(2,4) m p
      obtain whole' st' where "read_pages_from ask lt limit m (Suc n) (fst (hd rest)) ?seen whole st1 = (Returned whole', st')"
        "map fst (li_entries whole') = cut_to limit (map fst (li_entries whole) @ concat (map snd rest))"
        by auto
      with Read mem unfold p c Cons show ?thesis by (simp add: page_read_def)
    qed
  qed
qed simp


section \<open>The definition a call is mirrored from\<close>

text \<open>Moves are only ever added.\<close>

definition later :: "session \<Rightarrow> session \<Rightarrow> bool" where
  "later st st' = (\<exists>ms. ss_moves st' = ss_moves st @ ms)"

interpretation later: request_relation later
  by unfold_locales (fastforce simp: later_def)+

lemma later_updates:
  "later st (st\<lparr>ss_catalogue := c\<rparr>)" "later st (st\<lparr>ss_rendered := x\<rparr>)"
  "later st (recorded_listing tools whole read changes st)"
  by (simp_all add: later_def recorded_listing_def Let_def)

lemmas later_parts = later.along_mirroring_parts [OF later_updates]

text \<open>Kept of the very connection held, and still fresh.\<close>

definition kept_for :: "world \<Rightarrow> bytes \<Rightarrow> held_connection \<Rightarrow> session \<Rightarrow> tool_definition \<Rightarrow> bool" where
  "kept_for w name h st d \<longleftrightarrow> ca_generation (ss_catalogue st) = hc_generation h
     \<and> stated_in (wd_now w (moment st)) name (ss_catalogue st) = (d, True)"

text \<open>Stated by a listing read over the connection held, between two states.\<close>

definition read_between ::
  "world \<Rightarrow> bytes \<Rightarrow> held_connection \<Rightarrow> session \<Rightarrow> session \<Rightarrow> tool_definition \<Rightarrow> bool" where
  "read_between w name h st st' d \<longleftrightarrow>
     (\<exists>st1 st2 read tools. later st st1 \<and> later st2 st'
        \<and> read_pages (asked w h) ''tools'' None st1 = (Returned read, st2)
        \<and> tools_of (li_entries read) no_tools_read = Inr tools \<and> map_of (tl_stated tools) name = Some d)"

lemma read_between_later: "later st0 st \<Longrightarrow> later st' st3 \<Longrightarrow> read_between w name h st st' d \<Longrightarrow> read_between w name h st0 st3 d"
  unfolding read_between_def by (meson later.trans)

lemma on_success_returned:
  "on_success a k st = (Returned x, st') \<longleftrightarrow> (\<exists>y st1. a st = (Returned y, st1) \<and> k y st1 = (Returned x, st'))"
  by (auto simp: on_success_def on_result_def split: prod.split outcome.split)

lemma on_result_returned:
  "on_result a k st = (Returned x, st') \<longleftrightarrow>
     (\<exists>y st1. a st = (Returned y, st1) \<and> k (Inr y) st1 = (Returned x, st'))
     \<or> (\<exists>t st1. a st = (Erred t, st1) \<and> k (Inl t) st1 = (Returned x, st'))"
  by (auto simp: on_result_def split: prod.split outcome.split)

lemma read_definition_between:
  assumes "read_definition w h name st = (Returned (Some d), st')"
  shows "read_between w name h st st' d"
proof -
  obtain read st2 where r: "read_pages (asked w h) ''tools'' None st = (Returned read, st2)"
    "(case tools_of (li_entries read) no_tools_read of Inl f \<Rightarrow> fail (Down f)
      | Inr tools \<Rightarrow> on_success (record_listing tools True read (ss_changes st)) (\<lambda>_. give (map_of (tl_stated tools) name))) st2
     = (Returned (Some d), st')"
    using assms by (auto simp: read_definition_def on_success_returned)
  then obtain tools where t: "tools_of (li_entries read) no_tools_read = Inr tools"
    "map_of (tl_stated tools) name = Some d" "record_listing tools True read (ss_changes st) st2 = (Returned (), st')"
    by (cases "tools_of (li_entries read) no_tools_read") (auto simp: on_success_returned)
  have "later st2 st'" using alongD [OF later_parts(1) t(3)] .
  with r(1) t(1,2) later.refl show ?thesis unfolding read_between_def by blast
qed

lemma stated_in_empty [simp]: "stated_in now name (empty_catalogue g) = (no_definition, False)"
  by (simp add: stated_in_def empty_catalogue_def)

lemma definition_to_mirror_source:
  assumes "definition_to_mirror w name rejected h st = (Returned (d, read), st')"
  shows "(\<not> read \<and> rejected = None \<and> kept_for w name h st d)
    \<or> (read \<and> (read_between w name h st st' d \<or> d = no_definition \<and> rejected = None))"
proof -
  have s: "stated_for w name g st = (Returned (d0, known), st1) \<Longrightarrow> later st st1
      \<and> (known \<longrightarrow> ca_generation (ss_catalogue st) = g \<and> stated_in (wd_now w (moment st)) name (ss_catalogue st) = (d0, True))"
    for d0 known st1 g
    using alongD [OF later_parts(7), of w name g st "Returned (d0, known)" st1]
    by (auto simp: stated_for_def on_success_def on_result_def forget_other_connection_def split: if_splits)
  obtain d0 known st1 where a: "(case rejected of None \<Rightarrow> stated_for w name (hc_generation h)
       | Some _ \<Rightarrow> give (no_definition, False)) st = (Returned (d0, known), st1)"
    "(if known then give (d0, False)
       else on_result (read_definition w h name) (\<lambda>r.
              case r of
                Inl t \<Rightarrow>
                  if \<not> is_server_refusal t then fail t
                  else if rejected \<noteq> None then fail nothing_new_to_mirror
                  else give (no_definition, True)
              | Inr None \<Rightarrow> if rejected \<noteq> None then fail nothing_new_to_mirror else give (no_definition, True)
              | Inr (Some d) \<Rightarrow> give (d, True))) st1 = (Returned (d, read), st')"
    using assms by (auto simp: definition_to_mirror_def on_success_returned)
  have l: "later st st1" using a(1) s later.refl by (cases rejected) auto
  show ?thesis
  proof (cases known)
    case True
    with a s show ?thesis by (cases rejected) (auto simp: kept_for_def)
  next
    case False
    with a(2) l show ?thesis
      by (auto simp: on_result_returned split: if_splits option.splits
          dest!: read_definition_between intro: read_between_later [OF l later.refl])
  qed
qed

lemma headers_to_mirror_source:
  assumes "headers_to_mirror w name h enc (d, read) st = (Returned hs, st')"
  shows "\<exists>d' s s'. (d' = d \<or> read_between w name h st st' d') \<and> definition_headers name enc d' s = (Returned hs, s')"
proof -
  consider (Same) s' where "definition_headers name enc d st = (Returned hs, s')"
    | (Again) t st1 d' st2 where "definition_headers name enc d st = (Erred t, st1)"
      "read_definition w h name st1 = (Returned (Some d'), st2)" "definition_headers name enc d' st2 = (Returned hs, st')"
    using assms by (auto simp: headers_to_mirror_def on_result_returned split: if_splits option.splits)
  then show ?thesis
  proof cases
    case Again
    have "later st st1" "later st2 st'" using Again(1,3) alongD [OF later_parts(5)] by blast+
    then have "read_between w name h st st' d'"
      using read_between_later read_definition_between [OF Again(2)] by blast
    with Again(3) show ?thesis by blast
  qed blast
qed

lemma mirroring_source:
  assumes "mirroring w name rejected h enc st = (Returned hs, st')"
  shows "\<exists>d s s'. definition_headers name enc d s = (Returned hs, s')
    \<and> (rejected = None \<and> kept_for w name h st d \<or> read_between w name h st st' d
       \<or> rejected = None \<and> d = no_definition)"
proof -
  obtain d read st1 hs1 st2 where a: "definition_to_mirror w name rejected h st = (Returned (d, read), st1)"
    "headers_to_mirror w name h enc (d, read) st1 = (Returned hs1, st2)"
    "(if (case rejected of None \<Rightarrow> False | Some sent \<Rightarrow> same_headers hs1 sent) then fail nothing_new_to_mirror
      else on_success (update (\<lambda>st. st\<lparr>ss_rendered := Some hs1\<rparr>)) (\<lambda>_. give hs1)) st2 = (Returned hs, st')"
    using assms by (auto simp: mirroring_def on_success_returned)
  have hs: "hs1 = hs" "later st2 st'"
    using a(3) by (auto simp: on_success_def on_result_def later_def split: if_splits)
  obtain d' s s' where d': "d' = d \<or> read_between w name h st1 st2 d'" "definition_headers name enc d' s = (Returned hs1, s')"
    using headers_to_mirror_source [OF a(2)] by blast
  have l1: "later st st1" using alongD [OF later_parts(3) a(1)] .
  have l2: "later st1 st2" using alongD [OF later_parts(4) a(2)] .
  have "read_between w name h st st' e" if "read_between w name h st st1 e" for e
    using later.refl later.trans [OF l2 hs(2)] that by (rule read_between_later)
  moreover have "read_between w name h st st' e" if "read_between w name h st1 st2 e" for e
    using l1 hs(2) that by (rule read_between_later)
  ultimately have "rejected = None \<and> kept_for w name h st d' \<or> read_between w name h st st' d'
      \<or> rejected = None \<and> d' = no_definition"
    using d'(1) definition_to_mirror_source [OF a(1)] by blast
  with d'(2) hs(1) show ?thesis by blast
qed

end
