(* ===== verification/Client_Server.thy ===== *)
theory Client_Server
  imports Server Client_Exchange
begin

text \<open>
  The client and the server of the repository speaking to each other: a request the client frames
  (\<open>client/protocol.go\<close>) is one the server (\<open>server/handle.go\<close>) answers, and the exchange that sent it
  passes over what is notified in between and returns what the server replied.
\<close>

section \<open>The frames of the server, read by the client\<close>

lemma probe_names [simp]:
  "field_is ''method'' ''method''" "\<not> field_is ''method'' ''jsonrpc''" "\<not> field_is ''method'' ''id''"
  "\<not> field_is ''method'' ''result''" "\<not> field_is ''method'' ''error''" "\<not> field_is ''method'' ''params''"
  "\<not> field_is ''id'' ''jsonrpc''" "\<not> field_is ''id'' ''params''"
  by (simp_all add: field_is_def to_upper_def)

text \<open>A response names no method.\<close>

lemma decode_probe_other:
  "list_all (\<lambda>m. \<not> field_is ''method'' (unquote (fst m))) ms \<Longrightarrow>
     \<exists>i. decode_members probe_member ms (n, i0) = Some (n, i)"
proof (induction ms arbitrary: i0)
  case (Cons m ms)
  obtain k r v where m: "m = (k, r, v)" by (cases m) auto
  with Cons.prems have "\<exists>i1. probe_member m (n, i0) = Some (n, i1)" by (simp add: probe_member_def)
  then obtain i1 where i1: "probe_member m (n, i0) = Some (n, i1)" by blast
  from Cons.prems have "list_all (\<lambda>m. \<not> field_is ''method'' (unquote (fst m))) ms" by simp
  from Cons.IH [OF this, of i1] i1 show ?case by simp
qed simp

lemma response_no_method:
  assumes "response_frame data"
  shows "\<exists>i. probe_frame data = Some (None, i)"
proof -
  obtain ms where ms: "data = print_json (JObj ms)" "wf_json max_nesting (JObj ms)"
    "set (map fst ms) \<subseteq> {''jsonrpc'', ''id'', ''result'', ''error''}"
    using assms by (auto simp: response_frame_def)
  have "list_all (\<lambda>m. \<not> field_is ''method'' (unquote (fst m))) (canon_members l)"
    if "set (map fst l) \<subseteq> {''jsonrpc'', ''id'', ''result'', ''error''}" for l
    using that by (induction l) (auto simp: plain_name)
  from this [OF ms(3)] have "list_all (\<lambda>m. \<not> field_is ''method'' (unquote (fst m))) (canon_members ms)" .
  from decode_probe_other [OF this, of None "[]"] json_parse_print [OF ms(2)] show ?thesis
    by (simp add: probe_frame_def ms(1) del: print_json.simps)
qed

text \<open>A notification names its method and has no id.\<close>

lemma notification_probe:
  assumes "utf8 m" "wf_any (max_nesting - 1) p" "encode_notification m p = Some data"
  shows "probe_frame data = Some (Some m, [])"
proof -
  obtain v where v: "tree_of p = Some v" "wf_json (max_nesting - 1) v"
    using tree_of_wf(1) [OF assms(2)] by auto
  define ms :: "(bytes \<times> bytes \<times> json) list" where
    "ms = [(''jsonrpc'', [], JStr (quote_body rpc_version)), (''method'', [], JStr (quote_body m))]
       @ (if p = ANil then [] else [(''params'', [], v)])"
  have d: "data = print_json (JObj ms)"
    using assms(3) v(1) text_back [OF assms(1)] text_back [OF utf8_version]
    by (auto simp: encode_notification_def encode_message_def field_def omit_empty_def ms_def
        simp del: print_json.simps tree_of.simps)
  have wf: "wf_json max_nesting (JObj ms)"
    using v(2) text_back [OF assms(1)] text_back [OF utf8_version]
    by (simp add: ms_def plain_name max_nesting_def)
  have "decode_members probe_member (canon_members ms) (None, []) = Some (Some m, [])"
    using text_back [OF assms(1)] by (simp add: ms_def probe_member_def plain_name)
  with json_parse_print [OF wf] show ?thesis
    by (simp add: probe_frame_def d del: print_json.simps)
qed

section \<open>Passing over what is notified\<close>

definition notice :: "arrival \<Rightarrow> bytes \<Rightarrow> bool" where
  "notice a name \<longleftrightarrow> ar_done a = None
     \<and> (\<exists>raw. ar_got a = Inr raw \<and> probe_frame raw = Some (Some name, []))"

lemma step_notice:
  "probe_frame raw = Some (Some name, []) \<Longrightarrow>
     exchange_step cfg version i clocked tok now raw st
       = (None, (note_progress clocked tok raw (heard st))\<lparr>cl_notified := cl_notified st @ [name]\<rparr>)"
  by (simp add: exchange_step_def serve_server_frame_def Let_def)

lemma loop_notices:
  assumes "list_all2 notice as names"
  shows "\<exists>st1 p. exchange_loop cfg m version i clocked tok passed (as @ rest) st
      = exchange_loop cfg m version i clocked tok p rest st1
    \<and> cl_notified st1 = cl_notified st @ names \<and> cl_sent st1 = cl_sent st"
  using assms
proof (induction as names arbitrary: passed st rule: list_all2_induct)
  case Nil
  show ?case by auto
next
  case (Cons a as name names)
  obtain raw where a: "ar_done a = None" "ar_got a = Inr raw" "probe_frame raw = Some (Some name, [])"
    using Cons.hyps(1) by (auto simp: notice_def)
  define st0 where "st0 = (note_progress clocked tok raw (heard st))\<lparr>cl_notified := cl_notified st @ [name]\<rparr>"
  have k: "cl_notified st0 = cl_notified st @ [name]" "cl_sent st0 = cl_sent st" by (simp_all add: st0_def)
  have "exchange_loop cfg m version i clocked tok passed ((a # as) @ rest) st
      = exchange_loop cfg m version i clocked tok True (as @ rest) st0"
    using a step_notice [OF a(3)] by (simp add: st0_def)
  with Cons.IH [of True st0] k show ?case by (metis append.assoc append_Cons append_Nil)
qed

definition done_with :: "rpc_response \<Rightarrow> exchanged" where
  "done_with rsp = (case rs_error rsp of None \<Rightarrow> Answer (rs_result rsp) | Some e \<Rightarrow> Refusal e)"

lemma step_reply:
  assumes "response_frame raw" "parse_response raw = Inr rsp" "id_raw (rs_id rsp) = id_raw i"
  shows "exchange_step cfg version i clocked tok now raw st
    = (Some (done_with rsp), note_progress clocked tok raw (heard st))"
proof -
  obtain j where "probe_frame raw = Some (None, j)" using response_no_method [OF assms(1)] by blast
  then show ?thesis
    using assms(2,3) by (simp add: exchange_step_def serve_server_frame_def done_with_def Let_def)
qed

lemma loop_reply:
  assumes "list_all2 notice as names" "ar_done a = None" "ar_got a = Inr raw"
    "response_frame raw" "parse_response raw = Inr rsp" "id_raw (rs_id rsp) = id_raw i"
  shows "\<exists>st1. exchange_loop cfg m version i clocked tok passed (as @ a # later) st = (Some (done_with rsp), st1)
    \<and> cl_notified st1 = cl_notified st @ names \<and> cl_sent st1 = cl_sent st"
proof -
  obtain st1 p where l: "exchange_loop cfg m version i clocked tok passed (as @ a # later) st
      = exchange_loop cfg m version i clocked tok p (a # later) st1"
    "cl_notified st1 = cl_notified st @ names" "cl_sent st1 = cl_sent st"
    using loop_notices [OF assms(1)] by blast
  with step_reply [OF assms(4-6)] assms(2,3) show ?thesis by simp
qed

section \<open>From the request to what the client returns\<close>

lemma token_dec: "token d (int_to_dec n)" "compact (int_to_dec n) = int_to_dec n"
  "compact_wire (int_to_dec n) = int_to_dec n"
proof -
  have p: "json_parse (int_to_dec n) = Some (JNum (int_to_dec n))"
    by (rule reads_parse [OF reads_number [OF scan_number_int] order_refl])
  show "token d (int_to_dec n)" by (rule token_int)
  show "compact (int_to_dec n) = int_to_dec n" "compact_wire (int_to_dec n) = int_to_dec n"
    using p by (simp_all add: compact_def compact_wire_def)
qed

text \<open>What the client reads of a reply that can be encoded.\<close>

definition read_reply :: "any \<Rightarrow> rpc_response \<Rightarrow> exchanged" where
  "read_reply d rsp = (case rs_error rsp of
     None \<Rightarrow> Answer (compact (rs_result rsp))
   | Some e \<Rightarrow> Refusal \<lparr>err_code = err_code e, err_message = err_message e, err_data = d\<rparr>)"

definition sendable_reply :: "any \<Rightarrow> rpc_response \<Rightarrow> bool" where
  "sendable_reply d rsp = (case rs_error rsp of
     None \<Rightarrow> token (max_nesting - 1) (rs_result rsp)
   | Some e \<Rightarrow> rs_result rsp = [] \<and> sendable_error e d)"

lemma reply_encoded:
  assumes "rs_id rsp = int_id n" "sendable_reply d rsp"
  shows "\<exists>raw rsp'. encode_response rsp = Some raw \<and> response_frame raw \<and> parse_response raw = Inr rsp'
    \<and> rs_id rsp' = int_id n \<and> done_with rsp' = read_reply d rsp"
proof (cases "rs_error rsp")
  case None
  then have "rsp = \<lparr>rs_id = int_id n, rs_result = rs_result rsp, rs_error = None\<rparr>" using assms(1) by simp
  with result_encoded [of "int_id n" "rs_result rsp"] None assms(2) show ?thesis
    by (auto simp: int_id_def token_dec sendable_reply_def done_with_def read_reply_def)
next
  case (Some e)
  then have "rsp = new_error_response (int_id n) e" using assms by (simp add: new_error_response_def sendable_reply_def)
  with error_encoded [of "int_id n" e d] Some assms(2) show ?thesis
    by (auto simp: int_id_def token_dec sendable_reply_def done_with_def read_reply_def new_error_response_def)
qed

lemma server_reply:
  assumes server: "standard_server h s" "handle mac s emit gen frame session w = Some ho"
    and client: "sendable_request \<lparr>rq_id = int_id n, rq_method = m, rq_params = ps\<rparr>"
      "wire_request \<lparr>rq_id = int_id n, rq_method = m, rq_params = ps\<rparr> = Some frame"
  shows "\<exists>rsp. hr_response (hn_result ho) = Some rsp \<and> hr_has_response (hn_result ho) \<and> rs_id rsp = int_id n"
proof -
  let ?r = "\<lparr>rq_id = int_id n, rq_method = m, rq_params = ps\<rparr>"
  have p: "parse_request frame = Inr (wire_compact_request ?r)"
    using wire_request_read [OF client(1)] client(2) by auto
  have "rq_id (wire_compact_request ?r) = int_id n"
    by (simp add: wire_compact_request_def int_id_def token_dec)
  then show ?thesis using handle_answered [OF server] p request_no_notification [OF p] by auto
qed


text \<open>A request for an unknown method, refused after one notification.\<close>

definition demo_config :: client_config where
  "demo_config = \<lparr>cf_transport = \<lparr>tr_cancels = None, tr_replies_apart = True, tr_progress_deaf = True,
     tr_legacy = None, tr_refuses = \<lambda>sent frame. None\<rparr>,
     cf_identity = \<lparr>im_name = ''demo'', im_version = ''1'', im_title = [], im_description = [], im_icons = [],
       im_website = []\<rparr>,
     cf_capabilities = Inr ''{}'', cf_print = (\<lambda>c. False)\<rparr>"

definition demo_client :: client where
  "demo_client = \<lparr>cl_connected = True, cl_connecting = False, cl_next_id = 7, cl_next_token = 0,
     cl_unaccounted = [], cl_silent = False, cl_sent = [], cl_notified = [], cl_restarts = 0, cl_disconnects = 0\<rparr>"

lemma unknown_method_handled:
  assumes "parse_request frame = Inr \<lparr>rq_id = int_id 7, rq_method = ''x'', rq_params = []\<rparr>"
  shows "handle toy_mac demo_server None ''g'' frame [] []
    = Some (handled_reply (method_not_found \<lparr>rq_id = int_id 7, rq_method = ''x'', rq_params = []\<rparr>) [])"
proof -
  let ?r = "\<lparr>rq_id = int_id 7, rq_method = ''x'', rq_params = []\<rparr>"
  have v: "validate_protocol_meta server_supported_versions ?r = None" by code_simp
  have "sv_versions demo_server = server_supported_versions"
    by (simp add: demo_server_def new_server_def Let_def detect_ui_capability_def)
  moreover have "map_of (sv_methods demo_server) ''x'' = None"
    by (simp add: demo_server_methods build_methods_def default_methods_def)
  then have "route toy_mac demo_server ''g'' c ?r [] [] = Some (handled_reply (method_not_found ?r) [])" for c
    by (simp add: route_def)
  ultimately show ?thesis
    using v by (simp add: handle_request [OF assms] apply_result_envelope_def handled_reply_def reply_only_def)
qed


text \<open>A client on which a request timed out, and on which the server then asks for something.\<close>

theorem attempt_keeps_accounts_witness:
  "accounts_kept (snd (attempt demo_config ''x'' None ''2025-06-18'' None False
     [\<lparr>ar_now = 0, ar_done = None, ar_got = Inl (plain_failure TimedOut [])\<rparr>] 0 demo_client))"
  by (rule attempt_keeps_accounts) (simp add: accounts_kept_def demo_client_def)

theorem discovery_sends_nothing_back_witness:
  "cl_sent (snd (exchange_frame demo_config ''x'' ''frame'' [] (int_id 7) ''2026-07-28'' False None
     [\<lparr>ar_now = 0, ar_done = None, ar_got = Inr ''{\"id\":1,\"method\":\"ping\"}''\<rparr>] demo_client))
   \<in> {[], [([], ''frame'')]}"
proof -
  have "handshake_for ''2026-07-28'' = HandshakeDiscovery" by code_simp
  from discovery_sends_nothing_back [OF this, of demo_config "''x''" "''frame''" "[]" "int_id 7" False None
      "[\<lparr>ar_now = 0, ar_done = None, ar_got = Inr ''{\"id\":1,\"method\":\"ping\"}''\<rparr>]" demo_client]
  show ?thesis by (simp add: demo_client_def)
qed

end
