(* ===== verification/Client_Properties.thy ===== *)
theory Client_Properties
  imports Catalogue_Laws Client_Server
begin

text \<open>
  What is shown of a client over its connection, with a world it is run in: a transport that is always
  there and answers the first request with the discover result of a server of the discovery revision.
\<close>

definition demo_world :: world where
  "demo_world = \<lparr>wd_carries_headers = True, wd_config = (\<lambda>n. demo_config),
     wd_reads = (\<lambda>n. [\<lparr>ar_now = 0, ar_done = None, ar_got = Inr
       (''{\"jsonrpc\":\"2.0\",\"id\":1,\"result\":{\"resultType\":\"complete\",''
        @ ''\"supportedVersions\":[\"2026-07-28\"],\"capabilities\":{}}}'')\<rparr>]),
     wd_clocked = (\<lambda>n. False), wd_now = (\<lambda>n. 0), wd_connects = (\<lambda>n. None), wd_context = (\<lambda>n. None),
     wd_authorization = (\<lambda>n. 5)\<rparr>"

section \<open>Connections\<close>

text \<open>
  C17. Whatever a client is asked to do and whatever servers answer, a connection it holds to be
  standing was settled by one completed handshake: at a version the client speaks, the pinned one where
  a version is pinned, holding the result of the handshake that version belongs to (a discover result
  that makes it the newest common version, or an initialize result that chose it) and no other.
\<close>

theorem reached_connection_sound:
  assumes "client_reaches st"
  shows "case ss_conn st of
      None \<Rightarrow> \<not> is_connected st
    | Some c \<Rightarrow> ng_version c \<in> set client_supported_versions
        \<and> (is_connected st \<longrightarrow> (ss_pinned st = [] \<or> ng_version c = ss_pinned st)
           \<and> (case (ng_discover c, ng_initialize c) of
                (Some d, None) \<Rightarrow> ng_version c = protocol_v20260728
                  \<and> preferred_protocol_version (dr_versions d) = Some (ng_version c)
              | (None, Some i) \<Rightarrow> ng_version c = ir_version i \<and> ng_version c \<in> set client_initialize_versions
              | _ \<Rightarrow> False))"
proof (cases "ss_conn st")
  case (Some c)
  then have k: "known_connection c" "is_connected st \<longrightarrow> serves_pin (ss_pinned st) c"
    using reaches_ok [OF assms] by (auto simp: session_ok_def)
  have "handshake_for v = HandshakeDiscovery \<Longrightarrow> v = protocol_v20260728" for v
    by (auto simp: handshake_for_def split: if_splits)
  with Some k show ?thesis
    by (auto simp: known_connection_def serves_pin_def complete_connection_def split: option.splits)
qed (use reaches_ok [OF assms] in \<open>simp add: session_ok_def\<close>)

definition connected_demo :: "session option" where
  "connected_demo = client_run demo_world DoConnect fresh_session"

theorem reached_connection_sound_witness:
  "\<exists>st c d. connected_demo = Some st \<and> is_connected st \<and> ss_conn st = Some c \<and> ng_discover c = Some d
     \<and> ng_version c = protocol_v20260728"
proof -
  have "case connected_demo of None \<Rightarrow> False | Some st \<Rightarrow> is_connected st \<and> (case ss_conn st of
      None \<Rightarrow> False | Some c \<Rightarrow> ng_discover c \<noteq> None)" by code_simp
  then obtain st c d where st: "connected_demo = Some st" "is_connected st" "ss_conn st = Some c" "ng_discover c = Some d"
    by (auto split: option.splits)
  have "client_reaches st"
    using client_reaches.step [OF client_reaches.fresh st(1) [unfolded connected_demo_def]] .
  from reached_connection_sound [OF this] st show ?thesis by (auto split: option.splits)
qed

text \<open>
  C18. No answer crosses credentials: the connection an exchange starts with is one settled under the
  credential presented at its start, and a request that insists on an authorization context is only
  ever answered in that context, over the connection standing when it returns.
\<close>

theorem answers_keep_to_credential:
  assumes "client_reaches st"
  shows "(case connect_locked w st of
      (Returned _, st') \<Rightarrow> is_connected st'
        \<and> (case ss_conn st' of None \<Rightarrow> False | Some c \<Rightarrow> ng_authorization c = wd_authorization w (moment st))
    | _ \<Rightarrow> True)
    \<and> (case page_exchanged w m params a st of
      (Returned reply, st') \<Rightarrow> a \<in> {0, an_authorization reply} \<and> an_generation reply = ss_generation st'
    | _ \<Rightarrow> True)"
proof
  note ok = reaches_ok [OF assms]
  show "case connect_locked w st of
      (Returned _, st') \<Rightarrow> is_connected st'
        \<and> (case ss_conn st' of None \<Rightarrow> False | Some c \<Rightarrow> ng_authorization c = wd_authorization w (moment st))
    | _ \<Rightarrow> True"
    using tripleD(1) [OF triple_connect_locked [of "moment st" w], of st] ok
    by (auto simp: connected_under_def split: prod.split outcome.split)
  have "steady_terms \<lparr>te_headers = None, te_authorization = a\<rparr>" by (simp add: steady_terms_def)
  from tripleD(1) [OF triple_exchange [OF this] ok, of w "\<lambda>_. m" params]
  show "case page_exchanged w m params a st of
      (Returned reply, st') \<Rightarrow> a \<in> {0, an_authorization reply} \<and> an_generation reply = ss_generation st'
    | _ \<Rightarrow> True"
    by (fastforce simp: page_exchanged_def exchange_with_def split: prod.split outcome.split)
qed

theorem answers_keep_to_credential_witness:
  "\<exists>st' c. connect_locked demo_world fresh_session = (Returned (), st') \<and> ss_conn st' = Some c
     \<and> ng_authorization c = 5"
proof -
  have "case connect_locked demo_world fresh_session of (Returned _, st') \<Rightarrow> True | _ \<Rightarrow> False" by code_simp
  then obtain st' where st': "connect_locked demo_world fresh_session = (Returned (), st')"
    by (auto split: prod.splits outcome.splits)
  with answers_keep_to_credential [where w = demo_world and m = "''tools/list''" and params = None and a = 0, OF client_reaches.fresh]
  have "case ss_conn st' of None \<Rightarrow> False | Some c \<Rightarrow> ng_authorization c = wd_authorization demo_world (moment fresh_session)"
    by simp
  moreover have "wd_authorization demo_world n = 5" for n by (simp add: demo_world_def)
  ultimately have "case ss_conn st' of None \<Rightarrow> False | Some c \<Rightarrow> ng_authorization c = 5" by (simp split: option.splits)
  with st' show ?thesis by (auto split: option.splits)
qed

section \<open>Tools\<close>


section \<open>Listings\<close>

text \<open>
  C20. A listing is whole: from a server that answers for each of at most a thousand pages, each under a
  cursor of its own, the client reads every entry of every page in order, sending each cursor back
  exactly as it arrived, or the first of them up to the limit it was given.
\<close>

theorem listing_complete:
  assumes "serves ask lt pages" "length pages \<le> max_list_pages" "fst (hd pages) = None" "distinct (map fst pages)"
    and "case limit of None \<Rightarrow> True | Some lim \<Rightarrow> 0 \<le> lim"
  shows "\<exists>whole st'. read_pages ask lt limit st = (Returned whole, st')
    \<and> map fst (li_entries whole) = cut_to limit (concat (map snd pages))"
proof -
  have "within_limit limit (li_entries unread)"
    using assms(5) by (auto simp: within_limit_def unread_def split: option.splits)
  from read_pages_from_serves [OF assms(1,2) this assms(4), of "[]" 0 st] assms(3)
  show ?thesis by (simp add: read_pages_def unread_def)
qed

definition demo_asker :: asker where
  "demo_asker m params a st =
     (Returned \<lparr>an_result = (if params = None then ''{\"tools\":[{\"name\":\"a\"}],\"nextCursor\":\"p\"}''
          else ''{\"tools\":[{\"name\":\"b\"}]}''), an_generation = 1, an_received_at = 0, an_authorization = 0\<rparr>, st)"

theorem listing_complete_witness:
  "\<exists>whole st'. read_pages demo_asker ''tools'' None fresh_session = (Returned whole, st')
     \<and> map fst (li_entries whole) = [[(''name'', AStr ''a'')], [(''name'', AStr ''b'')]]"
proof -
  let ?p1 = "''{\"tools\":[{\"name\":\"a\"}],\"nextCursor\":\"p\"}''" and ?p2 = "''{\"tools\":[{\"name\":\"b\"}]}''"
  let ?c = "quote_char # ''p'' @ [quote_char]"
  have "page_states ''tools'' ?p1 [[(''name'', AStr ''a'')]] (Some ?c)"
    "page_states ''tools'' ?p2 [[(''name'', AStr ''b'')]] None" "stale_after 0 ?p1 = Some 0" "stale_after 0 ?p2 = Some 0"
    by code_simp+
  then have "serves demo_asker ''tools'' [(None, [[(''name'', AStr ''a'')]]), (Some ?c, [[(''name'', AStr ''b'')]])]"
    by (simp add: demo_asker_def cursor_params_def)
  from listing_complete [OF this, of None fresh_session] show ?thesis
    by (simp add: max_list_pages_def cut_to_def)
qed

end
