(* ===== verification/Catalog_Size.thy ===== *)
theory Catalog_Size
  imports Wire Primitives "HOL-Library.Multiset"
begin

text \<open>
  How the tool catalog (\<open>server/tool_catalog.go\<close>) measures and shortens what it returns: the text of a
  payload (\<open>catalogEncode\<close>), the size of a value and of a reply on the wire, the clipping of a message
  and the bisection for the longest that fits. The lemmas say what a size is made of
  (\<open>size_list\<close>, \<open>size_map\<close>): the size of an array or an object is the sum of its parts, in any order,
  so a part can be measured once and for all.
\<close>

section \<open>Limits\<close>

definition default_catalog_max_tool_calls :: int where "default_catalog_max_tool_calls = 25"
definition default_catalog_max_output_bytes :: int where "default_catalog_max_output_bytes = 65536"
definition min_catalog_max_tool_calls :: int where "min_catalog_max_tool_calls = 1"
definition max_catalog_max_tool_calls :: int where "max_catalog_max_tool_calls = 100"
definition max_catalog_max_output_bytes :: int where "max_catalog_max_output_bytes = 4 * 2 ^ 20"
definition min_catalog_max_output_bytes :: int where "min_catalog_max_output_bytes = 512"

definition catalog_kind_output_limit :: bytes where "catalog_kind_output_limit = ''OutputLimitExceeded''"
definition catalog_kind_encode_failure :: bytes where "catalog_kind_encode_failure = ''OutputEncodingFailed''"

definition catalog_encode_failure_message :: bytes where
  "catalog_encode_failure_message = ''The tool catalog could not encode the tool output.''"

definition catalog_truncation_marker :: bytes where "catalog_truncation_marker = ''...''"
definition catalog_meta_key :: bytes where "catalog_meta_key = ''com.velocitykode.mcp/toolCatalog''"

text \<open>\<open>limitMessage\<close>, for a limit.\<close>

definition limit_message :: "int \<Rightarrow> bytes" where
  "limit_message max_bytes = ''The tool output exceeded '' @ int_to_dec max_bytes @ '' bytes.''"

section \<open>Text and sizes\<close>

text \<open>\<open>catalogEncode\<close> and \<open>catalogWireSize\<close>, of a value given by what it marshals to.\<close>

definition catalog_encode :: "json option \<Rightarrow> bytes option" where
  "catalog_encode t = map_option wire_json t"

definition catalog_wire_size :: "json option \<Rightarrow> int option" where
  "catalog_wire_size t = map_option (\<lambda>v. int (length (print_json v))) t"

text \<open>\<open>catalogReplySize\<close>: the tool result of a response, as the transport encodes it.\<close>

definition catalog_reply_size :: "response \<Rightarrow> int option" where
  "catalog_reply_size resp =
     (case tool_result (Some resp) of
        None \<Rightarrow> None
      | Some result \<Rightarrow> catalog_wire_size (tree_of (AMap result)))"

definition as_error :: "response \<Rightarrow> response" where
  "as_error resp = resp\<lparr>rp_is_error := True\<rparr>"

definition catalog_text_reply :: "json option \<Rightarrow> bool \<Rightarrow> (response \<times> int) option" where
  "catalog_text_reply payload is_err =
     (case catalog_encode payload of
        None \<Rightarrow> None
      | Some txt \<Rightarrow>
          (let resp = (if is_err then as_error (text_response txt) else text_response txt)
           in map_option (\<lambda>n. (resp, n)) (catalog_reply_size resp)))"

section \<open>Clipping\<close>

text \<open>\<open>[]rune(s)\<close> and \<open>string(runes)\<close>: bytes that are no UTF-8 become the replacement character.\<close>

function runes_of :: "bytes \<Rightarrow> nat list" where
  "runes_of s =
     (case s of
        [] \<Rightarrow> []
      | c # r \<Rightarrow>
          if byte c < 128 then byte c # runes_of r
          else (case decode_rune s of
                  None \<Rightarrow> 0xFFFD # runes_of r
                | Some (x, n) \<Rightarrow> x # runes_of (drop (max n 1) s)))"
  by pat_completeness auto
termination
  by (relation "measure length") auto

declare runes_of.simps [simp del]

definition string_of_runes :: "nat list \<Rightarrow> bytes" where
  "string_of_runes rs = concat (map encode_rune rs)"

definition catalog_clip :: "nat list \<Rightarrow> nat \<Rightarrow> bytes" where
  "catalog_clip rs n =
     (if length rs \<le> n then string_of_runes rs
      else string_of_runes (take n rs) @ catalog_truncation_marker)"

text \<open>\<open>catalogLongestFit\<close>: the loop over \<open>lo\<close> and \<open>hi\<close>.\<close>

function longest_fit_between :: "(nat \<Rightarrow> bool) \<Rightarrow> nat \<Rightarrow> nat \<Rightarrow> nat" where
  "longest_fit_between fits lo hi =
     (if lo < hi
      then (let mid = (lo + hi + 1) div 2
            in if fits mid then longest_fit_between fits mid hi
               else longest_fit_between fits lo (mid - 1))
      else lo)"
  by pat_completeness auto
termination
  by (relation "measure (\<lambda>(fits, lo, hi). hi - lo)") auto

declare longest_fit_between.simps [simp del]

definition catalog_longest_fit :: "nat \<Rightarrow> (nat \<Rightarrow> bool) \<Rightarrow> nat" where
  "catalog_longest_fit len fits = longest_fit_between fits 0 len"

text \<open>\<open>messageReply\<close>, for a limit.\<close>

definition message_fits :: "int \<Rightarrow> bytes \<Rightarrow> bool" where
  "message_fits max_bytes txt =
     (case catalog_reply_size (error_response txt) of None \<Rightarrow> False | Some n \<Rightarrow> n \<le> max_bytes)"

definition message_reply :: "int \<Rightarrow> bytes \<Rightarrow> response" where
  "message_reply max_bytes msg =
     (if message_fits max_bytes msg then error_response msg
      else
        let rs = runes_of msg;
            kept = catalog_longest_fit (length rs) (\<lambda>n. message_fits max_bytes (catalog_clip rs n));
            txt = catalog_clip rs kept
        in if message_fits max_bytes txt \<or> rs = [] then error_response txt
           else error_response [])"

section \<open>The bisection\<close>

text \<open>Where fitting is inherited by shorter lengths, the bisection finds the longest that fits.\<close>

lemma longest_fit_between:
  assumes "lo \<le> hi" "\<And>m n. m \<le> n \<Longrightarrow> n \<le> hi \<Longrightarrow> fits n \<Longrightarrow> lo < m \<Longrightarrow> fits m"
  shows "lo \<le> longest_fit_between fits lo hi \<and> longest_fit_between fits lo hi \<le> hi
    \<and> (lo < longest_fit_between fits lo hi \<longrightarrow> fits (longest_fit_between fits lo hi))
    \<and> (\<forall>n. longest_fit_between fits lo hi < n \<longrightarrow> n \<le> hi \<longrightarrow> \<not> fits n)"
  using assms
proof (induction fits lo hi rule: longest_fit_between.induct)
  case (1 fits lo hi)
  define mid where "mid = (lo + hi + 1) div 2"
  show ?case
  proof (cases "lo < hi")
    case False
    have "longest_fit_between fits lo hi = lo" by (subst longest_fit_between.simps) (simp add: False)
    then show ?thesis using False "1.prems"(1) by auto
  next
    case True
    then have mid: "lo < mid" "mid \<le> hi" by (auto simp: mid_def)
    show ?thesis
    proof (cases "fits mid")
      case fit: True
      have "longest_fit_between fits lo hi = longest_fit_between fits mid hi"
        using fit by (subst longest_fit_between.simps) (simp add: True Let_def mid_def)
      moreover have "mid \<le> longest_fit_between fits mid hi \<and> longest_fit_between fits mid hi \<le> hi
          \<and> (mid < longest_fit_between fits mid hi \<longrightarrow> fits (longest_fit_between fits mid hi))
          \<and> (\<forall>n. longest_fit_between fits mid hi < n \<longrightarrow> n \<le> hi \<longrightarrow> \<not> fits n)"
        using "1.IH"(1) [OF True mid_def fit mid(2)] "1.prems"(2) mid by force
      ultimately show ?thesis using mid fit by (metis le_eq_less_or_eq order.strict_trans1 order.trans)
    next
      case miss: False
      have e: "longest_fit_between fits lo hi = longest_fit_between fits lo (mid - 1)"
        using miss by (subst longest_fit_between.simps) (simp add: True Let_def mid_def)
      have no: "\<not> fits n" if "mid \<le> n" "n \<le> hi" for n
        using "1.prems"(2) [of mid n] that mid miss by blast
      have "lo \<le> longest_fit_between fits lo (mid - 1) \<and> longest_fit_between fits lo (mid - 1) \<le> mid - 1
          \<and> (lo < longest_fit_between fits lo (mid - 1) \<longrightarrow> fits (longest_fit_between fits lo (mid - 1)))
          \<and> (\<forall>n. longest_fit_between fits lo (mid - 1) < n \<longrightarrow> n \<le> mid - 1 \<longrightarrow> \<not> fits n)"
        using "1.IH"(2) [OF True mid_def miss] "1.prems"(2) mid by force
      moreover have "n \<le> mid - 1 \<or> mid \<le> n" for n by linarith
      ultimately show ?thesis using no mid unfolding e by (meson diff_le_self order.trans)
    qed
  qed
qed

section \<open>The size of a string\<close>

text \<open>A string as it is written between its quotes, and its size with them.\<close>

definition string_text :: "bytes \<Rightarrow> bytes" where
  "string_text s = html_escape (quote_body s)"

definition string_size :: "bytes \<Rightarrow> int" where
  "string_size s = 2 + int (length (string_text s))"

lemma html_escape_ascii: "\<not> html_char d \<Longrightarrow> byte d < 128 \<Longrightarrow> html_escape (d # t) = d # html_escape t"
  by (auto intro!: html_escape_plain not_ls_ps)

lemma html_escape_pair:
  "\<not> html_char d \<Longrightarrow> byte d < 128 \<Longrightarrow> html_escape ([backslash, d] @ s) = [backslash, d] @ html_escape s"
  using html_escape_ascii [of backslash "d # s"] html_escape_ascii [of d s] by (simp add: html_char_def)

lemma quote_ascii_cases:
  assumes "byte c < 128"
  obtains (short) d where "quote_ascii c = [backslash, d]" "\<not> html_char d" "byte d < 128"
  | (long) "quote_ascii c = u_escaped (byte c)"
  | (plain) "quote_ascii c = [c]" "\<not> html_char c"
proof -
  consider "c = quote_char \<or> c = backslash" | "c = CHR 0x08" | "c = CHR 0x0C" | "c = CHR 0x0A" | "c = CHR 0x0D"
    | "c = CHR 0x09" | "c \<notin> {quote_char, backslash, CHR 0x08, CHR 0x0C, CHR 0x0A, CHR 0x0D, CHR 0x09}"
    by blast
  then show ?thesis
  proof cases
    case 1
    then show ?thesis using short [of c] assms by (simp add: quote_ascii_def html_char_def) blast
  next
    case 7
    then show ?thesis using long plain
      by (cases "byte c < 32 \<or> html_char c") (simp_all add: quote_ascii_def)
  qed (rule short, simp add: quote_ascii_def, simp_all add: html_char_def)+
qed

lemma string_text_Nil [simp]: "string_text [] = []"
  by (simp add: string_text_def)

lemma string_text_ascii [simp]: "byte c < 128 \<Longrightarrow> string_text (c # s) = quote_ascii c @ string_text s"
  by (simp add: string_text_def html_escape_quote_ascii)

text \<open>A character beyond ASCII.\<close>

definition rune_text :: "nat \<Rightarrow> bytes" where
  "rune_text x = (if x < 128 then quote_ascii (char_of x)
     else if x = 0x2028 \<or> x = 0x2029 then u_escaped x else encode_rune x)"

lemma encode_rune_cases:
  assumes "scalar x" "\<not> x < 128"
  obtains c r where "encode_rune x = c # r" "\<not> byte c < 128" "\<forall>d \<in> set r. cont_byte (byte d)"
    "c = CHR 0xE2 \<Longrightarrow> \<exists>d1 d2. r = [d1, d2] \<and> byte d1 = 128 + x div 64 mod 64 \<and> byte d2 = 128 + x mod 64
       \<and> 224 + x div 4096 = 226"
proof -
  have b: "byte (char_of n :: char) = n" if "n < 256" for n :: nat using that by simp
  have x: "x < 0x110000" using assms(1) by (auto simp: scalar_def)
  consider "x < 2048" | "2048 \<le> x" "x < 65536" | "65536 \<le> x" by linarith
  then show ?thesis
  proof cases
    case 1
    have "192 + x div 64 < 226" using 1 by simp
    then have "(char_of (192 + x div 64) :: char) \<noteq> CHR 0xE2" using b [of "192 + x div 64"] by (auto dest: arg_cong [of _ _ byte])
    then show ?thesis using that [of "char_of (192 + x div 64)" "[char_of (128 + x mod 64)]"] 1 assms(2) b
      by (auto simp: encode_rune_def cont_byte_def)
  next
    case 2
    have "224 + x div 4096 < 256" using 2 by simp
    moreover have "224 + x div 4096 = 226" if "(char_of (224 + x div 4096) :: char) = CHR 0xE2"
      using arg_cong [OF that, of byte] b [OF calculation] by simp
    ultimately show ?thesis
      using that [of "char_of (224 + x div 4096)" "[char_of (128 + x div 64 mod 64), char_of (128 + x mod 64)]"] 2 assms(2) b
      by (auto simp: encode_rune_def cont_byte_def)
  next
    case 3
    have l: "240 + x div 262144 < 256" using x by simp
    have "(char_of (240 + x div 262144) :: char) \<noteq> CHR 0xE2" using b [OF l] by (auto dest: arg_cong [of _ _ byte])
    then show ?thesis
      using that [of "char_of (240 + x div 262144)"
          "[char_of (128 + x div 4096 mod 64), char_of (128 + x div 64 mod 64), char_of (128 + x mod 64)]"]
        3 assms(2) b l by (auto simp: encode_rune_def cont_byte_def)
  qed
qed

lemma html_escape_rune:
  assumes "scalar x" "\<not> x < 128" "x \<noteq> 0x2028" "x \<noteq> 0x2029"
  shows "html_escape (encode_rune x @ t) = encode_rune x @ html_escape t"
proof -
  obtain c r where e: "encode_rune x = c # r" "\<not> byte c < 128" "\<forall>d \<in> set r. cont_byte (byte d)"
    "c = CHR 0xE2 \<Longrightarrow> \<exists>d1 d2. r = [d1, d2] \<and> byte d1 = 128 + x div 64 mod 64 \<and> byte d2 = 128 + x mod 64
       \<and> 224 + x div 4096 = 226"
    using encode_rune_cases [OF assms(1,2)] by metis
  have "\<not> ls_ps (c # r @ t)"
  proof
    assume "ls_ps (c # r @ t)"
    then obtain b u where b: "c # r @ t = CHR 0xE2 # CHR 0x80 # b # u" "b = CHR 0xA8 \<or> b = CHR 0xA9"
      by (rule ls_ps_cases)
    then obtain d1 d2 where d: "r = [d1, d2]" "byte d1 = 128 + x div 64 mod 64" "byte d2 = 128 + x mod 64"
      "224 + x div 4096 = 226" using e(4) by auto
    then have "x div 64 mod 64 = 0" "x mod 64 = 40 \<or> x mod 64 = 41" "x div 4096 = 2" using b by auto
    moreover from this have "x div 64 div 64 = 2" using div_mult2_eq [of x 64 64] by simp
    ultimately have "x div 64 = 128" using div_mult_mod_eq [of "x div 64" 64] by simp
    then have "x = 0x2028 \<or> x = 0x2029"
      using div_mult_mod_eq [of x 64] \<open>x mod 64 = 40 \<or> x mod 64 = 41\<close> by auto
    then show False using assms by simp
  qed
  moreover have "\<not> html_char c" using e(2) by (auto simp: html_char_def)
  ultimately show ?thesis using html_escape_conts [OF e(3)] by (simp add: e(1) html_escape_plain)
qed

lemma string_text_rune: "scalar x \<Longrightarrow> string_text (encode_rune x @ s) = rune_text x @ string_text s"
proof (cases "x < 128")
  case True
  then show ?thesis by (simp add: encode_rune_def rune_text_def)
next
  case False
  assume x: "scalar x"
  obtain c r where e: "encode_rune x = c # r" "\<not> byte c < 128"
    using encode_rune_cases [OF x False] by metis
  have d: "decode_rune (c # r @ s) = Some (x, length (c # r))"
    using decode_rune_encode_rune [OF x, of s] by (simp add: e)
  then have q: "quote_body (encode_rune x @ s)
      = (if x = 0x2028 \<or> x = 0x2029 then u_escaped x else encode_rune x) @ quote_body s"
    using quote_body_high [OF e(2), of "r @ s"] by (simp add: e(1) max_def)
  show ?thesis
    using False html_escape_rune [OF x False] html_escape_u_escaped [of x "quote_body s"]
    by (auto simp: string_text_def q rune_text_def)
qed

lemma string_text_runes:
  "list_all scalar rs \<Longrightarrow> string_text (string_of_runes rs @ s) = concat (map rune_text rs) @ string_text s"
  by (induction rs) (simp_all add: string_of_runes_def string_text_rune)

lemma runes_of_Nil [simp]: "runes_of [] = []"
  by (subst runes_of.simps) simp

lemma runes_of_ascii [simp]: "byte c < 128 \<Longrightarrow> runes_of (c # r) = byte c # runes_of r"
  by (subst runes_of.simps) simp

lemma runes_of_high:
  "\<not> byte c < 128 \<Longrightarrow> runes_of (c # r) =
     (case decode_rune (c # r) of None \<Rightarrow> 0xFFFD # runes_of r
      | Some (x, n) \<Rightarrow> x # runes_of (drop (max n 1) (c # r)))"
  by (subst runes_of.simps) simp

lemma runes_of_scalar: "list_all scalar (runes_of s)"
proof (induction s rule: length_induct)
  case (1 s)
  show ?case
  proof (cases s)
    case (Cons c r)
    have shorter: "list_all scalar (runes_of r)" "list_all scalar (runes_of (drop (max n 1) (c # r)))" for n
      using 1 Cons by auto
    show ?thesis
    proof (cases "byte c < 128")
      case True
      then have "scalar (byte c)" by (simp add: scalar_def)
      with True show ?thesis using shorter(1) Cons by simp
    next
      case False
      show ?thesis
      proof (cases "decode_rune (c # r)")
        case None
        moreover have "scalar 0xFFFD" by (simp add: scalar_def)
        ultimately show ?thesis using shorter(1) Cons False by (simp add: runes_of_high)
      next
        case (Some xn)
        then obtain x n where x: "decode_rune (c # r) = Some (x, n)" by (cases xn) auto
        have "scalar x" using encode_decode_rune [OF x] by simp
        then show ?thesis using shorter(2) [of n] Cons False x by (simp add: runes_of_high)
      qed
    qed
  qed simp
qed

lemma runes_of_utf8: "utf8 s \<Longrightarrow> string_of_runes (runes_of s) = s"
proof (induction s rule: utf8_induct)
  case (Ascii c s)
  then show ?case by (simp add: string_of_runes_def encode_rune_def)
next
  case (Rune c s x n)
  have "string_of_runes (runes_of (c # s)) = encode_rune x @ string_of_runes (runes_of (drop n s))"
    using Rune.hyps by (simp add: runes_of_high string_of_runes_def)
  moreover have "encode_rune x = c # take n s" using encode_decode_rune [OF Rune.hyps(2)] by simp
  ultimately show ?case using Rune.IH by simp
qed (simp add: string_of_runes_def)

lemma string_text_utf8: "utf8 s \<Longrightarrow> string_text (s @ t) = concat (map rune_text (runes_of s)) @ string_text t"
  using string_text_runes [OF runes_of_scalar, of s t] runes_of_utf8 [of s] by simp

lemma string_size_append: "utf8 s \<Longrightarrow> string_size (s @ t) = string_size s + string_size t - 2"
  using string_text_utf8 [of s t] string_text_utf8 [of s "[]"] by (simp add: string_size_def)

section \<open>The size of a value\<close>

definition encodes :: "any \<Rightarrow> bool" where
  "encodes a = (tree_of a \<noteq> None)"

definition value_size :: "any \<Rightarrow> int" where
  "value_size a = int (length (print_json (the (tree_of a))))"

lemma wire_size_value: "catalog_wire_size (tree_of a) = (if encodes a then Some (value_size a) else None)"
  by (auto simp: catalog_wire_size_def encodes_def value_size_def)

text \<open>The separators of \<open>n\<close> parts.\<close>

definition commas :: "nat \<Rightarrow> int" where
  "commas n = int (n - 1)"

lemma commas_Suc: "commas (Suc n) = (if n = 0 then 0 else 1 + commas n)"
  by (cases n) (auto simp: commas_def)

lemma tree_elems_values:
  "tree_elems vs = (if list_all encodes vs then Some (map (\<lambda>a. ([], the (tree_of a))) vs) else None)"
  by (induction vs) (auto simp: encodes_def split: option.splits)

lemma tree_members_values:
  "tree_members ms =
     (if list_all (\<lambda>(k, a). encodes a) ms then Some (map (\<lambda>(k, a). (k, [], the (tree_of a))) ms) else None)"
  by (induction ms) (auto simp: encodes_def split: option.splits prod.splits)

lemma print_elems_size:
  "int (length (print_elems (map (\<lambda>a. ([], the (tree_of a))) vs)))
     = sum_list (map value_size vs) + commas (length vs)"
  by (induction vs) (auto simp: value_size_def commas_Suc, simp_all add: commas_def)

lemma print_members_size:
  "int (length (print_members ms)) =
     sum_list (map (\<lambda>(k, r, v). 3 + int (length (html_escape k)) + int (length (print_json v))) ms)
     + commas (length ms)"
  by (induction ms) (auto simp: quoted_def commas_Suc, simp_all add: commas_def)

lemma size_list:
  "encodes (AList vs) \<longleftrightarrow> list_all encodes vs"
  "encodes (AList vs) \<Longrightarrow> value_size (AList vs) = 2 + sum_list (map value_size vs) + commas (length vs)"
proof -
  show e: "encodes (AList vs) \<longleftrightarrow> list_all encodes vs" by (simp add: encodes_def tree_elems_values)
  assume "encodes (AList vs)"
  with e have "list_all encodes vs" by simp
  then show "value_size (AList vs) = 2 + sum_list (map value_size vs) + commas (length vs)"
    using print_elems_size [of vs] by (simp add: value_size_def tree_elems_values)
qed

definition member_size :: "bytes \<times> any \<Rightarrow> int" where
  "member_size m = string_size (fst m) + 1 + value_size (snd m)"

lemma size_map:
  "encodes (AMap ms) \<longleftrightarrow> list_all (encodes \<circ> snd) ms"
  "encodes (AMap ms) \<Longrightarrow> value_size (AMap ms) = 2 + sum_list (map member_size ms) + commas (length ms)"
proof -
  show e: "encodes (AMap ms) \<longleftrightarrow> list_all (encodes \<circ> snd) ms"
    by (simp add: encodes_def tree_members_values comp_def case_prod_unfold)
  assume "encodes (AMap ms)"
  with e have a: "list_all (\<lambda>(k, a). encodes a) ms" by (simp add: comp_def case_prod_unfold)
  define l where "l = map (\<lambda>(k, a). (k, [] :: bytes, the (tree_of a))) ms"
  define q where "q = (\<lambda>(k, r, v). (quote_body k, r :: bytes, v :: json))"
  define w where "w = (\<lambda>(k, r :: bytes, v). 3 + int (length (html_escape k)) + int (length (print_json v)))"
  have t: "tree_of (AMap ms) = Some (JObj (map q (sort_key fst l)))"
    using a by (simp add: tree_members_values l_def q_def)
  have "int (length (print_members (map q (sort_key fst l)))) = sum_list (map w (map q (sort_key fst l))) + commas (length ms)"
    using print_members_size [of "map q (sort_key fst l)"] by (simp add: w_def l_def)
  also have "sum_list (map w (map q (sort_key fst l))) = sum_list (map (w \<circ> q) l)"
    using sum_mset_sum_list [of "map (w \<circ> q) (sort_key fst l)"] sum_mset_sum_list [of "map (w \<circ> q) l"] by simp
  also have "map (w \<circ> q) l = map member_size ms"
    by (auto simp: l_def w_def q_def member_size_def string_size_def string_text_def value_size_def)
  finally show "value_size (AMap ms) = 2 + sum_list (map member_size ms) + commas (length ms)"
    unfolding value_size_def t option.sel by simp
qed

lemma size_simple [simp]:
  "encodes (AStr s)" "value_size (AStr s) = string_size s"
  "encodes (ABool b)" "value_size (ABool b) = (if b then 4 else 5)"
  "encodes (AInt i)" "value_size (AInt i) = int (length (int_to_dec i))"
  "encodes ANil" "value_size ANil = 4"
  by (auto simp: encodes_def value_size_def quoted_def string_size_def string_text_def)

lemma string_size_plain: "plain_name s \<Longrightarrow> string_size s = 2 + int (length s)"
  by (simp add: string_size_def string_text_def plain_name)

text \<open>The names of a result, and a text item of it.\<close>

lemma result_names [simp]:
  "string_size ''content'' = 9" "string_size ''isError'' = 9" "string_size ''_meta'' = 7"
  "string_size ''type'' = 6" "string_size ''text'' = 6" "string_size ''results'' = 9"
  "string_size ''index'' = 7" "string_size ''name'' = 6" "string_size ''meta'' = 6"
  by (simp_all add: string_size_plain plain_name_def)

lemma text_item_size:
  "encodes (AMap [(''type'', AStr ''text''), (''text'', AStr t)])"
  "value_size (AMap [(''type'', AStr ''text''), (''text'', AStr t)]) = 23 + string_size t"
proof -
  show e: "encodes (AMap [(''type'', AStr ''text''), (''text'', AStr t)])" by (simp add: size_map)
  show "value_size (AMap [(''type'', AStr ''text''), (''text'', AStr t)]) = 23 + string_size t"
    using size_map(2) [OF e] by (simp add: member_size_def commas_def)
qed

lemma error_reply_size: "catalog_reply_size (error_response m) = Some (52 + string_size m)"
proof -
  have i: "encodes (AList [AMap [(''type'', AStr ''text''), (''text'', AStr m)]])"
    using text_item_size by (simp add: size_list)
  then have e: "encodes (AMap (error_result m))" by (simp add: size_map error_result_def)
  show ?thesis
    using size_map(2) [OF e] size_list(2) [OF i] e text_item_size(2)
    by (simp add: catalog_reply_size_def tool_result_error wire_size_value error_result_def member_size_def
        commas_def del: tree_of.simps)
qed

section \<open>Message replies\<close>

lemma message_fits_iff: "message_fits max_bytes m \<longleftrightarrow> 52 + string_size m \<le> max_bytes"
  by (simp add: message_fits_def error_reply_size)

lemma message_reply_shape: "\<exists>txt. message_reply max_bytes msg = error_response txt"
  by (auto simp: message_reply_def Let_def)

lemma message_reply_fits:
  assumes "54 \<le> max_bytes"
  shows "\<exists>n. catalog_reply_size (message_reply max_bytes msg) = Some n \<and> n \<le> max_bytes"
proof -
  have e: "message_fits max_bytes []" using assms by (simp add: message_fits_iff string_size_def)
  have "\<exists>txt. message_reply max_bytes msg = error_response txt \<and> message_fits max_bytes txt"
    using e by (auto simp: message_reply_def Let_def catalog_clip_def string_of_runes_def)
  then show ?thesis by (auto simp: error_reply_size message_fits_iff)
qed

text \<open>What is kept of a message that is too long: as many characters as the limit carries.\<close>

lemma take_runes_size:
  assumes "list_all scalar rs" "m \<le> n"
  shows "string_size (string_of_runes (take m rs) @ t) \<le> string_size (string_of_runes (take n rs) @ t)"
proof -
  have s: "string_text (string_of_runes (take k rs) @ t) = concat (map rune_text (take k rs)) @ string_text t" for k
    by (rule string_text_runes) (use assms(1) in \<open>auto simp: list_all_iff dest: in_set_takeD\<close>)
  have "take n rs = take m rs @ drop m (take n rs)" using assms(2) by (metis append_take_drop_id min.absorb1 take_take)
  then have "length (concat (map rune_text (take m rs))) \<le> length (concat (map rune_text (take n rs)))"
    by (metis concat_append le_add1 length_append map_append)
  then show ?thesis by (simp add: string_size_def s)
qed

lemma clip_size:
  assumes "list_all scalar rs" "m \<le> n" "n < length rs"
  shows "string_size (catalog_clip rs m) \<le> string_size (catalog_clip rs n)"
  using take_runes_size [OF assms(1,2)] assms(2,3) by (simp add: catalog_clip_def)

text \<open>A size that grows with the text: the bisection settles on the longest clip that fits.\<close>

lemma clip_longest:
  assumes rs: "list_all scalar rs" and whole: "\<not> fits (catalog_clip rs (length rs))"
    and mono: "\<And>a b. string_size a \<le> string_size b \<Longrightarrow> fits b \<Longrightarrow> fits a"
    and n: "n = catalog_longest_fit (length rs) (\<lambda>k. fits (catalog_clip rs k))"
  shows "n \<le> length rs" "0 < n \<Longrightarrow> fits (catalog_clip rs n)"
    "n < k \<Longrightarrow> k \<le> length rs \<Longrightarrow> \<not> fits (catalog_clip rs k)"
proof -
  have "fits (catalog_clip rs a)" if "a \<le> b" "b \<le> length rs" "fits (catalog_clip rs b)" for a b
  proof -
    from that whole have "b < length rs" by (cases "b = length rs") auto
    with that show ?thesis using mono clip_size [OF rs] by blast
  qed
  with longest_fit_between [of 0 "length rs" "\<lambda>k. fits (catalog_clip rs k)"]
  show "n \<le> length rs" "0 < n \<Longrightarrow> fits (catalog_clip rs n)"
    "n < k \<Longrightarrow> k \<le> length rs \<Longrightarrow> \<not> fits (catalog_clip rs k)"
    unfolding n catalog_longest_fit_def by blast+
qed

end
