(* ===== verification/Catalog_Batch.thy ===== *)
theory Catalog_Batch
  imports Catalog_Size
begin

text \<open>
  What an \<open>execute_tools\<close> batch replies (\<open>server/tool_catalog.go\<close>): the outcome of a call split into its
  channels, the report, and the reply rendered from them and measured on a copy with placeholders.
  The measure is exact (\<open>render_measured\<close>); a reply that reports a call whose result cannot be
  carried is held to the limit (\<open>fail_reply_ok\<close>).
\<close>

section \<open>The outcome of a call\<close>

record batch_entry =
  be_index :: nat
  be_name :: bytes
  be_error :: bool
  be_content :: "members list"
  be_structured :: members
  be_meta :: members
  be_sizes :: "int list"
  be_meta_size :: int
  be_unencodable :: bool

definition map_size :: "members \<Rightarrow> int" where
  "map_size ms = (case catalog_wire_size (tree_of (AMap ms)) of Some n \<Rightarrow> n | None \<Rightarrow> 0)"

definition objects_of :: "any list \<Rightarrow> members list" where
  "objects_of vs = concat (map (\<lambda>v. case v of AMap ms \<Rightarrow> [ms] | _ \<Rightarrow> []) vs)"

definition object_at :: "members \<Rightarrow> bytes \<Rightarrow> members" where
  "object_at ms k = (case map_of ms k of Some (AMap m) \<Rightarrow> m | _ \<Rightarrow> [])"

definition batch_entry_for :: "nat \<Rightarrow> bytes \<Rightarrow> members \<Rightarrow> batch_entry" where
  "batch_entry_for i name result =
     (let shapes = objects_of (case map_of result ''content'' of Some (AList vs) \<Rightarrow> vs | _ \<Rightarrow> []);
          meta = object_at result ''_meta''
      in \<lparr>be_index = i, be_name = name,
          be_error = (map_of result ''isError'' = Some (ABool True)),
          be_content = shapes, be_structured = object_at result ''structuredContent'', be_meta = meta,
          be_sizes = map map_size shapes,
          be_meta_size = (if meta \<noteq> [] then map_size meta else 0),
          be_unencodable = (\<not> list_all (encodes \<circ> AMap) shapes \<or> meta \<noteq> [] \<and> \<not> encodes (AMap meta))\<rparr>)"

text \<open>Content forwarded as it is, and what stands in for it in the copy that is measured.\<close>

definition catalog_content :: "members \<Rightarrow> content" where
  "catalog_content shape = OtherContent (Some shape) None (\<lambda>uri mime. None)"

definition catalog_placeholder :: content where
  "catalog_placeholder = OtherContent (Some []) None (\<lambda>uri mime. None)"

definition catalog_placeholder_size :: int where
  "catalog_placeholder_size = int (length ''{}'')"

section \<open>The report\<close>

record execute_report =
  er_ok :: bool
  er_error :: "(bytes \<times> bytes) option"
  er_omitted :: "(bytes \<times> nat) option"
  er_requested :: nat
  er_attempted :: nat

definition array_tree :: "json option list \<Rightarrow> json option" where
  "array_tree ts = (if None \<in> set ts then None else Some (JArr (map (\<lambda>t. ([], the t)) ts)))"

definition limit_error_tree :: "bytes \<times> bytes \<Rightarrow> json option" where
  "limit_error_tree e = struct_tree
     [field ''kind'' (wire_tree (AStr (fst e))), field ''message'' (wire_tree (AStr (snd e)))]"

definition omitted_tree :: "bytes \<times> nat \<Rightarrow> json option" where
  "omitted_tree o1 = struct_tree
     [field ''name'' (wire_tree (AStr (fst o1))), field ''index'' (wire_tree (AInt (int (snd o1))))]"

definition record_tree :: "batch_entry \<Rightarrow> json option" where
  "record_tree e = struct_tree
     [field ''name'' (wire_tree (AStr (be_name e))), field ''index'' (wire_tree (AInt (int (be_index e)))),
      field ''isError'' (wire_tree (ABool (be_error e))),
      field ''contentItems'' (wire_tree (AInt (int (length (be_content e))))),
      omit_empty (be_structured e = []) (field ''structuredContent'' (wire_tree (AMap (be_structured e))))]"

definition report_complete :: "execute_report \<Rightarrow> batch_entry list \<Rightarrow> bool" where
  "report_complete rep kept = (er_attempted rep = er_requested rep \<and> length kept = er_attempted rep)"

definition report_tree :: "execute_report \<Rightarrow> batch_entry list \<Rightarrow> json option" where
  "report_tree rep kept = struct_tree
     [field ''ok'' (wire_tree (ABool (er_ok rep))),
      field ''complete'' (wire_tree (ABool (report_complete rep kept))),
      (case er_error rep of None \<Rightarrow> Some [] | Some e \<Rightarrow> field ''error'' (limit_error_tree e)),
      field ''results'' (array_tree (map record_tree kept)),
      (case er_omitted rep of None \<Rightarrow> Some [] | Some o1 \<Rightarrow> field ''omittedToolCall'' (omitted_tree o1)),
      field ''requestedToolCalls'' (wire_tree (AInt (int (er_requested rep)))),
      field ''attemptedToolCalls'' (wire_tree (AInt (int (er_attempted rep)))),
      field ''reportedToolCalls'' (wire_tree (AInt (int (length kept))))]"

section \<open>Rendering\<close>

text \<open>\<open>catalogBatchMeta\<close>, with placeholders or without.\<close>

definition batch_meta :: "batch_entry list \<Rightarrow> bool \<Rightarrow> members option" where
  "batch_meta kept placeholders =
     (let results = map (\<lambda>e. AMap [(''index'', AInt (int (be_index e))), (''name'', AStr (be_name e)),
                                   (''meta'', AMap (if placeholders then [] else be_meta e))])
                      (filter (\<lambda>e. be_meta e \<noteq> []) kept)
      in if results = [] then None else Some [(''results'', AList results)])"

definition reply_of :: "bool \<Rightarrow> content list \<Rightarrow> members option \<Rightarrow> response" where
  "reply_of ok items meta =
     (let resp = new_response items;
          resp1 = (case meta of None \<Rightarrow> resp | Some m \<Rightarrow> resp\<lparr>rp_meta := put catalog_meta_key (AMap m) (rp_meta resp)\<rparr>)
      in if ok then resp1 else as_error resp1)"

definition forwarded :: "batch_entry list \<Rightarrow> members list" where
  "forwarded kept = concat (map be_content kept)"

definition held_back :: "batch_entry \<Rightarrow> int" where
  "held_back e = sum_list (map (\<lambda>n. n - catalog_placeholder_size) (be_sizes e))
     + (if be_meta e \<noteq> [] then be_meta_size e - catalog_placeholder_size else 0)"

definition batch_render :: "execute_report \<Rightarrow> batch_entry list \<Rightarrow> (response \<times> int) option" where
  "batch_render rep kept =
     (if list_ex be_unencodable kept then None
      else case catalog_encode (report_tree rep kept) of
        None \<Rightarrow> None
      | Some txt \<Rightarrow>
          (let resp = reply_of (er_ok rep) (new_text txt # map catalog_content (forwarded kept)) (batch_meta kept False);
               stand_in = reply_of (er_ok rep) (new_text txt # map (\<lambda>s. catalog_placeholder) (forwarded kept))
                            (batch_meta kept True)
           in map_option (\<lambda>n. (resp, n + sum_list (map held_back kept))) (catalog_reply_size stand_in)))"

text \<open>\<open>report\<close> of a batch that has run these entries.\<close>

definition batch_report :: "nat \<Rightarrow> batch_entry list \<Rightarrow> bool \<Rightarrow> execute_report" where
  "batch_report requested entries ok =
     \<lparr>er_ok = ok, er_error = None, er_omitted = None, er_requested = requested, er_attempted = length entries\<rparr>"

section \<open>A call whose result cannot be carried\<close>

definition worst_failure :: "int \<Rightarrow> bytes \<times> bytes" where
  "worst_failure max_bytes =
     (let limit = limit_message max_bytes
      in if length catalog_kind_output_limit + length limit
              \<le> length catalog_kind_encode_failure + length catalog_encode_failure_message
         then (catalog_kind_encode_failure, catalog_encode_failure_message)
         else (catalog_kind_output_limit, limit))"

text \<open>The report with the omitted call renamed; a reply, and whether it fits.\<close>

definition fail_report :: "nat \<Rightarrow> bytes \<Rightarrow> bytes \<Rightarrow> bytes \<Rightarrow> nat \<Rightarrow> execute_report" where
  "fail_report requested kind message called i =
     \<lparr>er_ok = False, er_error = Some (kind, message), er_omitted = Some (called, i), er_requested = requested,
      er_attempted = i + 1\<rparr>"

definition fail_build ::
  "int \<Rightarrow> nat \<Rightarrow> batch_entry list \<Rightarrow> bytes \<Rightarrow> bytes \<Rightarrow> nat \<Rightarrow> bytes \<Rightarrow> response option \<times> bool" where
  "fail_build max_bytes requested entries kind message i called =
     (case batch_render (fail_report requested kind message called i) entries of
        None \<Rightarrow> (None, False)
      | Some (resp, n) \<Rightarrow> (Some resp, n \<le> max_bytes))"

definition fail_reply ::
  "int \<Rightarrow> nat \<Rightarrow> batch_entry list \<Rightarrow> bytes \<Rightarrow> bytes \<Rightarrow> bytes \<Rightarrow> nat \<Rightarrow> response option \<times> bool" where
  "fail_reply max_bytes requested entries kind message name i =
     (let build = fail_build max_bytes requested entries kind message i
      in if snd (build name) then build name
         else
           let rs = runes_of name;
               kept = catalog_longest_fit (length rs) (\<lambda>n. snd (build (catalog_clip rs n)));
               r = build (catalog_clip rs kept)
           in if snd r \<or> rs = [] then r else build [])"

definition can_report :: "int \<Rightarrow> nat \<Rightarrow> batch_entry list \<Rightarrow> bytes \<Rightarrow> nat \<Rightarrow> bool" where
  "can_report max_bytes requested entries name i =
     (case worst_failure max_bytes of (kind, message) \<Rightarrow>
        snd (fail_reply max_bytes requested entries kind message name i))"

section \<open>The measure is exact\<close>

lemma put_fresh: "map_of ms k = None \<Longrightarrow> put k v ms = ms @ [(k, v)]"
  unfolding put_def by (induction ms) (auto split: if_splits)

text \<open>The size of a reply from its items and its metadata.\<close>

lemma reply_size:
  assumes items: "map to_tool (rp_items r) = map Some ss" and st: "rp_structured r = []"
  shows "catalog_reply_size r =
    (if list_all (encodes \<circ> AMap) ss \<and> (rp_meta r \<noteq> [] \<longrightarrow> encodes (AMap (rp_meta r)))
     then Some (25 + (if rp_is_error r then 4 else 5) + sum_list (map (value_size \<circ> AMap) ss) + commas (length ss)
       + (if rp_meta r \<noteq> [] then 9 + value_size (AMap (rp_meta r)) else 0))
     else None)"
proof -
  have all: "list_all (\<lambda>c. to_tool c \<noteq> None) (rp_items r)"
    using items by (auto simp: list_all_length list_eq_iff_nth_eq)
  have l: "map (\<lambda>c. AMap (the (to_tool c))) (rp_items r) = map AMap ss"
    using items by (auto simp: list_eq_iff_nth_eq)
  define base where "base = [(''content'', AList (map AMap ss)), (''isError'', ABool (rp_is_error r))]"
  define meta where "meta = (if rp_meta r \<noteq> [] then [(''_meta'', AMap (rp_meta r))] else [])"
  have res: "tool_result (Some r) = Some (base @ meta)"
    using all l st unfolding tool_result_cases
    by (auto simp: response_items_def response_is_error_def response_merge_meta_def Let_def put_if_def has_key_def
        base_def meta_def put_fresh)
  have le: "encodes (AList (map AMap ss)) \<longleftrightarrow> list_all (encodes \<circ> AMap) ss"
    by (simp add: size_list list_all_iff)
  have e: "encodes (AMap (base @ meta)) \<longleftrightarrow> list_all (encodes \<circ> AMap) ss \<and> (rp_meta r \<noteq> [] \<longrightarrow> encodes (AMap (rp_meta r)))"
    unfolding size_map(1) [of "base @ meta"] using le by (auto simp: base_def meta_def)
  show ?thesis
  proof (cases "encodes (AMap (base @ meta))")
    case True
    then have "value_size (AList (map AMap ss)) = 2 + sum_list (map (value_size \<circ> AMap) ss) + commas (length ss)"
      using size_list(2) [of "map AMap ss"] le e by (simp add: comp_def)
    with size_map(2) [OF True] have "value_size (AMap (base @ meta)) =
        25 + (if rp_is_error r then 4 else 5) + sum_list (map (value_size \<circ> AMap) ss) + commas (length ss)
        + (if rp_meta r \<noteq> [] then 9 + value_size (AMap (rp_meta r)) else 0)"
      by (auto simp: base_def meta_def member_size_def commas_def)
    with True e show ?thesis by (simp add: catalog_reply_size_def res wire_size_value del: tree_of.simps)
  qed (use e in \<open>simp add: catalog_reply_size_def res wire_size_value del: tree_of.simps\<close>)
qed

text \<open>An entry whose parts were measured when it was built.\<close>

definition measured :: "batch_entry \<Rightarrow> bool" where
  "measured e \<longleftrightarrow> be_sizes e = map map_size (be_content e)
     \<and> (be_meta e \<noteq> [] \<longrightarrow> be_meta_size e = map_size (be_meta e))
     \<and> be_unencodable e = (\<not> list_all (encodes \<circ> AMap) (be_content e) \<or> be_meta e \<noteq> [] \<and> \<not> encodes (AMap (be_meta e)))"

lemma batch_entry_measured: "measured (batch_entry_for i name result)"
  by (simp add: measured_def batch_entry_for_def Let_def)

lemma map_size_value: "encodes (AMap ms) \<Longrightarrow> map_size ms = value_size (AMap ms)"
  by (simp add: map_size_def wire_size_value del: tree_of.simps)

lemma empty_map_size [simp]: "encodes (AMap [])" "value_size (AMap []) = 2"
  using size_map [of "[]"] by (simp_all add: commas_def)

lemma reply_of_simps:
  "rp_items (reply_of ok items meta) = items" "rp_structured (reply_of ok items meta) = []"
  "rp_is_error (reply_of ok items meta) = (\<not> ok)"
  "rp_meta (reply_of ok items meta) = (case meta of None \<Rightarrow> [] | Some m \<Rightarrow> [(catalog_meta_key, AMap m)])"
  by (auto simp: reply_of_def new_response_def as_error_def put_def Let_def split: option.splits)

definition text_shape :: "bytes \<Rightarrow> members" where
  "text_shape t = [(''type'', AStr ''text''), (''text'', AStr t)]"

lemma catalog_shapes [simp]: "to_tool (catalog_content s) = Some s" "to_tool catalog_placeholder = Some []"
  by (simp_all add: catalog_content_def catalog_placeholder_def to_tool_def)

lemma reply_shapes:
  "map to_tool (new_text t # map catalog_content ss) = map Some (text_shape t # ss)"
  "map to_tool (new_text t # map (\<lambda>s. catalog_placeholder) ss) = map Some (text_shape t # map (\<lambda>s. []) ss)"
  by (simp_all add: error_response_shape text_shape_def comp_def)

text \<open>The metadata a reply carries: its size over the metadata of the calls.\<close>

definition with_meta :: "batch_entry list \<Rightarrow> batch_entry list" where
  "with_meta kept = filter (\<lambda>e. be_meta e \<noteq> []) kept"

definition meta_item :: "bool \<Rightarrow> batch_entry \<Rightarrow> any" where
  "meta_item placeholders e = AMap [(''index'', AInt (int (be_index e))), (''name'', AStr (be_name e)),
     (''meta'', AMap (if placeholders then [] else be_meta e))]"

lemma batch_meta_eq:
  "batch_meta kept b = (if with_meta kept = [] then None else Some [(''results'', AList (map (meta_item b) (with_meta kept)))])"
  by (simp add: batch_meta_def with_meta_def meta_item_def [abs_def] Let_def)

lemma meta_item_size:
  "encodes (meta_item b e) \<longleftrightarrow> b \<or> encodes (AMap (be_meta e))"
  "encodes (meta_item b e) \<Longrightarrow> value_size (meta_item b e)
     = 26 + int (length (int_to_dec (int (be_index e)))) + string_size (be_name e)
       + (if b then 2 else value_size (AMap (be_meta e)))"
proof -
  show e: "encodes (meta_item b e) \<longleftrightarrow> b \<or> encodes (AMap (be_meta e))"
    using size_map(1) [of "[(''index'', AInt (int (be_index e))), (''name'', AStr (be_name e)),
      (''meta'', AMap (if b then [] else be_meta e))]"] by (simp add: meta_item_def)
  assume "encodes (meta_item b e)"
  from size_map(2) [OF this [unfolded meta_item_def]]
  show "value_size (meta_item b e) = 26 + int (length (int_to_dec (int (be_index e)))) + string_size (be_name e)
       + (if b then 2 else value_size (AMap (be_meta e)))"
    by (simp add: meta_item_def member_size_def commas_def)
qed

definition meta_part :: "bool \<Rightarrow> batch_entry list \<Rightarrow> members" where
  "meta_part b kept = (case batch_meta kept b of None \<Rightarrow> [] | Some m \<Rightarrow> [(catalog_meta_key, AMap m)])"

lemma meta_items_size:
  "list_all (\<lambda>e. encodes (AMap (be_meta e))) es \<Longrightarrow>
     sum_list (map (value_size \<circ> meta_item False) es) = sum_list (map (value_size \<circ> meta_item True) es)
       + sum_list (map (\<lambda>e. value_size (AMap (be_meta e)) - 2) es)"
  by (induction es) (auto simp: meta_item_size)

lemma meta_part_size:
  assumes "list_all (\<lambda>e. encodes (AMap (be_meta e))) (with_meta kept)"
  shows "encodes (AMap (meta_part b kept))"
    "value_size (AMap (meta_part False kept)) = value_size (AMap (meta_part True kept))
      + sum_list (map (\<lambda>e. value_size (AMap (be_meta e)) - 2) (with_meta kept))"
proof -
  let ?items = "\<lambda>b. map (meta_item b) (with_meta kept)"
  have i: "list_all encodes (?items b)" for b
    using assms by (simp add: list_all_iff meta_item_size(1))
  have l: "encodes (AList (?items b))" for b using i by (simp add: size_list(1))
  have m: "encodes (AMap [(''results'', AList (?items b))])" for b using l by (simp add: size_map(1))
  have k: "encodes (AMap [(catalog_meta_key, AMap [(''results'', AList (?items b))])])" for b
    using m size_map(1) [of "[(catalog_meta_key, AMap [(''results'', AList (?items b))])]"] by simp
  show "encodes (AMap (meta_part b kept))" using k by (simp add: meta_part_def batch_meta_eq)
  note s = meta_items_size [OF assms]
  show "value_size (AMap (meta_part False kept)) = value_size (AMap (meta_part True kept))
      + sum_list (map (\<lambda>e. value_size (AMap (be_meta e)) - 2) (with_meta kept))"
    using s size_list(2) [OF l] size_map(2) [OF m] size_map(2) [OF k]
    by (simp add: meta_part_def batch_meta_eq member_size_def)
qed

text \<open>The measure of a rendered reply, without placeholders.\<close>

definition batch_reply :: "execute_report \<Rightarrow> batch_entry list \<Rightarrow> bytes \<Rightarrow> response" where
  "batch_reply rep kept txt =
     reply_of (er_ok rep) (new_text txt # map catalog_content (forwarded kept)) (batch_meta kept False)"

definition base_size :: "bool \<Rightarrow> bytes \<Rightarrow> batch_entry list \<Rightarrow> int" where
  "base_size ok txt kept = 25 + (if ok then 5 else 4) + value_size (AMap (text_shape txt))
     + commas (Suc (length (forwarded kept)))"

lemma meta_reply: "rp_meta (reply_of ok items (batch_meta kept b)) = meta_part b kept"
  by (simp add: reply_of_simps meta_part_def)

lemma meta_part_empty: "meta_part b kept = [] \<longleftrightarrow> with_meta kept = []"
  by (simp add: meta_part_def batch_meta_eq)

lemma encodable_entries:
  assumes "list_all measured kept"
  shows "\<not> list_ex be_unencodable kept \<longleftrightarrow> list_all (encodes \<circ> AMap) (forwarded kept)
    \<and> list_all (\<lambda>e. encodes (AMap (be_meta e))) (with_meta kept)"
  using assms by (induction kept) (auto simp: measured_def forwarded_def with_meta_def)

lemma held_back_sum:
  assumes "list_all measured kept" "\<not> list_ex be_unencodable kept"
  shows "sum_list (map held_back kept) = sum_list (map (value_size \<circ> AMap) (forwarded kept))
      - 2 * int (length (forwarded kept))
      + sum_list (map (\<lambda>e. value_size (AMap (be_meta e)) - 2) (with_meta kept))"
  using assms
proof (induction kept)
  case (Cons e kept)
  then have e: "measured e" "list_all (encodes \<circ> AMap) (be_content e)" "be_meta e \<noteq> [] \<Longrightarrow> encodes (AMap (be_meta e))"
    by (auto simp: measured_def)
  have "sum_list (map (\<lambda>n. n - 2) (map map_size ss)) = sum_list (map (value_size \<circ> AMap) ss) - 2 * int (length ss)"
    if "list_all (encodes \<circ> AMap) ss" for ss
    using that by (induction ss) (auto simp: map_size_value)
  with e have "held_back e = sum_list (map (value_size \<circ> AMap) (be_content e)) - 2 * int (length (be_content e))
      + (if be_meta e \<noteq> [] then value_size (AMap (be_meta e)) - 2 else 0)"
    by (auto simp: held_back_def measured_def catalog_placeholder_size_def map_size_value)
  with Cons show ?case by (simp add: forwarded_def with_meta_def comp_def)
qed (simp add: forwarded_def with_meta_def)

lemma render_measured:
  assumes "list_all measured kept"
  shows "batch_render rep kept =
    (case catalog_encode (report_tree rep kept) of
       None \<Rightarrow> None
     | Some txt \<Rightarrow> map_option (\<lambda>n. (batch_reply rep kept txt, n)) (catalog_reply_size (batch_reply rep kept txt)))"
proof (cases "catalog_encode (report_tree rep kept)")
  case None
  then show ?thesis by (simp add: batch_render_def)
next
  case (Some body)
  note t = text_item_size [of body, folded text_shape_def]
  let ?real = "batch_reply rep kept body"
  let ?copy = "reply_of (er_ok rep) (new_text body # map (\<lambda>s. catalog_placeholder) (forwarded kept)) (batch_meta kept True)"
  have real: "catalog_reply_size ?real =
      (if list_all (encodes \<circ> AMap) (forwarded kept) \<and> (with_meta kept \<noteq> [] \<longrightarrow> encodes (AMap (meta_part False kept)))
       then Some (base_size (er_ok rep) body kept + sum_list (map (value_size \<circ> AMap) (forwarded kept))
         + (if with_meta kept \<noteq> [] then 9 + value_size (AMap (meta_part False kept)) else 0)) else None)"
    using reply_size [of ?real "text_shape body # forwarded kept"] reply_shapes(1) [of body "forwarded kept"] t
    by (simp add: batch_reply_def reply_of_simps(1,2,3) meta_reply meta_part_empty base_size_def)
  have copy: "catalog_reply_size ?copy =
      (if with_meta kept \<noteq> [] \<longrightarrow> encodes (AMap (meta_part True kept))
       then Some (base_size (er_ok rep) body kept + 2 * int (length (forwarded kept))
         + (if with_meta kept \<noteq> [] then 9 + value_size (AMap (meta_part True kept)) else 0)) else None)"
    using reply_size [of ?copy "text_shape body # map (\<lambda>s. []) (forwarded kept)"] reply_shapes(2) [of body "forwarded kept"] t
    by (simp add: reply_of_simps(1,2,3) meta_reply meta_part_empty base_size_def comp_def list_all_iff
        sum_list_triv)
  show ?thesis
  proof (cases "list_ex be_unencodable kept")
    case True
    have "\<not> encodes (AMap (meta_part False kept))" if "\<not> list_all (\<lambda>e. encodes (AMap (be_meta e))) (with_meta kept)"
    proof -
      have "\<not> list_all encodes (map (meta_item False) (with_meta kept))"
        using that by (simp add: list_all_iff meta_item_size(1))
      moreover have "with_meta kept \<noteq> []" using that by auto
      ultimately show ?thesis by (simp add: meta_part_def batch_meta_eq size_map(1) size_list(1))
    qed
    then have "catalog_reply_size ?real = None"
      using True encodable_entries [OF assms] real by auto
    with True Some show ?thesis by (simp add: batch_render_def)
  next
    case False
    note enc = encodable_entries [OF assms] False held_back_sum [OF assms False]
    note m = meta_part_size [of kept]
    show ?thesis using Some False enc m copy real
      by (simp add: batch_render_def Let_def batch_reply_def)
  qed
qed

section \<open>Text inside text\<close>

text \<open>A string splits where an ASCII character stands, whatever is around it.\<close>

lemma quote_body_split: "byte c < 128 \<Longrightarrow> quote_body (a @ c # b) = quote_body a @ quote_body (c # b)"
proof (induction a rule: length_induct)
  case (1 a)
  note ih = "1.IH" [rule_format, OF _ "1.prems"]
  show ?case
  proof (cases a)
    case (Cons d r)
    show ?thesis
    proof (cases "byte d < 128")
      case True
      then show ?thesis using ih [of r] Cons by simp
    next
      case False
      show ?thesis
      proof (cases "decode_rune (d # r)")
        case (Some xn)
        then obtain x n where x: "decode_rune (d # r) = Some (x, n)" by (cases xn) auto
        note w = decode_rune_width [OF x]
        have y: "decode_rune (d # r @ c # b) = Some (x, n)"
          by (rule decode_rune_ext [OF x]) (use w(2) in \<open>simp add: take_Cons'\<close>)
        have "drop n (d # r @ c # b) = drop n (d # r) @ c # b" "take n (d # r @ c # b) = take n (d # r)"
          using w(2) drop_append [of n "d # r" "c # b"] take_append [of n "d # r" "c # b"] by simp_all
        moreover have "length (drop n (d # r)) < length a" using w(1) Cons by simp
        ultimately show ?thesis
          using ih [of "drop n (d # r)"] Cons False x y w(1)
          by (simp add: quote_body_high max_def)
      next
        case None
        have "decode_rune (d # r @ c # b) = None"
        proof (rule ccontr)
          assume "\<not> ?thesis"
          then obtain x n where y: "decode_rune (d # r @ c # b) = Some (x, n)" by auto
          note w = decode_rune_width [OF y]
          have "n - 1 \<le> length r"
          proof (rule ccontr)
            assume "\<not> ?thesis"
            then have "c \<in> set (take (n - 1) (r @ c # b))" by (auto simp: take_Cons')
            then have "cont_byte (byte c)" using w(4) by simp
            then show False using "1.prems" by (simp add: cont_byte_def)
          qed
          then have "take n (d # r) = take n (d # r @ c # b)" using w(1) by (cases n) auto
          from decode_rune_ext [OF y this] None show False by simp
        qed
        then show ?thesis using ih [of r] Cons False None by (simp add: quote_body_high)
      qed
    qed
  qed simp
qed

lemma html_escape_split: "byte c < 128 \<Longrightarrow> html_escape (a @ c # b) = html_escape a @ html_escape (c # b)"
proof (induction a rule: length_induct)
  case (1 a)
  note ih = "1.IH" [rule_format, OF _ "1.prems"]
  have c: "c \<noteq> CHR 0x80" "c \<noteq> CHR 0xA8" "c \<noteq> CHR 0xA9" using "1.prems" by auto
  show ?case
  proof (cases a)
    case (Cons d r)
    consider (html) "html_char d" | (ls) "ls_ps (d # r)" | (plain) "\<not> html_char d" "\<not> ls_ps (d # r)" by blast
    then show ?thesis
    proof cases
      case html
      then show ?thesis using ih [of r] Cons by simp
    next
      case ls
      then obtain e u where e: "d # r = CHR 0xE2 # CHR 0x80 # e # u" "e = CHR 0xA8 \<or> e = CHR 0xA9"
        by (rule ls_ps_cases)
      then show ?thesis using ih [of u] Cons html_escape_ls_ps [OF e(2)] by simp
    next
      case plain
      then have "\<not> ls_ps (d # r @ c # b)"
        using c by (auto simp: ls_ps_def has_prefix_iff append_eq_Cons_conv Cons_eq_append_conv)
      then show ?thesis using ih [of r] Cons plain by (simp add: html_escape_plain)
    qed
  qed simp
qed

definition embedded :: "bytes \<Rightarrow> int" where
  "embedded s = int (length (string_text s))"

lemma embedded_quote: "embedded (a @ quote_char # b) = embedded a + 2 + embedded b"
proof -
  have q: "byte quote_char < 128" "quote_ascii quote_char = [backslash, quote_char]"
    by (simp_all add: quote_ascii_def)
  have h: "quote_body (quote_char # b) = backslash # quote_char # quote_body b" using q by simp
  have "html_escape (quote_body a @ backslash # quote_char # quote_body b)
      = html_escape (quote_body a) @ html_escape (backslash # quote_char # quote_body b)"
    by (rule html_escape_split) simp
  also have "html_escape (backslash # quote_char # quote_body b) = backslash # quote_char # html_escape (quote_body b)"
    using html_escape_pair [of quote_char "quote_body b"] by (simp add: html_char_def)
  finally show ?thesis
    using quote_body_split [OF q(1), of a b] h by (simp add: embedded_def string_text_def)
qed

lemma embedded_plain: "plain_name s \<Longrightarrow> embedded s = int (length s)"
  by (simp add: embedded_def string_text_def plain_name)

lemma string_size_embedded: "string_size s = 2 + embedded s"
  by (simp add: string_size_def embedded_def)

lemma embedded_nonneg: "0 \<le> embedded s" "embedded [] = 0"
  by (simp_all add: embedded_def)

section \<open>The report of an omitted call\<close>

definition bool_text :: "bool \<Rightarrow> bytes" where
  "bool_text b = (if b then ''true'' else ''false'')"

lemma fail_text:
  "catalog_encode (report_tree (fail_report requested kind message called i) kept) =
     map_option (\<lambda>v. ''{\"ok\":false,\"complete\":'' @ bool_text (i + 1 = requested \<and> length kept = i + 1)
       @ '',\"error\":{\"kind\":'' @ quote_char # wire_body kind @ quote_char # '',\"message\":''
       @ quote_char # wire_body message @ quote_char # ''},\"results\":'' @ wire_json v
       @ '',\"omittedToolCall\":{\"name\":'' @ quote_char # wire_body called @ quote_char # '',\"index\":''
       @ int_to_dec (int i) @ ''},\"requestedToolCalls\":'' @ int_to_dec (int requested)
       @ '',\"attemptedToolCalls\":'' @ int_to_dec (int (Suc i)) @ '',\"reportedToolCalls\":''
       @ int_to_dec (int (length kept)) @ ''}'')
     (array_tree (map record_tree kept))"
  by (cases "array_tree (map record_tree kept)")
    (simp_all add: report_tree_def fail_report_def limit_error_tree_def omitted_tree_def report_complete_def
      field_def catalog_encode_def quoted_def bool_text_def)

lemma embedded_field: "embedded (a @ quote_char # s @ quote_char # b) = embedded a + embedded s + embedded b + 4"
  by (simp add: embedded_quote)

text \<open>Whether the results held can be carried, and what they cost beside the report.\<close>

definition carried :: "batch_entry list \<Rightarrow> bool" where
  "carried kept \<longleftrightarrow> list_all (encodes \<circ> AMap) (forwarded kept)
     \<and> (with_meta kept \<noteq> [] \<longrightarrow> encodes (AMap (meta_part False kept)))"

definition carried_size :: "bool \<Rightarrow> batch_entry list \<Rightarrow> int" where
  "carried_size ok kept = 50 + (if ok then 5 else 4) + commas (Suc (length (forwarded kept)))
     + sum_list (map (value_size \<circ> AMap) (forwarded kept))
     + (if with_meta kept \<noteq> [] then 9 + value_size (AMap (meta_part False kept)) else 0)"

lemma batch_reply_size:
  "catalog_reply_size (batch_reply rep kept body) =
     (if carried kept then Some (carried_size (er_ok rep) kept + embedded body) else None)"
  using reply_size [of "batch_reply rep kept body" "text_shape body # forwarded kept"]
    reply_shapes(1) [of body "forwarded kept"] text_item_size [of body, folded text_shape_def]
  by (simp add: batch_reply_def reply_of_simps(1,2,3) meta_reply meta_part_empty carried_def carried_size_def
      string_size_embedded)

lemma render_size:
  assumes "list_all measured kept"
  shows "batch_render rep kept =
    (case catalog_encode (report_tree rep kept) of
       None \<Rightarrow> None
     | Some body \<Rightarrow>
         if carried kept then Some (batch_reply rep kept body, carried_size (er_ok rep) kept + embedded body) else None)"
  using render_measured [OF assms, of rep] by (simp add: batch_reply_size split: option.split)

text \<open>The report of a failure without the three strings it is made with.\<close>

definition fail_parts :: "nat \<Rightarrow> batch_entry list \<Rightarrow> nat \<Rightarrow> json \<Rightarrow> bytes list" where
  "fail_parts requested kept i v =
     [''{\"ok\":false,\"complete\":'' @ bool_text (i + 1 = requested \<and> length kept = i + 1) @ '',\"error\":{\"kind\":'',
      '',\"message\":'', ''},\"results\":'' @ wire_json v @ '',\"omittedToolCall\":{\"name\":'',
      '',\"index\":'' @ int_to_dec (int i) @ ''},\"requestedToolCalls\":'' @ int_to_dec (int requested)
       @ '',\"attemptedToolCalls\":'' @ int_to_dec (int (Suc i)) @ '',\"reportedToolCalls\":''
       @ int_to_dec (int (length kept)) @ ''}'']"

definition fail_size :: "nat \<Rightarrow> batch_entry list \<Rightarrow> nat \<Rightarrow> json \<Rightarrow> int" where
  "fail_size requested kept i v = carried_size False kept + 12 + sum_list (map embedded (fail_parts requested kept i v))"

lemma fail_build_ok:
  assumes "list_all measured kept"
  shows "snd (fail_build max_bytes requested kept kind message i called) \<longleftrightarrow>
    (\<exists>v. array_tree (map record_tree kept) = Some v \<and> carried kept
      \<and> fail_size requested kept i v + embedded (wire_body kind) + embedded (wire_body message)
          + embedded (wire_body called) \<le> max_bytes)"
proof (cases "array_tree (map record_tree kept)")
  case None
  then show ?thesis by (simp add: fail_build_def render_size [OF assms] fail_text)
next
  case (Some v)
  let ?p = "fail_parts requested kept i v"
  let ?t = "?p ! 0 @ quote_char # wire_body kind @ quote_char # ?p ! 1 @ quote_char # wire_body message @ quote_char # ?p ! 2
    @ quote_char # wire_body called @ quote_char # ?p ! 3"
  have t: "catalog_encode (report_tree (fail_report requested kind message called i) kept) = Some ?t"
    using Some by (simp add: fail_text fail_parts_def)
  have "embedded ?t = embedded (?p ! 0) + embedded (wire_body kind) + (embedded (?p ! 1) + embedded (wire_body message)
      + (embedded (?p ! 2) + embedded (wire_body called) + embedded (?p ! 3) + 4) + 4) + 4"
    by (simp only: embedded_field)
  moreover have "sum_list (map embedded ?p) = embedded (?p ! 0) + embedded (?p ! 1) + embedded (?p ! 2) + embedded (?p ! 3)"
    by (simp add: fail_parts_def)
  ultimately have e: "carried_size False kept + embedded ?t = fail_size requested kept i v + embedded (wire_body kind)
      + embedded (wire_body message) + embedded (wire_body called)"
    by (simp add: fail_size_def)
  have o1: "er_ok (fail_report requested kind message called i) = False" by (simp add: fail_report_def)
  have "fail_build max_bytes requested kept kind message i called =
      (if carried kept then (Some (batch_reply (fail_report requested kind message called i) kept ?t),
         carried_size False kept + embedded ?t \<le> max_bytes) else (None, False))"
    unfolding fail_build_def render_size [OF assms] t o1 by simp
  then show ?thesis unfolding e using Some by simp
qed

lemma fail_build_fits:
  assumes "list_all measured kept" "snd (fail_build max_bytes requested kept kind message i called)"
  obtains resp n where "fst (fail_build max_bytes requested kept kind message i called) = Some resp"
    "catalog_reply_size resp = Some n" "n \<le> max_bytes"
  using assms(2) that
  by (auto simp: fail_build_def render_measured [OF assms(1)] split: option.splits)

text \<open>A reply that fits is found exactly when the one without the name of the call fits.\<close>

lemma fail_reply_ok:
  assumes "list_all measured kept"
  shows "snd (fail_reply max_bytes requested kept kind message name i)
    \<longleftrightarrow> snd (fail_build max_bytes requested kept kind message i [])"
proof -
  have nil: "snd (fail_build max_bytes requested kept kind message i [])"
    if "snd (fail_build max_bytes requested kept kind message i called)" for called
    using that embedded_nonneg(1) [of "wire_body called"]
    by (auto simp: fail_build_ok [OF assms] embedded_nonneg(2))
  have "catalog_clip [] n = []" for n by (simp add: catalog_clip_def string_of_runes_def)
  then show ?thesis using nil by (auto simp: fail_reply_def Let_def)
qed

lemma fail_reply_built:
  "\<exists>called. fail_reply max_bytes requested kept kind message name i
     = fail_build max_bytes requested kept kind message i called"
  by (auto simp: fail_reply_def Let_def)

section \<open>Room for a failure is room for either\<close>

lemma plain_Cons:
  assumes "plain_name (c # s)"
  shows "byte c < 128" "quote_ascii c = [c]" "wire_ascii c = [c]" "plain_name s"
proof -
  have c: "32 \<le> byte c" "byte c < 128" "c \<noteq> quote_char" "c \<noteq> backslash" "\<not> html_char c"
    using assms by (simp_all add: plain_name_def html_char_def)
  show "byte c < 128" "plain_name s" using assms by (simp_all add: plain_name_def)
  show q: "quote_ascii c = [c]" using c by (auto simp: quote_ascii_def)
  then show "wire_ascii c = [c]" by (simp add: wire_ascii_def)
qed

lemma wire_body_plain: "plain_name s \<Longrightarrow> wire_body s = s"
proof (induction s)
  case (Cons c s)
  from plain_Cons [OF Cons.prems] Cons.IH show ?case by simp
qed simp

lemma embedded_wire_plain: "plain_name s \<Longrightarrow> embedded (wire_body s) = int (length s)"
  by (simp add: wire_body_plain embedded_plain)

lemma dec_plain: "plain_name (int_to_dec (int n))"
proof -
  have "32 \<le> byte c \<and> byte c < 128 \<and> c \<noteq> quote_char \<and> c \<noteq> backslash \<and> \<not> html_char c" if "is_digit c" for c
    using that by (auto simp: is_digit_def html_char_def)
  then show ?thesis using nat_to_dec_digits [of n]
    by (auto simp: plain_name_def int_to_dec_def list_all_iff html_char_def)
qed

lemma plain_parts: "plain_name (a @ b) \<longleftrightarrow> plain_name a \<and> plain_name b"
  by (simp add: plain_name_def)

lemma failure_texts_plain:
  "plain_name catalog_kind_output_limit" "plain_name catalog_kind_encode_failure"
  "plain_name catalog_encode_failure_message" "0 \<le> max_bytes \<Longrightarrow> plain_name (limit_message max_bytes)"
proof -
  show "plain_name catalog_kind_output_limit" "plain_name catalog_kind_encode_failure"
    "plain_name catalog_encode_failure_message"
    by code_simp+
  assume "0 \<le> max_bytes"
  then have "plain_name (int_to_dec max_bytes)" using dec_plain [of "nat max_bytes"] by simp
  then show "plain_name (limit_message max_bytes)"
    by (simp add: limit_message_def plain_parts) (simp add: plain_name_def)
qed

text \<open>The two failures a call can end in.\<close>

definition failures :: "int \<Rightarrow> (bytes \<times> bytes) set" where
  "failures max_bytes = {(catalog_kind_output_limit, limit_message max_bytes),
     (catalog_kind_encode_failure, catalog_encode_failure_message)}"

lemma worst_failure_worst:
  assumes "(kind, message) \<in> failures max_bytes"
  shows "length kind + length message \<le> length (fst (worst_failure max_bytes)) + length (snd (worst_failure max_bytes))"
  using assms by (auto simp: failures_def worst_failure_def Let_def)

lemma worst_failure_in: "worst_failure max_bytes \<in> failures max_bytes"
  by (auto simp: failures_def worst_failure_def Let_def)

lemma failures_cost:
  assumes "0 \<le> max_bytes" "(kind, message) \<in> failures max_bytes"
  shows "embedded (wire_body kind) + embedded (wire_body message) = int (length kind + length message)"
  using assms failure_texts_plain by (auto simp: failures_def embedded_wire_plain)

lemma can_report_ok:
  assumes "list_all measured kept" "0 \<le> max_bytes"
  shows "can_report max_bytes requested kept name i \<longleftrightarrow>
    (\<exists>v. array_tree (map record_tree kept) = Some v \<and> carried kept
      \<and> fail_size requested kept i v
          + int (length (fst (worst_failure max_bytes)) + length (snd (worst_failure max_bytes))) \<le> max_bytes)"
proof -
  obtain k m where w: "worst_failure max_bytes = (k, m)" by fastforce
  have "embedded (wire_body k) + embedded (wire_body m) = int (length k + length m)"
    by (rule failures_cost [OF assms(2)]) (use worst_failure_in [of max_bytes] w in simp)
  then have "x + embedded (wire_body k) + embedded (wire_body m) + 0 \<le> max_bytes
      \<longleftrightarrow> x + int (length k + length m) \<le> max_bytes" for x by linarith
  then show ?thesis
    by (simp add: can_report_def w fail_reply_ok [OF assms(1)] fail_build_ok [OF assms(1)] embedded_nonneg(2))
qed

lemma can_report_fails:
  assumes "list_all measured kept" "0 \<le> max_bytes" "can_report max_bytes requested kept name i"
    "(kind, message) \<in> failures max_bytes"
  obtains resp n where "fst (fail_reply max_bytes requested kept kind message name i) = Some resp"
    "catalog_reply_size resp = Some n" "n \<le> max_bytes"
proof -
  have "snd (fail_reply max_bytes requested kept kind message name i)"
    using assms(3) failures_cost [OF assms(2,4)] worst_failure_worst [OF assms(4)]
    by (auto simp: can_report_ok [OF assms(1,2)] fail_reply_ok [OF assms(1)] fail_build_ok [OF assms(1)] embedded_nonneg(2))
  then show thesis
    using fail_reply_built [of max_bytes requested kept kind message name i] fail_build_fits [OF assms(1)] that
    by metis
qed

section \<open>The empty batch\<close>

lemma embedded_append_plain:
  assumes "plain_name a" shows "embedded (a @ b) = int (length a) + embedded b"
  using assms
proof (induction a)
  case (Cons c a)
  from plain_Cons [OF Cons.prems] Cons.IH show ?case by (simp add: embedded_def)
qed simp

lemma length_dec: "n < 10 ^ d \<Longrightarrow> 0 < d \<Longrightarrow> length (nat_to_dec n) \<le> d"
proof (induction d arbitrary: n)
  case (Suc d)
  show ?case
  proof (cases "n < 10")
    case True
    then show ?thesis by (subst nat_to_dec.simps) simp
  next
    case False
    with Suc.prems have "0 < d" "n div 10 < 10 ^ d"
      by (auto simp: div_less_iff_less_mult intro: Nat.gr0I)
    then have "length (nat_to_dec (n div 10)) \<le> d" using Suc.IH by blast
    moreover have "length (nat_to_dec n) = Suc (length (nat_to_dec (n div 10)))"
      using False by (subst nat_to_dec.simps) simp
    ultimately show ?thesis by simp
  qed
qed simp


lemma embedded_ascii_append:
  "list_all (\<lambda>c. byte c < 128) a \<Longrightarrow> embedded (a @ b) = embedded a + embedded b"
  by (induction a) (auto simp: embedded_def)

lemma digits_embedded:
  assumes "n < 10 ^ d" "0 < d"
  shows "list_all (\<lambda>c. byte c < 128) (int_to_dec (int n))" "embedded (int_to_dec (int n)) \<le> int d"
proof -
  show "list_all (\<lambda>c. byte c < 128) (int_to_dec (int n))"
    using dec_plain [of n] by (simp add: plain_name_def list_all_iff)
  show "embedded (int_to_dec (int n)) \<le> int d"
    using dec_plain [of n] length_dec [OF assms] by (simp add: embedded_plain int_to_dec_def)
qed

lemma bool_text_embedded:
  "list_all (\<lambda>c. byte c < 128) (bool_text b)" "embedded (bool_text b) \<le> 5"
proof -
  have "embedded ''true'' = 4" "embedded ''false'' = 5" by code_simp+
  then show "list_all (\<lambda>c. byte c < 128) (bool_text b)" "embedded (bool_text b) \<le> 5"
    by (simp_all add: bool_text_def)
qed

lemma worst_failure_size:
  assumes "0 \<le> max_bytes" "max_bytes < 10 ^ 18"
  shows "length (fst (worst_failure max_bytes)) + length (snd (worst_failure max_bytes)) \<le> 70"
proof -
  have "length (nat_to_dec (nat max_bytes)) \<le> 18" by (rule length_dec) (use assms in auto)
  then show ?thesis using assms
    by (auto simp: worst_failure_def Let_def limit_message_def int_to_dec_def catalog_kind_output_limit_def
        catalog_kind_encode_failure_def catalog_encode_failure_message_def)
qed

text \<open>A server always answers for a batch that has run nothing, and can always run its first call.\<close>

text \<open>Text in which only quotes are escaped.\<close>

lemma embedded_quotes:
  "list_all (\<lambda>c. c = quote_char \<or> plain_name [c]) s \<Longrightarrow>
     embedded s = int (length s) + int (length (filter (\<lambda>c. c = quote_char) s)) \<and> list_all (\<lambda>c. byte c < 128) s"
proof (induction s)
  case (Cons c s)
  have "quote_ascii quote_char = [backslash, quote_char]" by (simp add: quote_ascii_def)
  then show ?case using Cons plain_Cons [of c "[]"] by (auto simp: embedded_def)
qed (simp add: embedded_def)

lemma zero_dec: "int_to_dec 0 = ''0''" "int_to_dec 1 = ''1''"
  by code_simp+

lemma empty_reply:
  assumes "requested < 10 ^ 18"
  shows "\<exists>resp n. batch_render (batch_report requested [] True) [] = Some (resp, n) \<and> n \<le> 512"
proof -
  let ?rep = "batch_report requested [] True"
  let ?c = "bool_text (requested = 0)"
  let ?body = "''{\"ok\":true,\"complete\":'' @ ?c @ '',\"results\":[],\"requestedToolCalls\":''
    @ int_to_dec (int requested) @ '',\"attemptedToolCalls\":0,\"reportedToolCalls\":0}''"
  have c: "carried []" by (simp add: carried_def forwarded_def with_meta_def)
  have t: "catalog_encode (report_tree ?rep []) = Some ?body"
    by (auto simp: report_tree_def batch_report_def report_complete_def field_def catalog_encode_def quoted_def
        bool_text_def array_tree_def zero_dec)
  have r: "batch_render ?rep [] = Some (batch_reply ?rep [] ?body, carried_size True [] + embedded ?body)"
  proof -
    have "list_all measured []" "er_ok ?rep" by (simp_all add: batch_report_def)
    then show ?thesis unfolding render_size [OF \<open>list_all measured []\<close>] t using c by (simp only: option.case if_True)
  qed
  have l: "embedded ''{\"ok\":true,\"complete\":'' = 26" "embedded '',\"results\":[],\"requestedToolCalls\":'' = 39"
    "embedded '',\"attemptedToolCalls\":0,\"reportedToolCalls\":0}'' = 50" by (simp_all add: embedded_quotes plain_name_def)
  have a: "list_all (\<lambda>c. byte c < 128) ''{\"ok\":true,\"complete\":''"
    "list_all (\<lambda>c. byte c < 128) '',\"results\":[],\"requestedToolCalls\":''" by simp_all
  note d = digits_embedded [OF assms zero_less_numeral]
  have "embedded ?body = 26 + embedded ?c + 39 + embedded (int_to_dec (int requested)) + 50"
    by (simp only: embedded_ascii_append [OF a(1)] embedded_ascii_append [OF bool_text_embedded(1)]
        embedded_ascii_append [OF a(2)] embedded_ascii_append [OF d(1)] l add.assoc)
  moreover have "carried_size True [] \<le> 55"
    by (simp add: carried_size_def forwarded_def with_meta_def commas_def)
  ultimately have "carried_size True [] + embedded ?body \<le> 512"
    using d(2) bool_text_embedded(2) [of "requested = 0"] by linarith
  with r show ?thesis by blast
qed

lemma first_call_reportable:
  assumes "512 \<le> max_bytes" "max_bytes < 10 ^ 18" "requested < 10 ^ 18"
  shows "can_report max_bytes requested [] name 0"
proof -
  let ?b = "bool_text (requested = 1 \<and> False)"
  have t: "array_tree (map record_tree []) = Some (JArr [])" by (simp add: array_tree_def)
  have c: "carried []" by (simp add: carried_def forwarded_def with_meta_def)
  have s: "carried_size False [] = 54"
    by (simp add: carried_size_def forwarded_def with_meta_def commas_def)
  note d = digits_embedded [OF assms(3) zero_less_numeral]
  have p0: "embedded (fail_parts requested [] 0 (JArr []) ! 0) = 53"
  proof -
    have "fail_parts requested [] 0 (JArr []) ! 0 = ''{\"ok\":false,\"complete\":false,\"error\":{\"kind\":''"
      by (simp add: fail_parts_def bool_text_def)
    moreover have "embedded ''{\"ok\":false,\"complete\":false,\"error\":{\"kind\":'' = 53" by (simp_all add: embedded_quotes plain_name_def)
    ultimately show ?thesis by simp
  qed
  have p1: "embedded (fail_parts requested [] 0 (JArr []) ! 1) = 13"
  proof -
    have "embedded '',\"message\":'' = 13" by (simp_all add: embedded_quotes plain_name_def)
    then show ?thesis by (simp add: fail_parts_def)
  qed
  have p2: "embedded (fail_parts requested [] 0 (JArr []) ! 2) = 47"
  proof -
    have "fail_parts requested [] 0 (JArr []) ! 2 = ''},\"results\":[],\"omittedToolCall\":{\"name\":''"
      by (simp add: fail_parts_def)
    moreover have "embedded ''},\"results\":[],\"omittedToolCall\":{\"name\":'' = 47" by (simp_all add: embedded_quotes plain_name_def)
    ultimately show ?thesis by simp
  qed
  have p3: "embedded (fail_parts requested [] 0 (JArr []) ! 3) \<le> 110"
  proof -
    have e: "fail_parts requested [] 0 (JArr []) ! 3 = '',\"index\":0},\"requestedToolCalls\":''
        @ int_to_dec (int requested) @ '',\"attemptedToolCalls\":1,\"reportedToolCalls\":0}''"
      by (simp add: fail_parts_def zero_dec)
    have l: "embedded '',\"index\":0},\"requestedToolCalls\":'' = 37"
      "embedded '',\"attemptedToolCalls\":1,\"reportedToolCalls\":0}'' = 50" by (simp_all add: embedded_quotes plain_name_def)
    have a: "list_all (\<lambda>c. byte c < 128) '',\"index\":0},\"requestedToolCalls\":''" by simp_all
    show ?thesis unfolding e embedded_ascii_append [OF a] embedded_ascii_append [OF d(1)] l using d(2) by linarith
  qed
  have "sum_list (map embedded ps) = embedded (ps ! 0) + embedded (ps ! 1) + embedded (ps ! 2) + embedded (ps ! 3)"
    if "length ps = 4" for ps using that by (auto simp: length_Suc_conv numeral_eq_Suc)
  from this [of "fail_parts requested [] 0 (JArr [])"] p0 p1 p2 p3
  have "sum_list (map embedded (fail_parts requested [] 0 (JArr []))) \<le> 223"
    by (simp add: fail_parts_def)
  then have "fail_size requested [] 0 (JArr []) \<le> 289" by (simp add: fail_size_def s)
  then show ?thesis
    using c t worst_failure_size [of max_bytes] assms by (auto simp: can_report_ok)
qed


section \<open>Properties\<close>

text \<open>
  C37. The size a batch measures on the copy with placeholders is the size of the reply it sends, whatever
  the results of its calls: rendering the entries of any results gives exactly the reply with the
  report, the items and the metadata in place and, byte for byte, what the transport encodes it to; and
  it fails exactly when that reply cannot be encoded.
\<close>

theorem batch_measure_exact:
  "batch_render rep (map (\<lambda>(i, name, result). batch_entry_for i name result) calls) =
    (let kept = map (\<lambda>(i, name, result). batch_entry_for i name result) calls
     in case catalog_encode (report_tree rep kept) of
          None \<Rightarrow> None
        | Some body \<Rightarrow>
            map_option (\<lambda>n. (batch_reply rep kept body, n)) (catalog_reply_size (batch_reply rep kept body)))"
  unfolding Let_def by (rule render_measured) (auto simp: list_all_iff batch_entry_measured)

end
