(* ===== verification/Catalog_Search.thy ===== *)
theory Catalog_Search
  imports Catalog_Batch Methods Integral_Number "HOL-Library.Product_Lexorder"
begin

text \<open>
  The \<open>search_tools\<close> meta tool (\<open>server/tool_catalog.go\<close>): the entries a catalog is prepared into, the
  ranking of a query, and the reply that carries as many of the best entries as the output limit
  allows. What the module takes from the framework (text folding, headlines, the validation engine) and
  from the Unicode tables is a record of functions.
\<close>

section \<open>The framework\<close>

datatype catalog_rule =
    RNullable | RRequired | RString | RInteger | RArray
  | RBetween int int | RMin int | RMax int
  | RCustom bytes "bytes \<Rightarrow> any \<Rightarrow> bytes option"

type_synonym rules = "(bytes \<times> catalog_rule list) list"
type_synonym failures = "(bytes \<times> bytes list) list"

text \<open>
  \<open>fw_lower\<close>, \<open>fw_headline\<close>, \<open>fw_length\<close>, \<open>fw_contains\<close> and \<open>fw_replace_first\<close> are the functions of the
  framework's \<open>str\<close>, \<open>fw_engine\<close> its validator, and \<open>fw_word\<close> tells the letters and numbers of Unicode.
\<close>

record framework =
  fw_lower :: "bytes \<Rightarrow> bytes"
  fw_headline :: "bytes \<Rightarrow> bytes"
  fw_length :: "bytes \<Rightarrow> nat"
  fw_contains :: "bytes \<Rightarrow> bytes \<Rightarrow> bool"
  fw_replace_first :: "bytes \<Rightarrow> bytes \<Rightarrow> bytes \<Rightarrow> bytes"
  fw_engine :: "members \<Rightarrow> rules \<Rightarrow> failures option"
  fw_word :: "nat \<Rightarrow> bool"

definition catalog_length_message :: "bytes \<Rightarrow> nat \<Rightarrow> bytes" where
  "catalog_length_message f limit =
     ''The '' @ f @ '' field must not exceed '' @ int_to_dec (int limit) @ '' characters.''"

definition catalog_max_chars :: "framework \<Rightarrow> nat \<Rightarrow> catalog_rule" where
  "catalog_max_chars fw limit =
     RCustom (''mcp_max_chars_'' @ int_to_dec (int limit))
       (\<lambda>f v. case v of
          AStr s \<Rightarrow> if fw_length fw s \<le> limit then None else Some (catalog_length_message f limit)
        | _ \<Rightarrow> None)"

text \<open>\<open>Validate\<close> of a request, as the error it returns.\<close>

definition check_rules :: "framework \<Rightarrow> rules \<Rightarrow> prim_request \<Rightarrow> go_error option" where
  "check_rules fw rules r =
     (case validate_request (fw_engine fw) (map fst) rules r of
        None \<Rightarrow> None
      | Some (Inl fault) \<Rightarrow> Some plain_error
      | Some (Inr fs) \<Rightarrow> Some \<lparr>ge_rpc = None, ge_validation = True, ge_fields = fs\<rparr>)"

section \<open>Terms\<close>

definition max_catalog_query_terms :: nat where "max_catalog_query_terms = 32"
definition max_catalog_query_chars :: nat where "max_catalog_query_chars = 4096"
definition max_catalog_search_limit :: int where "max_catalog_search_limit = 50"
definition default_catalog_search_limit :: int where "default_catalog_search_limit = 10"

text \<open>\<open>strings.FieldsFunc\<close>: the maximal runs of word characters; \<open>cur\<close> is the run being read.\<close>

fun word_runs :: "(nat \<Rightarrow> bool) \<Rightarrow> nat list \<Rightarrow> nat list \<Rightarrow> nat list list" where
  "word_runs w cur [] = (if cur = [] then [] else [cur])"
| "word_runs w cur (x # xs) =
     (if w x then word_runs w (cur @ [x]) xs
      else if cur = [] then word_runs w [] xs
      else cur # word_runs w [] xs)"

definition catalog_terms :: "framework \<Rightarrow> bytes \<Rightarrow> bytes list" where
  "catalog_terms fw txt = map string_of_runes (word_runs (fw_word fw) [] (runes_of (fw_lower fw txt)))"

fun keep_first :: "bytes list \<Rightarrow> bytes list \<Rightarrow> bytes list" where
  "keep_first seen [] = []"
| "keep_first seen (t # ts) =
     (if t \<in> set seen then keep_first seen ts else t # keep_first (t # seen) ts)"

definition catalog_distinct_terms :: "framework \<Rightarrow> bytes \<Rightarrow> bytes list" where
  "catalog_distinct_terms fw txt = keep_first [] (catalog_terms fw txt)"

definition catalog_query_terms :: "framework \<Rightarrow> bytes \<Rightarrow> bytes list" where
  "catalog_query_terms fw query =
     (let terms = catalog_distinct_terms fw query
      in if max_catalog_query_terms < length terms then take max_catalog_query_terms terms else terms)"

section \<open>Entries\<close>

text \<open>\<open>catalogToolPayload\<close>; an absent map is the empty one.\<close>

record catalog_payload =
  cy_name :: bytes
  cy_title :: bytes
  cy_description :: bytes
  cy_input :: members
  cy_output :: members
  cy_annotations :: members

text \<open>The encoding of a payload, by either encoder.\<close>

definition payload_tree :: "(any \<Rightarrow> json option) \<Rightarrow> catalog_payload \<Rightarrow> json option" where
  "payload_tree enc p = struct_tree
     [field ''name'' (enc (AStr (cy_name p))), field ''title'' (enc (AStr (cy_title p))),
      field ''description'' (enc (AStr (cy_description p))), field ''inputSchema'' (enc (AMap (cy_input p))),
      omit_empty (cy_output p = []) (field ''outputSchema'' (enc (AMap (cy_output p)))),
      omit_empty (cy_annotations p = []) (field ''annotations'' (enc (AMap (cy_annotations p))))]"

definition catalog_title :: "framework \<Rightarrow> tool \<Rightarrow> bytes" where
  "catalog_title fw t =
     (case tl_title t of
        Some title \<Rightarrow> if title \<noteq> [] then title else fw_headline fw (tl_name t)
      | None \<Rightarrow> fw_headline fw (tl_name t))"

text \<open>\<open>catalogSchemaMap\<close>, of a schema already rendered as a map.\<close>

definition catalog_schema_map :: "members \<Rightarrow> members" where
  "catalog_schema_map schema = (if has_key schema ''properties'' then schema else put ''properties'' (AMap []) schema)"

definition catalog_payload_for :: "framework \<Rightarrow> tool \<Rightarrow> catalog_payload" where
  "catalog_payload_for fw t =
     \<lparr>cy_name = tl_name t, cy_title = catalog_title fw t, cy_description = tl_description t,
      cy_input = catalog_schema_map (tl_input_schema t),
      cy_output = (case tl_output_schema t of None \<Rightarrow> [] | Some s \<Rightarrow> catalog_schema_map s),
      cy_annotations = (case tl_annotations t of None \<Rightarrow> [] | Some a \<Rightarrow> tool_annotations_map a)\<rparr>"

record catalog_entry =
  ce_tool :: tool
  ce_payload :: catalog_payload
  ce_size :: int
  ce_name :: bytes
  ce_title :: bytes
  ce_description :: bytes
  ce_schema :: bytes
  ce_name_terms :: "bytes list"

definition catalog_entry_for :: "framework \<Rightarrow> tool \<Rightarrow> catalog_entry" where
  "catalog_entry_for fw t =
     (let p = catalog_payload_for fw t
      in \<lparr>ce_tool = t, ce_payload = p,
          ce_size = (case catalog_wire_size (payload_tree tree_of p) of Some n \<Rightarrow> n | None \<Rightarrow> 0),
          ce_name = fw_lower fw (cy_name p), ce_title = fw_lower fw (cy_title p),
          ce_description = fw_lower fw (cy_description p),
          ce_schema = fw_lower fw (case catalog_encode (wire_tree (AMap (cy_input p))) of Some s \<Rightarrow> s | None \<Rightarrow> []),
          ce_name_terms = catalog_distinct_terms fw (cy_name p)\<rparr>)"

definition entry_encodes :: "framework \<Rightarrow> tool \<Rightarrow> bool" where
  "entry_encodes fw t =
     (let p = catalog_payload_for fw t
      in catalog_encode (wire_tree (AMap (cy_input p))) \<noteq> None \<and> catalog_wire_size (payload_tree tree_of p) \<noteq> None)"

section \<open>The catalog\<close>

record tool_catalog =
  tc_tools :: "tool list"
  tc_entries :: "catalog_entry list"
  tc_dup :: bytes
  tc_encode_err :: bool
  tc_max_calls :: int
  tc_max_bytes :: int
  tc_requested :: "(int \<times> int) option"
  tc_installed :: bool
  tc_config :: bytes

definition new_tool_catalog :: tool_catalog where
  "new_tool_catalog =
     \<lparr>tc_tools = [], tc_entries = [], tc_dup = [], tc_encode_err = False,
      tc_max_calls = default_catalog_max_tool_calls, tc_max_bytes = default_catalog_max_output_bytes,
      tc_requested = None, tc_installed = False, tc_config = []\<rparr>"

text \<open>The first name of a list that repeats an earlier one, or one seen before.\<close>

fun first_repeat :: "bytes list \<Rightarrow> bytes list \<Rightarrow> bytes option" where
  "first_repeat seen [] = None"
| "first_repeat seen (n # ns) = (if n \<in> set seen then Some n else first_repeat (n # seen) ns)"

definition prepare :: "framework \<Rightarrow> tool_catalog \<Rightarrow> tool_catalog" where
  "prepare fw c =
     (case first_repeat [] (map tl_name (tc_tools c)) of
        Some name \<Rightarrow> c\<lparr>tc_dup := ''Duplicate tool name ['' @ name @ ''] in the tool catalog.''\<rparr>
      | None \<Rightarrow>
          c\<lparr>tc_entries := map (catalog_entry_for fw) (tc_tools c),
            tc_encode_err := tc_encode_err c \<or> \<not> list_all (entry_encodes fw) (tc_tools c)\<rparr>)"

definition config_response :: "tool_catalog \<Rightarrow> response option" where
  "config_response c = (if tc_config c = [] then None else Some (message_reply (tc_max_bytes c) (tc_config c)))"

definition encode_failure :: "tool_catalog \<Rightarrow> response" where
  "encode_failure c = message_reply (tc_max_bytes c) catalog_encode_failure_message"

section \<open>Ranking\<close>

definition term_score :: "framework \<Rightarrow> catalog_entry \<Rightarrow> bytes \<Rightarrow> nat" where
  "term_score fw e t =
     (if fw_contains fw (ce_name e) t then 4 else 0) + (if fw_contains fw (ce_title e) t then 3 else 0)
     + (if fw_contains fw (ce_description e) t then 2 else 0) + (if fw_contains fw (ce_schema e) t then 1 else 0)"

definition entry_score :: "framework \<Rightarrow> bytes list \<Rightarrow> catalog_entry \<Rightarrow> nat" where
  "entry_score fw terms e =
     (if terms \<noteq> [] \<and> terms = ce_name_terms e then 8 else 0) + sum_list (map (term_score fw e) terms)"

definition rank :: "framework \<Rightarrow> tool_catalog \<Rightarrow> bytes \<Rightarrow> nat list" where
  "rank fw c query =
     (let terms = catalog_query_terms fw query;
          scored = map (\<lambda>i. (i, entry_score fw terms (tc_entries c ! i))) [0..<length (tc_entries c)];
          candidates = filter (\<lambda>(i, score). \<not> (terms \<noteq> [] \<and> score = 0)) scored
      in map fst (sort_key (\<lambda>(i, score). (- int score, i)) candidates))"

section \<open>Searching\<close>

definition catalog_payloads :: "tool_catalog \<Rightarrow> nat list \<Rightarrow> catalog_payload list" where
  "catalog_payloads c indexes = map (\<lambda>i. ce_payload (tc_entries c ! i)) indexes"

definition search_output_tree :: "catalog_payload list \<Rightarrow> bool \<Rightarrow> json option" where
  "search_output_tree ps has_more = struct_tree
     [field ''ok'' (wire_tree (ABool True)), field ''tools'' (array_tree (map (payload_tree wire_tree) ps)),
      field ''hasMore'' (wire_tree (ABool has_more))]"

definition search_limit_tree :: "int \<Rightarrow> json option" where
  "search_limit_tree max_bytes = struct_tree
     [field ''ok'' (wire_tree (ABool False)),
      field ''error'' (limit_error_tree (catalog_kind_output_limit, limit_message max_bytes))]"

definition search_limit_exceeded :: "tool_catalog \<Rightarrow> response option" where
  "search_limit_exceeded c = map_option fst (catalog_text_reply (search_limit_tree (tc_max_bytes c)) True)"

text \<open>How many entries are rendered at first, from their prepared sizes.\<close>

fun fitting_prefix :: "int \<Rightarrow> int \<Rightarrow> int list \<Rightarrow> int \<Rightarrow> nat \<Rightarrow> nat" where
  "fitting_prefix max_bytes limit [] low n = n"
| "fitting_prefix max_bytes limit (s # ss) low n =
     (if limit \<le> int n then n
      else if max_bytes < low + s then n
      else fitting_prefix max_bytes limit ss (low + s) (Suc n))"

definition search_reply :: "tool_catalog \<Rightarrow> nat list \<Rightarrow> nat \<Rightarrow> (response \<times> int) option" where
  "search_reply c ranked n =
     catalog_text_reply (search_output_tree (catalog_payloads c (take n ranked)) (n < length ranked)) False"

text \<open>The loop from \<open>n\<close> entries down: an encoding error, the reply that fits, or none of them.\<close>

fun search_down :: "tool_catalog \<Rightarrow> nat list \<Rightarrow> nat \<Rightarrow> response option option" where
  "search_down c ranked n =
     (if n = 0 \<and> ranked \<noteq> [] then Some None
      else case search_reply c ranked n of
        None \<Rightarrow> None
      | Some (resp, nbytes) \<Rightarrow>
          if nbytes \<le> tc_max_bytes c then Some (Some resp)
          else (case n of 0 \<Rightarrow> Some None | Suc m \<Rightarrow> search_down c ranked m))"

definition catalog_search :: "framework \<Rightarrow> tool_catalog \<Rightarrow> bytes \<Rightarrow> int \<Rightarrow> response option" where
  "catalog_search fw c query limit =
     (let ranked = rank fw c query;
          n = fitting_prefix (tc_max_bytes c) limit (map (\<lambda>i. ce_size (tc_entries c ! i)) ranked) 0 0
      in case search_down c ranked n of
           None \<Rightarrow> None
         | Some (Some resp) \<Rightarrow> Some resp
         | Some None \<Rightarrow> search_limit_exceeded c)"

definition search_rules :: "framework \<Rightarrow> rules" where
  "search_rules fw =
     [(''query'', [RNullable, RString, catalog_max_chars fw max_catalog_query_chars]),
      (''limit'', [RNullable, RInteger, RBetween 1 max_catalog_search_limit])]"

definition catalog_search_limit :: "prim_request \<Rightarrow> int" where
  "catalog_search_limit r =
     (case int_ok r ''limit'' of
        Some n \<Rightarrow> n
      | None \<Rightarrow>
          (case Option.bind (string_ok r ''limit'') parse_int of
             Some n \<Rightarrow> n
           | None \<Rightarrow> default_catalog_search_limit))"

definition search_handle :: "framework \<Rightarrow> tool_catalog \<Rightarrow> prim_request \<Rightarrow> response" where
  "search_handle fw c r =
     (case config_response c of
        Some resp \<Rightarrow> resp
      | None \<Rightarrow>
          (case check_rules fw (search_rules fw) r of
             Some e \<Rightarrow> message_reply (tc_max_bytes c) (validation_message e)
           | None \<Rightarrow>
               if tc_dup c \<noteq> [] then message_reply (tc_max_bytes c) (tc_dup c)
               else if tc_encode_err c then encode_failure c
               else
                 (case catalog_search fw c (case string_ok r ''query'' of Some q \<Rightarrow> q | None \<Rightarrow> [])
                         (catalog_search_limit r) of
                    None \<Rightarrow> encode_failure c
                  | Some resp \<Rightarrow> resp)))"

declare search_down.simps [simp del]


section \<open>What a value costs inside the text of a reply\<close>

text \<open>The encoder of a payload and that of the transport differ in the escaping of HTML characters alone.\<close>

lemma html_escape_wire_body: "html_escape (wire_body s) = html_escape (quote_body s)"
proof (induction s rule: wire_body.induct)
  case (1 s)
  show ?case
  proof (cases s)
    case (Cons c r)
    show ?thesis
    proof (cases "byte c < 128")
      case True
      have "html_escape (wire_ascii c @ t) = quote_ascii c @ html_escape t" for t
      proof (cases "html_char c")
        case True
        then show ?thesis by (auto simp: wire_ascii_def quote_ascii_def html_char_def)
      qed (use True in \<open>simp add: wire_ascii_def html_escape_quote_ascii\<close>)
      then show ?thesis using 1(1) [OF Cons True] Cons True by (simp add: html_escape_quote_ascii)
    next
      case False
      show ?thesis
      proof (cases "decode_rune (c # r)")
        case None
        then show ?thesis using 1(2) [OF Cons False] Cons False
          by (simp add: wire_body_high quote_body_high html_escape_u_escaped)
      next
        case (Some xn)
        then obtain x n where x: "decode_rune (c # r) = Some (x, n)" by (cases xn) auto
        note ih = 1(3) [OF Cons False, unfolded Cons, OF x refl]
        show ?thesis
        proof (cases "x = 0x2028 \<or> x = 0x2029")
          case True
          then show ?thesis using ih Cons False x
            by (auto simp: wire_body_high quote_body_high html_escape_u_escaped)
        next
          case other: False
          have e: "encode_rune x = take n (c # r)" "scalar x" using encode_decode_rune [OF x] by simp_all
          have "\<not> x < 128"
          proof
            assume "x < 128"
            then have "take n (c # r) = [char_of x]" using e(1) by (simp add: encode_rune_def)
            then have "c = char_of x" by (cases n) auto
            then show False using False \<open>x < 128\<close> by simp
          qed
          then have "html_escape (take n (c # r) @ t) = take n (c # r) @ html_escape t" for t
            using html_escape_rune [OF e(2), of t] other e(1) by simp
          then show ?thesis using ih Cons False x other by (simp add: wire_body_high quote_body_high)
        qed
      qed
    qed
  qed simp
qed


definition printed :: "json option \<Rightarrow> bytes option" where
  "printed t = map_option print_json t"

lemma print_elems_cong:
  "map (\<lambda>(r, v). print_json v) l = map (\<lambda>(r, v). print_json v) l' \<Longrightarrow> print_elems l = print_elems l'"
proof (induction l arbitrary: l')
  case (Cons e l)
  obtain r v r' v' n where e: "e = (r, v)" "l' = (r', v') # n" using Cons.prems by (cases e; cases l') auto
  with Cons.prems have p: "print_json v = print_json v'"
    "map (\<lambda>(r, v). print_json v) l = map (\<lambda>(r, v). print_json v) n" by simp_all
  have "l = [] \<longleftrightarrow> n = []" using arg_cong [OF p(2), of length] by auto
  with Cons.IH [OF p(2)] p(1) e show ?case by simp
qed simp

lemma print_members_cong:
  "map (\<lambda>(k, r, v). (k, print_json v)) m = map (\<lambda>(k, r, v). (k, print_json v)) m' \<Longrightarrow>
     print_members (map (\<lambda>(k, y). (wire_body k, y)) m)
     = print_members (map (\<lambda>(k, y). (quote_body k, y)) (m' :: (bytes \<times> bytes \<times> json) list))"
proof (induction m arbitrary: m')
  case (Cons e m)
  obtain k r v k' r' v' n where e: "e = (k, r, v)" "m' = (k', r', v') # n"
    using Cons.prems by (cases e; cases m') auto
  with Cons.prems have p: "k = k'" "print_json v = print_json v'"
    "map (\<lambda>(k, r, v). (k, print_json v)) m = map (\<lambda>(k, r, v). (k, print_json v)) n" by simp_all
  have "m = [] \<longleftrightarrow> n = []" using arg_cong [OF p(3), of length] by auto
  with Cons.IH [OF p(3)] p(1,2) e show ?case by (simp add: html_escape_wire_body)
qed simp

lemma printed_elems:
  assumes "\<forall>a \<in> set vs. printed (wire_tree a) = printed (tree_of a)"
  shows "map_option print_elems (wire_tree_elems vs) = map_option print_elems (tree_elems vs)"
proof -
  have "map_option (map (\<lambda>(r, v). print_json v)) (wire_tree_elems vs)
      = map_option (map (\<lambda>(r, v). print_json v)) (tree_elems vs)"
    using assms
  proof (induction vs)
    case (Cons a vs)
    then show ?case
      by (cases "wire_tree a"; cases "tree_of a"; cases "wire_tree_elems vs"; cases "tree_elems vs")
        (auto simp: printed_def)
  qed simp
  then show ?thesis
    by (cases "wire_tree_elems vs"; cases "tree_elems vs") (auto intro: print_elems_cong)
qed

lemma printed_sort:
  assumes "map (\<lambda>(k, r, v). (k, print_json v)) l = map (\<lambda>(k, r, v). (k, print_json v)) l'"
  shows "print_members (map (\<lambda>(k, y). (wire_body k, y)) (sort_key fst l))
    = print_members (map (\<lambda>(k, y). (quote_body k, y)) (sort_key fst (l' :: (bytes \<times> bytes \<times> json) list)))"
proof (rule print_members_cong)
  have s: "map (\<lambda>(k, r, v). (k, print_json v)) (sort_key fst m) = sort_key fst (map (\<lambda>(k, r, v). (k, print_json v)) m)"
    for m :: "(bytes \<times> bytes \<times> json) list"
    using sort_key_map [where f = "\<lambda>(r, v). print_json v" and l = m] by (simp add: case_prod_unfold)
  show "map (\<lambda>(k, r, v). (k, print_json v)) (sort_key fst l) = map (\<lambda>(k, r, v). (k, print_json v)) (sort_key fst l')"
    unfolding s assms ..
qed

lemma printed_members:
  assumes "\<forall>m \<in> set ms. printed (wire_tree (snd m)) = printed (tree_of (snd m))"
  shows "printed (wire_tree (AMap ms)) = printed (tree_of (AMap ms))"
proof -
  have e: "map_option (map (\<lambda>(k, r, v). (k, print_json v))) (wire_tree_members ms)
      = map_option (map (\<lambda>(k, r, v). (k, print_json v))) (tree_members ms)"
    using assms
  proof (induction ms)
    case (Cons m ms)
    obtain k a where "m = (k, a)" by (cases m)
    with Cons show ?case
      by (cases "wire_tree a"; cases "tree_of a"; cases "wire_tree_members ms"; cases "tree_members ms")
        (auto simp: printed_def)
  qed simp
  then show ?thesis
    by (cases "wire_tree_members ms"; cases "tree_members ms") (auto simp: printed_def intro: printed_sort)
qed

lemma printed_wire: "printed (wire_tree a) = printed (tree_of a)"
proof (induction a)
  case (AStr s)
  then show ?case by (simp add: printed_def html_escape_wire_body)
next
  case (AList vs)
  have "printed (map_option JArr x) = map_option (\<lambda>b. CHR ''['' # b @ '']'') (map_option print_elems x)" for x
    by (cases x) (simp_all add: printed_def)
  then show ?case using printed_elems [of vs] AList by simp
next
  case (AMap ms)
  then show ?case by (intro printed_members) (auto simp: snds.simps)
qed (simp_all add: printed_def)


lemma u_escaped_length [simp]: "length (u_escaped x) = 6"
  by (simp add: u_escaped_def)

lemma html_escape_longer: "length s \<le> length (html_escape s)"
proof (induction s rule: length_induct)
  case (1 s)
  show ?case
  proof (cases s)
    case (Cons c r)
    note ih = "1.IH" [rule_format]
    consider (html) "html_char c" | (ls) "ls_ps (c # r)" | (plain) "\<not> html_char c" "\<not> ls_ps (c # r)" by blast
    then show ?thesis
    proof cases
      case ls
      then obtain e u where e: "c # r = CHR 0xE2 # CHR 0x80 # e # u" "e = CHR 0xA8 \<or> e = CHR 0xA9"
        by (rule ls_ps_cases)
      then show ?thesis using ih [of u] Cons html_escape_ls_ps [OF e(2)] by simp
    qed (use ih [of r] Cons in \<open>simp_all add: html_escape_plain\<close>)
  qed simp
qed

lemma html_escape_step: "length (html_escape (c # r)) \<le> 6 + length (html_escape r)"
proof -
  consider (html) "html_char c" | (ls) "ls_ps (c # r)" | (plain) "\<not> html_char c" "\<not> ls_ps (c # r)" by blast
  then show ?thesis
  proof cases
    case ls
    then obtain e u where e: "c # r = CHR 0xE2 # CHR 0x80 # e # u" "e = CHR 0xA8 \<or> e = CHR 0xA9"
      by (rule ls_ps_cases)
    have "length (html_escape (e # u)) = Suc (length (html_escape u))" "length (html_escape (CHR 0x80 # e # u))
        = Suc (length (html_escape (e # u)))"
      using e(2) by (auto simp: html_escape_plain ls_ps_def html_char_def)
    then show ?thesis using e html_escape_ls_ps [OF e(2)] by simp
  qed (simp_all add: html_escape_plain)
qed

lemma quote_ascii_nonempty: "byte c < 128 \<Longrightarrow> 1 \<le> length (quote_ascii c)"
  by (cases rule: quote_ascii_cases) auto

lemma separator_runes:
  "encode_rune 0x2028 = [CHR 0xE2, CHR 0x80, CHR 0xA8]" "encode_rune 0x2029 = [CHR 0xE2, CHR 0x80, CHR 0xA9]"
  by code_simp+

lemma html_escape_embedded: "int (length (html_escape s)) \<le> embedded s"
proof -
  have "length (html_escape s) \<le> length (html_escape (quote_body s))"
  proof (induction s rule: wire_body.induct)
    case (1 s)
    show ?case
    proof (cases s)
      case (Cons c r)
      show ?thesis
      proof (cases "byte c < 128")
        case True
        have "length (html_escape (c # r)) \<le> length (quote_ascii c) + length (html_escape r)"
        proof (cases "html_char c")
          case True
          then show ?thesis by (auto simp: quote_ascii_def html_char_def)
        qed (use True quote_ascii_nonempty [OF True] in \<open>simp add: html_escape_ascii\<close>)
        then show ?thesis using 1(1) [OF Cons True] Cons True by (simp add: html_escape_quote_ascii)
      next
        case False
        show ?thesis
        proof (cases "decode_rune (c # r)")
          case None
          then show ?thesis using 1(2) [OF Cons False] Cons False html_escape_step [of c r]
            by (simp add: quote_body_high html_escape_u_escaped)
        next
          case (Some xn)
          then obtain x n where x: "decode_rune (c # r) = Some (x, n)" by (cases xn) auto
          note ih = 1(3) [OF Cons False, unfolded Cons, OF x refl]
          have e: "encode_rune x = take n (c # r)" "scalar x" using encode_decode_rune [OF x] by simp_all
          then have s: "c # r = encode_rune x @ drop n (c # r)" by simp
          have m: "max n 1 = n" "max n (Suc 0) = n" using decode_rune_width(1) [OF x] by simp_all
          show ?thesis
          proof (cases "x = 0x2028 \<or> x = 0x2029")
            case True
            then obtain d where d: "encode_rune x = [CHR 0xE2, CHR 0x80, d]" "d = CHR 0xA8 \<or> d = CHR 0xA9"
              using separator_runes by auto
            have "length (html_escape (c # r)) \<le> 6 + length (html_escape (drop n (c # r)))"
              using html_escape_ls_ps [OF d(2), of "drop n (c # r)"] d(1) by (subst s) simp
            then show ?thesis using ih Cons False x True m by (auto simp: quote_body_high html_escape_u_escaped)
          next
            case other: False
            have "\<not> x < 128"
            proof
              assume "x < 128"
              then have "take n (c # r) = [char_of x]" using e(1) by (simp add: encode_rune_def)
              then have "c = char_of x" by (cases n) auto
              then show False using False \<open>x < 128\<close> by simp
            qed
            then have h: "html_escape (encode_rune x @ t) = encode_rune x @ html_escape t" for t
              using html_escape_rune [OF e(2), of t] other by simp
            have "html_escape (c # r) = encode_rune x @ html_escape (drop n (c # r))"
              using h [of "drop n (c # r)"] s by simp
            then show ?thesis using ih Cons False x other m h e(1) by (simp add: quote_body_high)
          qed
        qed
      qed
    qed simp
  qed
  then show ?thesis by (simp add: embedded_def string_text_def)
qed

text \<open>The text of a value, and what follows it after a separator.\<close>

definition ascii_start :: "bytes \<Rightarrow> bool" where
  "ascii_start s = (case s of [] \<Rightarrow> True | c # r \<Rightarrow> byte c < 128)"

lemma html_escape_before:
  "ascii_start t \<Longrightarrow> html_escape (s @ t) = html_escape s @ html_escape t"
  by (cases t) (simp_all add: ascii_start_def html_escape_split)

lemma print_below_wire:
  "ascii_start t \<Longrightarrow> length (print_json v) + length (html_escape t) \<le> length (html_escape (wire_json v @ t))"
  "ascii_start t \<Longrightarrow> length (print_elems vs) + length (html_escape t) \<le> length (html_escape (wire_elems vs @ t))"
  "ascii_start t \<Longrightarrow> length (print_members ms) + length (html_escape t) \<le> length (html_escape (wire_members ms @ t))"
proof (induction v and vs and ms arbitrary: t and t and t rule: wire_json_wire_elems_wire_members.induct)
  case (3 n)
  then show ?case using html_escape_longer [of n] by (simp add: html_escape_before)
next
  case (4 b)
  then show ?case by (simp add: quoted_def html_escape_ascii html_char_def html_escape_split)
next
  case (5 vs)
  have "ascii_start (CHR '']'' # t)" by (simp add: ascii_start_def)
  from 5(1) [OF this] show ?case by (simp add: html_escape_ascii html_char_def)
next
  case (6 ms)
  have "ascii_start (CHR ''}'' # t)" by (simp add: ascii_start_def)
  from 6(1) [OF this] show ?case by (simp add: html_escape_ascii html_char_def)
next
  case (8 r v vs)
  show ?case
  proof (cases "vs = []")
    case True
    then show ?thesis using 8(1) [OF 8(3)] by simp
  next
    case False
    have "ascii_start (CHR '','' # wire_elems vs @ t)" by (simp add: ascii_start_def)
    from 8(1) [OF this] 8(2) [OF False 8(3)] False show ?thesis by (simp add: html_escape_ascii html_char_def)
  qed
next
  case (10 k r v ms)
  show ?case
  proof (cases "ms = []")
    case True
    then show ?thesis using 10(1) [OF 10(3)]
      by (simp add: quoted_def html_escape_ascii html_char_def html_escape_split)
  next
    case False
    have "ascii_start (CHR '','' # wire_members ms @ t)" by (simp add: ascii_start_def)
    from 10(1) [OF this] 10(2) [OF False 10(3)] False show ?thesis
      by (simp add: quoted_def html_escape_ascii html_char_def html_escape_split)
  qed
qed (simp_all add: html_escape_ascii html_char_def)

lemma printed_embedded: "int (length (print_json v)) \<le> embedded (wire_json v)"
  using print_below_wire(1) [of "[]" v] html_escape_embedded [of "wire_json v"] by (simp add: ascii_start_def)


section \<open>The sizes of a search reply\<close>

lemma embedded_split: "byte c < 128 \<Longrightarrow> embedded (a @ c # b) = embedded a + embedded (c # b)"
proof -
  assume c: "byte c < 128"
  have "list_all (\<lambda>d. byte d < 128) (take 1 (quote_ascii c)) \<and> quote_ascii c \<noteq> []"
    by (cases rule: quote_ascii_cases [OF c]) (use c in \<open>simp_all add: u_escaped_def\<close>)
  then obtain d q where d: "quote_ascii c = d # q" "byte d < 128" by (cases "quote_ascii c") auto
  show ?thesis
    using html_escape_split [OF d(2), of "quote_body a" "q @ quote_body b"] d(1) c
    by (simp add: embedded_def string_text_def quote_body_split [OF c])
qed

lemma embedded_ascii: "byte c < 128 \<Longrightarrow> embedded b \<le> embedded (c # b)"
  by (simp add: embedded_def)

lemma embedded_elems: "sum_list (map (\<lambda>v. embedded (wire_json v)) vs) \<le> embedded (wire_elems (map (\<lambda>v. ([], v)) vs))"
proof (induction vs)
  case (Cons v vs)
  show ?case
  proof (cases "vs = []")
    case False
    then show ?thesis using order_trans [OF Cons embedded_ascii [of "CHR '',''"]]
      by (simp add: embedded_split)
  qed (simp add: embedded_nonneg)
qed (simp add: embedded_nonneg)

lemma text_reply_size: "catalog_reply_size (text_response s) = Some (55 + embedded s)"
proof -
  have i: "rp_items (text_response s) = [new_text s]" "rp_structured (text_response s) = []"
    "rp_meta (text_response s) = []" "\<not> rp_is_error (text_response s)"
    by (simp_all add: text_response_def new_response_def)
  show ?thesis
    using reply_size [of "text_response s" "[text_shape s]"] reply_shapes(1) [of s "[]"] i
      text_item_size [of s, folded text_shape_def]
    by (simp add: commas_def string_size_embedded)
qed

lemma text_error_size: "catalog_reply_size (as_error (text_response s)) = Some (54 + embedded s)"
proof -
  have i: "rp_items (as_error (text_response s)) = [new_text s]" "rp_structured (as_error (text_response s)) = []"
    "rp_meta (as_error (text_response s)) = []" "rp_is_error (as_error (text_response s))"
    by (simp_all add: as_error_def text_response_def new_response_def)
  show ?thesis
    using reply_size [of "as_error (text_response s)" "[text_shape s]"] reply_shapes(1) [of s "[]"] i
      text_item_size [of s, folded text_shape_def]
    by (simp add: commas_def string_size_embedded)
qed

lemma payload_printed: "printed (payload_tree wire_tree p) = printed (payload_tree tree_of p)"
proof -
  have s: "\<exists>v. wire_tree (AStr s) = Some v \<and> tree_of (AStr s) = Some (JStr (quote_body s)) \<and> v = JStr (wire_body s)" for s
    by simp
  note m = printed_wire [of "AMap (cy_input p)"] printed_wire [of "AMap (cy_output p)"]
    printed_wire [of "AMap (cy_annotations p)"]
  show ?thesis
    using m unfolding payload_tree_def field_def omit_empty_def
    apply (cases "wire_tree (AMap (cy_input p))"; cases "tree_of (AMap (cy_input p))";
        cases "wire_tree (AMap (cy_output p))"; cases "tree_of (AMap (cy_output p))";
        cases "wire_tree (AMap (cy_annotations p))"; cases "tree_of (AMap (cy_annotations p))")
    apply (simp_all only: printed_def option.map wire_tree.simps(5) tree_of.simps(5))
    apply (simp_all add: html_escape_wire_body del: wire_tree.simps tree_of.simps)
    done
qed


definition payload_json :: "catalog_payload \<Rightarrow> json" where
  "payload_json p = the (payload_tree wire_tree p)"

definition payload_ok :: "catalog_payload \<Rightarrow> bool" where
  "payload_ok p = (payload_tree wire_tree p \<noteq> None)"

definition search_text :: "catalog_payload list \<Rightarrow> bool \<Rightarrow> bytes" where
  "search_text ps b = ''{\"ok\":true,\"tools\":['' @ wire_elems (map (\<lambda>v. ([], v)) (map payload_json ps))
     @ CHR '']'' # '',\"hasMore\":'' @ bool_text b @ ''}''"

lemma search_encoded: "list_all payload_ok ps \<Longrightarrow> catalog_encode (search_output_tree ps b) = Some (search_text ps b)"
proof -
  assume ok: "list_all payload_ok ps"
  then have "array_tree (map (payload_tree wire_tree) ps) = Some (JArr (map (\<lambda>v. ([], v)) (map payload_json ps)))"
    by (auto simp: array_tree_def list_all_iff payload_ok_def payload_json_def)
  then show ?thesis
    by (simp add: search_output_tree_def field_def catalog_encode_def quoted_def search_text_def bool_text_def)
qed

lemma payload_wire_cost:
  assumes "payload_ok p" "catalog_wire_size (payload_tree tree_of p) = Some n"
  shows "n \<le> embedded (wire_json (payload_json p))"
proof -
  obtain v v' where v: "payload_tree wire_tree p = Some v" "payload_tree tree_of p = Some v'"
    using assms by (auto simp: payload_ok_def catalog_wire_size_def)
  then have "print_json v = print_json v'" using payload_printed [of p] by (simp add: printed_def)
  then show ?thesis using v assms(2) printed_embedded [of v]
    by (simp add: catalog_wire_size_def payload_json_def)
qed

lemma search_text_cost:
  "sum_list (map (\<lambda>p. embedded (wire_json (payload_json p))) ps) \<le> embedded (search_text ps b)"
proof -
  let ?e = "wire_elems (map (\<lambda>v. ([], v)) (map payload_json ps))"
  have a: "list_all (\<lambda>c. byte c < 128) ''{\"ok\":true,\"tools\":[''" by simp
  have "embedded ?e \<le> embedded (search_text ps b)"
    unfolding search_text_def embedded_ascii_append [OF a]
    by (subst embedded_split) (simp_all add: embedded_nonneg)
  then show ?thesis using embedded_elems [of "map payload_json ps"] by (simp add: comp_def)
qed

lemma empty_search_text: "embedded (search_text [] False) \<le> 100"
proof -
  have "search_text [] False = ''{\"ok\":true,\"tools\":[],\"hasMore\":false}''"
    by (simp add: search_text_def bool_text_def)
  moreover have "embedded ''{\"ok\":true,\"tools\":[],\"hasMore\":false}'' = 44"
    by (simp add: embedded_quotes plain_name_def)
  ultimately show ?thesis by simp
qed

section \<open>The loops of a search\<close>

lemma fitting_prefix:
  "list_all (\<lambda>s. 0 \<le> s) ss \<Longrightarrow>
     n \<le> fitting_prefix b limit ss low n \<and> fitting_prefix b limit ss low n \<le> n + length ss
     \<and> (n < fitting_prefix b limit ss low n \<longrightarrow> int (fitting_prefix b limit ss low n) \<le> limit)
     \<and> (\<forall>m. fitting_prefix b limit ss low n < m \<longrightarrow> m \<le> n + length ss \<longrightarrow>
          limit < int m \<or> b < low + sum_list (take (m - n) ss))"
proof (induction ss arbitrary: low n)
  case (Cons s ss)
  show ?case
  proof (cases "limit \<le> int n \<or> b < low + s")
    case True
    then have e: "fitting_prefix b limit (s # ss) low n = n" by auto
    have "b < low + sum_list (take (m - n) (s # ss))" if "b < low + s" "n < m" for m
    proof -
      have "0 \<le> sum_list (take k ss)" for k
        using Cons.prems by (auto intro!: sum_list_nonneg simp: list_all_iff dest: in_set_takeD)
      then have "s \<le> sum_list (take (m - n) (s # ss))" using that(2) by (cases "m - n") auto
      then show ?thesis using that(1) by linarith
    qed
    then show ?thesis using True unfolding e by auto
  next
    case False
    let ?f = "fitting_prefix b limit ss (low + s) (Suc n)"
    have e: "fitting_prefix b limit (s # ss) low n = ?f" using False by simp
    have ih: "Suc n \<le> ?f" "?f \<le> Suc n + length ss" "Suc n < ?f \<longrightarrow> int ?f \<le> limit"
      "\<And>m. ?f < m \<Longrightarrow> m \<le> Suc n + length ss \<Longrightarrow>
          limit < int m \<or> b < low + s + sum_list (take (m - Suc n) ss)"
      using Cons.IH [of "Suc n" "low + s"] Cons.prems by auto
    have "take (m - n) (s # ss) = s # take (m - Suc n) ss" if "?f < m" for m
      using ih(1) that by (simp add: Suc_diff_Suc take_Cons')
    moreover have "int ?f \<le> limit" using ih(1,3) False by (cases "Suc n < ?f") auto
    ultimately show ?thesis using ih unfolding e by (auto simp: algebra_simps)
  qed
qed simp

text \<open>Where every reply can be encoded, the loop settles on the largest number of entries that fits.\<close>

lemma search_down:
  assumes "\<And>m. m \<le> n \<Longrightarrow> search_reply c ranked m = Some (r m, s m)"
  defines "fit \<equiv> \<lambda>m. s m \<le> tc_max_bytes c \<and> (m = 0 \<longrightarrow> ranked = [])"
  shows "(\<exists>k \<le> n. fit k \<and> (\<forall>m. k < m \<longrightarrow> m \<le> n \<longrightarrow> \<not> fit m) \<and> search_down c ranked n = Some (Some (r k)))
    \<or> (\<forall>m \<le> n. \<not> fit m) \<and> search_down c ranked n = Some None"
  using assms(1)
proof (induction n)
  case 0
  then have "search_down c ranked 0
      = (if ranked \<noteq> [] then Some None else if s 0 \<le> tc_max_bytes c then Some (Some (r 0)) else Some None)"
    by (cases "ranked = []") (simp_all add: search_down.simps [of c _ 0])
  then show ?case by (auto simp: fit_def)
next
  case (Suc n)
  show ?case
  proof (cases "s (Suc n) \<le> tc_max_bytes c")
    case True
    then have "search_down c ranked (Suc n) = Some (Some (r (Suc n)))" "fit (Suc n)"
      using Suc.prems by (simp_all add: search_down.simps [of c ranked "Suc n"] fit_def)
    then show ?thesis by (intro disjI1 exI [of _ "Suc n"]) auto
  next
    case False
    then have d: "search_down c ranked (Suc n) = search_down c ranked n" "\<not> fit (Suc n)"
      using Suc.prems by (simp_all add: search_down.simps [of c ranked "Suc n"] fit_def)
    from Suc.IH Suc.prems have
      "(\<exists>k \<le> n. fit k \<and> (\<forall>m. k < m \<longrightarrow> m \<le> n \<longrightarrow> \<not> fit m) \<and> search_down c ranked n = Some (Some (r k)))
       \<or> (\<forall>m \<le> n. \<not> fit m) \<and> search_down c ranked n = Some None" by simp
    then show ?thesis using d by (metis le_Suc_eq)
  qed
qed


section \<open>The ranking\<close>

lemma rank_order:
  fixes fw :: framework and c :: tool_catalog
  defines "terms \<equiv> \<lambda>q. catalog_query_terms fw q"
  defines "score \<equiv> \<lambda>q i. entry_score fw (terms q) (tc_entries c ! i)"
  shows "distinct (rank fw c q)"
    "set (rank fw c q) = {i. i < length (tc_entries c) \<and> (terms q = [] \<or> 0 < score q i)}"
    "sorted_wrt (\<lambda>i j. score q j < score q i \<or> score q i = score q j \<and> i < j) (rank fw c q)"
proof -
  define ids where "ids = filter (\<lambda>i. terms q = [] \<or> 0 < score q i) [0..<length (tc_entries c)]"
  define key where "key = (\<lambda>(i :: nat, s :: nat). (- int s, i))"
  define pair where "pair = (\<lambda>i. (i, score q i))"
  have f: "filter (\<lambda>(i, s). \<not> (terms q \<noteq> [] \<and> s = 0)) (map pair [0..<length (tc_entries c)]) = map pair ids"
    by (auto simp: ids_def pair_def filter_map comp_def intro!: arg_cong [where f = "map pair"] filter_cong)
  have r: "rank fw c q = map fst (sort_key key (map pair ids))"
    unfolding rank_def Let_def f [symmetric] by (simp add: pair_def score_def terms_def key_def)
  have p: "x = pair (fst x)" if "x \<in> set (sort_key key (map pair ids))" for x
    using that by (auto simp: pair_def)
  have m: "mset (rank fw c q) = mset ids"
    unfolding r mset_map mset_sort by (simp add: image_mset.compositionality comp_def pair_def)
  then show d: "distinct (rank fw c q)"
    using mset_eq_imp_distinct_iff [OF m] by (simp add: ids_def)
  show "set (rank fw c q) = {i. i < length (tc_entries c) \<and> (terms q = [] \<or> 0 < score q i)}"
    using mset_eq_setD [OF m] by (auto simp: ids_def)
  have "sorted (map key (sort_key key (map pair ids)))" by simp
  then have "sorted_wrt (\<lambda>x y. key x \<le> key y) (sort_key key (map pair ids))" by (simp add: sorted_map)
  then have "sorted_wrt (\<lambda>x y. key (pair (fst x)) \<le> key (pair (fst y))) (sort_key key (map pair ids))"
    by (rule sorted_wrt_mono_rel [rotated]) (metis p)
  then have s: "sorted_wrt (\<lambda>i j. key (pair i) \<le> key (pair j)) (rank fw c q)"
    by (simp add: r sorted_wrt_map)
  have "sorted_wrt (\<noteq>) (rank fw c q)"
    using d by (auto simp: sorted_wrt_iff_nth_less nth_eq_iff_index_eq)
  with s have "sorted_wrt (\<lambda>i j. key (pair i) \<le> key (pair j) \<and> i \<noteq> j) (rank fw c q)"
    by (simp add: sorted_wrt_iff_nth_less)
  then show "sorted_wrt (\<lambda>i j. score q j < score q i \<or> score q i = score q j \<and> i < j) (rank fw c q)"
    by (rule sorted_wrt_mono_rel [rotated]) (auto simp: key_def pair_def)
qed

section \<open>A prepared catalog\<close>

definition entry_ready :: "catalog_entry \<Rightarrow> bool" where
  "entry_ready e \<longleftrightarrow> payload_ok (ce_payload e)
     \<and> catalog_wire_size (payload_tree tree_of (ce_payload e)) = Some (ce_size e)"

lemma entry_for_ready: "entry_encodes fw t \<Longrightarrow> entry_ready (catalog_entry_for fw t)"
  using payload_printed [of "catalog_payload_for fw t"]
  by (auto simp: entry_ready_def entry_encodes_def catalog_entry_for_def Let_def payload_ok_def printed_def
      catalog_wire_size_def)

lemma prepared_ready:
  assumes "tc_dup (prepare fw c) = []" "\<not> tc_encode_err (prepare fw c)"
  shows "tc_entries (prepare fw c) = map (catalog_entry_for fw) (tc_tools c)"
    "list_all entry_ready (tc_entries (prepare fw c))"
  using assms entry_for_ready by (auto simp: prepare_def list_all_iff split: option.splits)

lemma search_reply_ready:
  assumes "list_all entry_ready (tc_entries c)" "set ranked \<subseteq> {i. i < length (tc_entries c)}"
  defines "body \<equiv> \<lambda>n. search_text (catalog_payloads c (take n ranked)) (n < length ranked)"
  shows "search_reply c ranked n = Some (text_response (body n), 55 + embedded (body n))"
    "sum_list (take n (map (\<lambda>i. ce_size (tc_entries c ! i)) ranked)) \<le> embedded (body n)"
    "list_all (\<lambda>s. 0 \<le> s) (map (\<lambda>i. ce_size (tc_entries c ! i)) ranked)"
proof -
  have e: "entry_ready (tc_entries c ! i)" if "i \<in> set ranked" for i
    using assms(1,2) that by (auto simp: list_all_length)
  then have t: "entry_ready (tc_entries c ! i)" if "i \<in> set (take n ranked)" for i
    using that by (auto dest: in_set_takeD)
  have "list_all payload_ok (catalog_payloads c (take n ranked))"
    using t by (auto simp: catalog_payloads_def list_all_iff entry_ready_def)
  from search_encoded [OF this] show "search_reply c ranked n = Some (text_response (body n), 55 + embedded (body n))"
    by (simp add: search_reply_def catalog_text_reply_def body_def text_reply_size)
  have "ce_size (tc_entries c ! i) \<le> embedded (wire_json (payload_json (ce_payload (tc_entries c ! i))))"
    if "i \<in> set (take n ranked)" for i
    using t [OF that] payload_wire_cost by (auto simp: entry_ready_def)
  then have "sum_list (map (\<lambda>i. ce_size (tc_entries c ! i)) (take n ranked))
      \<le> sum_list (map (\<lambda>i. embedded (wire_json (payload_json (ce_payload (tc_entries c ! i))))) (take n ranked))"
    by (rule sum_list_mono)
  also have "\<dots> \<le> embedded (body n)"
    using search_text_cost [of "catalog_payloads c (take n ranked)"] by (simp add: body_def catalog_payloads_def comp_def)
  finally show "sum_list (take n (map (\<lambda>i. ce_size (tc_entries c ! i)) ranked)) \<le> embedded (body n)"
    by (simp add: take_map)
  have "0 \<le> ce_size (tc_entries c ! i)" if "i \<in> set ranked" for i
    using e [OF that] by (auto simp: entry_ready_def catalog_wire_size_def)
  then show "list_all (\<lambda>s. 0 \<le> s) (map (\<lambda>i. ce_size (tc_entries c ! i)) ranked)" by (simp add: list_all_iff)
qed


text \<open>What a server's catalog is once the server is built: prepared, within the limits of its limits.\<close>

definition catalog_ready :: "framework \<Rightarrow> tool_catalog \<Rightarrow> bool" where
  "catalog_ready fw c \<longleftrightarrow>
     min_catalog_max_tool_calls \<le> tc_max_calls c \<and> tc_max_calls c \<le> max_catalog_max_tool_calls
     \<and> min_catalog_max_output_bytes \<le> tc_max_bytes c \<and> tc_max_bytes c \<le> max_catalog_max_output_bytes
     \<and> (tc_dup c = [] \<longrightarrow> tc_entries c = map (catalog_entry_for fw) (tc_tools c)
          \<and> distinct (map tl_name (tc_tools c)) \<and> (\<not> tc_encode_err c \<longrightarrow> list_all (entry_encodes fw) (tc_tools c)))"

lemma catalog_ready_bytes: "catalog_ready fw c \<Longrightarrow> 512 \<le> tc_max_bytes c \<and> tc_max_bytes c < 10 ^ 18"
  by (simp add: catalog_ready_def min_catalog_max_output_bytes_def max_catalog_max_output_bytes_def)

lemma catalog_ready_entries:
  "catalog_ready fw c \<Longrightarrow> tc_dup c = [] \<Longrightarrow> \<not> tc_encode_err c \<Longrightarrow> list_all entry_ready (tc_entries c)"
  using entry_for_ready by (auto simp: catalog_ready_def list_all_iff)

lemma first_repeat: "first_repeat seen ns = None \<longleftrightarrow> distinct ns \<and> set ns \<inter> set seen = {}"
  by (induction seen ns rule: first_repeat.induct) auto

section \<open>What a search replies\<close>

text \<open>A number of entries a reply may carry.\<close>

definition carries :: "tool_catalog \<Rightarrow> nat list \<Rightarrow> int \<Rightarrow> nat \<Rightarrow> bool" where
  "carries c ranked limit n \<longleftrightarrow> n \<le> length ranked \<and> (0 < n \<longrightarrow> int n \<le> limit) \<and> (n = 0 \<longrightarrow> ranked = [])
     \<and> (case search_reply c ranked n of None \<Rightarrow> False | Some (resp, nbytes) \<Rightarrow> nbytes \<le> tc_max_bytes c)"

lemma search_longest:
  fixes fw :: framework
  assumes "list_all entry_ready (tc_entries c)"
  shows "(\<exists>n. carries c (rank fw c query) limit n \<and> (\<forall>m > n. \<not> carries c (rank fw c query) limit m)
        \<and> catalog_search fw c query limit = map_option fst (search_reply c (rank fw c query) n))
    \<or> (\<forall>n. \<not> carries c (rank fw c query) limit n) \<and> catalog_search fw c query limit = search_limit_exceeded c"
proof -
  define ranked where "ranked = rank fw c query"
  let ?ss = "map (\<lambda>i. ce_size (tc_entries c ! i)) ranked"
  define body where "body = (\<lambda>n. search_text (catalog_payloads c (take n ranked)) (n < length ranked))"
  define r where "r = (\<lambda>n. text_response (body n))"
  define s where "s = (\<lambda>n. 55 + embedded (body n))"
  define fit where "fit = (\<lambda>m. s m \<le> tc_max_bytes c \<and> (m = 0 \<longrightarrow> ranked = []))"
  define k where "k = fitting_prefix (tc_max_bytes c) limit ?ss 0 0"
  have i: "set ranked \<subseteq> {i. i < length (tc_entries c)}"
    using rank_order(2) [of fw c query] by (auto simp: ranked_def)
  note ready = search_reply_ready [OF assms(1) i]
  have rep: "search_reply c ranked m = Some (r m, s m)" for m
    using ready(1) [of m] by (simp add: r_def s_def body_def)
  have k: "k \<le> length ranked" "0 < k \<Longrightarrow> int k \<le> limit"
    "\<And>m. k < m \<Longrightarrow> m \<le> length ranked \<Longrightarrow> limit < int m \<or> tc_max_bytes c < sum_list (take m ?ss)"
    using fitting_prefix [OF ready(3), of 0 "tc_max_bytes c" limit 0] by (auto simp: k_def)
  have carries: "carries c ranked limit m \<longleftrightarrow> m \<le> k \<and> fit m" for m
  proof
    assume m: "carries c ranked limit m"
    then have f: "fit m" "m \<le> length ranked" "0 < m \<Longrightarrow> int m \<le> limit" by (auto simp: carries_def rep fit_def)
    have "\<not> k < m"
    proof
      assume km: "k < m"
      with k(3) [of m] f have "tc_max_bytes c < sum_list (take m ?ss)" by auto
      then show False using ready(2) [of m] f(1) by (simp add: fit_def s_def body_def)
    qed
    with f show "m \<le> k \<and> fit m" by simp
  next
    assume "m \<le> k \<and> fit m"
    then show "carries c ranked limit m" using k by (auto simp: carries_def rep fit_def)
  qed
  have "(\<exists>n \<le> k. fit n \<and> (\<forall>m. n < m \<longrightarrow> m \<le> k \<longrightarrow> \<not> fit m) \<and> search_down c ranked k = Some (Some (r n)))
    \<or> (\<forall>m \<le> k. \<not> fit m) \<and> search_down c ranked k = Some None"
    unfolding fit_def by (rule search_down [OF rep])
  then show ?thesis
  proof
    assume "\<exists>n \<le> k. fit n \<and> (\<forall>m. n < m \<longrightarrow> m \<le> k \<longrightarrow> \<not> fit m) \<and> search_down c ranked k = Some (Some (r n))"
    then obtain n where n: "n \<le> k" "fit n" "\<forall>m. n < m \<longrightarrow> m \<le> k \<longrightarrow> \<not> fit m" "search_down c ranked k = Some (Some (r n))"
      by blast
    then have "catalog_search fw c query limit = map_option fst (search_reply c ranked n)"
      using rep [of n] by (simp add: catalog_search_def Let_def k_def ranked_def)
    then show ?thesis using n carries unfolding ranked_def by blast
  next
    assume no: "(\<forall>m \<le> k. \<not> fit m) \<and> search_down c ranked k = Some None"
    then have "catalog_search fw c query limit = search_limit_exceeded c"
      by (simp add: catalog_search_def Let_def k_def ranked_def)
    then show ?thesis using no carries unfolding ranked_def by blast
  qed
qed

lemma search_limit_fits:
  assumes "0 \<le> tc_max_bytes c" "tc_max_bytes c < 10 ^ 18"
  shows "\<exists>resp n. search_limit_exceeded c = Some resp \<and> catalog_reply_size resp = Some n \<and> n \<le> 512"
proof -
  let ?m = "tc_max_bytes c"
  let ?d = "int_to_dec ?m"
  let ?t = "''{\"ok\":false,\"error\":{\"kind\":\"OutputLimitExceeded\",\"message\":\"The tool output exceeded ''
    @ ?d @ '' bytes.\"}}''"
  have p: "plain_name (limit_message ?m)" "wire_body catalog_kind_output_limit = catalog_kind_output_limit"
    using failure_texts_plain assms(1) by (simp_all add: wire_body_plain)
  have t: "catalog_encode (search_limit_tree ?m) = Some ?t"
    using p(2) wire_body_plain [OF p(1)]
    by (simp add: search_limit_tree_def limit_error_tree_def field_def catalog_encode_def quoted_def
        limit_message_def catalog_kind_output_limit_def)
  have a: "list_all (\<lambda>c. byte c < 128)
      ''{\"ok\":false,\"error\":{\"kind\":\"OutputLimitExceeded\",\"message\":\"The tool output exceeded ''" by simp
  have l: "embedded ''{\"ok\":false,\"error\":{\"kind\":\"OutputLimitExceeded\",\"message\":\"The tool output exceeded '' = 97"
    "embedded '' bytes.\"}}'' = 11"
    by (simp_all add: embedded_quotes plain_name_def)
  obtain n where n: "?m = int n" using assms(1) nonneg_int_cases by blast
  then have d: "list_all (\<lambda>c. byte c < 128) ?d" "embedded ?d \<le> 18"
    using digits_embedded [of n 18] assms(2) by simp_all
  have "embedded ?t \<le> 200"
    unfolding embedded_ascii_append [OF a] embedded_ascii_append [OF d(1)] l using d(2) by linarith
  then show ?thesis
    by (simp add: search_limit_exceeded_def catalog_text_reply_def t text_error_size)
qed

lemma search_fits:
  assumes "list_all entry_ready (tc_entries c)" "512 \<le> tc_max_bytes c" "tc_max_bytes c < 10 ^ 18"
  shows "\<exists>resp n. catalog_search fw c query limit = Some resp \<and> catalog_reply_size resp = Some n \<and> n \<le> tc_max_bytes c"
proof -
  consider (some) n where "carries c (rank fw c query) limit n"
      "catalog_search fw c query limit = map_option fst (search_reply c (rank fw c query) n)"
    | (none) "catalog_search fw c query limit = search_limit_exceeded c"
    using search_longest [OF assms(1), of fw query limit] by blast
  then show ?thesis
  proof cases
    case some
    have "catalog_reply_size resp = Some m" if "search_reply c ranked n = Some (resp, m)" for resp m ranked
      using that by (auto simp: search_reply_def catalog_text_reply_def Let_def split: option.splits)
    then show ?thesis using some by (auto simp: carries_def split: option.splits)
  next
    case none
    then show ?thesis using search_limit_fits [of c] assms(2,3) by fastforce
  qed
qed

lemma search_handle_fits_limit:
  assumes "catalog_ready fw c"
  shows "\<exists>n. catalog_reply_size (search_handle fw c r) = Some n \<and> n \<le> tc_max_bytes c"
proof -
  have b: "512 \<le> tc_max_bytes c" "tc_max_bytes c < 10 ^ 18" using catalog_ready_bytes [OF assms] by auto
  then have m: "\<exists>n. catalog_reply_size (message_reply (tc_max_bytes c) msg) = Some n \<and> n \<le> tc_max_bytes c" for msg
    by (intro message_reply_fits) simp
  have s: "\<exists>resp n. catalog_search fw c q l = Some resp \<and> catalog_reply_size resp = Some n \<and> n \<le> tc_max_bytes c"
    if "tc_dup c = []" "\<not> tc_encode_err c" for q l
    using search_fits [OF catalog_ready_entries [OF assms that] b] .
  show ?thesis
    using m s [of "case string_ok r ''query'' of Some q \<Rightarrow> q | None \<Rightarrow> []" "catalog_search_limit r"]
    unfolding search_handle_def config_response_def encode_failure_def
    by (auto split: option.splits)
qed


section \<open>Properties\<close>

text \<open>
  The ranking of a query lists, once each, exactly the entries that match: every entry when the query
  has no term, else those with a positive score. A better score comes first, and equal scores keep the
  order of registration.
\<close>

theorem rank_exact:
  "distinct (rank fw c query)
   \<and> set (rank fw c query) = {i. i < length (tc_entries c)
       \<and> (catalog_query_terms fw query = []
          \<or> 0 < entry_score fw (catalog_query_terms fw query) (tc_entries c ! i))}
   \<and> sorted_wrt (\<lambda>i j. entry_score fw (catalog_query_terms fw query) (tc_entries c ! j)
          < entry_score fw (catalog_query_terms fw query) (tc_entries c ! i)
        \<or> entry_score fw (catalog_query_terms fw query) (tc_entries c ! i)
          = entry_score fw (catalog_query_terms fw query) (tc_entries c ! j) \<and> i < j) (rank fw c query)"
  using rank_order [where fw = fw and c = c and q = query] by blast

text \<open>
  A search result describes a tool as \<open>tools/list\<close> does, member for member: the same name, title,
  description, input schema and annotations, and the output schema exactly when the tool declares one.
\<close>

theorem payload_as_listed:
  "(let p = catalog_payload_for fw t; listed = tool_to_map (fw_headline fw) t
    in map_of listed ''name'' = Some (AStr (cy_name p)) \<and> map_of listed ''title'' = Some (AStr (cy_title p))
       \<and> map_of listed ''description'' = Some (AStr (cy_description p))
       \<and> map_of listed ''inputSchema'' = Some (AMap (cy_input p))
       \<and> map_of listed ''outputSchema'' = (if cy_output p = [] then None else Some (AMap (cy_output p)))
       \<and> map_of listed ''annotations'' = Some (AMap (cy_annotations p)))"
proof -
  have s: "with_properties schema = catalog_schema_map schema" for schema
    by (simp add: with_properties_def catalog_schema_map_def put_if_def)
  have n: "catalog_schema_map schema \<noteq> []" for schema
    by (cases schema) (auto simp: catalog_schema_map_def has_key_def)
  show ?thesis
    by (cases "tl_output_schema t")
      (auto simp: catalog_payload_for_def tool_to_map_def put_some_def s n catalog_title_def server_title_def Let_def
        split: option.splits)
qed

text \<open>
  C38. A search over a finished catalog returns the best entries of the ranking, as many of them as the
  limit of the query and the output limit allow: no longer beginning of the ranking could have been
  carried, although the prepared sizes rule some out before they are rendered. Where not one entry can
  be carried, it returns the report of the limit.
\<close>

theorem search_carries_longest:
  assumes "catalog_ready fw c" "tc_dup c = []" "\<not> tc_encode_err c"
  shows "(\<exists>n. carries c (rank fw c query) limit n \<and> (\<forall>m > n. \<not> carries c (rank fw c query) limit m)
        \<and> catalog_search fw c query limit = map_option fst (search_reply c (rank fw c query) n))
    \<or> (\<forall>n. \<not> carries c (rank fw c query) limit n) \<and> catalog_search fw c query limit = search_limit_exceeded c"
  by (rule search_longest) (rule catalog_ready_entries [OF assms])

definition sample_framework :: framework where
  "sample_framework =
     \<lparr>fw_lower = (\<lambda>s. s), fw_headline = (\<lambda>s. s), fw_length = length,
      fw_contains = (\<lambda>s t. index_of s t \<noteq> None), fw_replace_first = (\<lambda>a b s. s),
      fw_engine = (\<lambda>args rules. None), fw_word = (\<lambda>x. 97 \<le> x \<and> x \<le> 122)\<rparr>"

definition sample_tool :: "bytes \<Rightarrow> tool" where
  "sample_tool name =
     \<lparr>tl_name = name, tl_description = ''adds'', tl_title = None, tl_input_schema = [], tl_output_schema = None,
      tl_annotations = None, tl_handle = (\<lambda>req w. (Inr (Some (text_response ''done'')), w))\<rparr>"

definition sample_catalog :: tool_catalog where
  "sample_catalog = prepare sample_framework
     (new_tool_catalog\<lparr>tc_tools := [sample_tool ''add'', sample_tool ''sum''], tc_installed := True\<rparr>)"

lemma sample_tool_name [simp]: "tl_name (sample_tool name) = name"
  by (simp add: sample_tool_def)

lemma sample_tools: "tc_tools sample_catalog = [sample_tool ''add'', sample_tool ''sum'']"
  by (simp add: sample_catalog_def prepare_def split: option.split)

lemma sample_ready:
  "catalog_ready sample_framework sample_catalog" "tc_dup sample_catalog = []" "\<not> tc_encode_err sample_catalog"
  "tc_config sample_catalog = []" "tc_max_bytes sample_catalog = 65536"
proof -
  have t: "entry_encodes sample_framework (sample_tool name)" for name
  proof -
    have p: "catalog_payload_for sample_framework (sample_tool name) = \<lparr>cy_name = name, cy_title = name,
        cy_description = ''adds'', cy_input = [(''properties'', AMap [])], cy_output = [], cy_annotations = []\<rparr>"
      by (simp add: catalog_payload_for_def sample_framework_def sample_tool_def catalog_title_def
          catalog_schema_map_def has_key_def put_def)
    show ?thesis
      by (simp add: entry_encodes_def p Let_def catalog_encode_def catalog_wire_size_def payload_tree_def field_def omit_empty_def)
  qed
  have n: "map tl_name [sample_tool ''add'', sample_tool ''sum''] = [''add'', ''sum'']" by simp
  have c: "sample_catalog = new_tool_catalog\<lparr>tc_tools := [sample_tool ''add'', sample_tool ''sum''], tc_installed := True,
      tc_entries := map (catalog_entry_for sample_framework) [sample_tool ''add'', sample_tool ''sum'']\<rparr>"
    unfolding sample_catalog_def prepare_def by (simp add: n t new_tool_catalog_def del: list.map)
  show "catalog_ready sample_framework sample_catalog"
    by (simp add: c catalog_ready_def t new_tool_catalog_def min_catalog_max_tool_calls_def
        max_catalog_max_tool_calls_def min_catalog_max_output_bytes_def max_catalog_max_output_bytes_def
        default_catalog_max_tool_calls_def default_catalog_max_output_bytes_def)
  show "tc_dup sample_catalog = []" "\<not> tc_encode_err sample_catalog" "tc_config sample_catalog = []"
    "tc_max_bytes sample_catalog = 65536"
    by (simp_all add: c new_tool_catalog_def default_catalog_max_output_bytes_def)
qed

theorem search_carries_longest_witness:
  "(\<exists>n. carries sample_catalog (rank sample_framework sample_catalog ''sum'') 10 n
        \<and> (\<forall>m > n. \<not> carries sample_catalog (rank sample_framework sample_catalog ''sum'') 10 m)
        \<and> catalog_search sample_framework sample_catalog ''sum'' 10
          = map_option fst (search_reply sample_catalog (rank sample_framework sample_catalog ''sum'') n))
    \<or> (\<forall>n. \<not> carries sample_catalog (rank sample_framework sample_catalog ''sum'') 10 n)
      \<and> catalog_search sample_framework sample_catalog ''sum'' 10 = search_limit_exceeded sample_catalog"
  by (rule search_carries_longest [OF sample_ready(1-3)])

text \<open>
  Whatever \<open>search_tools\<close> is asked, its reply is no larger than the output limit of the catalog,
  as the transport encodes the result.
\<close>

theorem search_reply_bounded:
  assumes "catalog_ready fw c"
  shows "\<exists>n. catalog_reply_size (search_handle fw c r) = Some n \<and> n \<le> tc_max_bytes c"
  by (rule search_handle_fits_limit [OF assms])

theorem search_reply_bounded_witness:
  "\<exists>n. catalog_reply_size (search_handle sample_framework sample_catalog (new_request [(''query'', AStr ''sum'')])) = Some n
     \<and> n \<le> 65536"
  using search_reply_bounded [OF sample_ready(1), of "new_request [(''query'', AStr ''sum'')]"] sample_ready(5) by simp

end
