(* ===== verification/Catalog_Execute.thy ===== *)
theory Catalog_Execute
  imports Catalog_Search Server
begin

text \<open>
  The \<open>execute_tools\<close> meta tool (\<open>server/tool_catalog.go\<close>): the calls of a batch, running one of them,
  and the loop that runs them in order until one fails, the output limit leaves no room, or the request
  is abandoned. Running gives the reply, the events dispatched and the frames written; whether the
  context of the request is done after a call is an argument. Durations and log lines are not modelled.
\<close>

section \<open>The calls of a batch\<close>

record catalog_call =
  cc_name :: bytes
  cc_arguments :: members

definition max_catalog_call_name_chars :: nat where "max_catalog_call_name_chars = 255"

definition call_name_rules :: "framework \<Rightarrow> rules" where
  "call_name_rules fw = [(''name'', [RRequired, RString, catalog_max_chars fw max_catalog_call_name_chars])]"

definition catalog_call_arguments :: "members \<Rightarrow> members option" where
  "catalog_call_arguments e =
     (case map_of e ''arguments'' of
        None \<Rightarrow> Some []
      | Some (AMap v) \<Rightarrow> Some v
      | Some (AList vs) \<Rightarrow> if vs = [] then Some [] else None
      | _ \<Rightarrow> None)"

text \<open>A message appended under a key.\<close>

definition add_message :: "bytes \<Rightarrow> bytes \<Rightarrow> failures \<Rightarrow> failures" where
  "add_message k m errs = put k ((case map_of errs k of None \<Rightarrow> [] | Some ms \<Rightarrow> ms) @ [m]) errs"

definition catalog_merge_field_errors :: "framework \<Rightarrow> bytes \<Rightarrow> go_error \<Rightarrow> failures \<Rightarrow> failures" where
  "catalog_merge_field_errors fw prefix e errs =
     fold (\<lambda>(f, ms). fold (\<lambda>m. add_message (prefix @ f)
             (fw_replace_first fw (''The '' @ f @ '' '') (''The '' @ prefix @ f @ '' '') m)) ms)
       (ge_fields e) errs"

definition call_key :: "nat \<Rightarrow> bytes" where
  "call_key i = ''calls.'' @ int_to_dec (int i)"

definition name_of_call :: "members \<Rightarrow> bytes" where
  "name_of_call obj = (case map_of obj ''name'' of Some (AStr s) \<Rightarrow> s | _ \<Rightarrow> [])"

text \<open>One entry: the failures with those of the entry, and the calls with that of the entry.\<close>

definition parse_call ::
  "framework \<Rightarrow> nat \<Rightarrow> any \<Rightarrow> failures \<times> catalog_call list \<Rightarrow> failures \<times> catalog_call list" where
  "parse_call fw i item st =
     (let key = call_key i; errs = fst st
      in case item of
           AMap obj \<Rightarrow>
             (let errs1 = (if list_ex (\<lambda>m. fst m \<noteq> ''name'' \<and> fst m \<noteq> ''arguments'') obj
                    then add_message key (''The '' @ key @ '' field must only contain the name and arguments keys.'') errs
                    else errs);
                  errs2 = (case check_rules fw (call_name_rules fw) (new_request obj) of
                      None \<Rightarrow> errs1
                    | Some e \<Rightarrow> catalog_merge_field_errors fw (key @ ''.'') e errs1)
              in case catalog_call_arguments obj of
                   None \<Rightarrow>
                     (add_message (key @ ''.arguments'') (''The '' @ key @ ''.arguments field must be an object.'') errs2,
                      snd st)
                 | Some args \<Rightarrow> (errs2, snd st @ [\<lparr>cc_name = name_of_call obj, cc_arguments = args\<rparr>]))
         | _ \<Rightarrow> (add_message key (''The '' @ key @ '' field must be an object.'') errs, snd st))"

definition catalog_parse_calls :: "framework \<Rightarrow> any list \<Rightarrow> go_error + catalog_call list" where
  "catalog_parse_calls fw raw =
     (case fold (\<lambda>(i, item). parse_call fw i item) (enumerate 0 raw) ([], []) of
        (errs, calls) \<Rightarrow>
          if errs \<noteq> [] then Inl \<lparr>ge_rpc = None, ge_validation = True, ge_fields = errs\<rparr> else Inr calls)"

section \<open>Running a call\<close>

definition catalog_failure_message :: "go_error \<Rightarrow> bytes" where
  "catalog_failure_message e =
     (case ge_rpc e of
        Some r \<Rightarrow> if err_message r \<noteq> [] then err_message r else internal_error_message
      | None \<Rightarrow> internal_error_message)"

definition catalog_failed_result :: "bytes \<Rightarrow> members" where
  "catalog_failed_result message =
     (case tool_result (Some (error_response message)) of Some result \<Rightarrow> result | None \<Rightarrow> [])"

definition call_request :: "prim_request \<Rightarrow> catalog_call \<Rightarrow> prim_request" where
  "call_request parent call =
     (new_request (cc_arguments call))\<lparr>pr_session := pr_session parent, pr_meta := pr_meta parent\<rparr>"

definition catalog_target :: "tool_catalog \<Rightarrow> bytes \<Rightarrow> tool option" where
  "catalog_target c name = map_option ce_tool (find (\<lambda>e. cy_name (ce_payload e) = name) (tc_entries c))"

definition catalog_invoke ::
  "server \<Rightarrow> tool_catalog \<Rightarrow> prim_request \<Rightarrow> catalog_call \<Rightarrow> wire \<Rightarrow> members \<times> server_event list \<times> wire" where
  "catalog_invoke s c parent call w =
     (case catalog_target c (cc_name call) of
        None \<Rightarrow>
          (catalog_failed_result (''Tool ['' @ cc_name call @ ''] was not found in the catalog.''),
           dispatch s (ToolFailed (pr_session parent) (cc_name call) (Some (cc_arguments call)) None), w)
      | Some t \<Rightarrow>
          (case invoke_tool t (call_request parent call) w of
             (Inl e, w') \<Rightarrow>
               (catalog_failed_result (catalog_failure_message e),
                dispatch s (ToolFailed (pr_session parent) (cc_name call) (Some (cc_arguments call)) (Some e)), w')
           | (Inr result, w') \<Rightarrow>
               (result,
                dispatch s (ToolCalled (pr_session parent) (cc_name call) (Some (cc_arguments call))
                  (map_of result ''isError'' = Some (ABool True))), w')))"

section \<open>The batch\<close>

definition batch_progress :: "nat \<Rightarrow> nat \<Rightarrow> bytes \<Rightarrow> progress_update" where
  "batch_progress i of_calls name =
     \<lparr>pg_progress = int_to_dec (int (i + 1)), pg_total = int_to_dec (int of_calls), pg_message = ''Ran ['' @ name @ ''].''\<rparr>"

fun execute_loop ::
  "server \<Rightarrow> tool_catalog \<Rightarrow> (nat \<Rightarrow> bool) \<Rightarrow> prim_request \<Rightarrow> nat \<Rightarrow> nat \<Rightarrow> catalog_call list \<Rightarrow> batch_entry list \<Rightarrow>
     response \<Rightarrow> server_event list \<Rightarrow> wire \<Rightarrow> response option \<times> server_event list \<times> wire" where
  "execute_loop s c abandoned req requested i [] entries held events w = (Some held, events, w)"
| "execute_loop s c abandoned req requested i (call # calls) entries held events w =
     (if \<not> can_report (tc_max_bytes c) requested entries (cc_name call) i then (Some held, events, w)
      else case catalog_invoke s c req call w of
        (result, evs, w1) \<Rightarrow>
          (let e = batch_entry_for i (cc_name call) result;
               entries1 = entries @ [e];
               w2 = snd (report_progress req (batch_progress i requested (cc_name call)) w1);
               failed = (\<lambda>kind message.
                 (fst (fail_reply (tc_max_bytes c) requested entries kind message (cc_name call) i), events @ evs, w2))
           in case batch_render (batch_report requested entries1 (\<not> be_error e)) entries1 of
                None \<Rightarrow> failed catalog_kind_encode_failure catalog_encode_failure_message
              | Some (nxt, nbytes) \<Rightarrow>
                  if tc_max_bytes c < nbytes
                  then failed catalog_kind_output_limit (limit_message (tc_max_bytes c))
                  else if be_error e \<or> abandoned i then (Some nxt, events @ evs, w2)
                  else execute_loop s c abandoned req requested (Suc i) calls entries1 nxt (events @ evs) w2))"

definition execute_rules :: "tool_catalog \<Rightarrow> rules" where
  "execute_rules c = [(''calls'', [RRequired, RArray, RMin 1, RMax (tc_max_calls c)])]"

definition calls_argument :: "prim_request \<Rightarrow> any list" where
  "calls_argument req = (case arg_get req ''calls'' of AList vs \<Rightarrow> vs | _ \<Rightarrow> [])"

definition execute_handle ::
  "framework \<Rightarrow> server \<Rightarrow> tool_catalog \<Rightarrow> (nat \<Rightarrow> bool) \<Rightarrow> prim_request \<Rightarrow> wire \<Rightarrow>
     response option \<times> server_event list \<times> wire" where
  "execute_handle fw s c abandoned req w =
     (case config_response c of
        Some resp \<Rightarrow> (Some resp, [], w)
      | None \<Rightarrow>
          (case check_rules fw (execute_rules c) req of
             Some e \<Rightarrow> (Some (message_reply (tc_max_bytes c) (validation_message e)), [], w)
           | None \<Rightarrow>
               (case catalog_parse_calls fw (calls_argument req) of
                  Inl e \<Rightarrow> (Some (message_reply (tc_max_bytes c) (validation_message e)), [], w)
                | Inr calls \<Rightarrow>
                    if tc_dup c \<noteq> [] then (Some (message_reply (tc_max_bytes c) (tc_dup c)), [], w)
                    else
                      (case batch_render (batch_report (length calls) [] True) [] of
                         None \<Rightarrow> (Some (encode_failure c), [], w)
                       | Some (held, _) \<Rightarrow>
                           execute_loop s c abandoned req (length calls) 0 calls [] held [] w))))"


section \<open>What a batch does\<close>

text \<open>Running calls one after another, whatever comes back: their entries, events and frames.\<close>

fun run_calls ::
  "server \<Rightarrow> tool_catalog \<Rightarrow> prim_request \<Rightarrow> nat \<Rightarrow> nat \<Rightarrow> catalog_call list \<Rightarrow> wire \<Rightarrow>
     batch_entry list \<times> server_event list \<times> wire" where
  "run_calls s c req requested i [] w = ([], [], w)"
| "run_calls s c req requested i (call # calls) w =
     (case catalog_invoke s c req call w of
        (result, evs, w1) \<Rightarrow>
          (case run_calls s c req requested (Suc i) calls
                  (snd (report_progress req (batch_progress i requested (cc_name call)) w1)) of
             (es, evs', w2) \<Rightarrow> (batch_entry_for i (cc_name call) result # es, evs @ evs', w2)))"

definition batch_render_all :: "nat \<Rightarrow> batch_entry list \<Rightarrow> (response \<times> int) option" where
  "batch_render_all requested es = batch_render (batch_report requested es (\<not> list_ex be_error es)) es"

text \<open>The reply reports every call that past, and says why the others did not.\<close>

definition reply_reports ::
  "int \<Rightarrow> catalog_call list \<Rightarrow> (nat \<Rightarrow> bool) \<Rightarrow> batch_entry list \<Rightarrow> response \<Rightarrow> bool" where
  "reply_reports b calls abandoned es resp \<longleftrightarrow>
     (\<exists>n. batch_render_all (length calls) es = Some (resp, n) \<and> n \<le> b)
     \<and> (length es < length calls \<longrightarrow>
          list_ex be_error es \<or> es \<noteq> [] \<and> abandoned (length es - 1)
          \<or> \<not> can_report b (length calls) es (cc_name (calls ! length es)) (length es))"

text \<open>The reply names the last call that past, whose result it cannot carry, and reports the others.\<close>

definition reply_omits :: "int \<Rightarrow> catalog_call list \<Rightarrow> batch_entry list \<Rightarrow> response \<Rightarrow> bool" where
  "reply_omits b calls es resp \<longleftrightarrow>
     (\<exists>kept e kind message. es = kept @ [e] \<and> (kind, message) \<in> failures b
        \<and> can_report b (length calls) kept (cc_name (calls ! length kept)) (length kept)
        \<and> (case batch_render_all (length calls) es of
             None \<Rightarrow> kind = catalog_kind_encode_failure
           | Some (_, n) \<Rightarrow> kind = catalog_kind_output_limit \<and> b < n)
        \<and> fst (fail_reply b (length calls) kept kind message (cc_name (calls ! length kept)) (length kept)) = Some resp)"

lemma run_calls_measured: "run_calls s c req requested i calls w = (es, evs, w') \<Longrightarrow> list_all measured es \<and> length es = length calls"
proof (induction calls arbitrary: i w es evs w')
  case (Cons call calls)
  then show ?case by (force simp: batch_entry_measured split: prod.splits)
qed simp

lemma execute_loop_runs:
  assumes "list_all measured kept" "0 \<le> tc_max_bytes c" "\<not> list_ex be_error kept" "all = past @ calls"
    "length past = length kept" "kept \<noteq> [] \<longrightarrow> \<not> abandoned (length kept - 1)"
    "batch_render_all (length all) kept = Some (held, n)" "n \<le> tc_max_bytes c"
    "execute_loop s c abandoned req (length all) (length kept) calls kept held events w = (resp, evs, w')"
  shows "\<exists>m \<le> length calls. \<exists>es evs1 r. run_calls s c req (length all) (length kept) (take m calls) w = (es, evs1, w')
    \<and> evs = events @ evs1 \<and> list_all (\<lambda>e. \<not> be_error e) (butlast es) \<and> resp = Some r
    \<and> (reply_reports (tc_max_bytes c) all abandoned (kept @ es) r \<or> reply_omits (tc_max_bytes c) all (kept @ es) r)"
  using assms
proof (induction calls arbitrary: kept past held n events w)
  case Nil
  then have "reply_reports (tc_max_bytes c) all abandoned kept held" by (auto simp: reply_reports_def)
  with Nil.prems(9) show ?case by auto
next
  case (Cons call calls)
  let ?b = "tc_max_bytes c" and ?i = "length kept"
  have call: "all ! ?i = call" "?i < length all" using Cons.prems(4,5) by (simp_all add: nth_append)
  show ?case
  proof (cases "can_report ?b (length all) kept (cc_name call) ?i")
    case False
    then have "reply_reports ?b all abandoned kept held" using Cons.prems(7,8) call by (auto simp: reply_reports_def)
    moreover have "resp = Some held" "evs = events" "w' = w" using Cons.prems(9) False by simp_all
    ultimately show ?thesis by (intro exI [of _ 0]) simp
  next
    case True
    obtain result evs1 w1 where i: "catalog_invoke s c req call w = (result, evs1, w1)" by (cases "catalog_invoke s c req call w")
    define e where "e = batch_entry_for ?i (cc_name call) result"
    define w2 where "w2 = snd (report_progress req (batch_progress ?i (length all) (cc_name call)) w1)"
    have e: "measured e" by (simp add: e_def batch_entry_measured)
    have run1: "run_calls s c req (length all) ?i (take 1 (call # calls)) w = ([e], evs1, w2)"
      by (simp add: i e_def w2_def)
    have r: "batch_render_all (length all) (kept @ [e]) = batch_render (batch_report (length all) (kept @ [e]) (\<not> be_error e)) (kept @ [e])"
      using Cons.prems(3) by (simp add: batch_render_all_def)
    have loop: "execute_loop s c abandoned req (length all) ?i (call # calls) kept held events w =
        (case batch_render_all (length all) (kept @ [e]) of
           None \<Rightarrow> (fst (fail_reply ?b (length all) kept catalog_kind_encode_failure catalog_encode_failure_message
                          (cc_name call) ?i), events @ evs1, w2)
         | Some (nxt, nbytes) \<Rightarrow>
             if ?b < nbytes
             then (fst (fail_reply ?b (length all) kept catalog_kind_output_limit (limit_message ?b)
                          (cc_name call) ?i), events @ evs1, w2)
             else if be_error e \<or> abandoned ?i then (Some nxt, events @ evs1, w2)
             else execute_loop s c abandoned req (length all) (Suc ?i) calls (kept @ [e]) nxt (events @ evs1) w2)"
      using True unfolding r unfolding e_def w2_def by (simp add: i Let_def)
    have omit: ?thesis
      if f: "(kind, message) \<in> failures ?b"
        "case batch_render_all (length all) (kept @ [e]) of None \<Rightarrow> kind = catalog_kind_encode_failure
           | Some (_, n) \<Rightarrow> kind = catalog_kind_output_limit \<and> ?b < n"
        "(resp, evs, w') = (fst (fail_reply ?b (length all) kept kind message (cc_name call) ?i), events @ evs1, w2)"
      for kind message
    proof -
      obtain rr where rr: "fst (fail_reply ?b (length all) kept kind message (cc_name call) ?i) = Some rr"
        using can_report_fails [OF Cons.prems(1,2) True f(1)] by metis
      then have "reply_omits ?b all (kept @ [e]) rr" "resp = Some rr"
        using f rr True call by (auto simp: reply_omits_def)
      then show ?thesis
        by (intro exI [of _ 1] conjI exI [of _ "[e]"] exI [of _ evs1] exI [of _ rr])
          (use run1 f(3) in auto)
    qed
    show ?thesis
    proof (cases "batch_render_all (length all) (kept @ [e])")
      case None
      then show ?thesis using Cons.prems(9) loop by (intro omit) (auto simp: failures_def)
    next
      case (Some rn)
      then obtain nxt nbytes where nxt: "batch_render_all (length all) (kept @ [e]) = Some (nxt, nbytes)" by (cases rn) auto
      consider (big) "?b < nbytes" | (stop) "nbytes \<le> ?b" "be_error e \<or> abandoned ?i"
        | (on) "nbytes \<le> ?b" "\<not> be_error e" "\<not> abandoned ?i" by linarith
      then show ?thesis
      proof cases
        case big
        then show ?thesis using Cons.prems(9) loop nxt by (intro omit) (auto simp: failures_def)
      next
        case stop
        then have "reply_reports ?b all abandoned (kept @ [e]) nxt" using nxt by (auto simp: reply_reports_def)
        moreover have "resp = Some nxt" "evs = events @ evs1" "w' = w2" using Cons.prems(9) stop loop nxt by simp_all
        ultimately show ?thesis using run1 by (intro exI [of _ 1]) auto
      next
        case on
        have l: "execute_loop s c abandoned req (length all) (length (kept @ [e])) calls (kept @ [e]) nxt (events @ evs1) w2
            = (resp, evs, w')"
          using Cons.prems(9) on loop nxt by simp
        obtain m es evs2 rr where m: "m \<le> length calls"
          "run_calls s c req (length all) (length (kept @ [e])) (take m calls) w2 = (es, evs2, w')"
          "evs = (events @ evs1) @ evs2" "list_all (\<lambda>e. \<not> be_error e) (butlast es)" "resp = Some rr"
          "reply_reports ?b all abandoned ((kept @ [e]) @ es) rr \<or> reply_omits ?b all ((kept @ [e]) @ es) rr"
          using Cons.IH [OF _ Cons.prems(2) _ _ _ _ nxt on(1) l, of "past @ [call]"] Cons.prems(1,3,4,5) e on
          by auto
        have "run_calls s c req (length all) ?i (take (Suc m) (call # calls)) w = (e # es, evs1 @ evs2, w')"
          using m(2) by (simp add: i e_def w2_def)
        moreover have "list_all (\<lambda>e. \<not> be_error e) (butlast (e # es))" using m(4) on by simp
        ultimately show ?thesis using m(1,3,5,6)
          by (intro exI [of _ "Suc m"] conjI exI [of _ "e # es"] exI [of _ "evs1 @ evs2"] exI [of _ rr]) auto
      qed
    qed
  qed
qed


lemma execute_outcome_runs:
  assumes "catalog_ready fw c" "tc_config c = []" "tc_dup c = []" "check_rules fw (execute_rules c) req = None"
    "catalog_parse_calls fw (calls_argument req) = Inr calls" "length calls < 10 ^ 18"
    "execute_handle fw s c abandoned req w = (resp, evs, w')"
  shows "\<exists>m \<le> length calls. \<exists>es r. run_calls s c req (length calls) 0 (take m calls) w = (es, evs, w')
    \<and> (calls \<noteq> [] \<longrightarrow> 0 < m) \<and> list_all (\<lambda>e. \<not> be_error e) (butlast es) \<and> resp = Some r
    \<and> (reply_reports (tc_max_bytes c) calls abandoned es r \<or> reply_omits (tc_max_bytes c) calls es r)"
proof -
  let ?b = "tc_max_bytes c"
  have b: "512 \<le> ?b" "?b < 10 ^ 18" using catalog_ready_bytes [OF assms(1)] by auto
  obtain held n where held: "batch_render (batch_report (length calls) [] True) [] = Some (held, n)" "n \<le> ?b"
    using empty_reply [OF assms(6)] b(1) by auto
  have "execute_loop s c abandoned req (length calls) 0 calls [] held [] w = (resp, evs, w')"
    using assms held by (simp add: execute_handle_def config_response_def)
  then obtain m es r where m: "m \<le> length calls" "run_calls s c req (length calls) 0 (take m calls) w = (es, evs, w')"
    "list_all (\<lambda>e. \<not> be_error e) (butlast es)" "resp = Some r"
    "reply_reports ?b calls abandoned es r \<or> reply_omits ?b calls es r"
    using execute_loop_runs [of "[]" c calls "[]" calls abandoned held n s req "[]" w resp evs w'] b held
    by (auto simp: batch_render_all_def)
  have "0 < m" if c: "calls \<noteq> []"
  proof (rule ccontr)
    assume "\<not> 0 < m"
    with m(2) have "es = []" by simp
    with m(5) c have "\<not> can_report ?b (length calls) [] (cc_name (calls ! 0)) 0"
      by (auto simp: reply_reports_def reply_omits_def)
    then show False using first_call_reportable [OF b assms(6)] by simp
  qed
  with m show ?thesis by blast
qed

lemma outcome_fits:
  assumes "list_all measured es" "0 \<le> b" "reply_reports b calls abandoned es r \<or> reply_omits b calls es r"
  shows "\<exists>n. catalog_reply_size r = Some n \<and> n \<le> b"
  using assms(3)
proof
  assume "reply_reports b calls abandoned es r"
  then show ?thesis
    by (auto simp: reply_reports_def batch_render_all_def render_measured [OF assms(1)] split: option.splits)
next
  assume "reply_omits b calls es r"
  then obtain kept e kind message where k: "es = kept @ [e]" "(kind, message) \<in> failures b"
    "can_report b (length calls) kept (cc_name (calls ! length kept)) (length kept)"
    "fst (fail_reply b (length calls) kept kind message (cc_name (calls ! length kept)) (length kept)) = Some r"
    by (auto simp: reply_omits_def)
  have "list_all measured kept" using assms(1) k(1) by simp
  from can_report_fails [OF this assms(2) k(3,2)] k(4) show ?thesis by force
qed

lemma parse_calls_length: "catalog_parse_calls fw raw = Inr calls \<Longrightarrow> length calls \<le> length raw"
proof -
  have "length (snd (fold (\<lambda>(i, item). parse_call fw i item) l st)) \<le> length (snd st) + length l" for l st
  proof (induction l arbitrary: st)
    case (Cons x l)
    have "length (snd (parse_call fw i item st)) \<le> Suc (length (snd st))" for i item
      by (auto simp: parse_call_def Let_def split: any.splits option.splits)
    then show ?case using Cons [of "(\<lambda>(i, item). parse_call fw i item) x st"] by (cases x) (auto intro: order_trans)
  qed simp
  from this [of "enumerate 0 raw" "([], [])"]
  show "catalog_parse_calls fw raw = Inr calls \<Longrightarrow> length calls \<le> length raw"
    by (auto simp: catalog_parse_calls_def split: prod.splits if_splits)
qed

lemma execute_handle_fits_limit:
  assumes "catalog_ready fw c" "length (calls_argument req) < 10 ^ 18"
  shows "\<exists>resp n. fst (execute_handle fw s c abandoned req w) = Some resp \<and> catalog_reply_size resp = Some n
    \<and> n \<le> tc_max_bytes c"
proof -
  let ?b = "tc_max_bytes c"
  have b: "512 \<le> ?b" "?b < 10 ^ 18" using catalog_ready_bytes [OF assms(1)] by auto
  then have m: "\<exists>n. catalog_reply_size (message_reply ?b msg) = Some n \<and> n \<le> ?b" for msg
    by (intro message_reply_fits) simp
  show ?thesis
  proof (cases "tc_config c = [] \<and> tc_dup c = [] \<and> check_rules fw (execute_rules c) req = None
      \<and> (\<exists>calls. catalog_parse_calls fw (calls_argument req) = Inr calls)")
    case True
    then obtain calls where c: "catalog_parse_calls fw (calls_argument req) = Inr calls" by blast
    with parse_calls_length assms(2) have l: "length calls < 10 ^ 18" by fastforce
    obtain resp evs w' where e: "execute_handle fw s c abandoned req w = (resp, evs, w')"
      by (cases "execute_handle fw s c abandoned req w") auto
    from True execute_outcome_runs [OF assms(1) _ _ _ c l e] obtain m es r where
      "run_calls s c req (length calls) 0 (take m calls) w = (es, evs, w')" "resp = Some r"
      "reply_reports ?b calls abandoned es r \<or> reply_omits ?b calls es r" by blast
    then show ?thesis using outcome_fits [of es ?b calls abandoned r] run_calls_measured b e by fastforce
  next
    case False
    then show ?thesis
      using m by (auto simp: execute_handle_def config_response_def encode_failure_def split: option.splits sum.splits)
  qed
qed


section \<open>Which batches are accepted\<close>

lemma plain_field_fault:
  assumes "cut_dot f = (f, [], False)" "f \<noteq> ''*''" "f \<noteq> []"
  shows "rule_field_fault (new_request obj) f = []"
proof -
  have s: "split_dots f = [f]" using assms(1) by (subst split_dots.simps) simp
  have "resolve_path (AMap obj) f = map_of obj f"
    using assms by (subst resolve_path.simps) (auto simp: path_member_def split: option.splits)
  then show ?thesis using s assms
    by (cases "map_of obj f")
      (auto simp: rule_field_fault_def has_wildcard_segment_def engine_value_def lookup_arg_def new_request_def Let_def)
qed

lemma check_name:
  "check_rules fw (call_name_rules fw) (new_request obj) =
     map_option (\<lambda>fs. \<lparr>ge_rpc = None, ge_validation = True, ge_fields = fs\<rparr>) (fw_engine fw obj (call_name_rules fw))"
proof -
  have "cut_dot ''name'' = (''name'', [], False)" by code_simp
  then have "rule_field_fault (new_request obj) ''name'' = []" by (rule plain_field_fault) simp_all
  then have "validate_fields [''name''] (new_request obj) = None" by (simp add: validate_fields_def)
  then show ?thesis
    by (simp add: check_rules_def validate_request_def call_name_rules_def new_request_def split: option.split)
qed

definition call_ok :: "framework \<Rightarrow> any \<Rightarrow> bool" where
  "call_ok fw item \<longleftrightarrow>
     (case item of
        AMap obj \<Rightarrow> list_all (\<lambda>m. fst m = ''name'' \<or> fst m = ''arguments'') obj
          \<and> fw_engine fw obj (call_name_rules fw) = None \<and> catalog_call_arguments obj \<noteq> None
      | _ \<Rightarrow> False)"

definition call_of :: "any \<Rightarrow> catalog_call" where
  "call_of item =
     (case item of
        AMap obj \<Rightarrow> \<lparr>cc_name = name_of_call obj, cc_arguments = the (catalog_call_arguments obj)\<rparr>
      | _ \<Rightarrow> \<lparr>cc_name = [], cc_arguments = []\<rparr>)"

text \<open>A validation engine that says what it refuses.\<close>

definition engine_speaks :: "framework \<Rightarrow> bool" where
  "engine_speaks fw \<longleftrightarrow> (\<forall>args rules fs. fw_engine fw args rules = Some fs \<longrightarrow> (\<exists>(f, ms) \<in> set fs. ms \<noteq> []))"

definition keys_of :: "failures \<Rightarrow> bytes set" where
  "keys_of errs = dom (map_of errs)"

lemma keys_add: "keys_of (add_message k m errs) = insert k (keys_of errs)"
  by (simp add: add_message_def keys_of_def)

lemma keys_merge:
  "keys_of (catalog_merge_field_errors fw prefix e errs)
     = keys_of errs \<union> (\<lambda>(f, ms). prefix @ f) ` {x \<in> set (ge_fields e). snd x \<noteq> []}"
proof -
  have i: "keys_of (fold (\<lambda>m. add_message k (g m)) ms es) = (if ms = [] then keys_of es else insert k (keys_of es))"
    for k g ms es by (induction ms arbitrary: es) (auto simp: keys_add)
  have "keys_of (fold (\<lambda>(f, ms). fold (\<lambda>m. add_message (prefix @ f) (g f m)) ms) fs errs)
      = keys_of errs \<union> (\<lambda>(f, ms). prefix @ f) ` {x \<in> set fs. snd x \<noteq> []}" for g fs
  proof (induction fs arbitrary: errs)
    case (Cons x fs)
    have "{y \<in> set (x # fs). snd y \<noteq> []} = (if snd x = [] then {} else {x}) \<union> {y \<in> set fs. snd y \<noteq> []}" by auto
    then show ?case using Cons by (cases x) (auto simp: i)
  qed simp
  then show ?thesis by (simp add: catalog_merge_field_errors_def)
qed


text \<open>The keys an entry is reported under.\<close>

definition entry_key :: "nat \<Rightarrow> bytes \<Rightarrow> bool" where
  "entry_key i k \<longleftrightarrow> k = call_key i \<or> (\<exists>f. k = call_key i @ CHR ''.'' # f)"

lemma parse_call_step:
  assumes "engine_speaks fw"
  shows "keys_of (fst st) \<subseteq> keys_of (fst (parse_call fw i item st))"
    "call_ok fw item \<Longrightarrow> parse_call fw i item st = (fst st, snd st @ [call_of item])"
    "\<not> call_ok fw item \<Longrightarrow> \<exists>k \<in> keys_of (fst (parse_call fw i item st)). entry_key i k"
proof -
  let ?obj = "\<lambda>obj. ''The '' @ call_key i @ '' field must only contain the name and arguments keys.''"
  have "keys_of (fst st) \<subseteq> keys_of (fst (parse_call fw i item st))
    \<and> (call_ok fw item \<longrightarrow> parse_call fw i item st = (fst st, snd st @ [call_of item]))
    \<and> (\<not> call_ok fw item \<longrightarrow> (\<exists>k \<in> keys_of (fst (parse_call fw i item st)). entry_key i k))"
  proof (cases "\<exists>obj. item = AMap obj")
    case False
    then have p: "parse_call fw i item st = (add_message (call_key i) (''The '' @ call_key i @ '' field must be an object.'') (fst st), snd st)"
      by (cases item) (simp_all add: parse_call_def Let_def)
    have "\<not> call_ok fw item" using False by (cases item) (simp_all add: call_ok_def)
    then show ?thesis by (auto simp: p keys_add entry_key_def)
  next
    case True
    then obtain obj where item: "item = AMap obj" by blast
    define only where "only = list_all (\<lambda>m. fst m = ''name'' \<or> fst m = ''arguments'') obj"
    define errs1 where "errs1 = (if only then fst st else add_message (call_key i) (?obj obj) (fst st))"
    define errs2 where "errs2 = (case fw_engine fw obj (call_name_rules fw) of None \<Rightarrow> errs1
      | Some fs \<Rightarrow> catalog_merge_field_errors fw (call_key i @ ''.'') \<lparr>ge_rpc = None, ge_validation = True, ge_fields = fs\<rparr> errs1)"
    have ex: "list_ex (\<lambda>m. fst m \<noteq> ''name'' \<and> fst m \<noteq> ''arguments'') obj = (\<not> only)"
      by (auto simp: only_def list_ex_iff list_all_iff)
    have p: "parse_call fw i item st = (case catalog_call_arguments obj of
        None \<Rightarrow> (add_message (call_key i @ ''.arguments'') (''The '' @ call_key i @ ''.arguments field must be an object.'') errs2, snd st)
      | Some args \<Rightarrow> (errs2, snd st @ [\<lparr>cc_name = name_of_call obj, cc_arguments = args\<rparr>]))"
      unfolding parse_call_def Let_def item any.case check_name ex errs2_def errs1_def
      by (cases only; cases "fw_engine fw obj (call_name_rules fw)"; cases "catalog_call_arguments obj") simp_all
    have k1: "keys_of errs1 = (if only then keys_of (fst st) else insert (call_key i) (keys_of (fst st)))"
      by (simp add: errs1_def keys_add)
    have k2: "keys_of errs1 \<subseteq> keys_of errs2" by (auto simp: errs2_def keys_merge split: option.splits)
    have k3: "\<exists>k \<in> keys_of errs2. entry_key i k" if f: "fw_engine fw obj (call_name_rules fw) = Some fs" for fs
    proof -
      have "\<exists>(g, ms) \<in> set fs. ms \<noteq> []" using assms f unfolding engine_speaks_def by blast
      then obtain g ms where g: "(g, ms) \<in> set fs" "ms \<noteq> []" by blast
      have "keys_of errs2 = keys_of errs1 \<union> (\<lambda>(g, ms). (call_key i @ ''.'') @ g) ` {x \<in> set fs. snd x \<noteq> []}"
        by (simp only: errs2_def f option.case keys_merge go_error.simps)
      moreover have "(call_key i @ ''.'') @ g \<in> (\<lambda>(g, ms). (call_key i @ ''.'') @ g) ` {x \<in> set fs. snd x \<noteq> []}"
        by (rule image_eqI [where x = "(g, ms)"]) (use g in auto)
      moreover have "entry_key i ((call_key i @ ''.'') @ g)" by (simp add: entry_key_def)
      ultimately show ?thesis by blast
    qed
    have s: "keys_of errs2 \<subseteq> keys_of (fst (parse_call fw i item st))"
      by (auto simp: p keys_add split: option.splits)
    have ok: "call_ok fw item \<longleftrightarrow> only \<and> fw_engine fw obj (call_name_rules fw) = None \<and> catalog_call_arguments obj \<noteq> None"
      by (simp add: call_ok_def item only_def)
    have "\<exists>k \<in> keys_of (fst (parse_call fw i item st)). entry_key i k" if bad: "\<not> call_ok fw item"
    proof -
      consider "\<not> only" | fs where "fw_engine fw obj (call_name_rules fw) = Some fs" | "catalog_call_arguments obj = None"
        using bad [unfolded ok] by (cases "fw_engine fw obj (call_name_rules fw)") blast+
      then show ?thesis
      proof cases
        case 1
        then show ?thesis using k1 k2 s by (auto simp: entry_key_def)
      next
        case 2
        then show ?thesis using k3 s by blast
      next
        case 3
        then show ?thesis by (simp add: p keys_add entry_key_def)
      qed
    qed
    moreover have "parse_call fw i item st = (fst st, snd st @ [call_of item])" if "call_ok fw item"
      using that ok unfolding p call_of_def by (auto simp: item errs2_def errs1_def)
    ultimately show ?thesis using k1 k2 s by (auto split: if_splits)
  qed
  then show "keys_of (fst st) \<subseteq> keys_of (fst (parse_call fw i item st))"
    "call_ok fw item \<Longrightarrow> parse_call fw i item st = (fst st, snd st @ [call_of item])"
    "\<not> call_ok fw item \<Longrightarrow> \<exists>k \<in> keys_of (fst (parse_call fw i item st)). entry_key i k" by blast+
qed

lemma parse_calls_fold:
  assumes "engine_speaks fw"
  defines "go \<equiv> fold (\<lambda>(i, item). parse_call fw i item)"
  shows "keys_of (fst st) \<subseteq> keys_of (fst (go l st))"
    "list_all (call_ok fw \<circ> snd) l \<Longrightarrow> go l st = (fst st, snd st @ map (call_of \<circ> snd) l)"
    "(i, item) \<in> set l \<Longrightarrow> \<not> call_ok fw item \<Longrightarrow> \<exists>k \<in> keys_of (fst (go l st)). entry_key i k"
proof -
  show mono: "keys_of (fst st) \<subseteq> keys_of (fst (go l st))" for l st
  proof (induction l arbitrary: st)
    case (Cons x l)
    have "keys_of (fst st) \<subseteq> keys_of (fst (go l (parse_call fw (fst x) (snd x) st)))"
      by (rule order_trans [OF parse_call_step(1) [OF assms(1)] Cons])
    then show ?case by (simp add: go_def split_beta)
  qed (simp add: go_def)
  show "list_all (call_ok fw \<circ> snd) l \<Longrightarrow> go l st = (fst st, snd st @ map (call_of \<circ> snd) l)"
  proof (induction l arbitrary: st)
    case (Cons x l)
    then have "go l (parse_call fw (fst x) (snd x) st) = (fst st, (snd st @ [call_of (snd x)]) @ map (call_of \<circ> snd) l)"
      by (simp add: parse_call_step(2) [OF assms(1)])
    then show ?case by (simp add: go_def split_beta)
  qed (simp add: go_def)
  show "(i, item) \<in> set l \<Longrightarrow> \<not> call_ok fw item \<Longrightarrow> \<exists>k \<in> keys_of (fst (go l st)). entry_key i k"
  proof (induction l arbitrary: st)
    case (Cons x l)
    show ?case
    proof (cases "x = (i, item)")
      case True
      obtain k where "k \<in> keys_of (fst (parse_call fw i item st))" "entry_key i k"
        using parse_call_step(3) [OF assms(1) Cons.prems(2)] by blast
      then show ?thesis using mono [of "parse_call fw i item st" l] True by (auto simp: go_def)
    next
      case False
      then show ?thesis using Cons.IH [of "parse_call fw (fst x) (snd x) st"] Cons.prems
        by (simp add: go_def split_beta)
    qed
  qed simp
qed

lemma parse_calls_iff:
  assumes "engine_speaks fw"
  shows "list_all (call_ok fw) raw \<Longrightarrow> catalog_parse_calls fw raw = Inr (map call_of raw)"
    "i < length raw \<Longrightarrow> \<not> call_ok fw (raw ! i) \<Longrightarrow>
       \<exists>e k. catalog_parse_calls fw raw = Inl e \<and> ge_validation e \<and> k \<in> keys_of (ge_fields e) \<and> entry_key i k"
proof -
  let ?go = "fold (\<lambda>(i, item). parse_call fw i item) (enumerate 0 raw) ([], [])"
  have s: "map snd (enumerate 0 raw) = raw" by simp
  assume "list_all (call_ok fw) raw"
  then have "list_all (call_ok fw \<circ> snd) (enumerate 0 raw)" by (metis list.pred_map s)
  from parse_calls_fold(2) [OF assms this, of "([], [])"] have "?go = ([], map call_of raw)"
    by (simp add: list.map_comp [symmetric])
  then show "catalog_parse_calls fw raw = Inr (map call_of raw)" by (simp add: catalog_parse_calls_def)
next
  let ?go = "fold (\<lambda>(i, item). parse_call fw i item) (enumerate 0 raw) ([], [])"
  assume "i < length raw" "\<not> call_ok fw (raw ! i)"
  moreover from this have "(i, raw ! i) \<in> set (enumerate 0 raw)" by (simp add: in_set_enumerate_eq)
  ultimately obtain k where k: "k \<in> keys_of (fst ?go)" "entry_key i k"
    using parse_calls_fold(3) [OF assms, of i "raw ! i" "enumerate 0 raw" "([], [])"] by blast
  then have "fst ?go \<noteq> []" by (auto simp: keys_of_def)
  then have "catalog_parse_calls fw raw = Inl \<lparr>ge_rpc = None, ge_validation = True, ge_fields = fst ?go\<rparr>"
    by (simp add: catalog_parse_calls_def split_beta)
  with k show "\<exists>e k. catalog_parse_calls fw raw = Inl e \<and> ge_validation e \<and> k \<in> keys_of (ge_fields e) \<and> entry_key i k"
    by force
qed


section \<open>The types of a result\<close>

text \<open>The members of a tool result, each of its type.\<close>

definition result_typed :: "members \<Rightarrow> bool" where
  "result_typed result \<longleftrightarrow>
     (\<exists>items. map_of result ''content'' = Some (AList (map AMap items)))
     \<and> (\<exists>b. map_of result ''isError'' = Some (ABool b))
     \<and> (\<forall>v. map_of result ''_meta'' = Some v \<longrightarrow> (\<exists>m. v = AMap m))
     \<and> (\<forall>v. map_of result ''structuredContent'' = Some v \<longrightarrow> (\<exists>m. v = AMap m))"

lemma shapes_typed: "shapes f cs = Some items \<Longrightarrow> \<exists>ss. items = map AMap ss"
proof (induction cs arbitrary: items)
  case (Cons c cs)
  then obtain s l where s: "f c = Some s" "shapes f cs = Some l" "items = AMap s # l"
    by (auto split: option.splits)
  from Cons.IH [OF s(2)] obtain ss where "l = map AMap ss" by blast
  then have "items = map AMap (s # ss)" using s(3) by simp
  then show ?case by blast
qed simp

lemma tool_result_typed: "tool_result r = Some result \<Longrightarrow> result_typed result"
proof (cases r)
  case None
  assume "tool_result r = Some result"
  then have "result = [(''content'', AList []), (''isError'', ABool False)]" using None by (simp add: tool_result_def)
  moreover have "\<exists>items. [] = map AMap items" "\<exists>b. \<not> b" by auto
  ultimately show ?thesis by (simp add: result_typed_def)
next
  case (Some x)
  assume "tool_result r = Some result"
  then obtain items where i: "shapes to_tool (rp_items x) = Some items"
    "result = response_merge_meta r [(''content'', AList items), (''isError'', ABool (rp_is_error x))]"
    using Some by (auto simp: tool_result_def split: option.splits)
  from shapes_typed [OF i(1)] obtain ss where "items = map AMap ss" by blast
  then have c: "map_of result ''content'' = Some (AList (map AMap ss))" "map_of result ''isError'' = Some (ABool (rp_is_error x))"
    by (simp_all add: i(2) map_of_merge_meta)
  have "map_of result ''_meta'' = (if rp_meta x \<noteq> [] then Some (AMap (rp_meta x)) else None)"
    "map_of result ''structuredContent'' = (if rp_structured x \<noteq> [] then Some (AMap (rp_structured x)) else None)"
    by (simp_all add: i(2) Some response_merge_meta_def Let_def map_of_put_if has_key_def)
  with c show ?thesis unfolding result_typed_def by (simp split: if_splits) blast+
qed

lemma represent_result_typed: "result_typed (represent_result resp)"
proof (cases "tool_result resp")
  case None
  obtain r where "tool_result (Some (error_response unrepresentable_content_message)) = Some r"
    by (simp add: tool_result_error)
  with None tool_result_typed show ?thesis by (auto simp: represent_result_def)
qed (use tool_result_typed in \<open>auto simp: represent_result_def\<close>)

lemma failed_result_typed: "result_typed (catalog_failed_result m)"
proof -
  obtain r where "tool_result (Some (error_response m)) = Some r" by (simp add: tool_result_error)
  with tool_result_typed show ?thesis by (auto simp: catalog_failed_result_def)
qed

lemma invoke_typed: "result_typed (fst (catalog_invoke s c parent call w))"
proof -
  have "result_typed result" if "invoke_tool t req w = (Inr result, w')" for t req result w'
    using that represent_result_typed by (auto simp: invoke_tool_def split: prod.splits sum.splits if_splits)
  then show ?thesis
    using failed_result_typed by (auto simp: catalog_invoke_def split: option.splits prod.splits sum.splits)
qed

lemma objects_of_maps: "objects_of (map AMap items) = items"
  by (induction items) (simp_all add: objects_of_def)

lemma entry_whole:
  assumes "result_typed result"
  shows "map_of result ''content'' = Some (AList (map AMap (be_content (batch_entry_for i name result))))"
    "map_of result ''isError'' = Some (ABool (be_error (batch_entry_for i name result)))"
proof -
  obtain items where "map_of result ''content'' = Some (AList (map AMap items))"
    using assms by (auto simp: result_typed_def)
  then show "map_of result ''content'' = Some (AList (map AMap (be_content (batch_entry_for i name result))))"
    by (simp add: batch_entry_for_def Let_def objects_of_maps)
  show "map_of result ''isError'' = Some (ABool (be_error (batch_entry_for i name result)))"
    using assms by (auto simp: result_typed_def batch_entry_for_def Let_def)
qed

section \<open>A tool behind the catalog\<close>

lemma invoke_as_direct:
  assumes "catalog_target c name = Some t" "find_tool cx name = Some t"
    "\<And>rq w. tl_handle t rq w = tl_handle t (rq\<lparr>pr_emit := None\<rparr>) w"
    "name = param_str (decode_params r) ''name''" "has_key (decode_params r) ''name''" "name \<noteq> []"
    "pr_session parent = cx_session cx" "pr_meta parent = or_empty (param_map (decode_params r) ''_meta'')"
    "catalog_invoke s c parent \<lparr>cc_name = name, cc_arguments = param_arguments (decode_params r)\<rparr> (st_wire st)
      = (result, evs, w')"
  shows "call_tool cx r st = (result_outcome r (AMap result), st\<lparr>st_wire := w'\<rparr>)
    \<or> (\<exists>e. call_tool cx r st = (Fail e, st\<lparr>st_wire := w'\<rparr>) \<and> result = catalog_failed_result (catalog_failure_message e))"
proof -
  let ?call = "\<lparr>cc_name = name, cc_arguments = param_arguments (decode_params r)\<rparr>"
  have q: "call_request parent ?call = (primitive_request cx (decode_params r))\<lparr>pr_emit := None\<rparr>"
    using assms(7,8) by (simp add: call_request_def primitive_request_def new_request_def)
  have i: "invoke_tool t (primitive_request cx (decode_params r)) w = invoke_tool t (call_request parent ?call) w" for w
    unfolding invoke_tool_def q using assms(3) [of "primitive_request cx (decode_params r)" w] by simp
  obtain x w1 where x: "invoke_tool t (call_request parent ?call) (st_wire st) = (x, w1)" by fastforce
  have d: "call_tool cx r st = (case x of Inl e \<Rightarrow> Fail e | Inr res \<Rightarrow> result_outcome r (AMap res), st\<lparr>st_wire := w1\<rparr>)"
    using assms(2,5,6) by (cases x) (simp_all add: call_tool_def Let_def assms(4) [symmetric] i x)
  show ?thesis
    using assms(1,9) d x by (cases x) (auto simp: catalog_invoke_def)
qed

section \<open>The reply of a batch\<close>

text \<open>What a reply that reports its calls carries: the report, then the items of the calls in order.\<close>

lemma reported_reply:
  assumes "list_all measured es" "reply_reports b calls abandoned es r"
  obtains body result where
    "catalog_encode (report_tree (batch_report (length calls) es (\<not> list_ex be_error es)) es) = Some body"
    "rp_items r = new_text body # map catalog_content (forwarded es)"
    "tool_result (Some r) = Some result"
    "map_of result ''content'' = Some (AList (map AMap (text_shape body # forwarded es)))"
    "map_of result ''isError'' = Some (ABool (list_ex be_error es))"
proof -
  let ?rep = "batch_report (length calls) es (\<not> list_ex be_error es)"
  obtain n where "batch_render_all (length calls) es = Some (r, n)" using assms(2) by (auto simp: reply_reports_def)
  then obtain body where body: "catalog_encode (report_tree ?rep es) = Some body" "r = batch_reply ?rep es body"
    by (auto simp: batch_render_all_def render_measured [OF assms(1)] split: option.splits)
  then have items: "rp_items r = new_text body # map catalog_content (forwarded es)" "rp_structured r = []"
    "rp_is_error r = list_ex be_error es"
    by (simp_all add: batch_reply_def reply_of_simps batch_report_def)
  have s: "map to_tool (rp_items r) = map Some (text_shape body # forwarded es)"
    unfolding items(1) by (rule reply_shapes(1))
  then have "shapes to_tool (rp_items r) = Some (map AMap (text_shape body # forwarded es))"
  proof -
    have "shapes f cs = Some (map AMap ss)" if "map f cs = map Some ss" for f and cs :: "content list" and ss
      using that by (induction cs arbitrary: ss) auto
    then show ?thesis using s by blast
  qed
  then obtain result where result: "tool_result (Some r) = Some result"
    "result = response_merge_meta (Some r) [(''content'', AList (map AMap (text_shape body # forwarded es))),
      (''isError'', ABool (rp_is_error r))]"
    by (simp add: tool_result_def)
  show thesis
    by (rule that [OF body(1) items(1) result(1)])
      (simp_all add: result(2) map_of_merge_meta items(3))
qed


section \<open>Properties\<close>

text \<open>
  C35. A batch accepted by a finished catalog runs a beginning of its calls, in order, each once and at
  least the first, with the events and frames of running just those, and stops at the first that fails.
  Its reply either reports every call that ran, and where calls remain the last one failed, the request
  was abandoned after it, or no room was left to report the next; or it names the last call that ran as
  one whose result cannot be carried, and reports all the others.
\<close>

theorem execute_outcome:
  assumes "catalog_ready fw c" "tc_config c = []" "tc_dup c = []" "check_rules fw (execute_rules c) req = None"
    "catalog_parse_calls fw (calls_argument req) = Inr calls" "length calls < 10 ^ 18"
    "execute_handle fw s c abandoned req w = (resp, evs, w')"
  shows "\<exists>m \<le> length calls. \<exists>es r. run_calls s c req (length calls) 0 (take m calls) w = (es, evs, w')
    \<and> (calls \<noteq> [] \<longrightarrow> 0 < m) \<and> list_all (\<lambda>e. \<not> be_error e) (butlast es) \<and> resp = Some r
    \<and> (reply_reports (tc_max_bytes c) calls abandoned es r \<or> reply_omits (tc_max_bytes c) calls es r)"
  by (rule execute_outcome_runs [OF assms])

definition sample_batch :: prim_request where
  "sample_batch = new_request [(''calls'', AList [AMap [(''name'', AStr ''add'')], AMap [(''name'', AStr ''sum'')]])]"

definition sample_calls :: "catalog_call list" where
  "sample_calls = [\<lparr>cc_name = ''add'', cc_arguments = []\<rparr>, \<lparr>cc_name = ''sum'', cc_arguments = []\<rparr>]"

definition sample_server :: server where
  "sample_server = new_server None (replicate 32 (CHR ''k'')) ''demo'' ''1'' []"

lemma sample_engine [simp]: "fw_engine sample_framework args rules = None"
  by (simp add: sample_framework_def)

lemma sample_calls_argument: "calls_argument sample_batch = [AMap [(''name'', AStr ''add'')], AMap [(''name'', AStr ''sum'')]]"
proof -
  have "cut_dot ''calls'' = (''calls'', [], False)" by code_simp
  then have "resolve_path (AMap (pr_args sample_batch)) ''calls'' = map_of (pr_args sample_batch) ''calls''"
    by (subst resolve_path.simps) (auto simp: path_member_def split: option.splits)
  then show ?thesis
    by (simp add: calls_argument_def arg_get_def lookup_arg_def sample_batch_def new_request_def)
qed

lemma sample_accepted:
  "check_rules sample_framework (execute_rules sample_catalog) sample_batch = None"
  "catalog_parse_calls sample_framework (calls_argument sample_batch) = Inr sample_calls"
proof -
  have "cut_dot ''calls'' = (''calls'', [], False)" by code_simp
  then have "rule_field_fault sample_batch ''calls'' = []"
    unfolding sample_batch_def by (rule plain_field_fault) simp_all
  then show "check_rules sample_framework (execute_rules sample_catalog) sample_batch = None"
    by (simp add: check_rules_def validate_request_def validate_fields_def execute_rules_def)
  have "engine_speaks sample_framework" by (simp add: engine_speaks_def)
  from parse_calls_iff(1) [OF this, of "calls_argument sample_batch"]
  show "catalog_parse_calls sample_framework (calls_argument sample_batch) = Inr sample_calls"
    by (simp add: sample_calls_argument call_ok_def catalog_call_arguments_def call_of_def name_of_call_def sample_calls_def)
qed

theorem execute_outcome_witness:
  "\<exists>m \<le> length sample_calls. \<exists>es r evs w'.
     run_calls sample_server sample_catalog sample_batch 2 0 (take m sample_calls) [] = (es, evs, w')
     \<and> 0 < m \<and> list_all (\<lambda>e. \<not> be_error e) (butlast es)
     \<and> execute_handle sample_framework sample_server sample_catalog (\<lambda>i. False) sample_batch [] = (Some r, evs, w')
     \<and> (reply_reports 65536 sample_calls (\<lambda>i. False) es r \<or> reply_omits 65536 sample_calls es r)"
proof -
  obtain resp evs w' where e: "execute_handle sample_framework sample_server sample_catalog (\<lambda>i. False) sample_batch []
      = (resp, evs, w')" using prod_cases3 by blast
  have l: "length sample_calls = 2" "sample_calls \<noteq> []" "length sample_calls < 10 ^ 18" by (simp_all add: sample_calls_def)
  from execute_outcome [OF sample_ready(1,4,2) sample_accepted l(3) e] show ?thesis
    using e l(2) unfolding l(1) sample_ready(5) by blast
qed

text \<open>
  C36. Whatever is asked of \<open>execute_tools\<close> and whatever its tools return, there is a reply, and it is no
  larger than the output limit of the catalog, as the transport encodes the result.
\<close>

theorem execute_reply_bounded:
  assumes "catalog_ready fw c" "length (calls_argument req) < 10 ^ 18"
  shows "\<exists>resp n. fst (execute_handle fw s c abandoned req w) = Some resp \<and> catalog_reply_size resp = Some n
    \<and> n \<le> tc_max_bytes c"
  by (rule execute_handle_fits_limit [OF assms])

theorem execute_reply_bounded_witness:
  "\<exists>resp n. fst (execute_handle sample_framework sample_server sample_catalog (\<lambda>i. False) sample_batch []) = Some resp
     \<and> catalog_reply_size resp = Some n \<and> n \<le> 65536"
  using execute_reply_bounded [OF sample_ready(1), of sample_batch sample_server "\<lambda>i. False" "[]"] sample_ready(5)
  by (simp add: sample_calls_argument)

text \<open>
  With a validation engine that says what it refuses, the entries of a batch are accepted exactly when
  every one is an object with no members but a valid name and, if any, an object of arguments, and then
  the calls are those entries in order; otherwise nothing runs and each malformed entry is named, under
  a key with its index.
\<close>

theorem batch_entries_checked:
  assumes "engine_speaks fw"
  shows "if list_all (call_ok fw) raw then catalog_parse_calls fw raw = Inr (map call_of raw)
    else \<exists>e. catalog_parse_calls fw raw = Inl e \<and> ge_validation e
      \<and> (\<forall>i < length raw. call_ok fw (raw ! i) \<or> (\<exists>k \<in> keys_of (ge_fields e). entry_key i k))"
proof (cases "list_all (call_ok fw) raw")
  case True
  then show ?thesis using parse_calls_iff(1) [OF assms] by simp
next
  case False
  then obtain i where "i < length raw" "\<not> call_ok fw (raw ! i)" by (auto simp: list_all_length)
  from parse_calls_iff(2) [OF assms this] obtain e where e: "catalog_parse_calls fw raw = Inl e" "ge_validation e" by blast
  have "call_ok fw (raw ! j) \<or> (\<exists>k \<in> keys_of (ge_fields e). entry_key j k)" if "j < length raw" for j
    using parse_calls_iff(2) [OF assms that] e(1) by force
  then show ?thesis using e False by auto
qed

theorem batch_entries_checked_witness:
  "\<exists>e. catalog_parse_calls sample_framework [AMap [(''name'', AStr ''add'')], ANil] = Inl e \<and> ge_validation e
     \<and> (\<exists>k \<in> keys_of (ge_fields e). entry_key 1 k)"
proof -
  have s: "engine_speaks sample_framework" by (simp add: engine_speaks_def)
  have n: "\<not> call_ok sample_framework ANil" by (simp add: call_ok_def)
  from batch_entries_checked [OF s, of "[AMap [(''name'', AStr ''add'')], ANil]"] obtain e where
    e: "catalog_parse_calls sample_framework [AMap [(''name'', AStr ''add'')], ANil] = Inl e" "ge_validation e"
    "\<forall>i < 2. call_ok sample_framework ([AMap [(''name'', AStr ''add'')], ANil] ! i)
       \<or> (\<exists>k \<in> keys_of (ge_fields e). entry_key i k)"
    by (auto simp: n numeral_2_eq_2)
  from e(3) have "\<exists>k \<in> keys_of (ge_fields e). entry_key 1 k" using n by (auto dest!: spec [of _ 1])
  with e show ?thesis by blast
qed

text \<open>
  C39. What a call of a batch gives is a tool result with every member of its type, whatever the tool does:
  a list of objects, a flag, and metadata and structured content that are objects. So the entry made of
  it keeps every item, and its flag is that of the result.
\<close>

theorem call_result_typed:
  "result_typed (fst (catalog_invoke s c parent call w))
   \<and> map_of (fst (catalog_invoke s c parent call w)) ''content''
       = Some (AList (map AMap (be_content (batch_entry_for i name (fst (catalog_invoke s c parent call w))))))
   \<and> map_of (fst (catalog_invoke s c parent call w)) ''isError''
       = Some (ABool (be_error (batch_entry_for i name (fst (catalog_invoke s c parent call w)))))"
  using invoke_typed entry_whole [OF invoke_typed] by blast

text \<open>
  A tool that does not report progress answers behind the catalog as it does on the direct path: for
  the same name, arguments, session and metadata, \<open>tools/call\<close> replies with the result the batch entry
  gets and leaves the same frames, or fails with an error of which the entry keeps the message the
  protocol deems safe.
\<close>

theorem catalog_call_as_direct:
  assumes "catalog_target c name = Some t" "find_tool cx name = Some t"
    "\<And>rq w. tl_handle t rq w = tl_handle t (rq\<lparr>pr_emit := None\<rparr>) w"
    "name = param_str (decode_params r) ''name''" "has_key (decode_params r) ''name''" "name \<noteq> []"
    "pr_session parent = cx_session cx" "pr_meta parent = or_empty (param_map (decode_params r) ''_meta'')"
    "catalog_invoke s c parent \<lparr>cc_name = name, cc_arguments = param_arguments (decode_params r)\<rparr> (st_wire st)
      = (result, evs, w')"
  shows "call_tool cx r st = (result_outcome r (AMap result), st\<lparr>st_wire := w'\<rparr>)
    \<or> (\<exists>e. call_tool cx r st = (Fail e, st\<lparr>st_wire := w'\<rparr>) \<and> result = catalog_failed_result (catalog_failure_message e))"
  by (rule invoke_as_direct [OF assms])

definition direct_request :: rpc_request where
  "direct_request = \<lparr>rq_id = Id ''7'', rq_method = ''tools/call'', rq_params = ''{\"name\":\"add\"}''\<rparr>"

theorem catalog_call_as_direct_witness:
  "(let cx = create_context (with_tools [sample_tool ''add''] sample_server) ''s'' None;
        call = \<lparr>cc_name = ''add'', cc_arguments = []\<rparr>; parent = (new_request [])\<lparr>pr_session := ''s''\<rparr>
    in case catalog_invoke sample_server sample_catalog parent call [] of
         (result, evs, w') \<Rightarrow> call_tool cx direct_request (start_state [])
           = (result_outcome direct_request (AMap result), (start_state [])\<lparr>st_wire := w'\<rparr>))"
proof -
  define cx where "cx = create_context (with_tools [sample_tool ''add''] sample_server) ''s'' None"
  let ?call = "\<lparr>cc_name = ''add'', cc_arguments = []\<rparr>" and ?parent = "(new_request [])\<lparr>pr_session := ''s''\<rparr>"
  have p: "param_str (decode_params direct_request) ''name'' = ''add''" "has_key (decode_params direct_request) ''name''"
    "param_map (decode_params direct_request) ''_meta'' = None" "param_arguments (decode_params direct_request) = []"
    by code_simp+
  have c: "catalog_target sample_catalog ''add'' = Some (sample_tool ''add'')"
    using sample_ready(1,2)
    by (simp add: catalog_target_def catalog_ready_def sample_tools catalog_entry_for_def catalog_payload_for_def
        Let_def sample_tool_name)
  have f: "find_tool cx ''add'' = Some (sample_tool ''add'')"
    by (simp add: cx_def find_tool_def create_context_def with_tools_def sample_server_def new_server_def Let_def
        detect_ui_capability_def sample_tool_name)
  have e: "tl_handle (sample_tool ''add'') rq w = tl_handle (sample_tool ''add'') (rq\<lparr>pr_emit := None\<rparr>) w" for rq w
    by (simp add: sample_tool_def)
  obtain result evs w' where i: "catalog_invoke sample_server sample_catalog ?parent ?call [] = (result, evs, w')"
    using prod_cases3 by blast
  have i': "catalog_invoke sample_server sample_catalog ?parent
      \<lparr>cc_name = ''add'', cc_arguments = param_arguments (decode_params direct_request)\<rparr> (st_wire (start_state []))
      = (result, evs, w')"
    using i by (simp add: p(4) start_state_def)
  have s: "pr_session ?parent = cx_session cx" "pr_meta ?parent = or_empty (param_map (decode_params direct_request) ''_meta'')"
    by (simp_all add: cx_def create_context_def p(3) or_empty_def new_request_def)
  have "new_result (rq_id direct_request) (AnyResult (AMap (represent_result (Some (text_response ''done''))))) \<noteq> None"
    by code_simp
  then have "(\<forall>e. fst (call_tool cx direct_request (start_state [])) \<noteq> Fail e)"
    using p f by (auto simp: call_tool_def Let_def invoke_tool_def sample_tool_def result_outcome_def split: option.splits)
  with catalog_call_as_direct [OF c f e p(1) [symmetric] p(2) _ s i'] show ?thesis
    by (auto simp: Let_def i cx_def)
qed

end
