(* ===== verification/Schema.thy ===== *)
theory Schema
  imports Content JsonRpc "HOL-Library.Multiset"
begin

text \<open>
  The builder of JSON schemas (\<open>schema/schema.go\<close>). A builder is a value here: a call that configures
  one through its pointer is a function of the builder, and a property is configured before it is
  declared on its object. What the builder renders is the map a tool is described with; its own
  encoder (\<open>MarshalJSON\<close>) writes the same schema in declaration order (\<open>schema_encodings_agree\<close>).
\<close>

section \<open>Builders\<close>

text \<open>
  A bound is a \<open>float64\<close>: the integer it equals, when that is an \<open>int64\<close>, and the literal
  \<open>encoding/json\<close> writes for it.
\<close>

datatype bound = Bound (bound_whole: "int option") (bound_literal: bytes)

definition int_bound :: "int \<Rightarrow> bound" where
  "int_bound i = Bound (Some i) (int_to_dec i)"

datatype schema_prop =
  SchemaProp (sp_type: bytes) (sp_description: bytes) (sp_required: bool) (sp_default: "any option")
    (sp_min: "bound option") (sp_max: "bound option") (sp_enum: "bytes list") (sp_items: "schema_prop option")
    (sp_nested: "schema_object option")
and schema_object =
  SchemaObject (so_props: "(bytes \<times> schema_prop) list") (so_additional: "bool option")

definition new_object :: schema_object where
  "new_object = SchemaObject [] None"

definition new_prop :: "bytes \<Rightarrow> schema_prop" where
  "new_prop t = SchemaProp t [] False None None None [] None None"

text \<open>\<open>add\<close>: a name declared again keeps its place.\<close>

definition declare_prop :: "bytes \<Rightarrow> schema_prop \<Rightarrow> schema_object \<Rightarrow> schema_object" where
  "declare_prop name p obj = SchemaObject (put name p (so_props obj)) (so_additional obj)"

definition string_prop :: schema_prop where "string_prop = new_prop ''string''"
definition integer_prop :: schema_prop where "integer_prop = new_prop ''integer''"
definition number_prop :: schema_prop where "number_prop = new_prop ''number''"
definition boolean_prop :: schema_prop where "boolean_prop = new_prop ''boolean''"
definition array_prop :: schema_prop where "array_prop = new_prop ''array''"
definition object_prop :: schema_prop where "object_prop = new_prop ''object''"

definition enum_prop :: "bytes list \<Rightarrow> schema_prop" where
  "enum_prop values = SchemaProp ''string'' [] False None None None values None None"

definition additional_properties :: "bool \<Rightarrow> schema_object \<Rightarrow> schema_object" where
  "additional_properties allowed obj = SchemaObject (so_props obj) (Some allowed)"

fun prop_description :: "bytes \<Rightarrow> schema_prop \<Rightarrow> schema_prop" where
  "prop_description desc (SchemaProp t d r df mn mx en it ne) = SchemaProp t desc r df mn mx en it ne"

fun prop_required :: "schema_prop \<Rightarrow> schema_prop" where
  "prop_required (SchemaProp t d r df mn mx en it ne) = SchemaProp t d True df mn mx en it ne"

fun prop_default :: "any \<Rightarrow> schema_prop \<Rightarrow> schema_prop" where
  "prop_default v (SchemaProp t d r df mn mx en it ne) = SchemaProp t d r (Some v) mn mx en it ne"

fun prop_min :: "bound \<Rightarrow> schema_prop \<Rightarrow> schema_prop" where
  "prop_min v (SchemaProp t d r df mn mx en it ne) = SchemaProp t d r df (Some v) mx en it ne"

fun prop_max :: "bound \<Rightarrow> schema_prop \<Rightarrow> schema_prop" where
  "prop_max v (SchemaProp t d r df mn mx en it ne) = SchemaProp t d r df mn (Some v) en it ne"

fun prop_enum :: "bytes list \<Rightarrow> schema_prop \<Rightarrow> schema_prop" where
  "prop_enum values (SchemaProp t d r df mn mx en it ne) = SchemaProp t d r df mn mx values it ne"

fun prop_items :: "schema_prop \<Rightarrow> schema_prop \<Rightarrow> schema_prop" where
  "prop_items item (SchemaProp t d r df mn mx en it ne) = SchemaProp t d r df mn mx en (Some item) ne"

fun prop_properties :: "(schema_object \<Rightarrow> schema_object) \<Rightarrow> schema_prop \<Rightarrow> schema_prop" where
  "prop_properties build (SchemaProp t d r df mn mx en it ne) =
     SchemaProp t d r df mn mx en it (Some (build (case ne of None \<Rightarrow> new_object | Some obj \<Rightarrow> obj)))"

section \<open>Rendering\<close>

definition bound_keys :: "bytes \<Rightarrow> bytes \<times> bytes" where
  "bound_keys t =
     (if t = ''string'' then (''minLength'', ''maxLength'')
      else if t = ''array'' then (''minItems'', ''maxItems'')
      else (''minimum'', ''maximum''))"

definition number_or_int :: "bound \<Rightarrow> bytes \<Rightarrow> any" where
  "number_or_int b t =
     (if t = ''integer'' \<or> t = ''string'' \<or> t = ''array''
      then (case bound_whole b of Some i \<Rightarrow> AInt i | None \<Rightarrow> ANum (bound_literal b))
      else ANum (bound_literal b))"

definition put_opt :: "bytes \<Rightarrow> any option \<Rightarrow> members \<Rightarrow> members" where
  "put_opt k v ms = (case v of None \<Rightarrow> ms | Some x \<Rightarrow> put k x ms)"

text \<open>The keywords of the property itself.\<close>

definition prop_keywords :: "schema_prop \<Rightarrow> members" where
  "prop_keywords p =
     (case bound_keys (sp_type p) of (min_key, max_key) \<Rightarrow>
        put_opt max_key (map_option (\<lambda>b. number_or_int b (sp_type p)) (sp_max p))
          (put_opt min_key (map_option (\<lambda>b. number_or_int b (sp_type p)) (sp_min p))
            (put_if (sp_enum p \<noteq> []) ''enum'' (AList (map AStr (sp_enum p)))
              (put_opt ''default'' (sp_default p)
                (put_if (sp_description p \<noteq> []) ''description'' (AStr (sp_description p))
                  [(''type'', AStr (sp_type p))])))))"

definition required_names :: "(bytes \<times> schema_prop) list \<Rightarrow> bytes list" where
  "required_names ps = map fst (filter (\<lambda>(n, p). sp_required p) ps)"

text \<open>The object of an object schema, over its rendered properties.\<close>

definition object_keywords :: "schema_object \<Rightarrow> members \<Rightarrow> members" where
  "object_keywords obj props =
     put_opt ''additionalProperties'' (map_option ABool (so_additional obj))
       (put_if (required_names (so_props obj) \<noteq> []) ''required''
          (AList (map AStr (required_names (so_props obj))))
         [(''type'', AStr ''object''), (''properties'', AMap props)])"

lemma schema_prop_sizes [termination_simp]:
  "sp_items p = Some item \<Longrightarrow> size item < size p" "sp_nested p = Some obj \<Longrightarrow> size obj < size p"
  "(n, q) \<in> set (so_props obj) \<Longrightarrow> size q < size obj"
proof -
  show "sp_items p = Some item \<Longrightarrow> size item < size p" "sp_nested p = Some obj \<Longrightarrow> size obj < size p"
    by (cases p, auto)+
  assume "(n, q) \<in> set (so_props obj)"
  then have "size_prod (\<lambda>_. 0) size (n, q) \<le> size_list (size_prod (\<lambda>_. 0) size) (so_props obj)"
    using size_list_estimation' [of "(n, q)" "so_props obj"] by blast
  then show "size q < size obj" by (cases obj) simp
qed

function (sequential) prop_map :: "schema_prop \<Rightarrow> members"
and object_map :: "schema_object \<Rightarrow> members" where
  "prop_map p =
     (let m = prop_keywords p;
          m1 = (case sp_items p of
                  Some item \<Rightarrow> if sp_type p = ''array'' then put ''items'' (AMap (prop_map item)) m else m
                | None \<Rightarrow> m)
      in case sp_nested p of
           None \<Rightarrow> m1
         | Some obj \<Rightarrow>
             if sp_type p = ''object''
             then (let nested = object_map obj
                   in put_opt ''additionalProperties'' (map_of nested ''additionalProperties'')
                        (put_opt ''required'' (map_of nested ''required'')
                          (put_opt ''properties'' (map_of nested ''properties'') m1)))
             else m1)"
| "object_map obj = object_keywords obj (map (\<lambda>(n, p). (n, AMap (prop_map p))) (so_props obj))"
  by pat_completeness auto

termination
  by (relation "measure (\<lambda>x. case x of Inl p \<Rightarrow> size p | Inr obj \<Rightarrow> size obj)")
    (auto dest: schema_prop_sizes)

declare prop_map.simps [simp del] object_map.simps [simp del]

text \<open>\<open>MarshalJSON\<close>: the properties and the required names in the order they were declared.\<close>

fun marshal_props :: "(bytes \<times> schema_prop) list \<Rightarrow> bytes option" where
  "marshal_props [] = Some []"
| "marshal_props ((n, p) # ps) =
     (case (marshal (AStr n), marshal (AMap (prop_map p)), marshal_props ps) of
        (Some k, Some v, Some rest) \<Rightarrow>
          Some (k @ CHR '':'' # v @ (if ps = [] then [] else CHR '','' # rest))
      | _ \<Rightarrow> None)"

definition marshal_object :: "schema_object \<Rightarrow> bytes option" where
  "marshal_object obj =
     (let req = required_names (so_props obj)
      in case (marshal_props (so_props obj), marshal (AList (map AStr req))) of
           (Some props, Some rb) \<Rightarrow>
             Some (''{\"type\":\"object\",\"properties\":{'' @ props @ ''}''
               @ (if req = [] then [] else '',\"required\":'' @ rb)
               @ (case so_additional obj of
                    None \<Rightarrow> [] | Some b \<Rightarrow> '',\"additionalProperties\":'' @ (if b then ''true'' else ''false''))
               @ ''}'')
         | _ \<Rightarrow> None)"


section \<open>Both encodings describe one schema\<close>

text \<open>The members \<open>MarshalJSON\<close> writes, for rendered properties.\<close>

definition schema_members :: "schema_object \<Rightarrow> (bytes \<times> bytes \<times> json) list \<Rightarrow> (bytes \<times> bytes \<times> json) list" where
  "schema_members obj ps =
     [(''type'', [], JStr ''object''), (''properties'', [], JObj ps)]
     @ (if required_names (so_props obj) = [] then []
        else [(''required'', [], JArr (map (\<lambda>n. ([], JStr (quote_body n))) (required_names (so_props obj))))])
     @ (case so_additional obj of None \<Rightarrow> [] | Some b \<Rightarrow> [(''additionalProperties'', [], JBool b)])"

definition prop_tree :: "schema_prop \<Rightarrow> json option" where
  "prop_tree p = tree_of (AMap (prop_map p))"

definition declared_members :: "(bytes \<times> schema_prop) list \<Rightarrow> (bytes \<times> bytes \<times> json) list" where
  "declared_members ps = map (\<lambda>(n, p). (quote_body n, [], the (prop_tree p))) ps"

lemma marshal_props_print:
  "marshal_props ps = (if list_all (\<lambda>(n, p). prop_tree p \<noteq> None) ps then Some (print_members (declared_members ps)) else None)"
proof (induction ps)
  case (Cons x ps)
  obtain n p where x: "x = (n, p)" by (cases x)
  have m: "marshal (AStr n) = Some (quoted (html_escape (quote_body n)))" "marshal (AMap (prop_map p)) = map_option print_json (prop_tree p)"
    by (simp_all add: marshal_def prop_tree_def del: tree_of.simps(7))
  have e: "declared_members ps = [] \<longleftrightarrow> ps = []" by (simp add: declared_members_def)
  have c: "declared_members (x # ps) = (quote_body n, [], the (prop_tree p)) # declared_members ps"
    by (simp add: declared_members_def x)
  show ?case
    by (cases "prop_tree p") (auto simp: x m c [unfolded x] Cons.IH e quoted_def)
qed (simp add: declared_members_def)

lemma required_tree: "tree_of (AList (map AStr ns)) = Some (JArr (map (\<lambda>n. ([], JStr (quote_body n))) ns))"
proof -
  have "tree_elems (map AStr ns) = Some (map (\<lambda>n. ([], JStr (quote_body n))) ns)" by (induction ns) auto
  then show ?thesis by simp
qed

lemma marshal_object_print:
  "marshal_object obj = (if list_all (\<lambda>(n, p). prop_tree p \<noteq> None) (so_props obj)
     then Some (print_json (JObj (schema_members obj (declared_members (so_props obj))))) else None)"
proof (cases "list_all (\<lambda>(n, p). prop_tree p \<noteq> None) (so_props obj)")
  case True
  let ?req = "required_names (so_props obj)"
  have r: "marshal (AList (map AStr ?req)) = Some (print_json (JArr (map (\<lambda>n. ([], JStr (quote_body n))) ?req)))"
    unfolding marshal_def required_tree by simp
  have h: "html_escape ''type'' = ''type''" "html_escape ''object'' = ''object''" "html_escape ''properties'' = ''properties''"
    "html_escape ''required'' = ''required''" "html_escape ''additionalProperties'' = ''additionalProperties''"
    by (simp_all add: plain_name(2) plain_name_def)
  show ?thesis
    using True by (simp add: h marshal_object_def Let_def marshal_props_print r schema_members_def quoted_def split: option.split)
next
  case False
  then show ?thesis by (auto simp: marshal_object_def Let_def marshal_props_print)
qed

text \<open>The tree of the rendered map: the same members, sorted.\<close>

definition quote_member :: "bytes \<times> bytes \<times> json \<Rightarrow> bytes \<times> bytes \<times> json" where
  "quote_member m = (case m of (k, r, v) \<Rightarrow> (quote_body k, r, v))"

lemma tree_of_map:
  "tree_of (AMap ms) = (if list_all (\<lambda>(k, a). tree_of a \<noteq> None) ms
     then Some (JObj (map quote_member (sort_key fst (map (\<lambda>(k, a). (k, [], the (tree_of a))) ms)))) else None)"
proof -
  have "tree_members ms = (if list_all (\<lambda>(k, a). tree_of a \<noteq> None) ms
      then Some (map (\<lambda>(k, a). (k, [], the (tree_of a))) ms) else None)"
    by (induction ms) (auto split: option.splits prod.splits)
  then show ?thesis by (simp add: quote_member_def [abs_def])
qed

lemma mset_map_sorted: "mset (map f (sort_key g xs)) = mset (map f xs)"
  by simp

lemma object_map_members:
  "object_map obj = [(''type'', AStr ''object''), (''properties'', AMap (map (\<lambda>(n, p). (n, AMap (prop_map p))) (so_props obj)))]
     @ (if required_names (so_props obj) = [] then []
        else [(''required'', AList (map AStr (required_names (so_props obj))))])
     @ (case so_additional obj of None \<Rightarrow> [] | Some b \<Rightarrow> [(''additionalProperties'', ABool b)])"
  by (simp add: object_map.simps object_keywords_def put_if_def put_opt_def put_def split: option.split)

lemma encodings_agree:
  "(case tree_of (AMap (object_map obj)) of
      None \<Rightarrow> marshal_object obj = None
    | Some t \<Rightarrow> \<exists>l ps. t = JObj l \<and> mset l = mset (schema_members obj ps)
        \<and> mset ps = mset (declared_members (so_props obj))
        \<and> marshal_object obj = Some (print_json (JObj (schema_members obj (declared_members (so_props obj))))))"
proof (cases "list_all (\<lambda>(n, p). prop_tree p \<noteq> None) (so_props obj)")
  case True
  let ?props = "map (\<lambda>(n, p). (n, AMap (prop_map p))) (so_props obj)"
  let ?req = "required_names (so_props obj)"
  define ps where "ps = map quote_member (sort_key fst (map (\<lambda>(k, a). (k, [], the (tree_of a))) ?props))"
  have a: "list_all (\<lambda>(k, a). tree_of a \<noteq> None) ?props"
    using True by (auto simp: list_all_iff prop_tree_def simp del: tree_of.simps)
  have p: "tree_of (AMap ?props) = Some (JObj ps)"
    unfolding tree_of_map ps_def using a by simp
  have "map quote_member (map (\<lambda>(k, a). (k, [], the (tree_of a))) ?props) = declared_members (so_props obj)"
    by (auto simp: declared_members_def quote_member_def prop_tree_def simp del: tree_of.simps)
  then have m: "mset ps = mset (declared_members (so_props obj))" unfolding ps_def mset_map_sorted by simp
  have q: "quote_body ''type'' = ''type''" "quote_body ''object'' = ''object''" "quote_body ''properties'' = ''properties''"
    "quote_body ''required'' = ''required''" "quote_body ''additionalProperties'' = ''additionalProperties''"
    by (simp_all add: plain_name(4) plain_name_def)
  have all: "list_all (\<lambda>(k, a). tree_of a \<noteq> None) (object_map obj)"
    unfolding object_map_members using p required_tree [of ?req]
    by (auto split: option.split simp del: tree_of.simps(6,7))
  let ?l = "map quote_member (sort_key fst (map (\<lambda>(k, a). (k, [], the (tree_of a))) (object_map obj)))"
  have t: "tree_of (AMap (object_map obj)) = Some (JObj ?l)"
    unfolding tree_of_map [of "object_map obj"] using all by simp
  have "map quote_member (map (\<lambda>(k, a). (k, [], the (tree_of a))) (object_map obj)) = schema_members obj ps"
    unfolding object_map_members schema_members_def using p required_tree [of ?req]
    by (auto simp: quote_member_def q split: option.split simp del: tree_of.simps(6,7))
  then have "mset ?l = mset (schema_members obj ps)" unfolding mset_map_sorted by simp
  then show ?thesis using m True unfolding t marshal_object_print by auto
next
  case False
  then have a: "\<not> list_all (\<lambda>(k, a). tree_of a \<noteq> None) (map (\<lambda>(n, p). (n, AMap (prop_map p))) (so_props obj))"
    by (simp add: list.pred_map comp_def prop_tree_def case_prod_unfold del: tree_of.simps)
  then have "tree_of (AMap (map (\<lambda>(n, p). (n, AMap (prop_map p))) (so_props obj))) = None" unfolding tree_of_map by simp
  then have "\<not> list_all (\<lambda>(k, a). tree_of a \<noteq> None) (object_map obj)"
    unfolding object_map_members by simp
  then have "tree_of (AMap (object_map obj)) = None" unfolding tree_of_map by simp
  then show ?thesis using False by (simp add: marshal_object_print)
qed

section \<open>Properties\<close>

text \<open>
  The two encodings of a schema agree: \<open>MarshalJSON\<close> fails exactly when the map of the schema cannot be
  encoded, and else writes the same members as that map, once each and with the same values, the
  properties in the order they were declared.
\<close>

theorem schema_encodings_agree:
  "(case tree_of (AMap (object_map obj)) of
      None \<Rightarrow> marshal_object obj = None
    | Some t \<Rightarrow> \<exists>l ps. t = JObj l \<and> mset l = mset (schema_members obj ps)
        \<and> mset ps = mset (declared_members (so_props obj))
        \<and> marshal_object obj = Some (print_json (JObj (schema_members obj (declared_members (so_props obj))))))"
  by (rule encodings_agree)

end
