(* ===== verification/Catalog_Server.thy ===== *)
theory Catalog_Server
  imports Catalog_Execute Schema
begin

text \<open>
  A server with a tool catalog (\<open>server/tool_catalog.go\<close>): the two options that configure one, the meta
  tools as tools of the server, with the schemas their builders declare, and what \<open>New\<close> does with the
  catalog once its options are applied. The catalog is a part of the server's state beside the record
  of \<open>Server\<close>; a meta tool reads it as it stands when the server is built, so it takes the finished
  catalog as an argument.
\<close>

section \<open>The meta tools\<close>

definition catalog_search_tool_name :: bytes where "catalog_search_tool_name = ''search_tools''"
definition catalog_execute_tool_name :: bytes where "catalog_execute_tool_name = ''execute_tools''"

definition no_hints :: tool_annotations where
  "no_hints = \<lparr>ta_read_only = None, ta_destructive = None, ta_idempotent = None, ta_open_world = None\<rparr>"

definition search_schema :: schema_object where
  "search_schema =
     declare_prop ''limit''
       (prop_description ''Maximum results to return. Defaults to 10.''
         (prop_max (int_bound max_catalog_search_limit) (prop_min (int_bound 1) integer_prop)))
       (declare_prop ''query''
         (prop_description (''Search terms; the first '' @ int_to_dec (int max_catalog_query_terms)
             @ '' distinct terms are matched. An empty query browses the catalog.'')
           (prop_max (int_bound (int max_catalog_query_chars)) string_prop))
         new_object)"

definition execute_item_schema :: "schema_object \<Rightarrow> schema_object" where
  "execute_item_schema obj =
     additional_properties False
       (declare_prop ''arguments'' (prop_description ''Arguments matching the tool input schema.'' object_prop)
         (declare_prop ''name''
           (prop_required (prop_description ''The exact tool name returned by search_tools.''
             (prop_max (int_bound (int max_catalog_call_name_chars)) string_prop)))
           obj))"

definition execute_schema :: "int \<Rightarrow> schema_object" where
  "execute_schema max_calls =
     declare_prop ''calls''
       (prop_items (prop_properties execute_item_schema (new_prop ''object''))
         (prop_required (prop_max (int_bound max_calls) (prop_min (int_bound 1)
           (prop_description ''Independent tool calls to execute synchronously in order.'' array_prop)))))
       new_object"

definition search_tool :: "framework \<Rightarrow> tool_catalog \<Rightarrow> tool" where
  "search_tool fw c =
     \<lparr>tl_name = catalog_search_tool_name,
      tl_description = ''Search the tools available through execute_tools. Returns exact tool names, descriptions, and complete input schemas. An empty query browses the catalog.'',
      tl_title = Some ''Search Tools'', tl_input_schema = object_map search_schema, tl_output_schema = None,
      tl_annotations = Some (no_hints\<lparr>ta_read_only := Some True\<rparr>),
      tl_handle = (\<lambda>req w. (Inr (Some (search_handle fw c req)), w))\<rparr>"

definition execute_description :: bytes where
  "execute_description =
     ''Execute one or more independent catalog tools synchronously in order. Pass {\"calls\":[{\"name\":\"tool_name\",\"arguments\":{\"key\":\"value\"}}]} using exact names and arguments returned by search_tools. Execution stops on the first error. Check complete before treating the batch as done: when it is false the calls from attemptedToolCalls on never ran, so reissue them in a new execute_tools call. If a call depends on a previous result, invoke execute_tools again with a new calls array.''"

definition execute_tool :: "framework \<Rightarrow> server \<Rightarrow> tool_catalog \<Rightarrow> (nat \<Rightarrow> bool) \<Rightarrow> tool" where
  "execute_tool fw s c abandoned =
     \<lparr>tl_name = catalog_execute_tool_name, tl_description = execute_description,
      tl_title = Some ''Execute Tools'', tl_input_schema = object_map (execute_schema (tc_max_calls c)),
      tl_output_schema = None, tl_annotations = Some (no_hints\<lparr>ta_open_world := Some True\<rparr>),
      tl_handle = (\<lambda>req w. case execute_handle fw s c abandoned req w of (resp, evs, w') \<Rightarrow> (Inr resp, w'))\<rparr>"

section \<open>Options\<close>

record catalog_server =
  cs_server :: server
  cs_catalog :: "tool_catalog option"

type_synonym catalog_option = "catalog_server \<Rightarrow> catalog_server"

definition catalog_for :: "catalog_server \<Rightarrow> tool_catalog" where
  "catalog_for cs = (case cs_catalog cs of None \<Rightarrow> new_tool_catalog | Some c \<Rightarrow> c)"

text \<open>An option that does not concern the catalog.\<close>

definition on_server :: "server_option \<Rightarrow> catalog_option" where
  "on_server opt cs = cs\<lparr>cs_server := opt (cs_server cs)\<rparr>"

definition with_tool_catalog :: "tool list \<Rightarrow> tool list \<Rightarrow> catalog_option" where
  "with_tool_catalog meta ts cs =
     (let c = catalog_for cs; c1 = c\<lparr>tc_tools := tc_tools c @ ts\<rparr>
      in if tc_tools c1 \<noteq> [] \<and> \<not> tc_installed c1
         then \<lparr>cs_server = (cs_server cs)\<lparr>sv_tools := sv_tools (cs_server cs) @ meta\<rparr>,
               cs_catalog = Some (c1\<lparr>tc_installed := True\<rparr>)\<rparr>
         else cs\<lparr>cs_catalog := Some c1\<rparr>)"

definition with_tool_catalog_limits :: "int \<Rightarrow> int \<Rightarrow> catalog_option" where
  "with_tool_catalog_limits max_calls max_bytes cs =
     cs\<lparr>cs_catalog := Some ((catalog_for cs)
       \<lparr>tc_max_calls := min (max min_catalog_max_tool_calls max_calls) max_catalog_max_tool_calls,
        tc_max_bytes := min (max min_catalog_max_output_bytes max_bytes) max_catalog_max_output_bytes,
        tc_requested := Some (max_calls, max_bytes)\<rparr>)\<rparr>"

text \<open>The warning of \<open>reportAdjustedCatalogLimits\<close>: what was asked for and what applies.\<close>

definition adjusted_limits :: "tool_catalog \<Rightarrow> (int \<times> int \<times> int \<times> int) option" where
  "adjusted_limits c =
     (case tc_requested c of
        None \<Rightarrow> None
      | Some (calls, nbytes) \<Rightarrow>
          if calls = tc_max_calls c \<and> nbytes = tc_max_bytes c then None
          else Some (calls, tc_max_calls c, nbytes, tc_max_bytes c))"

section \<open>Finishing the server\<close>

text \<open>The loop over the names of the catalog, those of the server's tools already seen.\<close>

fun catalog_collision :: "bytes list \<Rightarrow> bytes list \<Rightarrow> bytes list \<Rightarrow> bytes option" where
  "catalog_collision seen in_catalog [] = None"
| "catalog_collision seen in_catalog (n # ns) =
     (if n \<in> set in_catalog then catalog_collision seen in_catalog ns
      else if n \<in> set seen then Some n
      else catalog_collision (n # seen) (n # in_catalog) ns)"

definition duplicate_server_tool :: "tool_catalog \<Rightarrow> bytes \<Rightarrow> tool_catalog" where
  "duplicate_server_tool c name = c\<lparr>tc_config := ''Duplicate server tool name ['' @ name @ ''].''\<rparr>"

definition finalize_tool_catalog :: "framework \<Rightarrow> catalog_server \<Rightarrow> catalog_server" where
  "finalize_tool_catalog fw cs =
     (case cs_catalog cs of
        None \<Rightarrow> cs
      | Some c0 \<Rightarrow>
          if \<not> tc_installed c0 then cs
          else
            (let c = prepare fw c0; names = map tl_name (sv_tools (cs_server cs))
             in cs\<lparr>cs_catalog := Some
                  (case first_repeat [] names of
                     Some name \<Rightarrow> duplicate_server_tool c name
                   | None \<Rightarrow>
                       (case catalog_collision names [] (map tl_name (tc_tools c)) of
                          Some name \<Rightarrow> duplicate_server_tool c name
                        | None \<Rightarrow> c))\<rparr>))"

text \<open>\<open>New\<close> for a server with a catalog: the options, what follows them, and the catalog finished.\<close>

definition new_catalog_server ::
  "framework \<Rightarrow> (bytes \<times> rpc_method) list option \<Rightarrow> bytes \<Rightarrow> bytes \<Rightarrow> bytes \<Rightarrow> catalog_option list \<Rightarrow> catalog_server" where
  "new_catalog_server fw factory drawn name version opts =
     (let cs = fold (\<lambda>opt cs. opt cs) opts \<lparr>cs_server = new_server None drawn name version [], cs_catalog = None\<rparr>;
          s = detect_ui_capability (cs_server cs)
      in finalize_tool_catalog fw (cs\<lparr>cs_server := s\<lparr>sv_methods := build_methods factory s\<rparr>\<rparr>))"

section \<open>What a finished catalog is\<close>

definition limits_ok :: "tool_catalog \<Rightarrow> bool" where
  "limits_ok c \<longleftrightarrow> min_catalog_max_tool_calls \<le> tc_max_calls c \<and> tc_max_calls c \<le> max_catalog_max_tool_calls
     \<and> min_catalog_max_output_bytes \<le> tc_max_bytes c \<and> tc_max_bytes c \<le> max_catalog_max_output_bytes"

text \<open>A catalog the options are still at work on.\<close>

definition raw_catalog :: "tool_catalog \<Rightarrow> bool" where
  "raw_catalog c \<longleftrightarrow> limits_ok c \<and> tc_dup c = [] \<and> \<not> tc_encode_err c \<and> tc_config c = []"

lemma raw_new: "raw_catalog new_tool_catalog"
  by (simp add: raw_catalog_def limits_ok_def new_tool_catalog_def default_catalog_max_tool_calls_def
      default_catalog_max_output_bytes_def min_catalog_max_tool_calls_def max_catalog_max_tool_calls_def
      min_catalog_max_output_bytes_def max_catalog_max_output_bytes_def)

text \<open>The options that may build a server: any that leaves the catalog alone, and the two of the catalog.\<close>

definition catalog_options :: "catalog_option list \<Rightarrow> bool" where
  "catalog_options opts \<longleftrightarrow>
     (\<forall>opt \<in> set opts. (\<exists>o1. opt = on_server o1) \<or> (\<exists>meta ts. opt = with_tool_catalog meta ts)
        \<or> (\<exists>calls nbytes. opt = with_tool_catalog_limits calls nbytes))"

lemma options_raw:
  assumes "catalog_options opts" "\<forall>c. cs_catalog cs = Some c \<longrightarrow> raw_catalog c"
  shows "\<forall>c. cs_catalog (fold (\<lambda>opt cs. opt cs) opts cs) = Some c \<longrightarrow> raw_catalog c"
  using assms
proof (induction opts arbitrary: cs)
  case (Cons opt opts)
  have f: "raw_catalog (catalog_for cs)" using Cons.prems(2) raw_new by (auto simp: catalog_for_def split: option.splits)
  have "\<forall>c. cs_catalog (opt cs) = Some c \<longrightarrow> raw_catalog c"
  proof -
    consider (on) o1 where "opt = on_server o1" | (tools) meta ts where "opt = with_tool_catalog meta ts"
      | (limits) calls nbytes where "opt = with_tool_catalog_limits calls nbytes"
      using Cons.prems(1) by (auto simp: catalog_options_def)
    then show ?thesis
    proof cases
      case on
      then show ?thesis using Cons.prems(2) by (simp add: on_server_def)
    next
      case tools
      then show ?thesis using f by (auto simp: with_tool_catalog_def Let_def raw_catalog_def limits_ok_def)
    next
      case limits
      then show ?thesis using f
        by (auto simp: with_tool_catalog_limits_def raw_catalog_def limits_ok_def min_catalog_max_tool_calls_def
            max_catalog_max_tool_calls_def min_catalog_max_output_bytes_def max_catalog_max_output_bytes_def)
    qed
  qed
  then show ?case using Cons by (simp add: catalog_options_def)
qed simp

lemma prepare_ready: "raw_catalog c \<Longrightarrow> catalog_ready fw (prepare fw c)"
  using first_repeat [of "[]" "map tl_name (tc_tools c)"]
  by (auto simp: raw_catalog_def limits_ok_def catalog_ready_def prepare_def split: option.splits)

lemma collision_none:
  "catalog_collision seen in_catalog ns = None \<longleftrightarrow> (set ns - set in_catalog) \<inter> set seen = {}"
proof (induction seen in_catalog ns rule: catalog_collision.induct)
  case (2 seen in_catalog n ns)
  show ?case
  proof (cases "n \<in> set in_catalog \<or> n \<in> set seen")
    case False
    then have "catalog_collision seen in_catalog (n # ns) = catalog_collision (n # seen) (n # in_catalog) ns" by simp
    also have "\<dots> = None \<longleftrightarrow> (set ns - set (n # in_catalog)) \<inter> set (n # seen) = {}" using 2(2) False by blast
    finally show ?thesis using False by auto
  qed (use 2(1) in auto)
qed simp

lemma finalized:
  assumes "cs_catalog cs = Some c0" "tc_installed c0" "raw_catalog c0"
  obtains c where "cs_catalog (finalize_tool_catalog fw cs) = Some c" "catalog_ready fw c"
    "cs_server (finalize_tool_catalog fw cs) = cs_server cs" "tc_tools c = tc_tools c0"
    "tc_config c = [] \<and> tc_dup c = [] \<longleftrightarrow> distinct (map tl_name (sv_tools (cs_server cs)) @ map tl_name (tc_tools c))"
proof -
  let ?c = "prepare fw c0" and ?names = "map tl_name (sv_tools (cs_server cs))"
  have p: "tc_tools ?c = tc_tools c0" "tc_config ?c = []"
    "tc_dup ?c = [] \<longleftrightarrow> distinct (map tl_name (tc_tools c0))"
    using assms(3) first_repeat [of "[]" "map tl_name (tc_tools c0)"]
    by (auto simp: prepare_def raw_catalog_def split: option.splits)
  have r: "catalog_ready fw (duplicate_server_tool ?c name)" "catalog_ready fw ?c" for name
    using prepare_ready [OF assms(3), of fw] by (simp_all add: catalog_ready_def duplicate_server_tool_def)
  have d: "tc_config (duplicate_server_tool ?c name) \<noteq> []" "tc_tools (duplicate_server_tool ?c name) = tc_tools c0" for name
    using p(1) by (simp_all add: duplicate_server_tool_def)
  define c where "c = (case first_repeat [] ?names of
      Some name \<Rightarrow> duplicate_server_tool ?c name
    | None \<Rightarrow> (case catalog_collision ?names [] (map tl_name (tc_tools ?c)) of
         Some name \<Rightarrow> duplicate_server_tool ?c name | None \<Rightarrow> ?c))"
  have f: "finalize_tool_catalog fw cs = cs\<lparr>cs_catalog := Some c\<rparr>"
    using assms(1,2) by (simp add: finalize_tool_catalog_def Let_def c_def)
  have n: "first_repeat [] ?names = None \<longleftrightarrow> distinct ?names" using first_repeat [of "[]" ?names] by simp
  have k: "catalog_collision ?names [] (map tl_name (tc_tools c0)) = None
      \<longleftrightarrow> set (map tl_name (tc_tools c0)) \<inter> set ?names = {}"
    using collision_none [of ?names "[]"] by simp
  show thesis
  proof (rule that [of c])
    show "catalog_ready fw c" using r by (auto simp: c_def split: option.splits)
    show t: "tc_tools c = tc_tools c0" using p(1) d(2) by (auto simp: c_def split: option.splits)
    show "tc_config c = [] \<and> tc_dup c = [] \<longleftrightarrow> distinct (?names @ map tl_name (tc_tools c))"
    proof (cases "first_repeat [] ?names = None \<and> catalog_collision ?names [] (map tl_name (tc_tools c0)) = None")
      case True
      then have "c = ?c" by (simp add: c_def p(1))
      then show ?thesis using True n k p by (auto simp: distinct_append)
    next
      case False
      then have "tc_config c \<noteq> []" using d(1) p(1) by (auto simp: c_def split: option.splits)
      then show ?thesis using False n k t by (auto simp: distinct_append)
    qed
  qed (simp_all add: f)
qed


lemma finalize_installed:
  "cs_catalog (finalize_tool_catalog fw cs) = Some c \<Longrightarrow> tc_installed c \<Longrightarrow>
     \<exists>c0. cs_catalog cs = Some c0 \<and> tc_installed c0"
  by (auto simp: finalize_tool_catalog_def Let_def split: option.splits if_splits)

section \<open>Properties\<close>

text \<open>
  C40. The catalog of a server built from any options is finished: its limits lie between their floors and
  ceilings, and its entries are prepared from its tools in order, ready to be described where no encoding
  failed. The meta tools serve it, rather than report a misconfiguration, exactly when no two tools of
  the server share a name, those of the catalog and the meta tools counted.
\<close>

theorem finished_catalog:
  assumes "catalog_options opts" "cs = new_catalog_server fw factory drawn name version opts"
    "cs_catalog cs = Some c" "tc_installed c"
  shows "catalog_ready fw c
    \<and> (tc_config c = [] \<and> tc_dup c = []
       \<longleftrightarrow> distinct (map tl_name (sv_tools (cs_server cs)) @ map tl_name (tc_tools c)))"
proof -
  define cs0 where "cs0 = fold (\<lambda>opt cs. opt cs) opts \<lparr>cs_server = new_server None drawn name version [], cs_catalog = None\<rparr>"
  define s where "s = detect_ui_capability (cs_server cs0)"
  define cs1 where "cs1 = cs0\<lparr>cs_server := s\<lparr>sv_methods := build_methods factory s\<rparr>\<rparr>"
  have cs: "cs = finalize_tool_catalog fw cs1"
    by (simp add: assms(2) new_catalog_server_def Let_def cs0_def s_def cs1_def)
  obtain c0 where c0: "cs_catalog cs1 = Some c0" "tc_installed c0"
    using finalize_installed [of fw cs1 c] assms(3,4) cs by auto
  then have "raw_catalog c0"
    using options_raw [OF assms(1), of "\<lparr>cs_server = new_server None drawn name version [], cs_catalog = None\<rparr>"]
    by (simp add: cs1_def cs0_def)
  from finalized [OF c0 this, of fw] obtain c1 where
    "cs_catalog cs = Some c1" "catalog_ready fw c1" "cs_server cs = cs_server cs1"
    "tc_config c1 = [] \<and> tc_dup c1 = [] \<longleftrightarrow> distinct (map tl_name (sv_tools (cs_server cs1)) @ map tl_name (tc_tools c1))"
    unfolding cs by metis
  then show ?thesis using assms(3) by simp
qed

definition sample_options :: "catalog_option list" where
  "sample_options =
     [with_tool_catalog_limits 500 100,
      with_tool_catalog [search_tool sample_framework sample_catalog,
          execute_tool sample_framework sample_server sample_catalog (\<lambda>i. False)] [sample_tool ''add''],
      on_server (with_tools [sample_tool ''sum''])]"

lemma sample_options_ok: "catalog_options sample_options"
  by (auto simp: catalog_options_def sample_options_def)

theorem finished_catalog_witness:
  "\<exists>c. cs_catalog (new_catalog_server sample_framework None [] ''demo'' ''1'' sample_options) = Some c
     \<and> catalog_ready sample_framework c \<and> tc_max_calls c = 100 \<and> tc_max_bytes c = 512
     \<and> tc_config c = [] \<and> tc_dup c = []
     \<and> adjusted_limits c = Some (500, 100, 100, 512)"
proof -
  define cs where "cs = new_catalog_server sample_framework None [] ''demo'' ''1'' sample_options"
  note defs = new_catalog_server_def sample_options_def with_tool_catalog_limits_def with_tool_catalog_def catalog_for_def
    on_server_def with_tools_def new_server_def detect_ui_capability_def finalize_tool_catalog_def new_tool_catalog_def
    search_tool_def execute_tool_def catalog_search_tool_name_def catalog_execute_tool_name_def
    min_catalog_max_tool_calls_def max_catalog_max_tool_calls_def min_catalog_max_output_bytes_def
    max_catalog_max_output_bytes_def
  have p: "prepare sample_framework c = c\<lparr>tc_entries := map (catalog_entry_for sample_framework) (tc_tools c),
      tc_encode_err := tc_encode_err c \<or> \<not> list_all (entry_encodes sample_framework) (tc_tools c)\<rparr>"
    if "tc_tools c = [sample_tool ''add'']" for c
    by (simp add: prepare_def that)
  obtain c where c: "cs_catalog cs = Some c" "tc_installed c" "tc_tools c = [sample_tool ''add'']" "tc_max_calls c = 100"
    "tc_max_bytes c = 512" "tc_requested c = Some (500, 100)"
    "map tl_name (sv_tools (cs_server cs)) = [''search_tools'', ''execute_tools'', ''sum'']"
    by (simp add: cs_def defs Let_def p)
  from finished_catalog [OF sample_options_ok cs_def c(1,2)] c show ?thesis
    by (auto simp: cs_def adjusted_limits_def)
qed

end
