(* ===== verification/Oauth_Config.thy ===== *)
theory Oauth_Config
  imports Http_Transport
begin

text \<open>
  An application as an OAuth protected resource (\<open>server/oauth/config.go\<close>), the two metadata documents it
  publishes (\<open>metadata.go\<close>) and the routes that serve them (\<open>routes.go\<close>). The functions of the framework
  on text (its package \<open>str\<close>) are a parameter; those of Go's \<open>strings\<close> and \<open>url.PathEscape\<close> are modelled.
\<close>

section \<open>Functions of the libraries\<close>

record str_package =
  sp_start :: "bytes \<Rightarrow> bytes \<Rightarrow> bytes"
  sp_before :: "bytes \<Rightarrow> bytes \<Rightarrow> bytes"
  sp_after :: "bytes \<Rightarrow> bytes \<Rightarrow> bytes"
  sp_contains :: "bytes \<Rightarrow> bytes \<Rightarrow> bool"
  sp_starts_with :: "bytes \<Rightarrow> bytes list \<Rightarrow> bool"
  sp_ends_with :: "bytes \<Rightarrow> bytes \<Rightarrow> bool"

text \<open>\<open>strings.TrimLeft\<close>, \<open>TrimRight\<close> and \<open>Trim\<close>, for a set of ASCII characters.\<close>

definition trim_left_of :: "bytes \<Rightarrow> bytes \<Rightarrow> bytes" where
  "trim_left_of s cutset = dropWhile (\<lambda>c. c \<in> set cutset) s"

definition trim_right_of :: "bytes \<Rightarrow> bytes \<Rightarrow> bytes" where
  "trim_right_of s cutset = rev (dropWhile (\<lambda>c. c \<in> set cutset) (rev s))"

definition trim_of :: "bytes \<Rightarrow> bytes \<Rightarrow> bytes" where
  "trim_of s cutset = trim_right_of (trim_left_of s cutset) cutset"

text \<open>\<open>strings.Fields\<close>: the runs between white space.\<close>

function fields_from :: "bytes \<Rightarrow> bytes \<Rightarrow> bytes list" where
  "fields_from cur s =
     (case s of
        [] \<Rightarrow> (if cur = [] then [] else [cur])
      | c # rest \<Rightarrow>
          (let w = space_width unicode_spaces s
           in if w = 0 then fields_from (cur @ [c]) rest
              else (if cur = [] then [] else [cur]) @ fields_from [] (drop w s)))"
  by auto
termination by (relation "measure (length \<circ> snd)") (auto simp: Suc_le_eq)

declare fields_from.simps [simp del]

definition fields_of :: "bytes \<Rightarrow> bytes list" where
  "fields_of s = fields_from [] s"

text \<open>\<open>strings.Split\<close> at a byte, and \<open>strings.Join\<close>.\<close>

fun split_on :: "char \<Rightarrow> bytes \<Rightarrow> bytes list" where
  "split_on d [] = [[]]"
| "split_on d (c # s) =
     (if c = d then [] # split_on d s
      else case split_on d s of [] \<Rightarrow> [[c]] | p # ps \<Rightarrow> (c # p) # ps)"

fun join_with :: "bytes \<Rightarrow> bytes list \<Rightarrow> bytes" where
  "join_with sep [] = []"
| "join_with sep [p] = p"
| "join_with sep (p # ps) = p @ sep @ join_with sep ps"

text \<open>\<open>url.PathEscape\<close>.\<close>

definition path_char :: "char \<Rightarrow> bool" where
  "path_char c = (0x30 \<le> byte c \<and> byte c \<le> 0x39 \<or> 0x41 \<le> byte c \<and> byte c \<le> 0x5A
     \<or> 0x61 \<le> byte c \<and> byte c \<le> 0x7A \<or> c \<in> set ''-_.~$&+:=@'')"

definition upper_hex :: "nat \<Rightarrow> char" where
  "upper_hex n = (if n < 10 then char_of (0x30 + n) else char_of (0x37 + n))"

definition percent :: "char \<Rightarrow> bytes" where
  "percent c = [CHR ''%'', upper_hex (byte c div 16), upper_hex (byte c mod 16)]"

definition path_escape :: "bytes \<Rightarrow> bytes" where
  "path_escape s = concat (map (\<lambda>c. if path_char c then [c] else percent c) s)"

section \<open>Configuration\<close>

definition oauth_default_scope :: bytes where "oauth_default_scope = ''mcp:use''"
definition default_prefix :: bytes where "default_prefix = ''oauth''"
definition well_known_protected_resource :: bytes where
  "well_known_protected_resource = ''/.well-known/oauth-protected-resource''"
definition well_known_authorization_server :: bytes where
  "well_known_authorization_server = ''/.well-known/oauth-authorization-server''"

text \<open>What a registration asks a store for, and what the store made of it; a store may fail.\<close>

record client_registration =
  rg_name :: bytes
  rg_redirect_uris :: "bytes list"
  rg_logo_uri :: bytes
  rg_client_uri :: bytes
  rg_scope :: bytes

record registered_client =
  rgd_id :: bytes
  rgd_name :: bytes
  rgd_redirect_uris :: "bytes list"
  rgd_grant_types :: "bytes list"
  rgd_logo_uri :: bytes
  rgd_client_uri :: bytes

type_synonym client_store = "client_registration \<Rightarrow> registered_client option"

record oauth_config =
  oc_base_url :: bytes
  oc_authorization_server :: bytes
  oc_scope :: bytes
  oc_prefix :: bytes
  oc_authorization_endpoint :: bytes
  oc_token_endpoint :: bytes
  oc_response_issuer :: bool
  oc_client_id_documents :: bool
  oc_auth_methods :: "bytes list"
  oc_clients :: "client_store option"
  oc_redirect_domains :: "bytes list"
  oc_custom_schemes :: "bytes list"
  oc_resource_metadata_url :: bytes
  oc_without_resource_metadata :: bool

text \<open>What the sources read of a request: \<open>r.TLS\<close>, \<open>r.Host\<close>, \<open>r.URL.EscapedPath()\<close>, its headers.\<close>

record web_request =
  wr_tls :: bool
  wr_host :: bytes
  wr_escaped_path :: bytes
  wr_authorization :: bytes

definition config_scope :: "oauth_config \<Rightarrow> bytes" where
  "config_scope cfg = (if oc_scope cfg = [] then oauth_default_scope else oc_scope cfg)"

definition is_scope_token :: "bytes \<Rightarrow> bool" where
  "is_scope_token v = (v \<noteq> [] \<and>
     list_all (\<lambda>c. \<not> (byte c \<le> 0x20 \<or> 0x7F \<le> byte c \<or> c = quote_char \<or> c = backslash)) v)"

fun scope_tokens_from :: "bytes list \<Rightarrow> bytes list \<Rightarrow> bytes list" where
  "scope_tokens_from seen [] = []"
| "scope_tokens_from seen (f # fs) =
     (if \<not> is_scope_token f then scope_tokens_from seen fs
      else if f \<in> set seen then scope_tokens_from seen fs
      else f # scope_tokens_from (f # seen) fs)"

definition scope_tokens :: "oauth_config \<Rightarrow> bytes list" where
  "scope_tokens cfg = scope_tokens_from [] (fields_of (config_scope cfg))"

definition config_prefix :: "oauth_config \<Rightarrow> bytes" where
  "config_prefix cfg = (let p = trim_of (oc_prefix cfg) ''/'' in if p = [] then default_prefix else p)"

definition register_path :: "oauth_config \<Rightarrow> bytes" where
  "register_path cfg = ''/'' @ config_prefix cfg @ ''/register''"

definition config_origin :: "oauth_config \<Rightarrow> web_request option \<Rightarrow> bytes" where
  "config_origin cfg r =
     (if oc_base_url cfg \<noteq> [] then trim_right_of (oc_base_url cfg) ''/''
      else case r of
        None \<Rightarrow> []
      | Some rq \<Rightarrow> (if wr_tls rq then ''https'' else ''http'') @ ''://'' @ wr_host rq)"

definition absolute_endpoint :: "bytes \<Rightarrow> bytes \<Rightarrow> bytes" where
  "absolute_endpoint origin endpoint =
     (if endpoint = [] then []
      else if contains endpoint ''://'' then endpoint
      else origin @ ''/'' @ trim_left_of endpoint ''/'')"

definition resource_path :: "str_package \<Rightarrow> bytes \<Rightarrow> bytes" where
  "resource_path sp path = (if path = [] \<or> path = ''/'' then [] else sp_start sp path ''/'')"

definition escape_path :: "bytes \<Rightarrow> bytes" where
  "escape_path path = (if path = [] then [] else join_with ''/'' (map path_escape (split_on (CHR ''/'') path)))"

definition metadata_url_for :: "bytes \<Rightarrow> bytes \<Rightarrow> bytes" where
  "metadata_url_for origin encoded = origin @ well_known_protected_resource @ encoded"

definition protected_resource_metadata_url :: "str_package \<Rightarrow> bytes \<Rightarrow> bytes \<Rightarrow> bytes" where
  "protected_resource_metadata_url sp origin path = metadata_url_for origin (escape_path (resource_path sp path))"

definition request_path :: "str_package \<Rightarrow> web_request option \<Rightarrow> bytes" where
  "request_path sp r = (case r of None \<Rightarrow> [] | Some rq \<Rightarrow> resource_path sp (wr_escaped_path rq))"

definition metadata_resource_path :: "str_package \<Rightarrow> web_request option \<Rightarrow> bytes \<Rightarrow> bytes" where
  "metadata_resource_path sp r captured =
     (case r of
        Some rq \<Rightarrow>
          if sp_contains sp (wr_escaped_path rq) well_known_protected_resource
          then sp_after sp (wr_escaped_path rq) well_known_protected_resource
          else escape_path (resource_path sp captured)
      | None \<Rightarrow> escape_path (resource_path sp captured))"

text \<open>\<open>Config.challengeMetadataURL\<close> of \<open>challenge.go\<close>.\<close>

definition challenge_metadata_url :: "str_package \<Rightarrow> oauth_config \<Rightarrow> web_request option \<Rightarrow> bytes" where
  "challenge_metadata_url sp cfg r =
     (if oc_resource_metadata_url cfg \<noteq> [] then oc_resource_metadata_url cfg
      else if oc_without_resource_metadata cfg then []
      else let origin = config_origin cfg r
           in if origin = [] then [] else metadata_url_for origin (request_path sp r))"

section \<open>Metadata documents\<close>

record protected_resource_metadata =
  pm_resource :: bytes
  pm_authorization_servers :: "bytes list"
  pm_scopes :: "bytes list"

record authorization_server_metadata =
  am_issuer :: bytes
  am_authorization_endpoint :: bytes
  am_token_endpoint :: bytes
  am_registration_endpoint :: bytes
  am_response_types :: "bytes list"
  am_code_challenge_methods :: "bytes list"
  am_scopes :: "bytes list"
  am_grant_types :: "bytes list"
  am_auth_methods :: "bytes list"
  am_response_iss :: bool
  am_client_id_documents :: bool

definition response_type_code :: bytes where "response_type_code = ''code''"
definition code_challenge_method_s256 :: bytes where "code_challenge_method_s256 = ''S256''"
definition grant_types :: "bytes list" where "grant_types = [''authorization_code'', ''refresh_token'']"
definition token_endpoint_auth_none :: bytes where "token_endpoint_auth_none = ''none''"

definition issuer_for :: "oauth_config \<Rightarrow> bytes \<Rightarrow> bytes" where
  "issuer_for cfg origin = (if oc_authorization_server cfg \<noteq> [] then oc_authorization_server cfg else origin)"

fun stated_methods :: "bytes list \<Rightarrow> bytes list \<Rightarrow> bytes list" where
  "stated_methods ms [] = ms"
| "stated_methods ms (m # rest) = stated_methods (if m \<noteq> [] \<and> m \<notin> set ms then ms @ [m] else ms) rest"

definition token_endpoint_auth_methods :: "oauth_config \<Rightarrow> bytes list" where
  "token_endpoint_auth_methods cfg =
     (let ms = stated_methods [] (oc_auth_methods cfg)
      in if ms = [] \<and> oc_clients cfg \<noteq> None then [token_endpoint_auth_none] else ms)"

definition protected_resource :: "oauth_config \<Rightarrow> bytes \<Rightarrow> bytes \<Rightarrow> protected_resource_metadata" where
  "protected_resource cfg origin path =
     \<lparr>pm_resource = origin @ path, pm_authorization_servers = [issuer_for cfg origin], pm_scopes = scope_tokens cfg\<rparr>"

definition authorization_server :: "oauth_config \<Rightarrow> bytes \<Rightarrow> authorization_server_metadata" where
  "authorization_server cfg origin =
     \<lparr>am_issuer = issuer_for cfg origin,
      am_authorization_endpoint = absolute_endpoint origin (oc_authorization_endpoint cfg),
      am_token_endpoint = absolute_endpoint origin (oc_token_endpoint cfg),
      am_registration_endpoint = (if oc_clients cfg \<noteq> None then origin @ register_path cfg else []),
      am_response_types = [response_type_code],
      am_code_challenge_methods = [code_challenge_method_s256],
      am_scopes = scope_tokens cfg,
      am_grant_types = grant_types,
      am_auth_methods = token_endpoint_auth_methods cfg,
      am_response_iss = oc_response_issuer cfg,
      am_client_id_documents = oc_client_id_documents cfg\<rparr>"

section \<open>Routes\<close>

datatype endpoint = ProtectedResourceAt bytes | AuthorizationServerAt | RegisterAt

record mounted_route =
  mr_method :: bytes
  mr_path :: bytes
  mr_name :: bytes
  mr_endpoint :: endpoint

definition serves_authorization_server :: "oauth_config \<Rightarrow> bool" where
  "serves_authorization_server cfg = (oc_authorization_endpoint cfg \<noteq> [] \<and> oc_token_endpoint cfg \<noteq> [])"

text \<open>\<open>routeSet\<close>: the method and path pairs in use, and the names.\<close>

record route_set =
  rs_paths :: "bytes list"
  rs_names :: "bytes list"

definition route_taken :: "route_set \<Rightarrow> bytes \<Rightarrow> bytes \<Rightarrow> bytes \<Rightarrow> bool" where
  "route_taken s method path name = (method @ '' '' @ path \<in> set (rs_paths s) \<or> name \<in> set (rs_names s))"

text \<open>What a router already serves: the method, path and name of each route, or nothing to go by.\<close>

definition registered_routes :: "(bytes \<times> bytes \<times> bytes) list option \<Rightarrow> route_set" where
  "registered_routes listed =
     (case listed of
        None \<Rightarrow> \<lparr>rs_paths = [], rs_names = []\<rparr>
      | Some infos \<Rightarrow> \<lparr>rs_paths = map (\<lambda>(m, p, n). m @ '' '' @ p) infos,
                       rs_names = filter (\<lambda>n. n \<noteq> []) (map (\<lambda>(m, p, n). n) infos)\<rparr>)"

definition wildcard_suffix :: bytes where "wildcard_suffix = ''/{path:.*}''"

definition mount :: "route_set \<Rightarrow> bytes \<Rightarrow> bytes \<Rightarrow> bytes \<Rightarrow> endpoint \<Rightarrow> mounted_route list" where
  "mount taken method path name e =
     (if route_taken taken method path name then []
      else [\<lparr>mr_method = method, mr_path = path, mr_name = name, mr_endpoint = e\<rparr>])"

definition oauth_routes :: "(bytes \<times> bytes \<times> bytes) list option \<Rightarrow> oauth_config \<Rightarrow> mounted_route list" where
  "oauth_routes listed cfg =
     (let taken = registered_routes listed
      in (if oc_without_resource_metadata cfg then []
          else mount taken ''GET'' well_known_protected_resource ''mcp.oauth.protected-resource'' (ProtectedResourceAt [])
             @ mount taken ''GET'' (well_known_protected_resource @ wildcard_suffix)
                 ''mcp.oauth.protected-resource.nested'' (ProtectedResourceAt ''path''))
       @ (if \<not> serves_authorization_server cfg then []
          else mount taken ''GET'' well_known_authorization_server ''mcp.oauth.authorization-server'' AuthorizationServerAt
             @ mount taken ''GET'' (well_known_authorization_server @ wildcard_suffix)
                 ''mcp.oauth.authorization-server.nested'' AuthorizationServerAt)
       @ (if oc_clients cfg = None then []
          else mount taken ''POST'' (register_path cfg) ''mcp.oauth.register'' RegisterAt))"

definition protected_resource_handler ::
  "str_package \<Rightarrow> oauth_config \<Rightarrow> bytes \<Rightarrow> web_request \<Rightarrow> protected_resource_metadata" where
  "protected_resource_handler sp cfg captured r =
     protected_resource cfg (config_origin cfg (Some r)) (metadata_resource_path sp (Some r) captured)"

definition authorization_server_handler :: "oauth_config \<Rightarrow> web_request \<Rightarrow> authorization_server_metadata" where
  "authorization_server_handler cfg r = authorization_server cfg (config_origin cfg (Some r))"

section \<open>Laws\<close>

text \<open>
  The documented behaviour of \<open>str.After\<close> and \<open>str.Contains\<close> that the sources rely on: a text that
  starts with the separator contains it, and what comes after it is the rest.
\<close>

definition splits_after :: "str_package \<Rightarrow> bool" where
  "splits_after sp \<longleftrightarrow> (\<forall>sep rest. sep \<noteq> [] \<longrightarrow> sp_contains sp (sep @ rest) sep \<and> sp_after sp (sep @ rest) sep = rest)"

lemma scope_tokens_from_exact:
  "set (scope_tokens_from seen fs) = {f \<in> set fs. is_scope_token f} - set seen \<and> distinct (scope_tokens_from seen fs)"
  by (induction seen fs rule: scope_tokens_from.induct) auto

text \<open>
  A client that is refused finds its way: the metadata URL a challenge advertises for a request is
  the URL under which the application's own route answers with a document naming exactly the resource
  the request addressed, on the same origin, and its own issuer.
\<close>

theorem advertised_document_names_resource:
  assumes "splits_after sp" "oc_resource_metadata_url cfg = []" "\<not> oc_without_resource_metadata cfg"
    and "config_origin cfg (Some r) \<noteq> []" "wr_tls q = wr_tls r" "wr_host q = wr_host r"
    and "challenge_metadata_url sp cfg (Some r) = config_origin cfg (Some q) @ wr_escaped_path q"
  shows "pm_resource (protected_resource_handler sp cfg captured q)
      = config_origin cfg (Some r) @ resource_path sp (wr_escaped_path r)
    \<and> pm_authorization_servers (protected_resource_handler sp cfg captured q)
      = [am_issuer (authorization_server_handler cfg r)]"
proof -
  have o: "config_origin cfg (Some q) = config_origin cfg (Some r)" using assms(5,6) by (simp add: config_origin_def)
  with assms have "wr_escaped_path q = well_known_protected_resource @ resource_path sp (wr_escaped_path r)"
    by (simp add: challenge_metadata_url_def metadata_url_for_def request_path_def Let_def)
  moreover have "well_known_protected_resource \<noteq> []" by (simp add: well_known_protected_resource_def)
  ultimately have "metadata_resource_path sp (Some q) captured = resource_path sp (wr_escaped_path r)"
    using assms(1) by (simp add: metadata_resource_path_def splits_after_def)
  with o show ?thesis
    by (simp add: protected_resource_handler_def authorization_server_handler_def protected_resource_def authorization_server_def)
qed

definition demo_str :: str_package where
  "demo_str = \<lparr>sp_start = (\<lambda>s p. if has_prefix s p then s else p @ s),
     sp_before = (\<lambda>s p. case index_of s p of None \<Rightarrow> s | Some i \<Rightarrow> take i s),
     sp_after = (\<lambda>s p. case index_of s p of None \<Rightarrow> s | Some i \<Rightarrow> drop (i + length p) s),
     sp_contains = contains, sp_starts_with = (\<lambda>s ps. list_ex (has_prefix s) ps), sp_ends_with = has_suffix\<rparr>"

lemma demo_str_splits: "splits_after demo_str"
proof -
  have "index_of (sep @ rest) sep = Some 0" if "sep \<noteq> []" for sep rest
    using that by (cases sep) (simp_all add: has_prefix_def)
  then show ?thesis by (auto simp: splits_after_def demo_str_def contains_def)
qed

definition demo_oauth :: oauth_config where
  "demo_oauth = \<lparr>oc_base_url = ''https://mcp.example.com/'', oc_authorization_server = [], oc_scope = [], oc_prefix = [],
     oc_authorization_endpoint = ''/oauth/authorize'', oc_token_endpoint = ''/oauth/token'', oc_response_issuer = True,
     oc_client_id_documents = False, oc_auth_methods = [], oc_clients = None,
     oc_redirect_domains = [''https://example.com'', ''http://localhost''], oc_custom_schemes = [''myapp''],
     oc_resource_metadata_url = [], oc_without_resource_metadata = False\<rparr>"

definition demo_web :: "bytes \<Rightarrow> web_request" where
  "demo_web path = \<lparr>wr_tls = False, wr_host = ''internal'', wr_escaped_path = path, wr_authorization = []\<rparr>"

theorem advertised_document_names_resource_witness:
  "pm_resource (protected_resource_handler demo_str demo_oauth [] (demo_web ''/.well-known/oauth-protected-resource/mcp/''))
     = ''https://mcp.example.com/mcp/''"
proof -
  have "config_origin demo_oauth (Some (demo_web ''/mcp/'')) @ resource_path demo_str (wr_escaped_path (demo_web ''/mcp/''))
      = ''https://mcp.example.com/mcp/''" by code_simp
  moreover have "oc_resource_metadata_url demo_oauth = []" "\<not> oc_without_resource_metadata demo_oauth"
    "config_origin demo_oauth (Some (demo_web ''/mcp/'')) \<noteq> []"
    "challenge_metadata_url demo_str demo_oauth (Some (demo_web ''/mcp/''))
      = config_origin demo_oauth (Some (demo_web ''/.well-known/oauth-protected-resource/mcp/''))
        @ wr_escaped_path (demo_web ''/.well-known/oauth-protected-resource/mcp/'')"
    by code_simp+
  ultimately show ?thesis
    using advertised_document_names_resource [OF demo_str_splits, of demo_oauth "demo_web ''/mcp/''"
        "demo_web ''/.well-known/oauth-protected-resource/mcp/''" "[]"]
    by (simp add: demo_web_def)
qed

text \<open>Routes and challenge never disagree, and mounting a second time mounts nothing.\<close>

lemma challenge_matches_routes:
  assumes "oc_resource_metadata_url cfg = []" "challenge_metadata_url sp cfg r \<noteq> []"
  shows "ProtectedResourceAt ''path'' \<in> mr_endpoint ` set (oauth_routes None cfg)"
  using assms by (auto simp: challenge_metadata_url_def oauth_routes_def mount_def registered_routes_def route_taken_def
      image_Un Let_def split: if_splits)

lemma mounted_once:
  assumes "(\<lambda>m. (mr_method m, mr_path m, mr_name m)) ` set (oauth_routes listed cfg) \<subseteq> set infos"
    and "\<And>l. listed = Some l \<Longrightarrow> set l \<subseteq> set infos"
  shows "oauth_routes (Some infos) cfg = []"
proof -
  have "mount (registered_routes (Some infos)) m p n e = []"
    if "set (mount (registered_routes listed) m p n e) \<subseteq> set (oauth_routes listed cfg)" "n \<noteq> []" for m p n e
  proof (cases "route_taken (registered_routes listed) m p n")
    case True
    then have "route_taken (registered_routes (Some infos)) m p n"
      using assms(2) by (cases listed) (force simp: route_taken_def registered_routes_def)+
    then show ?thesis by (simp add: mount_def)
  next
    case False
    with that(1) have "(m, p, n) \<in> set infos" using assms(1) by (force simp: mount_def)
    then show ?thesis by (force simp: mount_def route_taken_def registered_routes_def)
  qed
  note again = this
  show ?thesis unfolding oauth_routes_def [of "Some infos"] Let_def
    by (auto intro!: again simp: oauth_routes_def Let_def)
qed

end
