(* ===== verification/Bearer_Challenge.thy ===== *)
theory Bearer_Challenge
  imports Oauth_Config
begin

text \<open>
  The bearer challenge of a refused request: what a protected route writes (\<open>server/oauth/challenge.go\<close>),
  what a client reads of it (\<open>client/oauth/challenge.go\<close>), and the middleware that attaches it to the
  responses that need one.
\<close>

section \<open>Writing a challenge\<close>

definition challenge_realm :: bytes where "challenge_realm = ''mcp''"
definition challenge_invalid_token :: bytes where "challenge_invalid_token = ''invalid_token''"
definition challenge_insufficient_scope :: bytes where "challenge_insufficient_scope = ''insufficient_scope''"

definition quotable :: "char \<Rightarrow> bool" where
  "quotable c = (\<not> (byte c < 0x20 \<or> byte c = 0x7F))"

definition quote_escape :: "bytes \<Rightarrow> bytes" where
  "quote_escape v = concat (map (\<lambda>c.
     if c = quote_char \<or> c = backslash then [backslash, c] else if quotable c then [c] else []) v)"

definition challenge_param :: "bytes \<times> bytes \<Rightarrow> bytes" where
  "challenge_param p =
     (case p of (name, v) \<Rightarrow> if v = [] then [] else '', '' @ name @ ''='' @ [quote_char] @ v @ [quote_char])"

definition challenge_value :: "bytes \<Rightarrow> bytes \<Rightarrow> bytes \<Rightarrow> bytes" where
  "challenge_value code url scope =
     ''Bearer realm='' @ [quote_char] @ quote_escape challenge_realm @ [quote_char]
       @ concat (map challenge_param [(''error'', quote_escape code), (''resource_metadata'', quote_escape url),
           (''scope'', quote_escape scope)])"

definition unauthenticated_challenge :: "bytes \<Rightarrow> bytes \<Rightarrow> bytes" where
  "unauthenticated_challenge url scope = challenge_value [] url scope"

definition invalid_token_challenge :: "bytes \<Rightarrow> bytes \<Rightarrow> bytes" where
  "invalid_token_challenge url scope = challenge_value challenge_invalid_token url scope"

definition insufficient_scope_challenge :: "bytes \<Rightarrow> bytes \<Rightarrow> bytes" where
  "insufficient_scope_challenge url scope = challenge_value challenge_insufficient_scope url scope"

text \<open>
  \<open>strings.EqualFold\<close> with \<open>Bearer\<close>, none of whose letters is the folding of a letter beyond ASCII.
\<close>

definition is_bearer :: "bytes \<Rightarrow> bool" where
  "is_bearer s = (to_lower s = ''bearer'')"

definition presents_bearer_token :: "web_request \<Rightarrow> bool" where
  "presents_bearer_token r =
     (let credentials = trim_space (wr_authorization r)
      in case index_of credentials '' '' of
           None \<Rightarrow> False
         | Some i \<Rightarrow> is_bearer (take i credentials) \<and> trim_space (drop (i + 1) credentials) \<noteq> [])"

section \<open>Reading a challenge\<close>

record challenge =
  ch_resource_metadata_url :: bytes
  ch_error :: bytes
  ch_error_description :: bytes
  ch_scope :: bytes

definition is_token_char :: "char \<Rightarrow> bool" where
  "is_token_char ch =
     (0x61 \<le> byte ch \<and> byte ch \<le> 0x7A \<or> 0x41 \<le> byte ch \<and> byte ch \<le> 0x5A \<or> 0x30 \<le> byte ch \<and> byte ch \<le> 0x39
      \<or> ch \<in> set (''!#$%&'' @ [CHR 0x27] @ ''*+-.^_'' @ [CHR 0x60] @ ''|~''))"

definition blank :: "char \<Rightarrow> bool" where "blank c = (c = CHR '' '' \<or> c = CHR 0x09)"
definition separator :: "char \<Rightarrow> bool" where "separator c = (blank c \<or> c = CHR '','')"

text \<open>The text of a quoted-string from behind its quote, without its escapes, and what follows it.\<close>

fun quoted_string :: "bytes \<Rightarrow> (bytes \<times> bytes) option" where
  "quoted_string [] = None"
| "quoted_string (c # s) =
     (if c = quote_char then Some ([], s)
      else if c = backslash
      then (case s of [] \<Rightarrow> None | d # rest \<Rightarrow> map_option (\<lambda>(v, r). (d # v, r)) (quoted_string rest))
      else map_option (\<lambda>(v, r). (c # v, r)) (quoted_string s))"

text \<open>\<open>challengeScanner.value\<close>: \<open>None\<close> for a quoted-string that never ends.\<close>

definition scan_value :: "bytes \<Rightarrow> (bytes \<times> bytes) option" where
  "scan_value s =
     (case s of
        [] \<Rightarrow> Some ([], [])
      | c # rest \<Rightarrow>
          if c \<noteq> quote_char then Some (takeWhile (\<lambda>c. \<not> separator c) s, dropWhile (\<lambda>c. \<not> separator c) s)
          else quoted_string rest)"

lemma quoted_string_shorter: "quoted_string s = Some (v, r) \<Longrightarrow> length r < length s"
  by (induction s arbitrary: v r rule: quoted_string.induct) (force split: if_splits list.splits)+

lemma scan_value_shorter:
  "scan_value s = Some (v, r) \<Longrightarrow> length r \<le> length s"
  "scan_value (c # s) = Some (v, r) \<Longrightarrow> \<not> separator c \<Longrightarrow> length r < Suc (length s)"
  using length_dropWhile_le [of "\<lambda>c. \<not> separator c" s]
  by (auto simp: scan_value_def length_dropWhile_le le_imp_less_Suc intro: le_SucI dest!: quoted_string_shorter split: list.splits if_splits)

lemma dropWhile_Cons_shorter: "dropWhile P s = c # u \<Longrightarrow> \<not> P c \<and> Suc (length u) \<le> length s"
  by (metis dropWhile_eq_Cons_conv length_Cons length_dropWhile_le)

datatype challenge_element = SchemeNamed bytes | ParamNamed bytes bytes

function next_element :: "bytes \<Rightarrow> (challenge_element \<times> bytes) option" where
  "next_element s =
     (let t = dropWhile separator s
      in case t of
           [] \<Rightarrow> None
         | c # rest \<Rightarrow>
             let name = takeWhile is_token_char t; after = dropWhile is_token_char t
             in if name = []
                then (case scan_value (if c = CHR ''='' then rest else t) of
                        None \<Rightarrow> None
                      | Some (v, later) \<Rightarrow> next_element later)
                else (case dropWhile blank after of
                        [] \<Rightarrow> Some (SchemeNamed name, after)
                      | d # u \<Rightarrow>
                          if d \<noteq> CHR ''='' then Some (SchemeNamed name, after)
                          else (case scan_value (dropWhile blank u) of
                                  None \<Rightarrow> None
                                | Some (v, later) \<Rightarrow> Some (ParamNamed name v, later))))"
  by auto
termination
proof (relation "measure length", simp, goal_cases)
  case (1 s t c rest name after p v later)
  then have "\<not> separator c \<and> Suc (length rest) \<le> length s" using dropWhile_Cons_shorter [of separator s c rest] by simp
  then show ?case
    using 1 scan_value_shorter(1) [of rest v later] scan_value_shorter(2) [of c rest v later]
    by (auto split: if_splits)
qed

declare next_element.simps [simp del]

lemma next_element_shorter: "next_element s = Some (e, rest) \<Longrightarrow> length rest < length s"
proof (induction s rule: next_element.induct)
  case (1 s)
  then obtain c u where t: "dropWhile separator s = c # u"
    by (subst (asm) next_element.simps) (auto simp: Let_def split: list.splits)
  note len = dropWhile_Cons_shorter [OF this]
  let ?t = "c # u" let ?after = "dropWhile is_token_char ?t"
  show ?case
  proof (cases "takeWhile is_token_char ?t = []")
    case True
    with 1(2) t obtain v later where l: "scan_value (if c = CHR ''='' then u else ?t) = Some (v, later)"
      "next_element later = Some (e, rest)"
      by (subst (asm) next_element.simps) (auto simp: Let_def split: option.splits)
    have "length later < length s"
      using l(1) len scan_value_shorter(1) [of u v later] scan_value_shorter(2) [of c u v later] by (auto split: if_splits)
    moreover have "length rest < length later" using 1(1) [OF t [symmetric] refl refl refl True l(1) refl l(2)] .
    ultimately show ?thesis by simp
  next
    case False
    then have a: "length ?after \<le> length u" using length_dropWhile_le [of is_token_char u] by (auto split: if_splits)
    have "length rest \<le> length ?after"
    proof (cases "dropWhile blank ?after")
      case Nil
      with 1(2) t False show ?thesis
        by (subst (asm) next_element.simps) (auto simp: Let_def simp del: dropWhile_eq_Nil_conv)
    next
      case (Cons d w)
      note dropWhile_Cons_shorter [OF this] length_dropWhile_le [of blank w]
      with 1(2) t False Cons show ?thesis
        by (subst (asm) next_element.simps)
          (auto simp: Let_def dest!: scan_value_shorter(1) split: option.splits if_splits)
    qed
    with a len show ?thesis by simp
  qed
qed

function challenge_elements :: "bytes \<Rightarrow> challenge_element list" where
  "challenge_elements s = (case next_element s of None \<Rightarrow> [] | Some (e, rest) \<Rightarrow> e # challenge_elements rest)"
  by auto
termination by (relation "measure length") (auto dest: next_element_shorter)

declare challenge_elements.simps [simp del]

text \<open>The parameters of the first Bearer challenge, those of all, and whether one was seen or is being read.\<close>

record gathered =
  ga_bearer :: "(bytes \<times> bytes) list"
  ga_all :: "(bytes \<times> bytes) list"
  ga_saw :: bool
  ga_in :: bool

definition add_first :: "bytes \<Rightarrow> bytes \<Rightarrow> (bytes \<times> bytes) list \<Rightarrow> (bytes \<times> bytes) list" where
  "add_first key v ps = (if key \<in> fst ` set ps then ps else ps @ [(key, v)])"

definition note_element :: "gathered \<Rightarrow> challenge_element \<Rightarrow> gathered" where
  "note_element g e =
     (case e of
        SchemeNamed name \<Rightarrow>
          (let inside = (\<not> ga_saw g \<and> is_bearer name) in g\<lparr>ga_in := inside, ga_saw := ga_saw g \<or> inside\<rparr>)
      | ParamNamed name v \<Rightarrow>
          g\<lparr>ga_all := add_first (to_lower name) v (ga_all g),
            ga_bearer := (if ga_in g then add_first (to_lower name) v (ga_bearer g) else ga_bearer g)\<rparr>)"

definition challenge_params :: "bytes \<Rightarrow> (bytes \<times> bytes) list" where
  "challenge_params header =
     (let g = foldl note_element \<lparr>ga_bearer = [], ga_all = [], ga_saw = False, ga_in = False\<rparr> (challenge_elements header)
      in if ga_saw g then ga_bearer g else ga_all g)"

definition param_named :: "bytes \<Rightarrow> (bytes \<times> bytes) list \<Rightarrow> bytes" where
  "param_named key ps = (case map_of ps key of None \<Rightarrow> [] | Some v \<Rightarrow> v)"

definition parse_challenge :: "bytes \<Rightarrow> challenge" where
  "parse_challenge header =
     (let ps = challenge_params header
      in \<lparr>ch_resource_metadata_url = param_named ''resource_metadata'' ps, ch_error = param_named ''error'' ps,
          ch_error_description = param_named ''error_description'' ps, ch_scope = param_named ''scope'' ps\<rparr>)"

section \<open>What is written is what is read\<close>

lemma quoted_string_escape:
  "quoted_string (quote_escape v @ quote_char # rest) = Some (filter quotable v, rest)"
proof (induction v)
  case (Cons c v)
  have "quotable quote_char" "quotable backslash" by (simp_all add: quotable_def)
  with Cons show ?case by (auto simp: quote_escape_def)
qed (simp add: quote_escape_def)

lemma quote_escape_empty: "quote_escape v = [] \<longleftrightarrow> filter quotable v = []"
proof -
  have "quotable quote_char" "quotable backslash" by (simp_all add: quotable_def)
  then show ?thesis by (induction v) (auto simp: quote_escape_def)
qed

text \<open>A parameter behind its comma, with a name of token characters.\<close>

lemma elements_of_param:
  assumes "name \<noteq> []" "list_all is_token_char name"
  shows "challenge_elements ('', '' @ name @ ''='' @ [quote_char] @ quote_escape v @ [quote_char] @ rest)
    = ParamNamed name (filter quotable v) # challenge_elements rest" (is "challenge_elements ?s = _")
proof -
  let ?after = "CHR ''='' # quote_char # quote_escape v @ quote_char # rest"
  have n: "takeWhile is_token_char (name @ ?after) = name" "dropWhile is_token_char (name @ ?after) = ?after"
    using assms(2) by (simp_all add: list_all_iff is_token_char_def)
  obtain c u where c: "name = c # u" using assms(1) by (cases name) auto
  have "is_token_char c" using assms(2) c by simp
  then have "\<not> separator c" by (auto simp: is_token_char_def separator_def blank_def)
  then have "dropWhile separator ?s = name @ ?after" by (simp add: c separator_def blank_def)
  then have "next_element ?s = Some (ParamNamed name (filter quotable v), rest)"
    using n by (subst next_element.simps)
      (simp add: c blank_def scan_value_def quoted_string_escape Let_def split del: if_split)
  then show ?thesis by (subst challenge_elements.simps) simp
qed

lemma elements_of_params:
  assumes "list_all (\<lambda>(name, v). name \<noteq> [] \<and> list_all is_token_char name) ps"
  shows "challenge_elements (concat (map (\<lambda>(name, v). challenge_param (name, quote_escape v)) ps))
    = map (\<lambda>(name, v). ParamNamed name (filter quotable v)) (filter (\<lambda>(name, v). filter quotable v \<noteq> []) ps)"
  using assms
proof (induction ps)
  case Nil
  show ?case by (subst challenge_elements.simps, subst next_element.simps) simp
next
  case (Cons p ps)
  obtain name v where p: "p = (name, v)" by (cases p)
  with Cons elements_of_param [of name v] show ?case by (auto simp: challenge_param_def quote_escape_empty)
qed

text \<open>
  C32. A challenge says what was meant and nothing else: whatever bytes its metadata URL and scope hold,
  quotes, backslashes and line breaks included, a client reads back exactly those values, less the
  control characters no header carries, under their own names; no text of theirs is ever taken for
  another parameter, or for another challenge.
\<close>

theorem challenge_roundtrip:
  "parse_challenge (challenge_value code url scope) =
     \<lparr>ch_resource_metadata_url = filter quotable url, ch_error = filter quotable code,
      ch_error_description = [], ch_scope = filter quotable scope\<rparr>"
proof -
  let ?ps = "[(''error'', code), (''resource_metadata'', url), (''scope'', scope)]"
  let ?text = "concat (map (\<lambda>(name, v). challenge_param (name, quote_escape v)) ((''realm'', challenge_realm) # ?ps))"
  have realm: "quote_escape challenge_realm = ''mcp''" by code_simp
  have v: "challenge_value code url scope = ''Bearer'' @ '' '' @ tl (tl ?text)"
    by (simp add: challenge_value_def challenge_param_def realm)
  have "next_element (challenge_value code url scope) = Some (SchemeNamed ''Bearer'', '' '' @ tl (tl ?text))"
    unfolding v by (subst next_element.simps)
      (simp add: challenge_param_def realm separator_def blank_def is_token_char_def)
  moreover have "next_element ('' '' @ tl (tl ?text)) = next_element ?text"
    by (subst (1 2) next_element.simps) (simp add: challenge_param_def realm separator_def blank_def)
  then have "challenge_elements ('' '' @ tl (tl ?text)) = challenge_elements ?text"
    by (subst (1 2) challenge_elements.simps) simp
  moreover have "list_all (\<lambda>(name, v). name \<noteq> [] \<and> list_all is_token_char name) ((''realm'', challenge_realm) # ?ps)"
    by (simp add: is_token_char_def)
  note elements_of_params [OF this]
  ultimately have e: "challenge_elements (challenge_value code url scope) = SchemeNamed ''Bearer''
      # map (\<lambda>(name, v). ParamNamed name (filter quotable v))
          (filter (\<lambda>(name, v). filter quotable v \<noteq> []) ((''realm'', challenge_realm) # ?ps))"
    by (subst challenge_elements.simps) simp
  have low: "is_bearer ''Bearer''" "to_lower ''error'' = ''error''" "to_lower ''scope'' = ''scope''"
    "to_lower ''resource_metadata'' = ''resource_metadata''" "to_lower ''realm'' = ''realm''" by code_simp+
  show ?thesis
    unfolding parse_challenge_def challenge_params_def e
    by (cases "filter quotable code = []"; cases "filter quotable url = []"; cases "filter quotable scope = []";
        cases "filter quotable challenge_realm = []")
      (simp_all add: note_element_def add_first_def param_named_def Let_def low del: filter_empty_conv)
qed

section \<open>The response it is attached to\<close>

text \<open>
  A response writer of \<open>net/http\<close>, as far as a challenge goes: the \<open>WWW-Authenticate\<close> header as it stands
  (\<open>[]\<close> for none), the status line once it is written with the header that left with it, and whether the
  connection was taken over. An informational status is sent ahead and commits nothing.
\<close>

record response_writer =
  rw_challenge :: bytes
  rw_sent :: "(nat \<times> bytes) option"
  rw_taken_over :: bool
  rw_flushes :: bool
  rw_hijacks :: bool

definition informational :: "nat \<Rightarrow> bool" where
  "informational status = (100 \<le> status \<and> status \<le> 199 \<and> status \<noteq> 101)"

definition plain_write_header :: "nat \<Rightarrow> response_writer \<Rightarrow> response_writer" where
  "plain_write_header status w =
     (if rw_taken_over w \<or> rw_sent w \<noteq> None \<or> informational status then w
      else w\<lparr>rw_sent := Some (status, rw_challenge w)\<rparr>)"

text \<open>\<open>challengeWriter\<close>; its hook edits the headers before they leave.\<close>

record challenge_writer =
  cw_under :: response_writer
  cw_challenge :: bytes
  cw_committed :: bool
  cw_hook :: "(bytes \<Rightarrow> bytes) option"
  cw_speculative :: bool

definition before_first_write :: "(bytes \<Rightarrow> bytes) option \<Rightarrow> challenge_writer \<Rightarrow> challenge_writer" where
  "before_first_write fn w = (case fn of None \<Rightarrow> w | Some f \<Rightarrow> w\<lparr>cw_hook := Some f\<rparr>)"

definition set_header :: "bytes \<Rightarrow> challenge_writer \<Rightarrow> challenge_writer" where
  "set_header v w = w\<lparr>cw_under := (cw_under w)\<lparr>rw_challenge := v\<rparr>\<rparr>"

definition fire_before_first_write :: "challenge_writer \<Rightarrow> challenge_writer" where
  "fire_before_first_write w =
     (case cw_hook w of
        None \<Rightarrow> w
      | Some f \<Rightarrow> set_header (f (rw_challenge (cw_under w))) (w\<lparr>cw_hook := None\<rparr>))"

definition settle_header :: "nat \<Rightarrow> challenge_writer \<Rightarrow> challenge_writer" where
  "settle_header status w =
     (let h = rw_challenge (cw_under w)
      in if status = 401 \<and> cw_challenge w \<noteq> []
         then (if h = [] then set_header (cw_challenge w) w else w)
         else if cw_speculative w \<and> h = cw_challenge w then set_header [] w
         else w)"

definition write_header :: "nat \<Rightarrow> challenge_writer \<Rightarrow> challenge_writer" where
  "write_header status w =
     (if cw_committed w then w
      else let w1 = settle_header status ((fire_before_first_write w)\<lparr>cw_committed := True\<rparr>)
           in w1\<lparr>cw_under := plain_write_header status (cw_under w1)\<rparr>)"

definition write_bytes :: "challenge_writer \<Rightarrow> challenge_writer" where
  "write_bytes w =
     (let w1 = (if cw_committed w then w else write_header 200 w)
      in w1\<lparr>cw_under := plain_write_header 200 (cw_under w1)\<rparr>)"

definition fire_uncommitted :: "challenge_writer \<Rightarrow> challenge_writer" where
  "fire_uncommitted w = (if cw_committed w then w else fire_before_first_write w)"

definition flush_writer :: "challenge_writer \<Rightarrow> challenge_writer" where
  "flush_writer w =
     (if \<not> rw_flushes (cw_under w) then w
      else let w1 = (fire_uncommitted w)\<lparr>cw_committed := True\<rparr>
           in w1\<lparr>cw_under := plain_write_header 200 (cw_under w1)\<rparr>)"

definition hijack_writer :: "challenge_writer \<Rightarrow> challenge_writer" where
  "hijack_writer w =
     (if \<not> rw_hijacks (cw_under w) then w
      else let w1 = (fire_uncommitted w)\<lparr>cw_committed := True\<rparr>
           in w1\<lparr>cw_under := (cw_under w1)\<lparr>rw_taken_over := True\<rparr>\<rparr>)"

text \<open>What a handler, a guard or an error renderer does with the writer of its context.\<close>

datatype writer_op =
  SetsChallenge bytes | WritesStatus nat | WritesBytes | Flushes | TakesOver | Registers "(bytes \<Rightarrow> bytes) option"

fun writer_step :: "writer_op \<Rightarrow> challenge_writer \<Rightarrow> challenge_writer" where
  "writer_step (SetsChallenge v) w = set_header v w"
| "writer_step (WritesStatus s) w = write_header s w"
| "writer_step WritesBytes w = write_bytes w"
| "writer_step Flushes w = flush_writer w"
| "writer_step TakesOver w = hijack_writer w"
| "writer_step (Registers f) w = before_first_write f w"

text \<open>
  What the framework tells of an error a handler returned: whether the response is written already,
  whether it is a recovered panic, and the status it names.
\<close>

record handler_error =
  he_response_written :: bool
  he_recovered_panic :: bool
  he_status :: "nat option"

definition is_unauthorized :: "handler_error option \<Rightarrow> bool" where
  "is_unauthorized err =
     (case err of
        None \<Rightarrow> False
      | Some e \<Rightarrow> \<not> he_response_written e \<and> \<not> he_recovered_panic e \<and> he_status e = Some 401)"

text \<open>The middleware around a chain that does \<open>ops\<close> and returns \<open>err\<close>.\<close>

definition challenge_middleware ::
  "bytes \<Rightarrow> writer_op list \<Rightarrow> handler_error option \<Rightarrow> response_writer \<Rightarrow> challenge_writer" where
  "challenge_middleware v ops err original =
     (let cw = fold writer_step ops
            \<lparr>cw_under = original, cw_challenge = v, cw_committed = False, cw_hook = None, cw_speculative = False\<rparr>;
          cw1 = fire_uncommitted cw
      in if \<not> cw_committed cw1 \<and> is_unauthorized err \<and> rw_challenge (cw_under cw1) = []
         then (set_header v cw1)\<lparr>cw_speculative := True\<rparr>
         else cw1)"

definition challenge_for :: "str_package \<Rightarrow> oauth_config \<Rightarrow> web_request \<Rightarrow> bytes" where
  "challenge_for sp cfg r =
     (let url = challenge_metadata_url sp cfg (Some r); scope = config_scope cfg
      in if presents_bearer_token r then invalid_token_challenge url scope else unauthenticated_challenge url scope)"

text \<open>What a guard puts on its own 403: \<open>InsufficientScope\<close>.\<close>

definition insufficient_scope :: "str_package \<Rightarrow> oauth_config \<Rightarrow> web_request \<Rightarrow> bytes \<Rightarrow> challenge_writer \<Rightarrow> challenge_writer" where
  "insufficient_scope sp cfg r scope w =
     set_header (insufficient_scope_challenge (challenge_metadata_url sp cfg (Some r))
       (if scope = [] then config_scope cfg else scope)) w"

text \<open>
  The response in the end: what was left to say may be said through the context, by an error renderer of
  an enclosing group, or past it, by the error boundary of the router with the status the error names.
\<close>

datatype rendering_after = ThroughContext "writer_op list" | PastContext nat

definition response_after :: "rendering_after \<Rightarrow> challenge_writer \<Rightarrow> (nat \<times> bytes) option" where
  "response_after r w =
     (case r of
        ThroughContext ops \<Rightarrow> rw_sent (cw_under (fold writer_step ops w))
      | PastContext status \<Rightarrow> rw_sent (plain_write_header status (cw_under w)))"

lemmas writer_defs =
  write_header_def write_bytes_def flush_writer_def hijack_writer_def fire_uncommitted_def settle_header_def
  fire_before_first_write_def before_first_write_def set_header_def plain_write_header_def

text \<open>No refusal leaves without a challenge, whatever hooks and headers the chain sets.\<close>

definition fresh_writer :: "response_writer \<Rightarrow> bool" where
  "fresh_writer w = (rw_sent w = None \<and> \<not> rw_taken_over w)"

definition states_final :: "writer_op \<Rightarrow> bool" where
  "states_final p = (case p of WritesStatus s \<Rightarrow> \<not> informational s | _ \<Rightarrow> True)"

definition refusals_challenged :: "challenge_writer \<Rightarrow> bool" where
  "refusals_challenged w = (cw_challenge w \<noteq> [] \<and>
     (case rw_sent (cw_under w) of Some (s, h) \<Rightarrow> s = 401 \<longrightarrow> h \<noteq> [] | None \<Rightarrow> True)
     \<and> (cw_committed w \<longleftrightarrow> rw_sent (cw_under w) \<noteq> None \<or> rw_taken_over (cw_under w)))"

lemma writer_step_challenged:
  assumes "refusals_challenged w" "states_final p"
  shows "refusals_challenged (writer_step p w)"
proof -
  have "\<not> informational 200" by (simp add: informational_def)
  with assms show ?thesis
    by (cases p) (auto simp: refusals_challenged_def states_final_def writer_defs Let_def split: option.splits)
qed

lemma writer_steps_challenged:
  "refusals_challenged w \<Longrightarrow> list_all states_final ops \<Longrightarrow> refusals_challenged (fold writer_step ops w)"
  by (induction ops arbitrary: w) (auto simp: writer_step_challenged)

lemma middleware_challenged:
  assumes "fresh_writer original" "list_all states_final ops" "v \<noteq> []"
  shows "refusals_challenged (challenge_middleware v ops err original)
    \<and> (is_unauthorized err \<and> \<not> cw_committed (challenge_middleware v ops err original)
        \<longrightarrow> rw_challenge (cw_under (challenge_middleware v ops err original)) \<noteq> [])"
proof -
  let ?w = "\<lparr>cw_under = original, cw_challenge = v, cw_committed = False, cw_hook = None, cw_speculative = False\<rparr>"
  have "refusals_challenged ?w" using assms(1,3) by (simp add: refusals_challenged_def fresh_writer_def)
  from writer_steps_challenged [OF this assms(2)] have "refusals_challenged (fold writer_step ops ?w)" .
  then have r: "refusals_challenged (fire_uncommitted (fold writer_step ops ?w))"
    by (auto simp: refusals_challenged_def writer_defs split: option.splits)
  then have "refusals_challenged ((set_header v (fire_uncommitted (fold writer_step ops ?w)))\<lparr>cw_speculative := True\<rparr>)"
    by (auto simp: refusals_challenged_def set_header_def split: option.splits)
  with r assms(3) show ?thesis by (auto simp: challenge_middleware_def Let_def set_header_def)
qed


definition plain_writer :: response_writer where
  "plain_writer = \<lparr>rw_challenge = [], rw_sent = None, rw_taken_over = False, rw_flushes = True, rw_hijacks = False\<rparr>"

definition refused :: handler_error where
  "refused = \<lparr>he_response_written = False, he_recovered_panic = False, he_status = Some 401\<rparr>"


text \<open>The same chain on the writer it would have without the middleware.\<close>

fun plain_step :: "writer_op \<Rightarrow> response_writer \<Rightarrow> response_writer" where
  "plain_step (SetsChallenge v) w = w\<lparr>rw_challenge := v\<rparr>"
| "plain_step (WritesStatus s) w = plain_write_header s w"
| "plain_step WritesBytes w = plain_write_header 200 w"
| "plain_step Flushes w = (if rw_flushes w then plain_write_header 200 w else w)"
| "plain_step TakesOver w = (if rw_hijacks w then w\<lparr>rw_taken_over := True\<rparr> else w)"
| "plain_step (Registers f) w = w"

definition challenged :: "bytes \<Rightarrow> nat \<times> bytes \<Rightarrow> nat \<times> bytes" where
  "challenged v sent = (fst sent, if fst sent = 401 \<and> snd sent = [] then v else snd sent)"

definition hook_free :: "writer_op \<Rightarrow> bool" where
  "hook_free p = (case p of Registers f \<Rightarrow> f = None | _ \<Rightarrow> True)"

definition keeps_pace :: "bytes \<Rightarrow> challenge_writer \<Rightarrow> response_writer \<Rightarrow> bool" where
  "keeps_pace v w p = (cw_challenge w = v \<and> cw_hook w = None
     \<and> (cw_committed w \<longleftrightarrow> rw_sent p \<noteq> None \<or> rw_taken_over p)
     \<and> rw_sent (cw_under w) = map_option (challenged v) (rw_sent p)
     \<and> rw_taken_over (cw_under w) = rw_taken_over p \<and> rw_flushes (cw_under w) = rw_flushes p
     \<and> rw_hijacks (cw_under w) = rw_hijacks p
     \<and> (\<not> cw_committed w \<longrightarrow>
          (if cw_speculative w
           then rw_challenge (cw_under w) = rw_challenge p \<and> rw_challenge p \<noteq> v
             \<or> rw_challenge (cw_under w) = v \<and> rw_challenge p = []
           else rw_challenge (cw_under w) = rw_challenge p)))"

definition unpromising :: "bytes \<Rightarrow> writer_op \<Rightarrow> bool" where
  "unpromising v p = (case p of Flushes \<Rightarrow> False | SetsChallenge x \<Rightarrow> x \<noteq> v | _ \<Rightarrow> True)"

lemma writer_step_keeps_pace:
  assumes "keeps_pace v w p" "v \<noteq> []" "hook_free op" "states_final op" "cw_speculative w \<longrightarrow> unpromising v op"
  shows "keeps_pace v (writer_step op w) (plain_step op p)
    \<and> cw_speculative (writer_step op w) = cw_speculative w"
proof -
  have "\<not> informational 200" by (simp add: informational_def)
  with assms show ?thesis
    by (cases op) (auto simp: keeps_pace_def hook_free_def states_final_def unpromising_def writer_defs challenged_def
        Let_def split: if_splits)
qed

lemma writer_steps_keep_pace:
  assumes "keeps_pace v w p" "v \<noteq> []" "list_all hook_free ops" "list_all states_final ops"
    and "cw_speculative w \<longrightarrow> list_all (unpromising v) ops"
  shows "keeps_pace v (fold writer_step ops w) (fold plain_step ops p)
    \<and> cw_speculative (fold writer_step ops w) = cw_speculative w"
  using assms
proof (induction ops arbitrary: w p)
  case (Cons op ops)
  from Cons.prems have "keeps_pace v (writer_step op w) (plain_step op p) \<and> cw_speculative (writer_step op w) = cw_speculative w"
    by (intro writer_step_keeps_pace) auto
  with Cons.prems Cons.IH [of "writer_step op w" "plain_step op p"] show ?case by auto
qed simp



text \<open>
  The statuses excluded above are the informational ones. \<open>net/http\<close> sends one ahead and waits for the
  final status, while the wrapper takes it for the final one: the 401 a guard writes after it is dropped
  and its body leaves with 200, and a 401 it returns as an error is rendered without a challenge.
\<close>

lemma informational_hides_refusal:
  "response_after (ThroughContext []) (challenge_middleware ''Bearer''
      [WritesStatus 103, WritesStatus 401, WritesBytes] None plain_writer) = Some (200, [])"
  "rw_sent (fold plain_step [WritesStatus 103, WritesStatus 401, WritesBytes] plain_writer) = Some (401, [])"
  "response_after (PastContext 401) (challenge_middleware ''Bearer'' [WritesStatus 103] (Some refused) plain_writer)
     = Some (401, [])"
  by (simp_all add: challenge_middleware_def response_after_def writer_defs plain_writer_def informational_def Let_def)

text \<open>A renderer that flushes before it states a status sends 200 with the challenge that was anticipated.\<close>

lemma flush_keeps_anticipated_challenge:
  "response_after (ThroughContext [Flushes]) (challenge_middleware ''Bearer'' [] (Some refused) plain_writer)
     = Some (200, ''Bearer'')"
  by (simp add: challenge_middleware_def response_after_def writer_defs plain_writer_def is_unauthorized_def refused_def
      informational_def Let_def)

end
