(* ===== verification/Redirect_Policy.thy ===== *)
theory Redirect_Policy
  imports Oauth_Config Catalog_Size Client_Parse
begin

text \<open>
  Dynamic client registration (\<open>server/oauth/register.go\<close>): the policy on redirect URIs and the endpoint.
  \<open>url.Parse\<close> is a parameter, since what it takes for a host differs between releases of Go and nothing
  here depends on it: what is shown holds whatever it makes of a text. So are the validation engine of
  the framework and the invisible characters of Unicode.
\<close>

section \<open>Parameters\<close>

text \<open>A parsed URL: the fields of \<open>url.URL\<close>, with what \<open>Hostname()\<close> and \<open>EscapedPath()\<close> give of it.\<close>

record parsed_url =
  pu_scheme :: bytes
  pu_opaque :: bytes
  pu_user :: bool
  pu_host :: bytes
  pu_hostname :: bytes
  pu_path :: bytes
  pu_escaped_path :: bytes
  pu_raw_query :: bytes
  pu_force_query :: bool
  pu_fragment :: bytes
  pu_raw_fragment :: bytes

type_synonym url_parser = "bytes \<Rightarrow> parsed_url option"

text \<open>The rules of the validation engine the endpoint uses; \<open>DisplayableRule\<close> is its own.\<close>

datatype field_rule = NullableRule | StringRule | MaxRule int | MinRule int | RequiredRule | ArrayRule | UrlRule | DisplayableRule

text \<open>The first message of a field, \<open>[]\<close> for none, and whether the run failed at all.\<close>

record validation_verdict =
  vd_first :: "bytes \<Rightarrow> bytes"
  vd_failed :: bool

record registration_parameters =
  rp_parse :: url_parser
  rp_str :: str_package
  rp_hidden :: "nat \<Rightarrow> bool"
  rp_engine :: "(bytes \<times> field_rule list) list \<Rightarrow> (bytes \<times> any) list \<Rightarrow> validation_verdict"

section \<open>Text\<close>

text \<open>
  \<open>strings.EqualFold\<close> with an ASCII text: beyond the capitals, two runes fold to ASCII letters, U+212A
  (\<open>k\<close>) and U+017F (\<open>s\<close>).
\<close>

fun fold_ascii :: "bytes \<Rightarrow> bytes" where
  "fold_ascii [] = []"
| "fold_ascii (c # s) =
     (if has_prefix (c # s) [CHR 0xC5, CHR 0xBF] then CHR ''s'' # fold_ascii (drop 1 s)
      else if has_prefix (c # s) [CHR 0xE2, CHR 0x84, CHR 0xAA] then CHR ''k'' # fold_ascii (drop 2 s)
      else (if 0x41 \<le> byte c \<and> byte c \<le> 0x5A then char_of (byte c + 32) else c) # fold_ascii s)"

definition contains_fold :: "bytes list \<Rightarrow> bytes \<Rightarrow> bool" where
  "contains_fold values needle = list_ex (\<lambda>v. fold_ascii v = fold_ascii needle) values"

definition is_displayable :: "(nat \<Rightarrow> bool) \<Rightarrow> nat \<Rightarrow> bool" where
  "is_displayable hidden r = (r = 0x200C \<or> r = 0x200D \<or> \<not> hidden r)"

definition is_displayable_text :: "(nat \<Rightarrow> bool) \<Rightarrow> bytes \<Rightarrow> bool" where
  "is_displayable_text hidden s = list_all (is_displayable hidden) (runes_of s)"

text \<open>\<open>displayable\<close>: the message of the rule, \<open>None\<close> when the value passes it.\<close>

definition displayable_rule :: "(nat \<Rightarrow> bool) \<Rightarrow> bytes \<Rightarrow> any \<Rightarrow> bytes option" where
  "displayable_rule hidden field_name v =
     (case v of
        AStr s \<Rightarrow>
          if is_displayable_text hidden s then None
          else Some (''The '' @ field_name @ '' field must not contain control or invisible formatting characters.'')
      | _ \<Rightarrow> None)"

section \<open>Redirect URIs\<close>

definition not_a_valid_url :: bytes where "not_a_valid_url = '' is not a valid URL.''"
definition not_permitted_domain :: bytes where "not_permitted_domain = '' is not a permitted redirect domain.''"
definition not_secure_transport :: bytes where
  "not_secure_transport = '' must use https, or http only on a loopback address.''"
definition has_dot_segments :: bytes where
  "has_dot_segments = '' must not contain '' @ [quote_char] @ ''.'' @ [quote_char] @ '' or '' @ [quote_char] @ ''..''
     @ [quote_char] @ '' path segments.''"

definition max_client_name_length :: nat where "max_client_name_length = 255"
definition max_client_url_length :: nat where "max_client_url_length = 2048"
definition max_redirect_uris :: nat where "max_redirect_uris = 32"
definition max_registration_body_bytes :: int where "max_registration_body_bytes = 64 * 2 ^ 10"
definition fallback_client_name :: bytes where "fallback_client_name = ''MCP Client''"

definition loopback_hosts :: "bytes list" where "loopback_hosts = [''localhost'', ''127.0.0.1'', ''::1'']"

definition is_loopback_host :: "bytes \<Rightarrow> bool" where
  "is_loopback_host host = (to_lower (trim_of host ''[]'') \<in> set loopback_hosts)"

definition is_loopback_url :: "url_parser \<Rightarrow> bytes \<Rightarrow> bool" where
  "is_loopback_url parse uri =
     (case parse uri of None \<Rightarrow> False | Some u \<Rightarrow> to_lower (pu_scheme u) = ''http'' \<and> is_loopback_host (pu_hostname u))"

text \<open>\<open>strings.FieldsFunc\<close> at slashes and backslashes, of which no segment is empty.\<close>

fun path_segments :: "bytes \<Rightarrow> bytes \<Rightarrow> bytes list" where
  "path_segments cur [] = (if cur = [] then [] else [cur])"
| "path_segments cur (c # s) =
     (if c = CHR ''/'' \<or> c = backslash then (if cur = [] then [] else [cur]) @ path_segments [] s
      else path_segments (cur @ [c]) s)"

definition has_dot_segment :: "bytes \<Rightarrow> bool" where
  "has_dot_segment path = list_ex (\<lambda>s. s = ''.'' \<or> s = ''..'') (path_segments [] path)"

definition allowed_origins :: "str_package \<Rightarrow> oauth_config \<Rightarrow> bytes list" where
  "allowed_origins sp cfg =
     map (\<lambda>d. if sp_ends_with sp d ''/'' then d else d @ ''/'') (filter (\<lambda>d. d \<noteq> [] \<and> d \<noteq> ''*'') (oc_redirect_domains cfg))"

definition allows_loopback :: "str_package \<Rightarrow> oauth_config \<Rightarrow> bool" where
  "allows_loopback sp cfg = list_ex (\<lambda>d.
     \<not> (sp_contains sp d ''://'' \<and> fold_ascii (sp_before sp d ''://'') \<noteq> ''http'')
     \<and> is_loopback_host (trim_right_of (sp_after sp d ''://'') ''/'')) (oc_redirect_domains cfg)"

definition private_use_target :: "bytes \<Rightarrow> parsed_url \<Rightarrow> bytes" where
  "private_use_target name u =
     (if pu_opaque u \<noteq> [] \<or> pu_host u \<noteq> [] \<and> pu_hostname u = [] then name @ not_a_valid_url
      else if pu_hostname u \<noteq> [] \<or> pu_path u \<noteq> [] then []
      else name @ not_a_valid_url)"

text \<open>The message to report, \<open>[]\<close> when the URI is permitted.\<close>

definition check_redirect_uri :: "registration_parameters \<Rightarrow> oauth_config \<Rightarrow> bytes \<Rightarrow> bytes \<Rightarrow> bytes" where
  "check_redirect_uri rp cfg name uri =
     (case rp_parse rp uri of
        None \<Rightarrow> name @ not_a_valid_url
      | Some u \<Rightarrow>
          if pu_scheme u = [] then name @ not_a_valid_url
          else if \<not> is_displayable_text (rp_hidden rp) uri then name @ not_a_valid_url
          else if pu_fragment u \<noteq> [] \<or> pu_raw_fragment u \<noteq> [] \<or> has_suffix uri ''#'' then name @ not_a_valid_url
          else if pu_user u then name @ not_a_valid_url
          else if has_dot_segment (pu_path u) then name @ has_dot_segments
          else let scheme = to_lower (pu_scheme u)
               in if scheme \<noteq> ''http'' \<and> scheme \<noteq> ''https''
                  then (if \<not> contains_fold (oc_custom_schemes cfg) scheme then name @ not_a_valid_url
                        else private_use_target name u)
                  else if pu_hostname u = [] then name @ not_a_valid_url
                  else if scheme = ''http'' \<and> \<not> is_loopback_host (pu_hostname u) then name @ not_secure_transport
                  else if ''*'' \<in> set (oc_redirect_domains cfg) then []
                  else if allows_loopback (rp_str rp) cfg \<and> is_loopback_url (rp_parse rp) uri then []
                  else if \<not> sp_starts_with (rp_str rp) uri (allowed_origins (rp_str rp) cfg) then name @ not_permitted_domain
                  else [])"

definition uri_field :: "nat \<Rightarrow> bytes" where
  "uri_field i = ''redirect_uris.'' @ int_to_dec (int i)"

definition check_redirect_item :: "registration_parameters \<Rightarrow> oauth_config \<Rightarrow> nat \<Rightarrow> any \<Rightarrow> bytes" where
  "check_redirect_item rp cfg i item =
     (case item of
        AStr uri \<Rightarrow>
          if uri = [] then uri_field i @ not_a_valid_url
          else if max_client_url_length < length uri
          then uri_field i @ '' must not exceed '' @ int_to_dec (int max_client_url_length) @ '' characters.''
          else check_redirect_uri rp cfg (uri_field i) uri
      | _ \<Rightarrow> uri_field i @ not_a_valid_url)"

fun check_redirect_items :: "registration_parameters \<Rightarrow> oauth_config \<Rightarrow> nat \<Rightarrow> any list \<Rightarrow> bytes" where
  "check_redirect_items rp cfg i [] = []"
| "check_redirect_items rp cfg i (item # items) =
     (let message = check_redirect_item rp cfg i item
      in if message \<noteq> [] then message else check_redirect_items rp cfg (Suc i) items)"

definition check_redirect_uris :: "registration_parameters \<Rightarrow> oauth_config \<Rightarrow> any option \<Rightarrow> bytes" where
  "check_redirect_uris rp cfg v = (case v of Some (AList items) \<Rightarrow> check_redirect_items rp cfg 0 items | _ \<Rightarrow> [])"

section \<open>Registration\<close>

definition registration_rules :: "(bytes \<times> field_rule list) list" where
  "registration_rules =
     [(''client_name'', [NullableRule, StringRule, MaxRule (int max_client_name_length), DisplayableRule]),
      (''name'', [NullableRule, StringRule, MaxRule (int max_client_name_length), DisplayableRule]),
      (''redirect_uris'', [RequiredRule, ArrayRule, MinRule 1, MaxRule (int max_redirect_uris)]),
      (''logo_uri'', [NullableRule, StringRule, UrlRule, MaxRule (int max_client_url_length), DisplayableRule]),
      (''client_uri'', [NullableRule, StringRule, UrlRule, MaxRule (int max_client_url_length), DisplayableRule])]"

record registration_error =
  re_error :: bytes
  re_description :: bytes

definition invalid_redirect_uri :: bytes where "invalid_redirect_uri = ''invalid_redirect_uri''"
definition invalid_client_metadata :: bytes where "invalid_client_metadata = ''invalid_client_metadata''"
definition registration_server_error :: bytes where "registration_server_error = ''server_error''"

definition registration_fields :: "bytes list" where
  "registration_fields = [''client_name'', ''name'', ''logo_uri'', ''client_uri'']"

definition metadata_failure :: "validation_verdict \<Rightarrow> registration_error" where
  "metadata_failure v =
     (case find (\<lambda>f. vd_first v f \<noteq> []) registration_fields of
        Some f \<Rightarrow> \<lparr>re_error = invalid_client_metadata, re_description = vd_first v f\<rparr>
      | None \<Rightarrow> \<lparr>re_error = invalid_client_metadata, re_description = ''The client metadata was invalid.''\<rparr>)"

fun text_items :: "any list \<Rightarrow> bytes list" where
  "text_items [] = []"
| "text_items (v # vs) = (case v of AStr s \<Rightarrow> s # text_items vs | _ \<Rightarrow> text_items vs)"

definition claimed_texts :: "any option \<Rightarrow> bytes list" where
  "claimed_texts v = (case v of Some (AList items) \<Rightarrow> text_items items | _ \<Rightarrow> [])"

definition client_name :: "url_parser \<Rightarrow> (bytes \<times> any) list \<Rightarrow> bytes list \<Rightarrow> bytes" where
  "client_name parse payload uris =
     (if payload_string payload ''client_name'' \<noteq> [] then payload_string payload ''client_name''
      else if payload_string payload ''name'' \<noteq> [] then payload_string payload ''name''
      else case uris of
        [] \<Rightarrow> fallback_client_name
      | uri # _ \<Rightarrow>
          (case parse uri of
             None \<Rightarrow> fallback_client_name
           | Some u \<Rightarrow> if pu_hostname u \<noteq> [] then pu_hostname u else fallback_client_name))"

definition validate_registration ::
  "registration_parameters \<Rightarrow> oauth_config \<Rightarrow> (bytes \<times> any) list \<Rightarrow> registration_error + client_registration" where
  "validate_registration rp cfg payload =
     (let verdict = rp_engine rp registration_rules payload;
          redirects = map_of payload ''redirect_uris'';
          message = check_redirect_uris rp cfg redirects
      in if vd_first verdict ''redirect_uris'' \<noteq> []
         then Inl \<lparr>re_error = invalid_redirect_uri, re_description = vd_first verdict ''redirect_uris''\<rparr>
         else if message \<noteq> [] then Inl \<lparr>re_error = invalid_redirect_uri, re_description = message\<rparr>
         else if vd_failed verdict then Inl (metadata_failure verdict)
         else let uris = claimed_texts redirects
              in Inr \<lparr>rg_name = client_name (rp_parse rp) payload uris, rg_redirect_uris = uris,
                      rg_logo_uri = payload_string payload ''logo_uri'', rg_client_uri = payload_string payload ''client_uri'',
                      rg_scope = config_scope cfg\<rparr>)"

record registration_response =
  rr_client_id :: bytes
  rr_client_name :: bytes
  rr_grant_types :: "bytes list"
  rr_response_types :: "bytes list"
  rr_redirect_uris :: "bytes list"
  rr_scope :: bytes
  rr_auth_method :: bytes
  rr_logo_uri :: bytes
  rr_client_uri :: bytes

definition first_non_empty :: "'a list \<Rightarrow> 'a list \<Rightarrow> 'a list" where
  "first_non_empty primary fallback = (if primary \<noteq> [] then primary else fallback)"

definition registration_response_of :: "oauth_config \<Rightarrow> client_registration \<Rightarrow> registered_client \<Rightarrow> registration_response" where
  "registration_response_of cfg reg c =
     \<lparr>rr_client_id = rgd_id c, rr_client_name = first_non_empty (rgd_name c) (rg_name reg),
      rr_grant_types = first_non_empty (rgd_grant_types c) grant_types, rr_response_types = [response_type_code],
      rr_redirect_uris = first_non_empty (rgd_redirect_uris c) (rg_redirect_uris reg), rr_scope = config_scope cfg,
      rr_auth_method = token_endpoint_auth_none, rr_logo_uri = rgd_logo_uri c, rr_client_uri = rgd_client_uri c\<rparr>"

definition unparsed_body :: bytes where
  "unparsed_body = ''The registration request body could not be parsed.''"

text \<open>
  The endpoint, on what binding the body gave, \<open>None\<close> when it did not decode or decoded to null: the
  answer, and the registrations handed to the store.
\<close>

definition register_handler ::
  "registration_parameters \<Rightarrow> oauth_config \<Rightarrow> client_store \<Rightarrow> (bytes \<times> any) list option
    \<Rightarrow> (nat \<times> (registration_error + registration_response)) \<times> client_registration list" where
  "register_handler rp cfg store bound =
     (case bound of
        None \<Rightarrow> ((400, Inl \<lparr>re_error = invalid_client_metadata, re_description = unparsed_body\<rparr>), [])
      | Some payload \<Rightarrow>
          (case validate_registration rp cfg payload of
             Inl failure \<Rightarrow> ((400, Inl failure), [])
           | Inr reg \<Rightarrow>
               (case store reg of
                  Some c \<Rightarrow>
                    if rgd_id c = []
                    then ((500, Inl \<lparr>re_error = registration_server_error,
                            re_description = ''The client could not be registered.''\<rparr>), [reg])
                    else ((201, Inr (registration_response_of cfg reg c)), [reg])
                | None \<Rightarrow> ((500, Inl \<lparr>re_error = registration_server_error,
                            re_description = ''The client could not be registered.''\<rparr>), [reg]))))"

section \<open>Properties\<close>

text \<open>
  Where an authorization response may be delivered: on a URI without credentials, fragment, dot segments
  or invisible characters, to a scheme the application lists, or to a host over https, or over http on a
  loopback address; and then at a place the application allows.
\<close>

definition place_allowed :: "registration_parameters \<Rightarrow> oauth_config \<Rightarrow> bytes \<Rightarrow> parsed_url \<Rightarrow> bool" where
  "place_allowed rp cfg uri u \<longleftrightarrow>
     ''*'' \<in> set (oc_redirect_domains cfg)
     \<or> allows_loopback (rp_str rp) cfg \<and> to_lower (pu_scheme u) = ''http'' \<and> is_loopback_host (pu_hostname u)
     \<or> (\<exists>d \<in> set (oc_redirect_domains cfg). d \<noteq> [] \<and> d \<noteq> ''*''
          \<and> (has_suffix d ''/'' \<and> has_prefix uri d \<or> \<not> has_suffix d ''/'' \<and> has_prefix uri (d @ ''/'')))"

definition may_receive_codes :: "registration_parameters \<Rightarrow> oauth_config \<Rightarrow> bytes \<Rightarrow> parsed_url \<Rightarrow> bool" where
  "may_receive_codes rp cfg uri u \<longleftrightarrow>
     (let scheme = to_lower (pu_scheme u)
      in pu_scheme u \<noteq> [] \<and> \<not> pu_user u \<and> is_displayable_text (rp_hidden rp) uri
        \<and> pu_fragment u = [] \<and> pu_raw_fragment u = [] \<and> \<not> has_suffix uri ''#''
        \<and> ''.'' \<notin> set (path_segments [] (pu_path u)) \<and> ''..'' \<notin> set (path_segments [] (pu_path u))
        \<and> (if scheme = ''http'' \<or> scheme = ''https''
           then pu_hostname u \<noteq> [] \<and> (scheme = ''http'' \<longrightarrow> is_loopback_host (pu_hostname u)) \<and> place_allowed rp cfg uri u
           else contains_fold (oc_custom_schemes cfg) scheme \<and> pu_opaque u = []
             \<and> (pu_hostname u \<noteq> [] \<or> pu_host u = [] \<and> pu_path u \<noteq> [])))"

text \<open>The documented behaviour of \<open>str.StartsWith\<close> and \<open>str.EndsWith\<close>.\<close>

definition str_matches :: "str_package \<Rightarrow> bool" where
  "str_matches sp \<longleftrightarrow> (\<forall>s ps. sp_starts_with sp s ps \<longleftrightarrow> (\<exists>p \<in> set ps. p \<noteq> [] \<and> has_prefix s p))
     \<and> (\<forall>s p. sp_ends_with sp s p \<longleftrightarrow> p \<noteq> [] \<and> has_suffix s p)"

lemma redirect_messages: "not_a_valid_url \<noteq> []" "not_permitted_domain \<noteq> []" "not_secure_transport \<noteq> []"
  "has_dot_segments \<noteq> []"
  by (simp_all add: not_a_valid_url_def not_permitted_domain_def not_secure_transport_def has_dot_segments_def)

lemma starts_with_allowed:
  assumes "str_matches (rp_str rp)"
  shows "sp_starts_with (rp_str rp) uri (allowed_origins (rp_str rp) cfg) \<longleftrightarrow>
    (\<exists>d \<in> set (oc_redirect_domains cfg). d \<noteq> [] \<and> d \<noteq> ''*''
       \<and> (has_suffix d ''/'' \<and> has_prefix uri d \<or> \<not> has_suffix d ''/'' \<and> has_prefix uri (d @ ''/'')))"
proof -
  have "sp_starts_with (rp_str rp) uri ps \<longleftrightarrow> (\<exists>p \<in> set ps. p \<noteq> [] \<and> has_prefix uri p)"
    "sp_ends_with (rp_str rp) s ''/'' \<longleftrightarrow> has_suffix s ''/''" for ps s
    using assms by (auto simp: str_matches_def)
  then show ?thesis by (auto simp: allowed_origins_def)
qed

lemma check_redirect_uri_exact:
  assumes "str_matches (rp_str rp)"
  shows "check_redirect_uri rp cfg name uri = [] \<longleftrightarrow> (\<exists>u. rp_parse rp uri = Some u \<and> may_receive_codes rp cfg uri u)"
proof (cases "rp_parse rp uri")
  case None
  then show ?thesis by (simp add: check_redirect_uri_def redirect_messages)
next
  case (Some u)
  have "private_use_target name u = [] \<longleftrightarrow> pu_opaque u = [] \<and> (pu_hostname u \<noteq> [] \<or> pu_host u = [] \<and> pu_path u \<noteq> [])"
    by (auto simp: private_use_target_def redirect_messages)
  moreover have "is_loopback_url (rp_parse rp) uri \<longleftrightarrow> to_lower (pu_scheme u) = ''http'' \<and> is_loopback_host (pu_hostname u)"
    using Some by (simp add: is_loopback_url_def)
  moreover have "has_dot_segment (pu_path u) \<longleftrightarrow> ''.'' \<in> set (path_segments [] (pu_path u)) \<or> ''..'' \<in> set (path_segments [] (pu_path u))"
    by (auto simp: has_dot_segment_def list_ex_iff)
  ultimately show ?thesis
    using Some starts_with_allowed [OF assms, of uri cfg] redirect_messages
    by (auto simp: check_redirect_uri_def may_receive_codes_def place_allowed_def Let_def)
qed

definition claim_permitted :: "registration_parameters \<Rightarrow> oauth_config \<Rightarrow> any \<Rightarrow> bool" where
  "claim_permitted rp cfg item \<longleftrightarrow> (\<exists>uri u. item = AStr uri \<and> uri \<noteq> [] \<and> length uri \<le> max_client_url_length
     \<and> rp_parse rp uri = Some u \<and> may_receive_codes rp cfg uri u)"

lemma check_redirect_items_exact:
  assumes "str_matches (rp_str rp)"
  shows "check_redirect_items rp cfg i items = [] \<longleftrightarrow> (\<forall>item \<in> set items. claim_permitted rp cfg item)"
proof (induction items arbitrary: i)
  case (Cons item items)
  have "check_redirect_item rp cfg i item = [] \<longleftrightarrow> claim_permitted rp cfg item"
    using check_redirect_uri_exact [OF assms, of cfg] redirect_messages
    by (auto simp: check_redirect_item_def uri_field_def claim_permitted_def split: any.split)
  with Cons show ?case by (simp add: Let_def)
qed simp

text \<open>
  What the engine is documented to enforce of the rules used: a run that did not fail has found every
  field to keep its rules, a nullable one where it is absent or null. The length of a text is taken to
  be at least counted in characters.
\<close>

fun rule_holds :: "(nat \<Rightarrow> bool) \<Rightarrow> bytes \<Rightarrow> any \<Rightarrow> field_rule \<Rightarrow> bool" where
  "rule_holds hidden f (AStr s) (MaxRule n) = (int (length (runes_of s)) \<le> n)"
| "rule_holds hidden f (AList vs) (MaxRule n) = (int (length vs) \<le> n)"
| "rule_holds hidden f (AList vs) (MinRule n) = (n \<le> int (length vs))"
| "rule_holds hidden f v StringRule = (case v of AStr s \<Rightarrow> True | _ \<Rightarrow> False)"
| "rule_holds hidden f v ArrayRule = (case v of AList vs \<Rightarrow> True | _ \<Rightarrow> False)"
| "rule_holds hidden f v RequiredRule = (v \<noteq> ANil)"
| "rule_holds hidden f v DisplayableRule = (displayable_rule hidden f v = None)"
| "rule_holds hidden f v r = True"

definition field_holds :: "(nat \<Rightarrow> bool) \<Rightarrow> (bytes \<times> any) list \<Rightarrow> bytes \<times> field_rule list \<Rightarrow> bool" where
  "field_holds hidden payload field_rules =
     (case field_rules of (f, rules) \<Rightarrow>
        (case map_of payload f of
           None \<Rightarrow> NullableRule \<in> set rules
         | Some v \<Rightarrow> NullableRule \<in> set rules \<and> v = ANil \<or> list_all (rule_holds hidden f v) rules))"

definition engine_enforces :: "registration_parameters \<Rightarrow> bool" where
  "engine_enforces rp \<longleftrightarrow> (\<forall>rules payload. \<not> vd_failed (rp_engine rp rules payload)
     \<longrightarrow> list_all (field_holds (rp_hidden rp) payload) rules)"

lemma text_items_all: "\<forall>v \<in> set vs. \<exists>s. v = AStr s \<Longrightarrow> map AStr (text_items vs) = vs"
  by (induction vs) auto

lemma validated_registration:
  assumes "str_matches (rp_str rp)" "engine_enforces rp" "validate_registration rp cfg payload = Inr reg"
  shows "map_of payload ''redirect_uris'' = Some (AList (map AStr (rg_redirect_uris reg)))
    \<and> rg_redirect_uris reg \<noteq> [] \<and> length (rg_redirect_uris reg) \<le> max_redirect_uris \<and> rg_name reg \<noteq> []
    \<and> rg_scope reg = config_scope cfg
    \<and> (\<forall>uri \<in> set (rg_redirect_uris reg). length uri \<le> max_client_url_length
         \<and> (\<exists>u. rp_parse rp uri = Some u \<and> may_receive_codes rp cfg uri u))"
proof -
  have v: "\<not> vd_failed (rp_engine rp registration_rules payload)"
    "check_redirect_uris rp cfg (map_of payload ''redirect_uris'') = []"
    and reg: "reg = \<lparr>rg_name = client_name (rp_parse rp) payload (claimed_texts (map_of payload ''redirect_uris'')),
      rg_redirect_uris = claimed_texts (map_of payload ''redirect_uris''), rg_logo_uri = payload_string payload ''logo_uri'',
      rg_client_uri = payload_string payload ''client_uri'', rg_scope = config_scope cfg\<rparr>"
    using assms(3) by (auto simp: validate_registration_def Let_def split: if_splits)
  from assms(2) v(1) have "list_all (field_holds (rp_hidden rp) payload) registration_rules"
    unfolding engine_enforces_def by blast
  then have "field_holds (rp_hidden rp) payload (''redirect_uris'', [RequiredRule, ArrayRule, MinRule 1, MaxRule (int max_redirect_uris)])"
    by (simp add: registration_rules_def)
  then obtain items where items: "map_of payload ''redirect_uris'' = Some (AList items)" "1 \<le> length items"
    "length items \<le> max_redirect_uris"
    by (auto simp: field_holds_def split: option.splits any.splits)
  with v(2) check_redirect_items_exact [OF assms(1), of cfg 0 items]
  have all: "\<forall>item \<in> set items. claim_permitted rp cfg item" by (simp add: check_redirect_uris_def)
  then have m: "map AStr (text_items items) = items" by (intro text_items_all) (auto simp: claim_permitted_def)
  then have l: "length (text_items items) = length items" by (metis length_map)
  have "uri \<in> set (text_items items) \<Longrightarrow> AStr uri \<in> set items" for uri using m by (metis image_eqI list.set_map)
  with all have "\<forall>uri \<in> set (text_items items). length uri \<le> max_client_url_length
      \<and> (\<exists>u. rp_parse rp uri = Some u \<and> may_receive_codes rp cfg uri u)" by (fastforce simp: claim_permitted_def)
  moreover have "client_name (rp_parse rp) payload us \<noteq> []" for us
    by (auto simp: client_name_def fallback_client_name_def split: list.splits option.splits)
  ultimately show ?thesis using items m l by (auto simp: reg claimed_texts_def)
qed

text \<open>
  C31. A registration reaches the store only when every redirect URI it claims, one to thirty-two of them
  as the caller wrote them, is one an authorization response may be delivered to; the endpoint answers
  201 exactly when the store then issued an identifier, and a request it refuses with 400 has created
  nothing.
\<close>

theorem registration_outcome:
  assumes "str_matches (rp_str rp)" "engine_enforces rp"
  shows "case register_handler rp cfg store bound of ((status, body), created) \<Rightarrow>
      (\<forall>reg \<in> set created. \<exists>payload. bound = Some payload
         \<and> map_of payload ''redirect_uris'' = Some (AList (map AStr (rg_redirect_uris reg)))
         \<and> rg_redirect_uris reg \<noteq> [] \<and> length (rg_redirect_uris reg) \<le> 32 \<and> rg_name reg \<noteq> []
         \<and> (\<forall>uri \<in> set (rg_redirect_uris reg). length uri \<le> 2048
              \<and> (\<exists>u. rp_parse rp uri = Some u \<and> may_receive_codes rp cfg uri u)))
      \<and> (status = 201 \<longleftrightarrow> (\<exists>reg c. created = [reg] \<and> store reg = Some c \<and> rgd_id c \<noteq> []))
      \<and> (status = 400 \<longleftrightarrow> created = [])"
  using validated_registration [OF assms, of cfg]
  by (auto simp: register_handler_def max_redirect_uris_def max_client_url_length_def
      split: option.splits sum.splits)

text \<open>A parser for the texts of the examples, an engine that runs the rules, and the direction marks hidden.\<close>

definition demo_parse :: url_parser where
  "demo_parse uri =
     (case index_of uri ''://'' of
        None \<Rightarrow> None
      | Some i \<Rightarrow>
          let rest = drop (i + 3) uri; host = takeWhile (\<lambda>c. c \<noteq> CHR ''/'') rest
          in Some \<lparr>pu_scheme = take i uri, pu_opaque = [], pu_user = False, pu_host = host,
               pu_hostname = (if host = ''%E2%80%AE'' then [CHR 0xE2, CHR 0x80, CHR 0xAE] else host),
               pu_path = drop (length host) rest, pu_escaped_path = drop (length host) rest, pu_raw_query = [],
               pu_force_query = False, pu_fragment = [], pu_raw_fragment = []\<rparr>)"

definition demo_registration :: registration_parameters where
  "demo_registration =
     \<lparr>rp_parse = demo_parse,
      rp_str = demo_str\<lparr>sp_starts_with := (\<lambda>s ps. list_ex (\<lambda>p. p \<noteq> [] \<and> has_prefix s p) ps),
                  sp_ends_with := (\<lambda>s p. p \<noteq> [] \<and> has_suffix s p)\<rparr>,
      rp_hidden = (\<lambda>r. r < 0x20 \<or> 0x202A \<le> r \<and> r \<le> 0x202E),
      rp_engine = (\<lambda>rules payload.
        let ok = list_all (field_holds (\<lambda>r. r < 0x20 \<or> 0x202A \<le> r \<and> r \<le> 0x202E) payload) rules
        in \<lparr>vd_first = (\<lambda>f. []), vd_failed = \<not> ok\<rparr>)\<rparr>"

lemma demo_registration_laws: "str_matches (rp_str demo_registration)" "engine_enforces demo_registration"
  by (auto simp: str_matches_def engine_enforces_def demo_registration_def list_ex_iff Let_def)

definition demo_store :: client_store where
  "demo_store reg = Some \<lparr>rgd_id = ''client-1'', rgd_name = [], rgd_redirect_uris = [], rgd_grant_types = [], rgd_logo_uri = [],
     rgd_client_uri = []\<rparr>"

definition demo_claim :: "bytes \<Rightarrow> (bytes \<times> any) list" where
  "demo_claim uri = [(''redirect_uris'', AList [AStr uri])]"

theorem registration_outcome_witness:
  "\<exists>status body created. register_handler demo_registration demo_oauth demo_store
       (Some (demo_claim ''https://example.com/callback'')) = ((status, body), created)
     \<and> status = 201 \<and> length created = 1
     \<and> (\<exists>u. demo_parse ''https://example.com/callback'' = Some u
          \<and> may_receive_codes demo_registration demo_oauth ''https://example.com/callback'' u)"
proof -
  let ?uri = "''https://example.com/callback''"
  have "case register_handler demo_registration demo_oauth demo_store (Some (demo_claim ?uri)) of ((status, body), created) \<Rightarrow>
      status = 201 \<and> map rg_redirect_uris created = [[?uri]]" by code_simp
  then obtain body reg where r: "register_handler demo_registration demo_oauth demo_store (Some (demo_claim ?uri)) = ((201, body), [reg])"
    "rg_redirect_uris reg = [?uri]" by (auto split: prod.splits)
  have p: "rp_parse demo_registration = demo_parse" by (simp add: demo_registration_def)
  from registration_outcome [OF demo_registration_laws, where cfg = demo_oauth and store = demo_store and bound = "Some (demo_claim ?uri)"] r
  have "\<exists>u. demo_parse ?uri = Some u \<and> may_receive_codes demo_registration demo_oauth ?uri u" unfolding p by fastforce
  with r(1) show ?thesis by fastforce
qed

text \<open>
  The name a registration derives from its first redirect URI is the host that URI decodes to, which no
  rule has seen: it may hold characters nobody sees, percent-encoded in the URI, or be longer than any
  name a client may state.
\<close>

definition registered_names :: "(nat \<times> 'a) \<times> client_registration list \<Rightarrow> bytes list" where
  "registered_names r = map rg_name (snd r)"

lemma derived_name_unchecked:
  "registered_names (register_handler demo_registration demo_oauth demo_store (Some (demo_claim ''myapp://%E2%80%AE/cb'')))
     = [[CHR 0xE2, CHR 0x80, CHR 0xAE]]"
  by code_simp

lemma derived_name_hidden:
  "\<not> is_displayable_text (rp_hidden demo_registration) [CHR 0xE2, CHR 0x80, CHR 0xAE]"
proof -
  have b: "byte (CHR 0xE2) = 226" "byte (CHR 0x80) = 128" "byte (CHR 0xAE) = 174" by simp_all
  have d: "decode_rune2 226 128 = None" "decode_rune3 226 128 174 = Some 0x202E"
    by (simp_all add: decode_rune2_def decode_rune3_def cont_byte_def)
  have "decode_rune [CHR 0xE2, CHR 0x80, CHR 0xAE] = Some (0x202E, 3)" unfolding decode_rune_def list.case b d by simp
  then have "runes_of [CHR 0xE2, CHR 0x80, CHR 0xAE] = [0x202E]" by (subst runes_of.simps) simp
  then show ?thesis by (simp add: is_displayable_text_def is_displayable_def demo_registration_def)
qed

lemma derived_name_is_host:
  assumes "validate_registration rp cfg payload = Inr reg" "rg_redirect_uris reg = uri # uris"
    and "payload_string payload ''client_name'' = []" "payload_string payload ''name'' = []"
    and "rp_parse rp uri = Some u" "pu_hostname u \<noteq> []"
  shows "rg_name reg = pu_hostname u"
  using assms by (auto simp: validate_registration_def client_name_def Let_def split: if_splits)

end
