(* ===== verification/Oauth_Discovery.thy ===== *)
theory Oauth_Discovery
  imports Redirect_Policy
begin

text \<open>
  How an OAuth client finds the authorization server of a protected resource: \<open>client/oauth/discovery.go\<close>,
  \<open>endpoints.go\<close>, \<open>metadata.go\<close>, \<open>errors.go\<close>, \<open>config.go\<close>, and the state of the client of \<open>oauth.go\<close>. The
  servers answer as an environment decides, a function of the calls made so far; parsing and printing of
  URLs, addresses, the clock and randomness are part of it.
\<close>

section \<open>Data\<close>

text \<open>What an error wraps, by \<open>errors.Is\<close>, and its text.\<close>

datatype oauth_cause = PkceMissing | IssuerMismatched | IssuerUnnamed | NothingToRefresh | TransportFailed | NoCause

record oauth_error =
  oe_cause :: oauth_cause
  oe_text :: bytes

definition oauth_error :: "bytes \<Rightarrow> oauth_error" where
  "oauth_error text = \<lparr>oe_cause = NoCause, oe_text = text\<rparr>"

definition cause_text :: "oauth_cause \<Rightarrow> bytes" where
  "cause_text c =
     (case c of
        PkceMissing \<Rightarrow> ''PKCE with the S256 code challenge method is required''
      | IssuerMismatched \<Rightarrow> ''the credentials belong to a different authorization server''
      | IssuerUnnamed \<Rightarrow> ''Config.Issuer must name the authorization server the configured credentials belong to''
      | NothingToRefresh \<Rightarrow> ''the token set carries no refresh token''
      | _ \<Rightarrow> [])"

definition wrap_oauth_error :: "oauth_cause \<Rightarrow> bytes \<Rightarrow> oauth_error" where
  "wrap_oauth_error c text = \<lparr>oe_cause = c, oe_text = text @ '': '' @ cause_text c\<rparr>"

record oauth_client_config =
  occ_client_id :: bytes
  occ_client_secret :: bytes
  occ_issuer :: bytes
  occ_scope :: bytes
  occ_redirect_uri :: bytes
  occ_client_id_metadata_url :: bytes
  occ_allow_private :: bool

record auth_server =
  asv_issuer :: bytes
  asv_authorization_endpoint :: bytes
  asv_token_endpoint :: bytes
  asv_registration_endpoint :: bytes
  asv_code_challenge_methods :: "bytes list"
  asv_response_iss :: bool
  asv_auth_methods :: "bytes list"
  asv_client_id_documents :: bool

record discovery_result =
  dsr_server :: auth_server
  dsr_scopes :: "bytes list"

record issued_client =
  isc_id :: bytes
  isc_secret :: bytes
  isc_expires_at :: "int option"

text \<open>What may be connected to, and the requests a client makes.\<close>

datatype host_posture = PublicHosts | LoopbackHosts | PrivateHosts

datatype web_call =
    GetsJson host_posture bytes
  | PostsForm host_posture bytes "(bytes \<times> bytes) list" "(bytes \<times> bytes) option"
  | PostsJson host_posture bytes "(bytes \<times> any) list"

text \<open>\<open>net.ParseIP\<close> of a host, and how the address is classified.\<close>

record ip_address =
  ip_private :: bool
  ip_loopback :: bool
  ip_link_local :: bool
  ip_unspecified :: bool
  ip_global_unicast :: bool
  ip_reserved :: bool

text \<open>The surroundings: a call is answered with a status and a body, or not at all.\<close>

record surroundings =
  sr_parse :: url_parser
  sr_print :: "parsed_url \<Rightarrow> bytes"
  sr_with_query :: "parsed_url \<Rightarrow> (bytes \<times> bytes) list \<Rightarrow> bytes"
  sr_address :: "bytes \<Rightarrow> ip_address option"
  sr_answer :: "nat \<Rightarrow> web_call \<Rightarrow> (nat \<times> bytes) option"
  sr_now :: "nat \<Rightarrow> int"
  sr_random :: "nat \<Rightarrow> nat \<Rightarrow> bytes option"
  sr_state :: "nat \<Rightarrow> nat \<Rightarrow> bytes option"
  sr_digest :: "bytes \<Rightarrow> bytes"

text \<open>A client: what it was built with, what it remembers, and the calls it made; a moment is their number.\<close>

record oauth_client =
  ocl_config :: oauth_client_config
  ocl_resource_url :: bytes
  ocl_resource_metadata_url :: bytes
  ocl_challenge_scope :: bytes
  ocl_posture :: host_posture
  ocl_discovered :: "(discovery_result \<times> int) option"
  ocl_registration :: "(issued_client \<times> int \<times> bytes) option"
  ocl_calls :: "web_call list"
  ocl_moves :: nat

type_synonym 'a flow = "oauth_client \<Rightarrow> (oauth_error + 'a) \<times> oauth_client"

definition flow_return :: "'a \<Rightarrow> 'a flow" where "flow_return x st = (Inr x, st)"
definition flow_fail :: "oauth_error \<Rightarrow> 'a flow" where "flow_fail e st = (Inl e, st)"

definition flow_bind :: "'a flow \<Rightarrow> ('a \<Rightarrow> 'b flow) \<Rightarrow> 'b flow" where
  "flow_bind a k st = (case a st of (Inl e, st1) \<Rightarrow> (Inl e, st1) | (Inr x, st1) \<Rightarrow> k x st1)"

definition flow_state :: "(oauth_client \<Rightarrow> 'a flow) \<Rightarrow> 'a flow" where "flow_state k st = k st st"

definition flow_update :: "(oauth_client \<Rightarrow> oauth_client) \<Rightarrow> unit flow" where "flow_update f st = (Inr (), f st)"

definition flow_check :: "oauth_error option \<Rightarrow> unit flow" where
  "flow_check e = (case e of None \<Rightarrow> flow_return () | Some err \<Rightarrow> flow_fail err)"

definition flow_look :: "(nat \<Rightarrow> 'a) \<Rightarrow> 'a flow" where
  "flow_look f st = (Inr (f (ocl_moves st)), st\<lparr>ocl_moves := Suc (ocl_moves st)\<rparr>)"

lemmas flow_defs = flow_return_def flow_fail_def flow_bind_def flow_state_def flow_update_def flow_check_def flow_look_def

section \<open>Requests\<close>

definition loopback_names :: "bytes list" where "loopback_names = [''localhost'', ''127.0.0.1'', ''::1'']"

definition is_localhost :: "bytes \<Rightarrow> bool" where "is_localhost host = (host \<in> set loopback_names)"

definition normalized_host :: "bytes \<Rightarrow> bytes" where "normalized_host host = to_lower (trim_of host ''[]'')"

definition posture_for :: "surroundings \<Rightarrow> bool \<Rightarrow> bytes \<Rightarrow> host_posture" where
  "posture_for sr allow_private resource_url =
     (if allow_private then PrivateHosts
      else case sr_parse sr resource_url of
        Some u \<Rightarrow> if is_localhost (normalized_host (pu_hostname u)) then LoopbackHosts else PublicHosts
      | None \<Rightarrow> PublicHosts)"

definition successful :: "nat \<Rightarrow> bool" where "successful status = (200 \<le> status \<and> status < 300)"

text \<open>\<open>doJSON\<close>: the status, and the members of a body that is a JSON object.\<close>

definition json_body :: "bytes \<Rightarrow> (bytes \<times> any) list option" where
  "json_body raw =
     (if trim_space raw = [] then None else case unmarshal_any_map raw of Dec ms \<Rightarrow> Some ms | _ \<Rightarrow> None)"

definition call_endpoint :: "web_call \<Rightarrow> bytes" where
  "call_endpoint c = (case c of GetsJson p u \<Rightarrow> u | PostsForm p u f b \<Rightarrow> u | PostsJson p u m \<Rightarrow> u)"

definition do_json :: "surroundings \<Rightarrow> web_call \<Rightarrow> (nat \<times> (bytes \<times> any) list option) flow" where
  "do_json sr c st =
     (let st1 = st\<lparr>ocl_calls := ocl_calls st @ [c], ocl_moves := Suc (ocl_moves st)\<rparr>
      in case sr_answer sr (ocl_moves st) c of
           None \<Rightarrow> (Inl \<lparr>oe_cause = TransportFailed, oe_text = ''request to ['' @ call_endpoint c @ ''] failed''\<rparr>, st1)
         | Some (status, raw) \<Rightarrow> (Inr (status, json_body raw), st1))"

section \<open>Metadata\<close>

definition text_field :: "(bytes \<times> any) list option \<Rightarrow> bytes \<Rightarrow> bytes" where
  "text_field data key = (case data of None \<Rightarrow> [] | Some ms \<Rightarrow> payload_string ms key)"

definition flag_field :: "(bytes \<times> any) list \<Rightarrow> bytes \<Rightarrow> bool" where
  "flag_field ms key = (case map_of ms key of Some (ABool b) \<Rightarrow> b | _ \<Rightarrow> False)"

definition list_field :: "(bytes \<times> any) list \<Rightarrow> bytes \<Rightarrow> bytes list" where
  "list_field ms key = claimed_texts (map_of ms key)"

definition auth_server_from_map :: "(bytes \<times> any) list \<Rightarrow> oauth_error + auth_server" where
  "auth_server_from_map data =
     (let authorization = payload_string data ''authorization_endpoint''; endpoint = payload_string data ''token_endpoint''
      in if authorization = [] \<or> endpoint = []
         then Inl (oauth_error ''authorization server metadata is missing required endpoints'')
         else Inr \<lparr>asv_issuer = payload_string data ''issuer'', asv_authorization_endpoint = authorization,
                asv_token_endpoint = endpoint, asv_registration_endpoint = payload_string data ''registration_endpoint'',
                asv_code_challenge_methods = list_field data ''code_challenge_methods_supported'',
                asv_response_iss = flag_field data ''authorization_response_iss_parameter_supported'',
                asv_auth_methods = list_field data ''token_endpoint_auth_methods_supported'',
                asv_client_id_documents = flag_field data ''client_id_metadata_document_supported''\<rparr>)"

section \<open>URLs\<close>

definition unparsed_url :: "bytes \<Rightarrow> oauth_error" where
  "unparsed_url raw = oauth_error (''unable to parse URL ['' @ raw @ ''] during OAuth discovery'')"

text \<open>A parsed URL that has a scheme and a host.\<close>

definition located :: "surroundings \<Rightarrow> bytes \<Rightarrow> parsed_url option" where
  "located sr raw =
     (case sr_parse sr raw of
        Some u \<Rightarrow> if pu_scheme u = [] \<or> pu_host u = [] then None else Some u
      | None \<Rightarrow> None)"

definition url_origin :: "surroundings \<Rightarrow> bytes \<Rightarrow> oauth_error + bytes" where
  "url_origin sr raw =
     (case located sr raw of
        None \<Rightarrow> Inl (unparsed_url raw)
      | Some u \<Rightarrow> Inr (pu_scheme u @ ''://'' @ pu_host u))"

definition before_fragment :: "bytes \<Rightarrow> bytes" where
  "before_fragment u = takeWhile (\<lambda>c. c \<noteq> CHR ''#'') u"

definition require_secure :: "surroundings \<Rightarrow> bytes \<Rightarrow> oauth_error option" where
  "require_secure sr raw =
     (case located sr raw of
        None \<Rightarrow> Some (unparsed_url raw)
      | Some u \<Rightarrow>
          if pu_scheme u = ''https'' then None
          else if is_localhost (normalized_host (pu_hostname u)) then None
          else Some (oauth_error (''OAuth endpoint ['' @ raw @ ''] must be served over HTTPS'')))"

definition is_internal_host :: "surroundings \<Rightarrow> bytes \<Rightarrow> bool" where
  "is_internal_host sr host =
     (is_localhost host \<or>
      (case sr_address sr host of
         None \<Rightarrow> False
       | Some ip \<Rightarrow> ip_private ip \<or> ip_loopback ip \<or> ip_link_local ip \<or> ip_unspecified ip))"

definition require_not_internal :: "surroundings \<Rightarrow> bytes \<Rightarrow> bytes \<Rightarrow> oauth_error option" where
  "require_not_internal sr raw resource_url =
     (case sr_parse sr raw of
        None \<Rightarrow> Some (unparsed_url raw)
      | Some u \<Rightarrow>
          (case sr_parse sr resource_url of
             None \<Rightarrow> Some (unparsed_url resource_url)
           | Some r \<Rightarrow>
               let host = normalized_host (pu_hostname u); resource_host = normalized_host (pu_hostname r)
               in if is_internal_host sr host \<and> \<not> (is_localhost host \<and> is_localhost resource_host)
                  then Some (oauth_error (''OAuth endpoint ['' @ raw @ ''] cannot use a private or internal host''))
                  else None))"

definition require_secure_url :: "surroundings \<Rightarrow> bool \<Rightarrow> bytes \<Rightarrow> oauth_error option" where
  "require_secure_url sr allow_private raw =
     (if allow_private then (if located sr raw = None then Some (unparsed_url raw) else None)
      else require_secure sr raw)"

definition require_external_url :: "surroundings \<Rightarrow> bool \<Rightarrow> bytes \<Rightarrow> bytes \<Rightarrow> oauth_error option" where
  "require_external_url sr allow_private raw resource_url =
     (if allow_private then None else require_not_internal sr raw resource_url)"

definition require_fetchable :: "surroundings \<Rightarrow> bool \<Rightarrow> bytes \<Rightarrow> bytes \<Rightarrow> oauth_error option" where
  "require_fetchable sr allow_private raw resource_url =
     (case require_secure_url sr allow_private raw of
        Some e \<Rightarrow> Some e
      | None \<Rightarrow> require_external_url sr allow_private raw resource_url)"

definition without_empty_path :: "surroundings \<Rightarrow> bytes \<Rightarrow> bytes" where
  "without_empty_path sr raw =
     (if contains raw ''#'' then raw
      else case sr_parse sr raw of
        None \<Rightarrow> raw
      | Some u \<Rightarrow>
          if pu_path u \<noteq> ''/'' \<or> pu_host u = [] then raw
          else if pu_scheme u \<noteq> ''http'' \<and> pu_scheme u \<noteq> ''https'' then raw
          else sr_print sr (u\<lparr>pu_path := [], pu_escaped_path := []\<rparr>))"

definition well_known :: "surroundings \<Rightarrow> bytes \<Rightarrow> bytes \<Rightarrow> oauth_error + bytes" where
  "well_known sr raw kind =
     (case located sr raw of
        None \<Rightarrow> Inl (unparsed_url raw)
      | Some u \<Rightarrow>
          Inr (pu_scheme u @ ''://'' @ pu_host u @ ''/.well-known/'' @ kind
            @ (if pu_escaped_path u = ''/'' then [] else pu_escaped_path u)))"

definition trim_suffix_slash :: "bytes \<Rightarrow> bytes" where
  "trim_suffix_slash s = (if has_suffix s ''/'' then butlast s else s)"

definition metadata_urls :: "surroundings \<Rightarrow> bytes \<Rightarrow> oauth_error + bytes list" where
  "metadata_urls sr issuer =
     (case located sr issuer of
        None \<Rightarrow> Inl (unparsed_url issuer)
      | Some u \<Rightarrow>
          let origin = pu_scheme u @ ''://'' @ pu_host u; path = trim_suffix_slash (pu_path u)
          in if path = []
             then Inr [origin @ ''/.well-known/oauth-authorization-server'', origin @ ''/.well-known/openid-configuration'']
             else Inr [origin @ ''/.well-known/oauth-authorization-server'' @ path,
                       origin @ ''/.well-known/openid-configuration'' @ path,
                       origin @ path @ ''/.well-known/openid-configuration''])"

section \<open>Discovery\<close>

text \<open>A location with the identifiers a document found there may declare beside the resource itself.\<close>

definition metadata_locations :: "surroundings \<Rightarrow> bytes \<Rightarrow> bytes \<Rightarrow> oauth_error + (bytes \<times> bytes list) list" where
  "metadata_locations sr resource_url advertised =
     (if advertised \<noteq> [] then Inr [(advertised, [])]
      else case well_known sr resource_url ''oauth-protected-resource'' of
        Inl e \<Rightarrow> Inl e
      | Inr inserted \<Rightarrow>
          (case url_origin sr resource_url of
             Inl e \<Rightarrow> Inl e
           | Inr root \<Rightarrow>
               let at_root = root @ ''/.well-known/oauth-protected-resource''
               in Inr ((inserted, []) # (if at_root \<noteq> inserted then [(at_root, [root])] else []))))"

definition inconclusive :: "nat \<Rightarrow> bool" where
  "inconclusive status = (500 \<le> status \<or> status = 408 \<or> status = 429)"

definition fetch_resource_metadata ::
  "surroundings \<Rightarrow> host_posture \<Rightarrow> bytes \<Rightarrow> ((bytes \<times> any) list option \<times> nat) flow" where
  "fetch_resource_metadata sr posture url =
     flow_bind (do_json sr (GetsJson posture url)) (\<lambda>(status, data).
       if inconclusive status
       then flow_fail (oauth_error (''protected resource metadata request to ['' @ url @ ''] failed with status ['' @ int_to_dec (int status) @ '']''))
       else if \<not> successful status \<or> data = None then flow_return (None, status)
       else flow_return (data, status))"

definition require_resource_matches ::
  "surroundings \<Rightarrow> (bytes \<times> any) list \<Rightarrow> bytes \<Rightarrow> bytes list \<Rightarrow> oauth_error option" where
  "require_resource_matches sr metadata resource_url alternatives =
     (let resource = payload_string metadata ''resource''; declared = without_empty_path sr resource
      in if resource = [] then Some (oauth_error ''protected resource metadata does not declare the resource it describes'')
         else if without_empty_path sr resource_url = declared
           \<or> list_ex (\<lambda>a. without_empty_path sr a = declared) alternatives then None
         else Some (oauth_error (''protected resource metadata resource ['' @ resource
           @ ''] did not match the expected resource ['' @ resource_url @ '']'')))"

fun try_locations ::
  "surroundings \<Rightarrow> bool \<Rightarrow> host_posture \<Rightarrow> bytes \<Rightarrow> bytes \<Rightarrow> (bytes \<times> bytes list) list \<Rightarrow> (bytes \<times> any) list flow" where
  "try_locations sr allow_private posture resource_url advertised [] = flow_return []"
| "try_locations sr allow_private posture resource_url advertised ((url, alternatives) # locations) =
     flow_bind (flow_check (require_fetchable sr allow_private url resource_url)) (\<lambda>_.
       flow_bind (fetch_resource_metadata sr posture url) (\<lambda>(document, status).
         case document of
           None \<Rightarrow>
             if advertised \<noteq> []
             then flow_fail (oauth_error (''protected resource metadata request to ['' @ url
               @ ''] yielded no metadata document (status ['' @ int_to_dec (int status) @ ''])''))
             else try_locations sr allow_private posture resource_url advertised locations
         | Some ms \<Rightarrow>
             flow_bind (flow_check (require_resource_matches sr ms resource_url alternatives)) (\<lambda>_. flow_return ms)))"

definition resource_metadata ::
  "surroundings \<Rightarrow> bool \<Rightarrow> host_posture \<Rightarrow> bytes \<Rightarrow> bytes \<Rightarrow> (bytes \<times> any) list flow" where
  "resource_metadata sr allow_private posture resource_url advertised =
     (case metadata_locations sr resource_url advertised of
        Inl e \<Rightarrow> flow_fail e
      | Inr locations \<Rightarrow> try_locations sr allow_private posture resource_url advertised locations)"

text \<open>Whatever goes wrong at a candidate, the next one is tried.\<close>

fun try_metadata_urls :: "surroundings \<Rightarrow> host_posture \<Rightarrow> bytes \<Rightarrow> bytes list \<Rightarrow> auth_server flow" where
  "try_metadata_urls sr posture issuer [] =
     flow_fail (oauth_error (''unable to discover authorization server metadata from ['' @ issuer @ '']''))"
| "try_metadata_urls sr posture issuer (url # urls) = (\<lambda>st.
     case do_json sr (GetsJson posture url) st of
       (Inr (status, Some data), st1) \<Rightarrow>
         if successful status then (auth_server_from_map data, st1) else try_metadata_urls sr posture issuer urls st1
     | (_, st1) \<Rightarrow> try_metadata_urls sr posture issuer urls st1)"

definition fetch_metadata :: "surroundings \<Rightarrow> host_posture \<Rightarrow> bytes \<Rightarrow> auth_server flow" where
  "fetch_metadata sr posture issuer =
     (case metadata_urls sr issuer of Inl e \<Rightarrow> flow_fail e | Inr urls \<Rightarrow> try_metadata_urls sr posture issuer urls)"

definition issuer_from :: "(bytes \<times> any) list \<Rightarrow> bytes" where
  "issuer_from metadata = (case list_field metadata ''authorization_servers'' of [] \<Rightarrow> [] | s # _ \<Rightarrow> s)"

definition resolve_issuer :: "surroundings \<Rightarrow> (bytes \<times> any) list \<Rightarrow> bytes \<Rightarrow> oauth_error + bytes" where
  "resolve_issuer sr metadata resource_url =
     (if issuer_from metadata = [] then url_origin sr resource_url else Inr (issuer_from metadata))"

definition require_endpoints :: "surroundings \<Rightarrow> bool \<Rightarrow> bytes \<Rightarrow> auth_server \<Rightarrow> oauth_error option" where
  "require_endpoints sr allow_private resource_url server =
     (case find (\<lambda>e. e \<noteq> None) (map (\<lambda>endpoint. require_fetchable sr allow_private endpoint resource_url)
          ([asv_authorization_endpoint server, asv_token_endpoint server]
            @ (if asv_registration_endpoint server \<noteq> [] then [asv_registration_endpoint server] else []))) of
        Some e \<Rightarrow> e
      | None \<Rightarrow> None)"

definition discover_servers :: "surroundings \<Rightarrow> bool \<Rightarrow> bytes \<Rightarrow> bytes \<Rightarrow> discovery_result flow" where
  "discover_servers sr allow_private given_url advertised =
     (let resource_url = before_fragment given_url; posture = posture_for sr allow_private resource_url
      in flow_bind (resource_metadata sr allow_private posture resource_url advertised) (\<lambda>metadata.
           case resolve_issuer sr metadata resource_url of
             Inl e \<Rightarrow> flow_fail e
           | Inr issuer \<Rightarrow>
               flow_bind (flow_check (require_fetchable sr allow_private issuer resource_url)) (\<lambda>_.
               flow_bind (fetch_metadata sr posture issuer) (\<lambda>server.
                 if issuer \<noteq> asv_issuer server
                 then flow_fail (oauth_error (''authorization server issuer ['' @ asv_issuer server
                   @ ''] did not match the expected issuer ['' @ issuer @ '']''))
                 else flow_bind (flow_check (require_endpoints sr allow_private resource_url server)) (\<lambda>_.
                        flow_return \<lparr>dsr_server = server, dsr_scopes = list_field metadata ''scopes_supported''\<rparr>)))))"

end
