(* ===== verification/Oauth_Client.thy ===== *)
theory Oauth_Client
  imports Oauth_Discovery Base64
begin

text \<open>
  The flows of an OAuth client: \<open>client/oauth/oauth.go\<close>, with \<open>clientid.go\<close>, \<open>registration.go\<close>,
  \<open>tokenset.go\<close> and \<open>pkce.go\<close>. A client runs one flow at a time; the gate that makes concurrent flows
  share a discovery or a registration is not modelled.
\<close>

section \<open>Constants\<close>

definition client_default_scope :: bytes where "client_default_scope = ''mcp:use''"
definition state_length :: nat where "state_length = 40"
definition discovery_ttl :: int where "discovery_ttl = 15 * 60 * 10 ^ 9"
definition registration_ttl :: int where "registration_ttl = 60 * 60 * 10 ^ 9"
definition auth_method_none :: bytes where "auth_method_none = ''none''"
definition auth_method_basic :: bytes where "auth_method_basic = ''client_secret_basic''"
definition auth_method_post :: bytes where "auth_method_post = ''client_secret_post''"
definition default_client_name :: bytes where "default_client_name = ''Velocity MCP Client''"
definition token_type_bearer :: bytes where "token_type_bearer = ''Bearer''"

definition new_oauth_client :: "surroundings \<Rightarrow> oauth_client_config \<Rightarrow> bytes \<Rightarrow> bytes \<Rightarrow> bytes \<Rightarrow> oauth_client" where
  "new_oauth_client sr cfg resource_url metadata_url scope =
     \<lparr>ocl_config = cfg, ocl_resource_url = before_fragment resource_url, ocl_resource_metadata_url = metadata_url,
      ocl_challenge_scope = scope, ocl_posture = posture_for sr (occ_allow_private cfg) resource_url,
      ocl_discovered = None, ocl_registration = None, ocl_calls = [], ocl_moves = 0\<rparr>"

section \<open>Tokens\<close>

record token_set =
  tks_access :: bytes
  tks_refresh :: bytes
  tks_expires_at :: "int option"
  tks_type :: bytes
  tks_scope :: bytes
  tks_client_id :: bytes
  tks_client_secret :: bytes
  tks_issuer :: bytes

definition token_expired :: "token_set \<Rightarrow> int \<Rightarrow> bool" where
  "token_expired t now = (case tks_expires_at t of None \<Rightarrow> False | Some at \<Rightarrow> at \<le> now)"

text \<open>\<open>intField\<close>: a JSON number is a float64.\<close>

definition number_field :: "(bytes \<times> any) list option \<Rightarrow> bytes \<Rightarrow> int option" where
  "number_field data key =
     (case data of
        None \<Rightarrow> None
      | Some ms \<Rightarrow>
          (case map_of ms key of
             Some (ANum n) \<Rightarrow> Some (float_to_int64 (literal_float n))
           | Some (AInt i) \<Rightarrow> Some i
           | _ \<Rightarrow> None))"

definition require_bearer_token_type :: "(bytes \<times> any) list option \<Rightarrow> oauth_error option" where
  "require_bearer_token_type data =
     (case (case data of None \<Rightarrow> None | Some ms \<Rightarrow> map_of ms ''token_type'') of
        None \<Rightarrow> None
      | Some (AStr t) \<Rightarrow>
          if fold_ascii t = ''bearer'' then None
          else Some (oauth_error ''the token response is of a token_type other than Bearer, which this client cannot present'')
      | Some _ \<Rightarrow> Some (oauth_error ''the token response states a token_type that is not a string''))"

definition token_set_from_response :: "(bytes \<times> any) list option \<Rightarrow> int \<Rightarrow> bytes \<Rightarrow> token_set" where
  "token_set_from_response data now issuer =
     \<lparr>tks_access = text_field data ''access_token'', tks_refresh = text_field data ''refresh_token'',
      tks_expires_at = map_option (\<lambda>secs. now + wrap64 (secs * 10 ^ 9)) (number_field data ''expires_in''),
      tks_type = (if text_field data ''token_type'' = [] then token_type_bearer else text_field data ''token_type''),
      tks_scope = text_field data ''scope'', tks_client_id = [], tks_client_secret = [], tks_issuer = issuer\<rparr>"

section \<open>Whose credentials\<close>

definition require_same_issuer :: "bytes \<Rightarrow> bytes \<Rightarrow> oauth_error option" where
  "require_same_issuer bound current =
     (if bound = []
      then Some (wrap_oauth_error IssuerMismatched ''the token set does not record the authorization server that issued it'')
      else if bound \<noteq> current
      then Some (wrap_oauth_error IssuerMismatched (''the token set was issued by ['' @ bound
        @ ''], but the resource now points at ['' @ current @ '']''))
      else None)"

definition require_configured_issuer :: "oauth_client_config \<Rightarrow> bytes \<Rightarrow> oauth_error option" where
  "require_configured_issuer cfg issuer =
     (if occ_issuer cfg = [] then None
      else if occ_issuer cfg \<noteq> issuer
      then Some (wrap_oauth_error IssuerMismatched (''the configured client credentials belong to ['' @ occ_issuer cfg
        @ ''], but this flow targets ['' @ issuer @ '']''))
      else None)"

definition presents_configured :: "bytes \<Rightarrow> bytes \<Rightarrow> bool" where
  "presents_configured configured presented = (configured \<noteq> [] \<and> configured = presented)"

definition require_configured_credentials :: "oauth_client_config \<Rightarrow> bytes \<Rightarrow> bytes \<Rightarrow> bytes \<Rightarrow> oauth_error option" where
  "require_configured_credentials cfg issuer client_id client_secret =
     (if \<not> presents_configured (occ_client_id cfg) client_id \<and> \<not> presents_configured (occ_client_secret cfg) client_secret
      then None
      else if occ_issuer cfg = []
      then Some (wrap_oauth_error IssuerUnnamed (''the configured client credentials cannot be presented to ['' @ issuer @ '']''))
      else require_configured_issuer cfg issuer)"

definition resolve_auth_method :: "auth_server \<Rightarrow> bytes \<Rightarrow> bytes" where
  "resolve_auth_method server client_secret =
     (let supported = asv_auth_methods server
      in if client_secret = [] then auth_method_none
         else if supported \<noteq> [] \<and> auth_method_post \<notin> set supported \<and> auth_method_basic \<in> set supported
         then auth_method_basic else auth_method_post)"

section \<open>Token requests\<close>

text \<open>The form with the credentials in it, and those of the \<open>Authorization\<close> header.\<close>

definition authenticated_form ::
  "(bytes \<times> bytes) list \<Rightarrow> bytes \<Rightarrow> bytes \<Rightarrow> bytes \<Rightarrow> (bytes \<times> bytes) list \<times> (bytes \<times> bytes) option" where
  "authenticated_form form client_id client_secret auth_method =
     (if auth_method = auth_method_basic then (form, Some (client_id, client_secret))
      else if auth_method = auth_method_none then (form @ [(''client_id'', client_id)], None)
      else (form @ [(''client_id'', client_id)]
              @ (if client_secret \<noteq> [] then [(''client_secret'', client_secret)] else []), None))"

definition token_from ::
  "surroundings \<Rightarrow> bytes \<Rightarrow> bytes \<Rightarrow> nat \<times> (bytes \<times> any) list option \<Rightarrow> token_set flow" where
  "token_from sr issuer endpoint answer =
     (case answer of (status, data) \<Rightarrow>
        if \<not> successful status
        then flow_fail (oauth_error (''token request to ['' @ endpoint @ ''] failed with status ['' @ int_to_dec (int status) @ '']''))
        else if text_field data ''access_token'' = []
        then flow_fail (oauth_error ''the token response did not include an access_token'')
        else flow_bind (flow_check (require_bearer_token_type data)) (\<lambda>_.
               flow_bind (flow_look (sr_now sr)) (\<lambda>now. flow_return (token_set_from_response data now issuer))))"

definition request_token ::
  "surroundings \<Rightarrow> bytes \<Rightarrow> bytes \<Rightarrow> (bytes \<times> bytes) list \<Rightarrow> bytes \<Rightarrow> bytes \<Rightarrow> bytes \<Rightarrow> token_set flow" where
  "request_token sr issuer endpoint form client_id client_secret auth_method =
     flow_state (\<lambda>st.
       flow_bind (flow_check (require_configured_credentials (ocl_config st) issuer client_id client_secret)) (\<lambda>_.
         case authenticated_form form client_id client_secret auth_method of (full, basic) \<Rightarrow>
           flow_bind (do_json sr (PostsForm (ocl_posture st) endpoint full basic)) (token_from sr issuer endpoint)))"

section \<open>Discovery, remembered\<close>

definition memoized_discovery :: "oauth_client \<Rightarrow> int \<Rightarrow> discovery_result option" where
  "memoized_discovery st now =
     (case ocl_discovered st of
        Some (d, at) \<Rightarrow> if now < at + discovery_ttl then Some d else None
      | None \<Rightarrow> None)"

definition discover_metadata :: "surroundings \<Rightarrow> discovery_result flow" where
  "discover_metadata sr =
     flow_bind (flow_look (sr_now sr)) (\<lambda>now. flow_state (\<lambda>st.
       case memoized_discovery st now of
         Some d \<Rightarrow> flow_return d
       | None \<Rightarrow>
           flow_bind (discover_servers sr (occ_allow_private (ocl_config st)) (ocl_resource_url st) (ocl_resource_metadata_url st)) (\<lambda>d.
             flow_bind (flow_look (sr_now sr)) (\<lambda>at.
               flow_bind (flow_update (\<lambda>st. st\<lparr>ocl_discovered := Some (d, at)\<rparr>)) (\<lambda>_. flow_return d)))))"

definition oauth_discover :: "surroundings \<Rightarrow> discovery_result flow" where
  "oauth_discover sr =
     flow_bind (discover_metadata sr) (\<lambda>d. flow_state (\<lambda>st.
       flow_bind (flow_check (require_configured_issuer (ocl_config st) (asv_issuer (dsr_server d)))) (\<lambda>_. flow_return d)))"

fun requestable_scopes :: "bytes list \<Rightarrow> bytes list \<Rightarrow> bytes list" where
  "requestable_scopes tokens [] = tokens"
| "requestable_scopes tokens (s # ss) =
     requestable_scopes (if is_scope_token s \<and> s \<notin> set tokens then tokens @ [s] else tokens) ss"

definition resolve_scope :: "oauth_client \<Rightarrow> discovery_result \<Rightarrow> bytes" where
  "resolve_scope st d =
     (if ocl_challenge_scope st \<noteq> [] then ocl_challenge_scope st
      else if occ_scope (ocl_config st) \<noteq> [] then occ_scope (ocl_config st)
      else join_with '' '' (requestable_scopes [] (dsr_scopes d)))"

section \<open>Client identity\<close>

definition reserved_host_suffixes :: "bytes list" where
  "reserved_host_suffixes = [''.test'', ''.local'', ''.localhost'', ''.internal'', ''.invalid'', ''.example'']"

definition all_in_set :: "bytes \<Rightarrow> bytes \<Rightarrow> bool" where
  "all_in_set s chars = (s \<noteq> [] \<and> list_all (\<lambda>c. c \<in> set chars) s)"

definition numeric_top_label :: "bytes \<Rightarrow> bool" where
  "numeric_top_label host =
     (let label = (case last_index_of host ''.'' of None \<Rightarrow> host | Some i \<Rightarrow> drop (i + 1) host)
      in if has_prefix label ''0x'' then all_in_set (drop 2 label) ''0123456789abcdef'' else all_in_set label ''0123456789'')"

definition publicly_routable_ip :: "ip_address \<Rightarrow> bool" where
  "publicly_routable_ip ip = (ip_global_unicast ip \<and> \<not> ip_private ip \<and> \<not> ip_reserved ip)"

definition publicly_resolvable_host :: "surroundings \<Rightarrow> bytes \<Rightarrow> bool" where
  "publicly_resolvable_host sr raw =
     (let normal = normalized_host raw; host = (if has_suffix normal ''.'' then butlast normal else normal)
      in if host = [] \<or> is_internal_host sr host then False
         else if contains host ''%'' then False
         else case sr_address sr host of
           Some ip \<Rightarrow> publicly_routable_ip ip
         | None \<Rightarrow>
             if list_ex (\<lambda>suffix. has_suffix host suffix) reserved_host_suffixes then False
             else if numeric_top_label host then False
             else contains host ''.'')"

definition document_dot_segment :: "bytes \<Rightarrow> bool" where
  "document_dot_segment path = list_ex (\<lambda>s. s = ''.'' \<or> s = ''..'') (split_on (CHR ''/'') path)"

definition valid_client_id_url :: "surroundings \<Rightarrow> bytes \<Rightarrow> bool" where
  "valid_client_id_url sr raw =
     (case sr_parse sr raw of
        None \<Rightarrow> False
      | Some u \<Rightarrow>
          if pu_scheme u \<noteq> ''https'' \<or> pu_host u = [] \<or> pu_user u then False
          else if pu_path u = [] \<or> pu_path u = ''/'' \<or> document_dot_segment (pu_path u) then False
          else if pu_raw_query u \<noteq> [] \<or> pu_force_query u \<or> pu_fragment u \<noteq> [] then False
          else if contains raw ''#'' then False
          else publicly_resolvable_host sr (pu_hostname u))"

definition client_id_document :: "surroundings \<Rightarrow> oauth_client_config \<Rightarrow> auth_server \<Rightarrow> bytes" where
  "client_id_document sr cfg server =
     (if \<not> asv_client_id_documents server \<or> occ_client_id_metadata_url cfg = [] then []
      else if \<not> valid_client_id_url sr (occ_client_id_metadata_url cfg) then []
      else occ_client_id_metadata_url cfg)"

definition issued_client_expired :: "issued_client \<Rightarrow> int \<Rightarrow> bool" where
  "issued_client_expired reg now = (case isc_expires_at reg of None \<Rightarrow> False | Some at \<Rightarrow> at \<le> now)"

definition application_type :: "surroundings \<Rightarrow> bytes \<Rightarrow> bytes" where
  "application_type sr redirect_uri =
     (case sr_parse sr redirect_uri of
        None \<Rightarrow> ''web''
      | Some u \<Rightarrow> if is_localhost (normalized_host (pu_hostname u)) then ''native'' else ''web'')"

definition registration_payload :: "bytes \<Rightarrow> bytes \<Rightarrow> bytes \<Rightarrow> bytes \<Rightarrow> (bytes \<times> any) list" where
  "registration_payload redirect_uri scope kind auth_method =
     [(''client_name'', AStr default_client_name), (''redirect_uris'', AList [AStr redirect_uri]),
      (''grant_types'', AList [AStr ''authorization_code'', AStr ''refresh_token'']),
      (''response_types'', AList [AStr ''code'']), (''token_endpoint_auth_method'', AStr auth_method),
      (''application_type'', AStr kind)] @ (if scope \<noteq> [] then [(''scope'', AStr scope)] else [])"

definition register_client ::
  "surroundings \<Rightarrow> host_posture \<Rightarrow> bytes \<Rightarrow> bytes \<Rightarrow> bytes \<Rightarrow> bytes \<Rightarrow> bytes \<Rightarrow> issued_client flow" where
  "register_client sr posture endpoint redirect_uri scope kind auth_method =
     flow_bind (do_json sr (PostsJson posture endpoint (registration_payload redirect_uri scope kind auth_method))) (\<lambda>(status, data).
       let client_id = text_field data ''client_id''; secret = text_field data ''client_secret''
       in if \<not> successful status
          then flow_fail (oauth_error (''dynamic client registration failed with status ['' @ int_to_dec (int status) @ '']''))
          else if client_id = []
          then flow_fail (oauth_error ''dynamic client registration response did not include a client_id'')
          else flow_return \<lparr>isc_id = client_id, isc_secret = secret,
                 isc_expires_at = (case number_field data ''client_secret_expires_at'' of
                     Some secs \<Rightarrow> if 0 < secs \<and> secret \<noteq> [] then Some (secs * 10 ^ 9) else None
                   | None \<Rightarrow> None)\<rparr>)"

definition registration_identity :: "auth_server \<Rightarrow> bytes" where
  "registration_identity server = asv_issuer server @ [CHR 0x0A] @ asv_registration_endpoint server"

definition memoized_registration :: "oauth_client \<Rightarrow> bytes \<Rightarrow> int \<Rightarrow> issued_client option" where
  "memoized_registration st issued_by now =
     (case ocl_registration st of
        None \<Rightarrow> None
      | Some (reg, at, registered_with) \<Rightarrow>
          if registered_with \<noteq> issued_by then None
          else if issued_client_expired reg now \<or> \<not> now < at + registration_ttl then None
          else Some reg)"

definition no_registration :: bytes where
  "no_registration = ''no client_id was configured, no usable client ID metadata document URL is available, and the''
     @ '' authorization server does not support dynamic client registration''"

definition resolve_registration :: "surroundings \<Rightarrow> discovery_result \<Rightarrow> bytes \<Rightarrow> issued_client flow" where
  "resolve_registration sr d redirect_uri =
     flow_state (\<lambda>st0.
       let server = dsr_server d; document = client_id_document sr (ocl_config st0) server;
           issued_by = registration_identity server
       in if document \<noteq> [] then flow_return \<lparr>isc_id = document, isc_secret = [], isc_expires_at = None\<rparr>
          else flow_bind (flow_look (sr_now sr)) (\<lambda>now. flow_state (\<lambda>st.
                 case memoized_registration st issued_by now of
                   Some reg \<Rightarrow> flow_return reg
                 | None \<Rightarrow>
                     if asv_registration_endpoint server = [] then flow_fail (oauth_error no_registration)
                     else flow_bind (register_client sr (ocl_posture st) (asv_registration_endpoint server) redirect_uri
                              (resolve_scope st d) (application_type sr redirect_uri) (resolve_auth_method server ''confidential''))
                            (\<lambda>reg. flow_bind (flow_look (sr_now sr)) (\<lambda>at.
                              flow_bind (flow_update (\<lambda>st. st\<lparr>ocl_registration := Some (reg, at, issued_by)\<rparr>))
                                (\<lambda>_. flow_return reg))))))"

section \<open>Flows\<close>

record pkce_pair =
  pk_verifier :: bytes
  pk_challenge :: bytes

text \<open>\<open>base64.RawURLEncoding\<close>: the alphabet of URLs, without padding.\<close>

definition base64_url :: "bytes \<Rightarrow> bytes" where
  "base64_url s =
     map (\<lambda>c. if c = CHR ''+'' then CHR ''-'' else if c = CHR ''/'' then CHR ''_'' else c)
       (filter (\<lambda>c. c \<noteq> b64_pad) (b64_encode s))"

definition pkce_of :: "surroundings \<Rightarrow> bytes \<Rightarrow> pkce_pair" where
  "pkce_of sr raw = (let verifier = base64_url raw in \<lparr>pk_verifier = verifier, pk_challenge = base64_url (sr_digest sr verifier)\<rparr>)"

definition generate_pkce :: "surroundings \<Rightarrow> pkce_pair flow" where
  "generate_pkce sr =
     flow_bind (flow_look (\<lambda>n. sr_random sr n 64)) (\<lambda>raw.
       case raw of
         None \<Rightarrow> flow_fail (oauth_error ''unable to generate PKCE verifier'')
       | Some bytes \<Rightarrow> flow_return (pkce_of sr bytes))"

record pending_authorization =
  pa_state :: bytes
  pa_verifier :: bytes
  pa_client_id :: bytes
  pa_client_secret :: bytes
  pa_token_endpoint :: bytes
  pa_auth_method :: bytes
  pa_redirect_uri :: bytes
  pa_return_to :: bytes
  pa_issuer :: bytes
  pa_issuer_supported :: bool

definition require_pkce :: "auth_server \<Rightarrow> oauth_error option" where
  "require_pkce server =
     (if asv_code_challenge_methods server = []
      then Some (wrap_oauth_error PkceMissing ''the authorization server metadata does not advertise [code_challenge_methods_supported]'')
      else if ''S256'' \<notin> set (asv_code_challenge_methods server)
      then Some (wrap_oauth_error PkceMissing ''the authorization server does not advertise the S256 code challenge method'')
      else None)"

definition authorization_params ::
  "bytes \<Rightarrow> bytes \<Rightarrow> bytes \<Rightarrow> bytes \<Rightarrow> bytes \<Rightarrow> bytes \<Rightarrow> (bytes \<times> bytes) list" where
  "authorization_params client_id redirect_uri state challenge_text scope resource =
     filter (\<lambda>(k, v). v \<noteq> [])
       [(''response_type'', ''code''), (''client_id'', client_id), (''redirect_uri'', redirect_uri), (''state'', state),
        (''code_challenge'', challenge_text), (''code_challenge_method'', ''S256''), (''scope'', scope), (''resource'', resource)]"

definition flow_identity :: "surroundings \<Rightarrow> discovery_result \<Rightarrow> (bytes \<times> bytes) flow" where
  "flow_identity sr d =
     flow_state (\<lambda>st.
       let cfg = ocl_config st
       in if occ_client_id cfg \<noteq> [] then flow_return (occ_client_id cfg, occ_client_secret cfg)
          else flow_bind (resolve_registration sr d (occ_redirect_uri cfg)) (\<lambda>reg. flow_return (isc_id reg, isc_secret reg)))"

text \<open>The authorization endpoint with its parameters, and what is to be kept until the callback.\<close>

definition begin_authorization ::
  "surroundings \<Rightarrow> bytes \<Rightarrow> discovery_result \<Rightarrow> bytes \<times> bytes \<Rightarrow> (bytes \<times> pending_authorization) flow" where
  "begin_authorization sr return_to d identity =
     (case identity of (client_id, client_secret) \<Rightarrow> flow_state (\<lambda>st.
        let server = dsr_server d; redirect_uri = occ_redirect_uri (ocl_config st)
        in flow_bind (flow_check (require_configured_credentials (ocl_config st) (asv_issuer server) client_id client_secret)) (\<lambda>_.
           flow_bind (generate_pkce sr) (\<lambda>pkce.
           flow_bind (flow_look (\<lambda>n. sr_state sr n state_length)) (\<lambda>drawn.
             case drawn of
               None \<Rightarrow> flow_fail (oauth_error ''unable to generate OAuth state'')
             | Some state \<Rightarrow>
                 (case sr_parse sr (asv_authorization_endpoint server) of
                    None \<Rightarrow> flow_fail (oauth_error (''unable to parse authorization endpoint ['' @ asv_authorization_endpoint server @ '']''))
                  | Some u \<Rightarrow>
                      flow_return
                        (sr_with_query sr u (authorization_params client_id redirect_uri state (pk_challenge pkce)
                           (resolve_scope st d) (ocl_resource_url st)),
                         \<lparr>pa_state = state, pa_verifier = pk_verifier pkce, pa_client_id = client_id,
                          pa_client_secret = client_secret, pa_token_endpoint = asv_token_endpoint server,
                          pa_auth_method = resolve_auth_method server client_secret, pa_redirect_uri = redirect_uri,
                          pa_return_to = return_to, pa_issuer = asv_issuer server,
                          pa_issuer_supported = asv_response_iss server\<rparr>)))))))"

definition authorization_url :: "surroundings \<Rightarrow> bytes \<Rightarrow> (bytes \<times> pending_authorization) flow" where
  "authorization_url sr return_to =
     flow_bind (oauth_discover sr) (\<lambda>d.
     flow_bind (flow_check (require_pkce (dsr_server d))) (\<lambda>_. flow_state (\<lambda>st.
       if occ_redirect_uri (ocl_config st) = [] then flow_fail (oauth_error ''a redirect URI is required'')
       else flow_bind (flow_identity sr d) (begin_authorization sr return_to d))))"

text \<open>A callback query, by \<open>url.Values.Get\<close>.\<close>

type_synonym callback_query = "bytes \<Rightarrow> bytes"

definition validate_state :: "pending_authorization \<Rightarrow> bytes \<Rightarrow> oauth_error option" where
  "validate_state pending state =
     (if pa_state pending = []
      then Some (oauth_error ''the pending OAuth authorization records no state, so no response can be matched to it'')
      else if pa_state pending \<noteq> state
      then Some (oauth_error ''the OAuth state parameter did not match; possible CSRF attempt'')
      else None)"

definition validate_issuer :: "pending_authorization \<Rightarrow> bytes \<Rightarrow> oauth_error option" where
  "validate_issuer pending iss =
     (if iss \<noteq> []
      then (if pa_issuer pending = [] \<or> pa_issuer pending \<noteq> iss
            then Some (oauth_error ''the OAuth issuer (iss) parameter did not match the expected issuer; possible mix-up attack'')
            else None)
      else if pa_issuer_supported pending
      then Some (oauth_error ''the authorization response is missing the required iss parameter'')
      else None)"

definition callback_error :: "callback_query \<Rightarrow> oauth_error option" where
  "callback_error q =
     (if q ''error'' = [] then None
      else Some (oauth_error (''the authorization server returned an error ['' @ q ''error'' @ '']''
        @ (if q ''error_description'' \<noteq> [] then '': '' @ q ''error_description'' else []))))"

definition code_form :: "pending_authorization \<Rightarrow> bytes \<Rightarrow> bytes \<Rightarrow> (bytes \<times> bytes) list" where
  "code_form pending code resource =
     [(''grant_type'', ''authorization_code''), (''code'', code), (''redirect_uri'', pa_redirect_uri pending),
      (''code_verifier'', pa_verifier pending), (''resource'', resource)]"

definition exchange_code :: "surroundings \<Rightarrow> pending_authorization option \<Rightarrow> callback_query \<Rightarrow> (token_set \<times> bytes) flow" where
  "exchange_code sr held q =
     (case held of
        None \<Rightarrow> flow_fail (oauth_error ''no pending OAuth authorization was provided'')
      | Some pending \<Rightarrow> flow_state (\<lambda>st.
          flow_bind (flow_check (validate_state pending (q ''state''))) (\<lambda>_.
          flow_bind (flow_check (validate_issuer pending (q ''iss''))) (\<lambda>_.
          flow_bind (flow_check (callback_error q)) (\<lambda>_.
            if q ''code'' = [] then flow_fail (oauth_error ''the OAuth callback did not include an authorization code'')
            else flow_bind (flow_check (require_configured_issuer (ocl_config st) (pa_issuer pending))) (\<lambda>_.
                 flow_bind (request_token sr (pa_issuer pending) (pa_token_endpoint pending)
                     (code_form pending (q ''code'') (ocl_resource_url st)) (pa_client_id pending) (pa_client_secret pending)
                     (if pa_auth_method pending = [] then auth_method_post else pa_auth_method pending)) (\<lambda>tok.
                   flow_return (tok\<lparr>tks_client_id := pa_client_id pending, tks_client_secret := pa_client_secret pending\<rparr>,
                                pa_return_to pending))))))))"

definition client_credentials :: "surroundings \<Rightarrow> token_set flow" where
  "client_credentials sr =
     flow_state (\<lambda>st0.
       let cfg = ocl_config st0
       in if occ_client_id cfg = [] then flow_fail (oauth_error ''a client_id is required for the client_credentials grant'')
          else flow_bind (oauth_discover sr) (\<lambda>d. flow_state (\<lambda>st.
                 let scope = resolve_scope st d
                 in request_token sr (asv_issuer (dsr_server d)) (asv_token_endpoint (dsr_server d))
                      ([(''grant_type'', ''client_credentials''), (''resource'', ocl_resource_url st)]
                        @ (if scope \<noteq> [] then [(''scope'', scope)] else []))
                      (occ_client_id cfg) (occ_client_secret cfg)
                      (resolve_auth_method (dsr_server d) (occ_client_secret cfg)))))"

definition refresh_identity :: "oauth_client_config \<Rightarrow> token_set \<Rightarrow> bytes \<times> bytes" where
  "refresh_identity cfg tok =
     (let client_id = (if tks_client_id tok = [] then occ_client_id cfg else tks_client_id tok)
      in (client_id, if tks_client_secret tok = [] \<and> client_id = occ_client_id cfg then occ_client_secret cfg
                     else tks_client_secret tok))"

definition refresh_token :: "surroundings \<Rightarrow> token_set option \<Rightarrow> token_set flow" where
  "refresh_token sr held =
     (case held of
        None \<Rightarrow> flow_fail (wrap_oauth_error NothingToRefresh ''refreshing needs the token set a grant issued'')
      | Some tok \<Rightarrow>
          if tks_refresh tok = []
          then flow_fail (wrap_oauth_error NothingToRefresh ''refreshing needs the token set a grant issued'')
          else flow_bind (oauth_discover sr) (\<lambda>d.
               flow_bind (flow_check (require_same_issuer (tks_issuer tok) (asv_issuer (dsr_server d)))) (\<lambda>_. flow_state (\<lambda>st.
                 case refresh_identity (ocl_config st) tok of (client_id, client_secret) \<Rightarrow>
                   flow_bind (request_token sr (asv_issuer (dsr_server d)) (asv_token_endpoint (dsr_server d))
                       [(''grant_type'', ''refresh_token''), (''refresh_token'', tks_refresh tok), (''resource'', ocl_resource_url st)]
                       client_id client_secret (resolve_auth_method (dsr_server d) client_secret)) (\<lambda>fresh.
                     flow_return (fresh\<lparr>tks_client_id := client_id, tks_client_secret := client_secret\<rparr>))))))"

end
