(* ===== verification/Oauth_Laws.thy ===== *)
theory Oauth_Laws
  imports Oauth_Client
begin

text \<open>
  What is shown of an OAuth client: where its requests go, to whom it presents credentials, and what it
  makes of an authorization response.
\<close>

section \<open>Laws of flows\<close>

text \<open>
  Under an invariant of the client and a condition of the state, a flow keeps the invariant, makes only
  calls that are allowed, and leaves, when it succeeds, a condition on its result and the state.
\<close>

definition flow_triple ::
  "(oauth_client \<Rightarrow> bool) \<Rightarrow> (web_call \<Rightarrow> bool) \<Rightarrow> (oauth_client \<Rightarrow> bool) \<Rightarrow> 'a flow \<Rightarrow> ('a \<Rightarrow> oauth_client \<Rightarrow> bool) \<Rightarrow> bool" where
  "flow_triple inva allowed A a B \<longleftrightarrow> (\<forall>st r st'. inva st \<longrightarrow> A st \<longrightarrow> a st = (r, st') \<longrightarrow>
     inva st' \<and> (\<exists>new. ocl_calls st' = ocl_calls st @ new \<and> list_all allowed new) \<and> (\<forall>x. r = Inr x \<longrightarrow> B x st'))"

lemma flow_tripleI:
  assumes "\<And>st r st'. inva st \<Longrightarrow> A st \<Longrightarrow> a st = (r, st') \<Longrightarrow>
    inva st' \<and> (\<exists>new. ocl_calls st' = ocl_calls st @ new \<and> list_all allowed new) \<and> (\<forall>x. r = Inr x \<longrightarrow> B x st')"
  shows "flow_triple inva allowed A a B"
  using assms unfolding flow_triple_def by blast

lemma flow_tripleD:
  assumes "flow_triple inva allowed A a B" "inva st" "A st"
  shows "inva (snd (a st))" "\<exists>new. ocl_calls (snd (a st)) = ocl_calls st @ new \<and> list_all allowed new"
    "fst (a st) = Inr x \<Longrightarrow> B x (snd (a st))"
  using assms unfolding flow_triple_def by (metis prod.collapse)+

lemma flow_triple_step:
  "flow_triple inva allowed A a B \<Longrightarrow> inva st \<Longrightarrow> A st \<Longrightarrow> a st = (r, st') \<Longrightarrow>
    inva st' \<and> (\<exists>new. ocl_calls st' = ocl_calls st @ new \<and> list_all allowed new) \<and> (\<forall>x. r = Inr x \<longrightarrow> B x st')"
  by (simp add: flow_triple_def)

lemma bind_check: "flow_bind (flow_check e) k = (case e of None \<Rightarrow> k () | Some err \<Rightarrow> flow_fail err)"
  by (auto simp: fun_eq_iff flow_bind_def flow_check_def flow_return_def flow_fail_def split: option.split)

locale flow_logic =
  fixes inva :: "oauth_client \<Rightarrow> bool" and allowed :: "web_call \<Rightarrow> bool"
  assumes kept: "inva st \<Longrightarrow> inva (st\<lparr>ocl_calls := cs, ocl_moves := n\<rparr>)"
begin

lemma rule_return: "(\<And>st. inva st \<Longrightarrow> A st \<Longrightarrow> B x st) \<Longrightarrow> flow_triple inva allowed A (flow_return x) B"
  by (rule flow_tripleI) (auto simp: flow_return_def)

lemma rule_fail: "flow_triple inva allowed A (flow_fail e) B"
  by (rule flow_tripleI) (auto simp: flow_fail_def)

lemma rule_check: "(\<And>st. inva st \<Longrightarrow> A st \<Longrightarrow> e = None \<Longrightarrow> B () st) \<Longrightarrow> flow_triple inva allowed A (flow_check e) B"
  by (rule flow_tripleI) (auto simp: flow_check_def flow_return_def flow_fail_def split: option.splits)

lemma rule_look:
  assumes "\<And>st x n. inva st \<Longrightarrow> A st \<Longrightarrow> B x (st\<lparr>ocl_moves := n\<rparr>)"
  shows "flow_triple inva allowed A (flow_look f) B"
proof (rule flow_tripleI)
  fix st r st' assume "inva st" "A st" "flow_look f st = (r, st')"
  moreover have "inva (st\<lparr>ocl_moves := n\<rparr>)" for n using kept [OF \<open>inva st\<close>, where cs = "ocl_calls st" and n = n] by simp
  ultimately show "inva st' \<and> (\<exists>new. ocl_calls st' = ocl_calls st @ new \<and> list_all allowed new) \<and> (\<forall>x. r = Inr x \<longrightarrow> B x st')"
    using assms by (auto simp: flow_look_def)
qed

lemma rule_update:
  assumes "\<And>st. inva st \<Longrightarrow> A st \<Longrightarrow> inva (f st) \<and> ocl_calls (f st) = ocl_calls st \<and> B () (f st)"
  shows "flow_triple inva allowed A (flow_update f) B"
  using assms by (intro flow_tripleI) (auto simp: flow_update_def)

lemma rule_state:
  assumes "\<And>st0. inva st0 \<Longrightarrow> A st0 \<Longrightarrow> flow_triple inva allowed (\<lambda>st. st = st0) (k st0) B"
  shows "flow_triple inva allowed A (flow_state k) B"
  using assms by (intro flow_tripleI) (simp add: flow_state_def flow_triple_def)

lemma rule_bind:
  assumes "flow_triple inva allowed A a R" "\<And>x. flow_triple inva allowed (R x) (k x) B"
  shows "flow_triple inva allowed A (flow_bind a k) B"
proof (rule flow_tripleI)
  fix st r st' assume "inva st" "A st" and run: "flow_bind a k st = (r, st')"
  obtain ra s1 where a: "a st = (ra, s1)" by fastforce
  from flow_triple_step [OF assms(1) \<open>inva st\<close> \<open>A st\<close> a] obtain n1 where s1: "inva s1"
    "ocl_calls s1 = ocl_calls st @ n1" "list_all allowed n1" "\<forall>x. ra = Inr x \<longrightarrow> R x s1" by blast
  show "inva st' \<and> (\<exists>new. ocl_calls st' = ocl_calls st @ new \<and> list_all allowed new) \<and> (\<forall>x. r = Inr x \<longrightarrow> B x st')"
  proof (cases ra)
    case (Inl e)
    with run a have "st' = s1" "r = Inl e" by (simp_all add: flow_bind_def)
    with s1 show ?thesis by blast
  next
    case (Inr x)
    with run a have kx: "k x s1 = (r, st')" by (simp add: flow_bind_def)
    have "R x s1" using s1(4) Inr by simp
    from flow_triple_step [OF assms(2) s1(1) this kx] obtain n2 where s2: "inva st'" "ocl_calls st' = ocl_calls s1 @ n2"
      "list_all allowed n2" "\<forall>y. r = Inr y \<longrightarrow> B y st'" by blast
    have "ocl_calls st' = ocl_calls st @ (n1 @ n2)" "list_all allowed (n1 @ n2)" using s1(2,3) s2(2,3) by simp_all
    with s2(1,4) show ?thesis by blast
  qed
qed

lemma rule_weaken:
  "flow_triple inva allowed A a B \<Longrightarrow> (\<And>st. A' st \<Longrightarrow> A st) \<Longrightarrow> (\<And>x st. B x st \<Longrightarrow> B' x st) \<Longrightarrow> flow_triple inva allowed A' a B'"
  unfolding flow_triple_def by blast

lemma rule_checked:
  "(e = None \<Longrightarrow> flow_triple inva allowed A (k ()) B) \<Longrightarrow> flow_triple inva allowed A (flow_bind (flow_check e) k) B"
  by (auto simp: bind_check rule_fail split: option.split)

lemma rule_call: "allowed c \<Longrightarrow> flow_triple inva allowed A (do_json sr c) (\<lambda>_ _. True)"
  by (rule flow_tripleI) (auto simp: do_json_def Let_def kept split: option.splits)

text \<open>Reading documents makes only the calls that fetch them.\<close>

lemma rule_fetch_resource:
  assumes "\<And>p u. allowed (GetsJson p u)"
  shows "flow_triple inva allowed A (fetch_resource_metadata sr posture url) (\<lambda>_ _. True)"
  unfolding fetch_resource_metadata_def
  by (rule rule_bind [OF rule_call]) (auto simp: assms intro!: rule_fail rule_return)

lemma rule_locations:
  assumes "\<And>p u. allowed (GetsJson p u)"
  shows "flow_triple inva allowed A (try_locations sr ap posture ru adv locations) (\<lambda>_ _. True)"
proof (induction locations arbitrary: A)
  case (Cons l ls)
  obtain url alts where l: "l = (url, alts)" by (cases l)
  have k: "flow_triple inva allowed (\<lambda>_. True) (case document of
      None \<Rightarrow> if adv \<noteq> []
        then flow_fail (oauth_error (''protected resource metadata request to ['' @ url
          @ ''] yielded no metadata document (status ['' @ int_to_dec (int status) @ ''])''))
        else try_locations sr ap posture ru adv ls
    | Some ms \<Rightarrow> flow_bind (flow_check (require_resource_matches sr ms ru alts)) (\<lambda>_. flow_return ms)) (\<lambda>_ _. True)"
    for document status
    using Cons [of "\<lambda>_. True"]
    by (cases document; cases adv) (simp_all add: rule_fail rule_bind [where R = "\<lambda>_ _. True"] rule_check rule_return)
  show ?case unfolding l try_locations.simps
    by (rule rule_bind [where R = "\<lambda>_ _. True"], rule rule_check, simp,
        rule rule_bind [OF rule_fetch_resource [OF assms]]) (simp add: k split: prod.split)
qed (auto intro!: rule_return)

lemma rule_resource_metadata:
  assumes "\<And>p u. allowed (GetsJson p u)"
  shows "flow_triple inva allowed A (resource_metadata sr ap posture ru adv) (\<lambda>_ _. True)"
  unfolding resource_metadata_def by (auto intro!: rule_fail rule_locations assms split: sum.split)

lemma rule_metadata_urls:
  assumes "\<And>p u. allowed (GetsJson p u)"
  shows "flow_triple inva allowed A (try_metadata_urls sr posture issuer urls) (\<lambda>_ _. True)"
proof (induction urls arbitrary: A)
  case (Cons url urls)
  show ?case
  proof (rule flow_tripleI)
    fix st r st' assume i: "inva st" "A st" and run: "try_metadata_urls sr posture issuer (url # urls) st = (r, st')"
    obtain ra s1 where d: "do_json sr (GetsJson posture url) st = (ra, s1)" by fastforce
    with rule_call [OF assms, of "\<lambda>_. True" sr posture url] i(1) obtain n1 where s1: "inva s1" "ocl_calls s1 = ocl_calls st @ n1"
      "list_all allowed n1" unfolding flow_triple_def by blast
    show "inva st' \<and> (\<exists>new. ocl_calls st' = ocl_calls st @ new \<and> list_all allowed new) \<and> (\<forall>x. r = Inr x \<longrightarrow> True)"
    proof (cases "try_metadata_urls sr posture issuer urls s1 = (r, st')")
      case True
      with Cons [of "\<lambda>_. True"] s1 obtain n2 where "inva st'" "ocl_calls st' = ocl_calls s1 @ n2" "list_all allowed n2"
        unfolding flow_triple_def by blast
      with s1 show ?thesis by auto
    next
      case False
      with run d have "st' = s1" by (auto split: sum.splits prod.splits option.splits if_splits)
      with s1 show ?thesis by auto
    qed
  qed
qed (auto intro!: rule_fail)

lemma rule_fetch_metadata:
  assumes "\<And>p u. allowed (GetsJson p u)"
  shows "flow_triple inva allowed A (fetch_metadata sr posture issuer) (\<lambda>_ _. True)"
  unfolding fetch_metadata_def by (auto intro!: rule_fail rule_metadata_urls assms split: sum.split)

end
text \<open>A server whose issuer and endpoints passed the checks of their URLs.\<close>

definition checked_server :: "surroundings \<Rightarrow> bool \<Rightarrow> bytes \<Rightarrow> auth_server \<Rightarrow> bool" where
  "checked_server sr ap resource_url server \<longleftrightarrow> (\<forall>url \<in> {asv_issuer server, asv_authorization_endpoint server, asv_token_endpoint server}
       \<union> (if asv_registration_endpoint server = [] then {} else {asv_registration_endpoint server}).
     require_fetchable sr ap url resource_url = None)"

lemma require_endpoints_checked:
  "require_endpoints sr ap ru server = None \<Longrightarrow> require_fetchable sr ap (asv_issuer server) ru = None
    \<Longrightarrow> checked_server sr ap ru server"
  by (auto simp: require_endpoints_def checked_server_def split: option.splits if_splits)

context flow_logic begin

lemma rule_discover_servers:
  assumes "\<And>p u. allowed (GetsJson p u)"
  shows "flow_triple inva allowed A (discover_servers sr ap given adv)
    (\<lambda>d st. checked_server sr ap (before_fragment given) (dsr_server d))"
proof -
  let ?ru = "before_fragment given"
  have "flow_triple inva allowed (\<lambda>_. True) (flow_bind (flow_check (require_fetchable sr ap issuer ?ru)) (\<lambda>_.
      flow_bind (fetch_metadata sr posture issuer) (\<lambda>server.
        if issuer \<noteq> asv_issuer server
        then flow_fail (oauth_error (''authorization server issuer ['' @ asv_issuer server
          @ ''] did not match the expected issuer ['' @ issuer @ '']''))
        else flow_bind (flow_check (require_endpoints sr ap ?ru server)) (\<lambda>_.
               flow_return \<lparr>dsr_server = server, dsr_scopes = list_field metadata ''scopes_supported''\<rparr>))))
    (\<lambda>d st. checked_server sr ap ?ru (dsr_server d))" for issuer posture metadata
    by (rule rule_checked, rule rule_bind [OF rule_fetch_metadata [OF assms]])
      (auto intro!: rule_fail rule_checked rule_return dest: require_endpoints_checked)
  note step = this
  show ?thesis unfolding discover_servers_def Let_def
    by (rule rule_bind [OF rule_resource_metadata [OF assms]]) (auto intro!: rule_fail step split: sum.split)
qed

end

locale oauth_logic = flow_logic inva allowed
  for inva :: "oauth_client \<Rightarrow> bool" and allowed :: "web_call \<Rightarrow> bool" +
  fixes sr :: surroundings
  assumes learns: "inva st \<Longrightarrow> checked_server sr (occ_allow_private (ocl_config st)) (before_fragment (ocl_resource_url st)) (dsr_server d)
      \<Longrightarrow> inva (st\<lparr>ocl_discovered := Some (d, at)\<rparr>)"
    and registers: "inva st \<Longrightarrow> inva (st\<lparr>ocl_registration := r\<rparr>)"
    and stays: "inva st \<Longrightarrow> inva st' \<Longrightarrow> ocl_config st' = ocl_config st \<and> ocl_resource_url st' = ocl_resource_url st"
    and reads: "allowed (GetsJson p u)"
begin

lemma rule_discover_metadata: "flow_triple inva allowed A (discover_metadata sr) (\<lambda>d st. \<exists>at. ocl_discovered st = Some (d, at))"
proof -
  have s: "flow_triple inva allowed (\<lambda>st. st = st0)
      (flow_bind (discover_servers sr (occ_allow_private (ocl_config st0)) (ocl_resource_url st0) (ocl_resource_metadata_url st0))
         (\<lambda>d. flow_bind (flow_look (sr_now sr)) (\<lambda>at. flow_bind (flow_update (\<lambda>st. st\<lparr>ocl_discovered := Some (d, at)\<rparr>)) (\<lambda>_. flow_return d))))
      (\<lambda>d st. \<exists>at. ocl_discovered st = Some (d, at))" if i: "inva st0" for st0
  proof (rule rule_bind [OF rule_discover_servers [OF reads]])
    fix d :: discovery_result
    let ?c = "checked_server sr (occ_allow_private (ocl_config st0)) (before_fragment (ocl_resource_url st0)) (dsr_server d)"
    show "flow_triple inva allowed (\<lambda>st. ?c) (flow_bind (flow_look (sr_now sr)) (\<lambda>at.
        flow_bind (flow_update (\<lambda>st. st\<lparr>ocl_discovered := Some (d, at)\<rparr>)) (\<lambda>_. flow_return d)))
      (\<lambda>d st. \<exists>at. ocl_discovered st = Some (d, at))"
    proof (rule rule_bind [where R = "\<lambda>_ _. ?c"], rule rule_look, assumption)
      fix at
      show "flow_triple inva allowed (\<lambda>st. ?c) (flow_bind (flow_update (\<lambda>st. st\<lparr>ocl_discovered := Some (d, at)\<rparr>)) (\<lambda>_. flow_return d))
        (\<lambda>d st. \<exists>at. ocl_discovered st = Some (d, at))"
      proof (rule rule_bind [where R = "\<lambda>_ st. ocl_discovered st = Some (d, at)"], rule rule_update)
        fix st assume st: "inva st" ?c
        then show "inva (st\<lparr>ocl_discovered := Some (d, at)\<rparr>) \<and> ocl_calls (st\<lparr>ocl_discovered := Some (d, at)\<rparr>) = ocl_calls st
            \<and> ocl_discovered (st\<lparr>ocl_discovered := Some (d, at)\<rparr>) = Some (d, at)"
          using learns [of st d at] stays [OF i st(1)] by simp
      next
        show "flow_triple inva allowed (\<lambda>st. ocl_discovered st = Some (d, at)) (flow_return d)
            (\<lambda>d st. \<exists>at. ocl_discovered st = Some (d, at))" by (rule rule_return) blast
      qed
    qed
  qed
  show ?thesis unfolding discover_metadata_def
    by (rule rule_bind [where R = "\<lambda>_ _. True"], rule rule_look, simp, rule rule_state)
      (auto simp: memoized_discovery_def intro!: rule_return s split: option.split prod.split)
qed

lemma rule_discover:
  "flow_triple inva allowed A (oauth_discover sr) (\<lambda>d st. (\<exists>at. ocl_discovered st = Some (d, at))
     \<and> require_configured_issuer (ocl_config st) (asv_issuer (dsr_server d)) = None)"
  unfolding oauth_discover_def
  by (rule rule_bind [OF rule_discover_metadata], rule rule_state, rule rule_checked, rule rule_return) auto

lemma rule_discover_from:
  "flow_triple inva allowed (\<lambda>s. s = st) (oauth_discover sr) (\<lambda>d s. fst (oauth_discover sr st) = Inr d
     \<and> require_configured_issuer (ocl_config s) (asv_issuer (dsr_server d)) = None)"
  using rule_discover [of "\<lambda>s. s = st"] unfolding flow_triple_def by (metis fst_conv)

lemma rule_request_token:
  assumes "\<And>st. inva st \<Longrightarrow> A st \<Longrightarrow> require_configured_credentials (ocl_config st) issuer client_id client_secret = None \<Longrightarrow>
    allowed (PostsForm (ocl_posture st) endpoint (fst (authenticated_form form client_id client_secret auth_method))
      (snd (authenticated_form form client_id client_secret auth_method)))"
  shows "flow_triple inva allowed A (request_token sr issuer endpoint form client_id client_secret auth_method) (\<lambda>_ _. True)"
  unfolding request_token_def
proof (rule rule_state, rule rule_checked)
  fix st assume "inva st" "A st" "require_configured_credentials (ocl_config st) issuer client_id client_secret = None"
  then have c: "allowed (PostsForm (ocl_posture st) endpoint (fst (authenticated_form form client_id client_secret auth_method))
      (snd (authenticated_form form client_id client_secret auth_method)))" by (rule assms)
  have t: "flow_triple inva allowed (\<lambda>_. True) (token_from sr issuer endpoint answer) (\<lambda>_ _. True)" for answer
    unfolding token_from_def
    by (auto intro!: rule_fail rule_checked rule_bind [where R = "\<lambda>_ _. True"] rule_look rule_return split: prod.split)
  show "flow_triple inva allowed (\<lambda>s. s = st) (case authenticated_form form client_id client_secret auth_method of (full, basic) \<Rightarrow>
      flow_bind (do_json sr (PostsForm (ocl_posture st) endpoint full basic)) (token_from sr issuer endpoint)) (\<lambda>_ _. True)"
    using c by (auto intro!: rule_bind [OF rule_call t] split: prod.split)
qed

lemma rule_register_client:
  assumes "\<And>p m. allowed (PostsJson p endpoint m)"
  shows "flow_triple inva allowed A (register_client sr posture endpoint redirect_uri scope kind auth_method) (\<lambda>_ _. True)"
  unfolding register_client_def
  by (rule rule_bind [OF rule_call [OF assms]]) (auto simp: Let_def intro!: rule_fail rule_return split: prod.split)

lemma rule_resolve_registration:
  assumes "\<And>p m. allowed (PostsJson p (asv_registration_endpoint (dsr_server d)) m)"
  shows "flow_triple inva allowed A (resolve_registration sr d redirect_uri) (\<lambda>_ _. True)"
proof -
  have r: "flow_triple inva allowed (\<lambda>st. st = s0) (flow_bind (register_client sr p (asv_registration_endpoint (dsr_server d)) redirect_uri
        scope kind auth_method) (\<lambda>reg. flow_bind (flow_look (sr_now sr)) (\<lambda>at.
          flow_bind (flow_update (\<lambda>st. st\<lparr>ocl_registration := Some (reg, at, issued_by)\<rparr>)) (\<lambda>_. flow_return reg)))) (\<lambda>_ _. True)"
    for p scope kind auth_method issued_by s0
    by (rule rule_bind [OF rule_register_client [OF assms]], rule rule_bind [where R = "\<lambda>_ _. True"], rule rule_look, simp,
        rule rule_bind [where R = "\<lambda>_ _. True"], rule rule_update) (auto simp: registers intro!: rule_return)
  show ?thesis unfolding resolve_registration_def Let_def
    by (rule rule_state) (auto intro!: rule_return rule_fail rule_state r rule_bind [where R = "\<lambda>_ _. True"] rule_look
        split: option.split)
qed

end

section \<open>Clients\<close>

datatype oauth_op =
  StartsAuthorization bytes | ExchangesCode "pending_authorization option" callback_query
  | UsesClientCredentials | RefreshesToken "token_set option"

fun oauth_run :: "surroundings \<Rightarrow> oauth_op \<Rightarrow> oauth_client \<Rightarrow> oauth_client" where
  "oauth_run sr (StartsAuthorization return_to) st = snd (authorization_url sr return_to st)"
| "oauth_run sr (ExchangesCode pending q) st = snd (exchange_code sr pending q st)"
| "oauth_run sr UsesClientCredentials st = snd (client_credentials sr st)"
| "oauth_run sr (RefreshesToken tok) st = snd (refresh_token sr tok st)"

inductive oauth_reaches :: "surroundings \<Rightarrow> oauth_client \<Rightarrow> oauth_client \<Rightarrow> bool" for sr start where
  reaches_start: "oauth_reaches sr start start"
| reaches_run: "oauth_reaches sr start st \<Longrightarrow> oauth_reaches sr start (oauth_run sr operation st)"

text \<open>What a client was built with, and that the server it remembers was checked.\<close>

definition built_with :: "surroundings \<Rightarrow> oauth_client_config \<Rightarrow> bytes \<Rightarrow> oauth_client \<Rightarrow> bool" where
  "built_with sr cfg resource_url st \<longleftrightarrow> ocl_config st = cfg \<and> ocl_resource_url st = resource_url
     \<and> (\<forall>d at. ocl_discovered st = Some (d, at)
          \<longrightarrow> checked_server sr (occ_allow_private cfg) (before_fragment resource_url) (dsr_server d))"

text \<open>Whether a request carries the configured client id or secret.\<close>

definition form_value :: "(bytes \<times> bytes) list \<Rightarrow> bytes \<Rightarrow> bytes" where
  "form_value form key = (case map_of form key of None \<Rightarrow> [] | Some v \<Rightarrow> v)"

definition presented_credentials :: "web_call \<Rightarrow> bytes \<times> bytes" where
  "presented_credentials c =
     (case c of
        PostsForm p u form basic \<Rightarrow>
          (case basic of Some credentials \<Rightarrow> credentials
           | None \<Rightarrow> (form_value form ''client_id'', form_value form ''client_secret''))
      | _ \<Rightarrow> ([], []))"

definition carries_configured :: "oauth_client_config \<Rightarrow> web_call \<Rightarrow> bool" where
  "carries_configured cfg c = (presents_configured (occ_client_id cfg) (fst (presented_credentials c))
     \<or> presents_configured (occ_client_secret cfg) (snd (presented_credentials c)))"

text \<open>The authorization server a token request of an operation is for: its issuer and token endpoint.\<close>

definition token_target :: "surroundings \<Rightarrow> oauth_op \<Rightarrow> oauth_client \<Rightarrow> bytes \<Rightarrow> bytes \<Rightarrow> bool" where
  "token_target sr operation st issuer endpoint =
     (case operation of
        ExchangesCode (Some pending) q \<Rightarrow> issuer = pa_issuer pending \<and> endpoint = pa_token_endpoint pending
      | _ \<Rightarrow> (case fst (oauth_discover sr st) of
               Inr d \<Rightarrow> issuer = asv_issuer (dsr_server d) \<and> endpoint = asv_token_endpoint (dsr_server d)
             | Inl e \<Rightarrow> False))"

definition call_permitted :: "surroundings \<Rightarrow> oauth_client_config \<Rightarrow> oauth_op \<Rightarrow> oauth_client \<Rightarrow> web_call \<Rightarrow> bool" where
  "call_permitted sr cfg operation st c =
     (case c of
        GetsJson p u \<Rightarrow> True
      | PostsJson p u m \<Rightarrow>
          (case fst (oauth_discover sr st) of Inr d \<Rightarrow> u = asv_registration_endpoint (dsr_server d) | Inl e \<Rightarrow> False)
      | PostsForm p u form basic \<Rightarrow>
          (\<exists>issuer. token_target sr operation st issuer u
             \<and> (occ_issuer cfg \<noteq> [] \<longrightarrow> issuer = occ_issuer cfg)
             \<and> (carries_configured cfg c \<longrightarrow> occ_issuer cfg \<noteq> [])
             \<and> (\<forall>v. (''refresh_token'', v) \<in> set form \<longrightarrow>
                  (\<exists>tok. operation = RefreshesToken (Some tok) \<and> v = tks_refresh tok \<and> issuer = tks_issuer tok \<and> issuer \<noteq> []))))"

interpretation builds: oauth_logic "built_with sr cfg ru" "call_permitted sr cfg operation start" sr for sr cfg ru operation start
  by unfold_locales (auto simp: built_with_def call_permitted_def)

lemma configured_credentials_named:
  "require_configured_credentials cfg issuer client_id client_secret = None \<Longrightarrow>
    form_value form ''client_id'' = [] \<Longrightarrow> form_value form ''client_secret'' = [] \<Longrightarrow>
    carries_configured cfg (PostsForm p u (fst (authenticated_form form client_id client_secret m))
      (snd (authenticated_form form client_id client_secret m))) \<Longrightarrow> occ_issuer cfg \<noteq> []"
  by (auto simp: carries_configured_def presented_credentials_def authenticated_form_def form_value_def presents_configured_def
      require_configured_credentials_def map_add_def split: if_splits option.splits)

lemma authenticated_form_tokens:
  "(''refresh_token'', v) \<in> set (fst (authenticated_form form client_id client_secret m)) \<Longrightarrow> (''refresh_token'', v) \<in> set form"
  by (auto simp: authenticated_form_def split: if_splits)

text \<open>A token request to its target, with the configured issuer if one is configured.\<close>

lemma token_call_permitted:
  assumes "token_target sr operation st issuer endpoint"
    and "require_configured_credentials cfg issuer client_id client_secret = None" "require_configured_issuer cfg issuer = None"
    and "form_value form ''client_id'' = []" "form_value form ''client_secret'' = []"
    and "\<And>v. (''refresh_token'', v) \<in> set form \<Longrightarrow>
      \<exists>tok. operation = RefreshesToken (Some tok) \<and> v = tks_refresh tok \<and> issuer = tks_issuer tok \<and> issuer \<noteq> []"
  shows "call_permitted sr cfg operation st (PostsForm p endpoint (fst (authenticated_form form client_id client_secret m))
    (snd (authenticated_form form client_id client_secret m)))"
proof -
  have "occ_issuer cfg \<noteq> [] \<longrightarrow> issuer = occ_issuer cfg"
    using assms(3) by (auto simp: require_configured_issuer_def split: if_splits)
  with assms(1,6) configured_credentials_named [OF assms(2,4,5)] authenticated_form_tokens show ?thesis
    unfolding call_permitted_def by (simp del: authenticated_form_def) blast
qed

text \<open>Each operation, from the state it starts in.\<close>

lemma discovered_target:
  assumes "fst (oauth_discover sr st) = Inr d" "\<And>p q. operation \<noteq> ExchangesCode (Some p) q"
  shows "token_target sr operation st (asv_issuer (dsr_server d)) (asv_token_endpoint (dsr_server d))"
  using assms by (auto simp: token_target_def split: oauth_op.split option.split)

lemma permitted_refresh:
  "flow_triple (built_with sr cfg ru) (call_permitted sr cfg (RefreshesToken held) st) (\<lambda>s. s = st) (refresh_token sr held) (\<lambda>_ _. True)"
proof -
  let ?c = "call_permitted sr cfg (RefreshesToken held) st"
  have r: "flow_triple (built_with sr cfg ru) ?c
      (\<lambda>s. fst (oauth_discover sr st) = Inr d \<and> require_configured_issuer (ocl_config s) (asv_issuer (dsr_server d)) = None)
      (flow_bind (flow_check (require_same_issuer (tks_issuer tok) (asv_issuer (dsr_server d)))) (\<lambda>_. flow_state (\<lambda>st.
         case refresh_identity (ocl_config st) tok of (client_id, client_secret) \<Rightarrow>
           flow_bind (request_token sr (asv_issuer (dsr_server d)) (asv_token_endpoint (dsr_server d))
               [(''grant_type'', ''refresh_token''), (''refresh_token'', tks_refresh tok), (''resource'', ocl_resource_url st)]
               client_id client_secret (resolve_auth_method (dsr_server d) client_secret)) (\<lambda>fresh.
             flow_return (fresh\<lparr>tks_client_id := client_id, tks_client_secret := client_secret\<rparr>)))))
      (\<lambda>_ _. True)" if "held = Some tok" for d tok
    by (rule builds.rule_checked, rule builds.rule_state, simp split: prod.split, intro allI impI,
        rule builds.rule_bind [where R = "\<lambda>_ _. True"], rule builds.rule_request_token)
      (auto simp: built_with_def form_value_def that require_same_issuer_def discovered_target split: if_splits
        intro!: token_call_permitted builds.rule_return)
  show ?thesis
  proof (cases held)
    case (Some tok)
    with builds.rule_bind [OF builds.rule_discover_from r [OF Some]] show ?thesis
      by (simp add: refresh_token_def builds.rule_fail)
  qed (simp add: refresh_token_def builds.rule_fail)
qed

lemma permitted_client_credentials:
  "flow_triple (built_with sr cfg ru) (call_permitted sr cfg UsesClientCredentials st) (\<lambda>s. s = st) (client_credentials sr) (\<lambda>_ _. True)"
  unfolding client_credentials_def
proof (rule builds.rule_state)
  fix s assume s: "built_with sr cfg ru s" "s = st"
  let ?c = "call_permitted sr cfg UsesClientCredentials st"
  have "flow_triple (built_with sr cfg ru) ?c
      (\<lambda>s. fst (oauth_discover sr st) = Inr d \<and> require_configured_issuer (ocl_config s) (asv_issuer (dsr_server d)) = None)
      (flow_state (\<lambda>s. let scope = resolve_scope s d
         in request_token sr (asv_issuer (dsr_server d)) (asv_token_endpoint (dsr_server d))
              ([(''grant_type'', ''client_credentials''), (''resource'', ocl_resource_url s)]
                @ (if scope \<noteq> [] then [(''scope'', scope)] else []))
              (occ_client_id cfg) (occ_client_secret cfg) (resolve_auth_method (dsr_server d) (occ_client_secret cfg))))
      (\<lambda>_ _. True)" for d
    unfolding Let_def
    by (rule builds.rule_state, rule builds.rule_request_token)
      (auto simp: built_with_def form_value_def discovered_target intro!: token_call_permitted)
  moreover have "ocl_config s = cfg" using s by (simp add: built_with_def)
  ultimately show "flow_triple (built_with sr cfg ru) ?c (\<lambda>t. t = s)
      (let cfg = ocl_config s
       in if occ_client_id cfg = [] then flow_fail (oauth_error ''a client_id is required for the client_credentials grant'')
          else flow_bind (oauth_discover sr) (\<lambda>d. flow_state (\<lambda>st.
                 let scope = resolve_scope st d
                 in request_token sr (asv_issuer (dsr_server d)) (asv_token_endpoint (dsr_server d))
                      ([(''grant_type'', ''client_credentials''), (''resource'', ocl_resource_url st)]
                        @ (if scope \<noteq> [] then [(''scope'', scope)] else []))
                      (occ_client_id cfg) (occ_client_secret cfg)
                      (resolve_auth_method (dsr_server d) (occ_client_secret cfg))))) (\<lambda>_ _. True)"
    using s(2) by (simp add: Let_def builds.rule_fail builds.rule_bind [OF builds.rule_discover_from])
qed

lemma permitted_exchange:
  "flow_triple (built_with sr cfg ru) (call_permitted sr cfg (ExchangesCode held q) st) (\<lambda>s. s = st) (exchange_code sr held q) (\<lambda>_ _. True)"
proof (cases held)
  case None
  then show ?thesis by (simp add: exchange_code_def builds.rule_fail)
next
  case (Some pending)
  have t: "token_target sr (ExchangesCode (Some pending) q) st (pa_issuer pending) (pa_token_endpoint pending)"
    by (simp add: token_target_def)
  show ?thesis unfolding Some exchange_code_def option.case
    by (rule builds.rule_state, rule builds.rule_checked, rule builds.rule_checked, rule builds.rule_checked)
      (auto simp: built_with_def form_value_def code_form_def
        intro!: builds.rule_fail builds.rule_checked builds.rule_bind [where R = "\<lambda>_ _. True"] builds.rule_request_token
          builds.rule_return token_call_permitted [OF t])
qed

lemma permitted_authorization:
  "flow_triple (built_with sr cfg ru) (call_permitted sr cfg (StartsAuthorization return_to) st) (\<lambda>s. s = st)
    (authorization_url sr return_to) (\<lambda>_ _. True)"
proof -
  let ?c = "call_permitted sr cfg (StartsAuthorization return_to) st"
  have b: "flow_triple (built_with sr cfg ru) ?c (\<lambda>_. True) (begin_authorization sr return_to d identity) (\<lambda>_ _. True)" for d identity
    unfolding begin_authorization_def generate_pkce_def Let_def
    by (simp split: prod.split, intro allI impI, rule builds.rule_state, rule builds.rule_checked,
        rule builds.rule_bind [where R = "\<lambda>_ _. True"], rule builds.rule_bind [where R = "\<lambda>_ _. True"], rule builds.rule_look)
      (auto intro!: builds.rule_fail builds.rule_return builds.rule_bind [where R = "\<lambda>_ _. True"] builds.rule_look split: option.split)
  have f: "flow_triple (built_with sr cfg ru) ?c (\<lambda>_. fst (oauth_discover sr st) = Inr d) (flow_identity sr d) (\<lambda>_ _. True)" for d
  proof (cases "fst (oauth_discover sr st) = Inr d")
    case True
    then have "?c (PostsJson p (asv_registration_endpoint (dsr_server d)) m)" for p m by (simp add: call_permitted_def)
    note r = builds.rule_resolve_registration [OF this]
    show ?thesis unfolding flow_identity_def Let_def
      by (rule builds.rule_state) (auto intro!: builds.rule_return builds.rule_bind [OF r])
  qed (simp add: flow_triple_def)
  show ?thesis unfolding authorization_url_def
    by (rule builds.rule_bind [OF builds.rule_discover_from], rule builds.rule_checked, rule builds.rule_state)
      (auto intro!: builds.rule_fail builds.rule_bind [OF _ b] builds.rule_weaken [OF f])
qed

section \<open>Properties\<close>

lemma permitted_operation:
  "flow_triple (built_with sr cfg ru) (call_permitted sr cfg operation st) (\<lambda>s. s = st)
     (\<lambda>s. (Inr () :: oauth_error + unit, oauth_run sr operation s)) (\<lambda>_ _. True)"
proof -
  show ?thesis
  proof (cases operation)
    case (StartsAuthorization x)
    then show ?thesis unfolding flow_triple_def
      using flow_triple_step [OF permitted_authorization [of sr cfg ru x st]] by (auto simp: prod_eq_iff)
  next
    case (ExchangesCode x q)
    then show ?thesis unfolding flow_triple_def
      using flow_triple_step [OF permitted_exchange [of sr cfg ru x q st]] by (auto simp: prod_eq_iff)
  next
    case UsesClientCredentials
    then show ?thesis unfolding flow_triple_def
      using flow_triple_step [OF permitted_client_credentials [of sr cfg ru st]] by (auto simp: prod_eq_iff)
  next
    case (RefreshesToken x)
    then show ?thesis unfolding flow_triple_def
      using flow_triple_step [OF permitted_refresh [of sr cfg ru x st]] by (auto simp: prod_eq_iff)
  qed
qed

lemma before_fragment_again: "before_fragment (before_fragment u) = before_fragment u"
  by (simp add: before_fragment_def)

lemma reaches_built:
  assumes "oauth_reaches sr (new_oauth_client sr cfg url mu cs) st"
  shows "built_with sr cfg (before_fragment url) st"
  using assms
proof (induction rule: oauth_reaches.induct)
  case reaches_start
  show ?case by (simp add: built_with_def new_oauth_client_def)
next
  case (reaches_run st operation)
  then show ?case using flow_triple_step [OF permitted_operation [of sr cfg "before_fragment url" operation st] _ refl refl] by blast
qed

text \<open>
  C28. Credentials stay with the server they belong to: over whatever a client is asked to do and whatever
  the servers answer, it sends a token request to the token endpoint of the authorization server the
  flow is for and nowhere else; that server is the configured one where one is configured, and must be
  wherever the configured client id or secret is presented; a refresh token is only ever sent to the
  server that issued it.
\<close>

theorem credentials_stay_home:
  assumes "oauth_reaches sr (new_oauth_client sr cfg url mu cs) st"
  shows "\<exists>calls. ocl_calls (oauth_run sr operation st) = ocl_calls st @ calls
    \<and> (\<forall>p u form basic. PostsForm p u form basic \<in> set calls \<longrightarrow>
        (\<exists>issuer. token_target sr operation st issuer u \<and> (occ_issuer cfg \<noteq> [] \<longrightarrow> issuer = occ_issuer cfg)
           \<and> (carries_configured cfg (PostsForm p u form basic) \<longrightarrow> occ_issuer cfg \<noteq> [])
           \<and> (\<forall>v. (''refresh_token'', v) \<in> set form \<longrightarrow>
                (\<exists>tok. operation = RefreshesToken (Some tok) \<and> v = tks_refresh tok \<and> issuer = tks_issuer tok \<and> issuer \<noteq> []))))"
proof -
  from flow_triple_step [OF permitted_operation reaches_built [OF assms] refl refl]
  obtain calls where "ocl_calls (oauth_run sr operation st) = ocl_calls st @ calls"
    "list_all (call_permitted sr cfg operation st) calls" by blast
  then show ?thesis by (fastforce simp: list_all_iff call_permitted_def)
qed

definition demo_surroundings :: surroundings where
  "demo_surroundings =
     \<lparr>sr_parse = demo_parse, sr_print = (\<lambda>u. pu_scheme u @ ''://'' @ pu_host u @ pu_path u),
      sr_with_query = (\<lambda>u ps. pu_scheme u @ ''://'' @ pu_host u @ pu_path u @ ''?'' @ join_with ''&'' (map (\<lambda>(k, v). k @ ''='' @ v) ps)),
      sr_address = (\<lambda>h. None),
      sr_answer = (\<lambda>n c. case c of
          GetsJson p u \<Rightarrow>
            if u = ''https://r.example/.well-known/oauth-protected-resource/mcp''
            then Some (200, ''{\"resource\":\"https://r.example/mcp\",\"authorization_servers\":[\"https://a.example\"]}'')
            else if u = ''https://a.example/.well-known/oauth-authorization-server''
            then Some (200, ''{\"issuer\":\"https://a.example\",\"authorization_endpoint\":\"https://a.example/go\",''
              @ ''\"token_endpoint\":\"https://a.example/token\",\"code_challenge_methods_supported\":[\"S256\"]}'')
            else Some (404, [])
        | PostsForm p u form basic \<Rightarrow> Some (200, ''{\"access_token\":\"t\"}'')
        | PostsJson p u m \<Rightarrow> None),
      sr_now = (\<lambda>n. 0), sr_random = (\<lambda>n k. Some (replicate k (CHR ''r''))), sr_state = (\<lambda>n k. Some ''state''),
      sr_digest = (\<lambda>s. rev s)\<rparr>"

definition demo_client_config :: oauth_client_config where
  "demo_client_config = \<lparr>occ_client_id = ''app'', occ_client_secret = ''hush'', occ_issuer = ''https://a.example'',
     occ_scope = [], occ_redirect_uri = ''https://app.example/cb'', occ_client_id_metadata_url = [], occ_allow_private = False\<rparr>"

definition demo_oauth_client :: oauth_client where
  "demo_oauth_client = new_oauth_client demo_surroundings demo_client_config ''https://r.example/mcp'' [] []"

theorem credentials_stay_home_witness:
  "\<exists>p form basic. PostsForm p ''https://a.example/token'' form basic \<in> set (ocl_calls (oauth_run demo_surroundings UsesClientCredentials demo_oauth_client))
     \<and> carries_configured demo_client_config (PostsForm p ''https://a.example/token'' form basic)
     \<and> token_target demo_surroundings UsesClientCredentials demo_oauth_client ''https://a.example'' ''https://a.example/token''"
proof -
  let ?calls = "ocl_calls (oauth_run demo_surroundings UsesClientCredentials demo_oauth_client)"
  let ?posts = "filter (\<lambda>c. case c of PostsForm p u f b \<Rightarrow> True | _ \<Rightarrow> False) ?calls"
  have e: "map (\<lambda>c. (call_endpoint c, carries_configured demo_client_config c)) ?posts = [(''https://a.example/token'', True)]"
    by code_simp
  then obtain c where c: "?posts = [c]" "call_endpoint c = ''https://a.example/token''"
    "carries_configured demo_client_config c" by (cases ?posts) auto
  then have "c \<in> set ?posts" by simp
  with c(2) obtain p form basic where p: "c = PostsForm p ''https://a.example/token'' form basic" "c \<in> set ?calls"
    by (auto simp: call_endpoint_def split: web_call.splits)
  have n: "ocl_calls demo_oauth_client = []" "occ_issuer demo_client_config = ''https://a.example''"
    by (simp_all add: demo_oauth_client_def new_oauth_client_def demo_client_config_def)
  have "\<exists>issuer. token_target demo_surroundings UsesClientCredentials demo_oauth_client issuer ''https://a.example/token''
      \<and> (occ_issuer demo_client_config \<noteq> [] \<longrightarrow> issuer = occ_issuer demo_client_config)"
    using credentials_stay_home [OF oauth_reaches.reaches_start, where sr = demo_surroundings and cfg = demo_client_config
        and url = "''https://r.example/mcp''" and mu = "[]" and cs = "[]" and operation = UsesClientCredentials,
        folded demo_oauth_client_def] p(2) n(1) unfolding p(1) by simp blast
  with c(3) p n(2) show ?thesis by auto
qed

text \<open>
  C29. A client never follows a resource into the network it runs in: unless private hosts are allowed, the
  issuer and every endpoint of the server it remembers is served over HTTPS or on a loopback name, and
  none of them has a host that is a loopback name or an internal address, but a loopback name where the
  resource itself is on one.
\<close>

theorem remembered_server_checked:
  assumes "oauth_reaches sr (new_oauth_client sr cfg url mu cs) st" "ocl_discovered st = Some (d, at)"
    and "\<not> occ_allow_private cfg"
    and "endpoint \<in> {asv_issuer (dsr_server d), asv_authorization_endpoint (dsr_server d), asv_token_endpoint (dsr_server d),
      asv_registration_endpoint (dsr_server d)}" "endpoint \<noteq> []"
  shows "\<exists>u r. sr_parse sr endpoint = Some u \<and> sr_parse sr (before_fragment url) = Some r \<and> pu_host u \<noteq> []
    \<and> (pu_scheme u = ''https'' \<or> is_localhost (normalized_host (pu_hostname u)))
    \<and> (is_internal_host sr (normalized_host (pu_hostname u))
        \<longrightarrow> is_localhost (normalized_host (pu_hostname u)) \<and> is_localhost (normalized_host (pu_hostname r)))"
proof -
  from reaches_built [OF assms(1)] assms(2) have "checked_server sr (occ_allow_private cfg) (before_fragment url) (dsr_server d)"
    by (simp add: built_with_def before_fragment_again)
  with assms(4,5) have "require_fetchable sr (occ_allow_private cfg) endpoint (before_fragment url) = None"
    by (auto simp: checked_server_def)
  then have s: "require_secure sr endpoint = None" "require_not_internal sr endpoint (before_fragment url) = None"
    using assms(3) by (auto simp: require_fetchable_def require_secure_url_def require_external_url_def split: option.splits)
  from s(1) obtain u where u: "sr_parse sr endpoint = Some u" "pu_host u \<noteq> []"
    "pu_scheme u = ''https'' \<or> is_localhost (normalized_host (pu_hostname u))"
    by (auto simp: require_secure_def located_def split: option.splits if_splits)
  with s(2) show ?thesis by (auto simp: require_not_internal_def Let_def split: option.splits if_splits)
qed

theorem remembered_server_checked_witness:
  "\<exists>d at u. ocl_discovered (oauth_run demo_surroundings UsesClientCredentials demo_oauth_client) = Some (d, at)
     \<and> demo_parse (asv_token_endpoint (dsr_server d)) = Some u
     \<and> (pu_scheme u = ''https'' \<or> is_localhost (normalized_host (pu_hostname u)))"
proof -
  let ?st = "oauth_run demo_surroundings UsesClientCredentials demo_oauth_client"
  have "case ocl_discovered ?st of None \<Rightarrow> False | Some (d, at) \<Rightarrow> asv_token_endpoint (dsr_server d) \<noteq> []" by code_simp
  then obtain d at where d: "ocl_discovered ?st = Some (d, at)" "asv_token_endpoint (dsr_server d) \<noteq> []"
    by (auto split: option.splits)
  have r: "oauth_reaches demo_surroundings (new_oauth_client demo_surroundings demo_client_config ''https://r.example/mcp'' [] []) ?st"
    unfolding demo_oauth_client_def by (rule oauth_reaches.reaches_run [OF oauth_reaches.reaches_start])
  have p: "sr_parse demo_surroundings = demo_parse" by (simp add: demo_surroundings_def)
  have "\<not> occ_allow_private demo_client_config" by (simp add: demo_client_config_def)
  from remembered_server_checked [OF r d(1) this, of "asv_token_endpoint (dsr_server d)"] d show ?thesis
    unfolding p by auto
qed

definition answers_request :: "pending_authorization \<Rightarrow> callback_query \<Rightarrow> bool" where
  "answers_request pending q \<longleftrightarrow> pa_state pending \<noteq> [] \<and> q ''state'' = pa_state pending
     \<and> (if q ''iss'' = [] then \<not> pa_issuer_supported pending else q ''iss'' = pa_issuer pending)"

lemma answers_request_checks:
  "answers_request pending q \<longleftrightarrow> validate_state pending (q ''state'') = None \<and> validate_issuer pending (q ''iss'') = None"
  by (auto simp: answers_request_def validate_state_def validate_issuer_def)

lemma request_token_once:
  "\<exists>new. ocl_calls (snd (request_token sr issuer endpoint form i s m st)) = ocl_calls st @ new
     \<and> (new = [] \<or> (\<exists>p. new = [PostsForm p endpoint (fst (authenticated_form form i s m)) (snd (authenticated_form form i s m))]))"
proof -
  have "ocl_calls (snd (token_from sr issuer endpoint answer st1)) = ocl_calls st1" for answer st1
    by (auto simp: token_from_def flow_defs split: prod.split option.split)
  then show ?thesis
    by (auto simp: request_token_def flow_state_def bind_check flow_fail_def flow_bind_def do_json_def Let_def
        split: option.split prod.split sum.split)
qed

text \<open>
  C30. An authorization response is acted on only when it answers the request that was made: without the
  state recorded for it, or the issuer it has to name, it changes nothing, causes no request, and what
  the caller is told does not depend on anything else it says; otherwise at most one request follows,
  with its code and the verifier recorded, to the token endpoint recorded.
\<close>

theorem response_bound_to_request:
  "if answers_request pending q
   then \<exists>new. ocl_calls (snd (exchange_code sr (Some pending) q st)) = ocl_calls st @ new \<and> length new \<le> 1
     \<and> (\<forall>c \<in> set new. \<exists>p form basic. c = PostsForm p (pa_token_endpoint pending) form basic
          \<and> form_value form ''code'' = q ''code'' \<and> form_value form ''code_verifier'' = pa_verifier pending
          \<and> form_value form ''redirect_uri'' = pa_redirect_uri pending)
   else \<exists>e. \<forall>q'. q' ''state'' = q ''state'' \<longrightarrow> q' ''iss'' = q ''iss''
     \<longrightarrow> exchange_code sr (Some pending) q' st = (Inl e, st)"
proof (cases "answers_request pending q")
  case True
  let ?m = "if pa_auth_method pending = [] then auth_method_post else pa_auth_method pending"
  let ?form = "code_form pending (q ''code'') (ocl_resource_url st)"
  let ?full = "fst (authenticated_form ?form (pa_client_id pending) (pa_client_secret pending) ?m)"
  have f: "form_value ?full ''code'' = q ''code''" "form_value ?full ''code_verifier'' = pa_verifier pending"
    "form_value ?full ''redirect_uri'' = pa_redirect_uri pending"
    by (auto simp: form_value_def authenticated_form_def code_form_def)
  let ?tail = "\<lambda>tok. flow_return (tok\<lparr>tks_client_id := pa_client_id pending, tks_client_secret := pa_client_secret pending\<rparr>,
      pa_return_to pending)"
  obtain new where new: "ocl_calls (snd (request_token sr (pa_issuer pending) (pa_token_endpoint pending) ?form
      (pa_client_id pending) (pa_client_secret pending) ?m st)) = ocl_calls st @ new"
    "new = [] \<or> (\<exists>p. new = [PostsForm p (pa_token_endpoint pending) ?full (snd (authenticated_form ?form (pa_client_id pending)
       (pa_client_secret pending) ?m))])" using request_token_once by blast
  have "ocl_calls (snd (exchange_code sr (Some pending) q st)) \<in> {ocl_calls st, ocl_calls st @ new}"
    using True new(1)
    by (auto simp: answers_request_checks exchange_code_def flow_state_def bind_check flow_fail_def flow_bind_def flow_return_def
        split: option.split prod.split sum.split)
  with True new(2) f show ?thesis by fastforce
next
  case False
  then obtain e where "validate_state pending (q ''state'') = Some e
      \<or> validate_state pending (q ''state'') = None \<and> validate_issuer pending (q ''iss'') = Some e"
    by (cases "validate_state pending (q ''state'')") (auto simp: answers_request_checks)
  then have "\<exists>e. \<forall>q'. q' ''state'' = q ''state'' \<longrightarrow> q' ''iss'' = q ''iss''
      \<longrightarrow> exchange_code sr (Some pending) q' st = (Inl e, st)"
    by (auto simp: exchange_code_def flow_state_def bind_check flow_fail_def)
  with False show ?thesis by simp
qed

definition demo_pending :: pending_authorization where
  "demo_pending = \<lparr>pa_state = ''state'', pa_verifier = ''verifier'', pa_client_id = ''app'', pa_client_secret = [],
     pa_token_endpoint = ''https://a.example/token'', pa_auth_method = ''none'', pa_redirect_uri = ''https://app.example/cb'',
     pa_return_to = [], pa_issuer = ''https://a.example'', pa_issuer_supported = True\<rparr>"

theorem response_bound_to_request_witness:
  "\<exists>e. exchange_code demo_surroundings (Some demo_pending) (\<lambda>k. if k = ''state'' then ''state'' else if k = ''error'' then ''forged'' else []) demo_oauth_client
     = (Inl e, demo_oauth_client)
   \<and> exchange_code demo_surroundings (Some demo_pending) (\<lambda>k. if k = ''state'' then ''state'' else []) demo_oauth_client = (Inl e, demo_oauth_client)"
proof -
  let ?q = "\<lambda>k. if k = ''state'' then ''state'' else []" and ?q' = "\<lambda>k. if k = ''state'' then ''state'' else if k = ''error'' then ''forged'' else []"
  have "\<not> answers_request demo_pending ?q" by (simp add: answers_request_def demo_pending_def)
  with response_bound_to_request [of demo_pending ?q demo_surroundings demo_oauth_client]
  obtain e where e: "\<forall>q'. q' ''state'' = ?q ''state'' \<longrightarrow> q' ''iss'' = ?q ''iss''
    \<longrightarrow> exchange_code demo_surroundings (Some demo_pending) q' demo_oauth_client = (Inl e, demo_oauth_client)" by auto
  have "exchange_code demo_surroundings (Some demo_pending) ?q' demo_oauth_client = (Inl e, demo_oauth_client)"
    "exchange_code demo_surroundings (Some demo_pending) ?q demo_oauth_client = (Inl e, demo_oauth_client)" by (rule e [rule_format], simp, simp)+
  then show ?thesis by blast
qed

lemma begin_authorization_outcome:
  assumes "begin_authorization sr return_to d identity st = (Inr (url, pending), st')"
  shows "\<exists>u raw scope. sr_parse sr (asv_authorization_endpoint (dsr_server d)) = Some u
    \<and> pa_verifier pending = base64_url raw
    \<and> url = sr_with_query sr u (authorization_params (pa_client_id pending) (occ_redirect_uri (ocl_config st)) (pa_state pending)
        (base64_url (sr_digest sr (pa_verifier pending))) scope (ocl_resource_url st))
    \<and> pa_redirect_uri pending = occ_redirect_uri (ocl_config st)
    \<and> pa_issuer pending = asv_issuer (dsr_server d) \<and> pa_token_endpoint pending = asv_token_endpoint (dsr_server d)"
  using assms
  by (auto simp: begin_authorization_def generate_pkce_def pkce_of_def Let_def flow_state_def bind_check flow_bind_def flow_look_def
      flow_return_def flow_fail_def split: option.splits prod.splits)

interpretation steadfast: oauth_logic "\<lambda>s. ocl_config s = cfg \<and> ocl_resource_url s = ru" "\<lambda>c. True" sr for cfg ru sr
  by unfold_locales auto

lemma constant_before_authorization:
  assumes "oauth_discover sr st = (Inr d, st1)" "flow_identity sr d st1 = (Inr identity, st2)"
  shows "ocl_config st2 = ocl_config st \<and> ocl_resource_url st2 = ocl_resource_url st"
proof -
  have "flow_triple (\<lambda>s. ocl_config s = cfg \<and> ocl_resource_url s = ru) (\<lambda>c. True) (\<lambda>_. True) (flow_identity sr d) (\<lambda>_ _. True)" for cfg ru
    unfolding flow_identity_def Let_def
    by (rule steadfast.rule_state)
      (auto intro!: steadfast.rule_return steadfast.rule_bind [OF steadfast.rule_resolve_registration])
  note i = flow_triple_step [OF this _ _ assms(2)]
  note flow_triple_step [OF steadfast.rule_discover [of "ocl_config st" "ocl_resource_url st" "\<lambda>_. True" sr] _ _ assms(1)]
  then show ?thesis using i [of "ocl_config st" "ocl_resource_url st"] by blast
qed

text \<open>
  A flow starts only with a server that guarantees PKCE, and is bound to it: the user is sent to its
  authorization endpoint with the S256 challenge of the very verifier that is recorded with the state
  sent, the server's issuer, and its token endpoint.
\<close>

theorem authorization_carries_pkce:
  assumes "authorization_url sr return_to st = (Inr (url, pending), st')"
  shows "\<exists>d u raw scope. fst (oauth_discover sr st) = Inr d \<and> ''S256'' \<in> set (asv_code_challenge_methods (dsr_server d))
    \<and> sr_parse sr (asv_authorization_endpoint (dsr_server d)) = Some u \<and> pa_verifier pending = base64_url raw
    \<and> url = sr_with_query sr u (authorization_params (pa_client_id pending) (occ_redirect_uri (ocl_config st)) (pa_state pending)
        (base64_url (sr_digest sr (pa_verifier pending))) scope (ocl_resource_url st))
    \<and> pa_redirect_uri pending = occ_redirect_uri (ocl_config st)
    \<and> pa_issuer pending = asv_issuer (dsr_server d) \<and> pa_token_endpoint pending = asv_token_endpoint (dsr_server d)"
proof -
  obtain d st1 where d: "oauth_discover sr st = (Inr d, st1)" "require_pkce (dsr_server d) = None"
    and b: "flow_bind (flow_identity sr d) (begin_authorization sr return_to d) st1 = (Inr (url, pending), st')"
    using assms by (auto simp: authorization_url_def flow_bind_def [of "oauth_discover sr"] bind_check flow_state_def flow_fail_def
        split: prod.splits sum.splits option.splits if_splits)
  from b obtain identity st2 where i: "flow_identity sr d st1 = (Inr identity, st2)"
    "begin_authorization sr return_to d identity st2 = (Inr (url, pending), st')"
    by (auto simp: flow_bind_def split: prod.splits sum.splits)
  have "''S256'' \<in> set (asv_code_challenge_methods (dsr_server d))" using d(2) by (auto simp: require_pkce_def split: if_splits)
  with begin_authorization_outcome [OF i(2)] constant_before_authorization [OF d(1) i(1)] d(1) show ?thesis by simp
qed

theorem authorization_carries_pkce_witness:
  "\<exists>url pending st' raw. authorization_url demo_surroundings [] demo_oauth_client = (Inr (url, pending), st')
     \<and> pa_verifier pending = base64_url raw \<and> pa_redirect_uri pending = ''https://app.example/cb''"
proof -
  have "case fst (authorization_url demo_surroundings [] demo_oauth_client) of Inl e \<Rightarrow> False | Inr _ \<Rightarrow> True" by code_simp
  then obtain url pending st' where a: "authorization_url demo_surroundings [] demo_oauth_client = (Inr (url, pending), st')"
    by (cases "authorization_url demo_surroundings [] demo_oauth_client") (auto split: sum.splits)
  have "occ_redirect_uri (ocl_config demo_oauth_client) = ''https://app.example/cb''"
    by (simp add: demo_oauth_client_def new_oauth_client_def demo_client_config_def)
  with authorization_carries_pkce [OF a] a show ?thesis by auto
qed

end
