(* ===== verification/Client_Http.thy ===== *)
theory Client_Http
  imports Client_Parse Bearer_Challenge Redirect_Policy
begin

text \<open>
  The HTTP transport of a client: \<open>client/transport_http.go\<close>, with \<open>Recipe\<close> of \<open>client/transport.go\<close> and
  \<open>AuthorizationRequiredError\<close> of \<open>client/oauth/errors.go\<close>. A reply is a value: its status and headers, the
  bytes of its body, and how they end. Locks, and the wait for a stream that is not over, are not part
  of the model; every request made is recorded with what came of it.
\<close>

section \<open>Data\<close>

text \<open>What is asked of an error of \<open>net/http\<close>, and of the context at that moment.\<close>

datatype context_state = ContextLive | ContextCancelled | ContextExpired

record net_failure =
  nf_text :: bytes
  nf_cancelled :: bool
  nf_deadline :: bool
  nf_timeout :: bool
  nf_context :: context_state

record net_reply =
  nr_status :: nat
  nr_header :: "bytes \<Rightarrow> bytes"
  nr_body :: bytes
  nr_end :: "net_failure option"

record net_request =
  nq_verb :: bytes
  nq_headers :: header_set
  nq_body :: bytes

text \<open>An event under way, and the stream it is read from.\<close>

record sse_event =
  ev_data :: bytes
  ev_started :: bool

record open_stream =
  os_rest :: bytes
  os_end :: "net_failure option"
  os_event :: sse_event

text \<open>What an operation reports: an error of the client, or that the server wants authorization.\<close>

datatype http_failure = HttpFailure failure | AuthorizationRequired bytes challenge

definition required_metadata_url :: "http_failure \<Rightarrow> bytes" where
  "required_metadata_url f = (case f of HttpFailure _ \<Rightarrow> [] | AuthorizationRequired _ c \<Rightarrow> ch_resource_metadata_url c)"

definition required_scope :: "http_failure \<Rightarrow> bytes" where
  "required_scope f = (case f of HttpFailure _ \<Rightarrow> [] | AuthorizationRequired _ c \<Rightarrow> ch_scope c)"

text \<open>The transport; a token callback answers by the number of times it was asked.\<close>

record http_client =
  hx_url :: bytes
  hx_sendable :: bool
  hx_timeout :: int
  hx_token :: "(nat \<Rightarrow> bytes) option"
  hx_asked :: nat
  hx_version :: bytes
  hx_session :: bytes
  hx_initialized :: bool
  hx_queue :: "bytes list"
  hx_stream :: "open_stream option"
  hx_bearer :: bytes
  hx_settled :: bool
  hx_authorization :: int
  hx_session_bearer :: bytes
  hx_status :: nat
  hx_exchanges :: "(net_request \<times> (net_failure + net_reply)) list"

definition client_session_header :: bytes where "client_session_header = ''Mcp-Session-Id''"
definition client_version_header :: bytes where "client_version_header = ''Mcp-Protocol-Version''"
definition max_error_body_bytes :: nat where "max_error_body_bytes = 64 * 2 ^ 10"
definition client_default_timeout :: int where "client_default_timeout = 30 * 10 ^ 9"

definition new_http_client :: "bytes \<Rightarrow> bool \<Rightarrow> http_client" where
  "new_http_client url sendable =
     \<lparr>hx_url = url, hx_sendable = sendable, hx_timeout = client_default_timeout, hx_token = None, hx_asked = 0,
      hx_version = [], hx_session = [], hx_initialized = False, hx_queue = [], hx_stream = None, hx_bearer = [],
      hx_settled = False, hx_authorization = 0, hx_session_bearer = [], hx_status = 0, hx_exchanges = []\<rparr>"

definition with_token_func :: "(nat \<Rightarrow> bytes) \<Rightarrow> http_client \<Rightarrow> http_client" where
  "with_token_func f t = t\<lparr>hx_token := Some f\<rparr>"

definition with_token :: "bytes \<Rightarrow> http_client \<Rightarrow> http_client" where
  "with_token bearer t = with_token_func (\<lambda>_. bearer) t"

definition http_set_timeout :: "int \<Rightarrow> http_client \<Rightarrow> http_client" where
  "http_set_timeout d t = t\<lparr>hx_timeout := d\<rparr>"

section \<open>The credential\<close>

definition resolve_bearer :: "http_client \<Rightarrow> bytes \<times> http_client" where
  "resolve_bearer t =
     (case hx_token t of None \<Rightarrow> ([], t) | Some f \<Rightarrow> (f (hx_asked t), t\<lparr>hx_asked := Suc (hx_asked t)\<rparr>))"

definition settle_authorization :: "http_client \<Rightarrow> int \<times> http_client" where
  "settle_authorization t =
     (case resolve_bearer t of (bearer, t1) \<Rightarrow>
        let n = (if \<not> hx_settled t1 \<or> bearer \<noteq> hx_bearer t1 then hx_authorization t1 + 1 else hx_authorization t1)
        in (n, t1\<lparr>hx_authorization := n, hx_bearer := bearer, hx_settled := True\<rparr>))"

definition authorization_context :: "http_client \<Rightarrow> int \<times> http_client" where
  "authorization_context t =
     (if hx_settled t
      then (case resolve_bearer t of (bearer, t1) \<Rightarrow>
              (if bearer = hx_bearer t1 then hx_authorization t1 else hx_authorization t1 + 1, t1))
      else (hx_authorization t + 1, t))"

definition presented :: "http_client \<Rightarrow> bytes \<times> http_client" where
  "presented t = (if hx_settled t then (hx_bearer t, t) else resolve_bearer t)"

section \<open>Headers\<close>

text \<open>\<open>http.Header.Set\<close>, which knows a name by its canonical form.\<close>

definition set_field :: "header_set \<Rightarrow> bytes \<Rightarrow> bytes \<Rightarrow> header_set" where
  "set_field h name v = filter (\<lambda>(k, _). fold_ascii k \<noteq> fold_ascii name) h @ [(name, v)]"

definition transport_owned_header :: "bytes \<Rightarrow> bool" where
  "transport_owned_header name =
     (fold_ascii name = fold_ascii client_version_header \<or> fold_ascii name = fold_ascii client_session_header)"

definition set_unowned :: "bytes \<times> bytes \<Rightarrow> header_set \<Rightarrow> header_set" where
  "set_unowned p h = (case p of (name, v) \<Rightarrow> if transport_owned_header name then h else set_field h name v)"

definition is_discovery :: "http_client \<Rightarrow> bool" where
  "is_discovery t = (hx_version t \<noteq> [] \<and> handshake_for (hx_version t) = HandshakeDiscovery)"

definition connection_headers :: "http_client \<Rightarrow> header_set" where
  "connection_headers t =
     (let h = set_field [] ''Accept'' ''application/json, text/event-stream''
      in if is_discovery t then set_field h client_version_header (hx_version t)
         else let h1 = (if hx_session t \<noteq> [] then set_field h client_session_header (hx_session t) else h)
              in if hx_initialized t \<and> hx_version t \<noteq> [] then set_field h1 client_version_header (hx_version t) else h1)"

definition apply_headers :: "http_client \<Rightarrow> header_set \<Rightarrow> bytes \<Rightarrow> header_set" where
  "apply_headers t mirrored bearer =
     (let h = fold set_unowned mirrored (connection_headers t)
      in if bearer \<noteq> [] then set_field h ''Authorization'' (''Bearer '' @ bearer) else h)"

section \<open>Event streams\<close>

text \<open>The value of a \<open>data\<close> field; \<open>None\<close> for any other line.\<close>

definition sse_data_field :: "bytes \<Rightarrow> bytes option" where
  "sse_data_field line =
     (case cut_at (\<lambda>c. c = CHR '':'') line of (name, value) \<Rightarrow>
        if name \<noteq> ''data'' then None
        else case value of
          None \<Rightarrow> Some []
        | Some v \<Rightarrow> Some (if has_prefix v '' '' then tl v else v))"

definition fresh_event :: sse_event where "fresh_event = \<lparr>ev_data = [], ev_started = False\<rparr>"

definition sse_flush :: "sse_event \<Rightarrow> bytes option \<times> sse_event" where
  "sse_flush e = (let data = trim_space (ev_data e) in (if data \<noteq> [] then Some data else None, fresh_event))"

definition sse_line :: "sse_event \<Rightarrow> bytes \<Rightarrow> bytes option \<times> sse_event" where
  "sse_line e raw =
     (let line = trim_right_of raw [CHR 0x0D, CHR 0x0A]
      in if line = [] then sse_flush e
         else case sse_data_field line of
           None \<Rightarrow> (None, e)
         | Some v \<Rightarrow>
             (None, \<lparr>ev_data = ev_data e @ (if ev_started e then [CHR 0x0A] else []) @ v, ev_started = True\<rparr>))"

text \<open>\<open>bufio.Reader.ReadString\<close>: a line with its line feed and what follows, if there is a line feed.\<close>

definition read_line :: "bytes \<Rightarrow> (bytes \<times> bytes) option" where
  "read_line s =
     (case dropWhile (\<lambda>c. c \<noteq> CHR 0x0A) s of
        [] \<Rightarrow> None
      | nl # rest \<Rightarrow> Some (takeWhile (\<lambda>c. c \<noteq> CHR 0x0A) s @ [nl], rest))"

lemma read_line_shorter: "read_line s = Some (line, rest) \<Longrightarrow> length rest < length s"
proof -
  assume "read_line s = Some (line, rest)"
  then obtain nl where "dropWhile (\<lambda>c. c \<noteq> CHR 0x0A) s = nl # rest" by (auto simp: read_line_def split: list.splits)
  then show ?thesis using length_dropWhile_le [of "\<lambda>c. c \<noteq> CHR 0x0A" s] by simp
qed

text \<open>The data of the next event that has any, or how the stream ended; \<open>None\<close> for a proper end.\<close>

function stream_next :: "open_stream \<Rightarrow> (net_failure option + bytes) \<times> open_stream" where
  "stream_next s =
     (case read_line (os_rest s) of
        Some (line, rest) \<Rightarrow>
          (case sse_line (os_event s) line of
             (Some data, e) \<Rightarrow> (Inr data, s\<lparr>os_rest := rest, os_event := e\<rparr>)
           | (None, e) \<Rightarrow> stream_next (s\<lparr>os_rest := rest, os_event := e\<rparr>))
      | None \<Rightarrow>
          (case sse_line (os_event s) (os_rest s) of
             (Some data, e) \<Rightarrow> (Inr data, s\<lparr>os_rest := [], os_event := e\<rparr>)
           | (None, e) \<Rightarrow>
               (case sse_flush e of
                  (Some data, e1) \<Rightarrow> (Inr data, s\<lparr>os_rest := [], os_event := e1\<rparr>)
                | (None, e1) \<Rightarrow> (Inl (os_end s), s\<lparr>os_rest := [], os_event := e1\<rparr>))))"
  by pat_completeness auto
termination by (relation "measure (\<lambda>s. length (os_rest s))") (auto dest: read_line_shorter)

declare stream_next.simps [simp del]

definition stream_of :: "bytes \<Rightarrow> net_failure option \<Rightarrow> open_stream" where
  "stream_of body ending = \<lparr>os_rest = body, os_end = ending, os_event = fresh_event\<rparr>"

section \<open>Errors in a body\<close>

definition error_envelope_member :: "bytes \<times> bytes \<times> json \<Rightarrow> bytes \<times> bytes \<Rightarrow> (bytes \<times> bytes) option" where
  "error_envelope_member m old =
     (case m of (k, r, v) \<Rightarrow> case old of (version, err) \<Rightarrow>
        if field_is ''jsonrpc'' (unquote k)
        then (case v of JStr b \<Rightarrow> Some (unquote b, err) | JNull \<Rightarrow> Some (version, err) | _ \<Rightarrow> None)
        else if field_is ''error'' (unquote k) then Some (version, r) else Some (version, err))"

definition has_jsonrpc_error :: "bytes \<Rightarrow> bool" where
  "has_jsonrpc_error content =
     (case json_parse content of
        Some (JObj ms) \<Rightarrow>
          (case decode_members error_envelope_member ms ([], []) of
             None \<Rightarrow> False
           | Some (version, err) \<Rightarrow>
               if version \<noteq> rpc_version \<or> err = [] then False
               else (case unmarshal_any_map err of Dec _ \<Rightarrow> True | _ \<Rightarrow> False))
      | _ \<Rightarrow> False)"

lemma flush_spends: "sse_flush e = (r, e') \<Longrightarrow> ev_data e' = [] \<and> (r \<noteq> None \<longrightarrow> ev_data e \<noteq> [])"
  by (auto simp: sse_flush_def fresh_event_def Let_def split: if_splits)

lemma line_spends: "sse_line e raw = (Some data, e') \<Longrightarrow> ev_data e' = [] \<and> ev_data e \<noteq> []"
  using flush_spends by (fastforce simp: sse_line_def Let_def split: if_splits option.splits)

lemma stream_next_shorter:
  assumes "stream_next s = (Inr data, s')"
  shows "ev_data (os_event s') = [] \<and> (length (os_rest s') < length (os_rest s) \<or> os_rest s' = [] \<and> ev_data (os_event s) \<noteq> [])"
  using assms
proof (induction s rule: stream_next.induct)
  case (1 s)
  show ?case
  proof (cases "read_line (os_rest s)")
    case None
    have "sse_line (os_event s) [] = (None, e) \<Longrightarrow> ev_data e = []" for e
      using flush_spends [of "os_event s" None e] by (simp add: sse_line_def trim_right_of_def)
    with 1(2) None show ?thesis
      by (cases "os_rest s = []")
        (auto simp: stream_next.simps [of s] dest!: flush_spends line_spends split: prod.splits option.splits)
  next
    case (Some p)
    obtain line rest where p: "p = (line, rest)" by (cases p)
    obtain r e where e: "sse_line (os_event s) line = (r, e)" by (cases "sse_line (os_event s) line")
    have shorter: "length rest < length (os_rest s)" using read_line_shorter Some p by simp
    show ?thesis
    proof (cases r)
      case None
      have "stream_next (s\<lparr>os_rest := rest, os_event := e\<rparr>) = (Inr data, s')"
        using 1(2) Some p e None by (simp add: stream_next.simps [of s])
      from 1(1) [OF Some p [symmetric] e [unfolded None, symmetric] refl this] shorter show ?thesis by auto
    next
      case (Some d)
      with 1(2) \<open>read_line (os_rest s) = Some p\<close> p e shorter line_spends [of "os_event s" line d e]
      show ?thesis by (auto simp: stream_next.simps [of s])
    qed
  qed
qed

function find_error_frame :: "open_stream \<Rightarrow> bytes option" where
  "find_error_frame s =
     (case stream_next s of
        (Inl _, _) \<Rightarrow> None
      | (Inr data, s1) \<Rightarrow> if has_jsonrpc_error data then Some data else find_error_frame s1)"
  by pat_completeness auto
termination
  by (relation "measure (\<lambda>s. 2 * length (os_rest s) + length (take 1 (ev_data (os_event s))))")
    (force dest!: sym [where t = "stream_next s" for s] stream_next_shorter)+

declare find_error_frame.simps [simp del]

text \<open>\<open>firstErrorFrame\<close>, of a body that \<open>io.LimitReader\<close> bounds.\<close>

definition limited :: "net_reply \<Rightarrow> open_stream" where
  "limited r =
     stream_of (take max_error_body_bytes (nr_body r)) (if length (nr_body r) < max_error_body_bytes then nr_end r else None)"

definition is_event_stream :: "net_reply \<Rightarrow> bool" where
  "is_event_stream r = contains (nr_header r ''Content-Type'') ''text/event-stream''"

definition first_error_frame :: "net_reply \<Rightarrow> bytes option" where
  "first_error_frame r =
     (if \<not> is_event_stream r
      then if os_end (limited r) \<noteq> None then None
           else let trimmed = trim_space (os_rest (limited r))
                in if trimmed \<noteq> [] \<and> has_jsonrpc_error trimmed then Some trimmed else None
      else find_error_frame (limited r))"

text \<open>\<open>isRequestFrame\<close>.\<close>

definition is_request_frame :: "bytes \<Rightarrow> bool" where
  "is_request_frame message = (case probe_frame message of Some (Some m, i) \<Rightarrow> i \<noteq> [] | _ \<Rightarrow> False)"

section \<open>Requests\<close>

definition http_reset :: "http_client \<Rightarrow> http_client" where
  "http_reset t = t\<lparr>hx_version := [], hx_session := [], hx_session_bearer := [], hx_initialized := False,
     hx_queue := [], hx_stream := None\<rparr>"

definition close_stream :: "http_client \<Rightarrow> http_client" where
  "close_stream t = t\<lparr>hx_stream := None\<rparr>"

definition enqueue_frame :: "bytes \<Rightarrow> http_client \<Rightarrow> http_client" where
  "enqueue_frame m t = t\<lparr>hx_queue := hx_queue t @ [m]\<rparr>"

definition is_timeout :: "net_failure \<Rightarrow> bool" where
  "is_timeout f = (nf_deadline f \<or> nf_context f = ContextExpired \<or> nf_timeout f)"

text \<open>\<open>failed\<close>: a wait withdrawn, a deadline passed, or the channel gone with what was negotiated.\<close>

definition wrapped_class :: "net_failure \<Rightarrow> failure_class" where
  "wrapped_class f = (if nf_cancelled f then Cancelled else if nf_deadline f then PastDeadline else ClientError)"

definition http_failed :: "net_failure \<Rightarrow> bytes \<Rightarrow> http_client \<Rightarrow> http_failure \<times> http_client" where
  "http_failed f message t =
     (if nf_cancelled f \<or> nf_context f = ContextCancelled
      then (HttpFailure (plain_failure (wrapped_class f)
              (''the wait for a response from ['' @ hx_url t @ ''] was cancelled: '' @ nf_text f)), t)
      else if is_timeout f
      then (HttpFailure \<lparr>fl_class = TimedOut,
              fl_text = ''timed out while waiting for a response from ['' @ hx_url t @ '']: '' @ nf_text f,
              fl_unanswered = True, fl_unauthorized = False\<rparr>, t)
      else (HttpFailure \<lparr>fl_class = ChannelDown, fl_text = message @ '': '' @ nf_text f,
              fl_unanswered = True, fl_unauthorized = False\<rparr>, http_reset t))"

definition passing :: "nat \<Rightarrow> bool" where
  "passing status = (status \<in> {408, 425, 429, 502, 503, 504})"

definition refuses_the_request :: "nat \<Rightarrow> bool" where "refuses_the_request status = (status = 400)"

definition handle_unsuccessful :: "net_reply \<Rightarrow> http_client \<Rightarrow> http_failure option \<times> http_client" where
  "handle_unsuccessful r t =
     (case (if passing (nr_status r) then None else first_error_frame r) of
        Some frame \<Rightarrow> (None, enqueue_frame frame (close_stream t))
      | None \<Rightarrow>
          let status = int_to_dec (int (nr_status r)); t1 = http_reset t
          in if \<not> refuses_the_request (nr_status r)
             then (Some (HttpFailure (client_error (''unexpected HTTP status ['' @ status @ ''] from endpoint ['' @ hx_url t @ '']''))), t1)
             else (Some (HttpFailure (plain_failure ChannelDown
                     (''the endpoint ['' @ hx_url t @ ''] rejected the request with HTTP status ['' @ status @ '']''))), t1))"

definition capture_session :: "net_reply \<Rightarrow> bytes \<Rightarrow> http_client \<Rightarrow> http_client" where
  "capture_session r bearer t =
     (if is_discovery t then t
      else if nr_header r client_session_header \<noteq> []
      then t\<lparr>hx_session := nr_header r client_session_header, hx_session_bearer := bearer\<rparr> else t)"

text \<open>\<open>SendWithHeaders\<close>: the request, and what its reply means by its status.\<close>

definition note_exchange :: "net_request \<Rightarrow> net_failure + net_reply \<Rightarrow> http_client \<Rightarrow> http_client" where
  "note_exchange q a t = t\<lparr>hx_exchanges := hx_exchanges t @ [(q, a)]\<rparr>"

definition note_answered :: "http_client \<Rightarrow> http_client" where
  "note_answered t =
     (if hx_version t \<noteq> [] \<and> handshake_for (hx_version t) = HandshakeInitialize then t\<lparr>hx_initialized := True\<rparr> else t)"

definition take_reply :: "bytes \<Rightarrow> net_reply \<Rightarrow> http_client \<Rightarrow> http_failure option \<times> http_client" where
  "take_reply message r t =
     (if is_event_stream r then (None, t\<lparr>hx_stream := Some (stream_of (nr_body r) (nr_end r))\<rparr>)
      else case nr_end r of
        Some f \<Rightarrow> (case http_failed f (''unable to read response from ['' @ hx_url t @ '']'') t of (e, t1) \<Rightarrow> (Some e, t1))
      | None \<Rightarrow>
          let trimmed = trim_space (nr_body r)
          in if nr_status r = 202 \<or> trimmed = []
             then (None, if is_request_frame message then close_stream t else t)
             else (None, enqueue_frame trimmed (close_stream t)))"

definition weigh_reply :: "bytes \<Rightarrow> bool \<Rightarrow> net_reply \<Rightarrow> http_client \<Rightarrow> http_failure option \<times> http_client" where
  "weigh_reply message had_session r t =
     (if nr_status r = 401 \<or> nr_status r = 403
      then (Some (AuthorizationRequired
              (''the server requires authorization (HTTP '' @ int_to_dec (int (nr_status r)) @ '') for endpoint ['' @ hx_url t @ '']'')
              (parse_challenge (nr_header r ''WWW-Authenticate''))), http_reset t)
      else if nr_status r = 404 \<and> had_session
      then (Some (HttpFailure (plain_failure SessionExpired ''client: session expired'')), http_reset t)
      else if nr_status r < 200 \<or> 300 \<le> nr_status r then handle_unsuccessful r t
      else take_reply message r (note_answered t))"

definition post_request :: "http_client \<Rightarrow> header_set \<Rightarrow> bytes \<Rightarrow> bytes \<Rightarrow> net_request" where
  "post_request t headers bearer message =
     \<lparr>nq_verb = ''POST'', nq_headers = set_field (apply_headers t headers bearer) ''Content-Type'' ''application/json'',
      nq_body = message\<rparr>"

definition send_with_headers ::
  "bytes \<Rightarrow> header_set \<Rightarrow> net_failure + net_reply \<Rightarrow> http_client \<Rightarrow> http_failure option \<times> http_client" where
  "send_with_headers message headers answer t =
     (if \<not> hx_sendable t then (Some (HttpFailure (client_error (''unable to build request to ['' @ hx_url t @ '']''))), t)
      else case presented t of (bearer, t1) \<Rightarrow>
        let t2 = note_exchange (post_request t1 headers bearer message) answer t1
        in case answer of
             Inl f \<Rightarrow> (case http_failed f (''HTTP request to ['' @ hx_url t @ ''] failed'') t2 of (e, t3) \<Rightarrow> (Some e, t3))
           | Inr r \<Rightarrow> weigh_reply message (hx_session t \<noteq> []) r ((capture_session r bearer t2)\<lparr>hx_status := nr_status r\<rparr>))"

definition no_message :: http_failure where
  "no_message = HttpFailure (client_error ''no message available from the HTTP transport'')"

definition http_receive :: "http_client \<Rightarrow> (http_failure + bytes) \<times> http_client" where
  "http_receive t =
     (case hx_queue t of
        m # ms \<Rightarrow> (Inr m, t\<lparr>hx_queue := ms\<rparr>)
      | [] \<Rightarrow>
          (case hx_stream t of
             None \<Rightarrow> (Inl no_message, t)
           | Some s \<Rightarrow>
               (case stream_next s of
                  (Inr data, s1) \<Rightarrow> (Inr data, t\<lparr>hx_stream := Some s1\<rparr>)
                | (Inl None, s1) \<Rightarrow> (Inl no_message, close_stream t)
                | (Inl (Some f), s1) \<Rightarrow>
                    (case http_failed f (''unable to read the response stream from ['' @ hx_url t @ '']'') (close_stream t) of
                       (e, t1) \<Rightarrow> (Inl e, t1)))))"

definition use_protocol :: "bytes \<Rightarrow> http_client \<Rightarrow> http_client" where
  "use_protocol version t =
     (let t1 = (if hx_version t \<noteq> [] \<and> handshake_for (hx_version t) \<noteq> handshake_for version
                then t\<lparr>hx_session := [], hx_session_bearer := [], hx_initialized := False\<rparr> else t)
      in t1\<lparr>hx_version := version\<rparr>)"

definition terminate_session :: "net_failure + net_reply \<Rightarrow> http_client \<Rightarrow> http_client" where
  "terminate_session answer t =
     (if hx_session t = [] \<or> \<not> hx_sendable t then t
      else note_exchange \<lparr>nq_verb = ''DELETE'', nq_headers = apply_headers t [] (hx_session_bearer t), nq_body = []\<rparr> answer t)"

definition http_disconnect :: "net_failure + net_reply \<Rightarrow> http_client \<Rightarrow> http_client" where
  "http_disconnect answer t = http_reset (terminate_session answer t)"

definition notifies_cancellation :: "bytes \<Rightarrow> bool" where
  "notifies_cancellation version = (handshake_for version = HandshakeInitialize)"

definition probe_answered_as_legacy :: "http_client \<Rightarrow> rpc_error \<Rightarrow> bool" where
  "probe_answered_as_legacy t e = (refuses_the_request (hx_status t) \<or> err_code e = code_method_not_found)"

section \<open>Recipes\<close>

record recipe =
  rcp_driver :: bytes
  rcp_url :: bytes
  rcp_command :: bytes
  rcp_args :: "bytes list"
  rcp_token :: bytes
  rcp_timeout :: int

definition http_recipe :: "http_client \<Rightarrow> recipe \<times> http_client" where
  "http_recipe t =
     (case resolve_bearer t of (bearer, t1) \<Rightarrow>
        (\<lparr>rcp_driver = ''http'', rcp_url = hx_url t, rcp_command = [], rcp_args = [], rcp_token = bearer,
          rcp_timeout = hx_timeout t\<rparr>, t1))"

text \<open>A transport rebuilt: the command of a process with its timeout, or an HTTP transport.\<close>

datatype rebuilt = StdioRebuilt bytes "bytes list" int | HttpRebuilt http_client

definition transport_from_recipe :: "(bytes \<Rightarrow> bool) \<Rightarrow> recipe \<Rightarrow> failure + rebuilt" where
  "transport_from_recipe sendable r =
     (if rcp_driver r = ''stdio''
      then if rcp_command r = [] then Inl (client_error ''invalid stdio transport recipe: missing command'')
           else Inr (StdioRebuilt (rcp_command r) (rcp_args r)
                  (if 0 < rcp_timeout r then rcp_timeout r else client_default_timeout))
      else if rcp_driver r = ''http''
      then if rcp_url r = [] then Inl (client_error ''invalid http transport recipe: missing url'')
           else let t = new_http_client (rcp_url r) (sendable (rcp_url r));
                    t1 = (if rcp_token r \<noteq> [] then with_token (rcp_token r) t else t)
                in Inr (HttpRebuilt (if 0 < rcp_timeout r then http_set_timeout (rcp_timeout r) t1 else t1))
      else Inl (client_error ''unable to rebuild transport from an unknown recipe''))"

section \<open>A transport at work\<close>

datatype http_operation =
    SettlesAuthorization | AsksContext | UsesProtocol bytes | SendsFrame bytes header_set "net_failure + net_reply"
  | Receives | ConnectsHttp | DisconnectsHttp "net_failure + net_reply" | SetsToken "nat \<Rightarrow> bytes" | SetsTimeout int | Describes

definition http_run :: "http_operation \<Rightarrow> http_client \<Rightarrow> http_client" where
  "http_run operation t =
     (case operation of
        SettlesAuthorization \<Rightarrow> snd (settle_authorization t)
      | AsksContext \<Rightarrow> snd (authorization_context t)
      | UsesProtocol version \<Rightarrow> use_protocol version t
      | SendsFrame message headers answer \<Rightarrow> snd (send_with_headers message headers answer t)
      | Receives \<Rightarrow> snd (http_receive t)
      | ConnectsHttp \<Rightarrow> http_reset t
      | DisconnectsHttp answer \<Rightarrow> http_disconnect answer t
      | SetsToken f \<Rightarrow> with_token_func f t
      | SetsTimeout d \<Rightarrow> http_set_timeout d t
      | Describes \<Rightarrow> snd (http_recipe t))"

inductive http_reaches :: "http_client \<Rightarrow> http_client \<Rightarrow> bool" for t0 where
  http_start: "http_reaches t0 t0"
| http_step: "http_reaches t0 t \<Longrightarrow> http_reaches t0 (http_run operation t)"

end
