(* ===== verification/Http_Client_Laws.thy ===== *)
theory Http_Client_Laws
  imports Client_Http
begin

text \<open>
  What holds of the HTTP transport of a client over anything it is asked to do and anything it is
  answered: which headers a request carries, whose session it presents and under which credential,
  and which failures say something about the server.
\<close>

section \<open>Headers\<close>

definition field_values :: "header_set \<Rightarrow> bytes \<Rightarrow> bytes list" where
  "field_values h name = map snd (filter (\<lambda>(k, _). fold_ascii k = fold_ascii name) h)"

lemma field_values_set:
  "field_values (set_field h name v) other = (if fold_ascii name = fold_ascii other then [v] else field_values h other)"
  by (induction h) (auto simp: field_values_def set_field_def)

lemma unowned_keeps:
  assumes "transport_owned_header name"
  shows "field_values (fold set_unowned mirrored h) name = field_values h name"
proof (induction mirrored arbitrary: h)
  case (Cons p ps)
  obtain k v where p: "p = (k, v)" by (cases p)
  have "field_values (set_unowned p h) name = field_values h name"
    using assms by (auto simp: p set_unowned_def field_values_set transport_owned_header_def)
  with Cons show ?case by simp
qed simp

text \<open>The names the transport sets differ, whatever their case.\<close>

lemma names_differ:
  "fold_ascii client_version_header \<noteq> fold_ascii client_session_header"
  "fold_ascii ''Authorization'' \<noteq> fold_ascii client_version_header"
  "fold_ascii ''Authorization'' \<noteq> fold_ascii client_session_header"
  "fold_ascii ''Content-Type'' \<noteq> fold_ascii client_version_header"
  "fold_ascii ''Content-Type'' \<noteq> fold_ascii client_session_header"
  "fold_ascii ''Content-Type'' \<noteq> fold_ascii ''Authorization''"
  "fold_ascii ''Accept'' \<noteq> fold_ascii client_version_header"
  "fold_ascii ''Accept'' \<noteq> fold_ascii client_session_header"
  by code_simp+

lemma no_fields [simp]: "field_values [] name = []"
  by (simp add: field_values_def)

lemma owned_names [simp]:
  "transport_owned_header client_version_header" "transport_owned_header client_session_header"
  by (simp_all add: transport_owned_header_def)

definition session_stated :: "http_client \<Rightarrow> bytes list" where
  "session_stated t = (if \<not> is_discovery t \<and> hx_session t \<noteq> [] then [hx_session t] else [])"

definition version_stated :: "http_client \<Rightarrow> bytes list" where
  "version_stated t = (if is_discovery t \<or> hx_initialized t \<and> hx_version t \<noteq> [] then [hx_version t] else [])"

lemma applied_headers:
  "field_values (apply_headers t mirrored bearer) client_session_header = session_stated t"
  "field_values (apply_headers t mirrored bearer) client_version_header = version_stated t"
  "bearer \<noteq> [] \<Longrightarrow> field_values (apply_headers t mirrored bearer) ''Authorization'' = [''Bearer '' @ bearer]"
  using names_differ
  by (simp_all add: apply_headers_def Let_def field_values_set unowned_keeps connection_headers_def
      session_stated_def version_stated_def)

lemma posted_headers:
  "field_values (nq_headers (post_request t mirrored bearer message)) client_session_header = session_stated t"
  "field_values (nq_headers (post_request t mirrored bearer message)) client_version_header = version_stated t"
  "bearer \<noteq> [] \<Longrightarrow> field_values (nq_headers (post_request t mirrored bearer message)) ''Authorization'' = [''Bearer '' @ bearer]"
  using names_differ by (simp_all add: post_request_def field_values_set applied_headers)

section \<open>What a reply may change\<close>

text \<open>
  A relation between the states before and after a reply is weighed or a frame received: it suffices
  that forgetting the connection, the queue, the stream and the mark of an answer keep it.
\<close>

locale reply_relation =
  fixes rel :: "http_client \<Rightarrow> http_client \<Rightarrow> bool"
  assumes rel_refl: "rel t t"
    and rel_trans: "rel t t1 \<Longrightarrow> rel t1 t2 \<Longrightarrow> rel t t2"
    and rel_reset: "rel t (http_reset t)"
    and rel_queue: "rel t (t\<lparr>hx_queue := ms\<rparr>)"
    and rel_stream: "rel t (t\<lparr>hx_stream := s\<rparr>)"
    and rel_answered: "rel t (note_answered t)"
begin

lemma rel_enqueued: "rel t (enqueue_frame m (close_stream t))"
  using rel_trans [OF rel_stream rel_queue] by (simp add: enqueue_frame_def close_stream_def)

lemma failed: "rel t (snd (http_failed f m t))"
  by (simp add: http_failed_def rel_refl rel_reset)

lemma unsuccessful: "rel t (snd (handle_unsuccessful r t))"
  by (simp add: handle_unsuccessful_def Let_def rel_reset rel_enqueued split: option.split)

lemma taken: "rel t (snd (take_reply m r t))"
  using rel_refl failed rel_stream rel_enqueued
  by (simp add: take_reply_def case_prod_unfold Let_def close_stream_def split: option.split)

lemma weighed: "rel t (snd (weigh_reply m had r t))"
  using rel_trans [OF rel_answered taken] by (simp add: weigh_reply_def rel_reset unsuccessful)

lemma received: "rel t (snd (http_receive t))"
  using rel_trans [OF rel_stream failed] rel_stream [of t] rel_queue rel_refl
  by (simp add: http_receive_def case_prod_unfold close_stream_def split: list.split option.split sum.split)

end

section \<open>Whose session\<close>

definition discovery_version :: bytes where "discovery_version = protocol_v20260728"

lemma discovery_stated: "discovery_version \<in> set (version_stated t) \<longleftrightarrow> is_discovery t"
  by (auto simp: version_stated_def is_discovery_def discovery_version_def handshake_for_def protocol_v20260728_def
      split: if_splits)

abbreviation credentials :: "net_request \<Rightarrow> bytes list" where
  "credentials q \<equiv> field_values (nq_headers q) ''Authorization''"

abbreviation discovers :: "net_request \<Rightarrow> bool" where
  "discovers q \<equiv> discovery_version \<in> set (field_values (nq_headers q) client_version_header)"

text \<open>A request that names a session was assigned it before, under a revision that has sessions.\<close>

definition vouched :: "(net_request \<times> (net_failure + net_reply)) list \<Rightarrow> net_request \<Rightarrow> bool" where
  "vouched past q \<longleftrightarrow> (\<forall>sid \<in> set (field_values (nq_headers q) client_session_header).
     \<not> discovers q \<and> (\<exists>q' r. (q', Inr r) \<in> set past \<and> nr_header r client_session_header = sid \<and> \<not> discovers q'
       \<and> (nq_verb q = ''DELETE'' \<longrightarrow> credentials q \<in> {[], credentials q'})))"

definition all_vouched :: "(net_request \<times> (net_failure + net_reply)) list \<Rightarrow> bool" where
  "all_vouched xs \<longleftrightarrow> (\<forall>past q a rest. xs = past @ (q, a) # rest \<longrightarrow> vouched past q)"

lemma all_vouched_snoc: "all_vouched (xs @ [(q, a)]) \<longleftrightarrow> all_vouched xs \<and> vouched xs q"
proof
  assume l: "all_vouched (xs @ [(q, a)])"
  then have "vouched past q'" if "xs = past @ (q', a') # rest" for past q' a' rest
    using that unfolding all_vouched_def by (metis append.assoc append_Cons)
  with l show "all_vouched xs \<and> vouched xs q" by (auto simp: all_vouched_def)
next
  assume r: "all_vouched xs \<and> vouched xs q"
  have "vouched past q'" if "xs @ [(q, a)] = past @ (q', a') # rest" for past q' a' rest
    using that r by (cases rest rule: rev_cases) (auto simp: all_vouched_def)
  then show "all_vouched (xs @ [(q, a)])" by (simp add: all_vouched_def)
qed

definition session_known :: "http_client \<Rightarrow> bool" where
  "session_known t \<longleftrightarrow> hx_session t \<noteq> [] \<longrightarrow> (\<exists>q r. (q, Inr r) \<in> set (hx_exchanges t)
     \<and> nr_header r client_session_header = hx_session t \<and> \<not> discovers q
     \<and> (hx_session_bearer t \<noteq> [] \<longrightarrow> credentials q = [''Bearer '' @ hx_session_bearer t]))"

text \<open>A step that makes no request, and keeps the session or drops it.\<close>

definition session_stands :: "http_client \<Rightarrow> http_client \<Rightarrow> bool" where
  "session_stands t t' \<longleftrightarrow> hx_exchanges t' = hx_exchanges t
     \<and> (hx_session t' = [] \<or> hx_session t' = hx_session t \<and> hx_session_bearer t' = hx_session_bearer t)"

lemma keeps_known: "session_stands t t' \<Longrightarrow> session_known t \<Longrightarrow> session_known t'"
  unfolding session_known_def session_stands_def by metis

interpretation session_kept: reply_relation session_stands
  by unfold_locales (auto simp: session_stands_def http_reset_def note_answered_def)

lemma resolve_keeps: "resolve_bearer t = (b, t1) \<Longrightarrow> session_stands t t1"
  by (auto simp: resolve_bearer_def session_stands_def split: option.splits)

text \<open>Presenting a credential changes nothing a request states.\<close>

lemma presented_same:
  assumes "presented t = (b, t1)"
  shows "hx_exchanges t1 = hx_exchanges t" "hx_session t1 = hx_session t" "hx_session_bearer t1 = hx_session_bearer t"
    "is_discovery t1 = is_discovery t" "session_stated t1 = session_stated t" "version_stated t1 = version_stated t"
    "hx_sendable t1 = hx_sendable t" "hx_url t1 = hx_url t" "hx_version t1 = hx_version t"
  using assms
  by (auto simp: presented_def resolve_bearer_def is_discovery_def session_stated_def version_stated_def
      split: if_splits option.splits)

definition sound_sessions :: "http_client \<Rightarrow> bool" where
  "sound_sessions t \<longleftrightarrow> session_known t \<and> all_vouched (hx_exchanges t)"

lemma keeps_sound: "session_stands t t' \<Longrightarrow> sound_sessions t \<Longrightarrow> sound_sessions t'"
  using keeps_known by (auto simp: sound_sessions_def session_stands_def)

text \<open>A request under the session of the transport is vouched for.\<close>

lemma request_vouched:
  assumes "session_known t" "field_values (nq_headers q) client_session_header = session_stated t"
    and "field_values (nq_headers q) client_version_header = version_stated t"
    and "nq_verb q = ''DELETE'' \<Longrightarrow> credentials q = (if hx_session_bearer t \<noteq> [] then [''Bearer '' @ hx_session_bearer t] else [])"
  shows "vouched (hx_exchanges t) q"
proof (cases "session_stated t = []")
  case False
  then have d: "\<not> is_discovery t" "hx_session t \<noteq> []" "session_stated t = [hx_session t]"
    by (auto simp: session_stated_def split: if_splits)
  with assms(1) obtain q' r where q': "(q', Inr r) \<in> set (hx_exchanges t)"
    "nr_header r client_session_header = hx_session t" "\<not> discovers q'"
    "hx_session_bearer t \<noteq> [] \<longrightarrow> credentials q' = [''Bearer '' @ hx_session_bearer t]"
    by (auto simp: session_known_def)
  have "nq_verb q = ''DELETE'' \<longrightarrow> credentials q \<in> {[], credentials q'}" using assms(4) q'(4) by auto
  with q' d assms(2,3) show ?thesis by (auto simp: vouched_def discovery_stated)
qed (simp add: vouched_def assms(2))

lemma send_sound:
  assumes "sound_sessions t"
  shows "sound_sessions (snd (send_with_headers message headers answer t))"
proof (cases "hx_sendable t")
  case True
  obtain b t1 where p: "presented t = (b, t1)" by (cases "presented t")
  note same = presented_same [OF p]
  define q where "q = post_request t1 headers b message"
  define t2 where "t2 = note_exchange q answer t1"
  have k1: "session_known t1" using assms same by (simp add: sound_sessions_def session_known_def)
  have "vouched (hx_exchanges t1) q"
    by (rule request_vouched [OF k1]) (simp add: q_def posted_headers, simp add: q_def posted_headers, simp add: q_def post_request_def)
  then have v2: "all_vouched (hx_exchanges t2)"
    using assms same by (simp add: t2_def note_exchange_def all_vouched_snoc sound_sessions_def)
  have k2: "session_known t2" using k1 by (auto simp: session_known_def t2_def note_exchange_def)
  show ?thesis
  proof (cases answer)
    case (Inl f)
    have "sound_sessions t2" using v2 k2 by (simp add: sound_sessions_def)
    from keeps_sound [OF session_kept.failed this] show ?thesis
      by (simp add: send_with_headers_def True p Inl case_prod_unfold flip: q_def t2_def [unfolded Inl])
  next
    case (Inr r)
    let ?t3 = "(capture_session r b t2)\<lparr>hx_status := nr_status r\<rparr>"
    have "(q, Inr r) \<in> set (hx_exchanges t2)" by (simp add: t2_def note_exchange_def Inr)
    moreover have "\<not> is_discovery t2 \<Longrightarrow> \<not> discovers q"
      by (simp add: q_def posted_headers discovery_stated t2_def note_exchange_def is_discovery_def)
    moreover have "b \<noteq> [] \<Longrightarrow> credentials q = [''Bearer '' @ b]" by (simp add: q_def posted_headers)
    ultimately have "session_known ?t3" using k2 by (auto simp: session_known_def capture_session_def)
    with v2 have "sound_sessions ?t3" by (simp add: sound_sessions_def capture_session_def)
    from keeps_sound [OF session_kept.weighed this] show ?thesis
      by (simp add: send_with_headers_def True p Inr flip: q_def t2_def [unfolded Inr])
  qed
qed (use assms in \<open>simp add: send_with_headers_def\<close>)

lemma sent_recorded:
  assumes "hx_sendable t"
  shows "hx_exchanges (http_run (SendsFrame message mirrored answer) t)
    = hx_exchanges t @ [(post_request (snd (presented t)) mirrored (fst (presented t)) message, answer)]"
  using session_kept.failed session_kept.weighed assms presented_same(1) [of t "fst (presented t)" "snd (presented t)"]
  by (simp add: http_run_def send_with_headers_def case_prod_unfold Let_def session_stands_def note_exchange_def
      capture_session_def split: sum.split)

lemma disconnect_sound: "sound_sessions t \<Longrightarrow> sound_sessions (http_disconnect answer t)"
proof -
  assume t: "sound_sessions t"
  define q where "q = \<lparr>nq_verb = ''DELETE'', nq_headers = apply_headers t [] (hx_session_bearer t), nq_body = []\<rparr>"
  have "credentials q = (if hx_session_bearer t \<noteq> [] then [''Bearer '' @ hx_session_bearer t] else [])"
  proof (cases "hx_session_bearer t = []")
    case True
    have "field_values (connection_headers t) ''Authorization'' = []"
      using names_differ by (auto simp: connection_headers_def field_values_set Let_def)
    with True show ?thesis by (simp add: q_def apply_headers_def Let_def)
  qed (simp add: q_def applied_headers)
  then have "vouched (hx_exchanges t) q"
    using t by (intro request_vouched) (simp_all add: q_def applied_headers sound_sessions_def)
  then have "all_vouched (hx_exchanges (note_exchange q answer t))"
    using t by (simp add: note_exchange_def all_vouched_snoc sound_sessions_def)
  then show ?thesis
    using t by (simp add: http_disconnect_def terminate_session_def sound_sessions_def session_known_def http_reset_def flip: q_def)
qed

lemma quiet_keeps [simp]:
  "session_stands t (snd (settle_authorization t))" "session_stands t (snd (authorization_context t))"
  "session_stands t (snd (http_recipe t))" "session_stands t (use_protocol v t)"
  "session_stands t (with_token_func f t)" "session_stands t (http_set_timeout d t)"
  by (auto simp: settle_authorization_def authorization_context_def http_recipe_def resolve_bearer_def use_protocol_def
      with_token_func_def http_set_timeout_def session_stands_def Let_def split: option.split)

lemma run_sound: "sound_sessions t \<Longrightarrow> sound_sessions (http_run operation t)"
  by (cases operation) (simp_all add: http_run_def send_sound disconnect_sound keeps_sound [of t] session_kept.rel_reset session_kept.received)

text \<open>
  C23. A session is presented only by the connection it was assigned to: whatever a transport is asked to
  do and whatever it is answered, a request that names a session was assigned that very session by an
  earlier reply, neither is of the revision without sessions, and the request that releases it presents
  the credential it was opened with or none.
\<close>

theorem session_presented_home:
  assumes "http_reaches (new_http_client url sendable) t" "hx_exchanges t = past @ (q, answer) # rest"
    and "sid \<in> set (field_values (nq_headers q) client_session_header)"
  shows "\<exists>q' r. (q', Inr r) \<in> set past \<and> nr_header r client_session_header = sid
    \<and> \<not> discovers q \<and> \<not> discovers q' \<and> (nq_verb q = ''DELETE'' \<longrightarrow> credentials q \<in> {[], credentials q'})"
proof -
  have "sound_sessions (new_http_client url sendable)"
    by (simp add: sound_sessions_def session_known_def all_vouched_def new_http_client_def)
  with assms(1) have "sound_sessions t" by (induction rule: http_reaches.induct) (auto intro: run_sound)
  with assms(2,3) show ?thesis unfolding sound_sessions_def all_vouched_def vouched_def by blast
qed


text \<open>An endpoint that assigns a session to whoever asks.\<close>

definition demo_endpoint :: net_reply where
  "demo_endpoint = \<lparr>nr_status = 200,
     nr_header = (\<lambda>k. if k = client_session_header then ''s1'' else if k = ''Content-Type'' then ''application/json'' else []),
     nr_body = ''{\"jsonrpc\":\"2.0\",\"id\":1,\"result\":{}}'', nr_end = None\<rparr>"

definition demo_work :: "http_operation list" where
  "demo_work = [SetsToken (\<lambda>n. if n = 0 then ''t1'' else ''t2''), SettlesAuthorization, UsesProtocol ''2025-06-18'',
     SendsFrame ''{\"id\":1,\"method\":\"initialize\"}'' [] (Inr demo_endpoint), Receives, SettlesAuthorization,
     SendsFrame ''{\"id\":2,\"method\":\"tools/list\"}'' [] (Inr demo_endpoint), DisconnectsHttp (Inr demo_endpoint)]"

definition demo_http_client :: http_client where
  "demo_http_client = fold http_run demo_work (new_http_client ''https://m.example/mcp'' True)"

lemma reaches_fold: "http_reaches t0 t \<Longrightarrow> http_reaches t0 (fold http_run operations t)"
  by (induction operations arbitrary: t) (auto intro: http_reaches.http_step)

lemma demo_reached: "http_reaches (new_http_client ''https://m.example/mcp'' True) demo_http_client"
  unfolding demo_http_client_def by (rule reaches_fold [OF http_reaches.http_start])

theorem session_presented_home_witness:
  "\<exists>past q answer q' r. hx_exchanges demo_http_client = past @ [(q, answer)] \<and> nq_verb q = ''DELETE''
     \<and> field_values (nq_headers q) client_session_header = [''s1''] \<and> (q', Inr r) \<in> set past
     \<and> nr_header r client_session_header = ''s1'' \<and> credentials q \<in> {[], credentials q'}"
proof -
  have "case hx_exchanges demo_http_client of [a, b, (q, _)] \<Rightarrow> nq_verb q = ''DELETE''
      \<and> field_values (nq_headers q) client_session_header = [''s1''] | _ \<Rightarrow> False" by code_simp
  then obtain a b q answer where x: "hx_exchanges demo_http_client = [a, b] @ (q, answer) # []" "nq_verb q = ''DELETE''"
    "field_values (nq_headers q) client_session_header = [''s1'']"
    by (auto split: list.splits prod.splits)
  obtain q' r where "(q', Inr r) \<in> set [a, b]" "nr_header r client_session_header = ''s1''"
    "credentials q \<in> {[], credentials q'}"
    using session_presented_home [OF demo_reached x(1), of "''s1''"] x(2,3) by auto
  with x show ?thesis by blast
qed

section \<open>Whose answers\<close>

definition same_credential :: "http_client \<Rightarrow> http_client \<Rightarrow> bool" where
  "same_credential t t' \<longleftrightarrow> hx_settled t' = hx_settled t \<and> hx_authorization t' = hx_authorization t \<and> hx_bearer t' = hx_bearer t"

interpretation credential_kept: reply_relation same_credential
  by unfold_locales (auto simp: same_credential_def http_reset_def note_answered_def)

lemma sending_same:
  assumes "hx_settled t" shows "same_credential t (snd (send_with_headers m h a t))"
proof -
  have p: "presented t = (hx_bearer t, t)" using assms by (simp add: presented_def)
  have n: "same_credential t (note_exchange q a' t)" "same_credential t ((capture_session r b (note_exchange q a' t))\<lparr>hx_status := n\<rparr>)"
    for q a' r b n by (simp_all add: same_credential_def note_exchange_def capture_session_def)
  show ?thesis
    using credential_kept.rel_trans [OF n(1) credential_kept.failed] credential_kept.rel_trans [OF n(2) credential_kept.weighed]
    by (simp add: send_with_headers_def p case_prod_unfold Let_def credential_kept.rel_refl split: sum.split)
qed

lemma contexts_grow:
  assumes "hx_settled t"
  shows "hx_settled (http_run operation t) \<and> hx_authorization t \<le> hx_authorization (http_run operation t)
    \<and> (hx_authorization (http_run operation t) = hx_authorization t \<longrightarrow> hx_bearer (http_run operation t) = hx_bearer t)"
proof -
  have others: "same_credential t (snd (http_recipe t))" "same_credential t (snd (authorization_context t))"
    "same_credential t (use_protocol v t)" "same_credential t (http_disconnect a t)" "same_credential t (with_token_func f t)"
    "same_credential t (http_set_timeout d t)" for v a f d
    using assms by (simp_all add: same_credential_def http_recipe_def authorization_context_def resolve_bearer_def
        use_protocol_def http_disconnect_def terminate_session_def note_exchange_def http_reset_def with_token_func_def
        http_set_timeout_def Let_def split: option.split)
  show ?thesis
  proof (cases operation)
    case SettlesAuthorization
    with assms show ?thesis
      by (auto simp: http_run_def settle_authorization_def resolve_bearer_def Let_def split: option.split)
  qed (use assms sending_same [OF assms] others credential_kept.received [of t] credential_kept.rel_reset [of t] in
      \<open>simp_all add: http_run_def same_credential_def\<close>)
qed



section \<open>What a request states, and what a failure means\<close>

text \<open>
  A request states the connection and nothing displaces it: whatever headers mirror the frame, it
  carries the session of the transport exactly under a revision that has sessions, the version under the
  one without or once initialized, one value each, and the credential presented.
\<close>

theorem request_states_connection:
  assumes "hx_sendable t"
  shows "\<exists>q. hx_exchanges (http_run (SendsFrame message mirrored answer) t) = hx_exchanges t @ [(q, answer)]
    \<and> nq_body q = message
    \<and> field_values (nq_headers q) client_session_header = (if \<not> is_discovery t \<and> hx_session t \<noteq> [] then [hx_session t] else [])
    \<and> field_values (nq_headers q) client_version_header
        = (if is_discovery t \<or> hx_initialized t \<and> hx_version t \<noteq> [] then [hx_version t] else [])
    \<and> (fst (presented t) \<noteq> [] \<longrightarrow> credentials q = [''Bearer '' @ fst (presented t)])"
proof -
  obtain b t1 where p: "presented t = (b, t1)" by (cases "presented t")
  note same = presented_same [OF p]
  let ?q = "post_request t1 mirrored b message"
  have "hx_exchanges (http_run (SendsFrame message mirrored answer) t) = hx_exchanges t @ [(?q, answer)]"
    by (simp add: sent_recorded [OF assms] p)
  moreover have "nq_body ?q = message" by (simp add: post_request_def)
  ultimately show ?thesis
    using same(5,6) by (auto simp: p posted_headers session_stated_def version_stated_def)
qed

theorem request_states_connection_witness:
  "\<exists>q answer. hx_exchanges (http_run (SendsFrame ''{}'' [(''mcp-session-id'', ''forged'')] (Inr demo_endpoint))
       (fold http_run (take 4 demo_work) (new_http_client ''https://m.example/mcp'' True))) ! 1 = (q, answer)
     \<and> field_values (nq_headers q) client_session_header = [''s1'']"
proof -
  let ?t = "fold http_run (take 4 demo_work) (new_http_client ''https://m.example/mcp'' True)"
  have t: "hx_sendable ?t" "\<not> is_discovery ?t" "hx_session ?t = ''s1''" "length (hx_exchanges ?t) = 1" by code_simp+
  from request_states_connection [OF t(1), of "''{}''" "[(''mcp-session-id'', ''forged'')]" "Inr demo_endpoint"] t(2-4)
  show ?thesis by (auto simp: nth_append)
qed

definition says_nothing :: "http_failure \<Rightarrow> bool" where
  "says_nothing e = (case e of HttpFailure f \<Rightarrow> fl_unanswered f | AuthorizationRequired _ _ \<Rightarrow> False)"

definition refused_as_put :: "http_failure \<Rightarrow> bool" where
  "refused_as_put e = (case e of HttpFailure f \<Rightarrow> fl_class f = ChannelDown \<and> \<not> fl_unanswered f | AuthorizationRequired _ _ \<Rightarrow> False)"

lemma failed_says_nothing: "\<not> refused_as_put (fst (http_failed f m t))"
  by (simp add: http_failed_def refused_as_put_def plain_failure_def wrapped_class_def)

text \<open>
  C25. A server is taken for an older one only by what the binding names: a request fails as one refused
  the way it was put exactly when it was answered 400 without a JSON-RPC error; it asks for
  authorization exactly on 401 and 403, and is told its session expired exactly on 404 to a request
  that had one; and a status that describes the moment never delivers the error its body may hold.
\<close>

theorem failure_means:
  assumes "hx_sendable t"
  shows "case send_with_headers message mirrored (Inr r) t of (e, t') \<Rightarrow>
      ((\<exists>f. e = Some f \<and> refused_as_put f) \<longleftrightarrow> nr_status r = 400 \<and> first_error_frame r = None)
    \<and> ((\<exists>m c. e = Some (AuthorizationRequired m c)) \<longleftrightarrow> nr_status r \<in> {401, 403})
    \<and> ((\<exists>f. e = Some (HttpFailure f) \<and> fl_class f = SessionExpired) \<longleftrightarrow> nr_status r = 404 \<and> hx_session t \<noteq> [])
    \<and> (passing (nr_status r) \<longrightarrow> e \<noteq> None \<and> hx_queue t' = [])"
proof -
  obtain b t1 where p: "presented t = (b, t1)" by (cases "presented t")
  let ?t2 = "(capture_session r b (note_exchange (post_request t1 mirrored b message) (Inr r) t1))\<lparr>hx_status := nr_status r\<rparr>"
  have s: "send_with_headers message mirrored (Inr r) t = weigh_reply message (hx_session t \<noteq> []) r ?t2"
    by (simp add: send_with_headers_def assms p Let_def)
  have c: "(case fst (http_failed f m t3) of HttpFailure g \<Rightarrow> fl_class g \<noteq> SessionExpired | _ \<Rightarrow> False)
      \<and> \<not> refused_as_put (fst (http_failed f m t3))" for f m t3
    by (simp add: http_failed_def refused_as_put_def plain_failure_def wrapped_class_def)
  consider "nr_status r \<in> {401, 403}" | "nr_status r = 404" "hx_session t \<noteq> []"
    | "nr_status r \<notin> {401, 403}" "nr_status r = 404 \<longrightarrow> hx_session t = []" "nr_status r < 200 \<or> 300 \<le> nr_status r"
    | "200 \<le> nr_status r" "nr_status r < 300"
    by (cases "nr_status r \<in> {401, 403}"; cases "nr_status r = 404";
        cases "nr_status r < 200 \<or> 300 \<le> nr_status r") auto
  then show ?thesis
  proof cases
    case 4
    have n: "nr_status r \<noteq> 401" "nr_status r \<noteq> 403" "nr_status r \<noteq> 404" "nr_status r \<noteq> 400" "\<not> passing (nr_status r)"
      using 4 by (auto simp: passing_def)
    have "\<exists>e t'. take_reply message r t3 = (e, t') \<and> (e = None \<or> (\<exists>f m t4. e = Some (fst (http_failed f m t4))))" for t3
      by (auto simp: take_reply_def case_prod_unfold Let_def split: option.split)
    then obtain e t' where e: "take_reply message r (note_answered ?t2) = (e, t')"
      "e = None \<or> (\<exists>f m t4. e = Some (fst (http_failed f m t4)))" by blast
    with c have "\<forall>g. e = Some g \<longrightarrow> (case g of HttpFailure h \<Rightarrow> fl_class h \<noteq> SessionExpired | _ \<Rightarrow> False) \<and> \<not> refused_as_put g"
      by blast
    with e(1) n 4 show ?thesis by (auto simp: s weigh_reply_def split: http_failure.splits)
  qed (auto simp: s weigh_reply_def handle_unsuccessful_def refused_as_put_def passing_def plain_failure_def client_error_def
      refuses_the_request_def http_reset_def Let_def split: option.splits http_failure.splits)
qed

definition demo_refusal :: "nat \<Rightarrow> bytes \<Rightarrow> net_reply" where
  "demo_refusal status body = \<lparr>nr_status = status, nr_header = (\<lambda>k. if k = ''Content-Type'' then ''application/json'' else []),
     nr_body = body, nr_end = None\<rparr>"

theorem failure_means_witness:
  "(\<exists>f. fst (send_with_headers ''{}'' [] (Inr (demo_refusal 400 [])) (new_http_client ''https://m.example/mcp'' True)) = Some f
      \<and> refused_as_put f)
   \<and> \<not> (\<exists>f. fst (send_with_headers ''{}'' [] (Inr (demo_refusal 429 ''{\"jsonrpc\":\"2.0\",\"error\":{\"code\":-32603}}''))
          (new_http_client ''https://m.example/mcp'' True)) = Some f \<and> refused_as_put f)"
proof -
  have t: "hx_sendable (new_http_client ''https://m.example/mcp'' True)" by (simp add: new_http_client_def)
  have "first_error_frame (demo_refusal 400 []) = None" "nr_status (demo_refusal 400 []) = 400"
    "nr_status (demo_refusal 429 ''{\"jsonrpc\":\"2.0\",\"error\":{\"code\":-32603}}'') = 429" by code_simp+
  with failure_means [OF t, where message = "''{}''" and mirrored = "[]" and r = "demo_refusal 400 []"]
    failure_means [OF t, where message = "''{}''" and mirrored = "[]" and r = "demo_refusal 429 ''{\"jsonrpc\":\"2.0\",\"error\":{\"code\":-32603}}''"]
  show ?thesis by (auto simp: case_prod_unfold)
qed

end
