(* ===== verification/Http_Delivery.thy ===== *)
theory Http_Delivery
  imports Http_Client_Laws Client_Server
begin

text \<open>
  The two ends of HTTP together: what the server writes of its frames (\<open>transport/http.go\<close>) is what the
  transport of the client (\<open>client/transport_http.go\<close>) hands on, in order, whether it is one JSON document
  or an event stream.
\<close>

section \<open>Frames on one line\<close>

definition visible :: "bytes \<Rightarrow> bool" where "visible s \<longleftrightarrow> (\<forall>c \<in> set s. 32 \<le> byte c)"

lemma visible_parts [simp]:
  "visible []" "visible (c # s) \<longleftrightarrow> 32 \<le> byte c \<and> visible s" "visible (s @ t) \<longleftrightarrow> visible s \<and> visible t"
  by (auto simp: visible_def)

lemma hex_visible: "hex_digit c \<Longrightarrow> 32 \<le> byte c"
  by (auto simp: hex_digit_def is_digit_def)

lemma escape_visible: "simple_escape c \<Longrightarrow> 32 \<le> byte c"
  by (auto simp: simple_escape_def)

lemma str_body_visible: "str_body b \<Longrightarrow> visible b"
  by (induction b rule: str_body_induct) (simp_all add: hex_visible escape_visible not_less)

lemma digits_visible: "visible (take_digits s)"
  by (auto simp: visible_def take_digits_def is_digit_def dest: set_takeWhileD)

lemma number_visible:
  assumes "scan_number s = Some (n, q)" shows "visible n"
proof -
  have i: "scan_int s' = Some (b, r) \<Longrightarrow> visible b" for s' b r
    using digits_visible by (auto simp: scan_int_def split: list.splits if_splits)
  have d: "scan_digits1 s' = Some (b, r) \<Longrightarrow> visible b" for s' b r
    using digits_visible by (auto simp: scan_digits1_def split: if_splits)
  have f: "scan_frac s' = Some (b, r) \<Longrightarrow> visible b" for s' b r
    using d by (auto simp: scan_frac_def prepend_Some split: list.splits if_splits)
  have e: "scan_exp s' = Some (b, r) \<Longrightarrow> visible b" for s' b r
    using d by (auto simp: scan_exp_def prepend_Some split: list.splits if_splits)
  show ?thesis
    using assms i f e by (auto simp: scan_number_def Let_def split: option.splits prod.splits list.splits if_splits)
qed

lemma printed_visible:
  "wf_json d v \<Longrightarrow> visible (print_json v)"
  "wf_elems d vs \<Longrightarrow> visible (print_elems vs)"
  "wf_members d ms \<Longrightarrow> visible (print_members ms)"
proof (induction v and vs and ms arbitrary: d and d and d rule: print_json_print_elems_print_members.induct)
  case (3 n)
  then show ?case using number_visible by fastforce
next
  case (4 b)
  then show ?case using str_body_visible str_body_html_escape by (simp add: quoted_def)
next
  case (10 k r v ms)
  then show ?case using str_body_visible str_body_html_escape by (auto simp: quoted_def)
qed auto

section \<open>The bytes of a reply\<close>

text \<open>\<open>writeSSEFrame\<close>, and the whole reply as the client receives it.\<close>

definition sse_frame :: "bytes \<Rightarrow> bytes" where
  "sse_frame msg = ''data: '' @ msg @ [CHR 0x0A, CHR 0x0A]"

definition body_bytes :: "http_body \<Rightarrow> bytes" where
  "body_bytes b = (case b of NoContent \<Rightarrow> [] | JsonBody s \<Rightarrow> s | EventStream ms \<Rightarrow> concat (map sse_frame ms))"

definition body_type :: "http_body \<Rightarrow> bytes" where
  "body_type b = (case b of NoContent \<Rightarrow> [] | JsonBody _ \<Rightarrow> ''application/json'' | EventStream _ \<Rightarrow> ''text/event-stream'')"

definition arrived :: "http_response \<Rightarrow> net_reply" where
  "arrived rp = \<lparr>nr_status = ho_status rp,
     nr_header = (\<lambda>k. if k = ''Content-Type'' then body_type (ho_body rp)
                      else if k = client_session_header then ho_session rp else []),
     nr_body = body_bytes (ho_body rp), nr_end = None\<rparr>"

text \<open>The frames a reply was written of.\<close>

definition wrote :: "http_response \<Rightarrow> bytes list \<Rightarrow> bool" where
  "wrote rp ms = (case ho_body rp of
     NoContent \<Rightarrow> ms = [] | JsonBody s \<Rightarrow> \<exists>m. s = m @ [CHR 0x0A] \<and> ms = [m] | EventStream fs \<Rightarrow> ms = fs)"

text \<open>A frame as an encoder writes it: a JSON value, on one line.\<close>

definition framed :: "bytes \<Rightarrow> bool" where
  "framed msg \<longleftrightarrow> (\<exists>d v. msg = print_json v \<and> wf_json d v)"

lemma framed_line:
  assumes "framed msg" shows "tight msg" "visible msg"
proof -
  obtain d v where v: "msg = print_json v" "wf_json d v" using assms by (auto simp: framed_def)
  show "tight msg" using token_tight reads_print(1) [OF v(2)] v(1) by blast
  show "visible msg" using printed_visible(1) [OF v(2)] v(1) by simp
qed

lemma read_line_at: "CHR 0x0A \<notin> set s \<Longrightarrow> read_line (s @ CHR 0x0A # r) = Some (s @ [CHR 0x0A], r)"
proof -
  assume s: "CHR 0x0A \<notin> set s"
  then have "dropWhile (\<lambda>c. c \<noteq> CHR 0x0A) (s @ CHR 0x0A # r) = CHR 0x0A # r"
    "takeWhile (\<lambda>c. c \<noteq> CHR 0x0A) (s @ CHR 0x0A # r) = s"
    by (induction s) auto
  then show ?thesis by (simp add: read_line_def)
qed

lemma trim_line:
  assumes "s \<noteq> []" "last s \<noteq> CHR 0x0A" "last s \<noteq> CHR 0x0D"
  shows "trim_right_of (s @ [CHR 0x0A]) [CHR 0x0D, CHR 0x0A] = s"
  using assms by (cases s rule: rev_cases) (auto simp: trim_right_of_def)

text \<open>One frame of a stream, and a stream of them.\<close>

lemma next_frame:
  assumes "framed msg" "os_event s = fresh_event" "os_rest s = sse_frame msg @ r"
  shows "stream_next s = (Inr msg, s\<lparr>os_rest := r\<rparr>)"
proof -
  note f = framed_line [OF assms(1)]
  have ne: "msg \<noteq> []" using f(1) by (simp add: tight_def)
  have nl: "CHR 0x0A \<notin> set (''data: '' @ msg)" "last msg \<noteq> CHR 0x0A" "last msg \<noteq> CHR 0x0D"
    using f(2) bspec [OF f(2) [unfolded visible_def] last_in_set [OF ne]] by (auto simp: visible_def)
  have l1: "read_line (os_rest s) = Some ((''data: '' @ msg) @ [CHR 0x0A], CHR 0x0A # r)"
    using read_line_at [OF nl(1), of "CHR 0x0A # r"] by (simp add: assms(3) sse_frame_def)
  have "trim_right_of ((''data: '' @ msg) @ [CHR 0x0A]) [CHR 0x0D, CHR 0x0A] = ''data: '' @ msg"
    by (rule trim_line) (use ne nl in auto)
  moreover have "sse_data_field (''data: '' @ msg) = Some msg"
    by (simp add: sse_data_field_def cut_at_def has_prefix_def)
  ultimately have e1: "sse_line fresh_event ((''data: '' @ msg) @ [CHR 0x0A]) = (None, \<lparr>ev_data = msg, ev_started = True\<rparr>)"
    by (simp add: sse_line_def fresh_event_def)
  have l2: "read_line (CHR 0x0A # r) = Some ([CHR 0x0A], r)" by (simp add: read_line_def)
  have e2: "sse_line \<lparr>ev_data = msg, ev_started = True\<rparr> [CHR 0x0A] = (Some msg, fresh_event)"
    using f(1) ne by (simp add: sse_line_def sse_flush_def trim_right_of_def)
  have "stream_next s = stream_next (s\<lparr>os_rest := CHR 0x0A # r, os_event := \<lparr>ev_data = msg, ev_started = True\<rparr>\<rparr>)"
    by (subst stream_next.simps) (simp only: l1 assms(2) e1 option.case prod.case)
  also have "\<dots> = (Inr msg, s\<lparr>os_rest := r\<rparr>)"
    by (subst stream_next.simps) (simp add: l2 e2 assms(2) [symmetric])
  finally show ?thesis .
qed

lemma stream_over: "os_event s = fresh_event \<Longrightarrow> os_rest s = [] \<Longrightarrow> stream_next s = (Inl (os_end s), s)"
  by (subst stream_next.simps)
    (simp add: read_line_def sse_line_def trim_right_of_def sse_flush_def fresh_event_def trim_space_def trim_left_def
      trim_right_def)


lemma trim_line_feed:
  assumes "tight m" shows "trim_space (m @ [CHR 0x0A]) = m"
proof -
  have high: "\<forall>w \<in> set unicode_spaces. w \<noteq> [] \<and> 128 \<le> hd w" by (rule unicode_spaces_high)
  have "trim_left (m @ [CHR 0x0A]) = m @ [CHR 0x0A]"
    using assms high unfolding trim_left_def tight_def
    by (intro trim_spaces_0 space_width_tight) auto
  moreover have "trim_right (m @ [CHR 0x0A]) = m"
  proof -
    have "space_width (map rev unicode_spaces) (rev m) = 0"
      using assms unicode_spaces_high(2) unfolding tight_def
      by (intro space_width_tight) (auto simp: hd_rev)
    then show ?thesis by (simp add: trim_right_def space_width_def ascii_space_def Let_def trim_spaces_0)
  qed
  ultimately show ?thesis by (simp add: trim_space_def)
qed

section \<open>What the handler replies\<close>

lemma reply_status_values: "reply_status raw rsp \<in> {200, 400, 404, 500}"
  by (simp add: reply_status_def status_for_response_def split: option.split)

definition plain_reply :: "http_response \<Rightarrow> bool" where
  "plain_reply rp \<longleftrightarrow> (\<exists>ms. wrote rp ms)
     \<and> (ho_status rp \<in> {200, 400, 404, 500} \<or> ho_status rp = 202 \<and> ho_body rp = NoContent)"

lemma written_plain:
  "plain_reply accepted_reply" "plain_reply (write_internal_error raw orig)" "plain_reply (buffered_reply h raw res)"
proof -
  show a: "plain_reply accepted_reply" by (simp add: plain_reply_def accepted_reply_def wrote_def)
  show e: "plain_reply (write_internal_error raw orig)" for orig
    using reply_status_values by (simp add: plain_reply_def write_internal_error_def write_json_def wrote_def Let_def)
  show "plain_reply (buffered_reply h raw res)"
    using reply_status_values a e
    by (simp add: buffered_reply_def Let_def split: option.split)
      (auto simp: plain_reply_def write_json_def write_sse_def wrote_def)
qed

lemma handler_plain:
  assumes "http_handler opts ts h body = Some (Replied rp)" shows "plain_reply rp"
proof -
  obtain max_body raw where s: "serve max_body ts h (Readable raw) = Some (Replied rp)"
    using assms by (auto simp: http_handler_def Let_def split: sum.splits admission.splits)
  have "plain_reply rp'" if "serve_stream h ts raw' session = Some rp'" for raw' session rp'
    using that written_plain(3)
    by (auto simp: serve_stream_def Let_def split: option.splits if_splits prod.splits)
      (simp_all add: plain_reply_def wrote_def)
  then show ?thesis
    using s written_plain(3)
    by (auto simp: serve_def Let_def split: sum.splits if_splits option.splits prod.splits)
qed

section \<open>Delivery\<close>

text \<open>The transport hands on these frames, and then has no message.\<close>

fun delivers :: "http_client \<Rightarrow> bytes list \<Rightarrow> bool" where
  "delivers t [] = (fst (http_receive t) = Inl no_message)"
| "delivers t (m # ms) = (case http_receive t of (r, t') \<Rightarrow> r = Inr m \<and> delivers t' ms)"

lemma delivers_queue:
  "hx_stream t = None \<Longrightarrow> hx_queue t = ms \<Longrightarrow> delivers t ms"
  by (induction ms arbitrary: t) (auto simp: http_receive_def)

lemma delivers_stream:
  assumes "hx_queue t = []" "hx_stream t = Some (stream_of (concat (map sse_frame ms)) None)" "\<forall>m \<in> set ms. framed m"
  shows "delivers t ms"
  using assms
proof (induction ms arbitrary: t)
  case Nil
  then show ?case by (simp add: http_receive_def stream_over stream_of_def)
next
  case (Cons m ms)
  have "stream_next (stream_of (concat (map sse_frame (m # ms))) None) = (Inr m, stream_of (concat (map sse_frame ms)) None)"
    using next_frame [of m "stream_of (concat (map sse_frame (m # ms))) None" "concat (map sse_frame ms)"] Cons.prems(3)
    by (simp add: stream_of_def)
  then show ?case using Cons by (simp add: http_receive_def)
qed

text \<open>The error an unsuccessful reply is written of is found in it, in either form.\<close>

definition one_error :: "bytes list \<Rightarrow> bool" where
  "one_error ms = (case ms of [m] \<Rightarrow> has_jsonrpc_error m \<and> length m + 8 \<le> max_error_body_bytes | _ \<Rightarrow> False)"

lemma error_found:
  assumes "one_error ms" "wrote rp ms" "\<forall>m \<in> set ms. framed m"
  shows "first_error_frame (arrived rp) = Some (hd ms)"
proof -
  obtain m where m: "ms = [m]" "has_jsonrpc_error m" "length m + 8 \<le> max_error_body_bytes" "framed m"
    using assms(1,3) by (auto simp: one_error_def split: list.splits)
  show ?thesis
  proof (cases "ho_body rp")
    case NoContent
    with assms(2) m(1) show ?thesis by (simp add: wrote_def)
  next
    case (JsonBody s)
    then have s: "s = m @ [CHR 0x0A]" using assms(2) m(1) by (auto simp: wrote_def)
    have "\<not> is_event_stream (arrived rp)"
      unfolding is_event_stream_def arrived_def using JsonBody by (simp add: body_type_def) code_simp
    moreover have "m \<noteq> []" using framed_line(1) [OF m(4)] by (simp add: tight_def)
    ultimately show ?thesis
      using m JsonBody s trim_line_feed [OF framed_line(1) [OF m(4)]]
      by (simp add: first_error_frame_def limited_def arrived_def body_bytes_def stream_of_def Let_def)
  next
    case (EventStream fs)
    then have fs: "fs = [m]" using assms(2) m(1) by (auto simp: wrote_def)
    have e: "is_event_stream (arrived rp)"
      unfolding is_event_stream_def arrived_def using EventStream by (simp add: body_type_def) code_simp
    have l: "limited (arrived rp) = stream_of (sse_frame m) None"
      using EventStream fs m(3) by (simp add: limited_def arrived_def body_bytes_def sse_frame_def)
    have "stream_next (stream_of (sse_frame m) None) = (Inr m, stream_of [] None)"
      using next_frame [OF m(4), of "stream_of (sse_frame m) None" "[]"] by (simp add: stream_of_def)
    with e l m show ?thesis by (simp add: first_error_frame_def find_error_frame.simps [of "stream_of (sse_frame m) None"])
  qed
qed

lemma presented_quiet:
  "presented t = (b, t1) \<Longrightarrow> hx_queue t1 = hx_queue t \<and> hx_stream t1 = hx_stream t"
  by (auto simp: presented_def resolve_bearer_def split: if_splits option.splits)

lemma captured_quiet [simp]:
  "hx_queue (capture_session r b t) = hx_queue t" "hx_stream (capture_session r b t) = hx_stream t"
  by (simp_all add: capture_session_def)

lemma taken_delivers:
  assumes "wrote rp ms" "\<forall>m \<in> set ms. framed m" "hx_queue t = []" "hx_stream t = None"
    and "ho_status rp = 202 \<longrightarrow> ho_body rp = NoContent"
  shows "\<exists>t'. take_reply message (arrived rp) t = (None, t') \<and> delivers t' ms"
proof (cases "ho_body rp")
  case NoContent
  have "\<not> is_event_stream (arrived rp)"
    unfolding is_event_stream_def arrived_def using NoContent by (simp add: body_type_def) code_simp
  with NoContent assms show ?thesis
    by (auto simp: take_reply_def arrived_def body_bytes_def wrote_def close_stream_def http_receive_def)
next
  case (JsonBody s)
  then obtain m where m: "s = m @ [CHR 0x0A]" "ms = [m]" using assms(1) by (auto simp: wrote_def)
  have n: "\<not> is_event_stream (arrived rp)"
    unfolding is_event_stream_def arrived_def using JsonBody by (simp add: body_type_def) code_simp
  have f: "tight m" using framed_line(1) assms(2) m(2) by simp
  then have "m \<noteq> []" by (simp add: tight_def)
  then have "take_reply message (arrived rp) t = (None, enqueue_frame m (close_stream t))"
    using n JsonBody m trim_line_feed [OF f] assms(5)
    by (simp add: take_reply_def arrived_def body_bytes_def Let_def)
  moreover have "delivers (enqueue_frame m (close_stream t)) ms"
    by (rule delivers_queue) (simp_all add: enqueue_frame_def close_stream_def assms(3) m(2))
  ultimately show ?thesis by blast
next
  case (EventStream fs)
  then have fs: "ms = fs" using assms(1) by (simp add: wrote_def)
  have e: "is_event_stream (arrived rp)"
    unfolding is_event_stream_def arrived_def using EventStream by (simp add: body_type_def) code_simp
  have "take_reply message (arrived rp) t = (None, t\<lparr>hx_stream := Some (stream_of (concat (map sse_frame ms)) None)\<rparr>)"
    using e EventStream fs by (simp add: take_reply_def arrived_def body_bytes_def)
  moreover have "delivers (t\<lparr>hx_stream := Some (stream_of (concat (map sse_frame ms)) None)\<rparr>) ms"
    by (rule delivers_stream) (simp_all add: assms(2,3))
  ultimately show ?thesis by blast
qed

text \<open>
  C22. What the server of HTTP writes is what the client of HTTP hands on: whenever the handler replies
  with frames that are JSON, in one document or as an event stream, sending succeeds over that reply and
  receiving gives exactly these frames in order and then no message. An unsuccessful status makes no
  difference where the frame is a JSON-RPC error within the bound the client reads, unless a 404 ends a session.
\<close>

theorem http_reply_delivered:
  assumes "http_handler opts ts h body = Some (Replied rp)"
    and "wrote rp ms" "\<forall>m \<in> set ms. framed m"
    and "ho_status rp \<in> {200, 202} \<or> one_error ms \<and> (ho_status rp = 404 \<longrightarrow> hx_session t = [])"
    and "hx_sendable t" "hx_queue t = []" "hx_stream t = None"
  shows "\<exists>t'. send_with_headers message mirrored (Inr (arrived rp)) t = (None, t') \<and> delivers t' ms"
proof -
  have plain: "ho_status rp \<in> {200, 400, 404, 500} \<or> ho_status rp = 202 \<and> ho_body rp = NoContent"
    using handler_plain [OF assms(1)] by (simp add: plain_reply_def)
  obtain b t1 where p: "presented t = (b, t1)" by (cases "presented t")
  let ?q = "post_request t1 mirrored b message"
  let ?t2 = "(capture_session (arrived rp) b (note_exchange ?q (Inr (arrived rp)) t1))\<lparr>hx_status := ho_status rp\<rparr>"
  have st: "nr_status (arrived rp) = ho_status rp" by (simp add: arrived_def)
  have s: "send_with_headers message mirrored (Inr (arrived rp)) t = weigh_reply message (hx_session t \<noteq> []) (arrived rp) ?t2"
    by (simp add: send_with_headers_def assms(5) p Let_def st)
  have same: "hx_queue ?t2 = []" "hx_stream ?t2 = None"
    using presented_quiet [OF p] assms(6,7) by (simp_all add: note_exchange_def)
  show ?thesis
  proof (cases "ho_status rp \<in> {200, 202}")
    case True
    then have w: "send_with_headers message mirrored (Inr (arrived rp)) t = take_reply message (arrived rp) (note_answered ?t2)"
      by (auto simp: s weigh_reply_def st)
    have "hx_queue (note_answered ?t2) = []" "hx_stream (note_answered ?t2) = None"
      using same by (simp_all add: note_answered_def)
    from taken_delivers [OF assms(2,3) this] plain show ?thesis by (auto simp: w)
  next
    case False
    with assms(4) plain have e: "one_error ms" "ho_status rp = 404 \<longrightarrow> hx_session t = []" "ho_status rp \<in> {400, 404, 500}" by auto
    then obtain m where m: "ms = [m]" by (auto simp: one_error_def split: list.splits)
    have "send_with_headers message mirrored (Inr (arrived rp)) t = handle_unsuccessful (arrived rp) ?t2"
      using e(2,3) by (auto simp: s weigh_reply_def st)
    also have "\<dots> = (None, enqueue_frame m (close_stream ?t2))"
      using e(3) error_found [OF e(1) assms(2,3)] m by (auto simp: handle_unsuccessful_def st passing_def)
    finally have f: "send_with_headers message mirrored (Inr (arrived rp)) t = (None, enqueue_frame m (close_stream ?t2))" .
    have "delivers (enqueue_frame m (close_stream ?t2)) ms"
      using same(1) by (intro delivers_queue) (simp_all add: enqueue_frame_def close_stream_def m)
    with f show ?thesis by blast
  qed
qed

text \<open>A server that reports on a call before it answers it, and a caller that takes a stream.\<close>

definition reporting_server :: transport_server where
  "reporting_server = \<lparr>ts_handle = (\<lambda>e raw session w.
       Some (\<lparr>hr_response = Some \<lparr>rs_id = Id ''1'', rs_result = ''{}'', rs_error = None\<rparr>, hr_has_response = True, hr_session = []\<rparr>,
         case e of None \<Rightarrow> w | Some em \<Rightarrow> snd (em ''{\"progress\":1}'' w))),
     ts_streams = True, ts_issued = None, ts_versions = None\<rparr>"

definition reported_call :: bytes where
  "reported_call = ''{\"jsonrpc\":\"2.0\",\"id\":1,\"method\":\"ping\",\"params\":{\"_meta\":{\"progressToken\":1}}}''"

definition stream_taker :: headers where
  "stream_taker name = (if name = ''Accept'' then [''text/event-stream''] else [])"

lemma framed_check: "json_parse s = Some v \<Longrightarrow> print_json v = s \<Longrightarrow> framed s"
  using json_parse_wf by (auto simp: framed_def)

definition reads_back :: "bytes \<Rightarrow> bool" where
  "reads_back s = (case json_parse s of None \<Rightarrow> False | Some v \<Rightarrow> print_json v = s)"

lemma reads_back_framed: "reads_back s \<Longrightarrow> framed s"
  using framed_check by (auto simp: reads_back_def split: option.splits)

definition reported_frames :: "bytes list" where
  "reported_frames = [''{\"progress\":1}'', ''{\"jsonrpc\":\"2.0\",\"id\":1,\"result\":{}}'']"

definition reported :: http_response where
  "reported = \<lparr>ho_status = 200, ho_session = [], ho_body = EventStream reported_frames\<rparr>"

lemma reported_call_reply:
  "http_handler [] reporting_server stream_taker (Readable reported_call) = Some (Replied reported)"
  by code_simp

theorem http_reply_delivered_witness:
  "\<exists>t'. send_with_headers reported_call [] (Inr (arrived reported)) (new_http_client ''https://m.example/mcp'' True) = (None, t')
     \<and> delivers t' [''{\"progress\":1}'', ''{\"jsonrpc\":\"2.0\",\"id\":1,\"result\":{}}'']"
proof -
  have w: "wrote reported reported_frames" by (simp add: wrote_def reported_def)
  have "list_all reads_back reported_frames" by code_simp
  then have f: "\<forall>m \<in> set reported_frames. framed m" using reads_back_framed by (simp add: list_all_iff)
  have t: "ho_status reported \<in> {200, 202}" "hx_sendable (new_http_client ''https://m.example/mcp'' True)"
    "hx_queue (new_http_client ''https://m.example/mcp'' True) = []"
    "hx_stream (new_http_client ''https://m.example/mcp'' True) = None"
    by (simp_all add: reported_def new_http_client_def)
  show ?thesis
    unfolding reported_frames_def [symmetric] using http_reply_delivered [OF reported_call_reply w f disjI1 [OF t(1)] t(2-4)] by blast
qed

end
