(* ===== verification/Spec2Isabelle.thy ===== *)
theory Spec2Isabelle
  imports Tool_Calls Http_Transport Stdio_Transport Subscription Client_Properties Catalog_Server Bearer_Challenge Oauth_Laws Http_Delivery
begin

text \<open>
  A verification development for \<open>velocity-mcp\<close>, a library for Model Context Protocol (MCP)
  servers and clients in Go. The root theory only joins the others; the model and the theorems
  stand in the theory of the component they are about.

  \<^bold>\<open>The program.\<close> A message of the protocol is a JSON-RPC object. A transport (\<open>transport/\<close>:
  HTTP, stdio, and an in-memory one for tests) reads its bytes, checks the headers or frames that go
  with them and calls \<open>Server.Handle\<close> (\<open>server/handle.go\<close>). The server parses it (\<open>jsonrpc/\<close>),
  checks the protocol metadata of its revision (\<open>server/meta.go\<close>), routes it to a method
  (\<open>server/methods/\<close>), which runs a tool, resource or prompt of the application, and wraps the
  result in the envelope of the revision (\<open>server/envelope.go\<close>). The transport writes the reply,
  and the session id an initialize opened.

  \<^bold>\<open>Theories and sources.\<close>
  \<^item> \<open>Prelude\<close>: bytes, decimal digits, 64-bit \<open>int\<close> arithmetic, error values, the
    \<open>named_theorems\<close> collections.
  \<^item> \<open>Go_Json\<close>, \<open>Json_Laws\<close>, \<open>Json_Roundtrip\<close>, \<open>Json_Encode\<close>, \<open>Json_Objects\<close>, \<open>Any_Laws\<close>:
    what the sources use of \<open>encoding/json\<close>, at the level of bytes: the scanner, decoding into
    raw members and into \<open>any\<close>, compaction, encoding of strings, objects and maps, the laws
    relating them. \<open>Base64\<close> and \<open>Go_Float\<close> do the same for \<open>encoding/base64\<close> and for the
    \<open>float64\<close> a JSON number decodes to.
  \<^item> \<open>JsonRpc\<close>: \<open>jsonrpc/jsonrpc.go\<close>, \<open>jsonrpc/parse.go\<close>.
  \<^item> \<open>Protocol_Meta\<close>: \<open>server/protocol.go\<close>, \<open>server/meta.go\<close>.
  \<^item> \<open>Header_Value\<close>, \<open>Mcp_Headers\<close>: \<open>transport/headervalue.go\<close>, \<open>transport/mcp_headers.go\<close>,
    \<open>transport/status.go\<close>.
  \<^item> \<open>Content\<close>: \<open>content/\<close>. \<open>Request\<close>: \<open>server/request.go\<close>, \<open>server/argpath.go\<close>.
    \<open>Primitives\<close>: \<open>server/primitive.go\<close>, \<open>response.go\<close>, \<open>invoke.go\<close>, \<open>completion.go\<close>,
    \<open>schema/metadata.go\<close>. \<open>Pagination\<close>, \<open>Uri_Template\<close>, \<open>Session\<close>: the files of \<open>server/\<close>
    of those names. \<open>Envelope\<close>: \<open>server/envelope.go\<close>, \<open>caching.go\<close>.
  \<^item> \<open>Methods\<close>: \<open>server/methods/\<close>, \<open>server/context.go\<close>, \<open>initialize_fallback.go\<close>.
  \<^item> \<open>Server\<close>: \<open>server/server.go\<close>, \<open>options.go\<close>, \<open>method_option.go\<close>, \<open>extensions.go\<close>,
    \<open>handle.go\<close>, \<open>event/event.go\<close>. \<open>Tool_Calls\<close> and \<open>Subscription\<close> compose it with the methods.
  \<^item> \<open>Transport\<close>: \<open>transport/transport.go\<close> and the contract \<open>mcp_server\<close> of a server, a locale
    interpreted on the model of the server. \<open>Http_Transport\<close>: \<open>transport/http.go\<close>.
    \<open>Stdio_Transport\<close>: \<open>transport/stdio.go\<close> and \<open>transport/fake.go\<close>.
  \<^item> \<open>Schema\<close>: \<open>schema/schema.go\<close>, the builders of JSON schemas.
  \<^item> \<open>Catalog_Size\<close>, \<open>Catalog_Batch\<close>, \<open>Catalog_Search\<close>, \<open>Catalog_Execute\<close>, \<open>Catalog_Server\<close>:
    \<open>server/tool_catalog.go\<close>, in this order: sizes and clipping, the reply of a batch, the search meta
    tool, the execute meta tool, and the options and \<open>New\<close> of a server with a catalog.
  \<^item> \<open>Integral_Number\<close> and \<open>Mirrored\<close>: \<open>client/mirrored.go\<close>, \<open>client/headers.go\<close>. \<open>Wire\<close>: the
    encoder of the client, which escapes no HTML characters. \<open>Client_Results\<close>: \<open>client/unfinished.go\<close>,
    \<open>client/errors.go\<close>, \<open>client/caching.go\<close>. \<open>Client_Exchange\<close>: an attempt at a request and the frames
    served meanwhile, of \<open>client/protocol.go\<close>. \<open>Client_Server\<close> joins a request of the client with the
    server that answers it.
  \<^item> \<open>Client_Parse\<close>: what a client decodes of results, \<open>client/protocol_version.go\<close>, \<open>discover.go\<close>,
    \<open>results.go\<close>, \<open>primitives.go\<close>. \<open>Client_Negotiation\<close>: the session of a client, the world it moves in
    and the handshakes of \<open>client/negotiation.go\<close>. \<open>Client_Session\<close>: the connection kept between
    requests, of \<open>client/protocol.go\<close>. \<open>Client_Catalogue\<close>: the operations of \<open>client/client.go\<close> and
    \<open>client/methods.go\<close>. Their laws: \<open>Client_Laws\<close> (the relations actions keep, as locales, and triples),
    \<open>Session_Laws\<close> (the invariant of a session), \<open>Catalogue_Laws\<close>, \<open>Client_Bounds\<close> (the requests an
    operation costs), \<open>Client_Properties\<close>.
  \<^item> \<open>Oauth_Config\<close>: \<open>server/oauth/config.go\<close>, \<open>metadata.go\<close>, \<open>routes.go\<close>. \<open>Bearer_Challenge\<close>:
    \<open>challenge.go\<close> of \<open>server/oauth/\<close>, a response writer under any sequence of writes, and of
    \<open>client/oauth/\<close>, which reads what the former writes. \<open>Redirect_Policy\<close>: \<open>server/oauth/register.go\<close>.
    \<open>Oauth_Discovery\<close>, \<open>Oauth_Client\<close>: the other files of \<open>client/oauth/\<close>, discovery and the flows.
    \<open>Oauth_Laws\<close>: triples over flows, as locales, and the laws of a client that runs any of them.
  \<^item> \<open>Client_Http\<close>: \<open>client/transport_http.go\<close>, the recipes of \<open>client/transport.go\<close>, and the error a
    refusal for want of authorization is. \<open>Http_Client_Laws\<close>: its laws, over the operations of a transport
    as a step relation and the locale of what a reply may change. \<open>Http_Delivery\<close> joins it with
    \<open>transport/http.go\<close>: \<open>writeSSEFrame\<close>, and the frames a client reads of what the server wrote.

  \<^bold>\<open>Correspondence.\<close> A Go struct is a \<open>record\<close>, an interface with known implementations a
  \<open>datatype\<close>, a string or a byte slice a list of bytes, a map an association list where the order of
  the bytes is observable, \<open>int\<close> an \<open>int\<close> with the wrap-around written out where it can occur.
  A returned error is a value of a sum type. Handlers of an application are functions in the
  records. Handling a message returns the reply, the frames it emitted, the session it opened and
  the events it dispatched; \<open>None\<close> stands for a panic of the code itself (an index out of range).
  An operation of a client is an action on its \<open>session\<close> that returns, fails with a \<open>trouble\<close>, or does
  not return. The transport, the clock, the credential and the configuration are functions in a
  \<open>world\<close>, of the number of moves the session has made: each answer of the outside is a fresh one.

  \<^bold>\<open>What the lemmas show.\<close> The parsers accept exactly the messages of the protocol and answer the
  others with the right error under the right id; printing and parsing are inverse; the middleware
  admits no request whose headers disagree with its body, and every request that mirrors it;
  following the cursors of a list gives its items once each in order; an URI template matches only
  what it was filled with; session ids cannot be claimed but by the text that was tagged; validated
  arguments read back as the engine saw them; the envelope changes nothing but its own members.
  Above them, \<open>Server\<close> shows that every message but a notification gets exactly one reply under its
  id, and that handling ends without a panic while list lengths and page sizes fit in an \<open>int\<close>;
  \<open>Tool_Calls\<close> that reply and event of a call agree; the transports that sessions pass through them
  unforged, and that the loop of the stdio transport, a step relation, has exactly the
  configurations of handling the lines one by one.

  Of the tool catalog they show that no reply of a meta tool exceeds the output limit, the size being
  the one the transport writes: the measure a batch takes on a copy is exact, room for the costlier of
  two failures is reserved before a call is run, the first call always finds it, and what a search
  counts before it renders never costs an entry. A batch runs a beginning of its calls and says which.
  Of the client they show that the mirrored headers of a call are those of its accepted schema, that a
  reply is taken only under the id of its request, and that a request of the client is answered by the
  server; and over a whole session, whatever the operations and the servers: that a standing connection
  was settled by one handshake at a version the client speaks, that no answer crosses credentials,
  that a call is mirrored from what the server of its own connection states, and how many requests an
  operation can cost. Of the OAuth packages they show that a challenge reads back as it was meant whatever
  its values hold, that no refusal leaves without one and nothing else changes on the way, that a
  registration is recorded only with redirect URIs a code may be delivered to, and, over any flows of a
  client and any answers, that credentials and refresh tokens reach only the server they belong to, that
  discovery stays out of the internal network, and that a response is acted on only if it answers.
  Of the HTTP transport of a client they show whose session and which credential a request presents,
  that nothing mirrored displaces them, what each status means, and that the frames the handler of the
  server writes, in one document or as an event stream, are the frames the client reads.

  \<^bold>\<open>Bounds.\<close> The JSON scanner recurses on fuel, the length of its input, which is proved to be
  enough, and refuses nesting above \<open>max_nesting\<close> as Go does. The reading of a listing recurses on the
  pages still allowed, \<open>maxListPages\<close> of the code; an operation of a client then makes at most the
  requests \<open>requests_bounded\<close> counts. No other definition has fuel.
  Termination of handling assumes \<open>roomy\<close> lists, as the code can overflow without it
  (\<open>paginate_overflow_panics\<close>).

  \<^bold>\<open>Parameters.\<close> The message authentication code of session ids, the generator of ids, the
  text functions of the framework, its validation engine, the letters and numbers of Unicode, and the
  handlers of the application. A theorem that needs the engine to name what it refuses says so
  (\<open>engine_speaks\<close>, \<open>engine_enforces\<close>). Of the OAuth packages: the reading and printing of URLs and
  addresses, the string package of the framework, the store of registered clients, the hidden
  characters of Unicode, the digest, and the \<open>surroundings\<close> of a client: what servers answer, the clock,
  randomness. Batches are taken to have fewer than \<open>10 ^ 18\<close> calls, which no slice exceeds.

  \<^bold>\<open>Not modelled.\<close> Logging, locks, cancellation by contexts other than at the loop of stdio,
  timing, the content-type gate and error rendering of the framework, failed writes over HTTP, the
  registration of routes, authentication glue, reflection on types of the application, the console
  commands, the assertions for tests, and the goroutines and the stdio transport of the client. The events of the calls of a
  batch are a result of \<open>execute_handle\<close>; a server that runs the meta tool as one of its tools gives
  only its own event. The gate that lets concurrent OAuth flows share one discovery, the check of the
  address a name resolves to, and the builders of tools and app resources are not modelled either.
\<close>

end
